(* ===== verification/Prelude.thy ===== *)
theory Prelude
  imports Main "HOL-Library.Word" "HOL-Library.Option_ord"
begin

text \<open>
  Shared vocabulary of the development: the machine types of the Rust sources as words,
  the standard-library idioms the code is written in (checked and saturating arithmetic,
  \<open>Ord::cmp\<close> with \<open>then_with\<close>, the \<open>?\<close> operator on \<open>Result\<close>, the predicates on
  \<open>Option\<close>), and the generic facts about them that the component theories use.
  Components collect their unfolding rules in the named theorem lists declared here.
\<close>

section \<open>Machine types\<close>

type_synonym u8 = "8 word"
type_synonym u16 = "16 word"
type_synonym u32 = "32 word"
type_synonym u64 = "64 word"
type_synonym u128 = "128 word"
type_synonym uuid = "128 word"

text \<open>A Unicode scalar value (Rust \<open>char\<close>) is its code point; a Rust \<open>String\<close> is the
  sequence of its scalar values.\<close>

type_synonym uchar = nat
type_synonym ustring = "uchar list"

definition is_scalar :: "uchar \<Rightarrow> bool" where
  "is_scalar c \<longleftrightarrow> c < 0x110000 \<and> \<not> (0xD800 \<le> c \<and> c \<le> 0xDFFF)"

text \<open>\<open>Uuid::is_nil\<close>: all 128 bits are zero.\<close>

definition is_nil :: "uuid \<Rightarrow> bool" where
  "is_nil u \<longleftrightarrow> u = 0"

named_theorems validation_defs "predicates that a record validator is made of"
named_theorems wire_defs "size limits of the wire format"

section \<open>Results\<close>

text \<open>\<open>Result<T, E>\<close> is the sum \<open>'e + 'a\<close> with \<open>Inl\<close> for the error; \<open>bind_res r f\<close> is
  \<open>let x = r?; f(x)\<close>, and \<open>ok_or\<close> turns an absent value into an error.\<close>

fun bind_res :: "'e + 'a \<Rightarrow> ('a \<Rightarrow> 'e + 'b) \<Rightarrow> 'e + 'b" where
  "bind_res (Inl e) f = Inl e"
| "bind_res (Inr x) f = f x"

definition ok_or :: "'a option \<Rightarrow> 'e \<Rightarrow> 'e + 'a" where
  "ok_or x e = (case x of None \<Rightarrow> Inl e | Some v \<Rightarrow> Inr v)"

definition is_ok :: "'e + 'a \<Rightarrow> bool" where
  "is_ok r \<longleftrightarrow> (case r of Inl _ \<Rightarrow> False | Inr _ \<Rightarrow> True)"

definition check :: "bool \<Rightarrow> 'e \<Rightarrow> 'e + unit" where
  "check b e = (if b then Inr () else Inl e)"

lemma bind_res_Inr [simp]: "bind_res r f = Inr y \<longleftrightarrow> (\<exists>x. r = Inr x \<and> f x = Inr y)"
  by (cases r) auto

lemma bind_res_Inl [simp]:
  "bind_res r f = Inl e \<longleftrightarrow> r = Inl e \<or> (\<exists>x. r = Inr x \<and> f x = Inl e)"
  by (cases r) auto

lemma ok_or_simps [simp]: "ok_or None e = Inl e" "ok_or (Some v) e = Inr v"
  by (simp_all add: ok_or_def)

lemma ok_or_Inr [simp]: "ok_or x e = Inr v \<longleftrightarrow> x = Some v"
  by (cases x) auto

lemma check_Inr [simp]: "check b e = Inr u \<longleftrightarrow> b"
  by (simp add: check_def)

lemma check_Inl [simp]: "check b e = Inl e' \<longleftrightarrow> \<not> b \<and> e = e'"
  by (auto simp: check_def)

lemma is_ok_simps [simp]: "is_ok (Inr x)" "\<not> is_ok (Inl e)"
  by (simp_all add: is_ok_def)

lemma is_ok_iff: "is_ok r \<longleftrightarrow> (\<exists>x. r = Inr x)"
  by (cases r) auto

lemma is_ok_unit: "is_ok (r :: 'e + unit) \<longleftrightarrow> r = Inr ()"
  by (cases r) auto

lemma is_ok_check [simp]: "is_ok (check b e) \<longleftrightarrow> b"
  by (simp add: check_def)

section \<open>Options\<close>

text \<open>\<open>Option::is_none_or\<close> and \<open>Option::is_some_and\<close>.\<close>

definition is_none_or :: "'a option \<Rightarrow> ('a \<Rightarrow> bool) \<Rightarrow> bool" where
  "is_none_or x p \<longleftrightarrow> (case x of None \<Rightarrow> True | Some v \<Rightarrow> p v)"

definition is_some_and :: "'a option \<Rightarrow> ('a \<Rightarrow> bool) \<Rightarrow> bool" where
  "is_some_and x p \<longleftrightarrow> (case x of None \<Rightarrow> False | Some v \<Rightarrow> p v)"

definition is_some :: "'a option \<Rightarrow> bool" where
  "is_some x \<longleftrightarrow> (case x of None \<Rightarrow> False | Some _ \<Rightarrow> True)"

lemma is_none_or_simps [simp]: "is_none_or None p" "is_none_or (Some v) p \<longleftrightarrow> p v"
  by (simp_all add: is_none_or_def)

lemma is_some_and_simps [simp]: "\<not> is_some_and None p" "is_some_and (Some v) p \<longleftrightarrow> p v"
  by (simp_all add: is_some_and_def)

lemma is_some_simps [simp]: "\<not> is_some None" "is_some (Some v)"
  by (simp_all add: is_some_def)

lemma is_some_iff: "is_some x \<longleftrightarrow> (\<exists>v. x = Some v)"
  by (cases x) auto

lemma is_some_conv: "is_some x \<longleftrightarrow> x \<noteq> None"
  by (cases x) auto

section \<open>Checked and saturating arithmetic\<close>

text \<open>\<open>checked_add\<close> yields \<open>None\<close> on overflow, \<open>saturating_add\<close> sticks at the maximum.\<close>

definition checked_add :: "'a::len word \<Rightarrow> 'a word \<Rightarrow> 'a word option" where
  "checked_add a b = (if unat a + unat b < 2 ^ LENGTH('a) then Some (a + b) else None)"

definition saturating_add :: "'a::len word \<Rightarrow> 'a word \<Rightarrow> 'a word" where
  "saturating_add a b = (if unat a + unat b < 2 ^ LENGTH('a) then a + b else - 1)"

lemma unat_checked_add: "checked_add a b = Some c \<Longrightarrow> unat c = unat a + unat b"
  by (auto simp: checked_add_def unat_word_ariths split: if_splits)

lemma checked_add_one_less: "checked_add a 1 = Some c \<Longrightarrow> a < c"
  by (cases "LENGTH('a)") (auto dest!: unat_checked_add simp: word_less_nat_alt)

definition saturating_sub :: "'a::len word \<Rightarrow> 'a word \<Rightarrow> 'a word" where
  "saturating_sub a b = (if b \<le> a then a - b else 0)"

lemma saturating_add_ge: "a \<le> saturating_add a b"
proof (cases "unat a + unat b < 2 ^ LENGTH('a)")
  case True
  then show ?thesis by (simp add: saturating_add_def word_le_nat_alt unat_word_ariths)
next
  case False
  then show ?thesis by (simp add: saturating_add_def)
qed

section \<open>Comparison\<close>

text \<open>\<open>std::cmp::Ordering\<close>, \<open>Ord::cmp\<close> and \<open>Ordering::then_with\<close>. The derived order on
  \<open>Option\<close> puts \<open>None\<close> first, as the order of \<open>HOL-Library.Option_ord\<close> does.\<close>

datatype ordering = Less | Equal | Greater

definition cmp :: "'a::linorder \<Rightarrow> 'a \<Rightarrow> ordering" where
  "cmp a b = (if a < b then Less else if a = b then Equal else Greater)"

definition then_with :: "ordering \<Rightarrow> ordering \<Rightarrow> ordering" where
  "then_with a b = (case a of Equal \<Rightarrow> b | _ \<Rightarrow> a)"

fun reverse_ordering :: "ordering \<Rightarrow> ordering" where
  "reverse_ordering Less = Greater"
| "reverse_ordering Equal = Equal"
| "reverse_ordering Greater = Less"

lemma cmp_Equal [simp]: "cmp a b = Equal \<longleftrightarrow> a = b"
  by (auto simp: cmp_def)

lemma cmp_Less [simp]: "cmp a b = Less \<longleftrightarrow> a < b"
  by (auto simp: cmp_def)

lemma cmp_Greater [simp]: "cmp a b = Greater \<longleftrightarrow> b < a"
  by (auto simp: cmp_def)

lemma cmp_swap: "cmp b a = reverse_ordering (cmp a b)"
  by (auto simp: cmp_def)

lemma then_with_swap:
  "then_with (reverse_ordering a) (reverse_ordering b) = reverse_ordering (then_with a b)"
  by (cases a) (auto simp: then_with_def)

lemma reverse_reverse_ordering [simp]: "reverse_ordering (reverse_ordering a) = a"
  by (cases a) auto

lemma then_with_Less [simp]:
  "then_with a b = Less \<longleftrightarrow> a = Less \<or> (a = Equal \<and> b = Less)"
  by (cases a) (auto simp: then_with_def)

lemma then_with_Equal [simp]: "then_with a b = Equal \<longleftrightarrow> a = Equal \<and> b = Equal"
  by (cases a) (auto simp: then_with_def)

lemma then_with_Greater [simp]:
  "then_with a b = Greater \<longleftrightarrow> a = Greater \<or> (a = Equal \<and> b = Greater)"
  by (cases a) (auto simp: then_with_def)

section \<open>Lists\<close>

text \<open>\<open>Iterator::position\<close>: the first index whose element satisfies the predicate.\<close>

fun position :: "('a \<Rightarrow> bool) \<Rightarrow> 'a list \<Rightarrow> nat option" where
  "position p [] = None"
| "position p (x # xs) = (if p x then Some 0 else map_option Suc (position p xs))"

lemma position_Some: "position p xs = Some i \<Longrightarrow> i < length xs \<and> p (xs ! i)"
  by (induction xs arbitrary: i) (auto split: if_splits)

lemma position_first: "position p xs = Some i \<Longrightarrow> j < i \<Longrightarrow> \<not> p (xs ! j)"
proof (induction xs arbitrary: i j)
  case (Cons x xs)
  then show ?case by (cases j) (auto split: if_splits)
qed simp

lemma position_None: "position p xs = None \<longleftrightarrow> (\<forall>x\<in>set xs. \<not> p x)"
  by (induction xs) auto

lemma position_cong_Some: "position p xs \<noteq> None \<longleftrightarrow> (\<exists>x\<in>set xs. p x)"
  by (simp add: position_None)

lemma length_filter_update:
  assumes "i < length xs" and "\<not> p (xs ! i)"
  shows "length (filter p (xs[i := y])) = length (filter p xs) + (if p y then 1 else 0)"
  using assms
proof (induction xs arbitrary: i)
  case (Cons x xs)
  then show ?case by (cases i) auto
qed simp

section \<open>Strings\<close>

text \<open>\<open>char::is_whitespace\<close>, \<open>str::split_whitespace\<close>, the \<open>from_str\<close> of an unsigned integer below \<open>limit\<close>, and a literal.\<close>

definition is_whitespace :: "uchar \<Rightarrow> bool" where
  "is_whitespace c \<longleftrightarrow> (9 \<le> c \<and> c \<le> 13) \<or> c \<in> {0x20, 0x85, 0xa0, 0x1680, 0x2028, 0x2029, 0x202f, 0x205f, 0x3000}
     \<or> (0x2000 \<le> c \<and> c \<le> 0x200a)"

fun split_words :: "ustring \<Rightarrow> ustring \<Rightarrow> ustring list" where
  "split_words word [] = (if word = [] then [] else [word])"
| "split_words word (c # cs) =
     (if is_whitespace c then (if word = [] then split_words [] cs else word # split_words [] cs)
      else split_words (word @ [c]) cs)"

definition str_split_whitespace :: "ustring \<Rightarrow> ustring list" where
  "str_split_whitespace s = split_words [] s"

fun parse_digits :: "nat \<Rightarrow> nat \<Rightarrow> ustring \<Rightarrow> nat option" where
  "parse_digits limit acc [] = Some acc"
| "parse_digits limit acc (c # cs) =
     (if 0x30 \<le> c \<and> c \<le> 0x39 \<and> acc * 10 + (c - 0x30) < limit then parse_digits limit (acc * 10 + (c - 0x30)) cs
      else None)"

definition parse_unsigned :: "nat \<Rightarrow> ustring \<Rightarrow> nat option" where
  "parse_unsigned limit s =
     (let digits = (case s of c # cs \<Rightarrow> if c = 0x2b then cs else s | [] \<Rightarrow> []) in
      if digits = [] then None else parse_digits limit 0 digits)"

definition lit :: "string \<Rightarrow> ustring" where
  "lit s = map of_char s"

text \<open>Prefixes, ASCII letters and the decimal form of a number.\<close>

definition starts_with_str :: "ustring \<Rightarrow> ustring \<Rightarrow> bool" where
  "starts_with_str p s \<longleftrightarrow> take (length p) s = p"

definition strip_prefix_str :: "ustring \<Rightarrow> ustring \<Rightarrow> ustring option" where
  "strip_prefix_str p s = (if starts_with_str p s then Some (drop (length p) s) else None)"

definition ascii_lower :: "uchar \<Rightarrow> uchar" where
  "ascii_lower c = (if 0x41 \<le> c \<and> c \<le> 0x5a then c + 0x20 else c)"

definition is_ascii_alphabetic :: "uchar \<Rightarrow> bool" where
  "is_ascii_alphabetic c \<longleftrightarrow> (0x41 \<le> c \<and> c \<le> 0x5a) \<or> (0x61 \<le> c \<and> c \<le> 0x7a)"

definition ascii_upper :: "uchar \<Rightarrow> uchar" where
  "ascii_upper c = (if 0x61 \<le> c \<and> c \<le> 0x7a then c - 0x20 else c)"

fun decimal :: "nat \<Rightarrow> ustring" where
  "decimal n = (if n < 10 then [0x30 + n] else decimal (n div 10) @ [0x30 + n mod 10])"

declare decimal.simps [simp del]

section \<open>Condition variables\<close>

text \<open>\<open>Condvar::wait_timeout\<close> and \<open>Condvar::wait\<close>, called at time \<open>now\<close>. \<open>notified\<close> is when the thread is notified, or woken for no reason, if
  that happens at all; it runs again with the lock \<open>delay\<close> and at least one tick later. A timed wait ends by itself after its
  duration, and tells so; a wait without a time-out does not end unless the thread is notified.\<close>

definition condvar_wait_timeout :: "nat \<Rightarrow> nat \<Rightarrow> nat option \<Rightarrow> nat \<Rightarrow> nat \<times> bool" where
  "condvar_wait_timeout now duration notified delay =
     (case notified of
        Some t \<Rightarrow> if t < now + duration then (max now t + Suc delay, False) else (now + duration + Suc delay, True)
      | None \<Rightarrow> (now + duration + Suc delay, True))"

definition condvar_wait :: "nat \<Rightarrow> nat option \<Rightarrow> nat \<Rightarrow> nat option" where
  "condvar_wait now notified delay = map_option (\<lambda>t. max now t + Suc delay) notified"

lemma condvar_wait_timeout_bounds:
  assumes "condvar_wait_timeout now duration notified delay = (at, timed_out)"
  shows "now < at" "at \<le> now + duration + Suc delay" "timed_out \<Longrightarrow> now + duration \<le> at"
  using assms by (auto simp: condvar_wait_timeout_def split: option.splits if_splits)

section \<open>State machines and versioned cells\<close>

text \<open>The contract of a component that starts in known states and moves by steps that keep an
  invariant.\<close>

locale state_machine =
  fixes init :: "'s \<Rightarrow> bool" and step :: "'s \<Rightarrow> 's \<Rightarrow> bool" and inv :: "'s \<Rightarrow> bool"
  assumes init_inv: "init s \<Longrightarrow> inv s"
    and step_inv: "inv s \<Longrightarrow> step s t \<Longrightarrow> inv t"
begin

lemma steps_inv: "step\<^sup>*\<^sup>* s t \<Longrightarrow> inv s \<Longrightarrow> inv t"
  by (induction rule: rtranclp_induct) (auto intro: step_inv)

lemma reachable_inv: "init s \<Longrightarrow> step\<^sup>*\<^sup>* s t \<Longrightarrow> inv t"
  using init_inv steps_inv by blast

end

text \<open>The contract of a cell written by compare-and-swap: a write names the version it expects, and a
  write that changes the cell raises the version. Writers that raced with the same expectation
  cannot both change the cell.\<close>

locale versioned_cell =
  fixes version :: "'s \<Rightarrow> 'v::order" and put :: "'v \<Rightarrow> 'a \<Rightarrow> 's \<Rightarrow> 's option"
  assumes put_version: "put e x s = Some t \<Longrightarrow> version s = e \<and> (t = s \<or> e < version t)"
begin

lemma version_le: "put e x s = Some t \<Longrightarrow> version s \<le> version t"
  using put_version by fastforce

lemma versions_le: "(\<lambda>s t. \<exists>e x. put e x s = Some t)\<^sup>*\<^sup>* s t \<Longrightarrow> version s \<le> version t"
  by (induction rule: rtranclp_induct) (auto dest: version_le intro: order_trans)

lemma stale_write_refused:
  assumes "put e x s = Some t" and "t \<noteq> s" and "(\<lambda>s t. \<exists>e x. put e x s = Some t)\<^sup>*\<^sup>* t u"
  shows "put e y u = None"
proof -
  have "e < version u" using put_version [OF assms(1)] assms(2) versions_le [OF assms(3)] by auto
  then show ?thesis using put_version by (cases "put e y u") auto
qed

end

end
