(* ===== verification/Terminal_Sanitize.thy ===== *)
theory Terminal_Sanitize
  imports Prelude
begin

text \<open>
  \<open>sanitize.rs\<close>: the filters that stand between untrusted terminal output and every report
  surface. \<open>terminal_capture\<close> runs an escape-sequence automaton over raw PTY bytes and keeps
  text only; its state can be carried over chunk boundaries, half-read UTF-8 characters
  included. \<open>sanitize_status_command_line\<close> does the same for one status row and may let
  colour (SGR) sequences through; \<open>truncate_status_line_ansi\<close> cuts such a row to a width.
  The loops are recursive functions over the bytes that are still unread; one step of a
  loop is a function of its own per automaton state, as the arms of the source's match.
\<close>

section \<open>UTF-8\<close>

definition utf8_encode :: "uchar \<Rightarrow> u8 list" where
  "utf8_encode c =
     (if c < 0x80 then [of_nat c]
      else if c < 0x800 then [of_nat (0xC0 + c div 0x40), of_nat (0x80 + c mod 0x40)]
      else if c < 0x10000 then
        [of_nat (0xE0 + c div 0x1000), of_nat (0x80 + c div 0x40 mod 0x40),
         of_nat (0x80 + c mod 0x40)]
      else
        [of_nat (0xF0 + c div 0x40000), of_nat (0x80 + c div 0x1000 mod 0x40),
         of_nat (0x80 + c div 0x40 mod 0x40), of_nat (0x80 + c mod 0x40)])"

definition as_bytes :: "ustring \<Rightarrow> u8 list" where
  "as_bytes s = concat (map utf8_encode s)"

text \<open>\<open>std::str::from_utf8\<close> on a slice that is as long as its first byte announces, with the
  single character the slice then holds.\<close>

definition continuation :: "u8 \<Rightarrow> bool" where
  "continuation b \<longleftrightarrow> 0x80 \<le> b \<and> b \<le> 0xBF"

definition second_ok :: "u8 \<Rightarrow> u8 \<Rightarrow> bool" where
  "second_ok b0 b1 \<longleftrightarrow>
     (if b0 = 0xE0 then 0xA0 \<le> b1 \<and> b1 \<le> 0xBF
      else if b0 = 0xED then 0x80 \<le> b1 \<and> b1 \<le> 0x9F
      else if b0 = 0xF0 then 0x90 \<le> b1 \<and> b1 \<le> 0xBF
      else if b0 = 0xF4 then 0x80 \<le> b1 \<and> b1 \<le> 0x8F
      else continuation b1)"

fun from_utf8 :: "u8 list \<Rightarrow> uchar option" where
  "from_utf8 [b0] = (if b0 < 0x80 then Some (unat b0) else None)"
| "from_utf8 [b0, b1] =
     (if 0xC2 \<le> b0 \<and> b0 \<le> 0xDF \<and> continuation b1
      then Some ((unat b0 - 0xC0) * 0x40 + (unat b1 - 0x80)) else None)"
| "from_utf8 [b0, b1, b2] =
     (if 0xE0 \<le> b0 \<and> b0 \<le> 0xEF \<and> second_ok b0 b1 \<and> continuation b2
      then Some ((unat b0 - 0xE0) * 0x1000 + (unat b1 - 0x80) * 0x40 + (unat b2 - 0x80))
      else None)"
| "from_utf8 [b0, b1, b2, b3] =
     (if 0xF0 \<le> b0 \<and> b0 \<le> 0xF4 \<and> second_ok b0 b1 \<and> continuation b2 \<and> continuation b3
      then Some ((unat b0 - 0xF0) * 0x40000 + (unat b1 - 0x80) * 0x1000
                 + (unat b2 - 0x80) * 0x40 + (unat b3 - 0x80))
      else None)"
| "from_utf8 _ = None"

definition utf8_char_width :: "u8 \<Rightarrow> nat option" where
  "utf8_char_width byte =
     (if byte \<le> 0x7f then Some 1
      else if 0xc2 \<le> byte \<and> byte \<le> 0xdf then Some 2
      else if 0xe0 \<le> byte \<and> byte \<le> 0xef then Some 3
      else if 0xf0 \<le> byte \<and> byte \<le> 0xf4 then Some 4
      else None)"

definition decode_utf8_char :: "u8 list \<Rightarrow> (uchar \<times> nat) option" where
  "decode_utf8_char bytes =
     (case bytes of
        [] \<Rightarrow> None
      | first # _ \<Rightarrow>
          (case utf8_char_width first of
             None \<Rightarrow> None
           | Some width \<Rightarrow>
               if length bytes < width then None
               else (case from_utf8 (take width bytes) of
                       None \<Rightarrow> None
                     | Some ch \<Rightarrow> Some (ch, width))))"

section \<open>Control characters\<close>

definition is_c0_or_c1 :: "uchar \<Rightarrow> bool" where
  "is_c0_or_c1 ch \<longleftrightarrow> ch \<le> 0x1f \<or> (0x7f \<le> ch \<and> ch \<le> 0x9f)"

definition strip_controls :: "ustring \<Rightarrow> ustring" where
  "strip_controls value = filter (\<lambda>ch. \<not> is_c0_or_c1 ch) value"

definition osc_field :: "ustring \<Rightarrow> ustring" where
  "osc_field value =
     List.map_filter
       (\<lambda>ch. if ch \<in> {0x0a, 0x0d, 0x09, 0x3b} then Some 0x20
             else if is_c0_or_c1 ch then None
             else Some ch) value"

section \<open>The capture automaton\<close>

datatype escape_state = Ground | Esc | Csi | String | StringEsc | Charset

record terminal_capture_state =
  escape :: escape_state
  pending_utf8_buf :: "u8 list"
  pending_utf8_len :: u8

definition default_capture_state :: terminal_capture_state where
  "default_capture_state =
     \<lparr>escape = Ground, pending_utf8_buf = [0, 0, 0, 0], pending_utf8_len = 0\<rparr>"

definition pending_utf8 :: "terminal_capture_state \<Rightarrow> u8 list" where
  "pending_utf8 st = take (unat (pending_utf8_len st)) (pending_utf8_buf st)"

definition clear_pending_utf8 :: "terminal_capture_state \<Rightarrow> terminal_capture_state" where
  "clear_pending_utf8 st = st\<lparr>pending_utf8_len := 0\<rparr>"

definition store_incomplete_utf8 ::
    "terminal_capture_state \<Rightarrow> u8 list \<Rightarrow> terminal_capture_state option" where
  "store_incomplete_utf8 st bytes =
     (case bytes of
        [] \<Rightarrow> None
      | first # _ \<Rightarrow>
          (case utf8_char_width first of
             None \<Rightarrow> None
           | Some width \<Rightarrow>
               if length bytes \<ge> width then None
               else (let len = min (length bytes) (length (pending_utf8_buf st)) in
                     Some (st\<lparr>pending_utf8_buf :=
                                 take len bytes @ drop len (pending_utf8_buf st),
                              pending_utf8_len := of_nat len\<rparr>))))"

definition flush_pending_utf8_at_capture_end ::
    "terminal_capture_state \<Rightarrow> ustring \<Rightarrow> ustring \<times> terminal_capture_state" where
  "flush_pending_utf8_at_capture_end st out =
     (if pending_utf8_len st \<noteq> 0 \<and> escape st = Ground then out @ [0xfffd] else out,
      clear_pending_utf8 st)"

text \<open>One turn of the loop: \<open>Advance out st k\<close> pushes \<open>out\<close> and moves past the byte and \<open>k\<close>
  extra (\<open>index += k + 1\<close>), \<open>Break st\<close> leaves the loop.\<close>

datatype loop_turn = Advance ustring terminal_capture_state nat | Break terminal_capture_state

definition string_introducer :: "u8 \<Rightarrow> bool" where
  "string_introducer b \<longleftrightarrow> b \<in> {0x90, 0x98, 0x9d, 0x9e, 0x9f}"

definition string_introducer_char :: "uchar \<Rightarrow> bool" where
  "string_introducer_char c \<longleftrightarrow> c \<in> {0x90, 0x98, 0x9d, 0x9e, 0x9f}"

definition capture_ground :: "u8 list \<Rightarrow> u8 \<Rightarrow> terminal_capture_state \<Rightarrow> loop_turn" where
  "capture_ground bytes byte st =
     (if byte = 0x1b then Advance [] (st\<lparr>escape := Esc\<rparr>) 0
      else if byte = 0x9b then Advance [] (st\<lparr>escape := Csi\<rparr>) 0
      else if string_introducer byte then Advance [] (st\<lparr>escape := String\<rparr>) 0
      else if 0x80 \<le> byte \<and> byte \<le> 0x9f then Advance [] st 0
      else if byte \<in> {0x09, 0x0a, 0x0d} then Advance [unat byte] st 0
      else if byte \<le> 0x1f \<or> byte = 0x7f then Advance [] st 0
      else if byte \<le> 0x7f then Advance [unat byte] st 0
      else (case decode_utf8_char bytes of
              Some (ch, len) \<Rightarrow>
                (if ch = 0x9b then Advance [] (st\<lparr>escape := Csi\<rparr>) (len - 1)
                 else if string_introducer_char ch
                   then Advance [] (st\<lparr>escape := String\<rparr>) (len - 1)
                 else if is_c0_or_c1 ch then Advance [] st (len - 1)
                 else Advance [ch] st (len - 1))
            | None \<Rightarrow>
                (case store_incomplete_utf8 st bytes of
                   Some st' \<Rightarrow> Break st'
                 | None \<Rightarrow> Advance [0xfffd] st 0)))"

definition capture_esc :: "u8 \<Rightarrow> escape_state" where
  "capture_esc byte =
     (if byte \<in> {0x18, 0x1a} then Ground
      else if byte = 0x1b then Esc
      else if byte = 0x5b then Csi
      else if byte \<in> {0x5d, 0x50, 0x5f, 0x5e, 0x58} then String
      else if byte \<in> {0x28, 0x29, 0x2a, 0x2b, 0x2d, 0x2e, 0x2f} then Charset
      else if byte = 0x9b then Csi
      else if string_introducer byte then String
      else if 0x20 \<le> byte \<and> byte \<le> 0x2f then Esc
      else Ground)"

definition capture_csi :: "u8 list \<Rightarrow> u8 \<Rightarrow> terminal_capture_state \<Rightarrow> loop_turn" where
  "capture_csi bytes byte st =
     (if byte \<ge> 0x80 then
        (case decode_utf8_char bytes of
           Some (ch, len) \<Rightarrow>
             Advance [] (if ch = 0x9c then st\<lparr>escape := Ground\<rparr> else st) (len - 1)
         | None \<Rightarrow>
             (case store_incomplete_utf8 st bytes of
                Some st' \<Rightarrow> Break st'
              | None \<Rightarrow> Advance [] (if byte = 0x9c then st\<lparr>escape := Ground\<rparr> else st) 0))
      else if byte \<in> {0x18, 0x1a, 0x9c} then Advance [] (st\<lparr>escape := Ground\<rparr>) 0
      else if byte = 0x1b then Advance [] (st\<lparr>escape := Esc\<rparr>) 0
      else if 0x40 \<le> byte \<and> byte \<le> 0x7e then Advance [] (st\<lparr>escape := Ground\<rparr>) 0
      else Advance [] st 0)"

definition capture_string :: "u8 list \<Rightarrow> u8 \<Rightarrow> terminal_capture_state \<Rightarrow> loop_turn" where
  "capture_string bytes byte st =
     (if byte \<ge> 0x80 then
        (case decode_utf8_char bytes of
           Some (ch, len) \<Rightarrow>
             Advance [] (if ch = 0x9c then st\<lparr>escape := Ground\<rparr> else st) (len - 1)
         | None \<Rightarrow>
             (case store_incomplete_utf8 st bytes of
                Some st' \<Rightarrow> Break st'
              | None \<Rightarrow> Advance [] (if byte = 0x9c then st\<lparr>escape := Ground\<rparr> else st) 0))
      else if byte \<in> {0x18, 0x1a} then Advance [] (st\<lparr>escape := Ground\<rparr>) 0
      else if byte \<in> {0x07, 0x9c} then Advance [] (st\<lparr>escape := Ground\<rparr>) 0
      else if byte = 0x1b then Advance [] (st\<lparr>escape := StringEsc\<rparr>) 0
      else Advance [] st 0)"

definition capture_string_esc :: "u8 list \<Rightarrow> u8 \<Rightarrow> terminal_capture_state \<Rightarrow> loop_turn" where
  "capture_string_esc bytes byte st =
     (let fallthrough =
        Advance [] (st\<lparr>escape := (if byte = 0x5c \<or> byte = 0x9c then Ground else String)\<rparr>) 0 in
      if byte \<ge> 0x80 then
        (case decode_utf8_char bytes of
           Some (ch, len) \<Rightarrow>
             Advance [] (st\<lparr>escape := (if ch = 0x9c then Ground else String)\<rparr>) (len - 1)
         | None \<Rightarrow>
             (case store_incomplete_utf8 st bytes of
                Some st' \<Rightarrow> Break st'
              | None \<Rightarrow> fallthrough))
      else fallthrough)"

definition capture_step :: "u8 list \<Rightarrow> u8 \<Rightarrow> terminal_capture_state \<Rightarrow> loop_turn" where
  "capture_step bytes byte st =
     (case escape st of
        Ground \<Rightarrow> capture_ground bytes byte st
      | Esc \<Rightarrow> Advance [] (st\<lparr>escape := capture_esc byte\<rparr>) 0
      | Csi \<Rightarrow> capture_csi bytes byte st
      | String \<Rightarrow> capture_string bytes byte st
      | StringEsc \<Rightarrow> capture_string_esc bytes byte st
      | Charset \<Rightarrow> Advance [] (st\<lparr>escape := Ground\<rparr>) 0)"

function capture_loop ::
    "u8 list \<Rightarrow> terminal_capture_state \<Rightarrow> ustring \<times> terminal_capture_state" where
  "capture_loop [] st = ([], st)"
| "capture_loop (byte # rest) st =
     (case capture_step (byte # rest) byte st of
        Break st' \<Rightarrow> ([], st')
      | Advance out st' k \<Rightarrow>
          (let (out', st'') = capture_loop (drop k rest) st' in (out @ out', st'')))"
  by pat_completeness auto
termination
  by (relation "measure (\<lambda>(bytes, st). length bytes)") auto

definition terminal_capture_from_state ::
    "u8 list \<Rightarrow> terminal_capture_state \<Rightarrow> ustring \<times> terminal_capture_state" where
  "terminal_capture_from_state bytes st =
     (if pending_utf8_len st \<noteq> 0
      then capture_loop (pending_utf8 st @ bytes) (clear_pending_utf8 st)
      else capture_loop bytes st)"

definition terminal_capture :: "u8 list \<Rightarrow> ustring" where
  "terminal_capture bytes =
     (let (out, st) = terminal_capture_from_state bytes default_capture_state in
      fst (flush_pending_utf8_at_capture_end st out))"

definition terminal_text :: "ustring \<Rightarrow> ustring" where
  "terminal_text value = strip_controls (terminal_capture (as_bytes value))"

section \<open>UTF-8 lemmas\<close>

lemma utf8_char_width_bounds: "utf8_char_width b = Some w \<Longrightarrow> 1 \<le> w \<and> w \<le> 4"
  by (auto simp: utf8_char_width_def split: if_splits)

lemma take_prefix_Cons: "w \<le> Suc (length xs) \<Longrightarrow> take w (b # xs @ ys) = take w (b # xs)"
  by (cases w) auto

lemma decode_utf8_char_Some:
  assumes "decode_utf8_char (b # bytes) = Some (ch, len)"
  shows "1 \<le> len" "len \<le> 4" "len \<le> Suc (length bytes)"
    "decode_utf8_char (b # bytes @ extra) = Some (ch, len)"
  using assms
  by (auto simp: decode_utf8_char_def take_prefix_Cons
      split: option.splits if_splits dest: utf8_char_width_bounds)

text \<open>\<open>store_incomplete_utf8\<close> as a test on the bytes and an update of the state.\<close>

definition utf8_incomplete :: "u8 list \<Rightarrow> bool" where
  "utf8_incomplete bytes \<longleftrightarrow>
     bytes \<noteq> [] \<and> is_some_and (utf8_char_width (hd bytes)) (\<lambda>w. length bytes < w)"

definition with_pending :: "terminal_capture_state \<Rightarrow> u8 list \<Rightarrow> terminal_capture_state" where
  "with_pending st bytes =
     (let len = min (length bytes) (length (pending_utf8_buf st)) in
      st\<lparr>pending_utf8_buf := take len bytes @ drop len (pending_utf8_buf st),
         pending_utf8_len := of_nat len\<rparr>)"

lemma store_incomplete_utf8_eq:
  "store_incomplete_utf8 st bytes =
     (if utf8_incomplete bytes then Some (with_pending st bytes) else None)"
  by (auto simp: store_incomplete_utf8_def utf8_incomplete_def with_pending_def Let_def
      split: list.splits option.splits)

lemma utf8_incomplete_length: "utf8_incomplete bytes \<Longrightarrow> length bytes \<le> 3"
  by (cases "utf8_char_width (hd bytes)")
    (auto simp: utf8_incomplete_def dest!: utf8_char_width_bounds)

lemma not_incomplete_extend:
  assumes "\<not> utf8_incomplete (b # bytes)"
  shows "\<not> utf8_incomplete (b # bytes @ extra)"
    and "decode_utf8_char (b # bytes) = None \<Longrightarrow> decode_utf8_char (b # bytes @ extra) = None"
  using assms
  by (auto simp: utf8_incomplete_def decode_utf8_char_def take_prefix_Cons
      is_some_and_def split: option.splits if_splits)

lemma unat_of_nat_u8: "n < 256 \<Longrightarrow> unat (of_nat n :: u8) = n"
  by (simp add: unat_of_nat)

lemma of_nat_le_u8: "m < 256 \<Longrightarrow> n < 256 \<Longrightarrow> (of_nat m :: u8) \<le> of_nat n \<longleftrightarrow> m \<le> n"
  by (simp add: word_le_nat_alt unat_of_nat_u8)

lemma from_utf8_scalar: "from_utf8 bs = Some c \<Longrightarrow> is_scalar c"
proof (induction bs rule: from_utf8.induct)
  case (1 b0)
  then show ?case
    by (auto simp: is_scalar_def word_less_nat_alt split: if_splits)
next
  case (2 b0 b1)
  then show ?case
    by (auto simp: is_scalar_def word_le_nat_alt continuation_def split: if_splits)
next
  case (3 b0 b1 b2)
  then show ?case
    by (auto simp: is_scalar_def word_le_nat_alt word_unat_eq_iff continuation_def second_ok_def
        split: if_splits)
next
  case (4 b0 b1 b2 b3)
  then show ?case
    by (auto simp: is_scalar_def word_le_nat_alt word_unat_eq_iff continuation_def second_ok_def
        split: if_splits)
qed auto

text \<open>The base-64 digits of a code point.\<close>

lemma base64_digits:
  fixes c :: nat
  shows "c = c div 0x1000 * 0x1000 + c div 0x40 mod 0x40 * 0x40 + c mod 0x40"
    and "c = c div 0x40000 * 0x40000 + c div 0x1000 mod 0x40 * 0x1000
           + c div 0x40 mod 0x40 * 0x40 + c mod 0x40"
proof -
  have d2: "c div 0x1000 = c div 0x40 div 0x40" "c div 0x40000 = c div 0x1000 div 0x40"
    by (simp_all add: div_mult2_eq [symmetric])
  have "c = c div 0x40 * 0x40 + c mod 0x40" "c div 0x40 = c div 0x1000 * 0x40 + c div 0x40 mod 0x40"
    "c div 0x1000 = c div 0x40000 * 0x40 + c div 0x1000 mod 0x40"
    by (simp_all only: d2 div_mult_mod_eq)
  then show "c = c div 0x1000 * 0x1000 + c div 0x40 mod 0x40 * 0x40 + c mod 0x40"
    "c = c div 0x40000 * 0x40000 + c div 0x1000 mod 0x40 * 0x1000
           + c div 0x40 mod 0x40 * 0x40 + c mod 0x40"
    by linarith+
qed

lemma decode_utf8_encode:
  assumes "is_scalar c"
  shows "decode_utf8_char (utf8_encode c @ rest) = Some (c, length (utf8_encode c))"
proof -
  consider "c < 0x80" | "0x80 \<le> c" "c < 0x800" | "0x800 \<le> c" "c < 0x10000" | "0x10000 \<le> c"
    by linarith
  then show ?thesis
  proof cases
    case 1
    then show ?thesis
      by (simp add: utf8_encode_def decode_utf8_char_def utf8_char_width_def word_le_nat_alt
          word_less_nat_alt unat_of_nat_u8)
  next
    case 2
    then have "c div 0x40 < 0x20" "2 \<le> c div 0x40" by auto
    with 2 show ?thesis
      by (simp add: utf8_encode_def decode_utf8_char_def utf8_char_width_def word_le_nat_alt
          continuation_def unat_of_nat_u8 del: of_nat_add)
  next
    case 3
    define x y z where "x = c div 0x1000" and "y = c div 0x40 mod 0x40" and "z = c mod 0x40"
    have c: "c = x * 0x1000 + y * 0x40 + z" and b: "y < 0x40" "z < 0x40" "x < 0x10"
      using 3 base64_digits(1) [of c] by (auto simp: x_def y_def z_def)
    have e: "utf8_encode c = [of_nat (0xE0 + x), of_nat (0x80 + y), of_nat (0x80 + z)]"
      using 3 by (simp add: utf8_encode_def x_def y_def z_def)
    show ?thesis
      using 3 assms b unfolding e is_scalar_def
      by (auto simp: decode_utf8_char_def utf8_char_width_def word_le_nat_alt word_unat_eq_iff
          continuation_def second_ok_def unat_of_nat_u8 c simp del: of_nat_add)
  next
    case 4
    define w x y z where "w = c div 0x40000" and "x = c div 0x1000 mod 0x40"
      and "y = c div 0x40 mod 0x40" and "z = c mod 0x40"
    have c: "c = w * 0x40000 + x * 0x1000 + y * 0x40 + z" and b: "x < 0x40" "y < 0x40" "z < 0x40" "w < 5"
      using assms base64_digits(2) [of c] by (auto simp: w_def x_def y_def z_def is_scalar_def)
    have e: "utf8_encode c =
        [of_nat (0xF0 + w), of_nat (0x80 + x), of_nat (0x80 + y), of_nat (0x80 + z)]"
      using 4 by (simp add: utf8_encode_def w_def x_def y_def z_def)
    show ?thesis
      using 4 assms b unfolding e is_scalar_def
      by (auto simp: decode_utf8_char_def utf8_char_width_def word_le_nat_alt word_unat_eq_iff
          continuation_def second_ok_def unat_of_nat_u8 c simp del: of_nat_add)
  qed
qed
section \<open>Automaton lemmas\<close>

text \<open>A turn of the loop depends on the state only through the automaton state:
  \<open>turn_core\<close> is what is pushed, the next automaton state and how far the index moves,
  or \<open>None\<close> where the loop is left.\<close>

definition turn_core :: "u8 list \<Rightarrow> u8 \<Rightarrow> escape_state \<Rightarrow> (ustring \<times> escape_state \<times> nat) option" where
  "turn_core bytes byte e =
     (case capture_step bytes byte (default_capture_state\<lparr>escape := e\<rparr>) of
        Advance out st k \<Rightarrow> Some (out, escape st, k)
      | Break _ \<Rightarrow> None)"

lemmas capture_defs = capture_step_def capture_ground_def capture_csi_def
  capture_string_def capture_string_esc_def store_incomplete_utf8_eq

lemma capture_step_core:
  "capture_step bytes byte st =
     (case turn_core bytes byte (escape st) of
        Some (out, e, k) \<Rightarrow> Advance out (st\<lparr>escape := e\<rparr>) k
      | None \<Rightarrow> Break (with_pending st bytes))"
  by (cases st, cases "escape st")
    (simp_all add: turn_core_def capture_defs Let_def split: option.split prod.split)

lemma turn_core_None: "turn_core bytes byte e = None \<Longrightarrow> utf8_incomplete bytes"
  by (cases e)
    (auto simp: turn_core_def capture_defs Let_def split: option.splits prod.splits if_splits)

lemma turn_core_width:
  "turn_core bytes byte e = Some (out, e', k) \<Longrightarrow>
     k = 0 \<or> (\<exists>ch len. decode_utf8_char bytes = Some (ch, len) \<and> k = len - 1)"
  by (cases e)
    (auto simp: turn_core_def capture_defs Let_def split: option.splits prod.splits if_splits)

lemma turn_core_cong:
  "decode_utf8_char bs = decode_utf8_char cs \<Longrightarrow> utf8_incomplete bs = utf8_incomplete cs \<Longrightarrow>
     turn_core bs byte e = turn_core cs byte e"
  by (cases e) (simp_all add: turn_core_def capture_defs Let_def split: option.split prod.split)

lemma turn_core_incomplete:
  assumes "utf8_incomplete (byte # rest)" and "e \<in> {Ground, Csi, String, StringEsc}"
  shows "turn_core (byte # rest) byte e = None"
proof -
  have b: "0xc2 \<le> byte" and d: "decode_utf8_char (byte # rest) = None"
    using assms(1)
    by (auto simp: utf8_incomplete_def decode_utf8_char_def utf8_char_width_def word_le_nat_alt
        split: if_splits)
  from b have "byte \<noteq> 0x1b" "byte \<noteq> 0x9b" "\<not> string_introducer byte" "\<not> byte \<le> 0x9f"
    "byte \<notin> {0x09, 0x0a, 0x0d}" "\<not> byte \<le> 0x1f" "byte \<noteq> 0x7f" "\<not> byte \<le> 0x7f" "0x80 \<le> byte"
    by (auto simp: string_introducer_def word_le_nat_alt)
  with assms d show ?thesis
    by (auto simp: turn_core_def capture_defs Let_def)
qed

lemma turn_core_extend:
  assumes "turn_core (byte # rest) byte e = Some (out, e', k)"
  shows "turn_core (byte # rest @ extra) byte e = Some (out, e', k)" "k \<le> length rest"
proof -
  show "k \<le> length rest"
    using turn_core_width [OF assms] by (auto dest: decode_utf8_char_Some(3))
  show "turn_core (byte # rest @ extra) byte e = Some (out, e', k)"
  proof (cases "utf8_incomplete (byte # rest)")
    case True
    then have "e \<in> {Esc, Charset}"
      using assms turn_core_incomplete [OF True] by (cases e) auto
    with assms show ?thesis by (auto simp: turn_core_def capture_step_def)
  next
    case False
    then have "decode_utf8_char (byte # rest @ extra) = decode_utf8_char (byte # rest)"
      "\<not> utf8_incomplete (byte # rest @ extra)"
      using not_incomplete_extend [OF False] decode_utf8_char_Some(4)
      by (cases "decode_utf8_char (byte # rest)"; auto)+
    with False assms turn_core_cong [of "byte # rest @ extra" "byte # rest" byte e]
    show ?thesis by simp
  qed
qed

text \<open>Two states behave alike when they agree on the automaton state and on the pending bytes;
  the stale rest of the four-byte buffer does not matter.\<close>

definition same_view :: "terminal_capture_state \<Rightarrow> terminal_capture_state \<Rightarrow> bool" where
  "same_view s t \<longleftrightarrow>
     length (pending_utf8_buf s) = 4 \<and> length (pending_utf8_buf t) = 4
     \<and> escape s = escape t \<and> pending_utf8_len s = pending_utf8_len t
     \<and> pending_utf8 s = pending_utf8 t"

lemma same_view_refl: "length (pending_utf8_buf s) = 4 \<Longrightarrow> same_view s s"
  by (simp add: same_view_def)

lemma same_view_escape: "same_view s t \<Longrightarrow> same_view (s\<lparr>escape := e\<rparr>) (t\<lparr>escape := e\<rparr>)"
  by (auto simp: same_view_def pending_utf8_def)

lemma with_pending_facts:
  assumes "length (pending_utf8_buf st) = 4" and "utf8_incomplete bytes"
  shows "escape (with_pending st bytes) = escape st"
    and "pending_utf8 (with_pending st bytes) = bytes"
    and "length (pending_utf8_buf (with_pending st bytes)) = 4"
    and "pending_utf8_len (with_pending st bytes) = of_nat (length bytes)"
    and "pending_utf8_len (with_pending st bytes) \<noteq> 0"
proof -
  have len: "length bytes \<le> 3" "bytes \<noteq> []"
    using assms(2) utf8_incomplete_length by (auto simp: utf8_incomplete_def)
  then have "length bytes = 1 \<or> length bytes = 2 \<or> length bytes = 3"
    by (cases bytes) (auto simp: le_Suc_eq numeral_eq_Suc)
  then show "escape (with_pending st bytes) = escape st"
    "pending_utf8 (with_pending st bytes) = bytes"
    "length (pending_utf8_buf (with_pending st bytes)) = 4"
    "pending_utf8_len (with_pending st bytes) = of_nat (length bytes)"
    "pending_utf8_len (with_pending st bytes) \<noteq> 0"
    using assms(1) len by (auto simp: with_pending_def pending_utf8_def Let_def)
qed

lemma capture_loop_view:
  assumes "same_view s t" and "pending_utf8_len s = 0"
  shows "fst (capture_loop bytes s) = fst (capture_loop bytes t)
     \<and> same_view (snd (capture_loop bytes s)) (snd (capture_loop bytes t))"
  using assms
proof (induction bytes s arbitrary: t rule: capture_loop.induct)
  case (1 st)
  then show ?case by simp
next
  case (2 byte rest st)
  have e: "escape t = escape st" and l: "length (pending_utf8_buf st) = 4"
    "length (pending_utf8_buf t) = 4"
    using "2.prems" by (auto simp: same_view_def)
  show ?case
  proof (cases "turn_core (byte # rest) byte (escape st)")
    case None
    have "same_view (with_pending st (byte # rest)) (with_pending t (byte # rest))"
      using with_pending_facts [OF l(1) turn_core_None [OF None]]
        with_pending_facts [OF l(2) turn_core_None [OF None]] e
      by (simp add: same_view_def)
    with None e show ?thesis by (simp add: capture_step_core)
  next
    case (Some r)
    obtain out e' k where r: "r = (out, e', k)" by (cases r)
    have "same_view (st\<lparr>escape := e'\<rparr>) (t\<lparr>escape := e'\<rparr>)"
      using "2.prems"(1) by (rule same_view_escape)
    moreover have "capture_step (byte # rest) byte st = Advance out (st\<lparr>escape := e'\<rparr>) k"
      using Some r by (simp add: capture_step_core)
    ultimately show ?thesis
      using "2.IH" [of out "st\<lparr>escape := e'\<rparr>" k "t\<lparr>escape := e'\<rparr>"] "2.prems" Some r e
      by (simp add: capture_step_core split_beta)
  qed
qed

text \<open>Running the loop on two chunks one after the other.\<close>

lemma capture_loop_append:
  assumes "length (pending_utf8_buf st) = 4" and "pending_utf8_len st = 0"
  shows "fst (capture_loop (a @ b) st) =
      fst (capture_loop a st) @ fst (terminal_capture_from_state b (snd (capture_loop a st)))
    \<and> same_view (snd (capture_loop (a @ b) st))
      (snd (terminal_capture_from_state b (snd (capture_loop a st))))"
  using assms
proof (induction a st rule: capture_loop.induct)
  case (1 st)
  have "length (pending_utf8_buf (snd (capture_loop b st))) = 4"
    using capture_loop_view [OF same_view_refl [OF 1(1)] 1(2), of b] by (simp add: same_view_def)
  with 1 show ?case by (simp add: terminal_capture_from_state_def same_view_refl)
next
  case (2 byte rest st)
  show ?case
  proof (cases "turn_core (byte # rest) byte (escape st)")
    case None
    let ?p = "with_pending st (byte # rest)"
    note facts = with_pending_facts [OF "2.prems"(1) turn_core_None [OF None]]
    have "same_view st (clear_pending_utf8 ?p)"
      using facts "2.prems"
      by (simp add: same_view_def clear_pending_utf8_def pending_utf8_def)
    from capture_loop_view [OF this "2.prems"(2), of "byte # rest @ b"] None facts
    show ?thesis
      by (simp add: capture_step_core terminal_capture_from_state_def del: capture_loop.simps(2))
         (simp add: capture_step_core)
  next
    case (Some r)
    obtain out e' k where r: "r = (out, e', k)" by (cases r)
    have "turn_core (byte # rest @ b) byte (escape st) = Some (out, e', k)" and k: "k \<le> length rest"
      using turn_core_extend [of byte rest "escape st" out e' k] Some r by auto
    with Some r "2.IH" [of out "st\<lparr>escape := e'\<rparr>" k] "2.prems" show ?thesis
      by (simp add: capture_step_core split_beta)
  qed
qed

lemma escape_update_same [simp]: "escape st = e \<Longrightarrow> st\<lparr>escape := e\<rparr> = st"
  by (cases st) simp

text \<open>What may appear in captured text.\<close>

definition printable :: "uchar \<Rightarrow> bool" where
  "printable c \<longleftrightarrow> is_scalar c \<and> (c \<in> {0x09, 0x0a, 0x0d} \<or> \<not> is_c0_or_c1 c)"

lemma decode_utf8_scalar: "decode_utf8_char bytes = Some (ch, len) \<Longrightarrow> is_scalar ch"
  by (auto simp: decode_utf8_char_def split: list.splits option.splits if_splits
      dest: from_utf8_scalar)

lemma turn_core_printable:
  "turn_core bytes byte e = Some (out, e', k) \<Longrightarrow> list_all printable out"
  by (cases e)
    (auto simp: turn_core_def capture_defs Let_def printable_def is_scalar_def is_c0_or_c1_def
       word_le_nat_alt word_unat_eq_iff
       split: option.splits prod.splits if_splits dest: decode_utf8_scalar)

lemma capture_loop_printable: "list_all printable (fst (capture_loop bytes st))"
proof (induction bytes st rule: capture_loop.induct)
  case (2 byte rest st)
  show ?case
  proof (cases "turn_core (byte # rest) byte (escape st)")
    case None
    then show ?thesis by (simp add: capture_step_core)
  next
    case (Some r)
    obtain out e' k where r: "r = (out, e', k)" by (cases r)
    with Some "2.IH" [of out "st\<lparr>escape := e'\<rparr>" k] show ?thesis
      by (auto simp: capture_step_core split_beta dest: turn_core_printable)
  qed
qed simp

lemma utf8_encode_Cons: "\<exists>b bs. utf8_encode c = b # bs"
  by (simp add: utf8_encode_def)

lemma utf8_encode_lead:
  assumes "is_scalar c" "0x80 \<le> c"
  shows "\<exists>b bs. utf8_encode c = b # bs \<and> 0xc2 \<le> b"
proof -
  obtain b bs where e: "utf8_encode c = b # bs" using utf8_encode_Cons by blast
  have "length (utf8_encode c) \<ge> 2" using assms(2) by (simp add: utf8_encode_def)
  with e decode_utf8_encode [OF assms(1), of "[]"] have "0xc2 \<le> b"
    by (auto simp: decode_utf8_char_def utf8_char_width_def word_le_nat_alt
        split: option.splits if_splits)
  with e show ?thesis by blast
qed

lemma turn_core_text:
  assumes "printable c" and "utf8_encode c = byte # bs"
  shows "turn_core (byte # bs @ rest) byte Ground = Some ([c], Ground, length bs)"
proof (cases "c < 0x80")
  case True
  then have b: "byte = of_nat c" "bs = []" using assms(2) by (auto simp: utf8_encode_def)
  with True assms(1) show ?thesis
    by (auto simp: turn_core_def capture_step_def capture_ground_def default_capture_state_def
        printable_def is_c0_or_c1_def string_introducer_def word_le_nat_alt word_unat_eq_iff
        unat_of_nat_u8)
next
  case False
  then have c: "\<not> is_c0_or_c1 c" and sc: "is_scalar c" using assms(1) by (auto simp: printable_def)
  have d: "decode_utf8_char (byte # bs @ rest) = Some (c, Suc (length bs))"
    using decode_utf8_encode [OF sc, of rest] assms(2) by simp
  have "0xc2 \<le> byte" using utf8_encode_lead [OF sc] False assms(2) by auto
  then have "byte \<noteq> 0x1b" "byte \<noteq> 0x9b" "\<not> string_introducer byte" "\<not> byte \<le> 0x9f"
    "byte \<notin> {0x09, 0x0a, 0x0d}" "\<not> byte \<le> 0x1f" "byte \<noteq> 0x7f" "\<not> byte \<le> 0x7f"
    by (auto simp: string_introducer_def word_le_nat_alt)
  with d c show ?thesis
    by (auto simp: turn_core_def capture_step_def capture_ground_def default_capture_state_def
        string_introducer_char_def is_c0_or_c1_def)
qed

lemma capture_loop_text:
  assumes "list_all printable s" and "escape st = Ground"
  shows "capture_loop (as_bytes s @ rest) st =
    (s @ fst (capture_loop rest st), snd (capture_loop rest st))"
  using assms(1)
proof (induction s)
  case (Cons c s)
  obtain byte bs where e: "utf8_encode c = byte # bs" using utf8_encode_Cons by blast
  with Cons turn_core_text [of c byte bs "as_bytes s @ rest"] assms(2) show ?case
    by (simp add: as_bytes_def capture_step_core)
qed (simp add: as_bytes_def)

lemma terminal_capture_text: "list_all printable s \<Longrightarrow> terminal_capture (as_bytes s) = s"
  using capture_loop_text [of s default_capture_state "[]"]
  by (simp add: terminal_capture_def terminal_capture_from_state_def default_capture_state_def
      flush_pending_utf8_at_capture_end_def)

lemma terminal_capture_printable: "list_all printable (terminal_capture bytes)"
  using capture_loop_printable [of bytes default_capture_state]
  by (simp add: terminal_capture_def terminal_capture_from_state_def default_capture_state_def
      flush_pending_utf8_at_capture_end_def split_beta printable_def is_scalar_def is_c0_or_c1_def)

text \<open>Bytes that keep the automaton in its state and print nothing.\<close>

definition silent :: "escape_state \<Rightarrow> u8 \<Rightarrow> bool" where
  "silent e b \<longleftrightarrow> (\<forall>rest. turn_core (b # rest) b e = Some ([], e, 0))"

lemma capture_loop_silent:
  assumes "list_all (silent e) bs" and "escape st = e"
  shows "capture_loop (bs @ rest) st = capture_loop rest st"
  using assms(1) by (induction bs) (simp_all add: capture_step_core silent_def assms(2))

lemma silent_String: "b < 0x80 \<Longrightarrow> b \<notin> {0x07, 0x18, 0x1a, 0x1b} \<Longrightarrow> silent String b"
  by (auto simp: silent_def turn_core_def capture_step_def capture_string_def
      default_capture_state_def word_le_nat_alt word_less_nat_alt)

lemma silent_Csi: "0x20 \<le> b \<Longrightarrow> b < 0x40 \<Longrightarrow> silent Csi b"
  by (auto simp: silent_def turn_core_def capture_step_def capture_csi_def
      default_capture_state_def word_le_nat_alt word_less_nat_alt)

text \<open>Capturing a stream chunk by chunk, the state carried along.\<close>

fun capture_chunks ::
    "u8 list list \<Rightarrow> terminal_capture_state \<Rightarrow> ustring \<times> terminal_capture_state" where
  "capture_chunks [] st = ([], st)"
| "capture_chunks (c # cs) st =
     (let (out, st') = terminal_capture_from_state c st;
          (out', st'') = capture_chunks cs st' in (out @ out', st''))"

lemma from_state_append:
  assumes "length (pending_utf8_buf st) = 4"
  shows "fst (terminal_capture_from_state (a @ b) st) =
      fst (terminal_capture_from_state a st)
      @ fst (terminal_capture_from_state b (snd (terminal_capture_from_state a st)))
    \<and> same_view (snd (terminal_capture_from_state (a @ b) st))
      (snd (terminal_capture_from_state b (snd (terminal_capture_from_state a st))))"
proof (cases "pending_utf8_len st = 0")
  case True
  then show ?thesis using capture_loop_append [OF assms True, of a b]
    by (simp add: terminal_capture_from_state_def [of _ st])
next
  case False
  have "length (pending_utf8_buf (clear_pending_utf8 st)) = 4"
    "pending_utf8_len (clear_pending_utf8 st) = 0"
    using assms by (simp_all add: clear_pending_utf8_def)
  from capture_loop_append [OF this, of "pending_utf8 st @ a" b] False show ?thesis
    by (simp add: terminal_capture_from_state_def [of _ st])
qed

lemma from_state_view:
  assumes "same_view s t"
  shows "fst (terminal_capture_from_state a s) = fst (terminal_capture_from_state a t)
    \<and> same_view (snd (terminal_capture_from_state a s)) (snd (terminal_capture_from_state a t))"
proof (cases "pending_utf8_len s = 0")
  case True
  with assms capture_loop_view [OF assms True, of a] show ?thesis
    by (simp add: terminal_capture_from_state_def same_view_def)
next
  case False
  have "same_view (clear_pending_utf8 s) (clear_pending_utf8 t)"
    using assms by (simp add: same_view_def clear_pending_utf8_def pending_utf8_def)
  from capture_loop_view [OF this, of "pending_utf8 s @ a"] False assms show ?thesis
    by (simp add: terminal_capture_from_state_def same_view_def clear_pending_utf8_def)
qed

lemma from_state_buffer:
  "length (pending_utf8_buf s) = 4 \<Longrightarrow>
     length (pending_utf8_buf (snd (terminal_capture_from_state a s))) = 4"
  using from_state_view [OF same_view_refl, of s a] by (simp add: same_view_def)

lemma capture_chunks_concat:
  assumes "cs \<noteq> []" and "length (pending_utf8_buf st) = 4"
  shows "fst (capture_chunks cs st) = fst (terminal_capture_from_state (concat cs) st)
    \<and> same_view (snd (terminal_capture_from_state (concat cs) st)) (snd (capture_chunks cs st))"
  using assms
proof (induction cs arbitrary: st rule: list_nonempty_induct)
  case (single c)
  then show ?case by (simp add: split_beta same_view_refl from_state_buffer)
next
  case (cons c cs)
  let ?st = "snd (terminal_capture_from_state c st)"
  have "length (pending_utf8_buf ?st) = 4" using cons.prems by (rule from_state_buffer)
  from cons.IH [OF this] from_state_append [OF cons.prems, of c "concat cs"] show ?case
    by (simp add: split_beta same_view_def)
qed

lemma terminal_text_keeps:
  assumes "list_all (\<lambda>c. is_scalar c \<and> \<not> is_c0_or_c1 c) v"
  shows "terminal_text v = v"
proof -
  have "terminal_capture (as_bytes v) = v"
    using assms by (intro terminal_capture_text) (auto simp: list_all_iff printable_def)
  with assms show ?thesis by (simp add: terminal_text_def strip_controls_def list_all_iff)
qed

lemma terminal_text_plain: "list_all (\<lambda>c. is_scalar c \<and> \<not> is_c0_or_c1 c) (terminal_text v)"
  using terminal_capture_printable [of "as_bytes v"]
  by (auto simp: terminal_text_def strip_controls_def list_all_iff printable_def)

section \<open>Properties of captured text\<close>

text \<open>C15. Captured text is clean: whatever bytes a program prints, \<open>terminal_capture\<close> returns
  valid scalar values that are no control characters other than tab, line feed and
  carriage return, and \<open>terminal_text\<close> returns no control character at all.\<close>

theorem capture_output_clean:
  "list_all printable (terminal_capture bytes)
   \<and> list_all (\<lambda>c. is_scalar c \<and> \<not> is_c0_or_c1 c) (terminal_text value)"
  using terminal_capture_printable terminal_text_plain by blast

text \<open>Captured text is kept: \<open>terminal_text\<close> returns every string of printable scalar values
  unchanged, in any script (multi-byte characters included), so it is idempotent.\<close>

theorem terminal_text_transparent:
  "(list_all (\<lambda>c. is_scalar c \<and> \<not> is_c0_or_c1 c) value \<longrightarrow> terminal_text value = value)
   \<and> terminal_text (terminal_text other) = terminal_text other"
  using terminal_text_keeps terminal_text_plain [of other] by blast

theorem terminal_text_transparent_witness:
  "terminal_text [0x41, 0xac00, 0x1f600, 0xe9] = [0x41, 0xac00, 0x1f600, 0xe9]"
  using terminal_text_transparent [of "[0x41, 0xac00, 0x1f600, 0xe9]" "[]"]
  by (simp add: is_scalar_def is_c0_or_c1_def)

text \<open>C20. Chunk boundaries do not matter: capturing a stream chunk by chunk with the state carried
  along gives exactly the text of the whole stream, leaves the same escape state and the same
  unfinished UTF-8 character, and the final flush completes the same capture, wherever the
  boundaries fall (inside an escape sequence or inside a UTF-8 character).\<close>

theorem capture_chunk_invariance:
  "let (out, st) = capture_chunks chunks default_capture_state;
       (whole, st') = terminal_capture_from_state (concat chunks) default_capture_state in
     out = whole \<and> escape st = escape st' \<and> pending_utf8 st = pending_utf8 st'
     \<and> pending_utf8_len st = pending_utf8_len st'
     \<and> fst (flush_pending_utf8_at_capture_end st out) = terminal_capture (concat chunks)"
proof (cases "chunks = []")
  case True
  then show ?thesis by (simp add: terminal_capture_def terminal_capture_from_state_def
      default_capture_state_def)
next
  case False
  have "length (pending_utf8_buf default_capture_state) = 4"
    by (simp add: default_capture_state_def)
  from capture_chunks_concat [OF False this] show ?thesis
    by (simp add: terminal_capture_def split_beta flush_pending_utf8_at_capture_end_def
        same_view_def)
qed

text \<open>C8. Escape sequences leave no trace: a complete control sequence (\<open>ESC [\<close>, parameter and
  intermediate bytes, a final byte) and a complete control string (\<open>ESC\<close> with one of
  \<open>] P _ ^ X\<close>, any payload of seven-bit bytes without terminators, \<open>BEL\<close>) contribute no
  character, and what follows is captured as if they had not been there.\<close>

theorem escape_sequences_leave_no_trace:
  assumes "escape st = Ground" and "pending_utf8_len st = 0"
  shows "(list_all (\<lambda>b. 0x20 \<le> b \<and> b < 0x40) params \<and> 0x40 \<le> final \<and> final \<le> 0x7e \<longrightarrow>
      terminal_capture_from_state ([0x1b, 0x5b] @ params @ [final] @ rest) st
      = terminal_capture_from_state rest st)
   \<and> (list_all (\<lambda>b. b < 0x80 \<and> b \<notin> {0x07, 0x18, 0x1a, 0x1b}) payload
        \<and> intro \<in> {0x5d, 0x50, 0x5f, 0x5e, 0x58} \<longrightarrow>
      terminal_capture_from_state ([0x1b, intro] @ payload @ [0x07] @ rest) st
      = terminal_capture_from_state rest st)"
proof (intro conjI impI)
  have ground: "st\<lparr>escape := Ground\<rparr> = st" using assms(1) by simp
  {
    assume a: "list_all (\<lambda>b. 0x20 \<le> b \<and> b < 0x40) params \<and> 0x40 \<le> final \<and> final \<le> 0x7e"
    then have fin: "\<not> 0x80 \<le> final" "final \<noteq> 0x1b" "final \<notin> {0x18, 0x1a, 0x9c}"
      by (auto simp: word_le_nat_alt)
    have "list_all (silent Csi) params" using a by (auto simp: list_all_iff intro: silent_Csi)
    then have "capture_loop (params @ final # rest) (st\<lparr>escape := Csi\<rparr>)
        = capture_loop (final # rest) (st\<lparr>escape := Csi\<rparr>)"
      by (rule capture_loop_silent) simp
    with a fin ground show "terminal_capture_from_state ([0x1b, 0x5b] @ params @ [final] @ rest) st
      = terminal_capture_from_state rest st"
      using assms
      by (simp add: terminal_capture_from_state_def capture_step_def capture_ground_def
          capture_esc_def capture_csi_def)
  }
  {
    assume a: "list_all (\<lambda>b. b < 0x80 \<and> b \<notin> {0x07, 0x18, 0x1a, 0x1b}) payload
        \<and> intro \<in> {0x5d, 0x50, 0x5f, 0x5e, 0x58}"
    then have "capture_esc intro = String"
      by (auto simp: capture_esc_def)
    moreover have "list_all (silent String) payload"
      using a by (auto simp: list_all_iff intro: silent_String)
    then have "capture_loop (payload @ 0x07 # rest) (st\<lparr>escape := String\<rparr>)
        = capture_loop (0x07 # rest) (st\<lparr>escape := String\<rparr>)"
      by (rule capture_loop_silent) simp
    ultimately show "terminal_capture_from_state ([0x1b, intro] @ payload @ [0x07] @ rest) st
      = terminal_capture_from_state rest st"
      using assms ground
      by (simp add: terminal_capture_from_state_def capture_step_def capture_ground_def
          capture_string_def)
  }
qed

theorem escape_sequences_leave_no_trace_witness:
  "terminal_capture_from_state ([0x1b, 0x5b] @ [0x33, 0x31] @ [0x6d] @ [0x41]) default_capture_state
     = terminal_capture_from_state [0x41] default_capture_state
   \<and> terminal_capture_from_state ([0x1b, 0x5d] @ [0x30, 0x3b, 0x78] @ [0x07] @ [0x41])
       default_capture_state = terminal_capture_from_state [0x41] default_capture_state"
proof -
  have "escape default_capture_state = Ground" "pending_utf8_len default_capture_state = 0"
    by (simp_all add: default_capture_state_def)
  from escape_sequences_leave_no_trace [OF this, of "[0x33, 0x31]" "0x6d" "[0x41]"
      "[0x30, 0x3b, 0x78]" "0x5d"]
  show ?thesis by simp
qed

end
