(* ===== verification/Status_Line.thy ===== *)
theory Status_Line
  imports Terminal_Sanitize "HOL-Library.Sublist"
begin

text \<open>
  The status row of \<open>sanitize.rs\<close>: \<open>sanitize_status_command_line\<close> reduces the output of an
  untrusted status command to one safe line that may carry colour, and
  \<open>truncate_status_line_ansi\<close> cuts a line to the terminal width without splitting a colour
  sequence. The grapheme segmentation and display widths come from the crates
  \<open>unicode_segmentation\<close> and \<open>unicode_width\<close>; both are parameters. The lemmas show that the
  line consists of printable characters and complete, bounded SGR sequences closed by a
  reset, and that the width of the row is never exceeded.
\<close>

section \<open>Sanitising one line\<close>

definition MAX_CSI_PARAM_BYTES :: nat where
  "MAX_CSI_PARAM_BYTES = 64"

definition MAX_CSI_PARAM_COUNT :: nat where
  "MAX_CSI_PARAM_COUNT = 16"

record status_parser =
  sp_state :: escape_state
  sp_csi_params :: "u8 list"
  sp_csi_param_semicolons :: nat
  sp_csi_valid :: bool
  sp_emitted_sgr :: bool

definition initial_status_parser :: status_parser where
  "initial_status_parser = \<lparr>sp_state = Ground, sp_csi_params = [], sp_csi_param_semicolons = 0,
     sp_csi_valid = True, sp_emitted_sgr = False\<rparr>"

definition enter_csi :: "status_parser \<Rightarrow> status_parser" where
  "enter_csi p = p\<lparr>sp_csi_params := [], sp_csi_param_semicolons := 0, sp_csi_valid := True,
     sp_state := Csi\<rparr>"

text \<open>A turn pushes characters, changes the parser and moves past the byte and \<open>k\<close> more.\<close>

type_synonym status_turn = "ustring \<times> status_parser \<times> nat"

definition status_ground :: "u8 list \<Rightarrow> u8 \<Rightarrow> status_parser \<Rightarrow> status_turn" where
  "status_ground bytes byte p =
     (if byte = 0x1b then ([], p\<lparr>sp_state := Esc\<rparr>, 0)
      else if byte = 0x9b then ([], enter_csi p, 0)
      else if string_introducer byte then ([], p\<lparr>sp_state := String\<rparr>, 0)
      else if 0x80 \<le> byte \<and> byte \<le> 0x9f then ([], p, 0)
      else if byte = 0x09 then ([], p, 0)
      else if byte \<le> 0x1f \<or> byte = 0x7f then ([], p, 0)
      else if byte \<le> 0x7f then ([unat byte], p, 0)
      else (case decode_utf8_char bytes of
              Some (ch, len) \<Rightarrow>
                (if ch = 0x9b then ([], enter_csi p, len - 1)
                 else if string_introducer_char ch then ([], p\<lparr>sp_state := String\<rparr>, len - 1)
                 else if is_c0_or_c1 ch then ([], p, len - 1)
                 else ([ch], p, len - 1))
            | None \<Rightarrow> ([0xfffd], p, 0)))"

definition status_esc :: "u8 \<Rightarrow> status_parser \<Rightarrow> status_turn" where
  "status_esc byte p =
     (if byte \<in> {0x18, 0x1a} then ([], p\<lparr>sp_state := Ground\<rparr>, 0)
      else if byte = 0x1b then ([], p\<lparr>sp_state := Esc\<rparr>, 0)
      else if byte = 0x5b then ([], enter_csi p, 0)
      else if byte \<in> {0x5d, 0x50, 0x5f, 0x5e, 0x58} then ([], p\<lparr>sp_state := String\<rparr>, 0)
      else if byte \<in> {0x28, 0x29, 0x2a, 0x2b, 0x2d, 0x2e, 0x2f}
        then ([], p\<lparr>sp_state := Charset\<rparr>, 0)
      else if byte = 0x9b then ([], enter_csi p, 0)
      else if string_introducer byte then ([], p\<lparr>sp_state := String\<rparr>, 0)
      else if 0x20 \<le> byte \<and> byte \<le> 0x2f then ([], p, 0)
      else ([], p\<lparr>sp_state := Ground\<rparr>, 0))"

definition csi_param_byte :: "u8 \<Rightarrow> bool" where
  "csi_param_byte b \<longleftrightarrow> (0x30 \<le> b \<and> b \<le> 0x39) \<or> b = 0x3b \<or> b = 0x3a"

definition sgr_text :: "u8 list \<Rightarrow> ustring" where
  "sgr_text params = [0x1b, 0x5b] @ map unat params @ [0x6d]"

definition status_csi :: "bool \<Rightarrow> u8 list \<Rightarrow> u8 \<Rightarrow> status_parser \<Rightarrow> status_turn" where
  "status_csi allow_color bytes byte p =
     (if byte \<ge> 0x80 then
        (case decode_utf8_char bytes of
           Some (ch, len) \<Rightarrow>
             ([], if ch = 0x9c then p\<lparr>sp_state := Ground\<rparr> else p\<lparr>sp_csi_valid := False\<rparr>, len - 1)
         | None \<Rightarrow>
             ([], if byte = 0x9c then p\<lparr>sp_state := Ground\<rparr> else p\<lparr>sp_csi_valid := False\<rparr>, 0))
      else if byte \<in> {0x18, 0x1a, 0x9c} then ([], p\<lparr>sp_state := Ground\<rparr>, 0)
      else if byte = 0x1b then ([], p\<lparr>sp_state := Esc\<rparr>, 0)
      else if 0x40 \<le> byte \<and> byte \<le> 0x7e then
        (let is_sgr = byte = 0x6d;
             within_limits = length (sp_csi_params p) \<le> MAX_CSI_PARAM_BYTES
                \<and> sp_csi_param_semicolons p < MAX_CSI_PARAM_COUNT in
         if allow_color \<and> is_sgr \<and> sp_csi_valid p \<and> within_limits
         then (sgr_text (sp_csi_params p), p\<lparr>sp_emitted_sgr := True, sp_state := Ground\<rparr>, 0)
         else ([], p\<lparr>sp_state := Ground\<rparr>, 0))
      else if csi_param_byte byte then
        (if sp_csi_valid p then
           (let would_exceed_byte_limit = length (sp_csi_params p) \<ge> MAX_CSI_PARAM_BYTES;
                would_exceed_param_count =
                  byte = 0x3b \<and> sp_csi_param_semicolons p \<ge> MAX_CSI_PARAM_COUNT - 1 in
            if would_exceed_byte_limit \<or> would_exceed_param_count
            then ([], p\<lparr>sp_csi_valid := False\<rparr>, 0)
            else ([], p\<lparr>sp_csi_param_semicolons :=
                          (if byte = 0x3b then sp_csi_param_semicolons p + 1
                           else sp_csi_param_semicolons p),
                        sp_csi_params := sp_csi_params p @ [byte]\<rparr>, 0))
         else ([], p, 0))
      else ([], p\<lparr>sp_csi_valid := False\<rparr>, 0))"

definition status_string :: "u8 list \<Rightarrow> u8 \<Rightarrow> status_parser \<Rightarrow> status_turn" where
  "status_string bytes byte p =
     (if byte \<ge> 0x80 then
        (case decode_utf8_char bytes of
           Some (ch, len) \<Rightarrow> ([], if ch = 0x9c then p\<lparr>sp_state := Ground\<rparr> else p, len - 1)
         | None \<Rightarrow> ([], if byte = 0x9c then p\<lparr>sp_state := Ground\<rparr> else p, 0))
      else if byte \<in> {0x18, 0x1a} then ([], p\<lparr>sp_state := Ground\<rparr>, 0)
      else if byte \<in> {0x07, 0x9c} then ([], p\<lparr>sp_state := Ground\<rparr>, 0)
      else if byte = 0x1b then ([], p\<lparr>sp_state := StringEsc\<rparr>, 0)
      else ([], p, 0))"

definition status_string_esc :: "u8 list \<Rightarrow> u8 \<Rightarrow> status_parser \<Rightarrow> status_turn" where
  "status_string_esc bytes byte p =
     (let fallthrough =
        ([], p\<lparr>sp_state := (if byte = 0x5c \<or> byte = 0x9c then Ground else String)\<rparr>, 0) in
      if byte \<ge> 0x80 then
        (case decode_utf8_char bytes of
           Some (ch, len) \<Rightarrow>
             ([], p\<lparr>sp_state := (if ch = 0x9c then Ground else String)\<rparr>, len - 1)
         | None \<Rightarrow> fallthrough)
      else fallthrough)"

definition status_step :: "bool \<Rightarrow> u8 list \<Rightarrow> u8 \<Rightarrow> status_parser \<Rightarrow> status_turn" where
  "status_step allow_color bytes byte p =
     (case sp_state p of
        Ground \<Rightarrow> status_ground bytes byte p
      | Esc \<Rightarrow> status_esc byte p
      | Csi \<Rightarrow> status_csi allow_color bytes byte p
      | String \<Rightarrow> status_string bytes byte p
      | StringEsc \<Rightarrow> status_string_esc bytes byte p
      | Charset \<Rightarrow> ([], p\<lparr>sp_state := Ground\<rparr>, 0))"

function status_loop :: "bool \<Rightarrow> u8 list \<Rightarrow> status_parser \<Rightarrow> ustring \<times> status_parser" where
  "status_loop allow_color [] p = ([], p)"
| "status_loop allow_color (byte # rest) p =
     (if byte = 0x0a \<or> byte = 0x0d then ([], p)
      else (let (out, p', k) = status_step allow_color (byte # rest) byte p;
                (out', p'') = status_loop allow_color (drop k rest) p' in
            (out @ out', p'')))"
  by pat_completeness auto
termination
  by (relation "measure (\<lambda>(c, bytes, p). length bytes)") auto

definition sgr_reset :: ustring where
  "sgr_reset = [0x1b, 0x5b, 0x30, 0x6d]"

definition sanitize_status_command_line :: "u8 list \<Rightarrow> bool \<Rightarrow> ustring" where
  "sanitize_status_command_line bytes allow_color =
     (let (out, p) = status_loop allow_color bytes initial_status_parser in
      if sp_emitted_sgr p then out @ sgr_reset else out)"

section \<open>Splitting and truncating\<close>

text \<open>Slices of the line are byte strings; \<open>split_loop rest text\<close> has read up to \<open>rest\<close> with
  \<open>text\<close> the bytes from \<open>text_start\<close> on.\<close>

datatype status_segment = Sgr "u8 list" | Text "u8 list"

fun scan_csi :: "u8 list \<Rightarrow> u8 list \<Rightarrow> bool \<Rightarrow> status_segment list \<times> u8 list" where
  "scan_csi [] seen sgr_valid = ([], [])"
| "scan_csi (b # bs) seen sgr_valid =
     (if csi_param_byte b then scan_csi bs (seen @ [b]) sgr_valid
      else if b = 0x6d
        then (if sgr_valid then [Sgr ([0x1b, 0x5b] @ seen @ [b])] else [], bs)
      else if 0x40 \<le> b \<and> b \<le> 0x7e then ([], bs)
      else if b = 0x1b then ([], b # bs)
      else scan_csi bs (seen @ [b]) False)"

lemma scan_csi_length: "length (snd (scan_csi bs seen v)) \<le> length bs"
  by (induction bs seen v rule: scan_csi.induct) auto

definition text_segment :: "u8 list \<Rightarrow> status_segment list" where
  "text_segment text = (if text = [] then [] else [Text text])"

function split_loop :: "u8 list \<Rightarrow> u8 list \<Rightarrow> status_segment list" where
  "split_loop [] text = text_segment text"
| "split_loop (b # bs) text =
     (if b = 0x1b then
        text_segment text @
        (case bs of
           c # cs \<Rightarrow>
             (if c = 0x5b then
                (let r = scan_csi cs [] True in fst r @ split_loop (snd r) [])
              else split_loop bs [])
         | [] \<Rightarrow> split_loop [] [])
      else split_loop bs (text @ [b]))"
  by pat_completeness auto
termination
  by (relation "measure (\<lambda>(bs, text). length bs)")
    (auto intro: le_less_trans [OF scan_csi_length])

definition split_sgr_and_text :: "u8 list \<Rightarrow> status_segment list" where
  "split_sgr_and_text line = split_loop line []"

definition ellipsis :: "u8 list" where
  "ellipsis = [0xe2, 0x80, 0xa6]"

fun take_clusters ::
    "(u8 list \<Rightarrow> nat) \<Rightarrow> nat \<Rightarrow> u8 list list \<Rightarrow> nat \<Rightarrow> u8 list \<times> nat \<times> bool" where
  "take_clusters str_width target [] acc = ([], acc, False)"
| "take_clusters str_width target (cluster # cs) acc =
     (if acc + str_width cluster > target then ([], acc, True)
      else (let (buf, acc', truncated) =
              take_clusters str_width target cs (acc + str_width cluster) in
            (cluster @ buf, acc', truncated)))"

fun truncate_segments ::
    "(u8 list \<Rightarrow> nat) \<Rightarrow> (u8 list \<Rightarrow> u8 list list) \<Rightarrow> nat \<Rightarrow> status_segment list \<Rightarrow> nat
       \<Rightarrow> u8 list \<times> bool" where
  "truncate_segments str_width graphemes target [] acc = ([], False)"
| "truncate_segments str_width graphemes target (Sgr seq # segs) acc =
     (if acc < target
      then (let (buf, emitted) = truncate_segments str_width graphemes target segs acc in
            (seq @ buf, True))
      else ([], False))"
| "truncate_segments str_width graphemes target (Text text # segs) acc =
     (let (buf, acc', truncated) = take_clusters str_width target (graphemes text) acc in
      if truncated then (buf, False)
      else (let (buf', emitted) = truncate_segments str_width graphemes target segs acc' in
            (buf @ buf', emitted)))"

fun segment_bytes :: "status_segment \<Rightarrow> u8 list" where
  "segment_bytes (Sgr seq) = seq"
| "segment_bytes (Text text) = text"

fun segment_width :: "(u8 list \<Rightarrow> nat) \<Rightarrow> status_segment \<Rightarrow> nat" where
  "segment_width str_width (Sgr seq) = 0"
| "segment_width str_width (Text text) = str_width text"

fun is_sgr_segment :: "status_segment \<Rightarrow> bool" where
  "is_sgr_segment (Sgr seq) = True"
| "is_sgr_segment (Text text) = False"

definition truncate_status_line_ansi ::
    "(u8 list \<Rightarrow> nat) \<Rightarrow> (u8 list \<Rightarrow> u8 list list) \<Rightarrow> u8 list \<Rightarrow> u16 \<Rightarrow> u8 list" where
  "truncate_status_line_ansi str_width graphemes line max_width =
     (let width = unat max_width in
      if width = 0 then []
      else
        let segments = split_sgr_and_text line;
            total_visible_width = sum_list (map (segment_width str_width) segments);
            (buf, emitted_sgr) =
              (if total_visible_width \<le> width
               then (concat (map segment_bytes segments), list_ex is_sgr_segment segments)
               else
                 let ellipsis_margin = (if width \<ge> 2 then 1 else 0);
                     target = width - ellipsis_margin;
                     (buf, emitted) = truncate_segments str_width graphemes target segments 0
                 in (if ellipsis_margin > 0 then buf @ ellipsis else buf, emitted))
        in if emitted_sgr then buf @ [0x1b, 0x5b, 0x30, 0x6d] else buf)"

section \<open>Safe lines\<close>

definition sgr_params_ok :: "u8 list \<Rightarrow> bool" where
  "sgr_params_ok ps \<longleftrightarrow> list_all csi_param_byte ps \<and> length ps \<le> MAX_CSI_PARAM_BYTES
     \<and> length (filter (\<lambda>b. b = 0x3b) ps) < MAX_CSI_PARAM_COUNT"

inductive safe_line :: "bool \<Rightarrow> ustring \<Rightarrow> bool" where
  empty: "safe_line color []"
| char: "is_scalar c \<Longrightarrow> \<not> is_c0_or_c1 c \<Longrightarrow> safe_line color s \<Longrightarrow> safe_line color (c # s)"
| sgr: "color \<Longrightarrow> sgr_params_ok ps \<Longrightarrow> safe_line color s \<Longrightarrow> safe_line color (sgr_text ps @ s)"

lemma safe_line_append: "safe_line color s \<Longrightarrow> safe_line color t \<Longrightarrow> safe_line color (s @ t)"
  by (induction rule: safe_line.induct) (auto intro: safe_line.intros)

lemma safe_line_plain: "safe_line False s \<Longrightarrow> list_all (\<lambda>c. is_scalar c \<and> \<not> is_c0_or_c1 c) s"
  by (induction False s rule: safe_line.induct) auto

lemma safe_line_singleton: "is_scalar c \<Longrightarrow> \<not> is_c0_or_c1 c \<Longrightarrow> safe_line color [c]"
  by (auto intro: safe_line.intros)

lemma safe_line_sgr: "color \<Longrightarrow> sgr_params_ok ps \<Longrightarrow> safe_line color (sgr_text ps)"
  using safe_line.sgr [OF _ _ safe_line.empty] by simp

definition parser_ok :: "status_parser \<Rightarrow> bool" where
  "parser_ok p \<longleftrightarrow> sgr_params_ok (sp_csi_params p)
     \<and> sp_csi_param_semicolons p = length (filter (\<lambda>b. b = 0x3b) (sp_csi_params p))"

lemma parser_ok_simps [simp]:
  "parser_ok (p\<lparr>sp_state := e\<rparr>) = parser_ok p"
  "parser_ok (p\<lparr>sp_csi_valid := v\<rparr>) = parser_ok p"
  "parser_ok (p\<lparr>sp_emitted_sgr := v\<rparr>) = parser_ok p"
  "parser_ok (enter_csi p)"
  by (simp_all add: parser_ok_def enter_csi_def sgr_params_ok_def MAX_CSI_PARAM_COUNT_def)

lemma enter_csi_emitted [simp]: "sp_emitted_sgr (enter_csi p) = sp_emitted_sgr p"
  by (simp add: enter_csi_def)

text \<open>What one turn guarantees: the output is safe, the parser stays well-formed, colour is
  remembered once it was emitted, and an escape character comes with that memory.\<close>

definition turn_ok :: "bool \<Rightarrow> status_parser \<Rightarrow> status_turn \<Rightarrow> bool" where
  "turn_ok color p r \<longleftrightarrow> (case r of (out, p', k) \<Rightarrow>
     safe_line color out \<and> parser_ok p' \<and> (sp_emitted_sgr p \<longrightarrow> sp_emitted_sgr p')
     \<and> (0x1b \<in> set out \<longrightarrow> sp_emitted_sgr p'))"

lemma turn_ok_silent [simp]:
  "turn_ok color p ([], p', k) \<longleftrightarrow> parser_ok p' \<and> (sp_emitted_sgr p \<longrightarrow> sp_emitted_sgr p')"
  by (auto simp: turn_ok_def safe_line.intros)

lemma status_ground_ok: "parser_ok p \<Longrightarrow> turn_ok color p (status_ground bytes byte p)"
proof -
  assume p: "parser_ok p"
  have ascii: "is_scalar (unat byte) \<and> \<not> is_c0_or_c1 (unat byte)"
    if "\<not> (byte \<le> 0x1f \<or> byte = 0x7f)" "byte \<le> 0x7f"
    using that by (auto simp: is_scalar_def is_c0_or_c1_def word_le_nat_alt word_unat_eq_iff)
  have pushed: "turn_ok color p ([c], p, k)" if "is_scalar c" "\<not> is_c0_or_c1 c" for c k
    using p that by (auto simp: turn_ok_def safe_line_singleton is_c0_or_c1_def)
  show ?thesis
    using p ascii
    by (auto simp: status_ground_def is_scalar_def [of 65533] is_c0_or_c1_def [of 65533]
        intro!: pushed dest: decode_utf8_scalar split: option.split)
qed

lemma status_csi_ok: "parser_ok p \<Longrightarrow> turn_ok color p (status_csi color bytes byte p)"
proof -
  assume p: "parser_ok p"
  have sgr: "turn_ok color p (sgr_text (sp_csi_params p),
      p\<lparr>sp_emitted_sgr := True, sp_state := Ground\<rparr>, k)" if color for k
    using p that by (auto simp: turn_ok_def parser_ok_def intro: safe_line_sgr)
  have grow: "parser_ok (p\<lparr>sp_csi_param_semicolons :=
          (if byte = 0x3b then sp_csi_param_semicolons p + 1 else sp_csi_param_semicolons p),
        sp_csi_params := sp_csi_params p @ [byte]\<rparr>)"
    if "csi_param_byte byte" "\<not> length (sp_csi_params p) \<ge> MAX_CSI_PARAM_BYTES"
      "\<not> (byte = 0x3b \<and> sp_csi_param_semicolons p \<ge> MAX_CSI_PARAM_COUNT - 1)"
    using p that by (auto simp: parser_ok_def sgr_params_ok_def MAX_CSI_PARAM_COUNT_def)
  show ?thesis
    using p sgr grow by (simp add: status_csi_def Let_def split: option.split)
qed

lemma status_step_ok: "parser_ok p \<Longrightarrow> turn_ok color p (status_step color bytes byte p)"
  by (simp add: status_step_def status_ground_ok status_csi_ok status_esc_def status_string_def
      status_string_esc_def Let_def split: escape_state.split option.split)

lemma status_loop_ok:
  assumes "parser_ok p" and "status_loop color bytes p = (out, p')"
  shows "safe_line color out \<and> (sp_emitted_sgr p \<longrightarrow> sp_emitted_sgr p')
     \<and> (0x1b \<in> set out \<longrightarrow> sp_emitted_sgr p')"
  using assms
proof (induction color bytes p arbitrary: out p' rule: status_loop.induct)
  case (1 color p)
  then show ?case by (auto intro: safe_line.intros)
next
  case (2 color byte rest p)
  show ?case
  proof (cases "byte = 0x0a \<or> byte = 0x0d")
    case True
    with "2.prems" show ?thesis by (auto intro: safe_line.intros)
  next
    case False
    obtain o1 p1 k where step: "status_step color (byte # rest) byte p = (o1, p1, k)"
      by (cases "status_step color (byte # rest) byte p") auto
    obtain o2 p2 where loop: "status_loop color (drop k rest) p1 = (o2, p2)"
      by (cases "status_loop color (drop k rest) p1") auto
    have "turn_ok color p (o1, p1, k)"
      using status_step_ok [OF "2.prems"(1), of color "byte # rest" byte] step by simp
    moreover have "out = o1 @ o2" "p' = p2"
      using "2.prems"(2) False step loop by auto
    moreover have "safe_line color o2 \<and> (sp_emitted_sgr p1 \<longrightarrow> sp_emitted_sgr p2)
        \<and> (0x1b \<in> set o2 \<longrightarrow> sp_emitted_sgr p2)"
      using "2.IH" [OF False step [symmetric] refl refl _ loop] calculation(1)
      by (auto simp: turn_ok_def)
    ultimately show ?thesis by (auto simp: turn_ok_def intro: safe_line_append)
  qed
qed

section \<open>Segments\<close>

fun text_bytes :: "status_segment \<Rightarrow> u8 list" where
  "text_bytes (Sgr seq) = []"
| "text_bytes (Text text) = text"

definition sgr_bytes :: "u8 list \<Rightarrow> bool" where
  "sgr_bytes seq \<longleftrightarrow> (\<exists>ps. seq = [0x1b, 0x5b] @ ps @ [0x6d] \<and> list_all csi_param_byte ps)"

fun wf_segment :: "status_segment \<Rightarrow> bool" where
  "wf_segment (Sgr seq) \<longleftrightarrow> sgr_bytes seq"
| "wf_segment (Text text) \<longleftrightarrow> 0x1b \<notin> set text"

lemma scan_csi_params:
  "list_all csi_param_byte ps \<Longrightarrow>
     scan_csi (ps @ 0x6d # rest) seen v = scan_csi (0x6d # rest) (seen @ ps) v"
  by (induction ps arbitrary: seen) auto

lemma not_param_m [simp]: "\<not> csi_param_byte 0x6d" "\<not> csi_param_byte 0x1b"
  by (simp_all add: csi_param_byte_def)

lemma split_loop_text: "0x1b \<notin> set t \<Longrightarrow> split_loop (t @ rest) tx = split_loop rest (tx @ t)"
  by (induction t arbitrary: tx) auto

lemma split_loop_sgr:
  assumes "sgr_bytes seq"
  shows "split_loop (seq @ rest) tx = text_segment tx @ Sgr seq # split_loop rest []"
proof -
  from assms obtain ps where "seq = [0x1b, 0x5b] @ ps @ [0x6d]" "list_all csi_param_byte ps"
    by (auto simp: sgr_bytes_def)
  with scan_csi_params [of ps rest "[]" True] show ?thesis by (simp add: Let_def)
qed

lemma text_segment_bytes [simp]:
  "concat (map segment_bytes (text_segment t)) = t" "concat (map text_bytes (text_segment t)) = t"
  "list_all wf_segment (text_segment t) \<longleftrightarrow> 0x1b \<notin> set t"
  by (auto simp: text_segment_def)

text \<open>Splitting what well-formed segments spell out loses nothing and finds the same tx.\<close>

lemma split_loop_render:
  assumes "list_all wf_segment segs"
  shows "concat (map segment_bytes (split_loop (concat (map segment_bytes segs)) tx))
       = tx @ concat (map segment_bytes segs)
     \<and> concat (map text_bytes (split_loop (concat (map segment_bytes segs)) tx))
       = tx @ concat (map text_bytes segs)"
  using assms
proof (induction segs arbitrary: tx)
  case Nil
  then show ?case by simp
next
  case (Cons s segs)
  then show ?case
    by (cases s) (simp_all add: split_loop_sgr split_loop_text)
qed

lemma scan_csi_wf:
  "list_all csi_param_byte seen \<or> \<not> v \<Longrightarrow> list_all wf_segment (fst (scan_csi bs seen v))"
  by (induction bs seen v rule: scan_csi.induct) (auto simp: sgr_bytes_def)

lemma split_loop_wf: "0x1b \<notin> set tx \<Longrightarrow> list_all wf_segment (split_loop line tx)"
proof (induction line tx rule: split_loop.induct)
  case (1 tx)
  then show ?case by simp
next
  case (2 b bs tx)
  show ?case
  proof (cases "b = 0x1b")
    case False
    with 2 show ?thesis by simp
  next
    case esc: True
    show ?thesis
    proof (cases bs)
      case Nil
      with 2 esc show ?thesis by simp
    next
      case (Cons c cs)
      with 2 esc scan_csi_wf [of "[]" True cs] show ?thesis by (simp add: Let_def)
    qed
  qed
qed


lemma status_step_color:
  "status_step color bytes byte p = (out, p', k) \<Longrightarrow> sp_emitted_sgr p' \<Longrightarrow> sp_emitted_sgr p \<or> color"
  by (auto simp: status_step_def status_ground_def status_csi_def status_esc_def status_string_def
      status_string_esc_def Let_def split: escape_state.splits option.splits if_splits)

lemma status_loop_color:
  "status_loop color bytes p = (out, p') \<Longrightarrow> sp_emitted_sgr p' \<Longrightarrow> sp_emitted_sgr p \<or> color"
proof (induction color bytes p arbitrary: out p' rule: status_loop.induct)
  case (1 color p)
  then show ?case by simp
next
  case (2 color byte rest p)
  show ?case
  proof (cases "byte = 0x0a \<or> byte = 0x0d")
    case False
    obtain o1 p1 k where step: "status_step color (byte # rest) byte p = (o1, p1, k)"
      by (cases "status_step color (byte # rest) byte p") auto
    obtain o2 p2 where loop: "status_loop color (drop k rest) p1 = (o2, p2)"
      by (cases "status_loop color (drop k rest) p1") auto
    have "sp_emitted_sgr p1 \<or> color"
      using "2.IH" [OF False step [symmetric] refl refl loop] "2.prems" False step loop
      by auto
    with status_step_color [OF step] show ?thesis by blast
  qed (use 2 in auto)
qed

section \<open>Truncation\<close>

definition visible_text :: "u8 list \<Rightarrow> u8 list" where
  "visible_text line = concat (map text_bytes (split_sgr_and_text line))"

definition segment_clusters :: "(u8 list \<Rightarrow> u8 list list) \<Rightarrow> status_segment list \<Rightarrow> u8 list list" where
  "segment_clusters graphemes segs =
     concat (map (\<lambda>s. if is_sgr_segment s then [] else graphemes (text_bytes s)) segs)"

lemma segment_clusters_simps [simp]:
  "segment_clusters graphemes [] = []"
  "segment_clusters graphemes (Sgr seq # segs) = segment_clusters graphemes segs"
  "segment_clusters graphemes (Text t # segs) = graphemes t @ segment_clusters graphemes segs"
  by (simp_all add: segment_clusters_def)

text \<open>The clusters kept are a prefix that fits, and the next cluster would not.\<close>

definition longest_fit :: "(u8 list \<Rightarrow> nat) \<Rightarrow> nat \<Rightarrow> nat \<Rightarrow> u8 list list \<Rightarrow> u8 list list \<Rightarrow> bool" where
  "longest_fit str_width acc target kept cs \<longleftrightarrow>
     prefix kept cs \<and> acc + sum_list (map str_width kept) \<le> target
     \<and> (\<forall>c. prefix (kept @ [c]) cs \<longrightarrow>
          acc + sum_list (map str_width kept) = target
          \<or> target < acc + sum_list (map str_width kept) + str_width c)"

lemma longest_fit_Nil: "acc \<le> target \<Longrightarrow> cs = [] \<or> acc = target \<Longrightarrow> longest_fit w acc target [] cs"
  by (auto simp: longest_fit_def)

lemma longest_fit_append:
  "longest_fit w (acc + sum_list (map w pre)) target kept cs \<Longrightarrow>
     longest_fit w acc target (pre @ kept) (pre @ cs)"
  by (auto simp: longest_fit_def add.assoc)

lemma take_clusters_fit:
  assumes "take_clusters w target cs acc = (buf, acc', truncated)" and "acc \<le> target"
  shows "\<exists>kept. buf = concat kept \<and> acc' = acc + sum_list (map w kept) \<and> acc' \<le> target
     \<and> (if truncated then \<exists>c rest. cs = kept @ c # rest \<and> target < acc' + w c else kept = cs)"
  using assms
proof (induction cs arbitrary: acc buf acc' truncated)
  case Nil
  then show ?case by auto
next
  case (Cons c cs)
  show ?case
  proof (cases "acc + w c > target")
    case True
    with Cons.prems show ?thesis by (intro exI [of _ "[]"]) auto
  next
    case False
    then obtain b where "take_clusters w target cs (acc + w c) = (b, acc', truncated)" "buf = c @ b"
      using Cons.prems by (auto split: prod.splits)
    with Cons.IH [of "acc + w c"] False obtain kept where
      "b = concat kept" "acc' = acc + w c + sum_list (map w kept)" "acc' \<le> target"
      "if truncated then \<exists>d rest. cs = kept @ d # rest \<and> target < acc' + w d else kept = cs"
      by auto
    with \<open>buf = c @ b\<close> show ?thesis by (intro exI [of _ "c # kept"]) (auto split: if_splits)
  qed
qed

lemma truncate_segments_fit:
  assumes "list_all wf_segment segs" and "\<And>t. concat (graphemes t) = t" and "acc \<le> target"
  shows "\<exists>kept out. fst (truncate_segments w graphemes target segs acc) = concat (map segment_bytes out)
     \<and> list_all wf_segment out \<and> concat (map text_bytes out) = concat kept
     \<and> longest_fit w acc target kept (segment_clusters graphemes segs)"
  using assms(1,3)
proof (induction segs arbitrary: acc)
  case Nil
  then show ?case by (intro exI [of _ "[]"]) (simp add: longest_fit_Nil)
next
  case (Cons s segs)
  show ?case
  proof (cases s)
    case (Sgr seq)
    show ?thesis
    proof (cases "acc < target")
      case True
      from Cons.IH [OF _ Cons.prems(2)] Cons.prems(1) obtain kept out where
        "fst (truncate_segments w graphemes target segs acc) = concat (map segment_bytes out)"
        "list_all wf_segment out" "concat (map text_bytes out) = concat kept"
        "longest_fit w acc target kept (segment_clusters graphemes segs)" by auto
      with Sgr True Cons.prems(1) show ?thesis
        by (intro exI [of _ kept] exI [of _ "s # out"]) (simp add: case_prod_beta)
    next
      case False
      with Sgr Cons.prems(2) show ?thesis
        by (intro exI [of _ "[]"] exI [of _ "[]"]) (simp add: longest_fit_Nil)
    qed
  next
    case (Text t)
    obtain buf acc' truncated where
      r: "take_clusters w target (graphemes t) acc = (buf, acc', truncated)"
      by (cases "take_clusters w target (graphemes t) acc") auto
    from take_clusters_fit [OF r Cons.prems(2)] obtain kept where
      k: "buf = concat kept" "acc' = acc + sum_list (map w kept)" "acc' \<le> target"
        "if truncated then \<exists>c rest. graphemes t = kept @ c # rest \<and> target < acc' + w c
         else kept = graphemes t" by auto
    show ?thesis
    proof (cases truncated)
      case True
      with k(4) obtain c rest where c: "graphemes t = kept @ c # rest" "target < acc' + w c" by auto
      then have "t = concat kept @ c @ concat rest" by (metis assms(2) concat.simps(2) concat_append)
      moreover have "0x1b \<notin> set t" using Cons.prems(1) Text by simp
      ultimately have "wf_segment (Text (concat kept))" by auto
      with True r k c Text show ?thesis
        by (intro exI [of _ kept] exI [of _ "[Text (concat kept)]"]) (auto simp: longest_fit_def)
    next
      case False
      with k(4) have kept: "kept = graphemes t" by simp
      from Cons.IH [OF _ k(3)] Cons.prems(1) obtain kept' out where
        "fst (truncate_segments w graphemes target segs acc') = concat (map segment_bytes out)"
        "list_all wf_segment out" "concat (map text_bytes out) = concat kept'"
        "longest_fit w acc' target kept' (segment_clusters graphemes segs)" by auto
      with False r k kept Text Cons.prems(1) show ?thesis
        by (intro exI [of _ "kept @ kept'"] exI [of _ "Text t # out"])
          (simp add: case_prod_beta assms(2) longest_fit_append)
    qed
  qed
qed

lemma split_render:
  assumes "list_all wf_segment segs" and "line = concat (map segment_bytes segs)"
  shows "concat (map segment_bytes (split_sgr_and_text line)) = line
     \<and> visible_text line = concat (map text_bytes segs)"
  using split_loop_render [OF assms(1), of "[]"] assms(2)
  by (simp add: split_sgr_and_text_def visible_text_def)

lemma render_reset:
  "list_all wf_segment segs \<Longrightarrow> b \<Longrightarrow> \<exists>segs'. list_all wf_segment segs' \<and>
     concat (map segment_bytes segs) @ [0x1b, 0x5b, 0x30, 0x6d] = concat (map segment_bytes segs')
     \<and> concat (map text_bytes segs') = concat (map text_bytes segs)"
  by (intro exI [of _ "segs @ [Sgr [0x1b, 0x5b, 0x30, 0x6d]]"])
    (auto simp: sgr_bytes_def csi_param_byte_def intro!: exI [of _ "[0x30]"])

lemma split_wf: "list_all wf_segment (split_sgr_and_text line)"
  by (simp add: split_sgr_and_text_def split_loop_wf)

text \<open>C26. Whatever a status command prints, the line built from it consists of printable characters and
  complete colour sequences of at most 64 parameter bytes and 16 parameters; it holds no line
  break or other control; without colour it is plain text; and a line that holds an escape
  character ends with the colour reset.\<close>

theorem status_line_safe:
  "safe_line allow_color (sanitize_status_command_line bytes allow_color)
   \<and> (\<not> allow_color \<longrightarrow>
        list_all (\<lambda>c. \<not> is_c0_or_c1 c) (sanitize_status_command_line bytes allow_color))
   \<and> (0x1b \<in> set (sanitize_status_command_line bytes allow_color) \<longrightarrow>
        (\<exists>s. sanitize_status_command_line bytes allow_color = s @ sgr_reset))"
proof -
  obtain out p where loop: "status_loop allow_color bytes initial_status_parser = (out, p)"
    by (cases "status_loop allow_color bytes initial_status_parser") auto
  have init: "parser_ok initial_status_parser" "\<not> sp_emitted_sgr initial_status_parser"
    by (simp_all add: initial_status_parser_def parser_ok_def sgr_params_ok_def
        MAX_CSI_PARAM_COUNT_def)
  have no_color: "sp_emitted_sgr p \<Longrightarrow> allow_color"
    using status_loop_color [OF loop] init by blast
  have reset: "allow_color \<Longrightarrow> safe_line allow_color sgr_reset"
    using safe_line_sgr [of allow_color "[0x30]"]
    by (simp add: sgr_reset_def sgr_text_def sgr_params_ok_def csi_param_byte_def
        MAX_CSI_PARAM_BYTES_def MAX_CSI_PARAM_COUNT_def)
  have safe: "safe_line allow_color (sanitize_status_command_line bytes allow_color)"
    using status_loop_ok [OF init(1) loop] loop no_color reset
    by (auto simp: sanitize_status_command_line_def intro: safe_line_append)
  moreover have "\<not> allow_color \<longrightarrow>
      list_all (\<lambda>c. \<not> is_c0_or_c1 c) (sanitize_status_command_line bytes allow_color)"
    using safe safe_line_plain by (cases allow_color) (auto simp: list_all_iff)
  moreover have "0x1b \<in> set (sanitize_status_command_line bytes allow_color) \<longrightarrow>
      (\<exists>s. sanitize_status_command_line bytes allow_color = s @ sgr_reset)"
    using status_loop_ok [OF init(1) loop] loop
    by (auto simp: sanitize_status_command_line_def)
  ultimately show ?thesis by blast
qed

text \<open>The bytes are a red \<open>A\<close> and a line feed followed by \<open>B\<close>.\<close>

theorem status_line_safe_witness:
  "sanitize_status_command_line [0x1b, 0x5b, 0x33, 0x31, 0x6d, 0x41, 0x0a, 0x42] True
     = [0x1b, 0x5b, 0x33, 0x31, 0x6d, 0x41] @ sgr_reset
   \<and> (0x1b::nat) \<in> set ([0x1b, 0x5b, 0x33, 0x31, 0x6d, 0x41] @ sgr_reset)
   \<and> safe_line True ([0x1b, 0x5b, 0x33, 0x31, 0x6d, 0x41] @ sgr_reset)"
proof -
  have eval: "sanitize_status_command_line [0x1b, 0x5b, 0x33, 0x31, 0x6d, 0x41, 0x0a, 0x42] True
     = [0x1b, 0x5b, 0x33, 0x31, 0x6d, 0x41] @ sgr_reset" by code_simp
  with status_line_safe [of True "[0x1b, 0x5b, 0x33, 0x31, 0x6d, 0x41, 0x0a, 0x42]"]
  show ?thesis by auto
qed

lemma truncate_cut:
  fixes str_width :: "u8 list \<Rightarrow> nat" and graphemes and line and max_width :: u16
  assumes "\<And>t. concat (graphemes t) = t" and "0 < max_width"
  defines "out \<equiv> truncate_status_line_ansi str_width graphemes line max_width"
  defines "margin \<equiv> (if 2 \<le> unat max_width then 1 else 0 :: nat)"
  shows "concat (map segment_bytes (split_sgr_and_text out)) = out
    \<and> (if sum_list (map (segment_width str_width) (split_sgr_and_text line)) \<le> unat max_width
       then visible_text out = visible_text line
       else \<exists>kept. visible_text out = concat kept @ (if margin = 0 then [] else ellipsis)
          \<and> longest_fit str_width 0 (unat max_width - margin) kept
              (segment_clusters graphemes (split_sgr_and_text line)))"
proof -
  let ?segs = "split_sgr_and_text line"
  let ?reset = "[0x1b, 0x5b, 0x30, 0x6d] :: u8 list"
  have width: "unat max_width \<noteq> 0" using assms(2) by (simp add: unat_eq_0 word_gt_0)
  show ?thesis
  proof (cases "sum_list (map (segment_width str_width) ?segs) \<le> unat max_width")
    case True
    define e where "e = list_ex is_sgr_segment ?segs"
    have out: "out = concat (map segment_bytes ?segs) @ (if e then ?reset else [])"
      using True width by (simp add: out_def truncate_status_line_ansi_def Let_def e_def)
    obtain segs' where "list_all wf_segment segs'" "out = concat (map segment_bytes segs')"
      "concat (map text_bytes segs') = visible_text line"
      using render_reset [OF split_wf, of True line] out split_wf [of line]
      by (cases e) (auto simp: visible_text_def)
    with split_render True show ?thesis by auto
  next
    case False
    define e where "e = snd (truncate_segments str_width graphemes (unat max_width - margin) ?segs 0)"
    obtain kept o1 where fit:
      "fst (truncate_segments str_width graphemes (unat max_width - margin) ?segs 0)
         = concat (map segment_bytes o1)"
      "list_all wf_segment o1" "concat (map text_bytes o1) = concat kept"
      "longest_fit str_width 0 (unat max_width - margin) kept (segment_clusters graphemes ?segs)"
      using truncate_segments_fit [OF split_wf [of line], where graphemes = graphemes and w = str_width
          and acc = 0 and target = "unat max_width - margin"] assms(1) by auto
    define o2 where "o2 = o1 @ (if margin = 0 then [] else [Text ellipsis])"
    have out: "out = concat (map segment_bytes o2) @ (if e then ?reset else [])"
      using False width fit(1)
      by (cases "2 \<le> unat max_width")
        (simp_all add: out_def truncate_status_line_ansi_def Let_def e_def o2_def margin_def
          case_prod_beta)
    have o2: "list_all wf_segment o2"
      "concat (map text_bytes o2) = concat kept @ (if margin = 0 then [] else ellipsis)"
      using fit(2,3) by (simp_all add: o2_def ellipsis_def)
    obtain segs' where "list_all wf_segment segs'" "out = concat (map segment_bytes segs')"
      "concat (map text_bytes segs') = concat kept @ (if margin = 0 then [] else ellipsis)"
      using render_reset [OF o2(1), of True] out o2 by (cases e) auto
    with split_render False fit(4) show ?thesis by auto
  qed
qed

text \<open>Cutting a line to a width: the result is made of text and complete colour sequences only (splitting
  it again loses nothing); a line that fits keeps its whole text; otherwise the text kept is
  the longest run of leading grapheme clusters that leaves room for the ellipsis, which follows
  it when the row has at least two columns.\<close>

theorem truncate_status_line_fits:
  assumes "\<And>t. concat (graphemes t) = t" and "0 < max_width"
  shows "let out = truncate_status_line_ansi str_width graphemes line max_width;
      margin = (if 2 \<le> unat max_width then 1 else 0) in
    concat (map segment_bytes (split_sgr_and_text out)) = out
    \<and> (if sum_list (map (segment_width str_width) (split_sgr_and_text line)) \<le> unat max_width
       then visible_text out = visible_text line
       else \<exists>kept. visible_text out = concat kept @ (if margin = 0 then [] else ellipsis)
          \<and> longest_fit str_width 0 (unat max_width - margin) kept
              (segment_clusters graphemes (split_sgr_and_text line)))"
  unfolding Let_def by (rule truncate_cut [OF assms])

text \<open>Five plain letters, one column each, in a row of four: three letters and the ellipsis.\<close>

theorem truncate_status_line_fits_witness:
  "truncate_status_line_ansi length (map (\<lambda>b. [b])) [0x61, 0x62, 0x63, 0x64, 0x65] 4
     = [0x61, 0x62, 0x63] @ ellipsis
   \<and> (\<forall>t::u8 list. concat (map (\<lambda>b. [b]) t) = t) \<and> (0::u16) < 4
   \<and> concat (map segment_bytes (split_sgr_and_text ([0x61, 0x62, 0x63] @ ellipsis)))
      = [0x61, 0x62, 0x63] @ ellipsis"
proof -
  have hyp: "concat (map (\<lambda>b. [b]) t) = t" for t :: "u8 list" by (induction t) auto
  have eval: "truncate_status_line_ansi length (map (\<lambda>b. [b])) [0x61, 0x62, 0x63, 0x64, 0x65] 4
     = [0x61, 0x62, 0x63] @ ellipsis" by code_simp
  with truncate_status_line_fits [of "map (\<lambda>b. [b])" 4 length "[0x61, 0x62, 0x63, 0x64, 0x65]"] hyp
  show ?thesis by (simp add: Let_def)
qed

end
