(* ===== verification/Speculation_Core.thy ===== *)
theory Speculation_Core
  imports Prelude
begin

text \<open>
  The pure core of speculative tournaments: the public status types of \<open>protocol.rs\<close>
  (phases, reason and error codes, candidate and cleanup status) and \<open>speculation.rs\<close>
  (scoring of the two candidates, the phase graph, the generation compare-and-swap and the
  normalisation after a daemon restart). The lemmas show that scoring does not depend on
  the order of the candidates and selects only eligible ones, that a winner is reached
  along one single path of phases, that every other phase can still be rolled back, and
  that one generation is spent by at most one transition.
\<close>

section \<open>Data\<close>

datatype speculation_phase =
    Prepared | Armed | Starting | Ready | GoPending | Running | ResultPending
  | PendingFinalize | FinalizingLoser | WinnerSelectionPending | FinalizingWinner
  | RollbackRequired | DecisionUncertain | RollbackPending | Selected | RolledBack

definition ALL_PHASES :: "speculation_phase list" where
  "ALL_PHASES = [Prepared, Armed, Starting, Ready, GoPending, Running, ResultPending,
     PendingFinalize, FinalizingLoser, WinnerSelectionPending, FinalizingWinner,
     RollbackRequired, DecisionUncertain, RollbackPending, Selected, RolledBack]"

definition is_terminal :: "speculation_phase \<Rightarrow> bool" where
  "is_terminal p \<longleftrightarrow> p \<in> {Selected, RolledBack}"

definition is_rollback_only :: "speculation_phase \<Rightarrow> bool" where
  "is_rollback_only p \<longleftrightarrow> p \<in> {RollbackRequired, DecisionUncertain, RollbackPending}"

datatype speculation_schema_version = StatusV1

datatype speculation_reason_code =
    PreparedLease | ReadyLease | RunningLease | PendingFinalizeLease | ControlAckTimeout
  | ExplicitRollback | DaemonShutdown | BothCandidatesIneligible
  | DecisionUncertainAfterRestart | ContainmentEvidenceUnavailable

datatype speculation_error_code =
    EUnsupported | EProtocolMismatch | ECapacityExhausted | EInvalidRequest
  | EInvalidTransition | EStaleGeneration | EGenerationExhausted | EContainmentUnavailable
  | EOutputLimitExceeded | ERollbackRequired | EDecisionUncertain | EEvidenceUnavailable

datatype speculation_exit_category =
    ExitedZero | ExitedNonzero | Signaled | SpawnFailed | OutputLimitExceeded
  | EvidenceIncomplete

datatype speculation_score_field =
    EligibilityDescending | ExitSuccessDescending | ElapsedNsAscending
  | OutputBytesAscending | InputIndexAscending

definition SPECULATION_SCORE_ORDER :: "speculation_score_field list" where
  "SPECULATION_SCORE_ORDER = [EligibilityDescending, ExitSuccessDescending,
     ElapsedNsAscending, OutputBytesAscending, InputIndexAscending]"

text \<open>The private vector of \<open>SpeculationErrorCodes\<close> and its three constructors.\<close>

datatype speculation_error_codes = SpeculationErrorCodes (as_slice: "speculation_error_code list")

definition MAX_SPECULATION_ERROR_CODES :: nat where
  "MAX_SPECULATION_ERROR_CODES = 16"

datatype wire_error = SpeculationWireError string

definition error_codes_new :: speculation_error_codes where
  "error_codes_new = SpeculationErrorCodes []"

definition error_codes_push ::
    "speculation_error_codes \<Rightarrow> speculation_error_code \<Rightarrow> wire_error + speculation_error_codes" where
  "error_codes_push es code =
     (if length (as_slice es) \<ge> MAX_SPECULATION_ERROR_CODES
      then Inl (SpeculationWireError ''too many speculation error codes'')
      else Inr (SpeculationErrorCodes (as_slice es @ [code])))"

definition error_codes_from :: "speculation_error_code \<Rightarrow> speculation_error_codes" where
  "error_codes_from code = SpeculationErrorCodes [code]"

definition error_codes_try_from ::
    "speculation_error_code list \<Rightarrow> wire_error + speculation_error_codes" where
  "error_codes_try_from codes =
     (if length codes > MAX_SPECULATION_ERROR_CODES
      then Inl (SpeculationWireError ''too many speculation error codes'')
      else Inr (SpeculationErrorCodes codes))"

record speculation_cleanup_status =
  runner_ack :: bool
  bwrap_reaped :: bool
  sync_eof :: bool
  cgroup_empty :: bool
  managed_tombstone :: bool

record speculation_candidate_status =
  candidate_uuid :: uuid
  cand_index :: u8
  ready :: bool
  ready_elapsed_ns :: "u64 option"
  go_received :: bool
  go_received_elapsed_ns :: "u64 option"
  result_accepted :: bool
  exit_success :: "bool option"
  exit_category :: "speculation_exit_category option"
  elapsed_ns :: "u64 option"
  output_bytes :: "u64 option"
  eligible :: bool
  cleanup :: speculation_cleanup_status

text \<open>The array \<open>candidates: [SpeculationCandidateStatus; 2]\<close> is a pair.\<close>

record speculation_status =
  st_schema_version :: speculation_schema_version
  st_tournament_uuid :: uuid
  st_daemon_instance_uuid :: uuid
  st_phase :: speculation_phase
  st_generation :: u64
  st_lease_deadline_unix_ms :: u64
  st_reason_code :: "speculation_reason_code option"
  st_candidates :: "speculation_candidate_status \<times> speculation_candidate_status"
  st_fixed_score_order :: "speculation_score_field list"
  st_selected_index :: "u8 option"
  st_rollback_required :: bool
  st_error_codes :: speculation_error_codes

definition status_is_terminal :: "speculation_status \<Rightarrow> bool" where
  "status_is_terminal s \<longleftrightarrow> is_terminal (st_phase s)"

definition permits_finalize :: "speculation_status \<Rightarrow> bool" where
  "permits_finalize s \<longleftrightarrow> st_phase s = PendingFinalize \<and> \<not> st_rollback_required s"

section \<open>Scoring\<close>

definition CANDIDATE_COUNT :: u8 where
  "CANDIDATE_COUNT = 2"

definition MAX_CANDIDATE_OUTPUT_BYTES :: u64 where
  "MAX_CANDIDATE_OUTPUT_BYTES = 64 * 1024 * 1024"

record candidate_result =
  cr_input_index :: u8
  cr_exit_success :: "bool option"
  cr_elapsed_ns :: "u64 option"
  cr_output_bytes :: "u64 option"
  cr_quiescent :: bool
  cr_output_overflowed :: bool

definition is_eligible :: "candidate_result \<Rightarrow> bool" where
  "is_eligible c \<longleftrightarrow>
     cr_input_index c < CANDIDATE_COUNT
     \<and> is_some (cr_exit_success c)
     \<and> is_some (cr_elapsed_ns c)
     \<and> is_some_and (cr_output_bytes c) (\<lambda>bytes. bytes \<le> MAX_CANDIDATE_OUTPUT_BYTES)
     \<and> cr_quiescent c
     \<and> \<not> cr_output_overflowed c"

datatype score_decision = ScoreSelected u8 | ScoreRollback

definition compare_candidates :: "candidate_result \<Rightarrow> candidate_result \<Rightarrow> ordering option" where
  "compare_candidates left right =
     (case (is_eligible left, is_eligible right) of
        (False, False) \<Rightarrow> None
      | (True, False) \<Rightarrow> Some Greater
      | (False, True) \<Rightarrow> Some Less
      | (True, True) \<Rightarrow>
          Some (then_with (then_with (then_with
            (cmp (cr_exit_success left) (cr_exit_success right))
            (cmp (cr_elapsed_ns right) (cr_elapsed_ns left)))
            (cmp (cr_output_bytes right) (cr_output_bytes left)))
            (cmp (cr_input_index right) (cr_input_index left))))"

definition score_candidates :: "candidate_result \<times> candidate_result \<Rightarrow> score_decision" where
  "score_candidates candidates =
     (let left = fst candidates; right = snd candidates in
      if cr_input_index left = cr_input_index right
         \<or> \<not> (cr_input_index left < CANDIDATE_COUNT \<and> cr_input_index right < CANDIDATE_COUNT)
      then ScoreRollback
      else (case compare_candidates left right of
              None \<Rightarrow> ScoreRollback
            | Some Greater \<Rightarrow> ScoreSelected (cr_input_index left)
            | Some Equal \<Rightarrow> ScoreSelected (cr_input_index left)
            | Some Less \<Rightarrow> ScoreSelected (cr_input_index right)))"

section \<open>Phase transitions\<close>

record tournament_state =
  ts_phase :: speculation_phase
  ts_generation :: u64

datatype transition_error = StaleGeneration | IllegalTransition | GenerationExhausted

fun is_legal_transition :: "speculation_phase \<Rightarrow> speculation_phase \<Rightarrow> bool" where
  "is_legal_transition Prepared next \<longleftrightarrow> next \<in> {Armed, RollbackPending}"
| "is_legal_transition Armed next \<longleftrightarrow> next \<in> {Starting, RollbackPending, RollbackRequired}"
| "is_legal_transition Starting next \<longleftrightarrow> next \<in> {Ready, RollbackPending, RollbackRequired}"
| "is_legal_transition Ready next \<longleftrightarrow> next \<in> {GoPending, RollbackPending}"
| "is_legal_transition GoPending next \<longleftrightarrow> next \<in> {Running, RollbackPending, DecisionUncertain}"
| "is_legal_transition Running next \<longleftrightarrow> next \<in> {ResultPending, RollbackPending, RollbackRequired}"
| "is_legal_transition ResultPending next \<longleftrightarrow>
     next \<in> {PendingFinalize, RollbackPending, RollbackRequired}"
| "is_legal_transition PendingFinalize next \<longleftrightarrow>
     next \<in> {FinalizingLoser, RollbackPending, RollbackRequired}"
| "is_legal_transition FinalizingLoser next \<longleftrightarrow>
     next \<in> {WinnerSelectionPending, RollbackRequired, DecisionUncertain}"
| "is_legal_transition WinnerSelectionPending next \<longleftrightarrow>
     next \<in> {FinalizingWinner, RollbackRequired, DecisionUncertain}"
| "is_legal_transition FinalizingWinner next \<longleftrightarrow>
     next \<in> {Selected, RollbackRequired, DecisionUncertain}"
| "is_legal_transition RollbackRequired next \<longleftrightarrow> next \<in> {RollbackPending, RollbackRequired}"
| "is_legal_transition DecisionUncertain next \<longleftrightarrow> next \<in> {RollbackPending, DecisionUncertain}"
| "is_legal_transition RollbackPending next \<longleftrightarrow> next \<in> {RolledBack, RollbackRequired}"
| "is_legal_transition Selected next \<longleftrightarrow> next \<in> {Selected}"
| "is_legal_transition RolledBack next \<longleftrightarrow> next \<in> {RolledBack}"

definition transition ::
    "tournament_state \<Rightarrow> u64 \<Rightarrow> speculation_phase \<Rightarrow> transition_error + tournament_state" where
  "transition s expected_generation next =
     (if expected_generation \<noteq> ts_generation s then Inl StaleGeneration
      else if ts_phase s = next \<and> is_terminal (ts_phase s) then Inr s
      else if \<not> is_legal_transition (ts_phase s) next then Inl IllegalTransition
      else bind_res (ok_or (checked_add (ts_generation s) 1) GenerationExhausted)
             (\<lambda>generation. Inr (s\<lparr>ts_phase := next, ts_generation := generation\<rparr>)))"

definition normalize_after_daemon_restart ::
    "tournament_state \<Rightarrow> u64 \<Rightarrow> transition_error + tournament_state" where
  "normalize_after_daemon_restart s expected_generation =
     (if is_terminal (ts_phase s) \<or> ts_phase s = RollbackRequired then Inr s
      else if expected_generation \<noteq> ts_generation s then Inl StaleGeneration
      else bind_res (ok_or (checked_add (ts_generation s) 1) GenerationExhausted)
             (\<lambda>generation. Inr (s\<lparr>ts_generation := generation, ts_phase := RollbackRequired\<rparr>)))"

fun transition_error_code :: "transition_error \<Rightarrow> string" where
  "transition_error_code StaleGeneration = ''stale_generation''"
| "transition_error_code IllegalTransition = ''illegal_transition''"
| "transition_error_code GenerationExhausted = ''generation_exhausted''"

text \<open>What the daemon does to one tournament: compare-and-swap transitions, and the restart
  normalisation, in any order and number.\<close>

inductive tournament_step :: "tournament_state \<Rightarrow> tournament_state \<Rightarrow> bool" where
  advance: "transition s g next = Inr t \<Longrightarrow> tournament_step s t"
| restart: "normalize_after_daemon_restart s g = Inr t \<Longrightarrow> tournament_step s t"

inductive_cases tournament_stepE: "tournament_step s t"

text \<open>A sequence of phases in which each follows legally from the one before.\<close>

fun legal_path :: "speculation_phase list \<Rightarrow> bool" where
  "legal_path (p # q # ps) \<longleftrightarrow> is_legal_transition p q \<and> legal_path (q # ps)"
| "legal_path _ \<longleftrightarrow> True"

definition forward_chain :: "speculation_phase list" where
  "forward_chain = [Prepared, Armed, Starting, Ready, GoPending, Running, ResultPending,
     PendingFinalize, FinalizingLoser, WinnerSelectionPending, FinalizingWinner, Selected]"

section \<open>Scoring lemmas\<close>

lemma compare_candidates_swap:
  "compare_candidates right left = map_option reverse_ordering (compare_candidates left right)"
  by (auto simp: compare_candidates_def then_with_swap [symmetric] cmp_swap
      [of "cr_exit_success left"] cmp_swap [of "cr_elapsed_ns right"]
      cmp_swap [of "cr_output_bytes right"] cmp_swap [of "cr_input_index right"]
      split: bool.splits)

lemma compare_candidates_Equal:
  "compare_candidates left right = Some Equal \<Longrightarrow> cr_input_index left = cr_input_index right"
  by (auto simp: compare_candidates_def split: bool.splits)

lemma compare_candidates_None:
  "compare_candidates left right = None \<longleftrightarrow> \<not> is_eligible left \<and> \<not> is_eligible right"
  by (auto simp: compare_candidates_def split: bool.splits)

lemma compare_candidates_Greater:
  "compare_candidates left right = Some Greater \<Longrightarrow> is_eligible left"
  by (auto simp: compare_candidates_def split: bool.splits)

lemma compare_candidates_Less:
  "compare_candidates left right = Some Less \<Longrightarrow> is_eligible right"
  by (auto simp: compare_candidates_def split: bool.splits)

lemma is_eligible_index: "is_eligible c \<Longrightarrow> cr_input_index c < CANDIDATE_COUNT"
  by (simp add: is_eligible_def)

text \<open>\<open>outranks w l\<close>: the fixed score order, written out tier by tier.\<close>

definition outranks :: "candidate_result \<Rightarrow> candidate_result \<Rightarrow> bool" where
  "outranks w l \<longleftrightarrow>
     cr_exit_success l < cr_exit_success w
     \<or> cr_exit_success l = cr_exit_success w
       \<and> (cr_elapsed_ns w < cr_elapsed_ns l
          \<or> cr_elapsed_ns w = cr_elapsed_ns l
            \<and> (cr_output_bytes w < cr_output_bytes l
               \<or> cr_output_bytes w = cr_output_bytes l
                 \<and> cr_input_index w < cr_input_index l))"

lemma compare_candidates_outranks:
  assumes "is_eligible left" "is_eligible right"
  shows "compare_candidates left right = Some Greater \<longleftrightarrow> outranks left right"
    and "compare_candidates left right = Some Less \<longleftrightarrow> outranks right left"
  using assms by (auto simp: compare_candidates_def outranks_def)

section \<open>Phase graph lemmas\<close>

lemma is_terminal_simps [simp]:
  "is_terminal Selected" "is_terminal RolledBack" "\<not> is_terminal RollbackRequired"
  "\<not> is_terminal RollbackPending" "\<not> is_terminal DecisionUncertain"
  by (simp_all add: is_terminal_def)

lemma legal_into_Selected: "is_legal_transition p Selected \<longleftrightarrow> p \<in> {FinalizingWinner, Selected}"
  by (cases p) auto

lemma legal_from_terminal: "is_terminal p \<Longrightarrow> is_legal_transition p q \<longleftrightarrow> q = p"
  by (auto simp: is_terminal_def)

lemma legal_from_rollback:
  "is_rollback_only p \<or> p = RolledBack \<Longrightarrow> is_legal_transition p q \<Longrightarrow>
     is_rollback_only q \<or> q = RolledBack"
  by (auto simp: is_rollback_only_def)

lemma transition_Inr:
  "transition s g next = Inr t \<longleftrightarrow>
     g = ts_generation s \<and>
     ((ts_phase s = next \<and> is_terminal next \<and> t = s) \<or>
      (\<not> (ts_phase s = next \<and> is_terminal next) \<and> is_legal_transition (ts_phase s) next \<and>
       (\<exists>g'. checked_add (ts_generation s) 1 = Some g' \<and>
             t = s\<lparr>ts_phase := next, ts_generation := g'\<rparr>)))"
  by (auto simp: transition_def)

lemma normalize_Inr:
  "normalize_after_daemon_restart s g = Inr t \<longleftrightarrow>
     (if is_terminal (ts_phase s) \<or> ts_phase s = RollbackRequired then t = s
      else g = ts_generation s \<and>
       (\<exists>g'. checked_add (ts_generation s) 1 = Some g' \<and>
             t = s\<lparr>ts_generation := g', ts_phase := RollbackRequired\<rparr>))"
  by (auto simp: normalize_after_daemon_restart_def)

lemma tournament_step_generation:
  "tournament_step s t \<Longrightarrow> t = s \<or> ts_generation s < ts_generation t"
  by (erule tournament_stepE) (auto simp: transition_Inr normalize_Inr dest: checked_add_one_less
      split: if_splits)

lemma tournament_step_rollback:
  "tournament_step s t \<Longrightarrow> is_rollback_only (ts_phase s) \<or> ts_phase s = RolledBack \<Longrightarrow>
     is_rollback_only (ts_phase t) \<or> ts_phase t = RolledBack"
  by (erule tournament_stepE)
    (auto simp: transition_Inr normalize_Inr is_rollback_only_def split: if_splits)

lemma tournament_step_terminal:
  "tournament_step s t \<Longrightarrow> is_terminal (ts_phase s) \<Longrightarrow> t = s"
  by (erule tournament_stepE) (auto simp: transition_Inr normalize_Inr legal_from_terminal)

text \<open>The generation makes the tournament a versioned cell, and the rollback phases are an invariant of
  its steps.\<close>

interpretation generation_cell: versioned_cell ts_generation
  "\<lambda>g next s. case transition s g next of Inr t \<Rightarrow> Some t | Inl e \<Rightarrow> None"
  by unfold_locales (auto simp: transition_Inr dest: checked_add_one_less split: sum.splits)

interpretation rollback_phases: state_machine
  "\<lambda>s. is_rollback_only (ts_phase s)" tournament_step
  "\<lambda>s. is_rollback_only (ts_phase s) \<or> ts_phase s = RolledBack"
  by unfold_locales (simp, rule tournament_step_rollback)

lemma legal_path_last_Selected:
  assumes "legal_path (p # ps)" and "last (p # ps) = Selected"
  shows "\<exists>k. p # ps = dropWhile (\<lambda>q. q \<noteq> p) forward_chain @ replicate k Selected
            \<and> p \<in> set forward_chain"
  using assms
proof (induction ps arbitrary: p)
  case Nil
  then show ?case by (auto simp: forward_chain_def intro: exI [of _ 0])
next
  case (Cons q ps)
  then obtain k where k: "q # ps = dropWhile (\<lambda>r. r \<noteq> q) forward_chain @ replicate k Selected"
    and q: "q \<in> set forward_chain" and pq: "is_legal_transition p q"
    by auto
  show ?case
  proof (cases "p = Selected")
    case True
    with pq k show ?thesis
      by (auto simp: forward_chain_def intro: exI [of _ "Suc k"])
  next
    case False
    with pq q k show ?thesis
      by (cases p) (auto simp: forward_chain_def)
  qed
qed

text \<open>\<open>unwinds p\<close>: a legal path from \<open>p\<close> to \<open>RolledBack\<close>.\<close>

definition unwind_path :: "speculation_phase \<Rightarrow> speculation_phase list" where
  "unwind_path p =
     (if p = RolledBack then [RolledBack]
      else if p = RollbackPending then [RollbackPending, RolledBack]
      else if p \<in> {FinalizingLoser, WinnerSelectionPending, FinalizingWinner}
        then [p, RollbackRequired, RollbackPending, RolledBack]
      else [p, RollbackPending, RolledBack])"

section \<open>Properties\<close>

text \<open>Scoring is deterministic and symmetric: exchanging the two candidates never changes
  the decision, whatever the inputs (ties, ineligible or out-of-range candidates included).\<close>

theorem score_candidates_symmetric: "score_candidates (a, b) = score_candidates (b, a)"
proof (cases "cr_input_index a = cr_input_index b")
  case True
  then show ?thesis by (simp add: score_candidates_def)
next
  case False
  then have "compare_candidates a b \<noteq> Some Equal"
    using compare_candidates_Equal by blast
  with False show ?thesis
    by (auto simp: score_candidates_def compare_candidates_swap [of b a]
        split: option.splits ordering.splits)
qed

text \<open>C23. What is selected is right: the decision names the index of one of the two candidates,
  that candidate is eligible, and an eligible opponent is outranked by it in the fixed
  order success, elapsed time, output size, index; a rollback is decided exactly when the
  indices are not the two legal ones or no candidate is eligible.\<close>

theorem score_candidates_correct:
  "(score_candidates (a, b) = ScoreSelected i \<longrightarrow>
      (\<exists>w l. (w = a \<and> l = b \<or> w = b \<and> l = a) \<and> cr_input_index w = i \<and> is_eligible w
             \<and> (is_eligible l \<longrightarrow> outranks w l)))
   \<and> (score_candidates (a, b) = ScoreRollback \<longleftrightarrow>
        {cr_input_index a, cr_input_index b} \<noteq> {0, 1} \<or> \<not> is_eligible a \<and> \<not> is_eligible b)"
proof (intro conjI impI)
  assume sel: "score_candidates (a, b) = ScoreSelected i"
  then have neq: "cr_input_index a \<noteq> cr_input_index b"
    by (auto simp: score_candidates_def Let_def split: if_splits)
  then have "compare_candidates a b \<noteq> Some Equal"
    using compare_candidates_Equal by blast
  with sel have "compare_candidates a b = Some Greater \<and> i = cr_input_index a
      \<or> compare_candidates a b = Some Less \<and> i = cr_input_index b"
    by (auto simp: score_candidates_def Let_def split: if_splits option.splits ordering.splits)
  then show "\<exists>w l. (w = a \<and> l = b \<or> w = b \<and> l = a) \<and> cr_input_index w = i \<and> is_eligible w
             \<and> (is_eligible l \<longrightarrow> outranks w l)"
    by (metis compare_candidates_Greater compare_candidates_Less compare_candidates_outranks)
next
  have two: "{cr_input_index a, cr_input_index b} = {0, 1} \<longleftrightarrow>
      cr_input_index a \<noteq> cr_input_index b \<and> cr_input_index a < 2 \<and> cr_input_index b < 2"
  proof -
    have less2: "(x :: u8) < 2 \<longleftrightarrow> x = 0 \<or> x = 1" for x
      by unat_arith
    show ?thesis by (auto simp: less2 doubleton_eq_iff)
  qed
  show "score_candidates (a, b) = ScoreRollback \<longleftrightarrow>
        {cr_input_index a, cr_input_index b} \<noteq> {0, 1} \<or> \<not> is_eligible a \<and> \<not> is_eligible b"
    unfolding two compare_candidates_None [symmetric]
    by (auto simp: score_candidates_def Let_def CANDIDATE_COUNT_def
        split: option.splits ordering.splits)
qed

definition example_fast :: candidate_result where
  "example_fast = \<lparr>cr_input_index = 1, cr_exit_success = Some True, cr_elapsed_ns = Some 5,
     cr_output_bytes = Some 90, cr_quiescent = True, cr_output_overflowed = False\<rparr>"

definition example_slow :: candidate_result where
  "example_slow = \<lparr>cr_input_index = 0, cr_exit_success = Some True, cr_elapsed_ns = Some 7,
     cr_output_bytes = Some 10, cr_quiescent = True, cr_output_overflowed = False\<rparr>"

theorem score_candidates_correct_witness:
  "score_candidates (example_slow, example_fast) = ScoreSelected 1
   \<and> (\<exists>w l. (w = example_slow \<and> l = example_fast \<or> w = example_fast \<and> l = example_slow)
        \<and> cr_input_index w = 1 \<and> is_eligible w \<and> (is_eligible l \<longrightarrow> outranks w l))"
proof -
  have sel: "score_candidates (example_slow, example_fast) = ScoreSelected 1"
    by code_simp
  with score_candidates_correct [of example_slow example_fast 1] show ?thesis by simp
qed

text \<open>C20. There is one way to win: a legal path of phases from \<open>Prepared\<close> to \<open>Selected\<close> is the
  forward chain through arming, starting, running, both finalisations, followed only by
  repetitions of \<open>Selected\<close>. No rollback phase lies on it and no step can be skipped.\<close>

theorem selected_path_unique:
  assumes "legal_path ps" and "ps \<noteq> []" and "hd ps = Prepared" and "last ps = Selected"
  shows "\<exists>k. ps = forward_chain @ replicate k Selected"
proof -
  from assms obtain rest where ps: "ps = Prepared # rest" by (cases ps) auto
  with assms legal_path_last_Selected [of Prepared rest]
  show ?thesis by (auto simp: forward_chain_def)
qed

theorem selected_path_unique_witness:
  "legal_path (forward_chain @ [Selected])
   \<and> (\<exists>k. forward_chain @ [Selected] = forward_chain @ replicate k Selected)"
proof -
  have "legal_path (forward_chain @ [Selected])" by (simp add: forward_chain_def)
  with selected_path_unique [of "forward_chain @ [Selected]"] show ?thesis
    by (simp add: forward_chain_def)
qed

text \<open>C26. Rollback is always available and never turns into a selection: every phase but
  \<open>Selected\<close> has a legal path to \<open>RolledBack\<close> of at most three transitions, and no
  sequence of transitions and restarts leads from a rollback phase to \<open>Selected\<close>.\<close>

theorem rollback_available_and_final:
  "(p \<noteq> Selected \<longrightarrow>
      legal_path (unwind_path p) \<and> hd (unwind_path p) = p
      \<and> last (unwind_path p) = RolledBack \<and> length (unwind_path p) \<le> 4)
   \<and> (tournament_step\<^sup>*\<^sup>* s t \<and> is_rollback_only (ts_phase s) \<longrightarrow> ts_phase t \<noteq> Selected)"
proof (intro conjI impI)
  assume "p \<noteq> Selected"
  then show "legal_path (unwind_path p)" "hd (unwind_path p) = p"
    "last (unwind_path p) = RolledBack" "length (unwind_path p) \<le> 4"
    by (cases p; simp add: unwind_path_def)+
next
  assume "tournament_step\<^sup>*\<^sup>* s t \<and> is_rollback_only (ts_phase s)"
  then have "tournament_step\<^sup>*\<^sup>* s t" and "is_rollback_only (ts_phase s)" by auto
  then have "is_rollback_only (ts_phase t) \<or> ts_phase t = RolledBack"
    by (rule rollback_phases.reachable_inv [rotated])
  then show "ts_phase t \<noteq> Selected" by (auto simp: is_rollback_only_def)
qed

theorem rollback_available_and_final_witness:
  "last (unwind_path FinalizingWinner) = RolledBack
   \<and> tournament_step\<^sup>*\<^sup>* \<lparr>ts_phase = RollbackPending, ts_generation = 5\<rparr>
        \<lparr>ts_phase = RolledBack, ts_generation = 6\<rparr>
   \<and> ts_phase \<lparr>ts_phase = RolledBack, ts_generation = 6\<rparr> \<noteq> Selected"
proof -
  let ?s = "\<lparr>ts_phase = RollbackPending, ts_generation = 5\<rparr>"
  let ?t = "\<lparr>ts_phase = RolledBack, ts_generation = 6\<rparr>"
  have "transition ?s 5 RolledBack = Inr ?t"
    by (simp add: transition_def checked_add_def)
  then have st: "tournament_step\<^sup>*\<^sup>* ?s ?t" by (auto intro: tournament_step.advance)
  moreover have "is_rollback_only (ts_phase ?s)" by (simp add: is_rollback_only_def)
  ultimately show ?thesis
    using rollback_available_and_final [of FinalizingWinner ?s ?t] by simp
qed

text \<open>One generation is spent once: after a transition that changed the state, every later
  transition that still expects the old generation is refused as stale, whatever steps and
  restarts happened in between.\<close>

theorem generation_compare_and_swap:
  assumes "transition s g next = Inr t" and "t \<noteq> s" and "tournament_step\<^sup>*\<^sup>* t u"
  shows "transition u g other = Inl StaleGeneration"
proof -
  have g: "g = ts_generation s" "ts_generation s < ts_generation t"
    using generation_cell.put_version [of s g "next" t] assms(1,2) by auto
  from assms(3) have "ts_generation t \<le> ts_generation u"
    by (induction rule: rtranclp_induct) (auto dest!: tournament_step_generation)
  with g have "g \<noteq> ts_generation u" by auto
  then show ?thesis by (simp add: transition_def)
qed

theorem generation_compare_and_swap_witness:
  "transition \<lparr>ts_phase = PendingFinalize, ts_generation = 4\<rparr> 4 FinalizingLoser
     = Inr \<lparr>ts_phase = FinalizingLoser, ts_generation = 5\<rparr>
   \<and> transition \<lparr>ts_phase = FinalizingLoser, ts_generation = 5\<rparr> 4 RollbackPending
     = Inl StaleGeneration"
proof -
  have won: "transition \<lparr>ts_phase = PendingFinalize, ts_generation = 4\<rparr> 4 FinalizingLoser
     = Inr \<lparr>ts_phase = FinalizingLoser, ts_generation = 5\<rparr>"
    by (simp add: transition_def checked_add_def)
  from generation_compare_and_swap [OF won] won show ?thesis by simp
qed

end
