(* ===== verification/Evidence_FS.thy ===== *)
theory Evidence_FS
  imports Prelude
begin

text \<open>
  The evidence directory of \<open>speculation_fs.rs\<close>: JSON records are files of a private directory
  that are created and replaced atomically, through an unnamed temporary file that is linked
  or renamed into place, and re-read before the write counts as done. The directory is a map
  from leaf names to files; every answer of the operating system that the code reacts to is a
  field of the record \<open>os_answers\<close>, so a theorem that holds for all answers covers every
  failing system call. The JSON encoder and decoder are parameters. The lemmas show that a
  record is at every moment the old or the new one, that success means the new record is on disk
  and can be read back, and that replacing is a compare-and-swap on the file identity.
\<close>

unbundle bit_operations_syntax

section \<open>Errors and identities\<close>

definition MAX_SPECULATION_JSON_BYTES :: nat where
  "MAX_SPECULATION_JSON_BYTES = 32 * 1024"

definition MAX_DIRECTORY_PATH_BYTES :: nat where
  "MAX_DIRECTORY_PATH_BYTES = 4096"

definition MAX_LEAF_BYTES :: nat where
  "MAX_LEAF_BYTES = 255"

definition TRANSACTION_TEMP_PREFIX :: string where
  "TRANSACTION_TEMP_PREFIX = ''.lterm-speculation-txn-v1-''"

definition TRANSACTION_TEMP_SUFFIX :: string where
  "TRANSACTION_TEMP_SUFFIX = ''.tmp''"

datatype evidence_error =
    Unsupported | InvalidDirectory | InvalidIdentity | Overlap | InvalidLeaf | AlreadyExists
  | Missing | TooLarge | Corrupt | Stale | Io | Capacity | GenerationMismatch | Poisoned

fun evidence_error_text :: "evidence_error \<Rightarrow> string" where
  "evidence_error_text Unsupported = ''speculation_evidence_unsupported''"
| "evidence_error_text InvalidDirectory = ''speculation_invalid_directory''"
| "evidence_error_text InvalidIdentity = ''speculation_invalid_identity''"
| "evidence_error_text Overlap = ''speculation_root_overlap''"
| "evidence_error_text InvalidLeaf = ''speculation_invalid_leaf''"
| "evidence_error_text AlreadyExists = ''speculation_record_exists''"
| "evidence_error_text Missing = ''speculation_record_missing''"
| "evidence_error_text TooLarge = ''speculation_record_too_large''"
| "evidence_error_text Corrupt = ''speculation_record_corrupt''"
| "evidence_error_text Stale = ''speculation_record_stale''"
| "evidence_error_text Io = ''speculation_evidence_io''"
| "evidence_error_text Capacity = ''speculation_capacity_exhausted''"
| "evidence_error_text GenerationMismatch = ''speculation_generation_mismatch''"
| "evidence_error_text Poisoned = ''speculation_evidence_poisoned''"

type_synonym 'a evidence_result = "evidence_error + 'a"

record durable_directory_identity =
  di_boot_uuid :: uuid
  di_dev :: u64
  di_ino :: u64
  di_statx_mnt_id_unique :: u64

record file_identity =
  fi_dev :: u64
  fi_ino :: u64

datatype directory_policy = Private | Workspace | DelegatedCgroup

text \<open>An absolute path is the list of its components.\<close>

record validated_directory =
  vd_identity :: durable_directory_identity
  vd_canonical_locator :: "string list"
  vd_policy :: directory_policy

section \<open>Files and system calls\<close>

datatype errno = EEXIST | ENOENT | EPERM | EACCES | EOPNOTSUPP | EINVAL | ENOSYS | EXDEV | EOTHER

fun map_io_error :: "errno \<Rightarrow> evidence_error" where
  "map_io_error EEXIST = AlreadyExists"
| "map_io_error ENOENT = Missing"
| "map_io_error _ = Io"

datatype file_kind = RegularFile | Directory | Symlink | Fifo | Socket | BlockDevice | CharDevice

record file_metadata =
  fm_kind :: file_kind
  fm_uid :: u32
  fm_mode :: u32
  fm_nlink :: u64
  fm_dev :: u64
  fm_ino :: u64

record fs_file =
  f_meta :: file_metadata
  f_bytes :: "u8 list"

text \<open>A leaf is a C string without its terminator; a directory maps leaves to files.\<close>

type_synonym leaf = string
type_synonym directory = "leaf \<rightharpoonup> fs_file"

text \<open>What one \<open>revalidate\<close> reads: the identity and metadata of the retained descriptor, what the
  files of a delegated cgroup root say, and the identity found when the locator is reopened.\<close>

record dir_probe =
  dp_identity :: "durable_directory_identity evidence_result"
  dp_metadata :: "file_metadata evidence_result"
  dp_is_cgroup2 :: "bool evidence_result"
  dp_leaves :: directory
  dp_reopened :: "durable_directory_identity evidence_result"

text \<open>The answers of the operating system during one operation; \<open>None\<close> is success.\<close>

record os_answers =
  os_euid :: u32
  os_poisoned :: bool
  os_flock :: "errno option"
  os_before :: dir_probe
  os_after :: dir_probe
  os_open :: "errno option"
  os_stat :: "errno option"
  os_read :: "errno option"
  os_tmpfile :: "errno option"
  os_tmp_metadata :: file_metadata
  os_write :: "errno option"
  os_stat_tmp :: "errno option"
  os_link :: "errno option"
  os_proc_link :: "errno option"
  os_stat_published :: "errno option"
  os_rename :: "errno option"
  os_dir_sync :: "errno option"
  os_reopen :: "errno option"
  os_stat_reopened :: "errno option"
  os_read_back :: "errno option"
  os_unlink :: "errno option"
  os_temp_uuid :: string

definition sys_check :: "errno option \<Rightarrow> unit evidence_result" where
  "sys_check e = (case e of None \<Rightarrow> Inr () | Some _ \<Rightarrow> Inl Io)"

section \<open>Validation\<close>

definition validate_leaf :: "leaf \<Rightarrow> unit evidence_result" where
  "validate_leaf leaf =
     (if leaf = [] \<or> length leaf > MAX_LEAF_BYTES \<or> leaf = ''.'' \<or> leaf = ''..'' \<or> CHR ''/'' \<in> set leaf
      then Inl InvalidLeaf else Inr ())"

definition validate_regular_file ::
    "u32 \<Rightarrow> errno option \<Rightarrow> fs_file \<Rightarrow> u64 \<Rightarrow> file_identity evidence_result" where
  "validate_regular_file euid stat f expected_links =
     bind_res (sys_check stat) (\<lambda>_.
       (let m = f_meta f in
        if fm_kind m \<noteq> RegularFile \<or> fm_uid m \<noteq> euid \<or> fm_mode m AND 0xfff \<noteq> 0x180
           \<or> fm_nlink m \<noteq> expected_links
        then Inl InvalidIdentity
        else Inr \<lparr>fi_dev = fm_dev m, fi_ino = fm_ino m\<rparr>))"

definition validate_record_file ::
    "u32 \<Rightarrow> errno option \<Rightarrow> fs_file \<Rightarrow> file_identity evidence_result" where
  "validate_record_file euid stat f = validate_regular_file euid stat f 1"

definition validate_temporary_record_file ::
    "u32 \<Rightarrow> errno option \<Rightarrow> fs_file \<Rightarrow> file_identity evidence_result" where
  "validate_temporary_record_file euid stat f = validate_regular_file euid stat f 0"

definition validate_private_directory_metadata ::
    "u32 \<Rightarrow> file_metadata evidence_result \<Rightarrow> unit evidence_result" where
  "validate_private_directory_metadata euid metadata =
     bind_res metadata (\<lambda>m.
       if fm_kind m \<noteq> Directory \<or> fm_uid m \<noteq> euid \<or> fm_mode m AND 0xfff \<noteq> 0x1c0
       then Inl InvalidDirectory else Inr ())"

definition validate_workspace_directory_metadata ::
    "u32 \<Rightarrow> file_metadata evidence_result \<Rightarrow> unit evidence_result" where
  "validate_workspace_directory_metadata euid metadata =
     bind_res metadata (\<lambda>m.
       if fm_kind m \<noteq> Directory \<or> fm_uid m \<noteq> euid \<or> fm_mode m AND 0xc00 \<noteq> 0
          \<or> fm_mode m AND 0x12 \<noteq> 0
       then Inl InvalidDirectory else Inr ())"

definition openat_file :: "errno option \<Rightarrow> directory \<Rightarrow> leaf \<Rightarrow> fs_file evidence_result" where
  "openat_file fault d leaf =
     (case fault of
        Some e \<Rightarrow> Inl (map_io_error e)
      | None \<Rightarrow> (case d leaf of None \<Rightarrow> Inl (map_io_error ENOENT) | Some f \<Rightarrow> Inr f))"

definition read_small_leaf :: "directory \<Rightarrow> leaf \<Rightarrow> nat \<Rightarrow> u8 list evidence_result" where
  "read_small_leaf d leaf cap =
     bind_res (openat_file None d leaf) (\<lambda>f.
       (let bytes = take (cap + 1) (f_bytes f) in
        if length bytes > cap then Inl TooLarge else Inr bytes))"

definition ascii :: "string \<Rightarrow> u8 list" where
  "ascii s = map of_char s"

fun split_whitespace :: "u8 list \<Rightarrow> u8 list \<Rightarrow> u8 list list" where
  "split_whitespace [] acc = [acc]"
| "split_whitespace (b # bs) acc =
     (if b \<in> {0x20, 0x09, 0x0a, 0x0c, 0x0d} then acc # split_whitespace bs []
      else split_whitespace bs (acc @ [b]))"

definition validate_cgroup_leaf_exists :: "directory \<Rightarrow> leaf \<Rightarrow> unit evidence_result" where
  "validate_cgroup_leaf_exists d leaf =
     (case d leaf of None \<Rightarrow> Inl Io
      | Some f \<Rightarrow> if fm_kind (f_meta f) \<noteq> RegularFile then Inl InvalidDirectory else Inr ())"

definition validate_cgroup_control :: "directory \<Rightarrow> leaf \<Rightarrow> unit evidence_result" where
  "validate_cgroup_control d leaf =
     bind_res (openat_file None d leaf) (\<lambda>f.
       if fm_kind (f_meta f) \<noteq> RegularFile then Inl InvalidDirectory else Inr ())"

definition validate_delegated_cgroup_root :: "u32 \<Rightarrow> dir_probe \<Rightarrow> unit evidence_result" where
  "validate_delegated_cgroup_root euid p =
     bind_res (dp_metadata p) (\<lambda>m.
       if fm_kind m \<noteq> Directory \<or> fm_uid m \<noteq> euid \<or> fm_mode m AND 0x12 \<noteq> 0
       then Inl InvalidDirectory
       else bind_res (dp_is_cgroup2 p) (\<lambda>is_cgroup2.
         if \<not> is_cgroup2 then Inl InvalidDirectory
         else bind_res (read_small_leaf (dp_leaves p) ''cgroup.type'' 64) (\<lambda>cgroup_type.
           if cgroup_type \<noteq> ascii ''domain'' @ [0x0a] then Inl InvalidDirectory
           else bind_res (read_small_leaf (dp_leaves p) ''cgroup.procs'' 4096) (\<lambda>procs.
             if procs \<noteq> [] then Inl InvalidDirectory
             else bind_res (read_small_leaf (dp_leaves p) ''cgroup.controllers'' 4096) (\<lambda>controllers.
               if ascii ''pids'' \<notin> set (split_whitespace controllers []) then Inl InvalidDirectory
               else bind_res (validate_cgroup_leaf_exists (dp_leaves p) ''cgroup.kill'') (\<lambda>_.
                 bind_res (validate_cgroup_control (dp_leaves p) ''cgroup.events'') (\<lambda>_.
                   validate_cgroup_control (dp_leaves p) ''cgroup.subtree_control'')))))))"

definition validate_directory_policy ::
    "u32 \<Rightarrow> dir_probe \<Rightarrow> directory_policy \<Rightarrow> unit evidence_result" where
  "validate_directory_policy euid p policy =
     (case policy of
        Private \<Rightarrow> validate_private_directory_metadata euid (dp_metadata p)
      | Workspace \<Rightarrow> validate_workspace_directory_metadata euid (dp_metadata p)
      | DelegatedCgroup \<Rightarrow> validate_delegated_cgroup_root euid p)"

definition reopen_and_verify :: "validated_directory \<Rightarrow> dir_probe \<Rightarrow> unit evidence_result" where
  "reopen_and_verify vd p =
     bind_res (dp_reopened p) (\<lambda>reopened.
       if reopened \<noteq> vd_identity vd then Inl Stale else Inr ())"

definition revalidate :: "u32 \<Rightarrow> validated_directory \<Rightarrow> dir_probe \<Rightarrow> unit evidence_result" where
  "revalidate euid vd p =
     bind_res (dp_identity p) (\<lambda>current.
       if current \<noteq> vd_identity vd then Inl Stale
       else bind_res (validate_directory_policy euid p (vd_policy vd)) (\<lambda>_.
              reopen_and_verify vd p))"

text \<open>\<open>starts_with\<close> on paths compares components.\<close>

fun starts_with :: "string list \<Rightarrow> string list \<Rightarrow> bool" where
  "starts_with path [] \<longleftrightarrow> True"
| "starts_with [] (c # cs) \<longleftrightarrow> False"
| "starts_with (p # ps) (c # cs) \<longleftrightarrow> p = c \<and> starts_with ps cs"

definition overlaps :: "validated_directory \<Rightarrow> validated_directory \<Rightarrow> bool" where
  "overlaps left right \<longleftrightarrow>
     (di_dev (vd_identity left) = di_dev (vd_identity right)
      \<and> di_ino (vd_identity left) = di_ino (vd_identity right))
     \<or> starts_with (vd_canonical_locator left) (vd_canonical_locator right)
     \<or> starts_with (vd_canonical_locator right) (vd_canonical_locator left)"

fun validate_no_overlap :: "validated_directory list \<Rightarrow> unit evidence_result" where
  "validate_no_overlap [] = Inr ()"
| "validate_no_overlap (left # rest) =
     (if list_ex (overlaps left) rest then Inl Overlap else validate_no_overlap rest)"

section \<open>Reading and writing records\<close>

record 'v stored_json =
  sj_value :: 'v
  sj_identity :: file_identity

definition serialize_bounded ::
    "('v \<Rightarrow> u8 list option) \<Rightarrow> 'v \<Rightarrow> nat \<Rightarrow> u8 list evidence_result" where
  "serialize_bounded to_vec v cap =
     (let effective_cap = min cap MAX_SPECULATION_JSON_BYTES in
      bind_res (ok_or (to_vec v) Corrupt) (\<lambda>bytes.
        if length bytes > effective_cap then Inl TooLarge else Inr bytes))"

definition read_bounded :: "errno option \<Rightarrow> fs_file \<Rightarrow> nat \<Rightarrow> u8 list evidence_result" where
  "read_bounded fault f cap =
     (let effective_cap = min cap MAX_SPECULATION_JSON_BYTES in
      bind_res (sys_check fault) (\<lambda>_.
        (let bytes = take (effective_cap + 1) (f_bytes f) in
         if length bytes > effective_cap then Inl TooLarge else Inr bytes)))"

definition read_json ::
    "(u8 list \<Rightarrow> 'v option) \<Rightarrow> os_answers \<Rightarrow> validated_directory \<Rightarrow> directory \<Rightarrow> leaf \<Rightarrow> nat
       \<Rightarrow> 'v stored_json evidence_result" where
  "read_json from_slice os vd d leaf cap =
     bind_res (revalidate (os_euid os) vd (os_before os)) (\<lambda>_.
     bind_res (validate_leaf leaf) (\<lambda>_.
     bind_res (openat_file (os_open os) d leaf) (\<lambda>f.
     bind_res (validate_record_file (os_euid os) (os_stat os) f) (\<lambda>identity.
     bind_res (read_bounded (os_read os) f cap) (\<lambda>bytes.
     bind_res (ok_or (from_slice bytes) Corrupt) (\<lambda>v.
       Inr \<lparr>sj_value = v, sj_identity = identity\<rparr>))))))"

definition read_exact_written_json ::
    "(u8 list \<Rightarrow> 'v option) \<Rightarrow> os_answers \<Rightarrow> directory \<Rightarrow> leaf \<Rightarrow> file_identity \<Rightarrow> u8 list \<Rightarrow> nat
       \<Rightarrow> 'v stored_json evidence_result" where
  "read_exact_written_json from_slice os d leaf expected_identity expected_bytes cap =
     bind_res (openat_file (os_reopen os) d leaf) (\<lambda>f.
     bind_res (validate_record_file (os_euid os) (os_stat_reopened os) f) (\<lambda>identity.
       if identity \<noteq> expected_identity then Inl Stale
       else bind_res (read_bounded (os_read_back os) f cap) (\<lambda>bytes.
         if bytes \<noteq> expected_bytes then Inl Corrupt
         else bind_res (ok_or (from_slice bytes) Corrupt) (\<lambda>v.
           Inr \<lparr>sj_value = v, sj_identity = identity\<rparr>))))"

definition lock_mutations :: "os_answers \<Rightarrow> unit evidence_result" where
  "lock_mutations os =
     (if os_poisoned os then Inl Poisoned else sys_check (os_flock os))"

definition create_unnamed_temp :: "os_answers \<Rightarrow> fs_file evidence_result" where
  "create_unnamed_temp os =
     (case os_tmpfile os of
        Some e \<Rightarrow> Inl (if e \<in> {EOPNOTSUPP, EINVAL, ENOSYS} then Unsupported else Io)
      | None \<Rightarrow> Inr \<lparr>f_meta = os_tmp_metadata os, f_bytes = []\<rparr>)"

definition write_and_sync :: "os_answers \<Rightarrow> fs_file \<Rightarrow> u8 list \<Rightarrow> fs_file evidence_result" where
  "write_and_sync os f bytes =
     bind_res (sys_check (os_write os)) (\<lambda>_. Inr (f\<lparr>f_bytes := f_bytes f @ bytes\<rparr>))"

text \<open>Linking a file under a leaf: the call fails as the system decides, or because the leaf
  exists; on success the link count goes up and the leaf names the file.\<close>

definition linkat_errno :: "errno option \<Rightarrow> directory \<Rightarrow> leaf \<Rightarrow> errno option" where
  "linkat_errno fault d leaf =
     (case fault of Some e \<Rightarrow> Some e | None \<Rightarrow> if d leaf = None then None else Some EEXIST)"

definition linked :: "fs_file \<Rightarrow> fs_file" where
  "linked f = f\<lparr>f_meta := (f_meta f)\<lparr>fm_nlink := fm_nlink (f_meta f) + 1\<rparr>\<rparr>"

definition publish_unnamed_no_replace ::
    "os_answers \<Rightarrow> fs_file \<Rightarrow> directory \<Rightarrow> leaf \<Rightarrow> (fs_file \<times> directory) evidence_result" where
  "publish_unnamed_no_replace os f d leaf =
     (let direct = linkat_errno (os_link os) d leaf;
          result = (if direct \<in> {Some EPERM, Some ENOENT}
                    then linkat_errno (os_proc_link os) d leaf else direct) in
      case result of
        None \<Rightarrow> Inr (linked f, d(leaf \<mapsto> linked f))
      | Some e \<Rightarrow>
          Inl (if e = EEXIST then AlreadyExists
               else if e \<in> {EOPNOTSUPP, EINVAL, ENOSYS, EPERM, EACCES, ENOENT, EXDEV} then Unsupported
               else Io))"

definition unlinkat :: "os_answers \<Rightarrow> directory \<Rightarrow> leaf \<Rightarrow> directory" where
  "unlinkat os d leaf = (if os_unlink os = None then d(leaf := None) else d)"

definition renameat :: "errno option \<Rightarrow> directory \<Rightarrow> leaf \<Rightarrow> leaf \<Rightarrow> directory evidence_result" where
  "renameat fault d from to =
     (case fault of
        Some e \<Rightarrow> Inl (map_io_error e)
      | None \<Rightarrow> (case d from of
                   None \<Rightarrow> Inl (map_io_error ENOENT)
                 | Some f \<Rightarrow> Inr ((d(from := None))(to \<mapsto> f))))"

definition transaction_temp_leaf :: "os_answers \<Rightarrow> leaf" where
  "transaction_temp_leaf os = TRANSACTION_TEMP_PREFIX @ os_temp_uuid os @ TRANSACTION_TEMP_SUFFIX"

text \<open>The steps before anything is visible in the directory: a filled and synced unnamed file.\<close>

definition prepare_temp ::
    "os_answers \<Rightarrow> u8 list \<Rightarrow> (fs_file \<times> file_identity) evidence_result" where
  "prepare_temp os bytes =
     bind_res (create_unnamed_temp os) (\<lambda>f.
     bind_res (write_and_sync os f bytes) (\<lambda>f.
     bind_res (validate_temporary_record_file (os_euid os) (os_stat_tmp os) f) (\<lambda>unlinked_identity.
       Inr (f, unlinked_identity))))"

text \<open>The steps after the record is in place: sync the directory, read the record back and check the
  directory again.\<close>

definition confirm_written ::
    "(u8 list \<Rightarrow> 'v option) \<Rightarrow> os_answers \<Rightarrow> validated_directory \<Rightarrow> directory \<Rightarrow> leaf \<Rightarrow>
     file_identity \<Rightarrow> u8 list \<Rightarrow> nat \<Rightarrow> 'v stored_json evidence_result" where
  "confirm_written from_slice os vd d leaf published_identity bytes cap =
     bind_res (sys_check (os_dir_sync os)) (\<lambda>_.
     bind_res (read_exact_written_json from_slice os d leaf published_identity bytes cap) (\<lambda>stored.
     bind_res (revalidate (os_euid os) vd (os_after os)) (\<lambda>_.
       Inr stored)))"

definition atomic_create_json ::
    "('v \<Rightarrow> u8 list option) \<Rightarrow> (u8 list \<Rightarrow> 'v option) \<Rightarrow> os_answers \<Rightarrow> validated_directory \<Rightarrow>
     directory \<Rightarrow> leaf \<Rightarrow> 'v \<Rightarrow> nat \<Rightarrow> directory \<times> 'v stored_json evidence_result" where
  "atomic_create_json to_vec from_slice os vd d leaf v cap =
     (case bind_res (validate_leaf leaf) (\<lambda>_.
           bind_res (serialize_bounded to_vec v cap) (\<lambda>bytes.
           bind_res (lock_mutations os) (\<lambda>_.
           bind_res (revalidate (os_euid os) vd (os_before os)) (\<lambda>_.
           bind_res (prepare_temp os bytes) (\<lambda>(f, unlinked_identity).
           bind_res (publish_unnamed_no_replace os f d leaf) (\<lambda>(f, d1).
             Inr (bytes, f, unlinked_identity, d1))))))) of
        Inl e \<Rightarrow> (d, Inl e)
      | Inr (bytes, f, unlinked_identity, d1) \<Rightarrow>
          (case validate_record_file (os_euid os) (os_stat_published os) f of
             Inl e \<Rightarrow> (d1, Inl e)
           | Inr published_identity \<Rightarrow>
               if published_identity \<noteq> unlinked_identity then (unlinkat os d1 leaf, Inl Stale)
               else (d1, confirm_written from_slice os vd d1 leaf published_identity bytes cap)))"

text \<open>The closure of \<open>atomic_replace_json\<close>, with the directory as it leaves it.\<close>

definition replace_through_temp ::
    "(u8 list \<Rightarrow> 'v option) \<Rightarrow> os_answers \<Rightarrow> validated_directory \<Rightarrow> directory \<Rightarrow> leaf \<Rightarrow> leaf \<Rightarrow>
     fs_file \<Rightarrow> file_identity \<Rightarrow> u8 list \<Rightarrow> nat \<Rightarrow> directory \<times> 'v stored_json evidence_result" where
  "replace_through_temp from_slice os vd d leaf temp f unlinked_identity bytes cap =
     (case publish_unnamed_no_replace os f d temp of
        Inl e \<Rightarrow> (d, Inl e)
      | Inr (f, d1) \<Rightarrow>
          (case validate_record_file (os_euid os) (os_stat_published os) f of
             Inl e \<Rightarrow> (d1, Inl e)
           | Inr published_identity \<Rightarrow>
               if published_identity \<noteq> unlinked_identity then (d1, Inl Stale)
               else (case renameat (os_rename os) d1 temp leaf of
                       Inl e \<Rightarrow> (d1, Inl e)
                     | Inr d2 \<Rightarrow>
                         (d2, confirm_written from_slice os vd d2 leaf published_identity bytes cap))))"

definition atomic_replace_json ::
    "('v \<Rightarrow> u8 list option) \<Rightarrow> (u8 list \<Rightarrow> 'v option) \<Rightarrow> os_answers \<Rightarrow> validated_directory \<Rightarrow>
     directory \<Rightarrow> leaf \<Rightarrow> file_identity \<Rightarrow> 'v \<Rightarrow> nat \<Rightarrow> directory \<times> 'v stored_json evidence_result" where
  "atomic_replace_json to_vec from_slice os vd d leaf expected v cap =
     (case bind_res (validate_leaf leaf) (\<lambda>_.
           bind_res (serialize_bounded to_vec v cap) (\<lambda>bytes.
           bind_res (lock_mutations os) (\<lambda>_.
           bind_res (revalidate (os_euid os) vd (os_before os)) (\<lambda>_.
           bind_res (openat_file (os_open os) d leaf) (\<lambda>current.
           bind_res (validate_record_file (os_euid os) (os_stat os) current) (\<lambda>identity.
             if identity \<noteq> expected then Inl Stale
             else bind_res (prepare_temp os bytes) (\<lambda>(f, unlinked_identity).
               Inr (bytes, f, unlinked_identity)))))))) of
        Inl e \<Rightarrow> (d, Inl e)
      | Inr (bytes, f, unlinked_identity) \<Rightarrow>
          (let temp = transaction_temp_leaf os;
               (d', result) = replace_through_temp from_slice os vd d leaf temp f unlinked_identity bytes cap
           in if is_ok result then (d', result) else (unlinkat os d' temp, result)))"

section \<open>Listing and recovery of temporary files\<close>

definition is_transaction_temp_leaf :: "(string \<Rightarrow> bool) \<Rightarrow> leaf \<Rightarrow> bool" where
  "is_transaction_temp_leaf uuid_parses leaf \<longleftrightarrow>
     take (length TRANSACTION_TEMP_PREFIX) leaf = TRANSACTION_TEMP_PREFIX
     \<and> (let value = drop (length TRANSACTION_TEMP_PREFIX) leaf;
             n = length value - length TRANSACTION_TEMP_SUFFIX in
         length TRANSACTION_TEMP_SUFFIX \<le> length value
         \<and> drop n value = TRANSACTION_TEMP_SUFFIX \<and> uuid_parses (take n value))"

definition validate_temp_leaf_for_recovery ::
    "(string \<Rightarrow> bool) \<Rightarrow> (u8 list \<Rightarrow> bool) \<Rightarrow> os_answers \<Rightarrow> directory \<Rightarrow> leaf \<Rightarrow> unit evidence_result" where
  "validate_temp_leaf_for_recovery uuid_parses is_json os d leaf =
     (if \<not> is_transaction_temp_leaf uuid_parses leaf then Inl InvalidLeaf
      else bind_res (openat_file (os_open os) d leaf) (\<lambda>f.
           bind_res (validate_record_file (os_euid os) (os_stat os) f) (\<lambda>_.
           bind_res (read_bounded (os_read os) f MAX_SPECULATION_JSON_BYTES) (\<lambda>bytes.
             if is_json bytes then Inr () else Inl Corrupt))))"

fun retain_leaves ::
    "(string \<Rightarrow> bool) \<Rightarrow> (u8 list \<Rightarrow> bool) \<Rightarrow> os_answers \<Rightarrow> directory \<Rightarrow> leaf list
       \<Rightarrow> directory \<times> leaf list \<times> bool" where
  "retain_leaves uuid_parses is_json os d [] = (d, [], False)"
| "retain_leaves uuid_parses is_json os d (name # names) =
     (if is_transaction_temp_leaf uuid_parses name
         \<and> is_ok (validate_temp_leaf_for_recovery uuid_parses is_json os d name)
         \<and> os_unlink os = None
      then (let (d', kept, removed) = retain_leaves uuid_parses is_json os (unlinkat os d name) names in
            (d', kept, True))
      else (let (d', kept, removed) = retain_leaves uuid_parses is_json os d names in
            (d', name # kept, removed)))"

text \<open>\<open>readdir\<close> is what the directory stream yields, the entries for the directory itself and its
  parent included.\<close>

definition enumerate_leaf_names_from_fd ::
    "os_answers \<Rightarrow> validated_directory \<Rightarrow> leaf list \<Rightarrow> leaf list evidence_result" where
  "enumerate_leaf_names_from_fd os vd readdir =
     bind_res (dp_identity (os_before os)) (\<lambda>current.
       if current \<noteq> vd_identity vd then Inl Stale
       else bind_res (validate_private_directory_metadata (os_euid os) (dp_metadata (os_before os))) (\<lambda>_.
            bind_res (sys_check (os_read os)) (\<lambda>_.
            bind_res (dp_identity (os_after os)) (\<lambda>current.
              if current \<noteq> vd_identity vd then Inl Stale
              else Inr (filter (\<lambda>name. name \<noteq> ''.'' \<and> name \<noteq> ''..'') readdir)))))"

definition list_leaf_names ::
    "(string \<Rightarrow> bool) \<Rightarrow> (u8 list \<Rightarrow> bool) \<Rightarrow> os_answers \<Rightarrow> validated_directory \<Rightarrow> directory \<Rightarrow> leaf list
       \<Rightarrow> directory \<times> leaf list evidence_result" where
  "list_leaf_names uuid_parses is_json os vd d readdir =
     (case bind_res (lock_mutations os) (\<lambda>_.
           bind_res (revalidate (os_euid os) vd (os_before os)) (\<lambda>_.
             enumerate_leaf_names_from_fd os vd readdir)) of
        Inl e \<Rightarrow> (d, Inl e)
      | Inr names \<Rightarrow>
          (let (d', kept, removed) = retain_leaves uuid_parses is_json os d names in
           (d', bind_res (if removed then sys_check (os_dir_sync os) else Inr ()) (\<lambda>_.
                bind_res (revalidate (os_euid os) vd (os_after os)) (\<lambda>_. Inr kept)))))"

section \<open>What a leaf holds\<close>

definition record_file :: "u32 \<Rightarrow> fs_file \<Rightarrow> file_identity option" where
  "record_file euid f =
     (case validate_record_file euid None f of Inr i \<Rightarrow> Some i | Inl e \<Rightarrow> None)"

text \<open>The leaf names a valid record file with this identity and these bytes.\<close>

definition holds_bytes :: "u32 \<Rightarrow> directory \<Rightarrow> leaf \<Rightarrow> file_identity \<Rightarrow> u8 list \<Rightarrow> bool" where
  "holds_bytes euid d leaf i bytes \<longleftrightarrow>
     (case d leaf of Some f \<Rightarrow> record_file euid f = Some i \<and> f_bytes f = bytes | None \<Rightarrow> False)"

lemma sys_check_Inr [simp]: "sys_check e = Inr u \<longleftrightarrow> e = None"
  by (auto simp: sys_check_def split: option.splits)

lemma validate_record_file_Inr [simp]:
  "validate_record_file euid fault f = Inr i \<longleftrightarrow> fault = None \<and> record_file euid f = Some i"
  by (auto simp: validate_record_file_def record_file_def validate_regular_file_def Let_def
      sys_check_def split: option.splits sum.splits if_splits)

lemma openat_file_Inr [simp]: "openat_file fault d leaf = Inr f \<longleftrightarrow> fault = None \<and> d leaf = Some f"
  by (auto simp: openat_file_def split: option.splits)

lemma read_bounded_Inr:
  "read_bounded fault f cap = Inr bytes \<longleftrightarrow>
     fault = None \<and> bytes = f_bytes f \<and> length bytes \<le> min cap MAX_SPECULATION_JSON_BYTES"
  by (auto simp: read_bounded_def Let_def min_def split: if_splits)

lemma serialize_bounded_Inr:
  "serialize_bounded to_vec v cap = Inr bytes \<longleftrightarrow>
     to_vec v = Some bytes \<and> length bytes \<le> min cap MAX_SPECULATION_JSON_BYTES"
  by (cases "to_vec v") (auto simp: serialize_bounded_def Let_def simp del: bind_res_Inr)

lemma read_json_Inr:
  "read_json from_slice os vd d leaf cap = Inr st \<longleftrightarrow>
     revalidate (os_euid os) vd (os_before os) = Inr () \<and> validate_leaf leaf = Inr ()
     \<and> os_open os = None \<and> os_stat os = None \<and> os_read os = None
     \<and> (\<exists>bytes. holds_bytes (os_euid os) d leaf (sj_identity st) bytes
          \<and> length bytes \<le> min cap MAX_SPECULATION_JSON_BYTES
          \<and> from_slice bytes = Some (sj_value st))"
  by (cases st) (auto simp: read_json_def read_bounded_Inr holds_bytes_def split: option.splits)

lemma linked_simps [simp]: "f_bytes (linked f) = f_bytes f"
  by (simp add: linked_def)

lemma publish_Inr:
  "publish_unnamed_no_replace os f d leaf = Inr (f', d') \<longleftrightarrow>
     d leaf = None \<and> f' = linked f \<and> d' = d(leaf \<mapsto> linked f)
     \<and> (os_link os = None \<or> os_link os \<in> {Some EPERM, Some ENOENT} \<and> os_proc_link os = None)"
  by (auto simp: publish_unnamed_no_replace_def linkat_errno_def Let_def
      split: option.splits if_splits)

lemma prepare_temp_Inr:
  "prepare_temp os bytes = Inr (f, i) \<Longrightarrow> f_bytes f = bytes \<and> f_meta f = os_tmp_metadata os
     \<and> i = \<lparr>fi_dev = fm_dev (f_meta f), fi_ino = fm_ino (f_meta f)\<rparr>"
  by (auto simp: prepare_temp_def create_unnamed_temp_def write_and_sync_def
      validate_temporary_record_file_def validate_regular_file_def Let_def
      split: option.splits if_splits)

lemma confirm_written_Inr:
  assumes "confirm_written from_slice os vd d leaf i bytes cap = Inr st"
  shows "holds_bytes (os_euid os) d leaf (sj_identity st) bytes \<and> sj_identity st = i
     \<and> from_slice bytes = Some (sj_value st)"
  using assms
  by (auto simp: confirm_written_def read_exact_written_json_def read_bounded_Inr holds_bytes_def
      split: if_splits)

text \<open>The answers under which a write takes place: no call fails, the directory is found to be the validated one before and
  after, the temporary file is one of the user, and its name is free. A replacement then succeeds.\<close>

definition write_answers_ok :: "u32 \<Rightarrow> validated_directory \<Rightarrow> os_answers \<Rightarrow> directory \<Rightarrow> bool" where
  "write_answers_ok euid vd os d \<longleftrightarrow>
     os_euid os = euid \<and> \<not> os_poisoned os
     \<and> {os_flock os, os_open os, os_stat os, os_tmpfile os, os_write os, os_stat_tmp os, os_link os, os_stat_published os,
        os_rename os, os_dir_sync os, os_reopen os, os_stat_reopened os, os_read_back os} = {None}
     \<and> revalidate euid vd (os_before os) = Inr () \<and> revalidate euid vd (os_after os) = Inr ()
     \<and> fm_kind (os_tmp_metadata os) = RegularFile \<and> fm_uid (os_tmp_metadata os) = euid
     \<and> fm_mode (os_tmp_metadata os) AND 0xfff = 0x180 \<and> fm_nlink (os_tmp_metadata os) = 0
     \<and> d (transaction_temp_leaf os) = None"

lemma atomic_replace_ok:
  assumes "write_answers_ok euid vd os d" "validate_leaf leaf = Inr ()" "leaf \<noteq> transaction_temp_leaf os"
    and "to_vec v = Some bytes" "length bytes \<le> min cap MAX_SPECULATION_JSON_BYTES" "from_slice bytes = Some v"
    and "holds_bytes euid d leaf expected old"
  shows "\<exists>d' i. atomic_replace_json to_vec from_slice os vd d leaf expected v cap = (d', Inr \<lparr>sj_value = v, sj_identity = i\<rparr>)"
proof -
  let ?m = "os_tmp_metadata os" and ?temp = "transaction_temp_leaf os"
  let ?i = "\<lparr>fi_dev = fm_dev ?m, fi_ino = fm_ino ?m\<rparr>" and ?f = "\<lparr>f_meta = ?m, f_bytes = bytes\<rparr>"
  let ?d1 = "d(?temp \<mapsto> linked ?f)" and ?d2 = "(d(?temp := None))(leaf \<mapsto> linked ?f)"
  have os: "os_euid os = euid" "\<not> os_poisoned os" "os_flock os = None" "os_open os = None" "os_stat os = None" "os_tmpfile os = None"
    "os_write os = None" "os_stat_tmp os = None" "os_link os = None" "os_stat_published os = None" "os_rename os = None"
    "os_dir_sync os = None" "os_reopen os = None" "os_stat_reopened os = None" "os_read_back os = None" "d ?temp = None"
    using assms(1) by (auto simp: write_answers_ok_def)
  have dirs: "revalidate euid vd (os_before os) = Inr ()" "revalidate euid vd (os_after os) = Inr ()"
    using assms(1) by (auto simp: write_answers_ok_def)
  have tmp: "record_file euid (linked ?f) = Some ?i" "prepare_temp os bytes = Inr (?f, ?i)"
    using assms(1) os
    by (auto simp: write_answers_ok_def record_file_def validate_record_file_def validate_regular_file_def linked_def Let_def
        prepare_temp_def create_unnamed_temp_def write_and_sync_def validate_temporary_record_file_def sys_check_def)
  obtain f where f: "d leaf = Some f" "record_file euid f = Some expected" using assms(7) by (auto simp: holds_bytes_def split: option.splits)
  have pre: "serialize_bounded to_vec v cap = Inr bytes" "lock_mutations os = Inr ()" "openat_file (os_open os) d leaf = Inr f"
    "validate_record_file euid (os_stat os) f = Inr expected"
    using assms(4,5) os f by (simp_all add: serialize_bounded_Inr lock_mutations_def)
  have "publish_unnamed_no_replace os ?f d ?temp = Inr (linked ?f, ?d1)" using os by (simp add: publish_Inr)
  moreover have "validate_record_file euid (os_stat_published os) (linked ?f) = Inr ?i" using os tmp(1) by simp
  moreover have "renameat (os_rename os) ?d1 ?temp leaf = Inr ?d2" using os by (simp add: renameat_def fun_upd_twist)
  moreover have "confirm_written from_slice os vd ?d2 leaf ?i bytes cap = Inr \<lparr>sj_value = v, sj_identity = ?i\<rparr>"
  proof -
    have "openat_file (os_reopen os) ?d2 leaf = Inr (linked ?f)" "validate_record_file euid (os_stat_reopened os) (linked ?f) = Inr ?i"
      "read_bounded (os_read_back os) (linked ?f) cap = Inr bytes"
      using os tmp(1) assms(5) by (simp_all add: read_bounded_Inr)
    then show ?thesis using os dirs assms(6) by (simp add: confirm_written_def read_exact_written_json_def)
  qed
  ultimately have "replace_through_temp from_slice os vd d leaf ?temp ?f ?i bytes cap = (?d2, Inr \<lparr>sj_value = v, sj_identity = ?i\<rparr>)"
    using os(1) by (simp add: replace_through_temp_def del: validate_record_file_Inr)
  then show ?thesis using pre dirs tmp(2) assms(2) os(1) by (simp add: atomic_replace_json_def del: validate_record_file_Inr openat_file_Inr)
qed

section \<open>Atomicity\<close>

text \<open>The two outcomes of a create: nothing happened, or the leaf that was absent names a file with
  the new bytes; a result that is not an error confirms the second.\<close>

lemma atomic_create_cases:
  assumes "atomic_create_json to_vec from_slice os vd d leaf v cap = (d', r)"
  shows "(d' = d \<and> \<not> is_ok r)
     \<or> (\<exists>f bytes. d leaf = None \<and> d' = d(leaf \<mapsto> f) \<and> f_bytes f = bytes \<and> to_vec v = Some bytes
          \<and> (\<forall>st. r = Inr st \<longrightarrow> holds_bytes (os_euid os) d' leaf (sj_identity st) bytes
               \<and> from_slice bytes = Some (sj_value st)))"
proof (cases "bind_res (validate_leaf leaf) (\<lambda>_.
           bind_res (serialize_bounded to_vec v cap) (\<lambda>bytes.
           bind_res (lock_mutations os) (\<lambda>_.
           bind_res (revalidate (os_euid os) vd (os_before os)) (\<lambda>_.
           bind_res (prepare_temp os bytes) (\<lambda>(f, unlinked_identity).
           bind_res (publish_unnamed_no_replace os f d leaf) (\<lambda>(f, d1).
             Inr (bytes, f, unlinked_identity, d1)))))))")
  case (Inl e)
  with assms show ?thesis by (auto simp: atomic_create_json_def simp del: bind_res_Inl)
next
  case (Inr x)
  obtain bytes f i d1 where x: "x = (bytes, f, i, d1)" by (cases x)
  from Inr x obtain f0 where f: "to_vec v = Some bytes" "prepare_temp os bytes = Inr (f0, i)" "d leaf = None"
    "f = linked f0" "d1 = d(leaf \<mapsto> f)"
    by (auto simp: serialize_bounded_Inr publish_Inr)
  then have bytes: "f_bytes f = bytes" using prepare_temp_Inr [OF f(2)] by simp
  show ?thesis
  proof (cases "validate_record_file (os_euid os) (os_stat_published os) f")
    case (Inl e)
    with assms Inr x f bytes show ?thesis by (auto simp: atomic_create_json_def simp del: bind_res_Inr)
  next
    case published: (Inr p)
    show ?thesis
    proof (cases "p = i")
      case True
      have "d' = d1" "r = confirm_written from_slice os vd d1 leaf p bytes cap"
        using assms Inr x published True by (auto simp: atomic_create_json_def simp del: bind_res_Inr)
      with f bytes show ?thesis
        by (intro disjI2 exI [of _ f] exI [of _ bytes]) (auto dest!: confirm_written_Inr)
    next
      case False
      have "d' = unlinkat os d1 leaf" "r = Inl Stale"
        using assms Inr x published False by (auto simp: atomic_create_json_def simp del: bind_res_Inr)
      with f bytes show ?thesis by (auto simp: unlinkat_def fun_upd_idem)
    qed
  qed
qed

text \<open>The outcomes of a replace: outside the temporary leaf nothing happened, or the leaf that held the
  expected identity names a file with the new bytes.\<close>

lemma replace_through_temp_cases:
  assumes "replace_through_temp from_slice os vd d leaf temp f i bytes cap = (d', r)" and "leaf \<noteq> temp"
    and "f_bytes f = bytes"
  shows "((\<forall>l. l \<noteq> temp \<longrightarrow> d' l = d l) \<and> \<not> is_ok r)
     \<or> (d temp = None \<and> d' = (d(temp := None))(leaf \<mapsto> linked f)
          \<and> (\<forall>st. r = Inr st \<longrightarrow> holds_bytes (os_euid os) d' leaf (sj_identity st) bytes
               \<and> sj_identity st = i \<and> from_slice bytes = Some (sj_value st)))"
proof (cases "publish_unnamed_no_replace os f d temp")
  case (Inl e)
  with assms(1) show ?thesis by (auto simp: replace_through_temp_def)
next
  case (Inr x)
  then have x: "d temp = None" "x = (linked f, d(temp \<mapsto> linked f))"
    by (cases x, simp add: publish_Inr)+
  show ?thesis
  proof (cases "validate_record_file (os_euid os) (os_stat_published os) (linked f)")
    case (Inl e)
    with assms(1) Inr x show ?thesis by (auto simp: replace_through_temp_def)
  next
    case published: (Inr p)
    show ?thesis
    proof (cases "p = i \<and> os_rename os = None")
      case True
      have "d' = (d(temp := None))(leaf \<mapsto> linked f)"
        "r = confirm_written from_slice os vd d' leaf i bytes cap"
        using assms(1) Inr x published True by (auto simp: replace_through_temp_def renameat_def)
      with x confirm_written_Inr show ?thesis by fastforce
    next
      case False
      with assms(1) Inr x published show ?thesis
        by (auto simp: replace_through_temp_def renameat_def split: if_splits option.splits)
    qed
  qed
qed

lemma atomic_replace_cases:
  assumes "atomic_replace_json to_vec from_slice os vd d leaf expected v cap = (d', r)"
    and "leaf \<noteq> transaction_temp_leaf os"
  shows "((\<forall>l. l \<noteq> transaction_temp_leaf os \<longrightarrow> d' l = d l) \<and> \<not> is_ok r)
     \<or> (\<exists>f. (\<forall>l. l \<noteq> transaction_temp_leaf os \<longrightarrow> d' l = (d(leaf \<mapsto> f)) l)
          \<and> (\<exists>old. holds_bytes (os_euid os) d leaf expected old)
          \<and> to_vec v = Some (f_bytes f) \<and> f_meta f = f_meta (linked \<lparr>f_meta = os_tmp_metadata os, f_bytes = []\<rparr>)
          \<and> (\<forall>st. r = Inr st \<longrightarrow> holds_bytes (os_euid os) d' leaf (sj_identity st) (f_bytes f)
               \<and> from_slice (f_bytes f) = Some (sj_value st)))"
proof (cases "bind_res (validate_leaf leaf) (\<lambda>_.
           bind_res (serialize_bounded to_vec v cap) (\<lambda>bytes.
           bind_res (lock_mutations os) (\<lambda>_.
           bind_res (revalidate (os_euid os) vd (os_before os)) (\<lambda>_.
           bind_res (openat_file (os_open os) d leaf) (\<lambda>current.
           bind_res (validate_record_file (os_euid os) (os_stat os) current) (\<lambda>identity.
             if identity \<noteq> expected then Inl Stale
             else bind_res (prepare_temp os bytes) (\<lambda>(f, unlinked_identity).
               Inr (bytes, f, unlinked_identity))))))))")
  case (Inl e)
  with assms show ?thesis by (auto simp: atomic_replace_json_def simp del: bind_res_Inl)
next
  case (Inr x)
  obtain bytes f i where x: "x = (bytes, f, i)" by (cases x)
  from Inr x have f: "to_vec v = Some bytes" "prepare_temp os bytes = Inr (f, i)"
    and old: "\<exists>old. holds_bytes (os_euid os) d leaf expected old"
    by (auto simp: serialize_bounded_Inr holds_bytes_def split: if_splits)
  from prepare_temp_Inr [OF f(2)] have bytes: "f_bytes f = bytes" "f_meta f = os_tmp_metadata os" by auto
  let ?temp = "transaction_temp_leaf os"
  obtain d1 r1 where run: "replace_through_temp from_slice os vd d leaf ?temp f i bytes cap = (d1, r1)"
    by (cases "replace_through_temp from_slice os vd d leaf ?temp f i bytes cap") auto
  have d': "r = r1" "d' = (if is_ok r1 then d1 else unlinkat os d1 ?temp)"
    using assms(1) Inr x run by (auto simp: atomic_replace_json_def Let_def simp del: bind_res_Inr split: if_splits)
  have same: "\<forall>l. l \<noteq> ?temp \<longrightarrow> d' l = d1 l" by (simp add: d' unlinkat_def)
  from replace_through_temp_cases [OF run assms(2) bytes(1)] show ?thesis
  proof
    assume "(\<forall>l. l \<noteq> ?temp \<longrightarrow> d1 l = d l) \<and> \<not> is_ok r1"
    with same d' show ?thesis by simp
  next
    assume *: "d ?temp = None \<and> d1 = (d(?temp := None))(leaf \<mapsto> linked f)
          \<and> (\<forall>st. r1 = Inr st \<longrightarrow> holds_bytes (os_euid os) d1 leaf (sj_identity st) bytes
               \<and> sj_identity st = i \<and> from_slice bytes = Some (sj_value st))"
    show ?thesis
    proof (intro disjI2 exI [of _ "linked f"] conjI)
      show "\<forall>l. l \<noteq> ?temp \<longrightarrow> d' l = (d(leaf \<mapsto> linked f)) l" using same * by simp
      show "to_vec v = Some (f_bytes (linked f))" using f(1) bytes(1) by simp
      show "f_meta (linked f) = f_meta (linked \<lparr>f_meta = os_tmp_metadata os, f_bytes = []\<rparr>)"
        using bytes(2) by (simp add: linked_def)
      show "\<forall>st. r = Inr st \<longrightarrow> holds_bytes (os_euid os) d' leaf (sj_identity st) (f_bytes (linked f))
               \<and> from_slice (f_bytes (linked f)) = Some (sj_value st)"
        using * d' bytes by auto
    qed (rule old)
  qed
qed

section \<open>The interface of a record store\<close>

text \<open>\<open>agrees holds decode mem d\<close>: every record that the memory \<open>mem\<close> of a client knows, with its
  identity, is what the store holds.\<close>

definition agrees ::
    "('d \<Rightarrow> leaf \<Rightarrow> file_identity \<Rightarrow> u8 list \<Rightarrow> bool) \<Rightarrow> (u8 list \<Rightarrow> 'w option) \<Rightarrow>
     (leaf \<rightharpoonup> file_identity \<times> 'w) \<Rightarrow> 'd \<Rightarrow> bool" where
  "agrees holds decode mem d \<longleftrightarrow>
     (\<forall>l i w. mem l = Some (i, w) \<longrightarrow> (\<exists>bytes. holds d l i bytes \<and> decode bytes = Some w))"

locale record_store =
  fixes holds :: "'d \<Rightarrow> leaf \<Rightarrow> file_identity \<Rightarrow> u8 list \<Rightarrow> bool"
    and decode :: "u8 list \<Rightarrow> 'v option"
    and create :: "'os \<Rightarrow> 'd \<Rightarrow> leaf \<Rightarrow> 'v \<Rightarrow> 'd \<times> 'v stored_json evidence_result"
    and replace :: "'os \<Rightarrow> 'd \<Rightarrow> leaf \<Rightarrow> file_identity \<Rightarrow> 'v \<Rightarrow> 'd \<times> 'v stored_json evidence_result"
    and temp :: "leaf \<Rightarrow> bool"
  assumes create_ok: "create os d l v = (d', Inr st) \<Longrightarrow>
      \<exists>bytes. holds d' l (sj_identity st) bytes \<and> decode bytes = Some (sj_value st)"
    and create_frame: "create os d l v = (d', r) \<Longrightarrow> k \<noteq> l \<Longrightarrow> holds d' k i b = holds d k i b"
    and replace_ok: "replace os d l e v = (d', Inr st) \<Longrightarrow> \<not> temp l \<Longrightarrow>
      \<exists>bytes. holds d' l (sj_identity st) bytes \<and> decode bytes = Some (sj_value st)"
    and replace_frame: "replace os d l e v = (d', r) \<Longrightarrow> \<not> temp l \<Longrightarrow> k \<noteq> l \<Longrightarrow> \<not> temp k \<Longrightarrow>
      holds d' k i b = holds d k i b"
begin

text \<open>A client that forgets a leaf on failure and records the returned identity and value on success
  stays in agreement with the store; memories of records of another type agree too.\<close>

lemma agrees_create_any:
  assumes "agrees holds dec mem d" and "create os d l v = (d', r)"
  shows "agrees holds dec (mem(l := None)) d'"
  using assms create_frame [OF assms(2)] by (auto simp: agrees_def)

lemma agrees_create:
  assumes "agrees holds decode mem d" and "create os d l v = (d', Inr st)"
  shows "agrees holds decode (mem(l \<mapsto> (sj_identity st, sj_value st))) d'"
  using agrees_create_any [OF assms] create_ok [OF assms(2)] by (auto simp: agrees_def)

lemma agrees_replace_any:
  assumes "agrees holds dec mem d" and "replace os d l e v = (d', r)" and "\<not> temp l"
    and "\<forall>k\<in>dom mem. \<not> temp k"
  shows "agrees holds dec (mem(l := None)) d'"
proof -
  have "holds d' k i b" if "k \<in> dom mem" "k \<noteq> l" "holds d k i b" for k i b
    using replace_frame [OF assms(2,3)] that assms(4) by simp
  with assms(1) show ?thesis unfolding agrees_def by (metis domI fun_upd_apply option.distinct(1))
qed

lemma agrees_replace:
  assumes "agrees holds decode mem d" and "replace os d l e v = (d', Inr st)" and "\<not> temp l"
    and "\<forall>k\<in>dom mem. \<not> temp k"
  shows "agrees holds decode (mem(l \<mapsto> (sj_identity st, sj_value st))) d'"
  using agrees_replace_any [OF assms] replace_ok [OF assms(2,3)] by (auto simp: agrees_def)

end

definition temp_leaf_name :: "leaf \<Rightarrow> bool" where
  "temp_leaf_name l \<longleftrightarrow> take (length TRANSACTION_TEMP_PREFIX) l = TRANSACTION_TEMP_PREFIX"

lemma temp_leaf_name_transaction [simp]: "temp_leaf_name (transaction_temp_leaf os)"
  by (simp add: temp_leaf_name_def transaction_temp_leaf_def)

lemma temp_leaf_name_is_transaction: "is_transaction_temp_leaf up l \<Longrightarrow> temp_leaf_name l"
  by (simp add: temp_leaf_name_def is_transaction_temp_leaf_def)

lemma not_temp_leaf: "\<not> temp_leaf_name l \<Longrightarrow> l \<noteq> transaction_temp_leaf os"
  by auto

lemma holds_bytes_cong: "d l = d' l \<Longrightarrow> holds_bytes euid d l i b = holds_bytes euid d' l i b"
  by (simp add: holds_bytes_def)

lemma atomic_create_frame:
  "atomic_create_json to_vec from_slice os vd d l v cap = (d', r) \<Longrightarrow> k \<noteq> l \<Longrightarrow> d' k = d k"
  by (drule atomic_create_cases) auto

lemma atomic_replace_frame:
  assumes "atomic_replace_json to_vec from_slice os vd d l e v cap = (d', r)" and "\<not> temp_leaf_name l"
    and "k \<noteq> l" and "\<not> temp_leaf_name k"
  shows "d' k = d k"
  using atomic_replace_cases [OF assms(1) not_temp_leaf [OF assms(2)]] not_temp_leaf [OF assms(4)]
    assms(3) by auto

text \<open>The directory functions provide the interface, for every encoder, decoder, user, directory handle
  and size limit.\<close>

interpretation fs: record_store "holds_bytes euid" from_slice
  "\<lambda>os d l v. atomic_create_json to_vec from_slice (os\<lparr>os_euid := euid\<rparr>) vd d l v cap"
  "\<lambda>os d l e v. atomic_replace_json to_vec from_slice (os\<lparr>os_euid := euid\<rparr>) vd d l e v cap"
  temp_leaf_name
  for euid :: u32 and to_vec :: "'v \<Rightarrow> u8 list option" and from_slice vd cap
proof
  fix os d l d' st and v :: 'v
  assume "atomic_create_json to_vec from_slice (os\<lparr>os_euid := euid\<rparr>) vd d l v cap = (d', Inr st)"
  from atomic_create_cases [OF this]
  show "\<exists>bytes. holds_bytes euid d' l (sj_identity st) bytes \<and> from_slice bytes = Some (sj_value st)"
    by auto
next
  fix os d l d' r k i b and v :: 'v
  assume "atomic_create_json to_vec from_slice (os\<lparr>os_euid := euid\<rparr>) vd d l v cap = (d', r)" "k \<noteq> l"
  from atomic_create_frame [OF this] show "holds_bytes euid d' k i b = holds_bytes euid d k i b"
    by (rule holds_bytes_cong)
next
  fix os d l e d' st and v :: 'v
  assume "atomic_replace_json to_vec from_slice (os\<lparr>os_euid := euid\<rparr>) vd d l e v cap = (d', Inr st)"
    "\<not> temp_leaf_name l"
  from atomic_replace_cases [OF this(1) not_temp_leaf [OF this(2)]]
  show "\<exists>bytes. holds_bytes euid d' l (sj_identity st) bytes \<and> from_slice bytes = Some (sj_value st)"
    by auto
next
  fix os d l e d' r k i b and v :: 'v
  assume "atomic_replace_json to_vec from_slice (os\<lparr>os_euid := euid\<rparr>) vd d l e v cap = (d', r)"
    "\<not> temp_leaf_name l" "k \<noteq> l" "\<not> temp_leaf_name k"
  from atomic_replace_frame [OF this] show "holds_bytes euid d' k i b = holds_bytes euid d k i b"
    by (rule holds_bytes_cong)
qed

section \<open>Recovery of temporary files\<close>

lemma retain_leaves_spec:
  "retain_leaves up js os d names = (d', kept, removed) \<Longrightarrow>
     (\<forall>l. \<not> temp_leaf_name l \<longrightarrow> d' l = d l) \<and> (\<exists>S. d' = d |` S)
     \<and> filter (\<lambda>l. \<not> temp_leaf_name l) kept = filter (\<lambda>l. \<not> temp_leaf_name l) names
     \<and> set kept \<subseteq> set names"
proof (induction names arbitrary: d d' kept removed)
  case Nil
  then show ?case by (auto intro: exI [of _ UNIV] simp: restrict_map_def)
next
  case (Cons n names)
  show ?case
  proof (cases "is_transaction_temp_leaf up n \<and>
      is_ok (validate_temp_leaf_for_recovery up js os d n) \<and> os_unlink os = None")
    case True
    then obtain r where run: "retain_leaves up js os (unlinkat os d n) names = (d', kept, r)"
      using Cons.prems by (auto split: prod.splits)
    have n: "temp_leaf_name n" using True temp_leaf_name_is_transaction by blast
    have unlinked: "unlinkat os d n = d |` (- {n})"
      using True by (auto simp: unlinkat_def restrict_map_def)
    from Cons.IH [OF run] obtain S where "d' = (d |` (- {n})) |` S" unfolding unlinked by blast
    then have "d' = d |` (- {n} \<inter> S)" by simp
    moreover have "d' l = d l" if "\<not> temp_leaf_name l" for l
      using Cons.IH [OF run] that n by (auto simp: unlinked restrict_map_def)
    ultimately show ?thesis using Cons.IH [OF run] n by auto
  next
    case False
    then obtain k r where "retain_leaves up js os d names = (d', k, r)" "kept = n # k"
      using Cons.prems by (auto split: prod.splits)
    from Cons.IH [OF this(1)] this(2) show ?thesis by auto
  qed
qed

lemma list_leaf_names_spec:
  assumes "list_leaf_names up js os vd d readdir = (d', r)"
  shows "(\<forall>l. \<not> temp_leaf_name l \<longrightarrow> d' l = d l) \<and> (\<exists>S. d' = d |` S)
     \<and> (\<forall>names. r = Inr names \<longrightarrow>
          filter (\<lambda>l. \<not> temp_leaf_name l) names
            = filter (\<lambda>l. l \<noteq> ''.'' \<and> l \<noteq> ''..'' \<and> \<not> temp_leaf_name l) readdir)"
proof (cases "bind_res (lock_mutations os) (\<lambda>_.
           bind_res (revalidate (os_euid os) vd (os_before os)) (\<lambda>_.
             enumerate_leaf_names_from_fd os vd readdir))")
  case (Inl e)
  with assms have "d' = d |` UNIV" "r = Inl e"
    by (auto simp: list_leaf_names_def restrict_map_def simp del: bind_res_Inl)
  then show ?thesis by auto
next
  case (Inr names)
  then have names: "names = filter (\<lambda>name. name \<noteq> ''.'' \<and> name \<noteq> ''..'') readdir"
    by (auto simp: enumerate_leaf_names_from_fd_def split: if_splits)
  obtain d1 kept removed where run: "retain_leaves up js os d names = (d1, kept, removed)"
    by (cases "retain_leaves up js os d names") auto
  with assms Inr have "d' = d1" "\<forall>ns. r = Inr ns \<longrightarrow> ns = kept"
    by (auto simp: list_leaf_names_def simp del: bind_res_Inr) (auto split: if_splits)
  with retain_leaves_spec [OF run] names show ?thesis by auto
qed

section \<open>Properties\<close>

text \<open>C17. Whatever the operating system answers, creating or replacing a record changes no other leaf
  (the temporary names apart), and leaves under its leaf either exactly what was there or a
  file with the complete encoding of the new value; a create never touches an existing
  record, and a replace only one whose identity is the expected one.\<close>

theorem record_write_atomic:
  assumes "\<not> temp_leaf_name l"
  shows "(let (d', r) = atomic_create_json to_vec from_slice os vd d l v cap in
      (\<forall>k. k \<noteq> l \<longrightarrow> d' k = d k)
      \<and> (d' l = d l \<or> d l = None \<and> (\<exists>f. d' l = Some f \<and> to_vec v = Some (f_bytes f))))
    \<and> (let (d', r) = atomic_replace_json to_vec from_slice os vd d l expected v cap in
      (\<forall>k. k \<noteq> l \<and> \<not> temp_leaf_name k \<longrightarrow> d' k = d k)
      \<and> (d' l = d l
         \<or> (\<exists>old. holds_bytes (os_euid os) d l expected old)
           \<and> (\<exists>f. d' l = Some f \<and> to_vec v = Some (f_bytes f))))"
proof -
  obtain d1 r1 where c: "atomic_create_json to_vec from_slice os vd d l v cap = (d1, r1)"
    by (cases "atomic_create_json to_vec from_slice os vd d l v cap") auto
  obtain d2 r2 where p: "atomic_replace_json to_vec from_slice os vd d l expected v cap = (d2, r2)"
    by (cases "atomic_replace_json to_vec from_slice os vd d l expected v cap") auto
  have "d1 l = d l \<or> d l = None \<and> (\<exists>f. d1 l = Some f \<and> to_vec v = Some (f_bytes f))"
    using atomic_create_cases [OF c] by auto
  moreover have "d2 l = d l \<or> (\<exists>old. holds_bytes (os_euid os) d l expected old)
      \<and> (\<exists>f. d2 l = Some f \<and> to_vec v = Some (f_bytes f))"
    using atomic_replace_cases [OF p not_temp_leaf [OF assms]] not_temp_leaf [OF assms] by auto
  ultimately show ?thesis
    using c p atomic_create_frame [OF c] atomic_replace_frame [OF p assms] by auto
qed

text \<open>A directory with one record, a system that answers every call and one whose rename fails.\<close>

definition example_metadata :: "u64 \<Rightarrow> u64 \<Rightarrow> file_metadata" where
  "example_metadata ino nlink = \<lparr>fm_kind = RegularFile, fm_uid = 7, fm_mode = 0x8180, fm_nlink = nlink,
     fm_dev = 1, fm_ino = ino\<rparr>"

definition example_identity :: durable_directory_identity where
  "example_identity = \<lparr>di_boot_uuid = 1, di_dev = 1, di_ino = 2, di_statx_mnt_id_unique = 4\<rparr>"

definition example_vd :: validated_directory where
  "example_vd = \<lparr>vd_identity = example_identity, vd_canonical_locator = [''evidence''],
     vd_policy = Private\<rparr>"

definition example_probe :: dir_probe where
  "example_probe = \<lparr>dp_identity = Inr example_identity,
     dp_metadata = Inr \<lparr>fm_kind = Directory, fm_uid = 7, fm_mode = 0x41c0, fm_nlink = 2, fm_dev = 1,
       fm_ino = 2\<rparr>,
     dp_is_cgroup2 = Inr False, dp_leaves = Map.empty, dp_reopened = Inr example_identity\<rparr>"

definition example_os :: os_answers where
  "example_os = \<lparr>os_euid = 7, os_poisoned = False, os_flock = None, os_before = example_probe,
     os_after = example_probe, os_open = None, os_stat = None, os_read = None, os_tmpfile = None,
     os_tmp_metadata = example_metadata 20 0, os_write = None, os_stat_tmp = None, os_link = None,
     os_proc_link = None, os_stat_published = None, os_rename = None, os_dir_sync = None,
     os_reopen = None, os_stat_reopened = None, os_read_back = None, os_unlink = None,
     os_temp_uuid = ''u''\<rparr>"

definition example_dir :: directory where
  "example_dir = [''a'' \<mapsto> \<lparr>f_meta = example_metadata 10 1, f_bytes = [1, 2]\<rparr>]"

lemmas fs_eval = atomic_replace_json_def atomic_create_json_def replace_through_temp_def
  confirm_written_def read_exact_written_json_def publish_unnamed_no_replace_def linkat_errno_def
  prepare_temp_def create_unnamed_temp_def write_and_sync_def validate_temporary_record_file_def
  validate_record_file_def validate_regular_file_def openat_file_def renameat_def unlinkat_def
  lock_mutations_def revalidate_def reopen_and_verify_def validate_directory_policy_def
  validate_private_directory_metadata_def serialize_bounded_def read_bounded_def validate_leaf_def
  sys_check_def linked_def transaction_temp_leaf_def TRANSACTION_TEMP_PREFIX_def
  TRANSACTION_TEMP_SUFFIX_def MAX_SPECULATION_JSON_BYTES_def MAX_LEAF_BYTES_def read_json_def
  example_os_def example_vd_def example_dir_def example_probe_def example_identity_def
  example_metadata_def

lemma example_rename_fails:
  "fst (atomic_replace_json Some Some (example_os\<lparr>os_rename := Some EOTHER\<rparr>) example_vd example_dir
     ''a'' \<lparr>fi_dev = 1, fi_ino = 10\<rparr> [3] 100) ''a'' = example_dir ''a''"
  by (simp add: fs_eval Let_def)

lemma example_replace:
  "atomic_replace_json Some Some example_os example_vd example_dir
     ''a'' \<lparr>fi_dev = 1, fi_ino = 10\<rparr> [3] 100
   = ([''a'' \<mapsto> \<lparr>f_meta = example_metadata 20 1, f_bytes = [3]\<rparr>],
      Inr \<lparr>sj_value = [3], sj_identity = \<lparr>fi_dev = 1, fi_ino = 20\<rparr>\<rparr>)"
  by (simp add: fs_eval Let_def)

theorem record_write_atomic_witness:
  "\<not> temp_leaf_name ''a'' \<and> example_dir ''a'' \<noteq> None
   \<and> fst (atomic_replace_json Some Some (example_os\<lparr>os_rename := Some EOTHER\<rparr>) example_vd example_dir
       ''a'' \<lparr>fi_dev = 1, fi_ino = 10\<rparr> [3] 100) ''a'' = example_dir ''a''
   \<and> fst (atomic_replace_json Some Some example_os example_vd example_dir
       ''a'' \<lparr>fi_dev = 1, fi_ino = 10\<rparr> [3] 100) ''b'' = example_dir ''b''"
proof -
  have a: "\<not> temp_leaf_name ''a''" and b: "\<not> temp_leaf_name ''b''"
    by (simp_all add: temp_leaf_name_def TRANSACTION_TEMP_PREFIX_def)
  show ?thesis
    using record_write_atomic [OF a, of Some Some example_os example_vd example_dir "[3]" 100
        "\<lparr>fi_dev = 1, fi_ino = 10\<rparr>"] a b example_rename_fails
    by (auto simp: example_dir_def split: prod.splits)
qed

lemma write_success_checks:
  "snd (atomic_create_json to_vec from_slice os vd d l v cap) = Inr st \<Longrightarrow>
     is_ok (validate_leaf l) \<and> is_ok (serialize_bounded to_vec v cap)"
  "snd (atomic_replace_json to_vec from_slice os vd d l expected v cap) = Inr st \<Longrightarrow>
     is_ok (validate_leaf l) \<and> is_ok (serialize_bounded to_vec v cap)"
  by (cases "validate_leaf l"; cases "serialize_bounded to_vec v cap";
      simp add: atomic_create_json_def atomic_replace_json_def)+

text \<open>A write that reports success is confirmed by what the directory holds: reading the leaf back,
  with a system that answers, returns the value that was written and the identity that the
  write reported. (The decoder inverts the encoder.)\<close>

theorem record_write_read_back:
  assumes "\<And>x bytes. to_vec x = Some bytes \<Longrightarrow> from_slice bytes = Some x"
    and "snd (atomic_create_json to_vec from_slice os vd d l v cap) = Inr st
      \<and> d' = fst (atomic_create_json to_vec from_slice os vd d l v cap)
      \<or> snd (atomic_replace_json to_vec from_slice os vd d l expected v cap) = Inr st
        \<and> \<not> temp_leaf_name l
        \<and> d' = fst (atomic_replace_json to_vec from_slice os vd d l expected v cap)"
    and "os_euid os' = os_euid os" "revalidate (os_euid os') vd (os_before os') = Inr ()"
    "os_open os' = None" "os_stat os' = None" "os_read os' = None"
  shows "sj_value st = v \<and> read_json from_slice os' vd d' l cap = Inr st"
proof -
  obtain bytes where b: "to_vec v = Some bytes" "holds_bytes (os_euid os) d' l (sj_identity st) bytes"
    "from_slice bytes = Some (sj_value st)" 
    using assms(2)
  proof
    assume c: "snd (atomic_create_json to_vec from_slice os vd d l v cap) = Inr st
      \<and> d' = fst (atomic_create_json to_vec from_slice os vd d l v cap)"
    then have "atomic_create_json to_vec from_slice os vd d l v cap = (d', Inr st)"
      by (simp add: prod_eq_iff)
    from atomic_create_cases [OF this] show thesis by (auto intro: that)
  next
    assume c: "snd (atomic_replace_json to_vec from_slice os vd d l expected v cap) = Inr st
        \<and> \<not> temp_leaf_name l
        \<and> d' = fst (atomic_replace_json to_vec from_slice os vd d l expected v cap)"
    then have "atomic_replace_json to_vec from_slice os vd d l expected v cap = (d', Inr st)"
      by (simp add: prod_eq_iff)
    from atomic_replace_cases [OF this] c not_temp_leaf [of l os] show thesis by (auto intro: that)
  qed
  have "is_ok (validate_leaf l)" "is_ok (serialize_bounded to_vec v cap)"
    using assms(2) write_success_checks by metis+
  then have "validate_leaf l = Inr ()" "length bytes \<le> min cap MAX_SPECULATION_JSON_BYTES"
    using b(1) by (auto simp: is_ok_unit is_ok_iff serialize_bounded_Inr)
  moreover have "sj_value st = v" using assms(1) [OF b(1)] b(3) by simp
  ultimately show ?thesis using b assms(3-) by (auto simp: read_json_Inr)
qed

theorem record_write_read_back_witness:
  "snd (atomic_replace_json Some Some example_os example_vd example_dir
     ''a'' \<lparr>fi_dev = 1, fi_ino = 10\<rparr> [3] 100)
     = Inr \<lparr>sj_value = [3], sj_identity = \<lparr>fi_dev = 1, fi_ino = 20\<rparr>\<rparr>
   \<and> read_json Some example_os example_vd
     (fst (atomic_replace_json Some Some example_os example_vd example_dir
       ''a'' \<lparr>fi_dev = 1, fi_ino = 10\<rparr> [3] 100)) ''a'' 100
     = Inr \<lparr>sj_value = [3], sj_identity = \<lparr>fi_dev = 1, fi_ino = 20\<rparr>\<rparr>"
proof -
  have "\<not> temp_leaf_name ''a''" by (simp add: temp_leaf_name_def TRANSACTION_TEMP_PREFIX_def)
  moreover have "revalidate (os_euid example_os) example_vd (os_before example_os) = Inr ()"
    by (simp add: fs_eval)
  ultimately show ?thesis
    using record_write_read_back [of Some Some example_os example_vd example_dir "''a''" "[3]" 100
        "\<lparr>sj_value = [3], sj_identity = \<lparr>fi_dev = 1, fi_ino = 20\<rparr>\<rparr>" _
        "\<lparr>fi_dev = 1, fi_ino = 10\<rparr>" example_os]
    by (simp add: example_replace) (simp add: example_os_def)
qed

text \<open>Replacing is a compare-and-swap on the file identity: of two replacements that expect the
  same identity only the first can succeed, when the system gives every new file an identity
  that differs from the one it replaces. The second is refused without touching the record.\<close>

theorem record_replace_compare_and_swap:
  assumes "atomic_replace_json to_vec from_slice os1 vd d l expected v1 cap = (d1, Inr st)"
    and "\<not> temp_leaf_name l" and "os_euid os2 = os_euid os1"
    and "\<lparr>fi_dev = fm_dev (os_tmp_metadata os1), fi_ino = fm_ino (os_tmp_metadata os1)\<rparr> \<noteq> expected"
  shows "let (d2, r) = atomic_replace_json to_vec from_slice os2 vd d1 l expected v2 cap in
    \<not> is_ok r \<and> d2 l = d1 l"
proof -
  obtain d2 r where p: "atomic_replace_json to_vec from_slice os2 vd d1 l expected v2 cap = (d2, r)"
    by (cases "atomic_replace_json to_vec from_slice os2 vd d1 l expected v2 cap") auto
  from atomic_replace_cases [OF assms(1) not_temp_leaf [OF assms(2)]] not_temp_leaf [OF assms(2)]
  obtain f where "d1 l = Some f" "f_meta f = f_meta (linked \<lparr>f_meta = os_tmp_metadata os1, f_bytes = []\<rparr>)"
    by auto
  then have "\<not> holds_bytes (os_euid os1) d1 l expected old" for old
    using assms(4)
    by (auto simp: holds_bytes_def record_file_def validate_record_file_def validate_regular_file_def
        linked_def Let_def sys_check_def split: if_splits)
  then show ?thesis
    using atomic_replace_cases [OF p not_temp_leaf [OF assms(2)]] not_temp_leaf [OF assms(2)] assms(3) p
    by auto
qed

theorem record_replace_compare_and_swap_witness:
  "\<exists>d1 st. atomic_replace_json Some Some example_os example_vd example_dir
       ''a'' \<lparr>fi_dev = 1, fi_ino = 10\<rparr> [3] 100 = (d1, Inr st)
     \<and> (let (d2, r) = atomic_replace_json Some Some example_os example_vd d1
          ''a'' \<lparr>fi_dev = 1, fi_ino = 10\<rparr> [4] 100 in \<not> is_ok r \<and> d2 ''a'' = d1 ''a'')"
proof -
  have "\<not> temp_leaf_name ''a''" by (simp add: temp_leaf_name_def TRANSACTION_TEMP_PREFIX_def)
  then show ?thesis
    using record_replace_compare_and_swap [OF example_replace, of example_os "[4]"] example_replace
    by (simp add: example_os_def example_metadata_def)
qed

text \<open>Opening a directory for a scan only ever removes files that carry the name of a transaction:
  every other leaf keeps its file and is listed.\<close>

theorem scan_removes_only_temporary_files:
  "let (d', r) = list_leaf_names uuid_parses is_json os vd d readdir in
     (\<forall>l. \<not> temp_leaf_name l \<longrightarrow> d' l = d l) \<and> (\<exists>S. d' = d |` S)
     \<and> (\<forall>names. r = Inr names \<longrightarrow>
          filter (\<lambda>l. \<not> temp_leaf_name l) names
            = filter (\<lambda>l. l \<noteq> ''.'' \<and> l \<noteq> ''..'' \<and> \<not> temp_leaf_name l) readdir)"
proof -
  obtain d' r where run: "list_leaf_names uuid_parses is_json os vd d readdir = (d', r)"
    by (cases "list_leaf_names uuid_parses is_json os vd d readdir") auto
  show ?thesis unfolding run Let_def prod.case by (rule list_leaf_names_spec [OF run])
qed

theorem scan_removes_only_temporary_files_witness:
  "list_leaf_names (\<lambda>u. True) (\<lambda>b. True) example_os example_vd example_dir [''.'', ''..'', ''a'']
     = (example_dir, Inr [''a''])
   \<and> filter (\<lambda>l. \<not> temp_leaf_name l) [''a''] = [''a'']"
proof -
  have "list_leaf_names (\<lambda>u. True) (\<lambda>b. True) example_os example_vd example_dir [''.'', ''..'', ''a'']
     = (example_dir, Inr [''a''])"
    by (simp add: list_leaf_names_def enumerate_leaf_names_from_fd_def is_transaction_temp_leaf_def
        fs_eval)
  with scan_removes_only_temporary_files [of "\<lambda>u. True" "\<lambda>b. True" example_os example_vd example_dir
      "[''.'', ''..'', ''a'']"]
  show ?thesis by (simp add: temp_leaf_name_def TRANSACTION_TEMP_PREFIX_def)
qed

end
