(* ===== verification/Wire_Base64.thy ===== *)
theory Wire_Base64
  imports Speculation_Core
begin

text \<open>
  The byte-exact part of the wire format (\<open>protocol.rs\<close>): the hand-written base64 codec of
  \<open>send_data_serde\<close>, the bounded visitors for \<open>Request::Send\<close> data and capability input, and the
  speculation DTOs that carry Unix paths and argument vectors as canonical base64. A wire
  string is the list of its UTF-8 bytes. The lemmas show that decoding inverts encoding,
  that every accepted string is the canonical encoding of its value with or without the
  padding, and that the DTOs round-trip within their size limits.
\<close>

unbundle bit_operations_syntax

section \<open>The codec\<close>

definition MAX_SEND_DATA_BYTES :: nat where
  "MAX_SEND_DATA_BYTES = 700 * 1024"

definition MAX_CAPABILITY_INPUT_BYTES :: nat where
  "MAX_CAPABILITY_INPUT_BYTES = 64 * 1024"

definition BASE64 :: "u8 list" where
  "BASE64 = map of_char ''ABCDEFGHIJKLMNOPQRSTUVWXYZabcdefghijklmnopqrstuvwxyz0123456789+/''"

text \<open>The errors of the decoder, one per message of the source.\<close>

datatype base64_error =
    NotAscii
  | PaddingNotAtEnd
  | InvalidLength
  | SendDataExceeds
  | NonCanonicalTail
  | InvalidCharacter u8

definition equals_sign :: u8 where
  "equals_sign = 0x3d"

text \<open>The four table indices that a chunk of three bytes gives.\<close>

definition sextet0 :: "u8 \<Rightarrow> u8" where
  "sextet0 b0 = drop_bit 2 b0"

definition sextet1 :: "u8 \<Rightarrow> u8 \<Rightarrow> u8" where
  "sextet1 b0 b1 = push_bit 4 (b0 AND 0x03) OR drop_bit 4 b1"

definition sextet2 :: "u8 \<Rightarrow> u8 \<Rightarrow> u8" where
  "sextet2 b1 b2 = push_bit 2 (b1 AND 0x0f) OR drop_bit 6 b2"

definition sextet3 :: "u8 \<Rightarrow> u8" where
  "sextet3 b2 = b2 AND 0x3f"

text \<open>\<open>data.chunks(3)\<close>: the body of the loop for a full chunk and for the two short ones, in which
  the missing bytes read as zero.\<close>

fun encode_base64 :: "u8 list \<Rightarrow> u8 list" where
  "encode_base64 [] = []"
| "encode_base64 [b0] =
     [BASE64 ! unat (sextet0 b0), BASE64 ! unat (sextet1 b0 0), equals_sign, equals_sign]"
| "encode_base64 [b0, b1] =
     [BASE64 ! unat (sextet0 b0), BASE64 ! unat (sextet1 b0 b1), BASE64 ! unat (sextet2 b1 0),
      equals_sign]"
| "encode_base64 (b0 # b1 # b2 # rest) =
     [BASE64 ! unat (sextet0 b0), BASE64 ! unat (sextet1 b0 b1), BASE64 ! unat (sextet2 b1 b2),
      BASE64 ! unat (sextet3 b2)] @ encode_base64 rest"

definition decode_char :: "u8 \<Rightarrow> base64_error + u8" where
  "decode_char byte =
     (if of_char (CHR ''A'') \<le> byte \<and> byte \<le> of_char (CHR ''Z'') then Inr (byte - of_char (CHR ''A''))
      else if of_char (CHR ''a'') \<le> byte \<and> byte \<le> of_char (CHR ''z'')
        then Inr (byte - of_char (CHR ''a'') + 26)
      else if of_char (CHR ''0'') \<le> byte \<and> byte \<le> of_char (CHR ''9'')
        then Inr (byte - of_char (CHR ''0'') + 52)
      else if byte = of_char (CHR ''+'') then Inr 62
      else if byte = of_char (CHR ''/'') then Inr 63
      else Inl (InvalidCharacter byte))"

definition byte0 :: "u8 \<Rightarrow> u8 \<Rightarrow> u8" where
  "byte0 s0 s1 = push_bit 2 s0 OR drop_bit 4 s1"

definition byte1 :: "u8 \<Rightarrow> u8 \<Rightarrow> u8" where
  "byte1 s1 s2 = push_bit 4 s1 OR drop_bit 2 s2"

definition byte2 :: "u8 \<Rightarrow> u8 \<Rightarrow> u8" where
  "byte2 s2 s3 = push_bit 6 s2 OR s3"

text \<open>The four-element array \<open>quartet\<close> is a list of length four, updated in place.\<close>

definition push_decoded_quartet :: "u8 list \<Rightarrow> u8 list \<Rightarrow> nat \<Rightarrow> base64_error + u8 list" where
  "push_decoded_quartet out quartet bytes =
     (if length out + bytes > MAX_SEND_DATA_BYTES then Inl SendDataExceeds
      else Inr (out @ [byte0 (quartet ! 0) (quartet ! 1)]
        @ (if bytes > 1 then [byte1 (quartet ! 1) (quartet ! 2)] else [])
        @ (if bytes > 2 then [byte2 (quartet ! 2) (quartet ! 3)] else [])))"

fun decode_loop ::
    "u8 list \<Rightarrow> u8 list \<Rightarrow> u8 list \<Rightarrow> nat \<Rightarrow> base64_error + (u8 list \<times> u8 list \<times> nat)" where
  "decode_loop [] out quartet quartet_len = Inr (out, quartet, quartet_len)"
| "decode_loop (byte # rest) out quartet quartet_len =
     bind_res (decode_char byte) (\<lambda>v.
       (let quartet = quartet[quartet_len := v]; quartet_len = quartet_len + 1 in
        if quartet_len = 4
        then bind_res (push_decoded_quartet out quartet 3) (\<lambda>out. decode_loop rest out quartet 0)
        else decode_loop rest out quartet quartet_len))"

definition decode_tail :: "u8 list \<Rightarrow> u8 list \<Rightarrow> nat \<Rightarrow> base64_error + u8 list" where
  "decode_tail out quartet quartet_len =
     (if quartet_len = 0 then Inr out
      else if quartet_len = 2 then
        (if quartet ! 1 AND 0x0f \<noteq> 0 then Inl NonCanonicalTail
         else push_decoded_quartet out quartet 1)
      else if quartet_len = 3 then
        (if quartet ! 2 AND 0x03 \<noteq> 0 then Inl NonCanonicalTail
         else push_decoded_quartet out quartet 2)
      else Inl InvalidLength)"

definition is_ascii :: "u8 list \<Rightarrow> bool" where
  "is_ascii s \<longleftrightarrow> list_all (\<lambda>b. b < 0x80) s"

definition trim_end_equals :: "u8 list \<Rightarrow> u8 list" where
  "trim_end_equals s = rev (dropWhile (\<lambda>b. b = equals_sign) (rev s))"

definition max_decoded :: "nat \<Rightarrow> base64_error + nat" where
  "max_decoded n =
     (if n mod 4 = 0 then Inr (n div 4 * 3)
      else if n mod 4 = 2 then Inr (n div 4 * 3 + 1)
      else if n mod 4 = 3 then Inr (n div 4 * 3 + 2)
      else Inl InvalidLength)"

definition decode_base64 :: "u8 list \<Rightarrow> base64_error + u8 list" where
  "decode_base64 encoded =
     (if \<not> is_ascii encoded then Inl NotAscii
      else
        let trimmed = trim_end_equals encoded;
            padding = length encoded - length trimmed in
        if equals_sign \<in> set (take (length trimmed) encoded) then Inl PaddingNotAtEnd
        else if padding > 2 \<or> (padding > 0 \<and> length encoded mod 4 \<noteq> 0) \<or> length trimmed mod 4 = 1
          then Inl InvalidLength
        else bind_res (max_decoded (length trimmed)) (\<lambda>m.
          if m > MAX_SEND_DATA_BYTES then Inl SendDataExceeds
          else bind_res (decode_loop trimmed [] [0, 0, 0, 0] 0)
            (\<lambda>(out, quartet, quartet_len). decode_tail out quartet quartet_len)))"

section \<open>Decoding inverts encoding\<close>

lemma length_BASE64 [simp]: "length BASE64 = 64"
  by (simp add: BASE64_def)

text \<open>The table and its inverse on natural numbers.\<close>

definition alphabet :: "nat \<Rightarrow> nat" where
  "alphabet i = (if i < 26 then i + 65 else if i < 52 then i + 71 else if i < 62 then i - 4
     else if i = 62 then 43 else 47)"

definition alphabet_inverse :: "nat \<Rightarrow> nat option" where
  "alphabet_inverse n = (if 65 \<le> n \<and> n \<le> 90 then Some (n - 65)
     else if 97 \<le> n \<and> n \<le> 122 then Some (n - 71)
     else if 48 \<le> n \<and> n \<le> 57 then Some (n + 4)
     else if n = 43 then Some 62 else if n = 47 then Some 63 else None)"

lemma alphabet_inverse_iff: "i < 64 \<Longrightarrow> alphabet_inverse (alphabet i) = Some i"
  "alphabet_inverse n = Some i \<Longrightarrow> i < 64 \<and> alphabet i = n"
  "alphabet i < 128" "alphabet i \<noteq> 61"
  by (auto simp: alphabet_def alphabet_inverse_def split: if_splits)

lemma BASE64_alphabet: "BASE64 = map (\<lambda>i. of_nat (alphabet i)) [0..<64]"
  by (simp add: BASE64_def upt_rec alphabet_def)

lemma BASE64_nth: "i < 64 \<Longrightarrow> BASE64 ! i = of_nat (alphabet i)"
  by (simp add: BASE64_alphabet del: upt_rec_numeral)

lemma decode_char_alphabet:
  assumes "n < 256"
  shows "decode_char (of_nat n) =
    (case alphabet_inverse n of Some i \<Rightarrow> Inr (of_nat i) | None \<Rightarrow> Inl (InvalidCharacter (of_nat n)))"
proof -
  have n: "unat (of_nat n :: u8) = n" using assms by (simp add: unat_of_nat)
  show ?thesis
    by (simp add: decode_char_def alphabet_inverse_def word_le_nat_alt word_unat_eq_iff n
      add.commute [of 4 "of_nat n :: u8"])
qed

lemma decode_char_BASE64:
  assumes "v < 64"
  shows "decode_char (BASE64 ! unat v) = Inr v" "BASE64 ! unat v < 0x80" "BASE64 ! unat v \<noteq> equals_sign"
proof -
  define a where "a = alphabet (unat v)"
  have v: "unat v < 64" using assms by (simp add: word_less_nat_alt)
  have a: "a < 128" "a \<noteq> 61" "unat (of_nat a :: u8) = a" and nth: "BASE64 ! unat v = of_nat a"
    using v alphabet_inverse_iff(3,4) [of "unat v"] by (simp_all add: BASE64_nth a_def unat_of_nat)
  show "decode_char (BASE64 ! unat v) = Inr v"
    using alphabet_inverse_iff(1) [OF v] a(1) nth decode_char_alphabet [of a] by (simp add: a_def)
  show "BASE64 ! unat v < 0x80" "BASE64 ! unat v \<noteq> equals_sign"
    using a nth by (simp_all add: equals_sign_def word_less_nat_alt word_unat_eq_iff)
qed

lemma decode_char_Inr: "decode_char b = Inr v \<Longrightarrow> v < 64 \<and> BASE64 ! unat v = b"
proof -
  assume *: "decode_char b = Inr v"
  define n where "n = unat b"
  have n: "n < 256" "b = of_nat n" using unsigned_less [of b] by (simp_all add: n_def)
  obtain i where i: "alphabet_inverse n = Some i" "v = of_nat i"
    using * decode_char_alphabet [OF n(1)] n(2) by (auto split: option.splits)
  then have "unat v = i" "i < 64" "alphabet i = n"
    using alphabet_inverse_iff(2) [OF i(1)] by (simp_all add: unat_of_nat)
  with n show ?thesis by (simp add: BASE64_nth word_less_nat_alt)
qed

lemmas sextet_defs = sextet0_def sextet1_def sextet2_def sextet3_def byte0_def byte1_def byte2_def

lemma u8_eq_iff: "(a :: u8) = b \<longleftrightarrow> (\<forall>n\<in>{0, Suc 0, 2, 3, 4, 5, 6, 7}. bit a n = bit b n)"
proof
  assume bits: "\<forall>n\<in>{0, Suc 0, 2, 3, 4, 5, 6, 7}. bit a n = bit b n"
  show "a = b"
  proof (rule bit_word_eqI)
    fix n assume "n < LENGTH(8)"
    then have "n \<in> {0, Suc 0, 2, 3, 4, 5, 6, 7}" by auto
    with bits show "bit a n = bit b n" by blast
  qed
qed simp

lemma u8_high_bits:
  "\<not> bit (a::u8) 8" "\<not> bit a 9" "\<not> bit a 10" "\<not> bit a 11" "\<not> bit a 12" "\<not> bit a 13"
  using bit_imp_le_length [of a] by fastforce+

lemma u8_bit_index:
  "bit (a::u8) (Suc (Suc 0)) = bit a 2" "bit a (Suc (Suc (Suc 0))) = bit a 3"
  "bit a (Suc (Suc (Suc (Suc 0)))) = bit a 4" "bit a (Suc (Suc (Suc (Suc (Suc 0))))) = bit a 5"
  by (simp_all add: eval_nat_numeral)

lemma sextet_masks: "(0x03::u8) = mask 2" "(0x0f::u8) = mask 4" "(0x3f::u8) = mask 6"
  by (simp_all add: mask_eq_exp_minus_1)

lemma less_64_bits: "(v::u8) < 64 \<longleftrightarrow> \<not> bit v 6 \<and> \<not> bit v 7"
proof -
  have "v < 64 \<longleftrightarrow> take_bit 6 v = v"
    by (simp add: take_bit_eq_mod unat_mod word_less_nat_alt word_unat_eq_iff mod_eq_self_iff_div_eq_0 div_eq_0_iff)
  also have "\<dots> \<longleftrightarrow> \<not> bit v 6 \<and> \<not> bit v 7"
    by (simp add: u8_eq_iff bit_simps)
  finally show ?thesis .
qed

lemmas sextet_simps = sextet_masks less_64_bits u8_eq_iff u8_high_bits u8_bit_index
  bit_simps

lemma sextets_less_64 [simp]:
  "sextet0 b0 < 64" "sextet1 b0 b1 < 64" "sextet2 b1 b2 < 64" "sextet3 b2 < 64"
  by (simp_all add: sextet_defs sextet_simps)

lemma bytes_of_sextets [simp]:
  "byte0 (sextet0 b0) (sextet1 b0 b1) = b0" "byte1 (sextet1 b0 b1) (sextet2 b1 b2) = b1"
  "byte2 (sextet2 b1 b2) (sextet3 b2) = b2"
  by (simp_all add: sextet_defs sextet_simps)

lemma sextets_of_bytes:
  assumes "s0 < 64" "s1 < 64" "s2 < 64" "s3 < 64"
  shows "sextet0 (byte0 s0 s1) = s0" "sextet1 (byte0 s0 s1) (byte1 s1 s2) = s1"
    "sextet2 (byte1 s1 s2) (byte2 s2 s3) = s2" "sextet3 (byte2 s2 s3) = s3"
  using assms by (simp_all add: sextet_defs sextet_simps)

lemma tail_sextets:
  assumes "s0 < 64" "s1 < 64" "s2 < 64"
  shows "s1 AND 0x0f = 0 \<Longrightarrow> sextet1 (byte0 s0 s1) 0 = s1"
    "s2 AND 0x03 = 0 \<Longrightarrow> sextet2 (byte1 s1 s2) 0 = s2"
  using assms by (simp_all add: sextet_defs sextet_simps)

lemma tail_sextets_zero [simp]: "sextet1 b0 0 AND 0x0f = 0" "sextet2 b1 0 AND 0x03 = 0"
  by (simp_all add: sextet_defs sextet_simps)

text \<open>The encoding without its padding.\<close>

definition unpadded :: "u8 list \<Rightarrow> u8 list" where
  "unpadded d = filter (\<lambda>b. b \<noteq> equals_sign) (encode_base64 d)"

definition padding_of :: "u8 list \<Rightarrow> nat" where
  "padding_of d = (if length d mod 3 = 0 then 0 else 3 - length d mod 3)"

lemma unpadded_simps [simp]:
  "unpadded [] = []"
  "unpadded [b0] = [BASE64 ! unat (sextet0 b0), BASE64 ! unat (sextet1 b0 0)]"
  "unpadded [b0, b1] = [BASE64 ! unat (sextet0 b0), BASE64 ! unat (sextet1 b0 b1),
     BASE64 ! unat (sextet2 b1 0)]"
  "unpadded (b0 # b1 # b2 # rest) =
     [BASE64 ! unat (sextet0 b0), BASE64 ! unat (sextet1 b0 b1), BASE64 ! unat (sextet2 b1 b2),
      BASE64 ! unat (sextet3 b2)] @ unpadded rest"
  by (simp_all add: unpadded_def decode_char_BASE64)

lemma padding_of_chunk: "padding_of (b0 # b1 # b2 # rest) = padding_of rest"
proof -
  have "length (b0 # b1 # b2 # rest) = length rest + 3" by simp
  then show ?thesis by (simp only: padding_of_def mod_add_self2)
qed

lemma encode_unpadded: "encode_base64 d = unpadded d @ replicate (padding_of d) equals_sign"
  by (induction d rule: encode_base64.induct)
    (simp_all add: padding_of_chunk, simp_all add: padding_of_def numeral_2_eq_2)

lemma unpadded_chars: "equals_sign \<notin> set (unpadded d)" "is_ascii (unpadded d)"
proof -
  show "equals_sign \<notin> set (unpadded d)" by (simp add: unpadded_def)
  show "is_ascii (unpadded d)"
    by (induction d rule: encode_base64.induct) (simp_all add: is_ascii_def decode_char_BASE64)
qed

lemma is_ascii_encode: "is_ascii (encode_base64 d)"
  using unpadded_chars(2) [of d]
  by (auto simp: encode_unpadded is_ascii_def equals_sign_def list_all_iff)

lemma trim_end_replicate:
  assumes "equals_sign \<notin> set xs"
  shows "trim_end_equals (xs @ replicate k equals_sign) = xs"
proof -
  have "dropWhile (\<lambda>b. b = equals_sign) (rev xs) = rev xs"
    using assms by (cases xs rule: rev_cases) auto
  then show ?thesis
    by (simp add: trim_end_equals_def) (subst dropWhile_append2, auto)
qed

lemma trim_end_split: "\<exists>k. s = trim_end_equals s @ replicate k equals_sign"
proof -
  have "takeWhile (\<lambda>b. b = equals_sign) (rev s)
      = replicate (length (takeWhile (\<lambda>b. b = equals_sign) (rev s))) equals_sign"
    by (rule replicate_eqI [symmetric, THEN sym]) (auto dest: set_takeWhileD)
  then have "rev (takeWhile (\<lambda>b. b = equals_sign) (rev s))
      = replicate (length (takeWhile (\<lambda>b. b = equals_sign) (rev s))) equals_sign"
    by (metis rev_replicate)
  moreover have "s = trim_end_equals s @ rev (takeWhile (\<lambda>b. b = equals_sign) (rev s))"
    by (metis rev_append rev_rev_ident takeWhile_dropWhile_id trim_end_equals_def)
  ultimately show ?thesis by metis
qed

definition decode_body :: "u8 list \<Rightarrow> u8 list \<Rightarrow> u8 list \<Rightarrow> base64_error + u8 list" where
  "decode_body s out q =
     bind_res (decode_loop s out q 0) (\<lambda>(out, quartet, quartet_len). decode_tail out quartet quartet_len)"

lemma length_4: "length q = 4 \<longleftrightarrow> (\<exists>q0 q1 q2 q3. q = [q0, q1, q2, q3])"
  by (auto simp: length_Suc_conv eval_nat_numeral)

lemma decode_body_Nil: "decode_body [] out q = Inr out"
  by (simp add: decode_body_def decode_tail_def)

lemma decode_body_One: "decode_body [c] out q \<noteq> Inr r"
  by (auto simp: decode_body_def decode_tail_def Let_def)

lemma decode_body_Two:
  assumes "length q = 4"
  shows "decode_body [c0, c1] out q = bind_res (decode_char c0) (\<lambda>s0. bind_res (decode_char c1) (\<lambda>s1.
     if s1 AND 0x0f \<noteq> 0 then Inl NonCanonicalTail
     else if length out + 1 > MAX_SEND_DATA_BYTES then Inl SendDataExceeds
     else Inr (out @ [byte0 s0 s1])))"
  using assms
  by (cases "decode_char c0"; cases "decode_char c1")
    (auto simp: length_4 decode_body_def decode_tail_def Let_def push_decoded_quartet_def)

lemma decode_body_Three:
  assumes "length q = 4"
  shows "decode_body [c0, c1, c2] out q =
     bind_res (decode_char c0) (\<lambda>s0. bind_res (decode_char c1) (\<lambda>s1. bind_res (decode_char c2) (\<lambda>s2.
     if s2 AND 0x03 \<noteq> 0 then Inl NonCanonicalTail
     else if length out + 2 > MAX_SEND_DATA_BYTES then Inl SendDataExceeds
     else Inr (out @ [byte0 s0 s1, byte1 s1 s2]))))"
  using assms
  by (cases "decode_char c0"; cases "decode_char c1"; cases "decode_char c2")
    (auto simp: length_4 decode_body_def decode_tail_def Let_def push_decoded_quartet_def)

lemma decode_body_Four:
  assumes "length q = 4"
  shows "decode_body (c0 # c1 # c2 # c3 # rest) out q =
     bind_res (decode_char c0) (\<lambda>s0. bind_res (decode_char c1) (\<lambda>s1. bind_res (decode_char c2) (\<lambda>s2.
     bind_res (decode_char c3) (\<lambda>s3.
     if length out + 3 > MAX_SEND_DATA_BYTES then Inl SendDataExceeds
     else decode_body rest (out @ [byte0 s0 s1, byte1 s1 s2, byte2 s2 s3]) [s0, s1, s2, s3]))))"
  using assms
  by (cases "decode_char c0"; cases "decode_char c1"; cases "decode_char c2"; cases "decode_char c3")
    (auto simp: length_4 decode_body_def Let_def push_decoded_quartet_def simp del: bind_res_Inr bind_res_Inl)

lemmas decode_body_simps = decode_body_Nil decode_body_Two decode_body_Three decode_body_Four

lemma decode_body_encode:
  "length out + length d \<le> MAX_SEND_DATA_BYTES \<Longrightarrow> length q = 4 \<Longrightarrow>
     decode_body (unpadded d) out q = Inr (out @ d)"
  by (induction d arbitrary: out q rule: encode_base64.induct)
    (simp_all add: decode_body_simps decode_char_BASE64)

lemma quad_induct [case_names Nil One Two Three Four]:
  assumes "P []" "\<And>a. P [a]" "\<And>a b. P [a, b]" "\<And>a b c. P [a, b, c]"
    "\<And>a b c d xs. P xs \<Longrightarrow> P (a # b # c # d # xs)"
  shows "P (xs :: 'a list)"
  using assms by induction_schema (pat_completeness, lexicographic_order)

lemma decode_body_sound:
  "decode_body s out q = Inr r \<Longrightarrow> length q = 4 \<Longrightarrow> \<exists>d. r = out @ d \<and> unpadded d = s"
proof (induction s arbitrary: out q rule: quad_induct)
  case (Two a b)
  then obtain s0 s1 where "decode_char a = Inr s0" "decode_char b = Inr s1" "s1 AND 0x0f = 0"
    "r = out @ [byte0 s0 s1]"
    by (auto simp: decode_body_simps split: if_splits)
  then show ?case
    by (intro exI [of _ "[byte0 s0 s1]"])
      (auto dest!: decode_char_Inr simp: tail_sextets sextets_of_bytes(1))
next
  case (Three a b c)
  then obtain s0 s1 s2 where "decode_char a = Inr s0" "decode_char b = Inr s1" "decode_char c = Inr s2"
    "s2 AND 0x03 = 0" "r = out @ [byte0 s0 s1, byte1 s1 s2]"
    by (auto simp: decode_body_simps split: if_splits)
  then show ?case
    by (intro exI [of _ "[byte0 s0 s1, byte1 s1 s2]"])
      (auto dest!: decode_char_Inr simp: tail_sextets sextets_of_bytes(1,2))
next
  case (Four a b c d xs)
  then obtain s0 s1 s2 s3 where s: "decode_char a = Inr s0" "decode_char b = Inr s1"
    "decode_char c = Inr s2" "decode_char d = Inr s3"
    and body: "decode_body xs (out @ [byte0 s0 s1, byte1 s1 s2, byte2 s2 s3]) [s0, s1, s2, s3] = Inr r"
    by (auto simp: decode_body_simps split: if_splits)
  from Four.IH [OF body] obtain d' where
    "r = out @ [byte0 s0 s1, byte1 s1 s2, byte2 s2 s3] @ d'" "unpadded d' = xs" by auto
  with s show ?case
    by (intro exI [of _ "[byte0 s0 s1, byte1 s1 s2, byte2 s2 s3] @ d'"])
      (auto dest!: decode_char_Inr simp: sextets_of_bytes)
qed (auto simp: decode_body_simps decode_body_One)

lemma unpadded_shape:
  "\<exists>q. length d = 3 * q \<and> length (unpadded d) = 4 * q \<and> padding_of d = 0
     \<or> length d = 3 * q + 1 \<and> length (unpadded d) = 4 * q + 2 \<and> padding_of d = 2
     \<or> length d = 3 * q + 2 \<and> length (unpadded d) = 4 * q + 3 \<and> padding_of d = 1"
proof (induction d rule: encode_base64.induct)
  case (4 b0 b1 b2 rest)
  then obtain q where "length rest = 3 * q \<and> length (unpadded rest) = 4 * q \<and> padding_of rest = 0
     \<or> length rest = 3 * q + 1 \<and> length (unpadded rest) = 4 * q + 2 \<and> padding_of rest = 2
     \<or> length rest = 3 * q + 2 \<and> length (unpadded rest) = 4 * q + 3 \<and> padding_of rest = 1" by blast
  then show ?case by (intro exI [of _ "Suc q"]) (auto simp: padding_of_chunk)
qed (auto simp: padding_of_def)

lemma max_decoded_unpadded: "max_decoded (length (unpadded d)) = Inr (length d)"
proof -
  have "max_decoded (4 * q) = Inr (3 * q)" "max_decoded (4 * q + 2) = Inr (3 * q + 1)"
    "max_decoded (4 * q + 3) = Inr (3 * q + 2)" for q
    unfolding max_decoded_def by (simp_all only: mod_mult_self4 div_mult_self4, simp_all)
  with unpadded_shape [of d] show ?thesis by auto
qed

lemma unpadded_length_mod:
  "length (unpadded d) mod 4 \<noteq> 1" "(length (unpadded d) + padding_of d) mod 4 = 0"
  "padding_of d \<le> 2"
proof -
  have "(4 * q) mod 4 \<noteq> (1::nat)" "(4 * q + 2) mod 4 \<noteq> (1::nat)" "(4 * q + 3) mod 4 \<noteq> (1::nat)"
    "(4 * q + 2 + 2) mod 4 = (0::nat)" "(4 * q + 3 + 1) mod 4 = (0::nat)" for q
    by presburger+
  with unpadded_shape [of d]
  show "length (unpadded d) mod 4 \<noteq> 1" "(length (unpadded d) + padding_of d) mod 4 = 0"
    "padding_of d \<le> 2" by (metis add_0_right le_numeral_extra(3) mod_mult_self1_is_0 one_le_numeral zero_le order_refl)+
qed

lemma padding_unique:
  assumes "k \<le> 2" and "0 < k \<longrightarrow> (length (unpadded d) + k) mod 4 = 0"
  shows "k = 0 \<or> k = padding_of d"
  using assms unpadded_length_mod [of d] by presburger

lemma decode_base64_unfold:
  assumes "equals_sign \<notin> set t"
  shows "decode_base64 (t @ replicate k equals_sign) =
    (if \<not> is_ascii t then Inl NotAscii
     else if k > 2 \<or> (k > 0 \<and> (length t + k) mod 4 \<noteq> 0) \<or> length t mod 4 = 1 then Inl InvalidLength
     else bind_res (max_decoded (length t)) (\<lambda>m.
       if m > MAX_SEND_DATA_BYTES then Inl SendDataExceeds else decode_body t [] [0, 0, 0, 0]))"
proof -
  have "is_ascii (t @ replicate k equals_sign) = is_ascii t"
    by (auto simp: is_ascii_def list_all_iff equals_sign_def)
  with assms show ?thesis
    by (simp add: decode_base64_def trim_end_replicate decode_body_def [abs_def] Let_def cong: if_cong)
qed

lemma decode_base64_iff:
  "decode_base64 s = Inr d \<longleftrightarrow>
     length d \<le> MAX_SEND_DATA_BYTES \<and> (s = encode_base64 d \<or> s = unpadded d)"
proof
  assume ok: "decode_base64 s = Inr d"
  obtain k where k: "s = trim_end_equals s @ replicate k equals_sign" using trim_end_split by blast
  have "take (length (trim_end_equals s)) s = trim_end_equals s" by (subst (2) k) simp
  with ok have eq: "equals_sign \<notin> set (trim_end_equals s)"
    by (auto simp: decode_base64_def Let_def split: if_splits)
  from k eq obtain t where s: "s = t @ replicate k equals_sign" and t: "equals_sign \<notin> set t" by blast
  from ok have *: "k \<le> 2" "0 < k \<longrightarrow> (length t + k) mod 4 = 0"
    "decode_body t [] [0, 0, 0, 0] = Inr d" "\<exists>m\<le>MAX_SEND_DATA_BYTES. max_decoded (length t) = Inr m"
    unfolding s decode_base64_unfold [OF t] by (auto split: if_splits)
  from decode_body_sound [OF *(3)] have "unpadded d = t" by simp
  with * padding_unique [of k d] max_decoded_unpadded [of d] s encode_unpadded [of d]
  show "length d \<le> MAX_SEND_DATA_BYTES \<and> (s = encode_base64 d \<or> s = unpadded d)"
    by (cases "k = 0") auto
next
  assume asm: "length d \<le> MAX_SEND_DATA_BYTES \<and> (s = encode_base64 d \<or> s = unpadded d)"
  then obtain k where k: "s = unpadded d @ replicate k equals_sign" "k = 0 \<or> k = padding_of d"
    using encode_unpadded [of d] by (metis append_Nil2 replicate_0)
  show "decode_base64 s = Inr d"
    using k asm unpadded_length_mod [of d] unpadded_chars [of d] max_decoded_unpadded [of d]
      decode_body_encode [of "[]" d "[0, 0, 0, 0]"]
    by (auto simp: decode_base64_unfold)
qed

lemma length_encode_base64: "length (encode_base64 d) = (length d + 2) div 3 * 4"
  using unpadded_shape [of d] by (auto simp: encode_unpadded)

section \<open>Visitors for send data and capability input\<close>

text \<open>A deserialiser error is a message raised by the code or one of the JSON reader. The elements
  of a JSON array are what \<open>next_element\<close> returns for them, in order.\<close>

datatype de_error = Custom string | Base64Error base64_error | ReaderError

definition div_ceil :: "nat \<Rightarrow> nat \<Rightarrow> nat" where
  "div_ceil a b = (a + b - 1) div b"

fun visit_bytes :: "nat \<Rightarrow> string \<Rightarrow> (de_error + u8) list \<Rightarrow> u8 list \<Rightarrow> de_error + u8 list" where
  "visit_bytes limit msg [] bytes = Inr bytes"
| "visit_bytes limit msg (e # es) bytes =
     bind_res e (\<lambda>byte.
       if length bytes \<ge> limit then Inl (Custom msg)
       else visit_bytes limit msg es (bytes @ [byte]))"

definition send_data_visit_str :: "u8 list \<Rightarrow> de_error + u8 list" where
  "send_data_visit_str s = (case decode_base64 s of Inl e \<Rightarrow> Inl (Base64Error e) | Inr d \<Rightarrow> Inr d)"

definition send_data_visit_seq :: "(de_error + u8) list \<Rightarrow> de_error + u8 list" where
  "send_data_visit_seq es = visit_bytes MAX_SEND_DATA_BYTES ''send data exceeds 716800 bytes'' es []"

definition capability_exceeds :: de_error where
  "capability_exceeds = Custom ''capability input exceeds 65536 bytes''"

definition capability_visit_str :: "u8 list \<Rightarrow> de_error + u8 list" where
  "capability_visit_str s =
     (let max_encoded = div_ceil MAX_CAPABILITY_INPUT_BYTES 3 * 4 in
      if length s > max_encoded then Inl capability_exceeds
      else case decode_base64 s of
             Inl e \<Rightarrow> Inl (Base64Error e)
           | Inr bytes \<Rightarrow> if length bytes > MAX_CAPABILITY_INPUT_BYTES then Inl capability_exceeds
                          else Inr bytes)"

definition capability_visit_seq :: "(de_error + u8) list \<Rightarrow> de_error + u8 list" where
  "capability_visit_seq es =
     visit_bytes MAX_CAPABILITY_INPUT_BYTES ''capability input exceeds 65536 bytes'' es []"

section \<open>Speculation DTOs\<close>

definition MIN_SPECULATION_TIMEOUT_MS :: u64 where
  "MIN_SPECULATION_TIMEOUT_MS = 1000"

definition MAX_SPECULATION_TIMEOUT_MS :: u64 where
  "MAX_SPECULATION_TIMEOUT_MS = 60 * 60 * 1000"

definition MAX_SPECULATION_PATH_BYTES :: nat where
  "MAX_SPECULATION_PATH_BYTES = 4096"

definition MAX_SPECULATION_ARGV_ENTRIES :: nat where
  "MAX_SPECULATION_ARGV_ENTRIES = 256"

definition MAX_SPECULATION_ARG_BYTES :: nat where
  "MAX_SPECULATION_ARG_BYTES = 64 * 1024"

definition MAX_SPECULATION_ARGV_BYTES :: nat where
  "MAX_SPECULATION_ARGV_BYTES = 256 * 1024"

definition SPECULATION_PROTOCOL_VERSION :: u32 where
  "SPECULATION_PROTOCOL_VERSION = 9"

datatype speculation_unix_path = SpeculationUnixPath (path_bytes: "u8 list")
datatype speculation_argv = SpeculationArgv (argv_bytes: "u8 list list")

definition wire_custom :: "wire_error + 'a \<Rightarrow> de_error + 'a" where
  "wire_custom r = (case r of Inl (SpeculationWireError m) \<Rightarrow> Inl (Custom m) | Inr x \<Rightarrow> Inr x)"

definition path_from_bytes :: "u8 list \<Rightarrow> wire_error + speculation_unix_path" where
  "path_from_bytes bytes =
     (if bytes = [] then Inl (SpeculationWireError ''speculation_empty_path'')
      else if length bytes > MAX_SPECULATION_PATH_BYTES
        then Inl (SpeculationWireError ''speculation_path_too_long'')
      else if 0 \<in> set bytes then Inl (SpeculationWireError ''speculation_interior_nul'')
      else Inr (SpeculationUnixPath bytes))"

definition decode_canonical_speculation_base64 :: "u8 list \<Rightarrow> nat \<Rightarrow> unit + u8 list" where
  "decode_canonical_speculation_base64 encoded max_bytes =
     (if \<not> is_ascii encoded \<or> length encoded mod 4 \<noteq> 0 \<or> length encoded > div_ceil max_bytes 3 * 4
      then Inl ()
      else case decode_base64 encoded of
             Inl e \<Rightarrow> Inl ()
           | Inr decoded \<Rightarrow>
               if length decoded > max_bytes \<or> encode_base64 decoded \<noteq> encoded then Inl ()
               else Inr decoded)"

definition path_serialize :: "speculation_unix_path \<Rightarrow> u8 list" where
  "path_serialize p = encode_base64 (path_bytes p)"

definition path_deserialize :: "u8 list \<Rightarrow> de_error + speculation_unix_path" where
  "path_deserialize encoded =
     (case decode_canonical_speculation_base64 encoded MAX_SPECULATION_PATH_BYTES of
        Inl u \<Rightarrow> Inl (Custom ''invalid speculation path encoding'')
      | Inr bytes \<Rightarrow> wire_custom (path_from_bytes bytes))"

definition validate_speculation_argument :: "u8 list \<Rightarrow> wire_error + unit" where
  "validate_speculation_argument bytes =
     (if length bytes > MAX_SPECULATION_ARG_BYTES
        then Inl (SpeculationWireError ''speculation_argument_too_long'')
      else if 0 \<in> set bytes then Inl (SpeculationWireError ''speculation_interior_nul'')
      else Inr ())"

text \<open>\<open>usize\<close> totals are 64-bit, so \<open>checked_add\<close> fails from \<open>2 ^ 64\<close> on.\<close>

definition add_speculation_argument_bytes :: "nat \<Rightarrow> nat \<Rightarrow> wire_error + nat" where
  "add_speculation_argument_bytes tot argument =
     (if tot + argument < 2 ^ 64 \<and> tot + argument \<le> MAX_SPECULATION_ARGV_BYTES
      then Inr (tot + argument)
      else Inl (SpeculationWireError ''speculation_argv_too_large''))"

fun argv_collect :: "u8 list list \<Rightarrow> u8 list list \<Rightarrow> nat \<Rightarrow> wire_error + u8 list list" where
  "argv_collect [] arguments total_bytes = Inr arguments"
| "argv_collect (bytes # vs) arguments total_bytes =
     bind_res (validate_speculation_argument bytes) (\<lambda>_.
     bind_res (add_speculation_argument_bytes total_bytes (length bytes)) (\<lambda>total_bytes.
     argv_collect vs (arguments @ [bytes]) total_bytes))"

definition argv_from_os_strings :: "u8 list list \<Rightarrow> wire_error + speculation_argv" where
  "argv_from_os_strings vs =
     (if vs = [] then Inl (SpeculationWireError ''speculation_empty_argv'')
      else if length vs > MAX_SPECULATION_ARGV_ENTRIES
        then Inl (SpeculationWireError ''speculation_too_many_arguments'')
      else bind_res (argv_collect vs [] 0) (\<lambda>arguments. Inr (SpeculationArgv arguments)))"

definition argv_serialize :: "speculation_argv \<Rightarrow> u8 list list" where
  "argv_serialize a = map encode_base64 (argv_bytes a)"

fun argv_visit_loop ::
    "(de_error + u8 list) list \<Rightarrow> u8 list list \<Rightarrow> nat \<Rightarrow> de_error + u8 list list" where
  "argv_visit_loop [] arguments total_bytes = Inr arguments"
| "argv_visit_loop (e # es) arguments total_bytes =
     bind_res e (\<lambda>encoded.
       if length arguments \<ge> MAX_SPECULATION_ARGV_ENTRIES
       then Inl (Custom ''speculation_too_many_arguments'')
       else case decode_canonical_speculation_base64 encoded MAX_SPECULATION_ARG_BYTES of
              Inl u \<Rightarrow> Inl (Custom ''invalid speculation argument encoding'')
            | Inr argument \<Rightarrow>
                bind_res (wire_custom (validate_speculation_argument argument)) (\<lambda>_.
                bind_res (wire_custom (add_speculation_argument_bytes total_bytes (length argument)))
                  (\<lambda>total_bytes. argv_visit_loop es (arguments @ [argument]) total_bytes)))"

definition argv_visit_seq :: "(de_error + u8 list) list \<Rightarrow> de_error + speculation_argv" where
  "argv_visit_seq es =
     bind_res (argv_visit_loop es [] 0) (\<lambda>arguments.
       if arguments = [] then Inl (Custom ''speculation_empty_argv'')
       else Inr (SpeculationArgv arguments))"

record speculation_prepare_request =
  pr_source :: speculation_unix_path
  pr_candidates :: "speculation_unix_path \<times> speculation_unix_path"
  pr_ledger_root :: speculation_unix_path
  pr_cgroup_root :: speculation_unix_path
  pr_timeout_ms :: u64
  pr_argv :: speculation_argv

definition timeout_in_range :: "u64 \<Rightarrow> bool" where
  "timeout_in_range t \<longleftrightarrow> MIN_SPECULATION_TIMEOUT_MS \<le> t \<and> t \<le> MAX_SPECULATION_TIMEOUT_MS"

definition prepare_request_new ::
    "speculation_unix_path \<Rightarrow> speculation_unix_path \<times> speculation_unix_path \<Rightarrow>
     speculation_unix_path \<Rightarrow> speculation_unix_path \<Rightarrow> u64 \<Rightarrow> speculation_argv \<Rightarrow>
     wire_error + speculation_prepare_request" where
  "prepare_request_new source candidates ledger_root cgroup_root timeout_ms argv =
     (if \<not> timeout_in_range timeout_ms
      then Inl (SpeculationWireError ''speculation_timeout_out_of_range'')
      else Inr \<lparr>pr_source = source, pr_candidates = candidates, pr_ledger_root = ledger_root,
        pr_cgroup_root = cgroup_root, pr_timeout_ms = timeout_ms, pr_argv = argv\<rparr>)"

definition deserialize_speculation_timeout :: "de_error + u64 \<Rightarrow> de_error + u64" where
  "deserialize_speculation_timeout r =
     bind_res r (\<lambda>timeout_ms.
       if \<not> timeout_in_range timeout_ms then Inl (Custom ''speculation_timeout_out_of_range'')
       else Inr timeout_ms)"

record identity_request =
  ir_tournament_uuid :: uuid
  ir_daemon_instance_uuid :: uuid
  ir_generation :: u64

datatype speculation_request =
    Prepare speculation_prepare_request
  | Arm identity_request
  | Status identity_request
  | Finalize identity_request
  | Rollback identity_request

record speculation_request_envelope =
  protocol_version :: u32
  request :: speculation_request

definition envelope_new :: "speculation_request \<Rightarrow> speculation_request_envelope" where
  "envelope_new r = \<lparr>protocol_version = SPECULATION_PROTOCOL_VERSION, request = r\<rparr>"

definition deserialize_speculation_protocol_version :: "de_error + u32 \<Rightarrow> de_error + u32" where
  "deserialize_speculation_protocol_version r =
     bind_res r (\<lambda>version.
       if version \<noteq> SPECULATION_PROTOCOL_VERSION
       then Inl (Custom ''unsupported speculation protocol version'')
       else Inr version)"

section \<open>The DTOs round-trip\<close>

lemmas [wire_defs] = MAX_SEND_DATA_BYTES_def MAX_CAPABILITY_INPUT_BYTES_def
  MAX_SPECULATION_PATH_BYTES_def MAX_SPECULATION_ARG_BYTES_def MAX_SPECULATION_ARGV_BYTES_def
  MAX_SPECULATION_ARGV_ENTRIES_def

lemma wire_custom_Inr [simp]: "wire_custom r = Inr x \<longleftrightarrow> r = Inr x"
  by (auto simp: wire_custom_def split: sum.splits wire_error.splits)

lemma encode_length_le: "length d \<le> m \<Longrightarrow> length (encode_base64 d) \<le> div_ceil m 3 * 4"
  by (simp add: length_encode_base64 div_ceil_def div_le_mono)

lemma decode_canonical_iff:
  assumes "m \<le> MAX_SEND_DATA_BYTES"
  shows "decode_canonical_speculation_base64 s m = Inr d \<longleftrightarrow> s = encode_base64 d \<and> length d \<le> m"
proof
  assume "decode_canonical_speculation_base64 s m = Inr d"
  then show "s = encode_base64 d \<and> length d \<le> m"
    by (auto simp: decode_canonical_speculation_base64_def split: if_splits sum.splits)
next
  assume d: "s = encode_base64 d \<and> length d \<le> m"
  with assms have "decode_base64 s = Inr d" by (simp add: decode_base64_iff)
  moreover have "length (encode_base64 d) mod 4 = 0" by (simp add: length_encode_base64)
  ultimately show "decode_canonical_speculation_base64 s m = Inr d"
    using d is_ascii_encode [of d] encode_length_le [of d m]
    by (simp add: decode_canonical_speculation_base64_def)
qed

lemma path_round_trip:
  "path_deserialize s = Inr p \<longleftrightarrow> s = path_serialize p \<and> path_from_bytes (path_bytes p) = Inr p"
proof -
  have m: "MAX_SPECULATION_PATH_BYTES \<le> MAX_SEND_DATA_BYTES" by (simp add: wire_defs)
  have "path_deserialize s = Inr p \<longleftrightarrow>
      (\<exists>b. decode_canonical_speculation_base64 s MAX_SPECULATION_PATH_BYTES = Inr b
        \<and> path_from_bytes b = Inr p)"
    by (auto simp: path_deserialize_def split: sum.splits)
  moreover have "path_from_bytes b = Inr p \<longleftrightarrow>
      b = path_bytes p \<and> length b \<le> MAX_SPECULATION_PATH_BYTES \<and> path_from_bytes (path_bytes p) = Inr p" for b
    by (cases p) (auto simp: path_from_bytes_def split: if_splits)
  ultimately show ?thesis unfolding decode_canonical_iff [OF m] path_serialize_def by metis
qed

definition argument_ok :: "u8 list \<Rightarrow> bool" where
  "argument_ok a \<longleftrightarrow> length a \<le> MAX_SPECULATION_ARG_BYTES \<and> 0 \<notin> set a"

lemma validate_argument_iff: "validate_speculation_argument a = Inr u \<longleftrightarrow> argument_ok a"
  by (auto simp: validate_speculation_argument_def argument_ok_def)

lemma add_argument_bytes_iff:
  "add_speculation_argument_bytes t n = Inr t' \<longleftrightarrow> t' = t + n \<and> t + n \<le> MAX_SPECULATION_ARGV_BYTES"
  by (auto simp: add_speculation_argument_bytes_def wire_defs)

lemma argv_collect_iff:
  "t \<le> MAX_SPECULATION_ARGV_BYTES \<Longrightarrow> argv_collect vs as t = Inr r \<longleftrightarrow>
     r = as @ vs \<and> list_all argument_ok vs \<and> t + length (concat vs) \<le> MAX_SPECULATION_ARGV_BYTES"
  by (induction vs arbitrary: as t)
    (auto simp: validate_argument_iff add_argument_bytes_iff add.assoc)

lemma argv_visit_loop_iff:
  "t \<le> MAX_SPECULATION_ARGV_BYTES \<Longrightarrow> length as \<le> MAX_SPECULATION_ARGV_ENTRIES \<Longrightarrow>
     argv_visit_loop es as t = Inr r \<longleftrightarrow>
     (\<exists>vs. r = as @ vs \<and> es = map (\<lambda>v. Inr (encode_base64 v)) vs \<and> list_all argument_ok vs
        \<and> length as + length vs \<le> MAX_SPECULATION_ARGV_ENTRIES
        \<and> t + length (concat vs) \<le> MAX_SPECULATION_ARGV_BYTES)" (is "_ \<Longrightarrow> _ \<Longrightarrow> _ \<longleftrightarrow> ?R es as t")
proof (induction es arbitrary: as t)
  case Nil
  then show ?case by auto
next
  case (Cons e es)
  have m: "MAX_SPECULATION_ARG_BYTES \<le> MAX_SEND_DATA_BYTES" by (simp add: wire_defs)
  show ?case
  proof
    assume "argv_visit_loop (e # es) as t = Inr r"
    then obtain v where "e = Inr (encode_base64 v)" "argument_ok v" "length as < MAX_SPECULATION_ARGV_ENTRIES"
      "t + length v \<le> MAX_SPECULATION_ARGV_BYTES" "argv_visit_loop es (as @ [v]) (t + length v) = Inr r"
      using decode_canonical_iff [OF m]
      by (auto simp: validate_argument_iff add_argument_bytes_iff split: if_splits sum.splits)
    moreover from this Cons.IH [of "t + length v" "as @ [v]"] obtain vs where "r = as @ v # vs"
      "es = map (\<lambda>v. Inr (encode_base64 v)) vs" "list_all argument_ok vs"
      "length as + length (v # vs) \<le> MAX_SPECULATION_ARGV_ENTRIES"
      "t + length (concat (v # vs)) \<le> MAX_SPECULATION_ARGV_BYTES" by auto
    ultimately show "?R (e # es) as t" by (intro exI [of _ "v # vs"]) simp
  next
    assume "?R (e # es) as t"
    then obtain v vs where v: "r = as @ v # vs" "e = Inr (encode_base64 v)"
      "es = map (\<lambda>v. Inr (encode_base64 v)) vs" "argument_ok v" "list_all argument_ok vs"
      "length as + length (v # vs) \<le> MAX_SPECULATION_ARGV_ENTRIES"
      "t + length (concat (v # vs)) \<le> MAX_SPECULATION_ARGV_BYTES"
      by (auto simp: Cons_eq_map_conv)
    then have "decode_canonical_speculation_base64 (encode_base64 v) MAX_SPECULATION_ARG_BYTES = Inr v"
      using decode_canonical_iff [OF m] by (simp add: argument_ok_def)
    moreover have "argv_visit_loop es (as @ [v]) (t + length v) = Inr r"
      using Cons.IH [of "t + length v" "as @ [v]"] v by (auto intro: exI [of _ vs])
    ultimately show "argv_visit_loop (e # es) as t = Inr r"
      using v by (auto simp: validate_argument_iff add_argument_bytes_iff)
  qed
qed

lemma argv_from_os_strings_iff:
  "argv_from_os_strings vs = Inr a \<longleftrightarrow> a = SpeculationArgv vs \<and> vs \<noteq> []
     \<and> length vs \<le> MAX_SPECULATION_ARGV_ENTRIES \<and> list_all argument_ok vs
     \<and> length (concat vs) \<le> MAX_SPECULATION_ARGV_BYTES"
  by (auto simp: argv_from_os_strings_def argv_collect_iff)

lemma visit_bytes_iff:
  "length bytes \<le> limit \<Longrightarrow> visit_bytes limit msg es bytes = Inr r \<longleftrightarrow>
     (\<exists>bs. es = map Inr bs \<and> r = bytes @ bs \<and> length r \<le> limit)"
proof (induction es arbitrary: bytes)
  case (Cons e es)
  show ?case
  proof (cases e)
    case (Inr b)
    show ?thesis
    proof (cases "length bytes < limit")
      case True
      with Cons.IH [of "bytes @ [b]"] Inr show ?thesis
        by (auto simp: Cons_eq_map_conv)
    qed (use Inr Cons.prems in \<open>auto simp: Cons_eq_map_conv\<close>)
  qed (auto simp: Cons_eq_map_conv)
qed auto

text \<open>Decoding accepts a string exactly when it is the encoding of a value within the size
  limit, written with its padding or without it, and then yields that value.\<close>

theorem base64_canonical:
  "decode_base64 s = Inr d \<longleftrightarrow>
     length d \<le> MAX_SEND_DATA_BYTES \<and>
     (s = encode_base64 d \<or> s = trim_end_equals (encode_base64 d))"
  using decode_base64_iff [of s d] trim_end_replicate [OF unpadded_chars(1) [of d]]
  by (simp add: encode_unpadded)

lemma argv_wire_round_trip:
  "argv_visit_seq es = Inr a \<longleftrightarrow>
     es = map Inr (argv_serialize a) \<and> argv_from_os_strings (argv_bytes a) = Inr a"
proof -
  have "argv_visit_seq es = Inr a \<longleftrightarrow> (\<exists>vs. argv_visit_loop es [] 0 = Inr vs \<and> vs \<noteq> [] \<and> a = SpeculationArgv vs)"
    by (auto simp: argv_visit_seq_def)
  then show ?thesis
    by (cases a) (auto simp: argv_visit_loop_iff argv_from_os_strings_iff argv_serialize_def comp_def)
qed

text \<open>The deserialisers of a path and of an argument vector accept exactly the serialised
  form of the values that the constructors accept: a path of one to 4096 bytes without NUL,
  and one to 256 arguments without NUL, each at most 64 KiB and together at most 256 KiB.\<close>

theorem speculation_dto_round_trip:
  "(path_deserialize s = Inr p \<longleftrightarrow>
      s = path_serialize p \<and> path_from_bytes (path_bytes p) = Inr p)
   \<and> (argv_visit_seq es = Inr a \<longleftrightarrow>
      es = map Inr (argv_serialize a) \<and> argv_from_os_strings (argv_bytes a) = Inr a)"
  by (rule conjI [OF path_round_trip argv_wire_round_trip])

text \<open>Capability input and send data: an accepted payload, given as base64 or as an array of
  bytes, is within its limit and is what the sender encoded; every payload within the limit
  is accepted.\<close>

theorem payload_visitors_correct:
  "(capability_visit_str s = Inr d \<longleftrightarrow>
      length d \<le> MAX_CAPABILITY_INPUT_BYTES \<and> decode_base64 s = Inr d)
   \<and> (capability_visit_seq es = Inr d \<longleftrightarrow> es = map Inr d \<and> length d \<le> MAX_CAPABILITY_INPUT_BYTES)
   \<and> (send_data_visit_seq es = Inr d \<longleftrightarrow> es = map Inr d \<and> length d \<le> MAX_SEND_DATA_BYTES)"
proof -
  have "length (encode_base64 d) \<le> div_ceil MAX_CAPABILITY_INPUT_BYTES 3 * 4"
    if "length d \<le> MAX_CAPABILITY_INPUT_BYTES" for d
    using encode_length_le [OF that] .
  moreover have "length (unpadded d) \<le> length (encode_base64 d)" for d
    by (simp add: encode_unpadded)
  ultimately have "length s \<le> div_ceil MAX_CAPABILITY_INPUT_BYTES 3 * 4"
    if "decode_base64 s = Inr d" "length d \<le> MAX_CAPABILITY_INPUT_BYTES"
    using that by (metis decode_base64_iff order_trans)
  then have "capability_visit_str s = Inr d \<longleftrightarrow>
      length d \<le> MAX_CAPABILITY_INPUT_BYTES \<and> decode_base64 s = Inr d"
    by (auto simp: capability_visit_str_def Let_def split: sum.splits)
  then show ?thesis
    by (auto simp: capability_visit_seq_def send_data_visit_seq_def visit_bytes_iff)
qed

end
