(* ===== verification/Tournament_Record.thy ===== *)
theory Tournament_Record
  imports Speculation_Core Evidence_FS Wire_Base64
begin

text \<open>
  The durable record of one tournament (first part of \<open>speculation_registry.rs\<close>): the store
  manifest with its bitmap, the slot envelope, the lifecycles of the tournament's and the
  candidates' cgroups, and the validation of a record with its public status. The lemmas show
  that the bitmap only grows, that a removed component is forgotten only after its removal was
  recorded, that a valid record in phase \<open>Selected\<close> names the winner that the scoring rules give,
  and that evidence never regresses from one record to its successor.
\<close>

section \<open>The store manifest\<close>

definition MAX_TOURNAMENT_RECORDS :: nat where
  "MAX_TOURNAMENT_RECORDS = 1024"

definition MAX_LIVE_TOURNAMENTS :: nat where
  "MAX_LIVE_TOURNAMENTS = 8"

definition TERMINAL_RETENTION_MILLIS :: u64 where
  "TERMINAL_RETENTION_MILLIS = 7 * 24 * 60 * 60 * 1000"

definition STORE_MANIFEST_LEAF :: leaf where
  "STORE_MANIFEST_LEAF = ''store-manifest.json''"

definition STORE_MATERIALIZATION_WORDS :: nat where
  "STORE_MATERIALIZATION_WORDS = MAX_TOURNAMENT_RECORDS div 64"

datatype tournament_store_manifest_schema = ManifestV1

record tournament_store_manifest =
  sm_schema_version :: tournament_store_manifest_schema
  sm_slot_count :: u16
  sm_materialized_slots :: "u64 list"

definition manifest_fixed :: tournament_store_manifest where
  "manifest_fixed = \<lparr>sm_schema_version = ManifestV1, sm_slot_count = of_nat MAX_TOURNAMENT_RECORDS,
     sm_materialized_slots = replicate STORE_MATERIALIZATION_WORDS 0\<rparr>"

definition manifest_validate :: "tournament_store_manifest \<Rightarrow> unit evidence_result" where
  "manifest_validate m =
     (if sm_schema_version m \<noteq> ManifestV1 \<or> unat (sm_slot_count m) \<noteq> MAX_TOURNAMENT_RECORDS
      then Inl Corrupt else Inr ())"

definition is_materialized :: "tournament_store_manifest \<Rightarrow> u16 \<Rightarrow> bool" where
  "is_materialized m slot \<longleftrightarrow>
     (let slot = unat slot; word = slot div 64; b = slot mod 64 in
      sm_materialized_slots m ! word AND push_bit b 1 \<noteq> 0)"

definition merge_materialized ::
    "tournament_store_manifest \<Rightarrow> u64 list \<Rightarrow> tournament_store_manifest \<times> bool" where
  "merge_materialized m present =
     (let merged = map2 (\<lambda>current present. current OR present) (sm_materialized_slots m) present in
      (m\<lparr>sm_materialized_slots := merged\<rparr>, merged \<noteq> sm_materialized_slots m))"

definition mark_materialized_word :: "u64 list \<Rightarrow> u16 \<Rightarrow> u64 list" where
  "mark_materialized_word words slot =
     (let slot = unat slot in
      words[slot div 64 := words ! (slot div 64) OR push_bit (slot mod 64) 1])"

section \<open>Cgroup lifecycles\<close>

datatype tournament_cgroup_lifecycle_state =
    TPlanned | TCreatePending | TCreated | TRemovePending | TRemoved | TRollbackRequired

fun tcl_is_legal_transition ::
    "tournament_cgroup_lifecycle_state \<Rightarrow> tournament_cgroup_lifecycle_state \<Rightarrow> bool" where
  "tcl_is_legal_transition TPlanned next \<longleftrightarrow>
     next \<in> {TPlanned, TCreatePending, TRemoved, TRollbackRequired}"
| "tcl_is_legal_transition TCreatePending next \<longleftrightarrow>
     next \<in> {TCreatePending, TCreated, TRollbackRequired}"
| "tcl_is_legal_transition TCreated next \<longleftrightarrow> next \<in> {TCreated, TRemovePending, TRollbackRequired}"
| "tcl_is_legal_transition TRemovePending next \<longleftrightarrow>
     next \<in> {TRemovePending, TRemoved, TRollbackRequired}"
| "tcl_is_legal_transition TRemoved next \<longleftrightarrow> next \<in> {TRemoved, TRollbackRequired}"
| "tcl_is_legal_transition TRollbackRequired next \<longleftrightarrow> next \<in> {TRollbackRequired}"

datatype cgroup_forward_state =
    FPlanned | ParentCreatePending | ParentCreated | ControlCreatePending | ControlCreated
  | PayloadCreatePending | PayloadCreated | ProbePending | ProbeEmpty | ControlAttachPending
  | ControlAttached | PayloadFdTransferPending | PayloadArmed | PayloadExecPending
  | PayloadAttached | PayloadKillPending | PayloadEmpty

datatype cgroup_lifecycle_state =
    Forward cgroup_forward_state
  | CleanupPending cgroup_forward_state
  | ParentKillPending cgroup_forward_state
  | ParentEmpty cgroup_forward_state
  | PayloadRemovePending cgroup_forward_state
  | PayloadRemoved cgroup_forward_state
  | ControlRemovePending cgroup_forward_state
  | ControlRemoved cgroup_forward_state
  | ParentRemovePending cgroup_forward_state
  | CRemoved
  | CRollbackRequired

datatype cgroup_component = Parent | Control | Payload

datatype absence_disposition = RequiredNeverCreated | RetryCreate | Forbidden | AcceptRemoval

fun forward_successor :: "cgroup_forward_state \<Rightarrow> cgroup_forward_state option" where
  "forward_successor FPlanned = Some ParentCreatePending"
| "forward_successor ParentCreatePending = Some ParentCreated"
| "forward_successor ParentCreated = Some ControlCreatePending"
| "forward_successor ControlCreatePending = Some ControlCreated"
| "forward_successor ControlCreated = Some PayloadCreatePending"
| "forward_successor PayloadCreatePending = Some PayloadCreated"
| "forward_successor PayloadCreated = Some ProbePending"
| "forward_successor ProbePending = Some ProbeEmpty"
| "forward_successor ProbeEmpty = Some ControlAttachPending"
| "forward_successor ControlAttachPending = Some ControlAttached"
| "forward_successor ControlAttached = Some PayloadFdTransferPending"
| "forward_successor PayloadFdTransferPending = Some PayloadArmed"
| "forward_successor PayloadArmed = Some PayloadExecPending"
| "forward_successor PayloadExecPending = Some PayloadAttached"
| "forward_successor PayloadAttached = Some PayloadKillPending"
| "forward_successor PayloadKillPending = Some PayloadEmpty"
| "forward_successor PayloadEmpty = None"

text \<open>The arms of the \<open>match\<close> on \<open>(self, next)\<close>, by the current state; every state may go to
  \<open>RollbackRequired\<close> and may stay as it is.\<close>

fun lifecycle_advance :: "cgroup_lifecycle_state \<Rightarrow> cgroup_lifecycle_state \<Rightarrow> bool" where
  "lifecycle_advance (Forward f) next \<longleftrightarrow>
     (case next of CleanupPending retained \<Rightarrow> f = retained
      | Forward g \<Rightarrow> forward_successor f = Some g
      | CRemoved \<Rightarrow> f = FPlanned | _ \<Rightarrow> False)"
| "lifecycle_advance (CleanupPending f) next \<longleftrightarrow> next = ParentKillPending f \<or> next = ParentEmpty f"
| "lifecycle_advance (ParentKillPending f) next \<longleftrightarrow> next = ParentEmpty f"
| "lifecycle_advance (ParentEmpty f) next \<longleftrightarrow> next = PayloadRemovePending f"
| "lifecycle_advance (PayloadRemovePending f) next \<longleftrightarrow> next = PayloadRemoved f"
| "lifecycle_advance (PayloadRemoved f) next \<longleftrightarrow> next = ControlRemovePending f"
| "lifecycle_advance (ControlRemovePending f) next \<longleftrightarrow> next = ControlRemoved f"
| "lifecycle_advance (ControlRemoved f) next \<longleftrightarrow> next = ParentRemovePending f"
| "lifecycle_advance (ParentRemovePending f) next \<longleftrightarrow> next = CRemoved"
| "lifecycle_advance CRemoved next \<longleftrightarrow> False"
| "lifecycle_advance CRollbackRequired next \<longleftrightarrow> False"

definition lifecycle_is_legal_transition ::
    "cgroup_lifecycle_state \<Rightarrow> cgroup_lifecycle_state \<Rightarrow> bool" where
  "lifecycle_is_legal_transition s next \<longleftrightarrow>
     s = next \<or> lifecycle_advance s next \<or> next = CRollbackRequired"

definition component_was_created :: "cgroup_forward_state \<Rightarrow> cgroup_component \<Rightarrow> bool" where
  "component_was_created f component =
     (case component of
        Parent \<Rightarrow> f \<notin> {FPlanned, ParentCreatePending}
      | Control \<Rightarrow> f \<notin> {FPlanned, ParentCreatePending, ParentCreated, ControlCreatePending}
      | Payload \<Rightarrow> f \<in> {PayloadCreated, ProbePending, ProbeEmpty, ControlAttachPending,
          ControlAttached, PayloadFdTransferPending, PayloadArmed, PayloadExecPending,
          PayloadAttached, PayloadKillPending, PayloadEmpty})"

definition created_or_never :: "cgroup_forward_state \<Rightarrow> cgroup_component \<Rightarrow> absence_disposition" where
  "created_or_never f component =
     (if component_was_created f component then Forbidden else RequiredNeverCreated)"

fun forward_absence :: "cgroup_forward_state \<Rightarrow> cgroup_component \<Rightarrow> absence_disposition" where
  "forward_absence FPlanned c = RequiredNeverCreated"
| "forward_absence ParentCreatePending c = (if c = Parent then RetryCreate else RequiredNeverCreated)"
| "forward_absence ParentCreated c = (if c = Parent then Forbidden else RequiredNeverCreated)"
| "forward_absence ControlCreatePending c =
     (if c = Parent then Forbidden else if c = Control then RetryCreate else RequiredNeverCreated)"
| "forward_absence ControlCreated c = (if c = Payload then RequiredNeverCreated else Forbidden)"
| "forward_absence PayloadCreatePending c = (if c = Payload then RetryCreate else Forbidden)"
| "forward_absence _ c = Forbidden"

fun same_boot_absence :: "cgroup_lifecycle_state \<Rightarrow> cgroup_component \<Rightarrow> absence_disposition" where
  "same_boot_absence (Forward f) c = forward_absence f c"
| "same_boot_absence (CleanupPending f) c = created_or_never f c"
| "same_boot_absence (ParentKillPending f) c = created_or_never f c"
| "same_boot_absence (ParentEmpty f) c = created_or_never f c"
| "same_boot_absence (PayloadRemovePending f) c =
     (if c = Payload then AcceptRemoval else created_or_never f c)"
| "same_boot_absence (PayloadRemoved f) c =
     (if c = Payload then AcceptRemoval else created_or_never f c)"
| "same_boot_absence (ControlRemovePending f) c =
     (if c \<in> {Payload, Control} then AcceptRemoval else created_or_never f c)"
| "same_boot_absence (ControlRemoved f) c =
     (if c \<in> {Payload, Control} then AcceptRemoval else created_or_never f c)"
| "same_boot_absence (ParentRemovePending f) c = AcceptRemoval"
| "same_boot_absence CRemoved c = AcceptRemoval"
| "same_boot_absence CRollbackRequired c = Forbidden"

section \<open>Evidence\<close>

record private_root_identities =
  ri_source :: durable_directory_identity
  ri_candidates :: "durable_directory_identity \<times> durable_directory_identity"
  ri_ledger_root :: durable_directory_identity
  ri_cgroup_root :: durable_directory_identity

record private_cgroup_root_locator =
  cl_canonical_path :: speculation_unix_path
  cl_identity :: durable_directory_identity

definition valid_directory_identity :: "durable_directory_identity \<Rightarrow> bool" where
  "valid_directory_identity i \<longleftrightarrow>
     \<not> is_nil (di_boot_uuid i) \<and> di_dev i \<noteq> 0 \<and> di_ino i \<noteq> 0 \<and> di_statx_mnt_id_unique i \<noteq> 0"

record tournament_cgroup_evidence =
  tc_deterministic_name_uuid :: uuid
  tc_lifecycle :: tournament_cgroup_lifecycle_state
  tc_domain :: "durable_directory_identity option"

definition tournament_cgroup_validate ::
    "tournament_cgroup_evidence \<Rightarrow> uuid \<Rightarrow> uuid \<Rightarrow> unit evidence_result" where
  "tournament_cgroup_validate e tournament_uuid boot_uuid =
     (if tc_deterministic_name_uuid e \<noteq> tournament_uuid
         \<or> is_some_and (tc_domain e) (\<lambda>identity.
             di_boot_uuid identity \<noteq> boot_uuid \<or> \<not> valid_directory_identity identity)
      then Inl Corrupt
      else (let should_have_identity = tc_lifecycle e \<in> {TCreated, TRemovePending} in
            if is_some (tc_domain e) \<noteq> should_have_identity then Inl Corrupt else Inr ()))"

definition immutable_identity_progresses_to ::
    "tournament_cgroup_evidence \<Rightarrow> tournament_cgroup_evidence \<Rightarrow> bool" where
  "immutable_identity_progresses_to e next \<longleftrightarrow>
     tc_deterministic_name_uuid e = tc_deterministic_name_uuid next
     \<and> is_none_or (tc_domain e) (\<lambda>identity.
         tc_domain next = Some identity
         \<or> (tc_lifecycle next = TRemoved \<and> tc_domain next = None))"

datatype managed_owner_role_evidence = Probe | Runner

record managed_owner_evidence =
  mo_candidate_index :: u8
  mo_role :: managed_owner_role_evidence
  mo_slot :: u16
  mo_generation :: u64

record candidate_cgroup_evidence =
  cc_candidate_index :: u8
  cc_deterministic_name_uuid :: uuid
  cc_lifecycle :: cgroup_lifecycle_state
  cc_parent :: "durable_directory_identity option"
  cc_control :: "durable_directory_identity option"
  cc_payload :: "durable_directory_identity option"

definition forward_floor :: "cgroup_forward_state \<Rightarrow> nat" where
  "forward_floor f =
     (if f \<in> {FPlanned, ParentCreatePending} then 0
      else if f \<in> {ParentCreated, ControlCreatePending} then 1
      else if f \<in> {ControlCreated, PayloadCreatePending} then 2 else 3)"

fun creation_floor :: "cgroup_lifecycle_state \<Rightarrow> nat" where
  "creation_floor (Forward f) = forward_floor f"
| "creation_floor (CleanupPending f) = forward_floor f"
| "creation_floor (ParentKillPending f) = forward_floor f"
| "creation_floor (ParentEmpty f) = forward_floor f"
| "creation_floor (PayloadRemovePending f) = forward_floor f"
| "creation_floor (PayloadRemoved f) = forward_floor f"
| "creation_floor (ControlRemovePending f) = forward_floor f"
| "creation_floor (ControlRemoved f) = forward_floor f"
| "creation_floor (ParentRemovePending f) = forward_floor f"
| "creation_floor CRemoved = 0"
| "creation_floor CRollbackRequired = 0"

fun expected_present_floor :: "cgroup_lifecycle_state \<Rightarrow> nat \<Rightarrow> nat" where
  "expected_present_floor (PayloadRemoved f) present = min (forward_floor f) 2"
| "expected_present_floor (ControlRemovePending f) present = min (forward_floor f) 2"
| "expected_present_floor (ControlRemoved f) present = min (forward_floor f) 1"
| "expected_present_floor (ParentRemovePending f) present = min (forward_floor f) 1"
| "expected_present_floor CRemoved present = 0"
| "expected_present_floor CRollbackRequired present = present"
| "expected_present_floor l present = creation_floor l"

definition present_floor :: "candidate_cgroup_evidence \<Rightarrow> nat evidence_result" where
  "present_floor e =
     (case (is_some (cc_parent e), is_some (cc_control e), is_some (cc_payload e)) of
        (False, False, False) \<Rightarrow> Inr 0
      | (True, False, False) \<Rightarrow> Inr 1
      | (True, True, False) \<Rightarrow> Inr 2
      | (True, True, True) \<Rightarrow> Inr 3
      | _ \<Rightarrow> Inl Corrupt)"

definition component_identities :: "candidate_cgroup_evidence \<Rightarrow> durable_directory_identity list" where
  "component_identities e =
     concat (map (\<lambda>i. case i of None \<Rightarrow> [] | Some i \<Rightarrow> [i]) [cc_parent e, cc_control e, cc_payload e])"

definition candidate_cgroup_validate ::
    "candidate_cgroup_evidence \<Rightarrow> u8 \<Rightarrow> uuid \<Rightarrow> unit evidence_result" where
  "candidate_cgroup_validate e expected_index boot_uuid =
     (if cc_candidate_index e \<noteq> expected_index \<or> is_nil (cc_deterministic_name_uuid e)
         \<or> list_ex (\<lambda>identity. di_boot_uuid identity \<noteq> boot_uuid) (component_identities e)
         \<or> list_ex (\<lambda>identity. \<not> valid_directory_identity identity) (component_identities e)
      then Inl Corrupt
      else bind_res (present_floor e) (\<lambda>present.
        if present \<noteq> expected_present_floor (cc_lifecycle e) present then Inl Corrupt else Inr ()))"

section \<open>Status semantics\<close>

definition validate_candidate_status :: "speculation_candidate_status \<Rightarrow> unit evidence_result" where
  "validate_candidate_status c =
     (if ready c \<noteq> is_some (ready_elapsed_ns c)
         \<or> go_received c \<noteq> is_some (go_received_elapsed_ns c)
         \<or> (go_received c \<and> \<not> ready c)
         \<or> (result_accepted c \<and> \<not> go_received c)
         \<or> (eligible c \<and> (\<not> result_accepted c \<or> \<not> go_received c))
      then Inl Corrupt
      else
        (let complete_result = is_some (exit_success c) \<and> is_some (exit_category c)
               \<and> is_some (elapsed_ns c) \<and> is_some (output_bytes c);
             empty_result = exit_success c = None \<and> exit_category c = None
               \<and> elapsed_ns c = None \<and> output_bytes c = None in
         if (if result_accepted c then \<not> complete_result else \<not> empty_result \<or> eligible c)
         then Inl Corrupt
         else
           case (exit_success c, exit_category c) of
             (Some success, Some category) \<Rightarrow>
               if success \<noteq> (category = ExitedZero) then Inl Corrupt
               else if eligible c
                 \<and> (category \<in> {SpawnFailed, OutputLimitExceeded, EvidenceIncomplete}
                    \<or> is_none_or (output_bytes c) (\<lambda>bytes. bytes > MAX_CANDIDATE_OUTPUT_BYTES))
               then Inl Corrupt else Inr ()
           | _ \<Rightarrow> Inr ()))"

text \<open>The score tuple orders by eligibility and success, then by the reversed order of elapsed time,
  output size and index.\<close>

definition score_cmp ::
    "speculation_candidate_status \<Rightarrow> speculation_candidate_status \<Rightarrow> ordering" where
  "score_cmp a b =
     then_with (cmp (eligible a) (eligible b))
     (then_with (cmp (exit_success a) (exit_success b))
     (then_with (cmp (elapsed_ns b) (elapsed_ns a))
     (then_with (cmp (output_bytes b) (output_bytes a))
       (cmp (cand_index b) (cand_index a)))))"

definition score_selected_index ::
    "speculation_candidate_status \<times> speculation_candidate_status \<Rightarrow> u8 option" where
  "score_selected_index cs =
     (if \<not> (eligible (fst cs) \<or> eligible (snd cs)) then None
      else if score_cmp (fst cs) (snd cs) \<noteq> Less then Some (cand_index (fst cs))
      else Some (cand_index (snd cs)))"

definition candidate_at ::
    "speculation_candidate_status \<times> speculation_candidate_status \<Rightarrow> u8 \<Rightarrow> speculation_candidate_status" where
  "candidate_at cs i = (if i = 0 then fst cs else snd cs)"

definition validate_status_header :: "speculation_status \<Rightarrow> bool" where
  "validate_status_header s \<longleftrightarrow>
     st_schema_version s = StatusV1
     \<and> \<not> is_nil (st_tournament_uuid s)
     \<and> \<not> is_nil (st_daemon_instance_uuid s)
     \<and> st_generation s \<noteq> 0
     \<and> st_fixed_score_order s = SPECULATION_SCORE_ORDER
     \<and> cand_index (fst (st_candidates s)) = 0
     \<and> cand_index (snd (st_candidates s)) = 1
     \<and> \<not> is_nil (candidate_uuid (fst (st_candidates s)))
     \<and> \<not> is_nil (candidate_uuid (snd (st_candidates s)))
     \<and> candidate_uuid (fst (st_candidates s)) \<noteq> candidate_uuid (snd (st_candidates s))
     \<and> length (as_slice (st_error_codes s)) \<le> MAX_SPECULATION_ERROR_CODES
     \<and> is_ok (validate_candidate_status (fst (st_candidates s)))
     \<and> is_ok (validate_candidate_status (snd (st_candidates s)))"

definition validate_selection :: "speculation_status \<Rightarrow> unit evidence_result" where
  "validate_selection s =
     (let cs = st_candidates s in
      if st_phase s = Selected then
        bind_res (ok_or (st_selected_index s) Corrupt) (\<lambda>selected.
          if selected > 1
             \<or> \<not> ready (fst cs) \<or> \<not> go_received (fst cs) \<or> \<not> result_accepted (fst cs)
             \<or> \<not> ready (snd cs) \<or> \<not> go_received (snd cs) \<or> \<not> result_accepted (snd cs)
             \<or> \<not> eligible (candidate_at cs selected)
             \<or> score_selected_index cs \<noteq> Some selected
          then Inl Corrupt else Inr ())
      else if st_phase s \<in> {RolledBack, RollbackRequired, DecisionUncertain, RollbackPending} then
        (if is_some (st_selected_index s) then Inl Corrupt else Inr ())
      else if is_some_and (st_selected_index s) (\<lambda>selected.
          selected > 1 \<or> score_selected_index cs \<noteq> Some selected)
        then Inl Corrupt else Inr ())"

definition validate_status_semantics :: "speculation_status \<Rightarrow> unit evidence_result" where
  "validate_status_semantics s =
     (if \<not> validate_status_header s then Inl Corrupt
      else
        (let rollback_phase =
               st_phase s \<in> {RollbackRequired, DecisionUncertain, RollbackPending} in
         if st_rollback_required s \<noteq> rollback_phase then Inl Corrupt
         else validate_selection s))"

section \<open>The tournament record\<close>

datatype tournament_record_schema = RecordV1
datatype tournament_slot_schema = SlotV1

record tournament_record =
  tr_schema_version :: tournament_record_schema
  tr_boot_uuid :: uuid
  tr_roots :: private_root_identities
  tr_cgroup_root_locator :: private_cgroup_root_locator
  tr_tournament_cgroup :: tournament_cgroup_evidence
  tr_cgroups :: "candidate_cgroup_evidence \<times> candidate_cgroup_evidence"
  tr_managed_owners :: "managed_owner_evidence option \<times> managed_owner_evidence option"
  tr_restart_prior_phase :: "speculation_phase option"
  tr_terminal_completed_unix_ms :: "u64 option"
  tr_status :: speculation_status

definition root_identities :: "private_root_identities \<Rightarrow> durable_directory_identity list" where
  "root_identities r =
     [ri_source r, ri_ledger_root r, ri_cgroup_root r, fst (ri_candidates r), snd (ri_candidates r)]"

definition owner_ok :: "u8 \<Rightarrow> managed_owner_evidence option \<Rightarrow> bool" where
  "owner_ok index owner \<longleftrightarrow>
     \<not> is_some_and owner (\<lambda>owner. mo_candidate_index owner \<noteq> index \<or> mo_generation owner = 0)"

definition restart_prior_ok :: "tournament_record \<Rightarrow> bool" where
  "restart_prior_ok r \<longleftrightarrow>
     \<not> is_some_and (tr_restart_prior_phase r) (\<lambda>prior.
         is_terminal prior \<or> prior = RollbackRequired
         \<or> st_phase (tr_status r) \<notin> {RollbackRequired, RollbackPending, RolledBack})"

definition validate_core :: "tournament_record \<Rightarrow> unit evidence_result" where
  "validate_core r =
     (let s = tr_status r; boot = tr_boot_uuid r; roots = tr_roots r in
      if tr_schema_version r \<noteq> RecordV1
         \<or> is_nil boot
         \<or> list_ex (\<lambda>i. \<not> valid_directory_identity i) (root_identities roots)
         \<or> list_ex (\<lambda>i. boot \<noteq> di_boot_uuid i) (root_identities roots)
         \<or> cl_identity (tr_cgroup_root_locator r) \<noteq> ri_cgroup_root roots
         \<or> \<not> is_ok (tournament_cgroup_validate (tr_tournament_cgroup r) (st_tournament_uuid s) boot)
         \<or> \<not> is_ok (candidate_cgroup_validate (fst (tr_cgroups r)) 0 boot)
         \<or> \<not> is_ok (candidate_cgroup_validate (snd (tr_cgroups r)) 1 boot)
         \<or> cc_deterministic_name_uuid (fst (tr_cgroups r)) \<noteq> candidate_uuid (fst (st_candidates s))
         \<or> cc_deterministic_name_uuid (snd (tr_cgroups r)) \<noteq> candidate_uuid (snd (st_candidates s))
         \<or> \<not> is_ok (validate_status_semantics s)
         \<or> \<not> owner_ok 0 (fst (tr_managed_owners r)) \<or> \<not> owner_ok 1 (snd (tr_managed_owners r))
         \<or> \<not> restart_prior_ok r
      then Inl Corrupt else Inr ())"

definition cleanup_complete :: "speculation_cleanup_status \<Rightarrow> bool" where
  "cleanup_complete c \<longleftrightarrow>
     runner_ack c \<and> bwrap_reaped c \<and> sync_eof c \<and> cgroup_empty c \<and> managed_tombstone c"

definition is_positive_terminal :: "tournament_record \<Rightarrow> bool" where
  "is_positive_terminal r \<longleftrightarrow>
     is_ok (validate_core r)
     \<and> status_is_terminal (tr_status r)
     \<and> \<not> st_rollback_required (tr_status r)
     \<and> cc_lifecycle (fst (tr_cgroups r)) = CRemoved \<and> cc_lifecycle (snd (tr_cgroups r)) = CRemoved
     \<and> tc_lifecycle (tr_tournament_cgroup r) = TRemoved
     \<and> cleanup_complete (cleanup (fst (st_candidates (tr_status r))))
     \<and> cleanup_complete (cleanup (snd (st_candidates (tr_status r))))"

definition record_validate :: "tournament_record \<Rightarrow> unit evidence_result" where
  "record_validate r =
     bind_res (validate_core r) (\<lambda>_.
       if is_some (tr_terminal_completed_unix_ms r) \<noteq> is_positive_terminal r
       then Inl Corrupt else Inr ())"

definition immutable_identity_matches :: "tournament_record \<Rightarrow> tournament_record \<Rightarrow> bool" where
  "immutable_identity_matches r next \<longleftrightarrow>
     tr_boot_uuid r = tr_boot_uuid next
     \<and> tr_roots r = tr_roots next
     \<and> tr_cgroup_root_locator r = tr_cgroup_root_locator next
     \<and> immutable_identity_progresses_to (tr_tournament_cgroup r) (tr_tournament_cgroup next)
     \<and> st_tournament_uuid (tr_status r) = st_tournament_uuid (tr_status next)
     \<and> st_daemon_instance_uuid (tr_status r) = st_daemon_instance_uuid (tr_status next)
     \<and> candidate_uuid (fst (st_candidates (tr_status r)))
         = candidate_uuid (fst (st_candidates (tr_status next)))
     \<and> candidate_uuid (snd (st_candidates (tr_status r)))
         = candidate_uuid (snd (st_candidates (tr_status next)))"

definition option_is_retained :: "'a option \<Rightarrow> 'a option \<Rightarrow> bool" where
  "option_is_retained current next \<longleftrightarrow> is_none_or current (\<lambda>v. next = Some v)"

definition slice_is_prefix :: "'a list \<Rightarrow> 'a list \<Rightarrow> bool" where
  "slice_is_prefix current next \<longleftrightarrow> take (length current) next = current"

definition cleanup_progresses_to ::
    "speculation_cleanup_status \<Rightarrow> speculation_cleanup_status \<Rightarrow> bool" where
  "cleanup_progresses_to current next \<longleftrightarrow>
     (\<not> runner_ack current \<or> runner_ack next)
     \<and> (\<not> bwrap_reaped current \<or> bwrap_reaped next)
     \<and> (\<not> sync_eof current \<or> sync_eof next)
     \<and> (\<not> cgroup_empty current \<or> cgroup_empty next)
     \<and> (\<not> managed_tombstone current \<or> managed_tombstone next)"

definition candidate_progresses_to ::
    "speculation_candidate_status \<Rightarrow> speculation_candidate_status \<Rightarrow> bool" where
  "candidate_progresses_to current next \<longleftrightarrow>
     candidate_uuid current = candidate_uuid next
     \<and> cand_index current = cand_index next
     \<and> (\<not> ready current \<or> ready next)
     \<and> option_is_retained (ready_elapsed_ns current) (ready_elapsed_ns next)
     \<and> (\<not> go_received current \<or> go_received next)
     \<and> option_is_retained (go_received_elapsed_ns current) (go_received_elapsed_ns next)
     \<and> (\<not> result_accepted current \<or> result_accepted next)
     \<and> option_is_retained (exit_success current) (exit_success next)
     \<and> option_is_retained (exit_category current) (exit_category next)
     \<and> option_is_retained (elapsed_ns current) (elapsed_ns next)
     \<and> option_is_retained (output_bytes current) (output_bytes next)
     \<and> (\<not> eligible current \<or> eligible next)
     \<and> cleanup_progresses_to (cleanup current) (cleanup next)"

definition managed_owner_progresses_to ::
    "managed_owner_evidence option \<Rightarrow> managed_owner_evidence option \<Rightarrow> bool" where
  "managed_owner_progresses_to current next =
     (case (current, next) of
        (None, _) \<Rightarrow> True
      | (Some _, None) \<Rightarrow> False
      | (Some current, Some next) \<Rightarrow>
          current = next
          \<or> mo_candidate_index current = mo_candidate_index next
            \<and> mo_role current = Probe \<and> mo_role next = Runner)"

definition public_evidence_progresses_to ::
    "tournament_record \<Rightarrow> tournament_record \<Rightarrow> bool \<Rightarrow> bool \<Rightarrow> bool" where
  "public_evidence_progresses_to r next retain_reason allow_rollback_selection_clear \<longleftrightarrow>
     (let s = tr_status r; t = tr_status next in
      st_lease_deadline_unix_ms s \<le> st_lease_deadline_unix_ms t
      \<and> (\<not> retain_reason \<or> option_is_retained (st_reason_code s) (st_reason_code t))
      \<and> (allow_rollback_selection_clear
         \<or> option_is_retained (st_selected_index s) (st_selected_index t))
      \<and> slice_is_prefix (as_slice (st_error_codes s)) (as_slice (st_error_codes t))
      \<and> candidate_progresses_to (fst (st_candidates s)) (fst (st_candidates t))
      \<and> candidate_progresses_to (snd (st_candidates s)) (snd (st_candidates t))
      \<and> managed_owner_progresses_to (fst (tr_managed_owners r)) (fst (tr_managed_owners next))
      \<and> managed_owner_progresses_to (snd (tr_managed_owners r)) (snd (tr_managed_owners next)))"

record tournament_slot_record =
  sr_schema_version :: tournament_slot_schema
  sr_slot :: u16
  sr_record :: "tournament_record option"

definition slot_vacant :: "u16 \<Rightarrow> tournament_slot_record" where
  "slot_vacant slot = \<lparr>sr_schema_version = SlotV1, sr_slot = slot, sr_record = None\<rparr>"

definition slot_occupied :: "u16 \<Rightarrow> tournament_record \<Rightarrow> tournament_slot_record" where
  "slot_occupied slot r = \<lparr>sr_schema_version = SlotV1, sr_slot = slot, sr_record = Some r\<rparr>"

definition slot_validate :: "tournament_slot_record \<Rightarrow> u16 \<Rightarrow> unit evidence_result" where
  "slot_validate e expected_slot =
     (if sr_schema_version e \<noteq> SlotV1 \<or> sr_slot e \<noteq> expected_slot then Inl Corrupt
      else case sr_record e of None \<Rightarrow> Inr () | Some r \<Rightarrow> record_validate r)"

section \<open>What the service scores and stores\<close>

text \<open>The result that the service hands to the scoring rules, and the eligibility that it stores.\<close>

definition service_candidate_result ::
    "u8 \<Rightarrow> speculation_candidate_status \<Rightarrow> candidate_cgroup_evidence \<Rightarrow> candidate_result" where
  "service_candidate_result index candidate cgroup =
     \<lparr>cr_input_index = index, cr_exit_success = exit_success candidate,
      cr_elapsed_ns = elapsed_ns candidate, cr_output_bytes = output_bytes candidate,
      cr_quiescent = (cc_lifecycle cgroup = Forward PayloadEmpty),
      cr_output_overflowed =
        is_some_and (output_bytes candidate) (\<lambda>bytes. bytes > MAX_CANDIDATE_OUTPUT_BYTES)\<rparr>"

definition service_candidate_eligible :: "bool \<Rightarrow> u64 \<Rightarrow> speculation_exit_category \<Rightarrow> bool" where
  "service_candidate_eligible output_overflowed bytes category \<longleftrightarrow>
     \<not> output_overflowed \<and> bytes \<le> MAX_CANDIDATE_OUTPUT_BYTES
     \<and> category \<notin> {SpawnFailed, OutputLimitExceeded, EvidenceIncomplete}"

definition service_accept_result ::
    "bool \<Rightarrow> speculation_exit_category \<Rightarrow> u64 \<Rightarrow> u64 \<Rightarrow> speculation_candidate_status \<Rightarrow>
     speculation_candidate_status" where
  "service_accept_result output_overflowed category elapsed bytes status =
     status\<lparr>result_accepted := True, exit_success := Some (category = ExitedZero),
       exit_category := Some category, elapsed_ns := Some elapsed, output_bytes := Some bytes,
       eligible := service_candidate_eligible output_overflowed bytes category\<rparr>"

section \<open>The manifest bitmap\<close>

lemma bit_and_push_1: "(w :: u64) AND push_bit n 1 \<noteq> 0 \<longleftrightarrow> bit w n"
  by (simp add: bit_iff_and_push_bit_not_eq_0 and.commute)

lemma is_materialized_bit:
  "is_materialized m slot \<longleftrightarrow> bit (sm_materialized_slots m ! (unat slot div 64)) (unat slot mod 64)"
  by (simp add: is_materialized_def Let_def bit_and_push_1 del: push_bit_of_1)

definition words_ok :: "u64 list \<Rightarrow> bool" where
  "words_ok ws \<longleftrightarrow> length ws = STORE_MATERIALIZATION_WORDS"

definition word_has :: "u64 list \<Rightarrow> u16 \<Rightarrow> bool" where
  "word_has ws slot \<longleftrightarrow> bit (ws ! (unat slot div 64)) (unat slot mod 64)"

lemma slot_word: "unat slot < MAX_TOURNAMENT_RECORDS \<Longrightarrow> unat slot div 64 < STORE_MATERIALIZATION_WORDS"
  by (simp add: MAX_TOURNAMENT_RECORDS_def STORE_MATERIALIZATION_WORDS_def)

lemma merge_materialized_slots:
  assumes "words_ok (sm_materialized_slots m)" "words_ok present" "unat slot < MAX_TOURNAMENT_RECORDS"
  shows "is_materialized (fst (merge_materialized m present)) slot
    \<longleftrightarrow> is_materialized m slot \<or> word_has present slot"
  using assms slot_word [OF assms(3)]
  by (simp add: is_materialized_bit merge_materialized_def word_has_def words_ok_def Let_def bit_or_iff)

lemma merge_materialized_unchanged:
  "\<not> snd (merge_materialized m present) \<Longrightarrow> fst (merge_materialized m present) = m"
  by (simp add: merge_materialized_def Let_def)

lemma merge_materialized_words:
  "words_ok (sm_materialized_slots m) \<Longrightarrow> words_ok present \<Longrightarrow>
     words_ok (sm_materialized_slots (fst (merge_materialized m present)))"
  by (simp add: merge_materialized_def words_ok_def Let_def)

lemma mark_materialized_has:
  assumes "words_ok ws" "unat slot < MAX_TOURNAMENT_RECORDS"
  shows "word_has (mark_materialized_word ws slot) k \<longleftrightarrow> word_has ws k \<or> k = slot"
proof (cases "unat k div 64 = unat slot div 64")
  case True
  then have "unat k mod 64 = unat slot mod 64 \<longleftrightarrow> k = slot"
    by (metis div_mod_decomp word_unat_eq_iff)
  with True assms slot_word [OF assms(2)] show ?thesis
    by (auto simp: word_has_def mark_materialized_word_def words_ok_def Let_def bit_or_iff bit_push_bit_iff
        bit_1_iff simp del: push_bit_of_1)
next
  case False
  then have "k \<noteq> slot" by auto
  with False show ?thesis
    by (simp add: word_has_def mark_materialized_word_def Let_def nth_list_update_neq)
qed

section \<open>Cgroup lifecycles\<close>

fun forward_rank :: "cgroup_forward_state \<Rightarrow> nat" where
  "forward_rank FPlanned = 0" | "forward_rank ParentCreatePending = 1"
| "forward_rank ParentCreated = 2" | "forward_rank ControlCreatePending = 3"
| "forward_rank ControlCreated = 4" | "forward_rank PayloadCreatePending = 5"
| "forward_rank PayloadCreated = 6" | "forward_rank ProbePending = 7"
| "forward_rank ProbeEmpty = 8" | "forward_rank ControlAttachPending = 9"
| "forward_rank ControlAttached = 10" | "forward_rank PayloadFdTransferPending = 11"
| "forward_rank PayloadArmed = 12" | "forward_rank PayloadExecPending = 13"
| "forward_rank PayloadAttached = 14" | "forward_rank PayloadKillPending = 15"
| "forward_rank PayloadEmpty = 16"

fun lifecycle_rank :: "cgroup_lifecycle_state \<Rightarrow> nat" where
  "lifecycle_rank (Forward f) = forward_rank f" | "lifecycle_rank (CleanupPending f) = 17"
| "lifecycle_rank (ParentKillPending f) = 18" | "lifecycle_rank (ParentEmpty f) = 19"
| "lifecycle_rank (PayloadRemovePending f) = 20" | "lifecycle_rank (PayloadRemoved f) = 21"
| "lifecycle_rank (ControlRemovePending f) = 22" | "lifecycle_rank (ControlRemoved f) = 23"
| "lifecycle_rank (ParentRemovePending f) = 24" | "lifecycle_rank CRemoved = 25"
| "lifecycle_rank CRollbackRequired = 26"

lemma forward_successor_rank: "forward_successor f = Some g \<Longrightarrow> forward_rank g = Suc (forward_rank f)"
  by (cases f) auto

lemma forward_rank_less: "17 \<le> n \<Longrightarrow> forward_rank f < n"
  by (cases f) auto

lemma forward_rank_not_cleanup [simp]: "\<not> 19 \<le> forward_rank f"
  by (cases f) auto

lemma forward_absence_not_accept: "forward_absence f c \<noteq> AcceptRemoval"
  by (cases f) auto

lemma lifecycle_advance_rank: "lifecycle_advance s t \<Longrightarrow> lifecycle_rank s < lifecycle_rank t"
  by (cases s; cases t) (auto dest: forward_successor_rank simp: forward_rank_less)

lemma lifecycle_transition_rank:
  assumes "lifecycle_is_legal_transition s t"
  shows "s = t \<or> lifecycle_rank s < lifecycle_rank t"
proof -
  have "s = CRollbackRequired \<or> lifecycle_rank s < 26" by (cases s) (simp_all add: forward_rank_less)
  with assms lifecycle_advance_rank show ?thesis
    by (auto simp: lifecycle_is_legal_transition_def)
qed

lemma lifecycle_reach_rank:
  "lifecycle_is_legal_transition\<^sup>*\<^sup>* s t \<Longrightarrow> lifecycle_rank s \<le> lifecycle_rank t"
  by (induction rule: rtranclp_induct) (auto dest: lifecycle_transition_rank)

lemma accept_removal_rank:
  "same_boot_absence s c = AcceptRemoval \<Longrightarrow> 20 \<le> lifecycle_rank s \<and> s \<noteq> CRollbackRequired"
  by (cases s) (auto simp: created_or_never_def forward_absence_not_accept split: if_splits)

lemma rollback_required_stable:
  "lifecycle_is_legal_transition CRollbackRequired t \<Longrightarrow> t = CRollbackRequired"
  by (auto simp: lifecycle_is_legal_transition_def)

lemma accept_removal_stable:
  assumes "same_boot_absence s c = AcceptRemoval" "lifecycle_is_legal_transition s t"
  shows "same_boot_absence t c = AcceptRemoval \<or> t = CRollbackRequired"
  using assms
  by (cases s) (auto simp: lifecycle_is_legal_transition_def created_or_never_def
      forward_absence_not_accept split: if_splits)

text \<open>A state between \<open>ParentEmpty\<close> and \<open>Removed\<close> was entered through \<open>ParentEmpty\<close>, unless nothing was
  ever created.\<close>

lemma cleanup_through_parent_empty:
  assumes "lifecycle_is_legal_transition\<^sup>*\<^sup>* (Forward f) s" and "f \<noteq> FPlanned"
  shows "19 \<le> lifecycle_rank s \<Longrightarrow> s \<noteq> CRollbackRequired \<Longrightarrow>
    \<exists>g. lifecycle_is_legal_transition\<^sup>*\<^sup>* (Forward f) (ParentEmpty g)
      \<and> lifecycle_is_legal_transition\<^sup>*\<^sup>* (ParentEmpty g) s"
  using assms(1)
proof (induction rule: rtranclp_induct)
  case base
  then show ?case by simp
next
  case (step s t)
  have "s \<noteq> Forward FPlanned"
    using lifecycle_reach_rank [OF step.hyps(1)] assms(2) by (cases f) auto
  then consider "s = t" | g where "t = ParentEmpty g" | "19 \<le> lifecycle_rank s" "s \<noteq> CRollbackRequired"
    using step.hyps(2) step.prems
    by (cases s) (auto simp: lifecycle_is_legal_transition_def forward_rank_less
        dest: forward_successor_rank split: cgroup_lifecycle_state.splits)
  then show ?case
  proof cases
    case 2
    then show ?thesis using step.hyps by (meson rtranclp.rtrancl_into_rtrancl rtranclp.rtrancl_refl)
  next
    case 3
    then show ?thesis using step by (meson rtranclp.rtrancl_into_rtrancl)
  qed (use step in auto)
qed

section \<open>Scoring of stored candidates\<close>

lemma service_candidate_result_index [simp]:
  "cr_input_index (service_candidate_result i c g) = i"
  by (simp add: service_candidate_result_def)

lemma score_cmp_compare:
  assumes "eligible a \<longleftrightarrow> is_eligible (service_candidate_result (cand_index a) a g)"
    "eligible b \<longleftrightarrow> is_eligible (service_candidate_result (cand_index b) b h)"
    "eligible a \<or> eligible b"
  shows "compare_candidates (service_candidate_result (cand_index a) a g)
      (service_candidate_result (cand_index b) b h) = Some (score_cmp a b)"
  using assms
  by (auto simp: compare_candidates_def score_cmp_def service_candidate_result_def then_with_def cmp_def
      split: bool.splits ordering.splits)

lemma score_selected_agrees:
  assumes "cand_index a = 0" "cand_index b = 1"
    "eligible a \<longleftrightarrow> is_eligible (service_candidate_result 0 a g)"
    "eligible b \<longleftrightarrow> is_eligible (service_candidate_result 1 b h)"
  shows "score_candidates (service_candidate_result 0 a g, service_candidate_result 1 b h)
    = (case score_selected_index (a, b) of Some i \<Rightarrow> ScoreSelected i | None \<Rightarrow> ScoreRollback)"
proof (cases "eligible a \<or> eligible b")
  case True
  with score_cmp_compare [of a g b h] assms
  have "compare_candidates (service_candidate_result 0 a g) (service_candidate_result 1 b h)
      = Some (score_cmp a b)" by simp
  with True assms(1,2) show ?thesis
    by (auto simp: score_candidates_def score_selected_index_def CANDIDATE_COUNT_def Let_def
        split: ordering.splits)
next
  case False
  with assms have "compare_candidates (service_candidate_result 0 a g) (service_candidate_result 1 b h)
      = None" by (simp add: compare_candidates_def)
  with False show ?thesis
    by (simp add: score_candidates_def score_selected_index_def Let_def)
qed

lemma service_eligible_agrees:
  assumes "category \<notin> {SpawnFailed, EvidenceIncomplete, OutputLimitExceeded}"
    and "cc_lifecycle g = Forward PayloadEmpty" and "i < CANDIDATE_COUNT"
  shows "eligible (service_accept_result False category elapsed bytes st)
    \<longleftrightarrow> is_eligible (service_candidate_result i (service_accept_result False category elapsed bytes st) g)"
  using assms
  by (auto simp: service_accept_result_def service_candidate_eligible_def is_eligible_def
      service_candidate_result_def)

section \<open>Evidence never regresses\<close>

lemma option_is_retained_refl [simp]: "option_is_retained x x"
  by (cases x) (auto simp: option_is_retained_def)

lemma option_is_retained_trans:
  "option_is_retained x y \<Longrightarrow> option_is_retained y z \<Longrightarrow> option_is_retained x z"
  by (cases x) (auto simp: option_is_retained_def)

lemma slice_is_prefix_refl [simp]: "slice_is_prefix xs xs"
  by (simp add: slice_is_prefix_def)

lemma slice_is_prefix_iff: "slice_is_prefix xs ys \<longleftrightarrow> (\<exists>zs. ys = xs @ zs)"
  by (metis append_eq_conv_conj slice_is_prefix_def append_take_drop_id)

lemma slice_is_prefix_trans: "slice_is_prefix xs ys \<Longrightarrow> slice_is_prefix ys zs \<Longrightarrow> slice_is_prefix xs zs"
  by (auto simp: slice_is_prefix_iff)

lemma cleanup_progresses_refl [simp]: "cleanup_progresses_to c c"
  by (auto simp: cleanup_progresses_to_def)

lemma cleanup_progresses_trans:
  "cleanup_progresses_to a b \<Longrightarrow> cleanup_progresses_to b c \<Longrightarrow> cleanup_progresses_to a c"
  by (auto simp: cleanup_progresses_to_def)

lemma candidate_progresses_refl [simp]: "candidate_progresses_to c c"
  by (simp add: candidate_progresses_to_def)

lemma candidate_progresses_trans:
  "candidate_progresses_to a b \<Longrightarrow> candidate_progresses_to b c \<Longrightarrow> candidate_progresses_to a c"
  unfolding candidate_progresses_to_def
  by (elim conjE, intro conjI)
    (blast intro: option_is_retained_trans cleanup_progresses_trans | simp)+

lemma managed_owner_progresses_refl [simp]: "managed_owner_progresses_to o1 o1"
  by (cases o1) (auto simp: managed_owner_progresses_to_def)

lemma managed_owner_progresses_trans:
  "managed_owner_progresses_to a b \<Longrightarrow> managed_owner_progresses_to b c \<Longrightarrow> managed_owner_progresses_to a c"
  by (auto simp: managed_owner_progresses_to_def split: option.splits)

lemma public_evidence_refl: "public_evidence_progresses_to r r b1 b2"
  by (simp add: public_evidence_progresses_to_def Let_def)

lemma public_evidence_trans:
  assumes "public_evidence_progresses_to a b b1 b2" "public_evidence_progresses_to b c b1 b2"
  shows "public_evidence_progresses_to a c b1 b2"
  using assms unfolding public_evidence_progresses_to_def Let_def
  by (elim conjE, intro conjI)
    (blast intro: order_trans option_is_retained_trans slice_is_prefix_trans candidate_progresses_trans
       managed_owner_progresses_trans)+

section \<open>Properties\<close>

text \<open>The two places that choose a winner agree: for a status in a phase before selection, storing a
  winner passes the validation of the record exactly when the scoring rules chose that winner,
  provided each candidate's stored eligibility is what the rules compute for its result.\<close>

theorem stored_selection_is_scored:
  assumes "validate_status_header s" and "st_phase s \<in> set forward_chain" and "st_phase s \<noteq> Selected"
    and "eligible (fst (st_candidates s))
      \<longleftrightarrow> is_eligible (service_candidate_result 0 (fst (st_candidates s)) g)"
    and "eligible (snd (st_candidates s))
      \<longleftrightarrow> is_eligible (service_candidate_result 1 (snd (st_candidates s)) h)"
  shows "validate_selection (s\<lparr>st_selected_index := Some i\<rparr>) = Inr () \<longleftrightarrow>
    score_candidates (service_candidate_result 0 (fst (st_candidates s)) g,
      service_candidate_result 1 (snd (st_candidates s)) h) = ScoreSelected i"
proof -
  obtain a b where ab: "st_candidates s = (a, b)" by (cases "st_candidates s")
  have idx: "cand_index a = 0" "cand_index b = 1" using assms(1) ab by (auto simp: validate_status_header_def)
  have "\<not> 1 < i" if "score_selected_index (a, b) = Some i"
    using that idx by (auto simp: score_selected_index_def split: if_splits)
  moreover have "validate_selection (s\<lparr>st_selected_index := Some i\<rparr>) = Inr () \<longleftrightarrow>
      \<not> (1 < i \<or> score_selected_index (a, b) \<noteq> Some i)"
    using assms(2,3) ab by (auto simp: validate_selection_def forward_chain_def)
  ultimately show ?thesis
    using score_selected_agrees [OF idx, of g h] assms(4,5) ab by (auto split: option.splits)
qed

definition example_cleanup :: "bool \<Rightarrow> speculation_cleanup_status" where
  "example_cleanup b = \<lparr>runner_ack = b, bwrap_reaped = b, sync_eof = b, cgroup_empty = b,
     managed_tombstone = b\<rparr>"

definition example_candidate :: "u8 \<Rightarrow> speculation_candidate_status" where
  "example_candidate i = \<lparr>candidate_uuid = 100 + ucast i, cand_index = i, ready = True,
     ready_elapsed_ns = Some 1, go_received = True, go_received_elapsed_ns = Some 2,
     result_accepted = False, exit_success = None, exit_category = None, elapsed_ns = None,
     output_bytes = None, eligible = False, cleanup = example_cleanup False\<rparr>"

definition example_cgroup :: "u8 \<Rightarrow> candidate_cgroup_evidence" where
  "example_cgroup i = \<lparr>cc_candidate_index = i, cc_deterministic_name_uuid = 100 + ucast i,
     cc_lifecycle = Forward PayloadEmpty, cc_parent = None, cc_control = None, cc_payload = None\<rparr>"

definition example_status :: speculation_status where
  "example_status = \<lparr>st_schema_version = StatusV1, st_tournament_uuid = 5, st_daemon_instance_uuid = 6,
     st_phase = ResultPending, st_generation = 3, st_lease_deadline_unix_ms = 0, st_reason_code = None,
     st_candidates = (service_accept_result False ExitedZero 10 0 (example_candidate 0),
       service_accept_result False ExitedZero 20 0 (example_candidate 1)),
     st_fixed_score_order = SPECULATION_SCORE_ORDER, st_selected_index = None,
     st_rollback_required = False, st_error_codes = error_codes_new\<rparr>"

lemmas record_eval = example_status_def example_candidate_def example_cleanup_def example_cgroup_def
  service_accept_result_def service_candidate_eligible_def service_candidate_result_def
  MAX_CANDIDATE_OUTPUT_BYTES_def

theorem stored_selection_is_scored_witness:
  "validate_status_header example_status
   \<and> score_candidates (service_candidate_result 0 (fst (st_candidates example_status)) (example_cgroup 0),
       service_candidate_result 1 (snd (st_candidates example_status)) (example_cgroup 1))
     = ScoreSelected 0
   \<and> validate_selection (example_status\<lparr>st_selected_index := Some 0\<rparr>) = Inr ()"
proof -
  have h: "validate_status_header example_status"
    by (simp add: validate_status_header_def validate_candidate_status_def record_eval is_nil_def
        error_codes_new_def Let_def)
  have e: "eligible (fst (st_candidates example_status))
      \<longleftrightarrow> is_eligible (service_candidate_result 0 (fst (st_candidates example_status)) (example_cgroup 0))"
    "eligible (snd (st_candidates example_status))
      \<longleftrightarrow> is_eligible (service_candidate_result 1 (snd (st_candidates example_status)) (example_cgroup 1))"
    by (simp_all add: record_eval is_eligible_def CANDIDATE_COUNT_def)
  have p: "st_phase example_status \<in> set forward_chain" "st_phase example_status \<noteq> Selected"
    by (simp_all add: record_eval forward_chain_def)
  have "score_candidates (service_candidate_result 0 (fst (st_candidates example_status)) (example_cgroup 0),
       service_candidate_result 1 (snd (st_candidates example_status)) (example_cgroup 1))
     = ScoreSelected 0"
    by (simp add: record_eval score_candidates_def compare_candidates_def is_eligible_def
        CANDIDATE_COUNT_def then_with_def cmp_def)
  with stored_selection_is_scored [OF h p e, of 0] h show ?thesis by simp
qed

text \<open>C27. Where a candidate failed to start, or its evidence is incomplete, the two places disagree: the
  scoring rules do not look at the exit category and still choose a winner between two such
  candidates, although the stored eligibility says that there is none and a record that names a
  winner is rejected.\<close>

theorem failed_candidates_still_scored:
  assumes "category0 \<in> {SpawnFailed, EvidenceIncomplete}" "category1 \<in> {SpawnFailed, EvidenceIncomplete}"
    and "cc_lifecycle g = Forward PayloadEmpty" "cc_lifecycle h = Forward PayloadEmpty"
    and "bytes0 \<le> MAX_CANDIDATE_OUTPUT_BYTES" "bytes1 \<le> MAX_CANDIDATE_OUTPUT_BYTES"
  shows "let a = service_accept_result False category0 elapsed0 bytes0 st0;
      b = service_accept_result False category1 elapsed1 bytes1 st1 in
    (\<exists>i. score_candidates (service_candidate_result 0 a g, service_candidate_result 1 b h)
       = ScoreSelected i)
    \<and> score_selected_index (a, b) = None"
proof -
  have "is_eligible (service_candidate_result 0 (service_accept_result False category0 elapsed0 bytes0 st0) g)"
    "is_eligible (service_candidate_result 1 (service_accept_result False category1 elapsed1 bytes1 st1) h)"
    using assms
    by (auto simp: is_eligible_def service_candidate_result_def service_accept_result_def
        CANDIDATE_COUNT_def not_less)
  then show ?thesis
    using assms(1,2) compare_candidates_None
    by (auto simp: score_candidates_def CANDIDATE_COUNT_def Let_def score_selected_index_def
        service_accept_result_def service_candidate_eligible_def split: option.splits ordering.splits)
qed

theorem failed_candidates_still_scored_witness:
  "\<exists>i. score_candidates
      (service_candidate_result 0 (service_accept_result False SpawnFailed 10 0 (example_candidate 0))
         (example_cgroup 0),
       service_candidate_result 1 (service_accept_result False SpawnFailed 20 0 (example_candidate 1))
         (example_cgroup 1)) = ScoreSelected i"
  using failed_candidates_still_scored [of SpawnFailed SpawnFailed "example_cgroup 0" "example_cgroup 1"
      0 0 10 "example_candidate 0" 20 "example_candidate 1"]
  by (simp add: example_cgroup_def Let_def)

text \<open>The removal of a candidate's cgroups: once something may have been created, the absence of a
  component is accepted as a removal only after the parent was recorded empty; it stays
  accepted ever after unless the lifecycle is given up; and no state is ever entered again.\<close>

theorem cgroup_removal_ordered:
  assumes "lifecycle_is_legal_transition\<^sup>*\<^sup>* (Forward f) s" and "f \<noteq> FPlanned"
    and "same_boot_absence s c = AcceptRemoval"
  shows "(\<exists>g. lifecycle_is_legal_transition\<^sup>*\<^sup>* (Forward f) (ParentEmpty g)
        \<and> lifecycle_is_legal_transition\<^sup>*\<^sup>* (ParentEmpty g) s)
    \<and> (\<forall>t. lifecycle_is_legal_transition\<^sup>*\<^sup>* s t \<longrightarrow>
          same_boot_absence t c = AcceptRemoval \<or> t = CRollbackRequired)
    \<and> (\<forall>t. lifecycle_is_legal_transition s t \<and> s \<noteq> t \<longrightarrow> \<not> lifecycle_is_legal_transition\<^sup>*\<^sup>* t s)"
proof (intro conjI allI impI)
  show "\<exists>g. lifecycle_is_legal_transition\<^sup>*\<^sup>* (Forward f) (ParentEmpty g)
        \<and> lifecycle_is_legal_transition\<^sup>*\<^sup>* (ParentEmpty g) s"
    using cleanup_through_parent_empty [OF assms(1,2)] accept_removal_rank [OF assms(3)] by simp
next
  fix t assume "lifecycle_is_legal_transition\<^sup>*\<^sup>* s t"
  then show "same_boot_absence t c = AcceptRemoval \<or> t = CRollbackRequired"
    using assms(3)
    by (induction rule: rtranclp_induct) (auto dest: accept_removal_stable rollback_required_stable)
next
  fix t assume "lifecycle_is_legal_transition s t \<and> s \<noteq> t"
  then show "\<not> lifecycle_is_legal_transition\<^sup>*\<^sup>* t s"
    using lifecycle_transition_rank lifecycle_reach_rank by fastforce
qed

theorem cgroup_removal_ordered_witness:
  "lifecycle_is_legal_transition\<^sup>*\<^sup>* (Forward ParentCreated) (PayloadRemovePending ParentCreated)
   \<and> same_boot_absence (PayloadRemovePending ParentCreated) Payload = AcceptRemoval
   \<and> (\<exists>g. lifecycle_is_legal_transition\<^sup>*\<^sup>* (ParentEmpty g) (PayloadRemovePending ParentCreated))"
proof -
  have "lifecycle_is_legal_transition (Forward ParentCreated) (CleanupPending ParentCreated)"
    "lifecycle_is_legal_transition (CleanupPending ParentCreated) (ParentEmpty ParentCreated)"
    "lifecycle_is_legal_transition (ParentEmpty ParentCreated) (PayloadRemovePending ParentCreated)"
    by (simp_all add: lifecycle_is_legal_transition_def)
  then have r: "lifecycle_is_legal_transition\<^sup>*\<^sup>* (Forward ParentCreated) (PayloadRemovePending ParentCreated)"
    by (meson r_into_rtranclp rtranclp_trans)
  with cgroup_removal_ordered [OF r, of Payload] show ?thesis by auto
qed

text \<open>Public evidence only grows: along any sequence of records in which each write keeps the
  evidence of the one before, the last record still has everything the first one had.\<close>

theorem evidence_never_regresses:
  "successively (\<lambda>r next. public_evidence_progresses_to r next retain_reason clear) (r # rs) \<Longrightarrow>
     public_evidence_progresses_to r (last (r # rs)) retain_reason clear"
proof (induction rs arbitrary: r)
  case Nil
  then show ?case by (simp add: public_evidence_refl)
next
  case (Cons r' rs)
  then show ?case using public_evidence_trans by fastforce
qed

definition fresh_candidate :: "u8 \<Rightarrow> speculation_candidate_status" where
  "fresh_candidate i = (example_candidate i)\<lparr>ready := False, ready_elapsed_ns := None,
     go_received := False, go_received_elapsed_ns := None\<rparr>"

definition example_root :: "u64 \<Rightarrow> durable_directory_identity" where
  "example_root ino = \<lparr>di_boot_uuid = 1, di_dev = 1, di_ino = ino, di_statx_mnt_id_unique = 1\<rparr>"

text \<open>A freshly prepared tournament.\<close>

definition example_record :: "uuid \<Rightarrow> tournament_record" where
  "example_record u = \<lparr>tr_schema_version = RecordV1, tr_boot_uuid = 1,
     tr_roots = \<lparr>ri_source = example_root 11, ri_candidates = (example_root 12, example_root 13),
       ri_ledger_root = example_root 14, ri_cgroup_root = example_root 15\<rparr>,
     tr_cgroup_root_locator = \<lparr>cl_canonical_path = SpeculationUnixPath [0x2f], cl_identity = example_root 15\<rparr>,
     tr_tournament_cgroup = \<lparr>tc_deterministic_name_uuid = u, tc_lifecycle = TPlanned, tc_domain = None\<rparr>,
     tr_cgroups = ((example_cgroup 0)\<lparr>cc_lifecycle := Forward FPlanned\<rparr>,
       (example_cgroup 1)\<lparr>cc_lifecycle := Forward FPlanned\<rparr>),
     tr_managed_owners = (None, None), tr_restart_prior_phase = None,
     tr_terminal_completed_unix_ms = None,
     tr_status = example_status\<lparr>st_tournament_uuid := u, st_phase := Prepared, st_generation := 1,
       st_candidates := (fresh_candidate 0, fresh_candidate 1)\<rparr>\<rparr>"

lemmas record_validate_eval = record_eval example_record_def example_root_def fresh_candidate_def
  record_validate_def validate_core_def root_identities_def valid_directory_identity_def
  tournament_cgroup_validate_def candidate_cgroup_validate_def component_identities_def
  present_floor_def forward_floor_def validate_status_semantics_def validate_status_header_def
  validate_candidate_status_def validate_selection_def owner_ok_def restart_prior_ok_def
  is_positive_terminal_def status_is_terminal_def is_terminal_def is_nil_def error_codes_new_def

lemma example_record_valid: "u \<noteq> 0 \<Longrightarrow> record_validate (example_record u) = Inr ()"
  by (simp add: record_validate_eval Let_def)

theorem evidence_never_regresses_witness:
  "successively (\<lambda>r next. public_evidence_progresses_to r next True False)
     [example_record 5, (example_record 5)\<lparr>tr_managed_owners := (None, None)\<rparr>,
      (example_record 5)\<lparr>tr_managed_owners := (Some \<lparr>mo_candidate_index = 0, mo_role = Probe,
         mo_slot = 1, mo_generation = 1\<rparr>, None)\<rparr>]
   \<and> public_evidence_progresses_to (example_record 5)
      ((example_record 5)\<lparr>tr_managed_owners := (Some \<lparr>mo_candidate_index = 0, mo_role = Probe,
         mo_slot = 1, mo_generation = 1\<rparr>, None)\<rparr>) True False"
proof -
  have s: "successively (\<lambda>r next. public_evidence_progresses_to r next True False)
     [example_record 5, (example_record 5)\<lparr>tr_managed_owners := (None, None)\<rparr>,
      (example_record 5)\<lparr>tr_managed_owners := (Some \<lparr>mo_candidate_index = 0, mo_role = Probe,
         mo_slot = 1, mo_generation = 1\<rparr>, None)\<rparr>]"
    by (simp add: public_evidence_progresses_to_def managed_owner_progresses_to_def Let_def
        example_record_def)
  with evidence_never_regresses [OF s] show ?thesis by simp
qed

text \<open>The manifest remembers every slot that was ever materialised: merging marks exactly the slots that
  were marked before or are present, keeps the manifest as it is when there is nothing new, and
  marking a slot adds that slot and no other.\<close>

theorem manifest_never_forgets:
  assumes "words_ok (sm_materialized_slots m)" "words_ok present"
    and "unat slot < MAX_TOURNAMENT_RECORDS" "unat k < MAX_TOURNAMENT_RECORDS"
  shows "(is_materialized (fst (merge_materialized m present)) k
      \<longleftrightarrow> is_materialized m k \<or> word_has present k)
    \<and> (\<not> snd (merge_materialized m present) \<longrightarrow> fst (merge_materialized m present) = m)
    \<and> (word_has (mark_materialized_word present slot) k \<longleftrightarrow> word_has present k \<or> k = slot)"
  using merge_materialized_slots [OF assms(1,2,4)] merge_materialized_unchanged
    mark_materialized_has [OF assms(2,3)] by blast

theorem manifest_never_forgets_witness:
  "is_materialized (fst (merge_materialized manifest_fixed
      (mark_materialized_word (replicate STORE_MATERIALIZATION_WORDS 0) 70))) 70
   \<and> words_ok (sm_materialized_slots manifest_fixed)"
proof -
  have w: "words_ok (sm_materialized_slots manifest_fixed)"
    "words_ok (replicate STORE_MATERIALIZATION_WORDS 0)"
    "words_ok (mark_materialized_word (replicate STORE_MATERIALIZATION_WORDS 0) 70)"
    by (simp_all add: manifest_fixed_def words_ok_def mark_materialized_word_def Let_def)
  have s: "unat (70 :: u16) < MAX_TOURNAMENT_RECORDS" by (simp add: MAX_TOURNAMENT_RECORDS_def)
  show ?thesis
    using manifest_never_forgets [OF w(1,2) s s] manifest_never_forgets [OF w(1,3) s s] w(1) by simp
qed

end
