(* ===== verification/Tournament_Store.thy ===== *)
theory Tournament_Store
  imports Tournament_Record
begin

text \<open>
  The tournament store (second part of \<open>speculation_registry.rs\<close>): 1024 slots kept in memory and as
  slot files of one evidence directory. A store operation takes the store, the directory and the
  answers of the operating system for the file operations it performs, numbered in the order
  in which it performs them, and returns the new store, the new directory and a result. The lemmas
  show that what the store believes about a slot is what the slot file holds, that no tournament
  is stored twice, that at most eight tournaments are admitted, that only vacant or long finished
  slots are reused, and that a generation is written at most once.
\<close>

section \<open>Data\<close>

record tournament_key =
  key_slot :: u16
  key_generation :: u64
  key_tournament_uuid :: uuid

datatype tournament_write_kind = LivePhaseTransition | SamePhaseEvidence | OldBootAbsence uuid

record stored_tournament_update =
  su_key :: tournament_key
  su_record :: tournament_record

datatype tournament_recovery_record =
    RecoveryValid tournament_key tournament_record
  | RecoveryCorrupt "u16 option"

datatype slot_state =
    Vacant "file_identity option"
  | Valid tournament_record file_identity
  | CorruptSlot

text \<open>The mutex around the state is its poisoned flag.\<close>

record tournament_store =
  ts_directory :: validated_directory
  ts_slots :: "slot_state list"
  ts_unknown_corrupt_records :: nat
  ts_poisoned :: bool

text \<open>The third-party code: \<open>serde_json\<close> for the two record types and for any JSON value, and the
  parser of UUIDs.\<close>

record codecs =
  slot_to_vec :: "tournament_slot_record \<Rightarrow> u8 list option"
  slot_from_slice :: "u8 list \<Rightarrow> tournament_slot_record option"
  manifest_to_vec :: "tournament_store_manifest \<Rightarrow> u8 list option"
  manifest_from_slice :: "u8 list \<Rightarrow> tournament_store_manifest option"
  json_parses :: "u8 list \<Rightarrow> bool"
  uuid_parses :: "string \<Rightarrow> bool"

type_synonym os_script = "nat \<Rightarrow> os_answers"

section \<open>Slot names\<close>

definition decimal_digit :: "nat \<Rightarrow> char" where
  "decimal_digit d = char_of (48 + d)"

definition four_digits :: "nat \<Rightarrow> string" where
  "four_digits n = [decimal_digit (n div 1000 mod 10), decimal_digit (n div 100 mod 10),
     decimal_digit (n div 10 mod 10), decimal_digit (n mod 10)]"

definition slot_leaf :: "u16 \<Rightarrow> leaf evidence_result" where
  "slot_leaf slot =
     (if unat slot \<ge> MAX_TOURNAMENT_RECORDS then Inl InvalidLeaf
      else Inr (''slot-'' @ four_digits (unat slot) @ ''.json''))"

definition is_ascii_digit :: "char \<Rightarrow> bool" where
  "is_ascii_digit c \<longleftrightarrow> 48 \<le> (of_char c :: nat) \<and> (of_char c :: nat) \<le> 57"

definition digit_value :: "char \<Rightarrow> nat" where
  "digit_value c = of_char c - 48"

definition parse_decimal :: "string \<Rightarrow> nat" where
  "parse_decimal s = foldl (\<lambda>n c. 10 * n + digit_value c) 0 s"

text \<open>Four digits always fit an \<open>u16\<close>.\<close>

definition parse_slot_leaf :: "leaf \<Rightarrow> u16 option" where
  "parse_slot_leaf leaf =
     (if take 5 leaf \<noteq> ''slot-'' then None
      else
        (let rest = drop 5 leaf; n = length rest - 5 in
         if length rest < 5 \<or> drop n rest \<noteq> ''.json'' then None
         else
           (let digits = take n rest in
            if length digits \<noteq> 4 \<or> \<not> list_all is_ascii_digit digits then None
            else
              (let slot = of_nat (parse_decimal digits) in
               if unat slot < MAX_TOURNAMENT_RECORDS then Some slot else None))))"

section \<open>The manifest on disk\<close>

fun persist_attempts ::
    "codecs \<Rightarrow> os_script \<Rightarrow> validated_directory \<Rightarrow> u64 list \<Rightarrow> nat \<Rightarrow> nat \<Rightarrow> directory
       \<Rightarrow> directory \<times> tournament_store_manifest evidence_result" where
  "persist_attempts js os vd present n 0 d = (d, Inl Stale)"
| "persist_attempts js os vd present n (Suc attempts) d =
     (case read_json (manifest_from_slice js) (os n) vd d STORE_MANIFEST_LEAF MAX_SPECULATION_JSON_BYTES of
        Inl e \<Rightarrow> (d, Inl e)
      | Inr current \<Rightarrow>
          (case manifest_validate (sj_value current) of
             Inl e \<Rightarrow> (d, Inl e)
           | Inr _ \<Rightarrow>
               (let (next, changed) = merge_materialized (sj_value current) present in
                if \<not> changed then (d, Inr next)
                else
                  (case atomic_replace_json (manifest_to_vec js) (manifest_from_slice js) (os (Suc n)) vd d
                          STORE_MANIFEST_LEAF (sj_identity current) next MAX_SPECULATION_JSON_BYTES of
                     (d', Inr stored) \<Rightarrow> (d', Inr (sj_value stored))
                   | (d', Inl e) \<Rightarrow>
                       if e = Stale then persist_attempts js os vd present (n + 2) attempts d'
                       else (d', Inl e)))))"

definition persist_materialized_slots ::
    "codecs \<Rightarrow> os_script \<Rightarrow> nat \<Rightarrow> validated_directory \<Rightarrow> directory \<Rightarrow> u64 list
       \<Rightarrow> directory \<times> tournament_store_manifest evidence_result" where
  "persist_materialized_slots js os n vd d present = persist_attempts js os vd present n 64 d"

section \<open>Opening\<close>

definition slot_state_of_entry :: "tournament_slot_record stored_json evidence_result \<Rightarrow> u16 \<Rightarrow> slot_state" where
  "slot_state_of_entry r slot =
     (case r of
        Inl e \<Rightarrow> CorruptSlot
      | Inr entry \<Rightarrow>
          if is_ok (slot_validate (sj_value entry) slot) then
            (case sr_record (sj_value entry) of
               Some record \<Rightarrow> Valid record (sj_identity entry)
             | None \<Rightarrow> Vacant (Some (sj_identity entry)))
          else CorruptSlot)"

text \<open>The loop over the leaves: \<open>n\<close> numbers the read of the next leaf.\<close>

fun load_leaves ::
    "codecs \<Rightarrow> os_script \<Rightarrow> nat \<Rightarrow> validated_directory \<Rightarrow> directory \<Rightarrow> leaf list \<Rightarrow>
     slot_state list \<Rightarrow> bool list \<Rightarrow> nat \<Rightarrow> slot_state list \<times> nat" where
  "load_leaves js os n vd d [] slots seen unknown = (slots, unknown)"
| "load_leaves js os n vd d (leaf # leaves) slots seen unknown =
     (if leaf = STORE_MANIFEST_LEAF then load_leaves js os (Suc n) vd d leaves slots seen unknown
      else
        (case parse_slot_leaf leaf of
           None \<Rightarrow> load_leaves js os (Suc n) vd d leaves slots seen (unknown + 1)
         | Some slot \<Rightarrow>
             if seen ! unat slot
             then load_leaves js os (Suc n) vd d leaves (slots[unat slot := CorruptSlot]) seen unknown
             else load_leaves js os (Suc n) vd d leaves
                    (slots[unat slot := slot_state_of_entry
                       (read_json (slot_from_slice js) (os n) vd d leaf MAX_SPECULATION_JSON_BYTES) slot])
                    (seen[unat slot := True]) unknown))"

definition present_words :: "leaf list \<Rightarrow> u64 list" where
  "present_words leaves =
     foldl (\<lambda>words leaf. case parse_slot_leaf leaf of Some slot \<Rightarrow> mark_materialized_word words slot
                                                  | None \<Rightarrow> words)
       (replicate STORE_MATERIALIZATION_WORDS 0) leaves"

definition initial_slots :: "tournament_store_manifest \<Rightarrow> slot_state list" where
  "initial_slots manifest =
     map (\<lambda>slot. if is_materialized manifest (of_nat slot) then CorruptSlot else Vacant None)
       [0..<MAX_TOURNAMENT_RECORDS]"

text \<open>The part of \<open>open\<close> that makes sure of the manifest and lists the leaves again.\<close>

definition ensure_manifest ::
    "codecs \<Rightarrow> os_script \<Rightarrow> validated_directory \<Rightarrow> directory \<Rightarrow> (nat \<Rightarrow> leaf list) \<Rightarrow> leaf list
       \<Rightarrow> directory \<times> leaf list evidence_result" where
  "ensure_manifest js os vd d readdir leaves =
     (if STORE_MANIFEST_LEAF \<in> set leaves then (d, Inr leaves)
      else if leaves \<noteq> [] then (d, Inl Corrupt)
      else
        (case atomic_create_json (manifest_to_vec js) (manifest_from_slice js) (os 1) vd d
                STORE_MANIFEST_LEAF manifest_fixed MAX_SPECULATION_JSON_BYTES of
           (d', r) \<Rightarrow>
             if is_ok r \<or> r = Inl AlreadyExists
             then list_leaf_names (uuid_parses js) (json_parses js) (os 2) vd d' (readdir 1)
             else (d', Inl (case r of Inl e \<Rightarrow> e | Inr _ \<Rightarrow> Corrupt))))"

definition store_open ::
    "codecs \<Rightarrow> os_script \<Rightarrow> validated_directory \<Rightarrow> directory \<Rightarrow> (nat \<Rightarrow> leaf list)
       \<Rightarrow> directory \<times> tournament_store evidence_result" where
  "store_open js os vd d readdir =
     (case list_leaf_names (uuid_parses js) (json_parses js) (os 0) vd d (readdir 0) of
        (d1, Inl e) \<Rightarrow> (d1, Inl e)
      | (d1, Inr leaves) \<Rightarrow>
          (case ensure_manifest js os vd d1 readdir leaves of
             (d2, Inl e) \<Rightarrow> (d2, Inl e)
           | (d2, Inr leaves) \<Rightarrow>
               (case persist_materialized_slots js os 3 vd d2 (present_words leaves) of
                  (d3, Inl e) \<Rightarrow> (d3, Inl e)
                | (d3, Inr manifest) \<Rightarrow>
                    (let (slots, unknown) =
                       load_leaves js os 131 vd d3 leaves (initial_slots manifest)
                         (replicate MAX_TOURNAMENT_RECORDS False) 0 in
                     (d3, Inr \<lparr>ts_directory = vd, ts_slots = slots,
                        ts_unknown_corrupt_records = unknown, ts_poisoned = False\<rparr>)))))"

section \<open>Allocation\<close>

definition key_for :: "u16 \<Rightarrow> tournament_record \<Rightarrow> tournament_key" where
  "key_for slot r = \<lparr>key_slot = slot, key_generation = st_generation (tr_status r),
     key_tournament_uuid = st_tournament_uuid (tr_status r)\<rparr>"

fun slot_is_live :: "slot_state \<Rightarrow> bool" where
  "slot_is_live (Vacant i) \<longleftrightarrow> False"
| "slot_is_live CorruptSlot \<longleftrightarrow> True"
| "slot_is_live (Valid r i) \<longleftrightarrow> \<not> is_positive_terminal r"

text \<open>The count of a list of at most 1024 slots and an \<open>usize\<close> counter; the sum saturates at
  \<open>2 ^ 64 - 1\<close>.\<close>

definition occupied_live_count :: "tournament_store \<Rightarrow> nat" where
  "occupied_live_count s =
     min (ts_unknown_corrupt_records s + length (filter slot_is_live (ts_slots s))) (2 ^ 64 - 1)"

fun slot_is_vacant :: "slot_state \<Rightarrow> bool" where
  "slot_is_vacant (Vacant i) \<longleftrightarrow> True"
| "slot_is_vacant _ \<longleftrightarrow> False"

fun slot_is_expired :: "u64 \<Rightarrow> slot_state \<Rightarrow> bool" where
  "slot_is_expired now_unix_ms (Valid r i) \<longleftrightarrow>
     is_positive_terminal r
     \<and> is_some_and (tr_terminal_completed_unix_ms r) (\<lambda>completed.
         saturating_add completed TERMINAL_RETENTION_MILLIS \<le> now_unix_ms)"
| "slot_is_expired now_unix_ms _ \<longleftrightarrow> False"

definition select_allocation_slot :: "tournament_store \<Rightarrow> u64 \<Rightarrow> u16 option" where
  "select_allocation_slot s now_unix_ms =
     (case (case position slot_is_vacant (ts_slots s) of
              Some i \<Rightarrow> Some i
            | None \<Rightarrow> position (slot_is_expired now_unix_ms) (ts_slots s)) of
        Some i \<Rightarrow> if i < 2 ^ 16 then Some (of_nat i) else None
      | None \<Rightarrow> None)"

fun slot_has_uuid :: "uuid \<Rightarrow> slot_state \<Rightarrow> bool" where
  "slot_has_uuid u (Valid r i) \<longleftrightarrow> st_tournament_uuid (tr_status r) = u"
| "slot_has_uuid u _ \<longleftrightarrow> False"

text \<open>What the store makes of the result of a slot write: the record and identity now on disk, or the
  error with which the slot counts as corrupt.\<close>

definition confirm_entry ::
    "u16 \<Rightarrow> tournament_slot_record stored_json evidence_result
       \<Rightarrow> (tournament_record \<times> file_identity) evidence_result" where
  "confirm_entry slot r =
     bind_res r (\<lambda>entry.
       if \<not> is_ok (slot_validate (sj_value entry) slot) then Inl Corrupt
       else (case sr_record (sj_value entry) of
               None \<Rightarrow> Inl Corrupt
             | Some record \<Rightarrow> Inr (record, sj_identity entry)))"

definition set_slot :: "tournament_store \<Rightarrow> u16 \<Rightarrow> slot_state \<Rightarrow> tournament_store" where
  "set_slot s slot st = s\<lparr>ts_slots := (ts_slots s)[unat slot := st]\<rparr>"

definition replace_slot ::
    "codecs \<Rightarrow> os_answers \<Rightarrow> tournament_store \<Rightarrow> directory \<Rightarrow> leaf \<Rightarrow> file_identity \<Rightarrow> tournament_slot_record
       \<Rightarrow> directory \<times> tournament_slot_record stored_json evidence_result" where
  "replace_slot js os s d leaf identity envelope =
     atomic_replace_json (slot_to_vec js) (slot_from_slice js) os (ts_directory s) d leaf identity envelope
       MAX_SPECULATION_JSON_BYTES"

definition create_slot ::
    "codecs \<Rightarrow> os_answers \<Rightarrow> tournament_store \<Rightarrow> directory \<Rightarrow> leaf \<Rightarrow> tournament_slot_record
       \<Rightarrow> directory \<times> tournament_slot_record stored_json evidence_result" where
  "create_slot js os s d leaf envelope =
     atomic_create_json (slot_to_vec js) (slot_from_slice js) os (ts_directory s) d leaf envelope
       MAX_SPECULATION_JSON_BYTES"

definition write_slot_entry ::
    "codecs \<Rightarrow> os_answers \<Rightarrow> tournament_store \<Rightarrow> directory \<Rightarrow> leaf \<Rightarrow> slot_state \<Rightarrow> tournament_slot_record
       \<Rightarrow> directory \<times> tournament_slot_record stored_json evidence_result" where
  "write_slot_entry js os s d leaf st envelope =
     (case st of
        Vacant (Some identity) \<Rightarrow> replace_slot js os s d leaf identity envelope
      | Vacant None \<Rightarrow> create_slot js os s d leaf envelope
      | Valid record identity \<Rightarrow> replace_slot js os s d leaf identity envelope
      | CorruptSlot \<Rightarrow> (d, Inl Capacity))"

text \<open>\<open>'a outcome\<close>: the store and the directory afterwards, and the result.\<close>

type_synonym 'a outcome = "tournament_store \<times> directory \<times> 'a evidence_result"

definition allocate_in_slot ::
    "codecs \<Rightarrow> os_script \<Rightarrow> tournament_store \<Rightarrow> directory \<Rightarrow> tournament_record \<Rightarrow> u16 \<Rightarrow> leaf
       \<Rightarrow> tournament_key outcome" where
  "allocate_in_slot js os s d record slot leaf =
     (let st = ts_slots s ! unat slot;
          (d1, r) = write_slot_entry js (os 0) s d leaf st (slot_occupied slot record) in
      case confirm_entry slot r of
        Inl e \<Rightarrow> (set_slot s slot CorruptSlot, d1, Inl e)
      | Inr (stored_record, identity) \<Rightarrow>
          (let (d2, persisted) =
             (if st = Vacant None
              then (let (d2, r) = persist_materialized_slots js os 1 (ts_directory s) d1
                      (mark_materialized_word (replicate STORE_MATERIALIZATION_WORDS 0) slot)
                    in (d2, bind_res r (\<lambda>_. Inr ())))
              else (d1, Inr ())) in
           case persisted of
             Inl e \<Rightarrow> (set_slot s slot CorruptSlot, d2, Inl e)
           | Inr _ \<Rightarrow>
               (set_slot s slot (Valid stored_record identity), d2, Inr (key_for slot record))))"

definition allocate_prepared ::
    "codecs \<Rightarrow> os_script \<Rightarrow> tournament_store \<Rightarrow> directory \<Rightarrow> tournament_record \<Rightarrow> u64
       \<Rightarrow> tournament_key outcome" where
  "allocate_prepared js os s d record now_unix_ms =
     (case record_validate record of
        Inl e \<Rightarrow> (s, d, Inl e)
      | Inr _ \<Rightarrow>
          if st_phase (tr_status record) \<noteq> Prepared \<or> is_some (tr_terminal_completed_unix_ms record)
          then (s, d, Inl Corrupt)
          else if ts_poisoned s then (s, d, Inl Poisoned)
          else if list_ex (slot_has_uuid (st_tournament_uuid (tr_status record))) (ts_slots s)
          then (s, d, Inl AlreadyExists)
          else if occupied_live_count s \<ge> MAX_LIVE_TOURNAMENTS then (s, d, Inl Capacity)
          else (case select_allocation_slot s now_unix_ms of
                  None \<Rightarrow> (s, d, Inl Capacity)
                | Some slot \<Rightarrow>
                    (case slot_leaf slot of
                       Inl e \<Rightarrow> (s, d, Inl e)
                     | Inr leaf \<Rightarrow>
                         if ts_slots s ! unat slot = CorruptSlot then (s, d, Inl Capacity)
                         else allocate_in_slot js os s d record slot leaf)))"

section \<open>Writing\<close>

definition kind_allows :: "tournament_write_kind \<Rightarrow> tournament_record \<Rightarrow> tournament_record \<Rightarrow> bool" where
  "kind_allows kind current next =
     (case kind of
        LivePhaseTransition \<Rightarrow>
          tr_restart_prior_phase current = tr_restart_prior_phase next
          \<and> is_legal_transition (st_phase (tr_status current)) (st_phase (tr_status next))
      | SamePhaseEvidence \<Rightarrow>
          st_phase (tr_status current) = st_phase (tr_status next)
          \<and> tr_restart_prior_phase current = tr_restart_prior_phase next
      | OldBootAbsence current_boot_uuid \<Rightarrow>
          \<not> is_nil current_boot_uuid
          \<and> tr_boot_uuid current \<noteq> current_boot_uuid
          \<and> st_phase (tr_status current) = RollbackPending
          \<and> st_phase (tr_status next) = RollbackPending
          \<and> tr_restart_prior_phase current = tr_restart_prior_phase next
          \<and> tr_managed_owners current = tr_managed_owners next
          \<and> cc_lifecycle (fst (tr_cgroups next)) = CRemoved
          \<and> cc_lifecycle (snd (tr_cgroups next)) = CRemoved
          \<and> tc_lifecycle (tr_tournament_cgroup next) = TRemoved
          \<and> cleanup_complete (cleanup (fst (st_candidates (tr_status next))))
          \<and> cleanup_complete (cleanup (snd (st_candidates (tr_status next)))))"

fun is_old_boot_absence :: "tournament_write_kind \<Rightarrow> bool" where
  "is_old_boot_absence (OldBootAbsence u) \<longleftrightarrow> True"
| "is_old_boot_absence _ \<longleftrightarrow> False"

definition write_allowed ::
    "tournament_key \<Rightarrow> u64 \<Rightarrow> tournament_record \<Rightarrow> tournament_record \<Rightarrow> tournament_write_kind \<Rightarrow> bool" where
  "write_allowed key expected_generation current next kind \<longleftrightarrow>
     key_tournament_uuid key = st_tournament_uuid (tr_status current)
     \<and> key_generation key = expected_generation
     \<and> st_generation (tr_status current) = expected_generation
     \<and> checked_add expected_generation 1 = Some (st_generation (tr_status next))
     \<and> immutable_identity_matches current next
     \<and> kind_allows kind current next
     \<and> public_evidence_progresses_to current next (kind = SamePhaseEvidence)
         (kind = LivePhaseTransition \<and> is_rollback_only (st_phase (tr_status next)))
     \<and> (is_old_boot_absence kind
        \<or> tcl_is_legal_transition (tc_lifecycle (tr_tournament_cgroup current))
            (tc_lifecycle (tr_tournament_cgroup next)))
     \<and> (is_old_boot_absence kind
        \<or> lifecycle_is_legal_transition (cc_lifecycle (fst (tr_cgroups current)))
            (cc_lifecycle (fst (tr_cgroups next)))
          \<and> lifecycle_is_legal_transition (cc_lifecycle (snd (tr_cgroups current)))
            (cc_lifecycle (snd (tr_cgroups next))))"

text \<open>The common end of the two writing operations: replace the slot file and install what was
  stored, or mark the slot corrupt.\<close>

definition install_record ::
    "codecs \<Rightarrow> os_answers \<Rightarrow> tournament_store \<Rightarrow> directory \<Rightarrow> u16 \<Rightarrow> file_identity \<Rightarrow> tournament_record
       \<Rightarrow> stored_tournament_update outcome" where
  "install_record js os s d slot identity next =
     (case slot_leaf slot of
        Inl e \<Rightarrow> (s, d, Inl e)
      | Inr leaf \<Rightarrow>
          (let (d', r) = replace_slot js os s d leaf identity (slot_occupied slot next) in
           case confirm_entry slot r of
             Inl e \<Rightarrow> (set_slot s slot CorruptSlot, d', Inl e)
           | Inr (stored_record, identity') \<Rightarrow>
               (set_slot s slot (Valid stored_record identity'), d',
                Inr \<lparr>su_key = key_for slot stored_record, su_record = stored_record\<rparr>)))"

definition store_write ::
    "codecs \<Rightarrow> os_answers \<Rightarrow> tournament_store \<Rightarrow> directory \<Rightarrow> tournament_key \<Rightarrow> u64 \<Rightarrow> tournament_record
       \<Rightarrow> tournament_write_kind \<Rightarrow> stored_tournament_update outcome" where
  "store_write js os s d key expected_generation next kind =
     (case record_validate next of
        Inl e \<Rightarrow> (s, d, Inl e)
      | Inr _ \<Rightarrow>
          if ts_poisoned s then (s, d, Inl Poisoned)
          else if unat (key_slot key) \<ge> length (ts_slots s) then (s, d, Inl GenerationMismatch)
          else (case ts_slots s ! unat (key_slot key) of
                  Valid current identity \<Rightarrow>
                    if \<not> write_allowed key expected_generation current next kind
                    then (s, d, Inl GenerationMismatch)
                    else install_record js os s d (key_slot key) identity next
                | _ \<Rightarrow> (s, d, Inl GenerationMismatch)))"

definition compare_and_swap ::
    "codecs \<Rightarrow> os_answers \<Rightarrow> tournament_store \<Rightarrow> directory \<Rightarrow> tournament_key \<Rightarrow> u64 \<Rightarrow> tournament_record
       \<Rightarrow> tournament_key outcome" where
  "compare_and_swap js os s d key expected_generation next =
     (let (s', d', r) = store_write js os s d key expected_generation next LivePhaseTransition in
      (s', d', bind_res r (\<lambda>stored. Inr (su_key stored))))"

section \<open>Reading\<close>

definition load_by_uuid ::
    "codecs \<Rightarrow> os_answers \<Rightarrow> tournament_store \<Rightarrow> directory \<Rightarrow> uuid
       \<Rightarrow> tournament_store \<times> tournament_record option evidence_result" where
  "load_by_uuid js os s d uid =
     (if ts_poisoned s then (s, Inl Poisoned)
      else (case position (slot_has_uuid uid) (ts_slots s) of
              None \<Rightarrow> (s, Inr None)
            | Some i \<Rightarrow>
                (case slot_leaf (of_nat i) of
                   Inl e \<Rightarrow> (s, Inl e)
                 | Inr leaf \<Rightarrow>
                     (case (ts_slots s ! i, read_json (slot_from_slice js) os (ts_directory s) d leaf
                              MAX_SPECULATION_JSON_BYTES) of
                        (Valid record identity, Inr entry) \<Rightarrow>
                          if sj_identity entry = identity
                             \<and> is_ok (slot_validate (sj_value entry) (of_nat i))
                             \<and> sr_record (sj_value entry) = Some record
                          then (s, Inr (sr_record (sj_value entry)))
                          else (set_slot s (of_nat i) CorruptSlot, Inl Corrupt)
                      | _ \<Rightarrow> (set_slot s (of_nat i) CorruptSlot, Inl Corrupt)))))"

fun recovery_of_slot :: "u16 \<Rightarrow> slot_state \<Rightarrow> tournament_recovery_record list" where
  "recovery_of_slot slot (Vacant i) = []"
| "recovery_of_slot slot (Valid r i) = [RecoveryValid (key_for slot r) r]"
| "recovery_of_slot slot CorruptSlot = [RecoveryCorrupt (Some slot)]"

definition scan_recovery :: "tournament_store \<Rightarrow> tournament_recovery_record list evidence_result" where
  "scan_recovery s =
     (if ts_poisoned s then Inl Poisoned
      else Inr (concat (map (\<lambda>i. recovery_of_slot (of_nat i) (ts_slots s ! i)) [0..<length (ts_slots s)])
                @ replicate (ts_unknown_corrupt_records s) (RecoveryCorrupt None)))"

section \<open>Restart normalisation\<close>

definition restart_record :: "tournament_record \<Rightarrow> u64 \<Rightarrow> tournament_record" where
  "restart_record current generation =
     (let s = tr_status current in
      current\<lparr>tr_restart_prior_phase := Some (st_phase s),
        tr_status := s\<lparr>st_generation := generation, st_phase := RollbackRequired,
          st_rollback_required := True, st_selected_index := None,
          st_reason_code := Some (if st_phase s = DecisionUncertain then DecisionUncertainAfterRestart
                                  else ContainmentEvidenceUnavailable)\<rparr>\<rparr>)"

definition write_restart_normalization ::
    "codecs \<Rightarrow> os_answers \<Rightarrow> tournament_store \<Rightarrow> directory \<Rightarrow> tournament_key \<Rightarrow> u64 \<Rightarrow> tournament_record
       \<Rightarrow> tournament_record \<Rightarrow> stored_tournament_update outcome" where
  "write_restart_normalization js os s d key expected_generation current_snapshot next =
     (case record_validate next of
        Inl e \<Rightarrow> (s, d, Inl e)
      | Inr _ \<Rightarrow>
          if ts_poisoned s then (s, d, Inl Poisoned)
          else if unat (key_slot key) \<ge> length (ts_slots s) then (s, d, Inl GenerationMismatch)
          else (case ts_slots s ! unat (key_slot key) of
                  Valid current identity \<Rightarrow>
                    if current \<noteq> current_snapshot
                       \<or> key_tournament_uuid key \<noteq> st_tournament_uuid (tr_status current)
                       \<or> key_generation key \<noteq> expected_generation
                       \<or> st_generation (tr_status current) \<noteq> expected_generation
                       \<or> checked_add expected_generation 1 \<noteq> Some (st_generation (tr_status next))
                       \<or> \<not> immutable_identity_matches current next
                       \<or> tr_restart_prior_phase next \<noteq> Some (st_phase (tr_status current))
                       \<or> st_phase (tr_status next) \<noteq> RollbackRequired
                       \<or> \<not> st_rollback_required (tr_status next)
                       \<or> is_some (st_selected_index (tr_status next))
                       \<or> is_some (tr_terminal_completed_unix_ms current)
                    then (s, d, Inl GenerationMismatch)
                    else install_record js os s d (key_slot key) identity next
                | _ \<Rightarrow> (s, d, Inl GenerationMismatch)))"

definition store_normalize_after_daemon_restart ::
    "codecs \<Rightarrow> os_script \<Rightarrow> tournament_store \<Rightarrow> directory \<Rightarrow> tournament_key \<Rightarrow> u64 \<Rightarrow> uuid
       \<Rightarrow> stored_tournament_update outcome" where
  "store_normalize_after_daemon_restart js os s d key expected_generation current_daemon_instance_uuid =
     (if is_nil current_daemon_instance_uuid then (s, d, Inl Corrupt)
      else
        (let (s, loaded) = load_by_uuid js (os 0) s d (key_tournament_uuid key) in
         case bind_res loaded (\<lambda>current. ok_or current GenerationMismatch) of
           Inl e \<Rightarrow> (s, d, Inl e)
         | Inr current \<Rightarrow>
             if key_generation key \<noteq> expected_generation
                \<or> st_generation (tr_status current) \<noteq> expected_generation
                \<or> st_daemon_instance_uuid (tr_status current) = current_daemon_instance_uuid
             then (s, d, Inl GenerationMismatch)
             else if status_is_terminal (tr_status current)
                \<or> st_phase (tr_status current) = RollbackRequired
             then (s, d, Inr \<lparr>su_key = key_for (key_slot key) current, su_record = current\<rparr>)
             else if is_some (tr_restart_prior_phase current) then (s, d, Inl Corrupt)
             else (case checked_add expected_generation 1 of
                     None \<Rightarrow> (s, d, Inl GenerationMismatch)
                   | Some generation \<Rightarrow>
                       write_restart_normalization js (os 1) s d key expected_generation current
                         (restart_record current generation))))"

section \<open>Slot names\<close>

lemma decimal_digit_char: "d < 10 \<Longrightarrow> (of_char (decimal_digit d) :: nat) = 48 + d"
  by (simp add: decimal_digit_def)

lemma decimal_digit_value [simp]:
  "d < 10 \<Longrightarrow> digit_value (decimal_digit d) = d" "d < 10 \<Longrightarrow> is_ascii_digit (decimal_digit d)"
  by (simp_all add: digit_value_def is_ascii_digit_def decimal_digit_char)

lemma ascii_digit_decimal:
  assumes "is_ascii_digit c"
  shows "c = decimal_digit (digit_value c)" "digit_value c < 10"
proof -
  have "(48 + (of_char c - 48) :: nat) = of_char c" using assms by (simp add: is_ascii_digit_def)
  then show "c = decimal_digit (digit_value c)" by (simp add: decimal_digit_def digit_value_def)
  show "digit_value c < 10" using assms unfolding is_ascii_digit_def digit_value_def by linarith
qed

lemma four_digits_nested:
  "four_digits n = [decimal_digit (n div 10 div 10 div 10 mod 10), decimal_digit (n div 10 div 10 mod 10),
     decimal_digit (n div 10 mod 10), decimal_digit (n mod 10)]"
  by (simp add: four_digits_def div_mult2_eq [symmetric])

lemma parse_four_digits:
  assumes "n < 10000"
  shows "parse_decimal (four_digits n) = n"
proof -
  have "n div 10 div 10 div 10 < 10" using assms by (simp add: div_mult2_eq [symmetric])
  then show ?thesis by (simp add: parse_decimal_def four_digits_nested)
qed

lemma four_digits_parse:
  assumes "length ds = 4" "list_all is_ascii_digit ds"
  shows "four_digits (parse_decimal ds) = ds"
proof -
  from assms(1) obtain a b c d where ds: "ds = [a, b, c, d]"
    by (auto simp: length_Suc_conv eval_nat_numeral)
  have dig: "is_ascii_digit a" "is_ascii_digit b" "is_ascii_digit c" "is_ascii_digit d"
    using assms(2) ds by simp_all
  have digit: "(10 * m + digit_value x) div 10 = m" "(10 * m + digit_value x) mod 10 = digit_value x"
    if "is_ascii_digit x" for m x
    using ascii_digit_decimal(2) [OF that] by simp_all
  have "four_digits (10 * (10 * (10 * (10 * 0 + digit_value a) + digit_value b) + digit_value c) + digit_value d)
      = ds"
    unfolding four_digits_nested digit [OF dig(1)] digit [OF dig(2)] digit [OF dig(3)] digit [OF dig(4)]
    using dig ascii_digit_decimal(1) ds by simp
  then show ?thesis by (simp add: parse_decimal_def ds)
qed

lemma length_four_digits [simp]: "length (four_digits n) = 4"
  by (simp add: four_digits_def)

lemma four_digits_ascii [simp]: "list_all is_ascii_digit (four_digits n)"
  by (simp add: four_digits_def)

lemma parse_slot_leaf_iff: "parse_slot_leaf leaf = Some slot \<longleftrightarrow> slot_leaf slot = Inr leaf"
proof
  assume p: "parse_slot_leaf leaf = Some slot"
  define rest where "rest = drop 5 leaf"
  define n where "n = length rest - 5"
  define digits where "digits = take n rest"
  from p have *: "take 5 leaf = ''slot-''" "drop n rest = ''.json''"
    "length digits = 4" "list_all is_ascii_digit digits" "slot = of_nat (parse_decimal digits)"
    "unat slot < MAX_TOURNAMENT_RECORDS"
    by (auto simp: parse_slot_leaf_def Let_def rest_def n_def digits_def split: if_splits)
  have leaf: "leaf = ''slot-'' @ digits @ ''.json''"
    by (metis * append_take_drop_id digits_def rest_def)
  have four: "four_digits (parse_decimal digits) = digits" by (rule four_digits_parse [OF *(3,4)])
  have "parse_decimal digits < 10000"
  proof -
    from *(3) obtain a b c d where ds: "digits = [a, b, c, d]" by (auto simp: length_Suc_conv eval_nat_numeral)
    then show ?thesis
      using *(4) ascii_digit_decimal(2) [of a] ascii_digit_decimal(2) [of b] ascii_digit_decimal(2) [of c]
        ascii_digit_decimal(2) [of d] by (simp add: parse_decimal_def)
  qed
  then have "unat slot = parse_decimal digits" using *(5) by (simp add: unat_of_nat)
  with leaf four *(6) show "slot_leaf slot = Inr leaf" by (simp add: slot_leaf_def)
next
  assume s: "slot_leaf slot = Inr leaf"
  then have lt: "unat slot < MAX_TOURNAMENT_RECORDS" and leaf: "leaf = ''slot-'' @ four_digits (unat slot) @ ''.json''"
    by (auto simp: slot_leaf_def split: if_splits)
  then show "parse_slot_leaf leaf = Some slot"
    by (simp add: parse_slot_leaf_def parse_four_digits MAX_TOURNAMENT_RECORDS_def)
qed

lemma slot_leaf_ok: "unat slot < MAX_TOURNAMENT_RECORDS \<Longrightarrow> \<exists>leaf. slot_leaf slot = Inr leaf"
  by (simp add: slot_leaf_def)

lemma slot_leaf_bound: "slot_leaf slot = Inr leaf \<Longrightarrow> unat slot < MAX_TOURNAMENT_RECORDS"
  by (auto simp: slot_leaf_def split: if_splits)

lemma slot_leaf_not_special:
  assumes "slot_leaf slot = Inr leaf"
  shows "\<not> temp_leaf_name leaf" "leaf \<noteq> STORE_MANIFEST_LEAF"
  using assms
  by (auto simp: slot_leaf_def temp_leaf_name_def TRANSACTION_TEMP_PREFIX_def STORE_MANIFEST_LEAF_def
      split: if_splits)

lemma manifest_not_temp [simp]: "\<not> temp_leaf_name STORE_MANIFEST_LEAF"
  by (simp add: temp_leaf_name_def TRANSACTION_TEMP_PREFIX_def STORE_MANIFEST_LEAF_def)

lemma parse_manifest_leaf [simp]: "parse_slot_leaf STORE_MANIFEST_LEAF = None"
  by (simp add: parse_slot_leaf_def STORE_MANIFEST_LEAF_def)

section \<open>Memory and disk\<close>

text \<open>What the store believes about a slot, as the identity and the contents of its file.\<close>

fun slot_belief :: "u16 \<Rightarrow> slot_state \<Rightarrow> (file_identity \<times> tournament_slot_record) option" where
  "slot_belief slot (Valid r i) = Some (i, slot_occupied slot r)"
| "slot_belief slot (Vacant (Some i)) = Some (i, slot_vacant slot)"
| "slot_belief slot (Vacant None) = None"
| "slot_belief slot CorruptSlot = None"

definition store_memory :: "tournament_store \<Rightarrow> leaf \<rightharpoonup> file_identity \<times> tournament_slot_record" where
  "store_memory s leaf =
     (case parse_slot_leaf leaf of Some slot \<Rightarrow> slot_belief slot (ts_slots s ! unat slot) | None \<Rightarrow> None)"

fun slot_record_valid :: "slot_state \<Rightarrow> bool" where
  "slot_record_valid (Valid r i) \<longleftrightarrow> record_validate r = Inr ()"
| "slot_record_valid _ \<longleftrightarrow> True"

definition store_ok :: "u32 \<Rightarrow> codecs \<Rightarrow> tournament_store \<Rightarrow> directory \<Rightarrow> bool" where
  "store_ok euid js s d \<longleftrightarrow>
     length (ts_slots s) = MAX_TOURNAMENT_RECORDS
     \<and> list_all slot_record_valid (ts_slots s)
     \<and> agrees (holds_bytes euid) (slot_from_slice js) (store_memory s) d"

definition codecs_ok :: "codecs \<Rightarrow> bool" where
  "codecs_ok js \<longleftrightarrow>
     (\<forall>v bytes. slot_to_vec js v = Some bytes \<longrightarrow> slot_from_slice js bytes = Some v)
     \<and> (\<forall>v bytes. manifest_to_vec js v = Some bytes \<longrightarrow> manifest_from_slice js bytes = Some v)"

lemma store_memory_manifest [simp]: "store_memory s STORE_MANIFEST_LEAF = None"
  by (simp add: store_memory_def)

lemma store_memory_dom: "leaf \<in> dom (store_memory s) \<Longrightarrow> \<not> temp_leaf_name leaf"
  by (auto simp: store_memory_def parse_slot_leaf_iff dest: slot_leaf_not_special split: option.splits)

lemma store_memory_set_slot:
  assumes "slot_leaf slot = Inr leaf" "length (ts_slots s) = MAX_TOURNAMENT_RECORDS"
  shows "store_memory (set_slot s slot st) = (store_memory s)(leaf := slot_belief slot st)"
proof
  fix l
  have slot: "unat slot < length (ts_slots s)" using slot_leaf_bound [OF assms(1)] assms(2) by simp
  have leaf: "parse_slot_leaf leaf = Some slot" using assms(1) by (simp add: parse_slot_leaf_iff)
  show "store_memory (set_slot s slot st) l = ((store_memory s)(leaf := slot_belief slot st)) l"
  proof (cases "parse_slot_leaf l = Some slot")
    case True
    then have "l = leaf" using leaf by (simp add: parse_slot_leaf_iff)
    with leaf slot show ?thesis by (simp add: store_memory_def set_slot_def)
  next
    case False
    then have "l \<noteq> leaf" using leaf by auto
    with False show ?thesis
      by (auto simp: store_memory_def set_slot_def word_unat_eq_iff split: option.splits)
  qed
qed

lemma store_ok_set_slot:
  assumes "store_ok euid js s d" and "slot_leaf slot = Inr leaf" and "slot_record_valid st"
    and "agrees (holds_bytes euid) (slot_from_slice js) ((store_memory s)(leaf := slot_belief slot st)) d'"
  shows "store_ok euid js (set_slot s slot st) d'"
proof -
  have "length (ts_slots s) = MAX_TOURNAMENT_RECORDS" "list_all slot_record_valid (ts_slots s)"
    using assms(1) by (auto simp: store_ok_def)
  moreover from this assms(3) have "list_all slot_record_valid ((ts_slots s)[unat slot := st])"
    by (cases "unat slot < length (ts_slots s)") (auto simp: list_all_length nth_list_update)
  ultimately show ?thesis
    using assms(4) by (simp add: store_ok_def store_memory_set_slot [OF assms(2)])
      (simp add: set_slot_def)
qed

lemma slot_validate_belief:
  "is_ok (slot_validate e slot) \<Longrightarrow>
     e = (case sr_record e of Some r \<Rightarrow> slot_occupied slot r | None \<Rightarrow> slot_vacant slot)
     \<and> (\<forall>r. sr_record e = Some r \<longrightarrow> record_validate r = Inr ())"
  by (cases e) (auto simp: slot_validate_def slot_occupied_def slot_vacant_def is_ok_unit
      split: option.splits if_splits tournament_slot_schema.splits)

lemma slot_validate_occupied:
  "is_ok (slot_validate (slot_occupied slot r) slot) \<longleftrightarrow> record_validate r = Inr ()"
  by (auto simp: slot_validate_def slot_occupied_def is_ok_unit)

lemma os_euid_same [simp]: "os\<lparr>os_euid := os_euid os\<rparr> = os"
  by (cases os) simp

lemma replace_slot_agrees:
  assumes "store_ok (os_euid os) js s d" and "slot_leaf slot = Inr leaf"
    and "replace_slot js os s d leaf e v = (d', r)"
  shows "agrees (holds_bytes (os_euid os)) (slot_from_slice js) ((store_memory s)(leaf := None)) d'"
    and "r = Inr st \<Longrightarrow> agrees (holds_bytes (os_euid os)) (slot_from_slice js)
      ((store_memory s)(leaf \<mapsto> (sj_identity st, sj_value st))) d'"
proof -
  have a: "agrees (holds_bytes (os_euid os)) (slot_from_slice js) (store_memory s) d"
    using assms(1) by (simp add: store_ok_def)
  have dom: "\<forall>k\<in>dom (store_memory s). \<not> temp_leaf_name k" using store_memory_dom by blast
  have run: "atomic_replace_json (slot_to_vec js) (slot_from_slice js) (os\<lparr>os_euid := os_euid os\<rparr>)
      (ts_directory s) d leaf e v MAX_SPECULATION_JSON_BYTES = (d', r)"
    using assms(3) by (simp add: replace_slot_def)
  show "agrees (holds_bytes (os_euid os)) (slot_from_slice js) ((store_memory s)(leaf := None)) d'"
    by (rule fs.agrees_replace_any [OF a run slot_leaf_not_special(1) [OF assms(2)] dom])
  assume "r = Inr st"
  then show "agrees (holds_bytes (os_euid os)) (slot_from_slice js)
      ((store_memory s)(leaf \<mapsto> (sj_identity st, sj_value st))) d'"
    using fs.agrees_replace [OF a _ slot_leaf_not_special(1) [OF assms(2)] dom] run by blast
qed

lemma create_slot_agrees:
  assumes "store_ok (os_euid os) js s d" and "create_slot js os s d leaf v = (d', r)"
  shows "agrees (holds_bytes (os_euid os)) (slot_from_slice js) ((store_memory s)(leaf := None)) d'"
    and "r = Inr st \<Longrightarrow> agrees (holds_bytes (os_euid os)) (slot_from_slice js)
      ((store_memory s)(leaf \<mapsto> (sj_identity st, sj_value st))) d'"
proof -
  have a: "agrees (holds_bytes (os_euid os)) (slot_from_slice js) (store_memory s) d"
    using assms(1) by (simp add: store_ok_def)
  have run: "atomic_create_json (slot_to_vec js) (slot_from_slice js) (os\<lparr>os_euid := os_euid os\<rparr>)
      (ts_directory s) d leaf v MAX_SPECULATION_JSON_BYTES = (d', r)"
    using assms(2) by (simp add: create_slot_def)
  show "agrees (holds_bytes (os_euid os)) (slot_from_slice js) ((store_memory s)(leaf := None)) d'"
    by (rule fs.agrees_create_any [OF a run])
  assume "r = Inr st"
  then show "agrees (holds_bytes (os_euid os)) (slot_from_slice js)
      ((store_memory s)(leaf \<mapsto> (sj_identity st, sj_value st))) d'"
    using fs.agrees_create [OF a] run by blast
qed

lemma write_slot_entry_agrees:
  assumes "store_ok (os_euid os) js s d" and "slot_leaf slot = Inr leaf"
    and "write_slot_entry js os s d leaf st v = (d', r)"
  shows "agrees (holds_bytes (os_euid os)) (slot_from_slice js) ((store_memory s)(leaf := None)) d'"
    and "r = Inr e \<Longrightarrow> agrees (holds_bytes (os_euid os)) (slot_from_slice js)
      ((store_memory s)(leaf \<mapsto> (sj_identity e, sj_value e))) d'"
proof -
  have corrupt: "agrees (holds_bytes (os_euid os)) (slot_from_slice js) ((store_memory s)(leaf := None)) d"
    using assms(1) by (auto simp: store_ok_def agrees_def)
  show "agrees (holds_bytes (os_euid os)) (slot_from_slice js) ((store_memory s)(leaf := None)) d'"
    using assms(3) corrupt replace_slot_agrees(1) [OF assms(1,2)] create_slot_agrees(1) [OF assms(1)]
    by (auto simp: write_slot_entry_def split: slot_state.splits option.splits)
  show "agrees (holds_bytes (os_euid os)) (slot_from_slice js)
      ((store_memory s)(leaf \<mapsto> (sj_identity e, sj_value e))) d'" if "r = Inr e"
    using assms(3) that replace_slot_agrees(2) [OF assms(1,2)] create_slot_agrees(2) [OF assms(1)]
    by (auto simp: write_slot_entry_def split: slot_state.splits option.splits)
qed

lemma confirm_entry_Inr:
  "confirm_entry slot r = Inr (record, i) \<longleftrightarrow>
     r = Inr \<lparr>sj_value = slot_occupied slot record, sj_identity = i\<rparr> \<and> record_validate record = Inr ()"
proof
  assume "confirm_entry slot r = Inr (record, i)"
  then obtain e where "r = Inr e" "is_ok (slot_validate (sj_value e) slot)" "sr_record (sj_value e) = Some record"
    "sj_identity e = i"
    by (auto simp: confirm_entry_def split: if_splits option.splits)
  with slot_validate_belief [of "sj_value e" slot]
  show "r = Inr \<lparr>sj_value = slot_occupied slot record, sj_identity = i\<rparr> \<and> record_validate record = Inr ()"
    by (cases e) auto
next
  assume "r = Inr \<lparr>sj_value = slot_occupied slot record, sj_identity = i\<rparr> \<and> record_validate record = Inr ()"
  then show "confirm_entry slot r = Inr (record, i)"
    by (simp add: confirm_entry_def slot_validate_occupied) (simp add: slot_occupied_def)
qed

text \<open>Persisting the manifest leaves every agreement about slots as it is.\<close>

lemma persist_attempts_agrees:
  assumes "\<And>k. os_euid (os k) = euid" and "mem STORE_MANIFEST_LEAF = None"
    and "\<forall>k\<in>dom mem. \<not> temp_leaf_name k"
  shows "agrees (holds_bytes euid) dec mem d \<Longrightarrow> persist_attempts js os vd present n attempts d = (d', r) \<Longrightarrow>
    agrees (holds_bytes euid) dec mem d'"
proof (induction attempts arbitrary: n d d')
  case (Suc attempts)
  show ?case
  proof (cases "\<exists>current next. read_json (manifest_from_slice js) (os n) vd d STORE_MANIFEST_LEAF
      MAX_SPECULATION_JSON_BYTES = Inr current \<and> manifest_validate (sj_value current) = Inr ()
      \<and> merge_materialized (sj_value current) present = (next, True)")
    case False
    then show ?thesis using Suc.prems by (auto simp: split: sum.splits prod.splits if_splits)
  next
    case True
    then obtain current nxt where c: "read_json (manifest_from_slice js) (os n) vd d STORE_MANIFEST_LEAF
      MAX_SPECULATION_JSON_BYTES = Inr current" "manifest_validate (sj_value current) = Inr ()"
      "merge_materialized (sj_value current) present = (nxt, True)" by blast
    obtain d1 r1 where run: "atomic_replace_json (manifest_to_vec js) (manifest_from_slice js) (os (Suc n)) vd d
        STORE_MANIFEST_LEAF (sj_identity current) nxt MAX_SPECULATION_JSON_BYTES = (d1, r1)"
      by (cases "atomic_replace_json (manifest_to_vec js) (manifest_from_slice js) (os (Suc n)) vd d
        STORE_MANIFEST_LEAF (sj_identity current) nxt MAX_SPECULATION_JSON_BYTES") auto
    have run': "atomic_replace_json (manifest_to_vec js) (manifest_from_slice js)
        ((os (Suc n))\<lparr>os_euid := euid\<rparr>) vd d STORE_MANIFEST_LEAF (sj_identity current) nxt
        MAX_SPECULATION_JSON_BYTES = (d1, r1)"
      using run assms(1) [of "Suc n"] by auto
    have "agrees (holds_bytes euid) dec (mem(STORE_MANIFEST_LEAF := None)) d1"
      by (rule fs.agrees_replace_any [OF Suc.prems(1) run' manifest_not_temp assms(3)])
    then have d1: "agrees (holds_bytes euid) dec mem d1" using assms(2) by (simp add: fun_upd_idem)
    show ?thesis
    proof (cases "r1 = Inl Stale")
      case True
      then have "persist_attempts js os vd present (n + 2) attempts d1 = (d', r)"
        using Suc.prems(2) c run by simp
      from Suc.IH [OF d1 this] show ?thesis .
    next
      case False
      then have "d' = d1" using Suc.prems(2) c run by (cases r1) auto
      with d1 show ?thesis by simp
    qed
  qed
qed auto

lemma agrees_forget: "agrees holds dec (mem(l \<mapsto> x)) d \<Longrightarrow> agrees holds dec (mem(l := None)) d"
  by (auto simp: agrees_def split: if_splits)

lemma store_ok_corrupt:
  assumes "store_ok euid js s d" and "slot_leaf slot = Inr leaf"
    and "agrees (holds_bytes euid) (slot_from_slice js) ((store_memory s)(leaf := None)) d'"
  shows "store_ok euid js (set_slot s slot CorruptSlot) d'"
  by (rule store_ok_set_slot [OF assms(1,2)]) (simp_all add: assms(3))

lemma store_ok_valid:
  assumes "store_ok euid js s d" and "slot_leaf slot = Inr leaf" and "record_validate r = Inr ()"
    and "agrees (holds_bytes euid) (slot_from_slice js) ((store_memory s)(leaf \<mapsto> (i, slot_occupied slot r))) d'"
  shows "store_ok euid js (set_slot s slot (Valid r i)) d'"
  by (rule store_ok_set_slot [OF assms(1,2)]) (simp_all add: assms(3,4))

lemma store_ok_forget: "store_ok euid js s d \<Longrightarrow> slot_leaf slot = Inr leaf \<Longrightarrow>
    store_ok euid js (set_slot s slot CorruptSlot) d"
  by (rule store_ok_corrupt) (auto simp: store_ok_def agrees_def)

lemma install_record_ok:
  assumes "store_ok (os_euid os) js s d" and "install_record js os s d slot i next = (s', d', r)"
  shows "store_ok (os_euid os) js s' d'"
proof (cases "slot_leaf slot")
  case (Inl e)
  with assms show ?thesis by (simp add: install_record_def)
next
  case (Inr leaf)
  obtain d1 r1 where run: "replace_slot js os s d leaf i (slot_occupied slot next) = (d1, r1)"
    by (cases "replace_slot js os s d leaf i (slot_occupied slot next)") auto
  show ?thesis
  proof (cases "confirm_entry slot r1")
    case (Inl e)
    with assms(2) Inr run store_ok_corrupt [OF assms(1) Inr replace_slot_agrees(1) [OF assms(1) Inr run]]
    show ?thesis by (auto simp: install_record_def)
  next
    case c: (Inr p)
    obtain rec i' where p: "p = (rec, i')" by (cases p)
    with c have r1: "r1 = Inr \<lparr>sj_value = slot_occupied slot rec, sj_identity = i'\<rparr>"
      "record_validate rec = Inr ()" by (simp_all add: confirm_entry_Inr)
    with assms(2) Inr run c p store_ok_valid [OF assms(1) Inr r1(2)]
      replace_slot_agrees(2) [OF assms(1) Inr run r1(1)]
    show ?thesis by (auto simp: install_record_def)
  qed
qed

lemma store_write_ok:
  assumes "store_ok (os_euid os) js s d" and "store_write js os s d key g next kind = (s', d', r)"
  shows "store_ok (os_euid os) js s' d'"
  using assms install_record_ok [OF assms(1)]
  by (auto simp: store_write_def split: sum.splits if_splits slot_state.splits)

lemma load_by_uuid_ok:
  assumes "store_ok euid js s d" and "load_by_uuid js os s d u = (s', r)"
  shows "store_ok euid js s' d"
  using assms store_ok_forget [OF assms(1)]
  by (auto simp: load_by_uuid_def split: if_splits option.splits sum.splits slot_state.splits)

lemma write_restart_ok:
  assumes "store_ok (os_euid os) js s d"
    and "write_restart_normalization js os s d key g snapshot next = (s', d', r)"
  shows "store_ok (os_euid os) js s' d'"
  using assms install_record_ok [OF assms(1)]
  by (auto simp: write_restart_normalization_def split: sum.splits if_splits slot_state.splits)

lemma normalize_ok:
  assumes "store_ok euid js s d" and "\<And>k. os_euid (os k) = euid"
    and "store_normalize_after_daemon_restart js os s d key g u = (s', d', r)"
  shows "store_ok euid js s' d'"
proof -
  obtain s1 l where load: "load_by_uuid js (os 0) s d (key_tournament_uuid key) = (s1, l)"
    by (cases "load_by_uuid js (os 0) s d (key_tournament_uuid key)") auto
  have ok1: "store_ok euid js s1 d" by (rule load_by_uuid_ok [OF assms(1) load])
  have ok2: "store_ok euid js s2 d2"
    if "write_restart_normalization js (os 1) s1 d key g c n = (s2, d2, r2)" for c n s2 d2 r2
    using write_restart_ok [of "os 1"] ok1 that assms(2) by metis
  show ?thesis
    using assms(1,3) load ok1 ok2
    by (auto simp: store_normalize_after_daemon_restart_def Let_def split: if_splits sum.splits option.splits)
qed

lemma allocate_in_slot_ok:
  assumes "store_ok euid js s d" and "\<And>k. os_euid (os k) = euid" and "slot_leaf slot = Inr leaf"
    and "allocate_in_slot js os s d record slot leaf = (s', d', r)"
  shows "store_ok euid js s' d'"
proof -
  let ?st = "ts_slots s ! unat slot"
  let ?persist = "persist_materialized_slots js os 1 (ts_directory s)"
  have ok: "store_ok (os_euid (os 0)) js s d" using assms(1,2) by simp
  obtain d1 r1 where run: "write_slot_entry js (os 0) s d leaf ?st (slot_occupied slot record) = (d1, r1)"
    by (cases "write_slot_entry js (os 0) s d leaf ?st (slot_occupied slot record)") auto
  note agree = write_slot_entry_agrees [OF ok assms(3) run, unfolded assms(2)]
  show ?thesis
  proof (cases "confirm_entry slot r1")
    case (Inl e)
    with assms(4) run store_ok_corrupt [OF assms(1,3) agree(1)] show ?thesis
      by (auto simp: allocate_in_slot_def Let_def)
  next
    case c: (Inr p)
    obtain rec i where p: "p = (rec, i)" by (cases p)
    with c have r1: "r1 = Inr \<lparr>sj_value = slot_occupied slot rec, sj_identity = i\<rparr>"
      "record_validate rec = Inr ()" by (simp_all add: confirm_entry_Inr)
    let ?mem = "(store_memory s)(leaf \<mapsto> (i, slot_occupied slot rec))"
    have mem: "agrees (holds_bytes euid) (slot_from_slice js) ?mem d1" using agree(2) [OF r1(1)] by simp
    have dom: "?mem STORE_MANIFEST_LEAF = None" "\<forall>k\<in>dom ?mem. \<not> temp_leaf_name k"
      using slot_leaf_not_special [OF assms(3)] store_memory_dom by (auto simp: dom_def split: if_splits)
    obtain d2 r2 where persist: "?persist d1
        (mark_materialized_word (replicate STORE_MATERIALIZATION_WORDS 0) slot) = (d2, r2)"
      by (cases "?persist d1 (mark_materialized_word (replicate STORE_MATERIALIZATION_WORDS 0) slot)") auto
    have mem2: "agrees (holds_bytes euid) (slot_from_slice js) ?mem d2"
      by (rule persist_attempts_agrees [OF assms(2) dom mem persist [unfolded persist_materialized_slots_def]])
    show ?thesis
      using assms(4) run c p persist store_ok_valid [OF assms(1,3) r1(2) mem]
        store_ok_valid [OF assms(1,3) r1(2) mem2] store_ok_corrupt [OF assms(1,3) agrees_forget [OF mem2]]
      by (cases r2) (auto simp: allocate_in_slot_def Let_def split: if_splits)
  qed
qed

lemma allocate_prepared_ok:
  assumes "store_ok euid js s d" and "\<And>k. os_euid (os k) = euid"
    and "allocate_prepared js os s d record now = (s', d', r)"
  shows "store_ok euid js s' d'"
  using assms(1,3) allocate_in_slot_ok [OF assms(1,2)]
  by (auto simp: allocate_prepared_def split: sum.splits if_splits option.splits)

definition slot_ok :: "u32 \<Rightarrow> codecs \<Rightarrow> directory \<Rightarrow> u16 \<Rightarrow> slot_state \<Rightarrow> bool" where
  "slot_ok euid js d slot st \<longleftrightarrow> slot_record_valid st
     \<and> (\<forall>leaf i w. slot_leaf slot = Inr leaf \<and> slot_belief slot st = Some (i, w) \<longrightarrow>
          (\<exists>bytes. holds_bytes euid d leaf i bytes \<and> slot_from_slice js bytes = Some w))"

lemma slot_ok_trivial [simp]: "slot_ok euid js d slot CorruptSlot" "slot_ok euid js d slot (Vacant None)"
  by (simp_all add: slot_ok_def)

lemma slot_state_of_entry_ok:
  assumes "parse_slot_leaf leaf = Some slot" and "os_euid os = euid"
  shows "slot_ok euid js d slot (slot_state_of_entry (read_json (slot_from_slice js) os vd d leaf cap) slot)"
proof (cases "read_json (slot_from_slice js) os vd d leaf cap")
  case (Inl e)
  then show ?thesis by (simp add: slot_state_of_entry_def)
next
  case (Inr entry)
  then obtain bytes where b: "holds_bytes euid d leaf (sj_identity entry) bytes"
    "slot_from_slice js bytes = Some (sj_value entry)" using assms(2) by (auto simp: read_json_Inr)
  show ?thesis
  proof (cases "is_ok (slot_validate (sj_value entry) slot)")
    case True
    from slot_validate_belief [OF this] show ?thesis
      using b assms(1) Inr True
      by (auto simp: slot_state_of_entry_def slot_ok_def parse_slot_leaf_iff split: option.splits)
  qed (simp add: Inr slot_state_of_entry_def)
qed

definition slots_ok :: "u32 \<Rightarrow> codecs \<Rightarrow> directory \<Rightarrow> slot_state list \<Rightarrow> bool" where
  "slots_ok euid js d slots \<longleftrightarrow> length slots = MAX_TOURNAMENT_RECORDS
     \<and> (\<forall>i<MAX_TOURNAMENT_RECORDS. slot_ok euid js d (of_nat i) (slots ! i))"

lemma word_nat_of_unat: "of_nat (unat (w :: 'a::len word)) = w"
  by simp

lemma slots_ok_update:
  "slots_ok euid js d slots \<Longrightarrow> slot_ok euid js d slot st \<Longrightarrow> slots_ok euid js d (slots[unat slot := st])"
  unfolding slots_ok_def
  by (metis length_list_update nth_list_update_eq nth_list_update_neq word_nat_of_unat)

lemma load_leaves_ok:
  assumes "\<And>k. os_euid (os k) = euid"
  shows "slots_ok euid js d slots \<Longrightarrow> load_leaves js os n vd d leaves slots seen unknown = (slots', u) \<Longrightarrow>
    slots_ok euid js d slots'"
proof (induction leaves arbitrary: n slots seen unknown)
  case (Cons leaf leaves)
  show ?case
  proof (cases "leaf = STORE_MANIFEST_LEAF \<or> parse_slot_leaf leaf = None")
    case True
    with Cons show ?thesis by (auto split: if_splits)
  next
    case False
    then obtain slot where slot: "parse_slot_leaf leaf = Some slot" by auto
    note upd = slots_ok_update [OF Cons.prems(1)]
    show ?thesis
      using Cons.prems(2) False slot Cons.IH [OF upd [OF slot_ok_trivial(1)]]
        Cons.IH [OF upd [OF slot_state_of_entry_ok [OF slot assms]]]
      by (auto split: if_splits)
  qed
qed simp

lemma slots_ok_store_ok:
  assumes "slots_ok euid js d (ts_slots s)"
  shows "store_ok euid js s d"
proof -
  have len: "length (ts_slots s) = MAX_TOURNAMENT_RECORDS" using assms by (simp add: slots_ok_def)
  have "agrees (holds_bytes euid) (slot_from_slice js) (store_memory s) d"
    unfolding agrees_def
  proof (intro allI impI)
    fix l i w assume "store_memory s l = Some (i, w)"
    then obtain slot where l: "slot_leaf slot = Inr l" "slot_belief slot (ts_slots s ! unat slot) = Some (i, w)"
      by (auto simp: store_memory_def parse_slot_leaf_iff split: option.splits)
    then have "slot_ok euid js d slot (ts_slots s ! unat slot)"
      using assms slot_leaf_bound [OF l(1)] by (metis slots_ok_def word_nat_of_unat)
    with l show "\<exists>bytes. holds_bytes euid d l i bytes \<and> slot_from_slice js bytes = Some w"
      by (auto simp: slot_ok_def)
  qed
  moreover have "list_all slot_record_valid (ts_slots s)"
    using assms by (auto simp: list_all_length slots_ok_def slot_ok_def)
  ultimately show ?thesis using len by (simp add: store_ok_def)
qed

lemma initial_slots_ok: "slots_ok euid js d (initial_slots m)"
  by (auto simp: slots_ok_def initial_slots_def simp del: upt_Suc)

lemma store_open_ok:
  assumes "\<And>k. os_euid (os k) = euid" and "store_open js os vd d readdir = (d', Inr s)"
  shows "store_ok euid js s d'"
proof -
  from assms(2) obtain manifest leaves slots u where
    "load_leaves js os 131 vd d' leaves (initial_slots manifest) (replicate MAX_TOURNAMENT_RECORDS False) 0
       = (slots, u)" "ts_slots s = slots"
    by (auto simp: store_open_def split: prod.splits sum.splits)
  with load_leaves_ok [OF assms(1) initial_slots_ok] have "slots_ok euid js d' (ts_slots s)" by simp
  then show ?thesis by (rule slots_ok_store_ok)
qed

section \<open>Outcomes\<close>

lemma replace_slot_value:
  assumes "codecs_ok js" and "replace_slot js os s d leaf i v = (d', Inr e)" and "\<not> temp_leaf_name leaf"
  shows "sj_value e = v"
  using atomic_replace_cases [OF assms(2) [unfolded replace_slot_def] not_temp_leaf [OF assms(3)]] assms(1)
  by (auto simp: codecs_ok_def)

lemma create_slot_value:
  assumes "codecs_ok js" and "create_slot js os s d leaf v = (d', Inr e)"
  shows "sj_value e = v"
  using atomic_create_cases [OF assms(2) [unfolded create_slot_def]] assms(1)
  by (auto simp: codecs_ok_def)

lemma slot_occupied_inject [simp]: "slot_occupied slot r = slot_occupied slot' r' \<longleftrightarrow> slot = slot' \<and> r = r'"
  by (auto simp: slot_occupied_def)

text \<open>The outcomes of installing a record: refused for its name, corrupt, or stored as given.\<close>

lemma install_record_cases:
  assumes "codecs_ok js" and "install_record js os s d slot i record = (s', d', r)"
    and "unat slot < MAX_TOURNAMENT_RECORDS"
  shows "(\<exists>e. s' = set_slot s slot CorruptSlot \<and> r = Inl e)
     \<or> (\<exists>i'. s' = set_slot s slot (Valid record i')
          \<and> r = Inr \<lparr>su_key = key_for slot record, su_record = record\<rparr>)"
proof -
  obtain leaf where leaf: "slot_leaf slot = Inr leaf" using slot_leaf_ok [OF assms(3)] by blast
  obtain d1 r1 where run: "replace_slot js os s d leaf i (slot_occupied slot record) = (d1, r1)"
    by (cases "replace_slot js os s d leaf i (slot_occupied slot record)") auto
  show ?thesis
  proof (cases "confirm_entry slot r1")
    case (Inl e)
    with assms(2) leaf run show ?thesis by (auto simp: install_record_def)
  next
    case (Inr p)
    obtain rec i' where p: "p = (rec, i')" by (cases p)
    with Inr have r1: "r1 = Inr \<lparr>sj_value = slot_occupied slot rec, sj_identity = i'\<rparr>"
      by (simp add: confirm_entry_Inr)
    have "rec = record"
      using replace_slot_value [OF assms(1) run [unfolded r1] slot_leaf_not_special(1) [OF leaf]] by simp
    with assms(2) leaf run Inr p show ?thesis by (auto simp: install_record_def)
  qed
qed

lemma store_write_cases:
  assumes "codecs_ok js" and "length (ts_slots s) = MAX_TOURNAMENT_RECORDS"
    and "store_write js os s d key g record kind = (s', d', r)"
  shows "(s' = s \<and> d' = d \<and> \<not> is_ok r)
     \<or> (\<exists>current i. ts_slots s ! unat (key_slot key) = Valid current i
          \<and> unat (key_slot key) < MAX_TOURNAMENT_RECORDS
          \<and> write_allowed key g current record kind \<and> record_validate record = Inr ()
          \<and> ((\<exists>e. s' = set_slot s (key_slot key) CorruptSlot \<and> r = Inl e)
             \<or> (\<exists>i'. s' = set_slot s (key_slot key) (Valid record i')
                  \<and> r = Inr \<lparr>su_key = key_for (key_slot key) record, su_record = record\<rparr>)))"
proof (cases "\<exists>current i. record_validate record = Inr () \<and> \<not> ts_poisoned s
    \<and> unat (key_slot key) < length (ts_slots s)
    \<and> ts_slots s ! unat (key_slot key) = Valid current i \<and> write_allowed key g current record kind")
  case True
  then obtain current i where c: "record_validate record = Inr ()" "\<not> ts_poisoned s"
    "unat (key_slot key) < MAX_TOURNAMENT_RECORDS"
    "ts_slots s ! unat (key_slot key) = Valid current i" "write_allowed key g current record kind"
    using assms(2) by auto
  then have "install_record js os s d (key_slot key) i record = (s', d', r)"
    using assms(2,3) by (simp add: store_write_def)
  from install_record_cases [OF assms(1) this c(3)] c show ?thesis by blast
next
  case False
  then have "s' = s \<and> d' = d \<and> \<not> is_ok r"
    using assms(3) by (auto simp: store_write_def split: sum.splits if_splits slot_state.splits)
  then show ?thesis by blast
qed

text \<open>The version of a slot is the generation of its record.\<close>

definition slot_generation :: "u16 \<Rightarrow> tournament_store \<Rightarrow> u64 option" where
  "slot_generation slot s =
     (if unat slot < length (ts_slots s)
      then (case ts_slots s ! unat slot of Valid r i \<Rightarrow> Some (st_generation (tr_status r)) | _ \<Rightarrow> None)
      else None)"

lemma set_slot_simps [simp]:
  "length (ts_slots (set_slot s slot st)) = length (ts_slots s)"
  "unat slot < length (ts_slots s) \<Longrightarrow> ts_slots (set_slot s slot st) ! unat slot = st"
  "j \<noteq> unat slot \<Longrightarrow> ts_slots (set_slot s slot st) ! j = ts_slots s ! j"
  "ts_poisoned (set_slot s slot st) = ts_poisoned s"
  "ts_unknown_corrupt_records (set_slot s slot st) = ts_unknown_corrupt_records s"
  by (simp_all add: set_slot_def)

lemma write_allowed_generation:
  "write_allowed key g current record kind \<Longrightarrow>
     st_generation (tr_status current) = g \<and> checked_add g 1 = Some (st_generation (tr_status record))
     \<and> g < st_generation (tr_status record)
     \<and> st_tournament_uuid (tr_status record) = st_tournament_uuid (tr_status current)"
  by (auto simp: write_allowed_def immutable_identity_matches_def dest: checked_add_one_less)

text \<open>A successful write as a step on pairs of store and directory.\<close>

definition cell_write ::
    "codecs \<Rightarrow> u16 \<Rightarrow> u64 option \<Rightarrow> os_answers \<times> tournament_key \<times> tournament_record \<times> tournament_write_kind
       \<Rightarrow> tournament_store \<times> directory \<Rightarrow> (tournament_store \<times> directory) option" where
  "cell_write js slot g = (\<lambda>(os, key, record, kind) (s, d).
     (case g of
        None \<Rightarrow> None
      | Some g \<Rightarrow>
          if key_slot key \<noteq> slot \<or> length (ts_slots s) \<noteq> MAX_TOURNAMENT_RECORDS \<or> \<not> codecs_ok js then None
          else (case store_write js os s d key g record kind of
                  (s', d', Inr st) \<Rightarrow> Some (s', d')
                | _ \<Rightarrow> None)))"

lemma cell_write_version:
  assumes "cell_write js slot g x sd = Some sd'"
  shows "slot_generation slot (fst sd) = g \<and> g < slot_generation slot (fst sd')"
proof -
  obtain os key rec kind s d s' d' where x: "x = (os, key, rec, kind)" "sd = (s, d)" "sd' = (s', d')"
    by (cases x; cases sd; cases sd')
  from assms x obtain g0 st where g: "g = Some g0" "key_slot key = slot"
    "length (ts_slots s) = MAX_TOURNAMENT_RECORDS" "codecs_ok js"
    "store_write js os s d key g0 rec kind = (s', d', Inr st)"
    by (auto simp: cell_write_def split: option.splits if_splits prod.splits sum.splits)
  from store_write_cases [OF g(4,3,5)] g(2) obtain current i i' where
    "ts_slots s ! unat slot = Valid current i" "unat slot < MAX_TOURNAMENT_RECORDS"
    "write_allowed key g0 current rec kind" "s' = set_slot s slot (Valid rec i')" by auto
  with write_allowed_generation g x show ?thesis by (auto simp: slot_generation_def)
qed

interpretation slot_cell: versioned_cell "\<lambda>sd. slot_generation slot (fst sd)" "cell_write js slot"
  for js :: codecs and slot :: u16
  by unfold_locales (auto dest: cell_write_version)

section \<open>Live count, uniqueness and reuse\<close>

definition uuids_distinct :: "slot_state list \<Rightarrow> bool" where
  "uuids_distinct slots \<longleftrightarrow>
     (\<forall>i<length slots. \<forall>j<length slots. \<forall>u. slot_has_uuid u (slots ! i) \<and> slot_has_uuid u (slots ! j) \<longrightarrow> i = j)"

lemma uuids_distinct_update:
  assumes "uuids_distinct slots"
    and "\<And>u j. slot_has_uuid u st \<Longrightarrow> j < length slots \<Longrightarrow> j \<noteq> k \<Longrightarrow> \<not> slot_has_uuid u (slots ! j)"
  shows "uuids_distinct (slots[k := st])"
  using assms unfolding uuids_distinct_def
  by (auto simp: nth_list_update split: if_splits) (metis nth_list_update_eq nth_list_update_neq)+

lemma select_allocation_slot_Some:
  assumes "select_allocation_slot s now = Some slot" and "length (ts_slots s) = MAX_TOURNAMENT_RECORDS"
  shows "unat slot < MAX_TOURNAMENT_RECORDS
    \<and> (slot_is_vacant (ts_slots s ! unat slot)
       \<or> (\<forall>st\<in>set (ts_slots s). \<not> slot_is_vacant st) \<and> slot_is_expired now (ts_slots s ! unat slot))"
proof -
  from assms(1) obtain i where i: "slot = of_nat i" "i < 2 ^ 16"
    "position slot_is_vacant (ts_slots s) = Some i
     \<or> position slot_is_vacant (ts_slots s) = None \<and> position (slot_is_expired now) (ts_slots s) = Some i"
    by (auto simp: select_allocation_slot_def split: option.splits if_splits)
  then have "unat slot = i" by (simp add: unat_of_nat)
  with i(3) assms(2) show ?thesis by (auto dest!: position_Some simp: position_None)
qed

lemma allocate_in_slot_cases:
  assumes "codecs_ok js" and "slot_leaf slot = Inr leaf"
    and "allocate_in_slot js os s d record slot leaf = (s', d', r)"
  shows "(\<exists>e. s' = set_slot s slot CorruptSlot \<and> r = Inl e)
     \<or> (\<exists>i. s' = set_slot s slot (Valid record i) \<and> r = Inr (key_for slot record))"
proof -
  let ?st = "ts_slots s ! unat slot"
  obtain d1 r1 where run: "write_slot_entry js (os 0) s d leaf ?st (slot_occupied slot record) = (d1, r1)"
    by (cases "write_slot_entry js (os 0) s d leaf ?st (slot_occupied slot record)") auto
  show ?thesis
  proof (cases "confirm_entry slot r1")
    case (Inl e)
    with assms(3) run show ?thesis by (auto simp: allocate_in_slot_def Let_def)
  next
    case (Inr p)
    obtain rec i where p: "p = (rec, i)" by (cases p)
    with Inr have r1: "r1 = Inr \<lparr>sj_value = slot_occupied slot rec, sj_identity = i\<rparr>"
      by (simp add: confirm_entry_Inr)
    have "rec = record"
      using run r1 replace_slot_value [OF assms(1) _ slot_leaf_not_special(1) [OF assms(2)]]
        create_slot_value [OF assms(1)]
      by (fastforce simp: write_slot_entry_def split: slot_state.splits option.splits)
    with assms(3) run Inr p show ?thesis
      by (auto simp: allocate_in_slot_def Let_def split: if_splits prod.splits sum.splits)
  qed
qed

text \<open>What an allocation that touches the store found and did.\<close>

definition allocation_guard :: "tournament_store \<Rightarrow> tournament_record \<Rightarrow> u64 \<Rightarrow> u16 \<Rightarrow> bool" where
  "allocation_guard s record now slot \<longleftrightarrow>
     record_validate record = Inr () \<and> st_phase (tr_status record) = Prepared
     \<and> \<not> list_ex (slot_has_uuid (st_tournament_uuid (tr_status record))) (ts_slots s)
     \<and> occupied_live_count s < MAX_LIVE_TOURNAMENTS
     \<and> select_allocation_slot s now = Some slot"

lemma allocate_prepared_cases:
  assumes "codecs_ok js" and "allocate_prepared js os s d record now = (s', d', r)"
  shows "(s' = s \<and> d' = d \<and> \<not> is_ok r)
     \<or> (\<exists>slot. allocation_guard s record now slot
          \<and> ((\<exists>e. s' = set_slot s slot CorruptSlot \<and> r = Inl e)
             \<or> (\<exists>i. s' = set_slot s slot (Valid record i) \<and> r = Inr (key_for slot record))))"
proof (cases "\<exists>slot leaf. allocation_guard s record now slot \<and> \<not> is_some (tr_terminal_completed_unix_ms record)
    \<and> \<not> ts_poisoned s \<and> slot_leaf slot = Inr leaf \<and> ts_slots s ! unat slot \<noteq> CorruptSlot")
  case True
  then obtain slot leaf where g: "allocation_guard s record now slot"
    "\<not> is_some (tr_terminal_completed_unix_ms record)" "\<not> ts_poisoned s" "slot_leaf slot = Inr leaf"
    "ts_slots s ! unat slot \<noteq> CorruptSlot" by blast
  then have "allocate_in_slot js os s d record slot leaf = (s', d', r)"
    using assms(2) by (simp add: allocate_prepared_def allocation_guard_def)
  from allocate_in_slot_cases [OF assms(1) g(4) this] g(1) show ?thesis by blast
next
  case False
  then have "s' = s \<and> d' = d \<and> \<not> is_ok r"
    using assms(2)
    by (auto simp: allocate_prepared_def allocation_guard_def split: sum.splits if_splits option.splits)
  then show ?thesis by blast
qed

lemma prepared_not_positive: "st_phase (tr_status r) = Prepared \<Longrightarrow> \<not> is_positive_terminal r"
  by (simp add: is_positive_terminal_def status_is_terminal_def is_terminal_def)

lemma not_live_reusable: "slot_is_vacant st \<or> slot_is_expired now st \<Longrightarrow> \<not> slot_is_live st"
  by (cases st) auto

lemma live_count_set_slot:
  assumes "unat slot < length (ts_slots s)" "\<not> slot_is_live (ts_slots s ! unat slot)" "slot_is_live st"
    "occupied_live_count s < MAX_LIVE_TOURNAMENTS"
  shows "occupied_live_count (set_slot s slot st) = occupied_live_count s + 1"
  using assms length_filter_update [of "unat slot" "ts_slots s" slot_is_live st]
  by (simp add: occupied_live_count_def set_slot_def MAX_LIVE_TOURNAMENTS_def min_def split: if_splits)

lemma uuids_distinct_corrupt: "uuids_distinct (ts_slots s) \<Longrightarrow> uuids_distinct (ts_slots (set_slot s slot CorruptSlot))"
  unfolding set_slot_def by (auto intro: uuids_distinct_update)

lemma allocate_distinct:
  assumes "codecs_ok js" and "uuids_distinct (ts_slots s)"
    and "allocate_prepared js os s d record now = (s', d', r)"
  shows "uuids_distinct (ts_slots s')"
proof -
  have "uuids_distinct (ts_slots (set_slot s slot (Valid record i)))"
    if "allocation_guard s record now slot" for slot i
    using that assms(2) unfolding set_slot_def
    by (auto simp: allocation_guard_def list_ex_length intro!: uuids_distinct_update)
  with allocate_prepared_cases [OF assms(1,3)] assms(2) uuids_distinct_corrupt show ?thesis by auto
qed

lemma same_uuid_distinct:
  assumes "uuids_distinct (ts_slots s)" "unat slot < length (ts_slots s)" "ts_slots s ! unat slot = Valid current i"
    "st_tournament_uuid (tr_status record) = st_tournament_uuid (tr_status current)"
  shows "uuids_distinct (ts_slots (set_slot s slot (Valid record i')))"
proof -
  have "\<not> slot_has_uuid u (ts_slots s ! j)"
    if "slot_has_uuid u (Valid record i')" "j < length (ts_slots s)" "j \<noteq> unat slot" for u j
    using assms that unfolding uuids_distinct_def by (metis slot_has_uuid.simps(1))
  then show ?thesis unfolding set_slot_def by (auto intro!: uuids_distinct_update assms(1))
qed

lemma store_write_distinct:
  assumes "codecs_ok js" and "length (ts_slots s) = MAX_TOURNAMENT_RECORDS" and "uuids_distinct (ts_slots s)"
    and "store_write js os s d key g record kind = (s', d', r)"
  shows "uuids_distinct (ts_slots s')"
  using store_write_cases [OF assms(1,2,4)] assms(2,3) uuids_distinct_corrupt
    same_uuid_distinct [OF assms(3)] write_allowed_generation by fastforce

lemma load_by_uuid_cases:
  assumes "load_by_uuid js os s d u = (s', r)"
  shows "s' = s \<or> (\<exists>slot. s' = set_slot s slot CorruptSlot \<and> r = Inl Corrupt)"
  using assms
  by (auto simp: load_by_uuid_def split: if_splits option.splits sum.splits slot_state.splits)

lemma write_restart_distinct:
  assumes "codecs_ok js" and "length (ts_slots s) = MAX_TOURNAMENT_RECORDS" and "uuids_distinct (ts_slots s)"
    and "write_restart_normalization js os s d key g snapshot record = (s', d', r)"
  shows "uuids_distinct (ts_slots s')"
proof (cases "s' = s")
  case False
  with assms(2,4) obtain current i where c: "unat (key_slot key) < MAX_TOURNAMENT_RECORDS"
    "ts_slots s ! unat (key_slot key) = Valid current i" "immutable_identity_matches current record"
    "install_record js os s d (key_slot key) i record = (s', d', r)"
    by (auto simp: write_restart_normalization_def split: sum.splits if_splits slot_state.splits)
  from install_record_cases [OF assms(1) c(4,1)] show ?thesis
    using c assms(2,3) uuids_distinct_corrupt same_uuid_distinct [OF assms(3) _ c(2)]
    by (auto simp: immutable_identity_matches_def)
qed (use assms in simp)

lemma normalize_distinct:
  assumes "codecs_ok js" and "length (ts_slots s) = MAX_TOURNAMENT_RECORDS" and "uuids_distinct (ts_slots s)"
    and "store_normalize_after_daemon_restart js os s d key g u = (s', d', r)"
  shows "uuids_distinct (ts_slots s')"
proof -
  obtain s1 l where load: "load_by_uuid js (os 0) s d (key_tournament_uuid key) = (s1, l)"
    by (cases "load_by_uuid js (os 0) s d (key_tournament_uuid key)") auto
  have s1: "uuids_distinct (ts_slots s1)" "length (ts_slots s1) = MAX_TOURNAMENT_RECORDS"
    using load_by_uuid_cases [OF load] assms(2,3) uuids_distinct_corrupt by auto
  have "uuids_distinct (ts_slots s2)"
    if "write_restart_normalization js (os 1) s1 d key g c n = (s2, d2, r2)" for c n s2 d2 r2
    using write_restart_distinct [OF assms(1) s1(2,1) that] .
  then show ?thesis
    using assms(3,4) load s1
    by (auto simp: store_normalize_after_daemon_restart_def Let_def split: if_splits sum.splits option.splits)
qed

section \<open>Runs of the store\<close>

text \<open>The operations of the store, in any order and with any answers of the system, for one user.\<close>

inductive store_step ::
    "codecs \<Rightarrow> u32 \<Rightarrow> tournament_store \<times> directory \<Rightarrow> tournament_store \<times> directory \<Rightarrow> bool"
  for js euid where
  allocate: "allocate_prepared js os s d r now = (s', d', res) \<Longrightarrow> \<forall>k. os_euid (os k) = euid \<Longrightarrow>
     store_step js euid (s, d) (s', d')"
| update: "store_write js os s d key g r kind = (s', d', res') \<Longrightarrow> os_euid os = euid \<Longrightarrow>
     store_step js euid (s, d) (s', d')"
| load: "load_by_uuid js os s d u = (s', res'') \<Longrightarrow> os_euid os = euid \<Longrightarrow>
     store_step js euid (s, d) (s', d)"
| normalize: "store_normalize_after_daemon_restart js os s d key g u = (s', d', res') \<Longrightarrow>
     \<forall>k. os_euid (os k) = euid \<Longrightarrow> store_step js euid (s, d) (s', d')"

inductive_cases store_stepE: "store_step js euid sd sd'"

definition opened :: "codecs \<Rightarrow> u32 \<Rightarrow> tournament_store \<times> directory \<Rightarrow> bool" where
  "opened js euid sd \<longleftrightarrow>
     (\<exists>os vd d readdir. (\<forall>k. os_euid (os k) = euid)
        \<and> store_open js os vd d readdir = (snd sd, Inr (fst sd)))"

lemma store_step_ok:
  assumes "store_ok euid js s d" "store_step js euid (s, d) (s', d')"
  shows "store_ok euid js s' d'"
  using assms(2)
proof (cases rule: store_step.cases)
  case (allocate os r now res)
  then show ?thesis using allocate_prepared_ok [OF assms(1)] by blast
next
  case (update os key g r kind res')
  then show ?thesis using store_write_ok assms(1) by blast
next
  case (load os u res'')
  then show ?thesis using load_by_uuid_ok [OF assms(1)] by blast
next
  case (normalize os key g u res')
  then show ?thesis using normalize_ok [OF assms(1)] by blast
qed

lemma store_step_distinct:
  assumes "codecs_ok js" "length (ts_slots s) = MAX_TOURNAMENT_RECORDS" "uuids_distinct (ts_slots s)"
    "store_step js euid (s, d) (s', d')"
  shows "uuids_distinct (ts_slots s')"
  using assms(4)
proof (cases rule: store_step.cases)
  case (allocate os r now res)
  then show ?thesis using allocate_distinct [OF assms(1,3)] by blast
next
  case (update os key g r kind res')
  then show ?thesis using store_write_distinct [OF assms(1-3)] by blast
next
  case (load os u res'')
  then show ?thesis using load_by_uuid_cases uuids_distinct_corrupt [OF assms(3)] assms(3) by blast
next
  case (normalize os key g u res')
  then show ?thesis using normalize_distinct [OF assms(1-3)] by blast
qed

interpretation store_machine: state_machine "opened js euid" "store_step js euid"
  "\<lambda>(s, d). store_ok euid js s d"
  for js :: codecs and euid :: u32
proof
  fix sd assume "opened js euid sd"
  then show "case sd of (s, d) \<Rightarrow> store_ok euid js s d"
    by (cases sd) (auto simp: opened_def intro: store_open_ok)
next
  fix sd sd' assume "case sd of (s, d) \<Rightarrow> store_ok euid js s d" "store_step js euid sd sd'"
  then show "case sd' of (s, d) \<Rightarrow> store_ok euid js s d"
    using store_step_ok by (cases sd; cases sd') auto
qed

interpretation uuid_machine: state_machine
  "\<lambda>(s, d). codecs_ok js \<and> store_ok euid js s d \<and> uuids_distinct (ts_slots s)" "store_step js euid"
  "\<lambda>(s, d). codecs_ok js \<and> store_ok euid js s d \<and> uuids_distinct (ts_slots s)"
  for js :: codecs and euid :: u32
proof
  fix sd sd' assume "case sd of (s, d) \<Rightarrow> codecs_ok js \<and> store_ok euid js s d \<and> uuids_distinct (ts_slots s)"
    "store_step js euid sd sd'"
  then show "case sd' of (s, d) \<Rightarrow> codecs_ok js \<and> store_ok euid js s d \<and> uuids_distinct (ts_slots s)"
    using store_step_ok [of euid js "fst sd" "snd sd" "fst sd'" "snd sd'"]
      store_step_distinct [of js "fst sd" euid "snd sd" "fst sd'" "snd sd'"]
    by (simp add: case_prod_beta store_ok_def)
qed

lemma store_ok_Valid:
  assumes "store_ok euid js s d" "i < MAX_TOURNAMENT_RECORDS" "ts_slots s ! i = Valid r fid"
  shows "record_validate r = Inr () \<and> (\<exists>leaf bytes. slot_leaf (of_nat i) = Inr leaf
    \<and> holds_bytes euid d leaf fid bytes \<and> slot_from_slice js bytes = Some (slot_occupied (of_nat i) r))"
proof -
  have i: "unat (of_nat i :: u16) = i" using assms(2) by (simp add: MAX_TOURNAMENT_RECORDS_def unat_of_nat)
  obtain leaf where leaf: "slot_leaf (of_nat i) = Inr leaf" using slot_leaf_ok [of "of_nat i"] i assms(2) by auto
  then have "store_memory s leaf = Some (fid, slot_occupied (of_nat i) r)"
    using assms(3) i by (simp add: store_memory_def parse_slot_leaf_iff [symmetric])
  then show ?thesis
    using assms leaf by (fastforce simp: store_ok_def agrees_def list_all_length)
qed

section \<open>Restart records\<close>



section \<open>Properties\<close>

text \<open>A store with one tournament in slot 0, and codecs that know the two records of the examples.\<close>

definition example_next :: tournament_record where
  "example_next = (let r = example_record 5 in
     r\<lparr>tr_status := (tr_status r)\<lparr>st_phase := Armed, st_generation := 2\<rparr>\<rparr>)"

definition example_manifest :: tournament_store_manifest where
  "example_manifest = manifest_fixed\<lparr>sm_materialized_slots :=
     mark_materialized_word (replicate STORE_MATERIALIZATION_WORDS 0) 0\<rparr>"

definition example_codecs :: codecs where
  "example_codecs = \<lparr>
     slot_to_vec = (\<lambda>v. if v = slot_occupied 0 (example_record 5) then Some [1]
       else if v = slot_occupied 0 example_next then Some [2] else None),
     slot_from_slice = (\<lambda>b. if b = [1] then Some (slot_occupied 0 (example_record 5))
       else if b = [2] then Some (slot_occupied 0 example_next) else None),
     manifest_to_vec = (\<lambda>m. if m = example_manifest then Some [9] else None),
     manifest_from_slice = (\<lambda>b. if b = [9] then Some example_manifest else None),
     json_parses = (\<lambda>b. True), uuid_parses = (\<lambda>u. True)\<rparr>"

definition slot_zero :: leaf where
  "slot_zero = ''slot-0000.json''"

definition store_dir :: directory where
  "store_dir = [slot_zero \<mapsto> \<lparr>f_meta = example_metadata 10 1, f_bytes = [1]\<rparr>,
     STORE_MANIFEST_LEAF \<mapsto> \<lparr>f_meta = example_metadata 11 1, f_bytes = [9]\<rparr>]"

definition example_store :: tournament_store where
  "example_store = \<lparr>ts_directory = example_vd,
     ts_slots = (replicate MAX_TOURNAMENT_RECORDS (Vacant None))
       [0 := Valid (example_record 5) \<lparr>fi_dev = 1, fi_ino = 10\<rparr>],
     ts_unknown_corrupt_records = 0, ts_poisoned = False\<rparr>"

lemma example_next_differs [simp]: "slot_occupied 0 example_next \<noteq> slot_occupied 0 (example_record 5)"
  by (simp add: example_next_def Let_def example_record_def example_status_def)

lemma example_codecs_ok: "codecs_ok example_codecs"
  by (auto simp: codecs_ok_def example_codecs_def split: if_splits)

lemma slot_leaf_zero: "slot_leaf 0 = Inr slot_zero"
  by (simp add: slot_leaf_def slot_zero_def four_digits_def decimal_digit_def MAX_TOURNAMENT_RECORDS_def
      char_of_def bit_0)

lemma parse_slot_zero: "parse_slot_leaf slot_zero = Some 0"
  by (simp add: parse_slot_leaf_iff slot_leaf_zero)

lemma slot_zero_not_manifest [simp]: "slot_zero \<noteq> STORE_MANIFEST_LEAF" "STORE_MANIFEST_LEAF \<noteq> slot_zero"
  by (simp_all add: slot_zero_def STORE_MANIFEST_LEAF_def)

lemma example_store_length [simp]: "length (ts_slots example_store) = MAX_TOURNAMENT_RECORDS"
  by (simp add: example_store_def)

lemma example_store_zero [simp]: "ts_slots example_store ! 0 = Valid (example_record 5) \<lparr>fi_dev = 1, fi_ino = 10\<rparr>"
  by (simp add: example_store_def MAX_TOURNAMENT_RECORDS_def)

lemma example_store_other: "0 < i \<Longrightarrow> i < MAX_TOURNAMENT_RECORDS \<Longrightarrow> ts_slots example_store ! i = Vacant None"
  by (simp add: example_store_def)

lemma example_store_ok: "store_ok 7 example_codecs example_store store_dir"
proof (rule slots_ok_store_ok)
  have "holds_bytes 7 store_dir slot_zero \<lparr>fi_dev = 1, fi_ino = 10\<rparr> [1]"
    by (simp add: holds_bytes_def store_dir_def record_file_def fs_eval)
  moreover have "slot_from_slice example_codecs [1] = Some (slot_occupied 0 (example_record 5))"
    by (simp add: example_codecs_def)
  ultimately have zero: "slot_ok 7 example_codecs store_dir 0 (ts_slots example_store ! 0)"
    unfolding slot_ok_def example_store_zero slot_leaf_zero
    by (intro conjI allI impI exI [of _ "[1]"]) (simp_all add: example_record_valid)
  have "slot_ok 7 example_codecs store_dir (of_nat i) (ts_slots example_store ! i)"
    if "i < MAX_TOURNAMENT_RECORDS" for i
  proof (cases "i = 0")
    case True
    with zero show ?thesis by simp
  next
    case False
    with example_store_other [of i] that show ?thesis by simp
  qed
  then show "slots_ok 7 example_codecs store_dir (ts_slots example_store)"
    by (simp add: slots_ok_def)
qed

lemma example_write_allowed:
  "write_allowed (key_for 0 (example_record 5)) 1 (example_record 5) example_next LivePhaseTransition"
  by (simp add: write_allowed_def key_for_def example_next_def Let_def immutable_identity_matches_def
      immutable_identity_progresses_to_def kind_allows_def public_evidence_progresses_to_def
      example_record_def example_status_def lifecycle_is_legal_transition_def checked_add_def)

lemma example_next_valid: "record_validate example_next = Inr ()"
  by (simp add: example_next_def record_validate_eval Let_def)

lemma example_write:
  "\<exists>d'. store_write example_codecs example_os example_store store_dir (key_for 0 (example_record 5)) 1
      example_next LivePhaseTransition
    = (set_slot example_store 0 (Valid example_next \<lparr>fi_dev = 1, fi_ino = 20\<rparr>), d',
       Inr \<lparr>su_key = key_for 0 example_next, su_record = example_next\<rparr>)"
proof -
  have key: "key_slot (key_for 0 (example_record 5)) = 0" by (simp add: key_for_def)
  have vd: "ts_directory example_store = example_vd" "\<not> ts_poisoned example_store"
    by (simp_all add: example_store_def)
  have "\<exists>d'. replace_slot example_codecs example_os example_store store_dir slot_zero
      \<lparr>fi_dev = 1, fi_ino = 10\<rparr> (slot_occupied 0 example_next)
    = (d', Inr \<lparr>sj_value = slot_occupied 0 example_next, sj_identity = \<lparr>fi_dev = 1, fi_ino = 20\<rparr>\<rparr>)"
    unfolding replace_slot_def vd
    by (simp add: fs_eval Let_def store_dir_def slot_zero_def STORE_MANIFEST_LEAF_def example_codecs_def)
  then obtain d' where run: "replace_slot example_codecs example_os example_store store_dir slot_zero
      \<lparr>fi_dev = 1, fi_ino = 10\<rparr> (slot_occupied 0 example_next)
    = (d', Inr \<lparr>sj_value = slot_occupied 0 example_next, sj_identity = \<lparr>fi_dev = 1, fi_ino = 20\<rparr>\<rparr>)" by blast
  have c: "confirm_entry 0 (Inr \<lparr>sj_value = slot_occupied 0 example_next, sj_identity = \<lparr>fi_dev = 1, fi_ino = 20\<rparr>\<rparr>)
      = Inr (example_next, \<lparr>fi_dev = 1, fi_ino = 20\<rparr>)"
    by (simp add: confirm_entry_Inr example_next_valid)
  show ?thesis
    using run c
    by (simp add: store_write_def example_next_valid vd key example_write_allowed install_record_def
        slot_leaf_zero MAX_TOURNAMENT_RECORDS_def)
qed

lemma read_slot_zero:
  "read_json (slot_from_slice example_codecs) example_os example_vd store_dir slot_zero MAX_SPECULATION_JSON_BYTES
   = Inr \<lparr>sj_value = slot_occupied 0 (example_record 5), sj_identity = \<lparr>fi_dev = 1, fi_ino = 10\<rparr>\<rparr>"
  by (simp add: fs_eval Let_def store_dir_def slot_zero_def STORE_MANIFEST_LEAF_def example_codecs_def)

lemma read_manifest:
  "read_json (manifest_from_slice example_codecs) example_os example_vd store_dir STORE_MANIFEST_LEAF
     MAX_SPECULATION_JSON_BYTES
   = Inr \<lparr>sj_value = example_manifest, sj_identity = \<lparr>fi_dev = 1, fi_ino = 11\<rparr>\<rparr>"
  by (simp add: fs_eval Let_def store_dir_def STORE_MANIFEST_LEAF_def example_codecs_def)

lemma map2_or_same: "map2 (\<lambda>a b. a OR b) ws ws = (ws :: u64 list)"
  by (induction ws) auto

lemma example_open:
  "\<exists>s. store_open example_codecs (\<lambda>k. example_os) example_vd store_dir (\<lambda>k. [slot_zero, STORE_MANIFEST_LEAF])
     = (store_dir, Inr s) \<and> ts_slots s ! 0 = Valid (example_record 5) \<lparr>fi_dev = 1, fi_ino = 10\<rparr>"
proof -
  let ?leaves = "[slot_zero, STORE_MANIFEST_LEAF]"
  have list: "list_leaf_names (uuid_parses example_codecs) (json_parses example_codecs) example_os example_vd
      store_dir ?leaves = (store_dir, Inr ?leaves)"
    by (simp add: list_leaf_names_def enumerate_leaf_names_from_fd_def is_transaction_temp_leaf_def fs_eval
        slot_zero_def STORE_MANIFEST_LEAF_def)
  have present: "present_words ?leaves = mark_materialized_word (replicate STORE_MATERIALIZATION_WORDS 0) 0"
    by (simp add: present_words_def parse_slot_zero)
  have "merge_materialized example_manifest
      (mark_materialized_word (replicate STORE_MATERIALIZATION_WORDS 0) 0) = (example_manifest, False)"
    by (simp add: merge_materialized_def example_manifest_def map2_or_same Let_def)
  moreover have "manifest_validate example_manifest = Inr ()"
    by (simp add: manifest_validate_def example_manifest_def manifest_fixed_def MAX_TOURNAMENT_RECORDS_def)
  ultimately have persist: "persist_materialized_slots example_codecs (\<lambda>k. example_os) 3 example_vd store_dir
      (present_words ?leaves) = (store_dir, Inr example_manifest)"
    by (simp add: persist_materialized_slots_def present read_manifest eval_nat_numeral)
  have state: "slot_state_of_entry (Inr \<lparr>sj_value = slot_occupied 0 (example_record 5),
      sj_identity = \<lparr>fi_dev = 1, fi_ino = 10\<rparr>\<rparr>) 0 = Valid (example_record 5) \<lparr>fi_dev = 1, fi_ino = 10\<rparr>"
    by (simp add: slot_state_of_entry_def slot_validate_occupied example_record_valid)
      (simp add: slot_occupied_def)
  have len: "length (initial_slots m) = MAX_TOURNAMENT_RECORDS" for m
    by (simp add: initial_slots_def)
  show ?thesis
    using list persist
    by (simp add: store_open_def ensure_manifest_def parse_slot_zero read_slot_zero state len
        MAX_TOURNAMENT_RECORDS_def)
qed

text \<open>C1. Memory and disk agree: after opening a store and after any sequence of operations on it,
  whatever system calls failed, every tournament that the store holds in memory is valid and
  is exactly what its slot file contains, under the identity that the store remembers.\<close>

theorem store_memory_is_disk:
  assumes "opened js euid (s, d)" and "(store_step js euid)\<^sup>*\<^sup>* (s, d) (s', d')"
    and "i < MAX_TOURNAMENT_RECORDS" and "ts_slots s' ! i = Valid r fid"
  shows "record_validate r = Inr ()
    \<and> (\<exists>leaf bytes. slot_leaf (of_nat i) = Inr leaf \<and> holds_bytes euid d' leaf fid bytes
         \<and> slot_from_slice js bytes = Some (slot_occupied (of_nat i) r))"
proof -
  have "store_ok euid js s' d'" using store_machine.reachable_inv [OF assms(1,2)] by simp
  then show ?thesis by (rule store_ok_Valid [OF _ assms(3,4)])
qed

theorem store_memory_is_disk_witness:
  "\<exists>s. opened example_codecs 7 (s, store_dir)
     \<and> ts_slots s ! 0 = Valid (example_record 5) \<lparr>fi_dev = 1, fi_ino = 10\<rparr>
     \<and> (\<exists>leaf bytes. slot_leaf 0 = Inr leaf \<and> holds_bytes 7 store_dir leaf \<lparr>fi_dev = 1, fi_ino = 10\<rparr> bytes)"
proof -
  obtain s where s: "store_open example_codecs (\<lambda>k. example_os) example_vd store_dir
      (\<lambda>k. [slot_zero, STORE_MANIFEST_LEAF]) = (store_dir, Inr s)"
    "ts_slots s ! 0 = Valid (example_record 5) \<lparr>fi_dev = 1, fi_ino = 10\<rparr>"
    using example_open by blast
  have "os_euid example_os = 7" by (simp add: example_os_def)
  then have o: "opened example_codecs 7 (s, store_dir)" unfolding opened_def
    by (intro exI [of _ "\<lambda>k. example_os"] exI [of _ example_vd] exI [of _ store_dir]
        exI [of _ "\<lambda>k. [slot_zero, STORE_MANIFEST_LEAF]"]) (simp add: s(1))
  have "0 < MAX_TOURNAMENT_RECORDS" by (simp add: MAX_TOURNAMENT_RECORDS_def)
  with store_memory_is_disk [OF o rtranclp.rtrancl_refl _ s(2)] o s(2) show ?thesis by auto
qed

text \<open>Admission: an allocation succeeds only while fewer than eight slots are live, counts the new
  tournament as live, and stores the given record; and whatever happens, the only slot that an
  allocation changes was vacant or held a tournament that had finished with all its evidence
  more than the retention period ago. A corrupt slot or a live tournament is never overwritten.\<close>

theorem allocation_safe:
  assumes "codecs_ok js" and "length (ts_slots s) = MAX_TOURNAMENT_RECORDS"
    and "allocate_prepared js os s d record now = (s', d', r)"
  shows "(\<forall>key. r = Inr key \<longrightarrow>
        occupied_live_count s < MAX_LIVE_TOURNAMENTS
        \<and> occupied_live_count s' = occupied_live_count s + 1
        \<and> (\<exists>slot i. key = key_for slot record \<and> ts_slots s' = (ts_slots s)[unat slot := Valid record i]))
    \<and> (\<forall>j<MAX_TOURNAMENT_RECORDS. ts_slots s' ! j \<noteq> ts_slots s ! j \<longrightarrow>
         slot_is_vacant (ts_slots s ! j) \<or> slot_is_expired now (ts_slots s ! j))"
proof -
  have slot: "unat slot < length (ts_slots s)" "\<not> slot_is_live (ts_slots s ! unat slot)"
    "slot_is_vacant (ts_slots s ! unat slot) \<or> slot_is_expired now (ts_slots s ! unat slot)"
    "occupied_live_count s < MAX_LIVE_TOURNAMENTS" "slot_is_live (Valid record i)"
    if "allocation_guard s record now slot" for slot i
    using that select_allocation_slot_Some [of s now slot] assms(2) not_live_reusable
      prepared_not_positive by (auto simp: allocation_guard_def)
  from allocate_prepared_cases [OF assms(1,3)] show ?thesis
  proof (elim disjE exE conjE)
    assume "s' = s" "\<not> is_ok r"
    then show ?thesis by auto
  next
    fix sl e assume "allocation_guard s record now sl" "s' = set_slot s sl CorruptSlot" "r = Inl e"
    with slot [of sl] show ?thesis by (auto simp: set_slot_def nth_list_update)
  next
    fix sl i assume g: "allocation_guard s record now sl" "s' = set_slot s sl (Valid record i)"
      "r = Inr (key_for sl record)"
    have "occupied_live_count s' = occupied_live_count s + 1"
      unfolding g(2) by (rule live_count_set_slot [OF slot(1,2,5,4)]) (rule g(1))+
    with g slot [of sl] show ?thesis by (auto simp: set_slot_def nth_list_update)
  qed
qed

text \<open>A store whose first slot is vacant with a file, and an allocation there.\<close>

definition vacant_store :: tournament_store where
  "vacant_store = example_store\<lparr>ts_slots := (replicate MAX_TOURNAMENT_RECORDS (Vacant None))
     [0 := Vacant (Some \<lparr>fi_dev = 1, fi_ino = 10\<rparr>)]\<rparr>"

lemma position_update_zero: "p x \<Longrightarrow> 0 < n \<Longrightarrow> position p ((replicate n y)[0 := x]) = Some 0"
  by (cases n) auto

lemma vacant_store_slots:
  "length (ts_slots vacant_store) = MAX_TOURNAMENT_RECORDS"
  "ts_slots vacant_store ! 0 = Vacant (Some \<lparr>fi_dev = 1, fi_ino = 10\<rparr>)"
  "set (ts_slots vacant_store) \<subseteq> {Vacant None, Vacant (Some \<lparr>fi_dev = 1, fi_ino = 10\<rparr>)}"
  "position slot_is_vacant (ts_slots vacant_store) = Some 0"
proof -
  show "set (ts_slots vacant_store) \<subseteq> {Vacant None, Vacant (Some \<lparr>fi_dev = 1, fi_ino = 10\<rparr>)}"
    unfolding vacant_store_def by (simp, rule order_trans [OF set_update_subset_insert]) auto
  show "position slot_is_vacant (ts_slots vacant_store) = Some 0"
    using position_update_zero [of slot_is_vacant "Vacant (Some \<lparr>fi_dev = 1, fi_ino = 10\<rparr>)"
        MAX_TOURNAMENT_RECORDS "Vacant None"]
    by (simp add: vacant_store_def) (simp add: MAX_TOURNAMENT_RECORDS_def)
qed (simp_all add: vacant_store_def MAX_TOURNAMENT_RECORDS_def)

lemma example_allocation:
  "\<exists>d'. allocate_prepared example_codecs (\<lambda>k. example_os) vacant_store store_dir (example_record 5) 0
    = (set_slot vacant_store 0 (Valid (example_record 5) \<lparr>fi_dev = 1, fi_ino = 20\<rparr>), d',
       Inr (key_for 0 (example_record 5)))"
proof -
  have vd: "ts_directory vacant_store = example_vd" "\<not> ts_poisoned vacant_store"
    "ts_unknown_corrupt_records vacant_store = 0"
    by (simp_all add: vacant_store_def example_store_def)
  have "\<exists>d'. replace_slot example_codecs example_os vacant_store store_dir slot_zero
      \<lparr>fi_dev = 1, fi_ino = 10\<rparr> (slot_occupied 0 (example_record 5))
    = (d', Inr \<lparr>sj_value = slot_occupied 0 (example_record 5), sj_identity = \<lparr>fi_dev = 1, fi_ino = 20\<rparr>\<rparr>)"
    unfolding replace_slot_def vd
    by (simp add: fs_eval Let_def store_dir_def slot_zero_def STORE_MANIFEST_LEAF_def example_codecs_def)
  then obtain d' where run: "replace_slot example_codecs example_os vacant_store store_dir slot_zero
      \<lparr>fi_dev = 1, fi_ino = 10\<rparr> (slot_occupied 0 (example_record 5))
    = (d', Inr \<lparr>sj_value = slot_occupied 0 (example_record 5), sj_identity = \<lparr>fi_dev = 1, fi_ino = 20\<rparr>\<rparr>)"
    by blast
  have c: "confirm_entry 0 (Inr \<lparr>sj_value = slot_occupied 0 (example_record 5),
      sj_identity = \<lparr>fi_dev = 1, fi_ino = 20\<rparr>\<rparr>) = Inr (example_record 5, \<lparr>fi_dev = 1, fi_ino = 20\<rparr>)"
    by (simp add: confirm_entry_Inr example_record_valid)
  have none: "\<not> list_ex (slot_has_uuid u) (ts_slots vacant_store)" for u
    using vacant_store_slots(3) by (auto simp: list_ex_iff)
  have live: "filter slot_is_live (ts_slots vacant_store) = []"
    using vacant_store_slots(3) by (auto simp: filter_empty_conv)
  have "occupied_live_count vacant_store = 0"
    using live by (simp add: occupied_live_count_def vd)
  moreover have "select_allocation_slot vacant_store 0 = Some 0"
    using vacant_store_slots(4) by (simp add: select_allocation_slot_def)
  moreover have "st_phase (tr_status (example_record 5)) = Prepared"
    "tr_terminal_completed_unix_ms (example_record 5) = None"
    by (simp_all add: example_record_def)
  ultimately show ?thesis
    using run c none example_record_valid [of 5] vacant_store_slots(2)
    by (simp add: allocate_prepared_def vd slot_leaf_zero MAX_LIVE_TOURNAMENTS_def allocate_in_slot_def
        write_slot_entry_def)
qed

theorem allocation_safe_witness:
  "\<exists>s' d'. allocate_prepared example_codecs (\<lambda>k. example_os) vacant_store store_dir (example_record 5) 0
       = (s', d', Inr (key_for 0 (example_record 5)))
     \<and> occupied_live_count s' = occupied_live_count vacant_store + 1"
proof -
  obtain d' where a: "allocate_prepared example_codecs (\<lambda>k. example_os) vacant_store store_dir (example_record 5) 0
    = (set_slot vacant_store 0 (Valid (example_record 5) \<lparr>fi_dev = 1, fi_ino = 20\<rparr>), d',
       Inr (key_for 0 (example_record 5)))"
    using example_allocation by blast
  from allocation_safe [OF example_codecs_ok vacant_store_slots(1) a] a show ?thesis by blast
qed

lemma cell_write_length:
  assumes "cell_write js slot g x sd = Some sd'"
  shows "length (ts_slots (fst sd')) = MAX_TOURNAMENT_RECORDS"
proof -
  obtain os key rec kind s d s' d' where x: "x = (os, key, rec, kind)" "sd = (s, d)" "sd' = (s', d')"
    by (cases x; cases sd; cases sd')
  from assms x obtain g0 st where g: "length (ts_slots s) = MAX_TOURNAMENT_RECORDS" "codecs_ok js"
    "store_write js os s d key g0 rec kind = (s', d', Inr st)"
    by (auto simp: cell_write_def split: option.splits if_splits prod.splits sum.splits)
  from store_write_cases [OF g(2,1,3)] g(1) x show ?thesis by auto
qed

lemma cell_writes_length:
  "(\<lambda>sd sd'. \<exists>g x. cell_write js slot g x sd = Some sd')\<^sup>*\<^sup>* sd sd'
     \<Longrightarrow> length (ts_slots (fst sd)) = MAX_TOURNAMENT_RECORDS \<Longrightarrow> length (ts_slots (fst sd')) = MAX_TOURNAMENT_RECORDS"
  by (induction rule: rtranclp_induct) (auto dest: cell_write_length)

text \<open>C18. Writes are compare-and-swap: a successful write stores exactly the given record, whose generation
  is one more than the expected one, and moves it along a lifecycle edge that its kind allows;
  and after any number of further successful writes to the slot, a second writer that still
  expects the old generation is refused and changes nothing.\<close>

theorem store_write_compare_and_swap:
  assumes "codecs_ok js" and "length (ts_slots s) = MAX_TOURNAMENT_RECORDS"
    and "store_write js os s d key g r kind = (s', d', Inr st)"
    and "(\<lambda>sd sd'. \<exists>g x. cell_write js (key_slot key) g x sd = Some sd')\<^sup>*\<^sup>* (s', d') (t, e)"
    and "key_slot key' = key_slot key"
  shows "su_record st = r \<and> checked_add g 1 = Some (st_generation (tr_status r))
    \<and> (\<exists>current i. ts_slots s ! unat (key_slot key) = Valid current i \<and> kind_allows kind current r
         \<and> immutable_identity_matches current r)
    \<and> (\<exists>err. store_write js os' t e key' g r' kind' = (t, e, Inl err))"
proof -
  from store_write_cases [OF assms(1,2,3)] obtain current i i' where
    c: "ts_slots s ! unat (key_slot key) = Valid current i" "unat (key_slot key) < MAX_TOURNAMENT_RECORDS"
    "write_allowed key g current r kind" "s' = set_slot s (key_slot key) (Valid r i')" "su_record st = r" by auto
  let ?slot = "key_slot key"
  have put: "cell_write js ?slot (Some g) (os, key, r, kind) (s, d) = Some (s', d')"
    using assms(1-3) by (simp add: cell_write_def)
  have changed: "(s', d') \<noteq> (s, d)" using cell_write_version [OF put] by auto
  have stale: "cell_write js ?slot (Some g) (os', key', r', kind') (t, e) = None"
    by (rule slot_cell.stale_write_refused [OF put changed assms(4)])
  have "length (ts_slots s') = MAX_TOURNAMENT_RECORDS" using c(4) assms(2) by simp
  with cell_writes_length [OF assms(4)] have len: "length (ts_slots t) = MAX_TOURNAMENT_RECORDS" by simp
  obtain t2 e2 res where run: "store_write js os' t e key' g r' kind' = (t2, e2, res)"
    by (cases "store_write js os' t e key' g r' kind'")
  have gen: "slot_generation ?slot t \<noteq> Some g"
    using slot_cell.versions_le [OF assms(4)] cell_write_version [OF put] by auto
  from store_write_cases [OF assms(1) len run] have "t2 = t \<and> e2 = e \<and> \<not> is_ok res"
    using gen assms(5) len write_allowed_generation by (auto simp: slot_generation_def)
  then have "\<exists>err. store_write js os' t e key' g r' kind' = (t, e, Inl err)"
    using run by (cases res) auto
  then show ?thesis using c by (auto simp: write_allowed_def)
qed

theorem store_write_compare_and_swap_witness:
  "\<exists>s' d' st. store_write example_codecs example_os example_store store_dir (key_for 0 (example_record 5)) 1
      example_next LivePhaseTransition = (s', d', Inr st) \<and> su_record st = example_next
    \<and> (\<exists>err. store_write example_codecs example_os s' d' (key_for 0 (example_record 5)) 1
         example_next LivePhaseTransition = (s', d', Inl err))"
proof -
  obtain d' where w: "store_write example_codecs example_os example_store store_dir (key_for 0 (example_record 5)) 1
      example_next LivePhaseTransition
    = (set_slot example_store 0 (Valid example_next \<lparr>fi_dev = 1, fi_ino = 20\<rparr>), d',
       Inr \<lparr>su_key = key_for 0 example_next, su_record = example_next\<rparr>)"
    using example_write by blast
  from store_write_compare_and_swap [OF example_codecs_ok example_store_length w rtranclp.rtrancl_refl refl] w
  show ?thesis by blast
qed

text \<open>Tournament identities stay unique: from a store whose slots hold distinct tournaments, no sequence
  of operations ever makes two slots hold the same tournament UUID.\<close>

theorem tournament_uuids_unique:
  assumes "codecs_ok js" and "store_ok euid js s d" and "uuids_distinct (ts_slots s)"
    and "(store_step js euid)\<^sup>*\<^sup>* (s, d) (s', d')"
    and "i < MAX_TOURNAMENT_RECORDS" and "j < MAX_TOURNAMENT_RECORDS"
    and "ts_slots s' ! i = Valid r f" and "ts_slots s' ! j = Valid r' f'"
    and "st_tournament_uuid (tr_status r) = st_tournament_uuid (tr_status r')"
  shows "i = j"
proof -
  have "store_ok euid js s' d' \<and> uuids_distinct (ts_slots s')"
    using uuid_machine.reachable_inv [of js euid "(s, d)" "(s', d')"] assms(1-4) by simp
  then show ?thesis using assms(5-9) by (auto simp: uuids_distinct_def store_ok_def)
qed

theorem tournament_uuids_unique_witness:
  "uuids_distinct (ts_slots example_store) \<and> (\<nexists>j r f. 0 < j \<and> j < MAX_TOURNAMENT_RECORDS
     \<and> ts_slots example_store ! j = Valid r f
     \<and> st_tournament_uuid (tr_status r) = st_tournament_uuid (tr_status (example_record 5)))"
proof -
  have d: "uuids_distinct (ts_slots example_store)"
    unfolding uuids_distinct_def example_store_length
  proof (intro allI impI)
    fix i j u assume "i < MAX_TOURNAMENT_RECORDS" "j < MAX_TOURNAMENT_RECORDS"
      "slot_has_uuid u (ts_slots example_store ! i) \<and> slot_has_uuid u (ts_slots example_store ! j)"
    then show "i = j" using example_store_other [of i] example_store_other [of j] by (cases i; cases j) auto
  qed
  have "0 < MAX_TOURNAMENT_RECORDS" by (simp add: MAX_TOURNAMENT_RECORDS_def)
  with d tournament_uuids_unique [OF example_codecs_ok example_store_ok d rtranclp.rtrancl_refl, of 0]
  show ?thesis by (metis example_store_zero less_numeral_extra(3))
qed




text \<open>Slot names: the decoder accepts exactly the names that the encoder makes, so that a name denotes one
  slot; every slot below the bound has a name, and no slot name is the manifest or looks like a
  temporary file.\<close>

theorem slot_names_round_trip:
  "(parse_slot_leaf leaf = Some slot) = (slot_leaf slot = Inr leaf)
   \<and> is_ok (slot_leaf slot) = (unat slot < MAX_TOURNAMENT_RECORDS)
   \<and> parse_slot_leaf STORE_MANIFEST_LEAF = None
   \<and> (if temp_leaf_name leaf then parse_slot_leaf leaf = None else True)"
proof -
  have "parse_slot_leaf leaf = None" if "temp_leaf_name leaf"
    using that slot_leaf_not_special parse_slot_leaf_iff by (cases "parse_slot_leaf leaf") auto
  moreover have "is_ok (slot_leaf slot) = (unat slot < MAX_TOURNAMENT_RECORDS)"
    using slot_leaf_ok [of slot] slot_leaf_bound [of slot] by (cases "slot_leaf slot") auto
  ultimately show ?thesis by (simp add: parse_slot_leaf_iff)
qed

end
