(* ===== verification/Client_Ledger.thy ===== *)
theory Client_Ledger
  imports Tournament_Record
begin

text \<open>
  The client's ledger (\<open>src/src/speculation_ledger.rs\<close>): one file per tournament in a directory of the
  client, which records the last request that the client is about to make and the last status that it
  has seen. The file operations are those of \<open>Evidence_FS\<close>, the status is that of
  \<open>Speculation_Core\<close>.

  The JSON encoding of records and the textual form of a UUID come from libraries; they are
  parameters, and \<open>ledger_codecs_ok\<close> says what the ledger relies on: decoding inverts encoding, and a
  UUID prints injectively as 36 hexadecimal digits and hyphens.

  The properties: an entry that an operation returns is valid and is what a later read returns;
  at most one request is outstanding for each generation; a ledger of an earlier boot can only be
  read.
\<close>

section \<open>Data\<close>

datatype client_ledger_schema = LedgerV1

datatype ledger_action = ActionPrepared | ArmRequested | StatusMirrored | FinalizeRequested | RollbackRequested

definition is_requested :: "ledger_action \<Rightarrow> bool" where
  "is_requested a \<longleftrightarrow> a = ArmRequested \<or> a = FinalizeRequested \<or> a = RollbackRequested"

record client_root_identities =
  cr_source :: durable_directory_identity
  cr_candidates :: "durable_directory_identity \<times> durable_directory_identity"
  cr_ledger_root :: durable_directory_identity
  cr_cgroup_root :: durable_directory_identity

record client_ledger_record =
  lr_schema_version :: client_ledger_schema
  lr_tournament_uuid :: uuid
  lr_daemon_instance_uuid :: uuid
  lr_generation :: u64
  lr_action :: ledger_action
  lr_roots :: client_root_identities
  lr_status :: speculation_status

type_synonym client_ledger_entry = "client_ledger_record stored_json"

datatype client_ledger_authority = CurrentBoot | CleanupOnlyAfterBoot

record tournament_ledger_entry =
  tl_entry :: client_ledger_entry
  tl_authority :: client_ledger_authority

text \<open>The library functions that the ledger calls.\<close>

record ledger_codecs =
  lc_to_vec :: "client_ledger_record \<Rightarrow> u8 list option"
  lc_from_slice :: "u8 list \<Rightarrow> client_ledger_record option"
  lc_uuid_text :: "uuid \<Rightarrow> string"

section \<open>Validation\<close>

definition all_roots_share_boot :: "client_root_identities \<Rightarrow> bool" where
  "all_roots_share_boot roots \<longleftrightarrow>
     (let expected = di_boot_uuid (cr_ledger_root roots) in
      di_boot_uuid (cr_source roots) = expected
      \<and> di_boot_uuid (cr_cgroup_root roots) = expected
      \<and> di_boot_uuid (fst (cr_candidates roots)) = expected
      \<and> di_boot_uuid (snd (cr_candidates roots)) = expected)"

definition ledger_validate :: "client_ledger_record \<Rightarrow> unit evidence_result" where
  "ledger_validate r =
     (if lr_schema_version r \<noteq> LedgerV1
         \<or> is_nil (lr_tournament_uuid r)
         \<or> is_nil (lr_daemon_instance_uuid r)
         \<or> lr_generation r = 0
         \<or> lr_tournament_uuid r \<noteq> st_tournament_uuid (lr_status r)
         \<or> lr_daemon_instance_uuid r \<noteq> st_daemon_instance_uuid (lr_status r)
         \<or> lr_generation r \<noteq> st_generation (lr_status r)
         \<or> cand_index (fst (st_candidates (lr_status r))) \<noteq> 0
         \<or> cand_index (snd (st_candidates (lr_status r))) \<noteq> 1
         \<or> \<not> all_roots_share_boot (lr_roots r)
      then Inl Corrupt
      else if lr_action r = ActionPrepared \<and> st_phase (lr_status r) \<noteq> Prepared then Inl Corrupt
      else Inr ())"

definition same_identity_as :: "client_ledger_record \<Rightarrow> client_ledger_record \<Rightarrow> bool" where
  "same_identity_as r other \<longleftrightarrow>
     lr_tournament_uuid r = lr_tournament_uuid other
     \<and> lr_daemon_instance_uuid r = lr_daemon_instance_uuid other
     \<and> lr_roots r = lr_roots other"

definition classify_ledger_authority ::
    "durable_directory_identity \<Rightarrow> durable_directory_identity \<Rightarrow> client_ledger_authority evidence_result" where
  "classify_ledger_authority stored_root current_root =
     (if stored_root = current_root then Inr CurrentBoot
      else if di_boot_uuid stored_root \<noteq> di_boot_uuid current_root then Inr CleanupOnlyAfterBoot
      else Inl Stale)"

text \<open>\<open>CString::new\<close> refuses a name with a NUL.\<close>

definition record_leaf :: "ledger_codecs \<Rightarrow> uuid \<Rightarrow> leaf evidence_result" where
  "record_leaf lc tournament_uuid =
     (let name = lc_uuid_text lc tournament_uuid @ ''.json'' in
      if CHR 0x00 \<in> set name then Inl InvalidLeaf else Inr name)"

section \<open>Operations\<close>

text \<open>The ledger is its directory handle; the directory itself is passed and returned.\<close>

definition require_current_root :: "validated_directory \<Rightarrow> client_ledger_record \<Rightarrow> unit evidence_result" where
  "require_current_root root r =
     (if cr_ledger_root (lr_roots r) \<noteq> vd_identity root then Inl Stale else Inr ())"

definition create_prepared ::
    "ledger_codecs \<Rightarrow> os_answers \<Rightarrow> validated_directory \<Rightarrow> directory \<Rightarrow> client_ledger_record
       \<Rightarrow> directory \<times> client_ledger_entry evidence_result" where
  "create_prepared lc os root d r =
     (case bind_res (ledger_validate r) (\<lambda>_.
           if lr_action r \<noteq> ActionPrepared \<or> cr_ledger_root (lr_roots r) \<noteq> vd_identity root
           then Inl InvalidIdentity
           else record_leaf lc (lr_tournament_uuid r)) of
        Inl e \<Rightarrow> (d, Inl e)
      | Inr leaf \<Rightarrow>
          atomic_create_json (lc_to_vec lc) (lc_from_slice lc) os root d leaf r MAX_SPECULATION_JSON_BYTES)"

definition write_before_action ::
    "ledger_codecs \<Rightarrow> os_answers \<Rightarrow> validated_directory \<Rightarrow> directory \<Rightarrow> client_ledger_entry
       \<Rightarrow> client_ledger_record \<Rightarrow> ledger_action \<Rightarrow> u64 \<Rightarrow> directory \<times> client_ledger_entry evidence_result" where
  "write_before_action lc os root d current r' action generation =
     (case bind_res (ledger_validate (sj_value current)) (\<lambda>_.
           bind_res (ledger_validate r') (\<lambda>_.
           bind_res (require_current_root root (sj_value current)) (\<lambda>_.
           if \<not> same_identity_as (sj_value current) r'
              \<or> lr_action r' \<noteq> action
              \<or> lr_generation r' \<noteq> generation
              \<or> lr_generation (sj_value current) \<noteq> generation
              \<or> is_requested (lr_action (sj_value current))
              \<or> action = ActionPrepared
              \<or> action = StatusMirrored
           then Inl GenerationMismatch
           else record_leaf lc (lr_tournament_uuid r')))) of
        Inl e \<Rightarrow> (d, Inl e)
      | Inr leaf \<Rightarrow>
          atomic_replace_json (lc_to_vec lc) (lc_from_slice lc) os root d leaf (sj_identity current) r'
            MAX_SPECULATION_JSON_BYTES)"

definition mirrored_record :: "client_ledger_record \<Rightarrow> speculation_status \<Rightarrow> client_ledger_record" where
  "mirrored_record current status =
     \<lparr>lr_schema_version = LedgerV1, lr_tournament_uuid = st_tournament_uuid status,
      lr_daemon_instance_uuid = st_daemon_instance_uuid status, lr_generation = st_generation status,
      lr_action = StatusMirrored, lr_roots = lr_roots current, lr_status = status\<rparr>"

definition mirror_status ::
    "ledger_codecs \<Rightarrow> os_answers \<Rightarrow> validated_directory \<Rightarrow> directory \<Rightarrow> client_ledger_entry
       \<Rightarrow> speculation_status \<Rightarrow> directory \<times> client_ledger_entry evidence_result" where
  "mirror_status lc os root d current status =
     (case bind_res (ledger_validate (sj_value current)) (\<lambda>_.
           bind_res (require_current_root root (sj_value current)) (\<lambda>_.
           if st_tournament_uuid status \<noteq> lr_tournament_uuid (sj_value current)
              \<or> st_daemon_instance_uuid status \<noteq> lr_daemon_instance_uuid (sj_value current)
              \<or> st_generation status < lr_generation (sj_value current)
              \<or> is_requested (lr_action (sj_value current))
                \<and> st_generation status = lr_generation (sj_value current)
           then Inl GenerationMismatch
           else bind_res (ledger_validate (mirrored_record (sj_value current) status)) (\<lambda>_.
                record_leaf lc (st_tournament_uuid status)))) of
        Inl e \<Rightarrow> (d, Inl e)
      | Inr leaf \<Rightarrow>
          atomic_replace_json (lc_to_vec lc) (lc_from_slice lc) os root d leaf (sj_identity current)
            (mirrored_record (sj_value current) status) MAX_SPECULATION_JSON_BYTES)"

definition read_verified ::
    "ledger_codecs \<Rightarrow> os_answers \<Rightarrow> validated_directory \<Rightarrow> directory \<Rightarrow> uuid \<Rightarrow> uuid
       \<Rightarrow> client_ledger_entry evidence_result" where
  "read_verified lc os root d tournament_uuid daemon_instance_uuid =
     bind_res (record_leaf lc tournament_uuid) (\<lambda>leaf.
     bind_res (read_json (lc_from_slice lc) os root d leaf MAX_SPECULATION_JSON_BYTES) (\<lambda>entry.
     bind_res (ledger_validate (sj_value entry)) (\<lambda>_.
       if lr_tournament_uuid (sj_value entry) \<noteq> tournament_uuid
          \<or> lr_daemon_instance_uuid (sj_value entry) \<noteq> daemon_instance_uuid
       then Inl Stale
       else bind_res (require_current_root root (sj_value entry)) (\<lambda>_. Inr entry))))"

definition read_tournament ::
    "ledger_codecs \<Rightarrow> os_answers \<Rightarrow> validated_directory \<Rightarrow> directory \<Rightarrow> uuid
       \<Rightarrow> tournament_ledger_entry evidence_result" where
  "read_tournament lc os root d tournament_uuid =
     (if is_nil tournament_uuid then Inl InvalidIdentity
      else
        bind_res (record_leaf lc tournament_uuid) (\<lambda>leaf.
        bind_res (read_json (lc_from_slice lc) os root d leaf MAX_SPECULATION_JSON_BYTES) (\<lambda>entry.
        bind_res (ledger_validate (sj_value entry)) (\<lambda>_.
          if lr_tournament_uuid (sj_value entry) \<noteq> tournament_uuid then Inl Stale
          else
            bind_res (classify_ledger_authority (cr_ledger_root (lr_roots (sj_value entry))) (vd_identity root))
              (\<lambda>authority. Inr \<lparr>tl_entry = entry, tl_authority = authority\<rparr>)))))"

section \<open>What the ledger relies on\<close>

definition uuid_char :: "char \<Rightarrow> bool" where
  "uuid_char c \<longleftrightarrow> c \<in> set ''0123456789abcdef-''"

definition ledger_codecs_ok :: "ledger_codecs \<Rightarrow> bool" where
  "ledger_codecs_ok lc \<longleftrightarrow>
     (\<forall>r bytes. lc_to_vec lc r = Some bytes \<longrightarrow> lc_from_slice lc bytes = Some r)
     \<and> inj (lc_uuid_text lc)
     \<and> (\<forall>u. length (lc_uuid_text lc u) = 36 \<and> list_all uuid_char (lc_uuid_text lc u))"

lemma record_leaf_ok:
  assumes "ledger_codecs_ok lc"
  shows "record_leaf lc u = Inr (lc_uuid_text lc u @ ''.json'')"
    and "\<not> temp_leaf_name (lc_uuid_text lc u @ ''.json'')"
    and "lc_uuid_text lc u @ ''.json'' = lc_uuid_text lc v @ ''.json'' \<longleftrightarrow> u = v"
proof -
  have chars: "list_all uuid_char (lc_uuid_text lc u)" and len: "length (lc_uuid_text lc u) = 36"
    using assms by (auto simp: ledger_codecs_ok_def)
  have "\<not> uuid_char (CHR 0x00)" "\<not> uuid_char (CHR ''.'')" by (simp_all add: uuid_char_def)
  note dot = this
  then have "CHR 0x00 \<notin> set (lc_uuid_text lc u)" using chars unfolding list_all_iff by blast
  then show "record_leaf lc u = Inr (lc_uuid_text lc u @ ''.json'')" by (simp add: record_leaf_def)
  from len obtain c cs where "lc_uuid_text lc u = c # cs" by (cases "lc_uuid_text lc u") auto
  moreover have "c \<noteq> CHR ''.''" using chars dot(2) calculation by auto
  ultimately show "\<not> temp_leaf_name (lc_uuid_text lc u @ ''.json'')"
    by (simp add: temp_leaf_name_def TRANSACTION_TEMP_PREFIX_def)
  show "lc_uuid_text lc u @ ''.json'' = lc_uuid_text lc v @ ''.json'' \<longleftrightarrow> u = v"
    using assms by (simp add: ledger_codecs_ok_def inj_eq)
qed

section \<open>Successful writes\<close>

text \<open>What a successful write leaves: the record under the leaf of its tournament, and every other leaf as
  it was.\<close>

definition stored_entry :: "ledger_codecs \<Rightarrow> u32 \<Rightarrow> directory \<Rightarrow> directory \<Rightarrow> client_ledger_entry \<Rightarrow> bool" where
  "stored_entry lc euid d d' st \<longleftrightarrow>
     (let leaf = lc_uuid_text lc (lr_tournament_uuid (sj_value st)) @ ''.json'' in
      (\<exists>bytes. holds_bytes euid d' leaf (sj_identity st) bytes \<and> lc_from_slice lc bytes = Some (sj_value st)
         \<and> validate_leaf leaf = Inr () \<and> length bytes \<le> MAX_SPECULATION_JSON_BYTES)
      \<and> (\<forall>k. k \<noteq> leaf \<and> \<not> temp_leaf_name k \<longrightarrow> d' k = d k))"

lemma create_stored:
  assumes "ledger_codecs_ok lc" and "u = lr_tournament_uuid r"
    and "atomic_create_json (lc_to_vec lc) (lc_from_slice lc) os root d (lc_uuid_text lc u @ ''.json'') r
      MAX_SPECULATION_JSON_BYTES = (d', Inr st)"
  shows "sj_value st = r \<and> stored_entry lc (os_euid os) d d' st"
proof -
  have ok: "is_ok (validate_leaf (lc_uuid_text lc u @ ''.json''))"
    "is_ok (serialize_bounded (lc_to_vec lc) r MAX_SPECULATION_JSON_BYTES)"
    using write_success_checks(1) assms(3) snd_conv by metis+
  from atomic_create_cases [OF assms(3)] obtain bytes where
    b: "holds_bytes (os_euid os) d' (lc_uuid_text lc u @ ''.json'') (sj_identity st) bytes"
    "lc_from_slice lc bytes = Some (sj_value st)" "lc_to_vec lc r = Some bytes" by auto
  moreover have "sj_value st = r" using b(2,3) assms(1) by (auto simp: ledger_codecs_ok_def)
  moreover have "length bytes \<le> MAX_SPECULATION_JSON_BYTES"
    using ok(2) b(3) by (auto simp: is_ok_iff serialize_bounded_Inr)
  ultimately show ?thesis
    using ok(1) assms(2) atomic_create_frame [OF assms(3)]
    by (auto simp: stored_entry_def Let_def is_ok_unit)
qed

lemma replace_stored:
  assumes "ledger_codecs_ok lc" and "u = lr_tournament_uuid r"
    and "atomic_replace_json (lc_to_vec lc) (lc_from_slice lc) os root d (lc_uuid_text lc u @ ''.json'') i r
      MAX_SPECULATION_JSON_BYTES = (d', Inr st)"
  shows "sj_value st = r \<and> stored_entry lc (os_euid os) d d' st"
proof -
  note leaf = record_leaf_ok(2) [OF assms(1), of u]
  have ok: "is_ok (validate_leaf (lc_uuid_text lc u @ ''.json''))"
    "is_ok (serialize_bounded (lc_to_vec lc) r MAX_SPECULATION_JSON_BYTES)"
    using write_success_checks(2) assms(3) snd_conv by metis+
  from atomic_replace_cases [OF assms(3) not_temp_leaf [OF leaf]] not_temp_leaf [OF leaf] obtain bytes where
    b: "holds_bytes (os_euid os) d' (lc_uuid_text lc u @ ''.json'') (sj_identity st) bytes"
    "lc_from_slice lc bytes = Some (sj_value st)" "lc_to_vec lc r = Some bytes" by auto
  moreover have "sj_value st = r" using b(2,3) assms(1) by (auto simp: ledger_codecs_ok_def)
  moreover have "length bytes \<le> MAX_SPECULATION_JSON_BYTES"
    using ok(2) b(3) by (auto simp: is_ok_iff serialize_bounded_Inr)
  ultimately show ?thesis
    using ok(1) assms(2) atomic_replace_frame [OF assms(3) leaf]
    by (auto simp: stored_entry_def Let_def is_ok_unit)
qed

lemma create_prepared_Inr:
  assumes "ledger_codecs_ok lc" and "create_prepared lc os root d r = (d', Inr st)"
  shows "ledger_validate r = Inr () \<and> cr_ledger_root (lr_roots r) = vd_identity root
    \<and> lr_action r = ActionPrepared \<and> sj_value st = r \<and> stored_entry lc (os_euid os) d d' st"
  using assms create_stored [OF assms(1) refl, of os root d r d' st]
  by (auto simp: create_prepared_def record_leaf_ok(1) split: sum.splits if_splits)

lemma write_before_action_Inr:
  assumes "ledger_codecs_ok lc" and "write_before_action lc os root d e r a g = (d', Inr st)"
  shows "ledger_validate r = Inr () \<and> cr_ledger_root (lr_roots r) = vd_identity root
    \<and> same_identity_as (sj_value e) r \<and> lr_action r = a \<and> is_requested a
    \<and> \<not> is_requested (lr_action (sj_value e)) \<and> lr_generation (sj_value e) = g \<and> lr_generation r = g
    \<and> sj_value st = r \<and> stored_entry lc (os_euid os) d d' st"
  using assms replace_stored [OF assms(1) refl, of os root d r "sj_identity e" d' st]
  by (cases a) (auto simp: write_before_action_def record_leaf_ok(1) require_current_root_def
      same_identity_as_def is_requested_def split: sum.splits if_splits)

lemma mirror_status_Inr:
  assumes "ledger_codecs_ok lc" and "mirror_status lc os root d e s = (d', Inr st)"
  shows "ledger_validate (mirrored_record (sj_value e) s) = Inr ()
    \<and> cr_ledger_root (lr_roots (sj_value e)) = vd_identity root
    \<and> lr_generation (sj_value e) \<le> st_generation s
    \<and> (is_requested (lr_action (sj_value e)) \<longrightarrow> lr_generation (sj_value e) < st_generation s)
    \<and> sj_value st = mirrored_record (sj_value e) s \<and> stored_entry lc (os_euid os) d d' st"
  using assms replace_stored [OF assms(1), of "st_tournament_uuid s" "mirrored_record (sj_value e) s"
      os root d "sj_identity e" d' st]
  by (auto simp: mirror_status_def record_leaf_ok(1) require_current_root_def mirrored_record_def
      not_less order.strict_iff_order split: sum.splits if_splits)

section \<open>Runs of the client\<close>

inductive ledger_step ::
    "ledger_codecs \<Rightarrow> validated_directory \<Rightarrow> directory \<times> client_ledger_entry \<Rightarrow> directory \<times> client_ledger_entry \<Rightarrow> bool"
  for lc root where
  request: "write_before_action lc os root d e r a g = (d', Inr e') \<Longrightarrow> ledger_step lc root (d, e) (d', e')"
| mirror: "mirror_status lc os root d e s = (d', Inr e') \<Longrightarrow> ledger_step lc root (d, e) (d', e')"

text \<open>Twice the generation, plus one while a request is outstanding: it never falls.\<close>

definition ledger_progress :: "client_ledger_record \<Rightarrow> nat" where
  "ledger_progress r = 2 * unat (lr_generation r) + (if is_requested (lr_action r) then 1 else 0)"

lemma ledger_step_progress:
  assumes "ledger_codecs_ok lc" and "ledger_step lc root de de'"
  shows "ledger_progress (sj_value (snd de)) \<le> ledger_progress (sj_value (snd de'))"
  using assms(2)
proof (cases rule: ledger_step.cases)
  case (request os d e r a g d' e')
  then show ?thesis using write_before_action_Inr [OF assms(1) request(3)] by (simp add: ledger_progress_def)
next
  case (mirror os d e s d' e')
  with mirror_status_Inr [OF assms(1) mirror(3)] show ?thesis
    by (auto simp: ledger_progress_def mirrored_record_def is_requested_def word_le_nat_alt word_less_nat_alt)
qed

interpretation ledger_clock: state_machine
  "\<lambda>de. ledger_codecs_ok lc \<and> n \<le> ledger_progress (sj_value (snd de))" "ledger_step lc root"
  "\<lambda>de. ledger_codecs_ok lc \<and> n \<le> ledger_progress (sj_value (snd de))"
  for lc :: ledger_codecs and root :: validated_directory and n :: nat
  by unfold_locales (auto dest: ledger_step_progress)

section \<open>Properties\<close>

text \<open>A successful write of the ledger can be read back: the entry that it returns is valid, a
  verified read of the tournament (with a system that answers) returns exactly that entry, and the
  files of all other tournaments are unchanged.\<close>

theorem ledger_write_read_back:
  assumes "ledger_codecs_ok lc"
    and "create_prepared lc os root d r = (d', Inr st)
      \<or> write_before_action lc os root d e r a g = (d', Inr st)
      \<or> mirror_status lc os root d e s = (d', Inr st)"
    and "os_euid os' = os_euid os" "revalidate (os_euid os') root (os_before os') = Inr ()"
    "os_open os' = None" "os_stat os' = None" "os_read os' = None"
  shows "ledger_validate (sj_value st) = Inr ()
    \<and> read_verified lc os' root d' (lr_tournament_uuid (sj_value st)) (lr_daemon_instance_uuid (sj_value st))
        = Inr st
    \<and> (\<forall>u. u \<noteq> lr_tournament_uuid (sj_value st) \<longrightarrow>
          d' (lc_uuid_text lc u @ ''.json'') = d (lc_uuid_text lc u @ ''.json''))"
proof -
  have st: "ledger_validate (sj_value st) = Inr ()" "stored_entry lc (os_euid os) d d' st"
    "cr_ledger_root (lr_roots (sj_value st)) = vd_identity root"
    using assms(2) create_prepared_Inr [OF assms(1)] write_before_action_Inr [OF assms(1)]
      mirror_status_Inr [OF assms(1)]
    by (auto simp: mirrored_record_def)
  let ?u = "lr_tournament_uuid (sj_value st)"
  have "read_json (lc_from_slice lc) os' root d' (lc_uuid_text lc ?u @ ''.json'') MAX_SPECULATION_JSON_BYTES
      = Inr st"
    using st(2) assms(3-) by (auto simp: stored_entry_def Let_def read_json_Inr)
  then have "read_verified lc os' root d' ?u (lr_daemon_instance_uuid (sj_value st)) = Inr st"
    using st(1,3) by (simp add: read_verified_def record_leaf_ok(1) [OF assms(1)] require_current_root_def)
  with st(1,2) show ?thesis
    using record_leaf_ok(2,3) [OF assms(1)] by (simp add: stored_entry_def Let_def)
qed

text \<open>The textual form of a UUID: 32 hexadecimal digits with hyphens after the eighth, twelfth,
  sixteenth and twentieth.\<close>

definition hyphen_positions :: "nat option list" where
  "hyphen_positions = map Some (rev [24..<32]) @ [None] @ map Some (rev [20..<24]) @ [None]
     @ map Some (rev [16..<20]) @ [None] @ map Some (rev [12..<16]) @ [None] @ map Some (rev [0..<12])"

definition hex_digit :: "uuid \<Rightarrow> char" where
  "hex_digit w = ''0123456789abcdef'' ! unat (take_bit 4 w)"

definition hyphenated :: "uuid \<Rightarrow> string" where
  "hyphenated u = map (\<lambda>p. case p of None \<Rightarrow> CHR ''-'' | Some k \<Rightarrow> hex_digit (drop_bit (4 * k) u)) hyphen_positions"

lemma nibble_less: "unat (take_bit 4 (w :: uuid)) < 16"
  using take_bit_nat_less_exp [of 4 "unat w"] by (simp add: unsigned_take_bit_eq)

lemma hex_digit_inject: "hex_digit v = hex_digit w \<longleftrightarrow> take_bit 4 v = take_bit 4 w"
proof
  assume "hex_digit v = hex_digit w"
  then have "unat (take_bit 4 v) = unat (take_bit 4 w)"
    using nth_eq_iff_index_eq [of "''0123456789abcdef''"] nibble_less [of v] nibble_less [of w]
    by (simp add: hex_digit_def)
  then show "take_bit 4 v = take_bit 4 w" by (rule word_unat_eq_iff [THEN iffD2])
qed (simp add: hex_digit_def)

lemma hex_digit_char: "uuid_char (hex_digit w)"
proof -
  have "hex_digit w \<in> set ''0123456789abcdef''"
    unfolding hex_digit_def using nibble_less [of w] by (intro nth_mem) (simp add: eval_nat_numeral)
  moreover have "set ''0123456789abcdef'' \<subseteq> set ''0123456789abcdef-''" by (simp add: insert_commute)
  ultimately show ?thesis unfolding uuid_char_def by (rule rev_subsetD)
qed

lemma hyphenated_shape: "length (hyphenated u) = 36 \<and> list_all uuid_char (hyphenated u)"
proof -
  have "uuid_char (CHR ''-'')" by (simp add: uuid_char_def)
  then show ?thesis
    using hex_digit_char
    by (auto simp: hyphenated_def list_all_iff split: option.splits) (simp add: hyphen_positions_def)
qed

lemma hyphen_positions_all: "k < 32 \<Longrightarrow> Some k \<in> set hyphen_positions"
  by (simp add: hyphen_positions_def image_iff del: upt_rec_numeral) linarith

lemma hyphenated_inject: "inj hyphenated"
proof (rule injI)
  fix u v assume eq: "hyphenated u = hyphenated v"
  have nib: "take_bit 4 (drop_bit (4 * k) u) = take_bit 4 (drop_bit (4 * k) v)" if "k < 32" for k
    using eq hyphen_positions_all [OF that] unfolding hyphenated_def map_eq_conv
    by (auto simp: hex_digit_inject)
  show "u = v"
  proof (rule bit_word_eqI)
    fix n assume n: "n < LENGTH(128)"
    have "bit (take_bit 4 (drop_bit (4 * (n div 4)) u)) (n mod 4)
        = bit (take_bit 4 (drop_bit (4 * (n div 4)) v)) (n mod 4)"
      using nib [of "n div 4"] n by simp
    then show "bit u n = bit v n" by (simp add: bit_take_bit_iff bit_drop_bit_eq)
  qed
qed

definition ledger_roots :: client_root_identities where
  "ledger_roots = \<lparr>cr_source = example_identity, cr_candidates = (example_identity, example_identity),
     cr_ledger_root = example_identity, cr_cgroup_root = example_identity\<rparr>"

definition ledger_example :: "ledger_action \<Rightarrow> client_ledger_record" where
  "ledger_example a = \<lparr>lr_schema_version = LedgerV1, lr_tournament_uuid = 5, lr_daemon_instance_uuid = 6,
     lr_generation = 1, lr_action = a, lr_roots = ledger_roots,
     lr_status = example_status\<lparr>st_phase := Prepared, st_generation := 1\<rparr>\<rparr>"

definition mirrored_example :: client_ledger_record where
  "mirrored_example = mirrored_record (ledger_example ArmRequested) (example_status\<lparr>st_generation := 2\<rparr>)"

definition rearmed_example :: client_ledger_record where
  "rearmed_example = mirrored_example\<lparr>lr_action := RollbackRequested\<rparr>"

definition ledger_example_codecs :: ledger_codecs where
  "ledger_example_codecs = \<lparr>
     lc_to_vec = (\<lambda>r. if r = ledger_example ActionPrepared then Some [1]
       else if r = ledger_example ArmRequested then Some [2]
       else if r = mirrored_example then Some [3] else if r = rearmed_example then Some [4] else None),
     lc_from_slice = (\<lambda>b. if b = [1] then Some (ledger_example ActionPrepared)
       else if b = [2] then Some (ledger_example ArmRequested)
       else if b = [3] then Some mirrored_example else if b = [4] then Some rearmed_example else None),
     lc_uuid_text = hyphenated\<rparr>"

lemma ledger_example_codecs_ok: "ledger_codecs_ok ledger_example_codecs"
  using hyphenated_inject hyphenated_shape
  by (auto simp: ledger_codecs_ok_def ledger_example_codecs_def split: if_splits)

lemma ledger_examples_distinct [simp]:
  "ledger_example ArmRequested \<noteq> ledger_example ActionPrepared"
  "mirrored_example \<noteq> ledger_example a" "rearmed_example \<noteq> ledger_example a"
  "rearmed_example \<noteq> mirrored_example"
  by (auto simp: ledger_example_def mirrored_example_def mirrored_record_def rearmed_example_def)

definition ledger_leaf :: leaf where
  "ledger_leaf = hyphenated 5 @ ''.json''"

lemma ledger_leaf_valid: "validate_leaf ledger_leaf = Inr ()" "ledger_leaf \<noteq> transaction_temp_leaf os"
proof -
  have "\<not> uuid_char (CHR ''/'')" by (simp add: uuid_char_def)
  then have "CHR ''/'' \<notin> set (hyphenated 5)" using hyphenated_shape [of 5] unfolding list_all_iff by blast
  moreover have "length ledger_leaf = 41" using hyphenated_shape [of 5] by (simp add: ledger_leaf_def)
  ultimately show "validate_leaf ledger_leaf = Inr ()"
    by (auto simp: validate_leaf_def MAX_LEAF_BYTES_def ledger_leaf_def)
  show "ledger_leaf \<noteq> transaction_temp_leaf os"
    using record_leaf_ok(2) [OF ledger_example_codecs_ok, of 5] not_temp_leaf
    by (simp add: ledger_leaf_def ledger_example_codecs_def)
qed

definition ledger_file :: "u64 \<Rightarrow> u8 \<Rightarrow> fs_file" where
  "ledger_file ino b = \<lparr>f_meta = example_metadata ino 1, f_bytes = [b]\<rparr>"

definition ledger_os :: "u64 \<Rightarrow> os_answers" where
  "ledger_os ino = example_os\<lparr>os_tmp_metadata := example_metadata ino 0\<rparr>"

lemma ledger_replace:
  assumes "to_vec v = Some [b]" and "from_slice [b] = Some v"
  shows "atomic_replace_json to_vec from_slice (ledger_os new) example_vd [ledger_leaf \<mapsto> ledger_file old c]
      ledger_leaf \<lparr>fi_dev = 1, fi_ino = old\<rparr> v MAX_SPECULATION_JSON_BYTES
    = ([ledger_leaf \<mapsto> ledger_file new b], Inr \<lparr>sj_value = v, sj_identity = \<lparr>fi_dev = 1, fi_ino = new\<rparr>\<rparr>)"
  using assms ledger_leaf_valid(1) ledger_leaf_valid(2) [of "ledger_os new"]
  by (simp add: ledger_os_def ledger_file_def atomic_replace_json_def) (simp add: fs_eval Let_def)

definition ledger_entry :: "u64 \<Rightarrow> client_ledger_record \<Rightarrow> client_ledger_entry" where
  "ledger_entry ino r = \<lparr>sj_value = r, sj_identity = \<lparr>fi_dev = 1, fi_ino = ino\<rparr>\<rparr>"

lemmas ledger_eval = ledger_validate_def require_current_root_def same_identity_as_def is_requested_def
  ledger_example_def ledger_roots_def all_roots_share_boot_def is_nil_def example_status_def
  example_vd_def example_candidate_def service_accept_result_def

lemma ledger_example_leaf: "record_leaf ledger_example_codecs 5 = Inr ledger_leaf"
  by (simp add: record_leaf_ok(1) [OF ledger_example_codecs_ok] ledger_leaf_def)
    (simp add: ledger_example_codecs_def)

lemma ledger_arms:
  "write_before_action ledger_example_codecs (ledger_os 20) example_vd [ledger_leaf \<mapsto> ledger_file 10 1]
     (ledger_entry 10 (ledger_example ActionPrepared)) (ledger_example ArmRequested) ArmRequested 1
   = ([ledger_leaf \<mapsto> ledger_file 20 2], Inr (ledger_entry 20 (ledger_example ArmRequested)))"
proof -
  have "ledger_validate (ledger_example a) = Inr ()" for a by (simp add: ledger_eval)
  moreover have "require_current_root example_vd (ledger_example a) = Inr ()" for a by (simp add: ledger_eval)
  moreover have "lr_tournament_uuid (ledger_example a) = 5" "lr_action (ledger_example a) = a"
    "lr_generation (ledger_example a) = 1" "same_identity_as (ledger_example a) (ledger_example b)" for a b
    by (simp_all add: ledger_example_def same_identity_as_def)
  ultimately show ?thesis
    using ledger_replace [of "lc_to_vec ledger_example_codecs" "ledger_example ArmRequested" 2
        "lc_from_slice ledger_example_codecs" 20 10 1] ledger_example_leaf
    by (simp add: write_before_action_def ledger_entry_def is_requested_def)
      (simp add: ledger_example_codecs_def)
qed

theorem ledger_write_read_back_witness:
  "\<exists>d' st. write_before_action ledger_example_codecs (ledger_os 20) example_vd [ledger_leaf \<mapsto> ledger_file 10 1]
       (ledger_entry 10 (ledger_example ActionPrepared)) (ledger_example ArmRequested) ArmRequested 1
       = (d', Inr st)
     \<and> read_verified ledger_example_codecs example_os example_vd d' 5 6 = Inr st"
proof -
  have "revalidate (os_euid example_os) example_vd (os_before example_os) = Inr ()"
    by (simp add: fs_eval)
  moreover have "os_euid example_os = os_euid (ledger_os 20)" "os_open example_os = None"
    "os_stat example_os = None" "os_read example_os = None"
    by (simp_all add: ledger_os_def example_os_def)
  moreover have "lr_tournament_uuid (sj_value (ledger_entry 20 (ledger_example ArmRequested))) = 5"
    "lr_daemon_instance_uuid (sj_value (ledger_entry 20 (ledger_example ArmRequested))) = 6"
    by (simp_all add: ledger_entry_def ledger_example_def)
  ultimately show ?thesis
    using ledger_write_read_back [OF ledger_example_codecs_ok disjI2 [OF disjI1 [OF ledger_arms]],
        of example_os] ledger_arms by auto
qed

text \<open>C19. Requests are made one per generation: after a request was written, no sequence of ledger
  writes allows another request, of any kind, before a status with a greater generation
  has been mirrored.\<close>

theorem one_request_per_generation:
  assumes "ledger_codecs_ok lc"
    and "write_before_action lc os root d e r a g = (d1, Inr e1)"
    and "(ledger_step lc root)\<^sup>*\<^sup>* (d1, e1) (d2, e2)"
    and "write_before_action lc os' root d2 e2 r' a' g' = (d3, Inr e3)"
  shows "g < g' \<and> lr_generation (sj_value e1) = g \<and> lr_generation (sj_value e3) = g'"
proof -
  note first = write_before_action_Inr [OF assms(1,2)] and second = write_before_action_Inr [OF assms(1,4)]
  have "ledger_progress (sj_value e1) \<le> ledger_progress (sj_value e2)"
    using ledger_clock.reachable_inv [of lc "ledger_progress (sj_value e1)" "(d1, e1)" root "(d2, e2)"]
      assms(1,3) by simp
  with first second show ?thesis by (auto simp: ledger_progress_def word_less_nat_alt)
qed

lemma ledger_rearms:
  "mirror_status ledger_example_codecs (ledger_os 30) example_vd [ledger_leaf \<mapsto> ledger_file 20 2]
     (ledger_entry 20 (ledger_example ArmRequested)) (example_status\<lparr>st_generation := 2\<rparr>)
   = ([ledger_leaf \<mapsto> ledger_file 30 3], Inr (ledger_entry 30 mirrored_example))"
  "write_before_action ledger_example_codecs (ledger_os 40) example_vd [ledger_leaf \<mapsto> ledger_file 30 3]
     (ledger_entry 30 mirrored_example) rearmed_example RollbackRequested 2
   = ([ledger_leaf \<mapsto> ledger_file 40 4], Inr (ledger_entry 40 rearmed_example))"
proof -
  have valid: "ledger_validate (ledger_example ArmRequested) = Inr ()"
    "ledger_validate mirrored_example = Inr ()" "ledger_validate rearmed_example = Inr ()"
    "require_current_root example_vd (ledger_example ArmRequested) = Inr ()"
    "require_current_root example_vd mirrored_example = Inr ()"
    by (simp_all add: ledger_eval mirrored_example_def mirrored_record_def rearmed_example_def)
  have fields: "lr_tournament_uuid (ledger_example ArmRequested) = 5" "lr_generation (ledger_example ArmRequested) = 1"
    "lr_daemon_instance_uuid (ledger_example ArmRequested) = 6"
    "st_tournament_uuid example_status = 5" "st_daemon_instance_uuid example_status = 6"
    "lr_tournament_uuid rearmed_example = 5" "lr_action mirrored_example = StatusMirrored"
    "lr_generation mirrored_example = 2" "lr_generation rearmed_example = 2"
    "lr_action rearmed_example = RollbackRequested" "same_identity_as mirrored_example rearmed_example"
    by (simp_all add: ledger_example_def mirrored_example_def mirrored_record_def rearmed_example_def
        same_identity_as_def example_status_def)
  have codec: "lc_to_vec ledger_example_codecs mirrored_example = Some [3]"
    "lc_from_slice ledger_example_codecs [3] = Some mirrored_example"
    "lc_to_vec ledger_example_codecs rearmed_example = Some [4]"
    "lc_from_slice ledger_example_codecs [4] = Some rearmed_example"
    by (simp_all add: ledger_example_codecs_def)
  show "mirror_status ledger_example_codecs (ledger_os 30) example_vd [ledger_leaf \<mapsto> ledger_file 20 2]
     (ledger_entry 20 (ledger_example ArmRequested)) (example_status\<lparr>st_generation := 2\<rparr>)
   = ([ledger_leaf \<mapsto> ledger_file 30 3], Inr (ledger_entry 30 mirrored_example))"
    using ledger_replace [where to_vec = "lc_to_vec ledger_example_codecs" and from_slice = "lc_from_slice ledger_example_codecs",
        OF codec(1,2), of 30 20 2] ledger_example_leaf valid fields
    by (simp add: mirror_status_def ledger_entry_def mirrored_example_def [symmetric])
  show "write_before_action ledger_example_codecs (ledger_os 40) example_vd [ledger_leaf \<mapsto> ledger_file 30 3]
     (ledger_entry 30 mirrored_example) rearmed_example RollbackRequested 2
   = ([ledger_leaf \<mapsto> ledger_file 40 4], Inr (ledger_entry 40 rearmed_example))"
    using ledger_replace [where to_vec = "lc_to_vec ledger_example_codecs" and from_slice = "lc_from_slice ledger_example_codecs",
        OF codec(3,4), of 40 30 3] ledger_example_leaf valid fields
    by (simp add: write_before_action_def ledger_entry_def is_requested_def)
qed

theorem one_request_per_generation_witness:
  "\<exists>d2 e2 d3 e3. (ledger_step ledger_example_codecs example_vd)\<^sup>*\<^sup>*
       ([ledger_leaf \<mapsto> ledger_file 20 2], ledger_entry 20 (ledger_example ArmRequested)) (d2, e2)
     \<and> write_before_action ledger_example_codecs (ledger_os 40) example_vd d2 e2 rearmed_example
         RollbackRequested 2 = (d3, Inr e3)
     \<and> (1 :: u64) < 2 \<and> lr_generation (sj_value e3) = 2"
proof -
  have run: "(ledger_step ledger_example_codecs example_vd)\<^sup>*\<^sup>*
       ([ledger_leaf \<mapsto> ledger_file 20 2], ledger_entry 20 (ledger_example ArmRequested))
       ([ledger_leaf \<mapsto> ledger_file 30 3], ledger_entry 30 mirrored_example)"
    by (rule r_into_rtranclp, rule ledger_step.mirror, rule ledger_rearms(1))
  from one_request_per_generation [OF ledger_example_codecs_ok ledger_arms run ledger_rearms(2)]
    run ledger_rearms(2)
  show ?thesis by blast
qed

text \<open>A ledger of an earlier boot is for cleanup only: an entry that was read with that authority is
  refused by every write and by the verified read; an entry with current authority is exactly what
  the verified read returns; and an entry of the same boot under another root is not returned at all.\<close>

theorem ledger_authority:
  assumes "read_tournament lc os root d u = Inr t"
  shows "if tl_authority t = CurrentBoot
    then read_verified lc os root d u (lr_daemon_instance_uuid (sj_value (tl_entry t))) = Inr (tl_entry t)
    else di_boot_uuid (cr_ledger_root (lr_roots (sj_value (tl_entry t)))) \<noteq> di_boot_uuid (vd_identity root)
      \<and> (\<exists>err. write_before_action lc os' root d' (tl_entry t) r a g = (d', Inl err))
      \<and> mirror_status lc os' root d' (tl_entry t) s = (d', Inl Stale)
      \<and> \<not> is_ok (read_verified lc os root d u daemon)"
proof -
  obtain leaf where t: "record_leaf lc u = Inr leaf"
    "read_json (lc_from_slice lc) os root d leaf MAX_SPECULATION_JSON_BYTES = Inr (tl_entry t)"
    "ledger_validate (sj_value (tl_entry t)) = Inr ()" "lr_tournament_uuid (sj_value (tl_entry t)) = u"
    "classify_ledger_authority (cr_ledger_root (lr_roots (sj_value (tl_entry t)))) (vd_identity root)
       = Inr (tl_authority t)"
    using assms by (auto simp: read_tournament_def split: if_splits)
  show ?thesis
  proof (cases "cr_ledger_root (lr_roots (sj_value (tl_entry t))) = vd_identity root")
    case True
    with t show ?thesis
      by (simp add: classify_ledger_authority_def read_verified_def require_current_root_def)
  next
    case False
    then have auth: "tl_authority t = CleanupOnlyAfterBoot"
      "di_boot_uuid (cr_ledger_root (lr_roots (sj_value (tl_entry t)))) \<noteq> di_boot_uuid (vd_identity root)"
      using t(5) by (auto simp: classify_ledger_authority_def split: if_splits)
    have root: "require_current_root root (sj_value (tl_entry t)) = Inl Stale"
      using False by (simp add: require_current_root_def)
    have "\<exists>err. write_before_action lc os' root d' (tl_entry t) r a g = (d', Inl err)"
      by (cases "ledger_validate r") (simp_all add: write_before_action_def t(3) root)
    moreover have "mirror_status lc os' root d' (tl_entry t) s = (d', Inl Stale)"
      by (simp add: mirror_status_def t(3) root)
    moreover have "\<not> is_ok (read_verified lc os root d u daemon)"
      using t root by (simp add: read_verified_def)
    ultimately show ?thesis using auth by simp
  qed
qed

definition other_root :: validated_directory where
  "other_root = example_vd\<lparr>vd_identity := example_identity\<lparr>di_boot_uuid := 2\<rparr>\<rparr>"

definition other_os :: os_answers where
  "other_os = example_os\<lparr>os_before := example_probe\<lparr>dp_identity := Inr (vd_identity other_root),
     dp_reopened := Inr (vd_identity other_root)\<rparr>\<rparr>"

theorem ledger_authority_witness:
  "\<exists>t. read_tournament ledger_example_codecs other_os other_root [ledger_leaf \<mapsto> ledger_file 10 1] 5 = Inr t
     \<and> tl_authority t = CleanupOnlyAfterBoot
     \<and> mirror_status ledger_example_codecs other_os other_root Map.empty (tl_entry t) example_status
       = (Map.empty, Inl Stale)"
proof -
  have "read_json (lc_from_slice ledger_example_codecs) other_os other_root [ledger_leaf \<mapsto> ledger_file 10 1]
      ledger_leaf MAX_SPECULATION_JSON_BYTES = Inr (ledger_entry 10 (ledger_example ActionPrepared))"
    using ledger_leaf_valid(1)
    by (simp add: read_json_def other_os_def other_root_def ledger_entry_def)
      (simp add: fs_eval record_file_def ledger_file_def ledger_example_codecs_def Let_def)
  moreover have "ledger_validate (ledger_example ActionPrepared) = Inr ()" by (simp add: ledger_eval)
  moreover have "classify_ledger_authority (cr_ledger_root (lr_roots (ledger_example ActionPrepared)))
      (vd_identity other_root) = Inr CleanupOnlyAfterBoot"
    by (simp add: classify_ledger_authority_def ledger_example_def ledger_roots_def other_root_def
        example_identity_def)
  moreover have "lr_tournament_uuid (ledger_example ActionPrepared) = 5" by (simp add: ledger_example_def)
  ultimately have t: "read_tournament ledger_example_codecs other_os other_root [ledger_leaf \<mapsto> ledger_file 10 1] 5
      = Inr \<lparr>tl_entry = ledger_entry 10 (ledger_example ActionPrepared), tl_authority = CleanupOnlyAfterBoot\<rparr>"
    by (simp add: read_tournament_def is_nil_def ledger_example_leaf ledger_entry_def)
  from ledger_authority [OF t] t show ?thesis by force
qed

end
