(* ===== verification/Exit_Events.thy ===== *)
theory Exit_Events
  imports Terminal_Sanitize "HOL-Library.List_Lexorder"
begin

text \<open>
  The events of the exit journal (\<open>src/src/session_lifecycle.rs\<close>, with the public types of
  \<open>src/src/protocol.rs\<close>): what is recorded when a session is ended and when its leader is reaped, how
  loaded events are checked and cleaned, and \<open>fold_events\<close>, which turns a journal into the list of
  recent exits that a client sees.

  Strings are compared by their code points, which is the order of their UTF-8 bytes.
  \<open>Uuid::parse_str\<close> is the parameter \<open>uuid_ok\<close>.
\<close>

section \<open>Public types\<close>

datatype session_exit_trigger =
    ExitLeaderExited | ExitCloseRequested | ExitDaemonShutdown
  | ExitParentCascade ustring | ExitUnknown

datatype exit_list_scope = TopLevel | Children | AllExits

definition scope_from_flags :: "bool \<Rightarrow> bool \<Rightarrow> exit_list_scope" where
  "scope_from_flags all children = (if all then AllExits else if children then Children else TopLevel)"

datatype exit_outcome_state = OutcomePending | OutcomeComplete | OutcomeUnknown

datatype exit_evidence_state =
    EvidenceComplete | DegradedMissingTriggerEvent | Conflicted | StorageDegraded

definition JOURNAL_SCHEMA_VERSION :: ustring where
  "JOURNAL_SCHEMA_VERSION = [0x31, 0x2e, 0x30]"

record recent_session_exit =
  rx_schema_version :: ustring
  rx_session_id :: ustring
  rx_name :: ustring
  rx_pane_id :: ustring
  rx_parent_session_id :: "ustring option"
  rx_parent_pane_id :: "ustring option"
  rx_agent_name :: "ustring option"
  rx_created_unix_ms :: u128
  rx_trigger_claimed_unix_ms :: u128
  rx_reaped_unix_ms :: "u128 option"
  rx_trigger :: session_exit_trigger
  rx_outcome_state :: exit_outcome_state
  rx_exit_code :: "u32 option"
  rx_signal :: "ustring option"
  rx_evidence_state :: exit_evidence_state

section \<open>Fields\<close>

definition MAX_NAME_BYTES :: nat where "MAX_NAME_BYTES = 128"
definition MAX_PANE_BYTES :: nat where "MAX_PANE_BYTES = 64"
definition MAX_AGENT_BYTES :: nat where "MAX_AGENT_BYTES = 64"
definition MAX_SIGNAL_BYTES :: nat where "MAX_SIGNAL_BYTES = 64"

text \<open>\<open>str::is_char_boundary\<close>, the loop that steps back to one, and the slice up to it.\<close>

fun is_char_boundary :: "ustring \<Rightarrow> nat \<Rightarrow> bool" where
  "is_char_boundary s 0 = True"
| "is_char_boundary [] (Suc n) = False"
| "is_char_boundary (c # s) (Suc n) =
     (length (utf8_encode c) \<le> Suc n \<and> is_char_boundary s (Suc n - length (utf8_encode c)))"

fun floor_boundary :: "ustring \<Rightarrow> nat \<Rightarrow> nat" where
  "floor_boundary s 0 = 0"
| "floor_boundary s (Suc n) = (if is_char_boundary s (Suc n) then Suc n else floor_boundary s n)"

fun str_prefix :: "ustring \<Rightarrow> nat \<Rightarrow> ustring" where
  "str_prefix [] n = []"
| "str_prefix (c # s) n =
     (if length (utf8_encode c) \<le> n then c # str_prefix s (n - length (utf8_encode c)) else [])"

definition sanitized_field :: "ustring \<Rightarrow> nat \<Rightarrow> ustring" where
  "sanitized_field v max_bytes =
     (let sanitized = terminal_text v in
      if length (as_bytes sanitized) \<le> max_bytes then sanitized
      else str_prefix sanitized (floor_boundary sanitized max_bytes))"

definition sanitize_exit_signal :: "ustring \<Rightarrow> ustring" where
  "sanitize_exit_signal v = sanitized_field v MAX_SIGNAL_BYTES"

section \<open>Identities\<close>

record lifecycle_identity =
  li_session_id :: ustring
  li_name :: ustring
  li_pane_id :: ustring
  li_parent_session_id :: "ustring option"
  li_parent_pane_id :: "ustring option"
  li_agent_name :: "ustring option"
  li_created_unix_ms :: u128
  li_process_id :: "u32 option"
  li_process_group_id :: "u32 option"
  li_attached_clients :: u64

definition identity_sanitized :: "lifecycle_identity \<Rightarrow> lifecycle_identity" where
  "identity_sanitized i = i\<lparr>
     li_session_id := sanitized_field (li_session_id i) MAX_PANE_BYTES,
     li_name := sanitized_field (li_name i) MAX_NAME_BYTES,
     li_pane_id := sanitized_field (li_pane_id i) MAX_PANE_BYTES,
     li_parent_session_id := map_option (\<lambda>v. sanitized_field v MAX_PANE_BYTES) (li_parent_session_id i),
     li_parent_pane_id := map_option (\<lambda>v. sanitized_field v MAX_PANE_BYTES) (li_parent_pane_id i),
     li_agent_name := map_option (\<lambda>v. sanitized_field v MAX_AGENT_BYTES) (li_agent_name i)\<rparr>"

record stored_identity =
  si_session_id :: ustring
  si_name :: ustring
  si_pane_id :: ustring
  si_parent_session_id :: "ustring option"
  si_parent_pane_id :: "ustring option"
  si_agent_name :: "ustring option"
  si_created_unix_ms :: u64
  si_process_id :: "u32 option"
  si_process_group_id :: "u32 option"
  si_attached_clients :: u64

text \<open>\<open>u64::try_from(..).unwrap_or(u64::MAX)\<close>.\<close>

definition clamp_u64 :: "u128 \<Rightarrow> u64" where
  "clamp_u64 v = (if unat v < 2 ^ 64 then ucast v else - 1)"

definition stored_from :: "lifecycle_identity \<Rightarrow> stored_identity" where
  "stored_from i = (let i = identity_sanitized i in
     \<lparr>si_session_id = li_session_id i, si_name = li_name i, si_pane_id = li_pane_id i,
      si_parent_session_id = li_parent_session_id i, si_parent_pane_id = li_parent_pane_id i,
      si_agent_name = li_agent_name i, si_created_unix_ms = clamp_u64 (li_created_unix_ms i),
      si_process_id = li_process_id i, si_process_group_id = li_process_group_id i,
      si_attached_clients = li_attached_clients i\<rparr>)"

text \<open>The cleaned identity, and whether it differs.\<close>

definition sanitize_loaded :: "stored_identity \<Rightarrow> stored_identity \<times> bool" where
  "sanitize_loaded i = (let i' = i\<lparr>
     si_session_id := sanitized_field (si_session_id i) MAX_PANE_BYTES,
     si_name := sanitized_field (si_name i) MAX_NAME_BYTES,
     si_pane_id := sanitized_field (si_pane_id i) MAX_PANE_BYTES,
     si_parent_session_id := map_option (\<lambda>v. sanitized_field v MAX_PANE_BYTES) (si_parent_session_id i),
     si_parent_pane_id := map_option (\<lambda>v. sanitized_field v MAX_PANE_BYTES) (si_parent_pane_id i),
     si_agent_name := map_option (\<lambda>v. sanitized_field v MAX_AGENT_BYTES) (si_agent_name i)\<rparr>
   in (i', i' \<noteq> i))"

definition starts_with_percent :: "ustring \<Rightarrow> bool" where
  "starts_with_percent s \<longleftrightarrow> take 1 s = [0x25]"

definition has_valid_shape :: "(ustring \<Rightarrow> bool) \<Rightarrow> stored_identity \<Rightarrow> bool" where
  "has_valid_shape uuid_ok i \<longleftrightarrow>
     uuid_ok (si_session_id i)
     \<and> si_name i \<noteq> []
     \<and> starts_with_percent (si_pane_id i)
     \<and> is_none_or (si_parent_session_id i) uuid_ok
     \<and> is_none_or (si_parent_pane_id i) starts_with_percent
     \<and> is_none_or (si_agent_name i) (\<lambda>name. name \<noteq> [])"

definition stable_identity_matches :: "stored_identity \<Rightarrow> stored_identity \<Rightarrow> bool" where
  "stable_identity_matches left right \<longleftrightarrow>
     si_session_id left = si_session_id right
     \<and> si_name left = si_name right
     \<and> si_pane_id left = si_pane_id right
     \<and> si_parent_session_id left = si_parent_session_id right
     \<and> si_parent_pane_id left = si_parent_pane_id right
     \<and> si_agent_name left = si_agent_name right
     \<and> si_created_unix_ms left = si_created_unix_ms right
     \<and> si_process_id left = si_process_id right
     \<and> si_process_group_id left = si_process_group_id right"

section \<open>Events\<close>

datatype lifecycle_event =
    TriggerClaimed (ev_schema_version: ustring) (ev_event_id: uuid) (ev_event_seq: u8)
      (ev_identity: stored_identity) (ev_trigger_claimed_unix_ms: u64) (ev_trigger: session_exit_trigger)
  | LeaderReaped (ev_schema_version: ustring) (ev_event_id: uuid) (ev_event_seq: u8)
      (ev_identity: stored_identity) (ev_trigger_claimed_unix_ms: u64) (ev_reaped_unix_ms: u64)
      (ev_trigger: session_exit_trigger) (ev_exit_code: u32) (ev_signal: "ustring option")

definition trigger_claimed ::
    "uuid \<Rightarrow> lifecycle_identity \<Rightarrow> u128 \<Rightarrow> session_exit_trigger \<Rightarrow> lifecycle_event" where
  "trigger_claimed event_id identity claimed trigger =
     TriggerClaimed JOURNAL_SCHEMA_VERSION event_id 1 (stored_from identity) (clamp_u64 claimed) trigger"

definition leader_reaped ::
    "uuid \<Rightarrow> lifecycle_identity \<Rightarrow> u128 \<Rightarrow> u128 \<Rightarrow> session_exit_trigger \<Rightarrow> u32 \<Rightarrow> ustring option \<Rightarrow> lifecycle_event" where
  "leader_reaped event_id identity claimed reaped trigger exit_code signal =
     LeaderReaped JOURNAL_SCHEMA_VERSION event_id 2 (stored_from identity) (clamp_u64 claimed)
       (clamp_u64 reaped) trigger exit_code (map_option sanitize_exit_signal signal)"

definition event_session_id :: "lifecycle_event \<Rightarrow> ustring" where
  "event_session_id e = si_session_id (ev_identity e)"

definition trigger_claimed_at :: "lifecycle_event \<Rightarrow> u128" where
  "trigger_claimed_at e = ucast (ev_trigger_claimed_unix_ms e)"

text \<open>\<open>sanitize_loaded_trigger\<close> with the trigger as it leaves it.\<close>

fun sanitize_loaded_trigger ::
    "(ustring \<Rightarrow> bool) \<Rightarrow> session_exit_trigger \<Rightarrow> (session_exit_trigger \<times> bool) option" where
  "sanitize_loaded_trigger uuid_ok (ExitParentCascade parent) =
     (let sanitized = sanitized_field parent MAX_PANE_BYTES in
      if uuid_ok sanitized then Some (ExitParentCascade sanitized, parent \<noteq> sanitized) else None)"
| "sanitize_loaded_trigger uuid_ok ExitUnknown = None"
| "sanitize_loaded_trigger uuid_ok t = Some (t, False)"

definition validate_and_sanitize_loaded ::
    "(ustring \<Rightarrow> bool) \<Rightarrow> lifecycle_event \<Rightarrow> (lifecycle_event \<times> bool) option" where
  "validate_and_sanitize_loaded uuid_ok e =
     (case e of
        TriggerClaimed schema event_id event_seq identity claimed trigger \<Rightarrow>
          if schema \<noteq> JOURNAL_SCHEMA_VERSION \<or> event_seq \<noteq> 1 then None
          else (case sanitize_loaded_trigger uuid_ok trigger of
                  None \<Rightarrow> None
                | Some (trigger', c2) \<Rightarrow>
                    (let (identity', c1) = sanitize_loaded identity in
                     if has_valid_shape uuid_ok identity'
                     then Some (TriggerClaimed schema event_id event_seq identity' claimed trigger', c1 \<or> c2)
                     else None))
      | LeaderReaped schema event_id event_seq identity claimed reaped trigger exit_code signal \<Rightarrow>
          if schema \<noteq> JOURNAL_SCHEMA_VERSION \<or> event_seq \<noteq> 2 then None
          else (case sanitize_loaded_trigger uuid_ok trigger of
                  None \<Rightarrow> None
                | Some (trigger', c2) \<Rightarrow>
                    (let (identity', c1) = sanitize_loaded identity;
                         signal' = map_option (\<lambda>v. sanitized_field v MAX_SIGNAL_BYTES) signal in
                     if has_valid_shape uuid_ok identity'
                     then Some (LeaderReaped schema event_id event_seq identity' claimed reaped trigger'
                            exit_code signal', c1 \<or> c2 \<or> signal \<noteq> signal')
                     else None)))"

section \<open>Folding\<close>

record fold_bucket =
  fb_triggers :: "lifecycle_event list"
  fb_reaps :: "lifecycle_event list"

definition empty_bucket :: fold_bucket where
  "empty_bucket = \<lparr>fb_triggers = [], fb_reaps = []\<rparr>"

definition bucket_push :: "lifecycle_event \<Rightarrow> fold_bucket \<Rightarrow> fold_bucket" where
  "bucket_push e b =
     (case e of
        TriggerClaimed _ _ _ _ _ _ \<Rightarrow> b\<lparr>fb_triggers := fb_triggers b @ [e]\<rparr>
      | LeaderReaped _ _ _ _ _ _ _ _ _ \<Rightarrow> b\<lparr>fb_reaps := fb_reaps b @ [e]\<rparr>)"

text \<open>The loop that fills the buckets, with the events already seen.\<close>

fun fill_buckets ::
    "lifecycle_event list \<Rightarrow> lifecycle_event list \<Rightarrow> (ustring \<rightharpoonup> fold_bucket) \<Rightarrow> (ustring \<rightharpoonup> fold_bucket)" where
  "fill_buckets [] seen buckets = buckets"
| "fill_buckets (e # events) seen buckets =
     (if e \<in> set seen then fill_buckets events seen buckets
      else
        (let sid = event_session_id e;
             bucket = (case buckets sid of None \<Rightarrow> empty_bucket | Some b \<Rightarrow> b) in
         fill_buckets events (e # seen) (buckets(sid \<mapsto> bucket_push e bucket))))"

definition bucket_conflicted :: "fold_bucket \<Rightarrow> bool" where
  "bucket_conflicted b \<longleftrightarrow>
     length (fb_triggers b) > 1 \<or> length (fb_reaps b) > 1
     \<or> (case (fb_triggers b, fb_reaps b) of
          (trigger # _, reap # _) \<Rightarrow>
            ev_event_id trigger \<noteq> ev_event_id reap
            \<or> \<not> stable_identity_matches (ev_identity trigger) (ev_identity reap)
            \<or> trigger_claimed_at trigger \<noteq> trigger_claimed_at reap
            \<or> ev_trigger trigger \<noteq> ev_trigger reap
        | _ \<Rightarrow> False)"

definition conflicted_exit :: "ustring \<Rightarrow> recent_session_exit" where
  "conflicted_exit session_id =
     \<lparr>rx_schema_version = JOURNAL_SCHEMA_VERSION, rx_session_id = session_id, rx_name = [], rx_pane_id = [],
      rx_parent_session_id = None, rx_parent_pane_id = None, rx_agent_name = None, rx_created_unix_ms = 0,
      rx_trigger_claimed_unix_ms = 0, rx_reaped_unix_ms = None, rx_trigger = ExitUnknown,
      rx_outcome_state = OutcomeUnknown, rx_exit_code = None, rx_signal = None,
      rx_evidence_state = Conflicted\<rparr>"

definition reported_exit :: "lifecycle_event \<Rightarrow> lifecycle_event option \<Rightarrow> exit_evidence_state \<Rightarrow> recent_session_exit" where
  "reported_exit source reap evidence =
     (let i = ev_identity source in
      \<lparr>rx_schema_version = JOURNAL_SCHEMA_VERSION, rx_session_id = si_session_id i, rx_name = si_name i,
       rx_pane_id = si_pane_id i, rx_parent_session_id = si_parent_session_id i,
       rx_parent_pane_id = si_parent_pane_id i, rx_agent_name = si_agent_name i,
       rx_created_unix_ms = ucast (si_created_unix_ms i),
       rx_trigger_claimed_unix_ms = trigger_claimed_at source,
       rx_reaped_unix_ms = map_option (\<lambda>e. ucast (ev_reaped_unix_ms e)) reap,
       rx_trigger = ev_trigger source,
       rx_outcome_state = (case reap of None \<Rightarrow> OutcomePending | Some _ \<Rightarrow> OutcomeComplete),
       rx_exit_code = map_option ev_exit_code reap,
       rx_signal = (case reap of None \<Rightarrow> None | Some e \<Rightarrow> ev_signal e),
       rx_evidence_state = evidence\<rparr>)"

definition fold_bucket_exit :: "ustring \<Rightarrow> fold_bucket \<Rightarrow> bool \<Rightarrow> recent_session_exit option" where
  "fold_bucket_exit session_id b storage_degraded =
     (let reap = (case fb_reaps b of [] \<Rightarrow> None | e # _ \<Rightarrow> Some e) in
      case fb_triggers b of
        trigger # _ \<Rightarrow>
          Some (if bucket_conflicted b then conflicted_exit session_id
                else reported_exit trigger reap
                  (if storage_degraded then StorageDegraded else EvidenceComplete))
      | [] \<Rightarrow>
          (case reap of
             None \<Rightarrow> None
           | Some r \<Rightarrow>
               Some (if bucket_conflicted b then conflicted_exit session_id
                     else reported_exit r reap
                       (if storage_degraded then StorageDegraded else DegradedMissingTriggerEvent))))"

definition exit_matches_scope :: "recent_session_exit \<Rightarrow> exit_list_scope \<Rightarrow> bool" where
  "exit_matches_scope x scope =
     (case scope of
        TopLevel \<Rightarrow> rx_evidence_state x \<noteq> Conflicted \<and> rx_parent_session_id x = None
      | Children \<Rightarrow> rx_evidence_state x \<noteq> Conflicted \<and> rx_parent_session_id x \<noteq> None
      | AllExits \<Rightarrow> True)"

text \<open>The order of the listing: latest trigger first, then the greater session id; and the stable
  \<open>sort_by\<close>.\<close>

definition exit_before :: "recent_session_exit \<Rightarrow> recent_session_exit \<Rightarrow> bool" where
  "exit_before l r \<longleftrightarrow>
     rx_trigger_claimed_unix_ms r < rx_trigger_claimed_unix_ms l
     \<or> rx_trigger_claimed_unix_ms r = rx_trigger_claimed_unix_ms l \<and> rx_session_id r \<le> rx_session_id l"

fun insert_by :: "('a \<Rightarrow> 'a \<Rightarrow> bool) \<Rightarrow> 'a \<Rightarrow> 'a list \<Rightarrow> 'a list" where
  "insert_by le x [] = [x]"
| "insert_by le x (y # ys) = (if le x y then x # y # ys else y # insert_by le x ys)"

definition sort_by :: "('a \<Rightarrow> 'a \<Rightarrow> bool) \<Rightarrow> 'a list \<Rightarrow> 'a list" where
  "sort_by le xs = foldr (insert_by le) xs []"

text \<open>All exits of a journal, in the order of the listing. A \<open>BTreeMap\<close> yields its entries by key.\<close>

definition all_exits :: "lifecycle_event list \<Rightarrow> bool \<Rightarrow> recent_session_exit list" where
  "all_exits events storage_degraded =
     (let buckets = fill_buckets events [] Map.empty;
          keys = sort (remdups (map event_session_id events)) in
      sort_by exit_before
        (List.map_filter
          (\<lambda>sid. case buckets sid of None \<Rightarrow> None | Some b \<Rightarrow> fold_bucket_exit sid b storage_degraded)
          keys))"

definition fold_events ::
    "lifecycle_event list \<Rightarrow> bool \<Rightarrow> ustring option \<Rightarrow> u16 \<Rightarrow> exit_list_scope \<Rightarrow> recent_session_exit list" where
  "fold_events events storage_degraded target limit scope =
     (let exits = all_exits events storage_degraded in
      case (case target of None \<Rightarrow> None | Some t \<Rightarrow> List.find (\<lambda>x. rx_session_id x = t) exits) of
        Some exact \<Rightarrow> take (unat limit) (if exit_matches_scope exact scope then [exact] else [])
      | None \<Rightarrow>
          (let exits = filter (\<lambda>x. exit_matches_scope x scope) exits;
               exits = (case target of
                          None \<Rightarrow> exits
                        | Some t \<Rightarrow> take 1 (filter (\<lambda>x. rx_name x = t \<or> rx_pane_id x = t) exits)) in
           take (unat limit) exits))"

section \<open>Fields\<close>

lemma utf8_encode_length: "1 \<le> length (utf8_encode c)"
  by (simp add: utf8_encode_def)

lemma as_bytes_Cons [simp]: "as_bytes (c # s) = utf8_encode c @ as_bytes s"
  by (simp add: as_bytes_def)

lemma as_bytes_Nil [simp]: "as_bytes [] = []"
  by (simp add: as_bytes_def)

lemma str_prefix_length: "length (as_bytes (str_prefix s n)) \<le> n"
  by (induction s n rule: str_prefix.induct) auto

lemma str_prefix_take: "\<exists>k. str_prefix s n = take k s"
proof (induction s n rule: str_prefix.induct)
  case (2 c s n)
  show ?case
  proof (cases "length (utf8_encode c) \<le> n")
    case True
    then obtain k where "str_prefix s (n - length (utf8_encode c)) = take k s" using 2 by auto
    with True have "str_prefix (c # s) n = take (Suc k) (c # s)" by simp
    then show ?thesis by blast
  next
    case False
    then show ?thesis by (auto intro: exI [of _ 0])
  qed
qed simp

text \<open>Every prefix of the string that is short enough is a prefix of \<open>str_prefix\<close>.\<close>

lemma str_prefix_longest: "length (as_bytes (take k s)) \<le> n \<Longrightarrow> take k s = take k (str_prefix s n)"
proof (induction s n arbitrary: k rule: str_prefix.induct)
  case (2 c s n)
  then show ?case by (cases k) auto
qed simp

lemma boundary_take: "is_char_boundary s n \<longleftrightarrow> (\<exists>k. length (as_bytes (take k s)) = n)"
proof (induction s n rule: is_char_boundary.induct)
  case (1 s)
  then show ?case by (auto intro: exI [of _ 0])
next
  case (2 n)
  then show ?case by simp
next
  case (3 c s n)
  show ?case
  proof
    assume b: "is_char_boundary (c # s) (Suc n)"
    then obtain k where "length (as_bytes (take k s)) = Suc n - length (utf8_encode c)" using 3 by auto
    with b have "length (as_bytes (take (Suc k) (c # s))) = Suc n" by simp
    then show "\<exists>k. length (as_bytes (take k (c # s))) = Suc n" by blast
  next
    assume "\<exists>k. length (as_bytes (take k (c # s))) = Suc n"
    then obtain k where k: "length (as_bytes (take k (c # s))) = Suc n" by blast
    then obtain j where "k = Suc j" by (cases k) auto
    with k have "length (utf8_encode c) + length (as_bytes (take j s)) = Suc n" by simp
    then have "length (utf8_encode c) \<le> Suc n" "length (as_bytes (take j s)) = Suc n - length (utf8_encode c)"
      by auto
    with 3 show "is_char_boundary (c # s) (Suc n)" by auto
  qed
qed

lemma floor_boundary_spec:
  "floor_boundary s n \<le> n \<and> is_char_boundary s (floor_boundary s n)
   \<and> (\<forall>m\<le>n. is_char_boundary s m \<longrightarrow> m \<le> floor_boundary s n)"
  by (induction s n rule: floor_boundary.induct) (auto simp: le_Suc_eq)

text \<open>The slice at the last boundary is the longest prefix of at most \<open>n\<close> bytes.\<close>

lemma slice_longest:
  "length (as_bytes (take k s)) \<le> n \<Longrightarrow> take k s = take k (str_prefix s (floor_boundary s n))"
  by (rule str_prefix_longest) (use floor_boundary_spec [of s n] boundary_take in blast)

definition plain :: "ustring \<Rightarrow> bool" where
  "plain s \<longleftrightarrow> list_all (\<lambda>c. is_scalar c \<and> \<not> is_c0_or_c1 c) s"

lemma plain_take: "plain s \<Longrightarrow> plain (take k s)"
  by (auto simp: plain_def list_all_iff dest: in_set_takeD)

lemma sanitized_field_keeps: "plain s \<Longrightarrow> length (as_bytes s) \<le> n \<Longrightarrow> sanitized_field s n = s"
  by (simp add: sanitized_field_def plain_def terminal_text_keeps)

lemma sanitized_field_ok: "plain (sanitized_field s n) \<and> length (as_bytes (sanitized_field s n)) \<le> n"
proof -
  have p: "plain (terminal_text s)" by (simp add: plain_def terminal_text_plain)
  obtain k where k: "str_prefix (terminal_text s) (floor_boundary (terminal_text s) n) = take k (terminal_text s)"
    using str_prefix_take by blast
  have "length (as_bytes (str_prefix (terminal_text s) (floor_boundary (terminal_text s) n))) \<le> n"
    using str_prefix_length floor_boundary_spec [of "terminal_text s" n] le_trans by blast
  moreover have "plain (str_prefix (terminal_text s) (floor_boundary (terminal_text s) n))"
    unfolding k using p by (rule plain_take)
  ultimately show ?thesis using p by (simp add: sanitized_field_def Let_def)
qed

lemma sanitized_field_idem [simp]: "sanitized_field (sanitized_field s n) n = sanitized_field s n"
  using sanitized_field_ok by (intro sanitized_field_keeps) auto

section \<open>Loading what was stored\<close>

lemma sanitize_loaded_stored: "sanitize_loaded (stored_from i) = (stored_from i, False)"
  by (simp add: sanitize_loaded_def stored_from_def identity_sanitized_def Let_def option.map_comp comp_def)

section \<open>Buckets\<close>

text \<open>The events in their order, each once.\<close>

fun first_events :: "lifecycle_event list \<Rightarrow> lifecycle_event list \<Rightarrow> lifecycle_event list" where
  "first_events seen [] = []"
| "first_events seen (e # es) =
     (if e \<in> set seen then first_events seen es else e # first_events (e # seen) es)"

lemma set_first_events: "set (first_events seen es) = set es - set seen"
  by (induction seen es rule: first_events.induct) auto

lemma distinct_first_events: "distinct (first_events seen es)"
  by (induction seen es rule: first_events.induct) (auto simp: set_first_events)

definition session_triggers :: "ustring \<Rightarrow> lifecycle_event list \<Rightarrow> lifecycle_event list" where
  "session_triggers sid es = filter (\<lambda>e. is_TriggerClaimed e \<and> event_session_id e = sid) es"

definition session_reaps :: "ustring \<Rightarrow> lifecycle_event list \<Rightarrow> lifecycle_event list" where
  "session_reaps sid es = filter (\<lambda>e. \<not> is_TriggerClaimed e \<and> event_session_id e = sid) es"

definition extend_bucket :: "ustring \<Rightarrow> lifecycle_event list \<Rightarrow> fold_bucket option \<Rightarrow> fold_bucket option" where
  "extend_bucket sid es b =
     (if list_ex (\<lambda>e. event_session_id e = sid) es \<or> b \<noteq> None
      then Some (let b = (case b of None \<Rightarrow> empty_bucket | Some b \<Rightarrow> b) in
        \<lparr>fb_triggers = fb_triggers b @ session_triggers sid es, fb_reaps = fb_reaps b @ session_reaps sid es\<rparr>)
      else None)"

lemma bucket_push_eq:
  "bucket_push e b = (if is_TriggerClaimed e then b\<lparr>fb_triggers := fb_triggers b @ [e]\<rparr>
     else b\<lparr>fb_reaps := fb_reaps b @ [e]\<rparr>)"
  by (cases e) (simp_all add: bucket_push_def)

definition bucket_or_empty :: "fold_bucket option \<Rightarrow> fold_bucket" where
  "bucket_or_empty b = (case b of None \<Rightarrow> empty_bucket | Some b \<Rightarrow> b)"

lemma extend_bucket_Cons:
  "extend_bucket sid (e # es) b = extend_bucket sid es
     (if event_session_id e = sid then Some (bucket_push e (bucket_or_empty b)) else b)"
  by (cases b) (auto simp: extend_bucket_def bucket_push_eq bucket_or_empty_def session_triggers_def
      session_reaps_def empty_bucket_def Let_def)

lemma fill_buckets_extend:
  "fill_buckets es seen buckets sid = extend_bucket sid (first_events seen es) (buckets sid)"
proof (induction es arbitrary: seen buckets)
  case Nil
  then show ?case
    by (auto simp: extend_bucket_def session_triggers_def session_reaps_def split: option.splits)
next
  case (Cons e es)
  then show ?case by (simp add: extend_bucket_Cons bucket_or_empty_def [symmetric] Let_def)
qed

text \<open>The exit of a session is a function of the set of its events.\<close>

definition session_exit :: "lifecycle_event list \<Rightarrow> bool \<Rightarrow> ustring \<Rightarrow> recent_session_exit option" where
  "session_exit es degraded sid =
     fold_bucket_exit sid \<lparr>fb_triggers = session_triggers sid (first_events [] es),
       fb_reaps = session_reaps sid (first_events [] es)\<rparr> degraded"

lemma fold_bucket_exit_empty: "fold_bucket_exit sid \<lparr>fb_triggers = [], fb_reaps = []\<rparr> deg = None"
  by (simp add: fold_bucket_exit_def)

lemma bucket_exit:
  "(case fill_buckets es [] Map.empty sid of None \<Rightarrow> None | Some b \<Rightarrow> fold_bucket_exit sid b deg)
   = session_exit es deg sid"
proof (cases "list_ex (\<lambda>e. event_session_id e = sid) (first_events [] es)")
  case False
  then have "session_triggers sid (first_events [] es) = []" "session_reaps sid (first_events [] es) = []"
    by (auto simp: list_ex_iff session_triggers_def session_reaps_def filter_empty_conv)
  with False show ?thesis
    by (simp add: fill_buckets_extend extend_bucket_def session_exit_def fold_bucket_exit_empty)
qed (simp add: fill_buckets_extend extend_bucket_def session_exit_def empty_bucket_def)

lemma short_lists_eq:
  assumes "distinct xs" "distinct ys" "set xs = set ys" "length xs \<le> 1"
  shows "xs = ys"
proof -
  have "length ys = length xs" using assms(1-3) by (metis distinct_card)
  with assms(3,4) show ?thesis by (cases xs; cases ys) auto
qed

lemma bucket_exit_cong:
  assumes "distinct ts" "distinct ts'" "set ts = set ts'" "distinct rs" "distinct rs'" "set rs = set rs'"
  shows "fold_bucket_exit sid \<lparr>fb_triggers = ts, fb_reaps = rs\<rparr> deg
    = fold_bucket_exit sid \<lparr>fb_triggers = ts', fb_reaps = rs'\<rparr> deg"
proof -
  have len: "length ts' = length ts" "length rs' = length rs" using assms by (metis distinct_card)+
  show ?thesis
  proof (cases "length ts \<le> 1 \<and> length rs \<le> 1")
    case True
    then have "ts = ts'" "rs = rs'" using assms short_lists_eq by blast+
    then show ?thesis by simp
  next
    case False
    then have "bucket_conflicted \<lparr>fb_triggers = ts, fb_reaps = rs\<rparr>"
      "bucket_conflicted \<lparr>fb_triggers = ts', fb_reaps = rs'\<rparr>" using len by (auto simp: bucket_conflicted_def)
    then show ?thesis
      using len by (cases ts; cases ts'; cases rs; cases rs') (auto simp: fold_bucket_exit_def Let_def)
  qed
qed

lemma session_exit_cong: "set es = set es' \<Longrightarrow> session_exit es deg sid = session_exit es' deg sid"
  unfolding session_exit_def
  by (rule bucket_exit_cong)
    (simp_all add: session_triggers_def session_reaps_def distinct_first_events set_first_events)

lemma sort_remdups_cong: "set xs = set (ys :: 'a::linorder list) \<Longrightarrow> sort (remdups xs) = sort (remdups ys)"
  by (intro sorted_distinct_set_unique) auto

lemma all_exits_cong: "set es = set es' \<Longrightarrow> all_exits es deg = all_exits es' deg"
  using sort_remdups_cong [of "map event_session_id es" "map event_session_id es'"]
  by (simp add: all_exits_def bucket_exit Let_def session_exit_cong [of es es'])

section \<open>The listing\<close>

lemma set_insert_by [simp]: "set (insert_by le x xs) = insert x (set xs)"
  by (induction xs) auto

lemma set_sort_by [simp]: "set (sort_by le xs) = set xs"
  by (induction xs) (auto simp: sort_by_def)

lemma distinct_map_insert_by:
  "distinct (map f (insert_by le x xs)) \<longleftrightarrow> f x \<notin> f ` set xs \<and> distinct (map f xs)"
  by (induction xs) auto

lemma distinct_map_sort_by: "distinct (map f (sort_by le xs)) \<longleftrightarrow> distinct (map f xs)"
proof (induction xs)
  case (Cons x xs)
  have "set (foldr (insert_by le) xs []) = set xs" using set_sort_by [of le xs] by (simp add: sort_by_def)
  with Cons show ?case by (simp add: sort_by_def distinct_map_insert_by)
qed (simp add: sort_by_def)

lemma sorted_insert_by:
  assumes "transp le" "totalp le" "reflp le" "sorted_wrt le xs"
  shows "sorted_wrt le (insert_by le x xs)"
  using assms(4)
proof (induction xs)
  case (Cons y ys)
  have "le y x" if "\<not> le x y"
    using that assms(2,3) by (metis reflpD totalpD)
  with Cons show ?case using assms(1) by (auto dest: transpD)
qed simp

lemma sorted_sort_by: "transp le \<Longrightarrow> totalp le \<Longrightarrow> reflp le \<Longrightarrow> sorted_wrt le (sort_by le xs)"
  by (induction xs) (auto simp: sort_by_def intro: sorted_insert_by)

lemma exit_before_order: "transp exit_before" "totalp exit_before" "reflp exit_before"
  by (auto simp: transp_def totalp_on_def reflp_def exit_before_def)

lemma session_exit_id: "session_exit es deg sid = Some x \<Longrightarrow> rx_session_id x = sid"
  by (auto simp: session_exit_def fold_bucket_exit_def conflicted_exit_def reported_exit_def Let_def
      session_triggers_def session_reaps_def event_session_id_def filter_eq_Cons_iff
      split: list.splits option.splits if_splits)

lemma in_map_filter: "x \<in> set (List.map_filter f xs) \<longleftrightarrow> (\<exists>a\<in>set xs. f a = Some x)"
  by (induction xs) (auto simp: map_filter_simps split: option.splits)

lemma set_all_exits:
  "x \<in> set (all_exits es deg) \<longleftrightarrow> (\<exists>sid\<in>event_session_id ` set es. session_exit es deg sid = Some x)"
  by (simp add: all_exits_def bucket_exit Let_def in_map_filter)

lemma distinct_map_filter_ids:
  assumes "distinct sids" "\<And>sid x. f sid = Some x \<Longrightarrow> g x = sid"
  shows "distinct (map g (List.map_filter f sids))"
  using assms(1)
proof (induction sids)
  case (Cons sid sids)
  have "g ` set (List.map_filter f sids) \<subseteq> set sids" using assms(2) by (auto simp: in_map_filter)
  with Cons assms(2) show ?case by (auto simp: map_filter_simps split: option.splits)
qed (simp add: map_filter_simps)

lemma all_exits_distinct: "distinct (map rx_session_id (all_exits es deg))"
proof -
  have "distinct (map rx_session_id (List.map_filter (session_exit es deg)
      (sort (remdups (map event_session_id es)))))"
    by (rule distinct_map_filter_ids) (auto dest: session_exit_id)
  then show ?thesis by (simp add: all_exits_def bucket_exit Let_def distinct_map_sort_by)
qed

lemma all_exits_sorted: "sorted_wrt exit_before (all_exits es deg)"
  by (simp add: all_exits_def Let_def sorted_sort_by exit_before_order)

text \<open>The listing is a part of all exits, in their order.\<close>

lemma find_Some: "List.find P xs = Some x \<Longrightarrow> x \<in> set xs \<and> P x"
  by (auto simp: find_Some_iff)

lemma sorted_distinct_part:
  assumes "sorted_wrt le xs" "distinct (map f xs)"
  shows "sorted_wrt le (take n (filter p xs)) \<and> distinct (map f (take n (filter p xs)))"
proof -
  have "distinct (map f (filter p xs))" using assms(2) by (simp add: distinct_map_filter)
  then show ?thesis
    using assms(1) by (simp add: sorted_wrt_filter sorted_wrt_take take_map [symmetric])
qed

lemma fold_events_cases:
  "(\<exists>p n. n \<le> unat limit \<and> fold_events es deg target limit scope
       = take n (filter (\<lambda>x. exit_matches_scope x scope \<and> p x) (all_exits es deg)))
   \<or> (\<exists>x\<in>set (all_exits es deg). exit_matches_scope x scope
        \<and> fold_events es deg target limit scope = take (unat limit) [x])"
proof (cases target)
  case None
  then have "fold_events es deg target limit scope
      = take (unat limit) (filter (\<lambda>x. exit_matches_scope x scope \<and> True) (all_exits es deg))"
    by (simp add: fold_events_def Let_def)
  then show ?thesis by (intro disjI1 exI [of _ "\<lambda>x. True"] exI [of _ "unat limit"]) simp
next
  case (Some t)
  let ?q = "\<lambda>x. rx_name x = t \<or> rx_pane_id x = t"
  show ?thesis
  proof (cases "List.find (\<lambda>x. rx_session_id x = t) (all_exits es deg)")
    case None
    then have "fold_events es deg target limit scope = take (min (unat limit) 1)
        (filter (\<lambda>x. exit_matches_scope x scope \<and> ?q x) (all_exits es deg))"
      using Some by (simp add: fold_events_def Let_def take_take conj_commute)
    then show ?thesis by (intro disjI1 exI [of _ ?q] exI [of _ "min (unat limit) 1"]) simp
  next
    case (Some x)
    then have x: "x \<in> set (all_exits es deg)" by (auto dest: find_Some)
    have "fold_events es deg target limit scope
        = take (unat limit) (if exit_matches_scope x scope then [x] else [])"
      using Some \<open>target = Some t\<close> by (simp add: fold_events_def Let_def)
    then show ?thesis
    proof (cases "exit_matches_scope x scope")
      case False
      then have "fold_events es deg target limit scope
          = take 0 (filter (\<lambda>x. exit_matches_scope x scope \<and> True) (all_exits es deg))"
        using \<open>fold_events es deg target limit scope = _\<close> by simp
      then show ?thesis by (intro disjI1 exI [of _ "\<lambda>x. True"] exI [of _ 0]) simp
    qed (use x in auto)
  qed
qed

lemma fold_events_part:
  "set (fold_events es deg target limit scope) \<subseteq> {x \<in> set (all_exits es deg). exit_matches_scope x scope}
   \<and> sorted_wrt exit_before (fold_events es deg target limit scope)
   \<and> distinct (map rx_session_id (fold_events es deg target limit scope))
   \<and> length (fold_events es deg target limit scope) \<le> unat limit"
  using fold_events_cases [of limit es deg target scope]
proof (elim disjE exE conjE bexE)
  fix p n
  assume n: "n \<le> unat limit" and f: "fold_events es deg target limit scope
      = take n (filter (\<lambda>x. exit_matches_scope x scope \<and> p x) (all_exits es deg))"
  note parts = sorted_distinct_part [OF all_exits_sorted all_exits_distinct]
  have "set (fold_events es deg target limit scope) \<subseteq> {x \<in> set (all_exits es deg). exit_matches_scope x scope}"
    unfolding f by (auto dest: in_set_takeD)
  then show ?thesis using parts [where n = n] n f by auto
next
  fix x assume "x \<in> set (all_exits es deg)" "exit_matches_scope x scope"
    "fold_events es deg target limit scope = take (unat limit) [x]"
  then show ?thesis by (cases "unat limit") auto
qed

section \<open>What an exit reports\<close>

lemma session_events:
  "set (session_triggers sid (first_events [] es)) = {e \<in> set es. is_TriggerClaimed e \<and> event_session_id e = sid}"
  "set (session_reaps sid (first_events [] es)) = {e \<in> set es. \<not> is_TriggerClaimed e \<and> event_session_id e = sid}"
  by (auto simp: session_triggers_def session_reaps_def set_first_events)

lemma stable_identity_refl [simp]: "stable_identity_matches i i"
  by (simp add: stable_identity_matches_def)

text \<open>Two events of a session agree when they could be the claim and the reaping of one exit.\<close>

definition events_agree :: "lifecycle_event \<Rightarrow> lifecycle_event \<Rightarrow> bool" where
  "events_agree a b \<longleftrightarrow> a = b \<or> is_TriggerClaimed a \<noteq> is_TriggerClaimed b
     \<and> ev_event_id a = ev_event_id b \<and> stable_identity_matches (ev_identity a) (ev_identity b)
     \<and> trigger_claimed_at a = trigger_claimed_at b \<and> ev_trigger a = ev_trigger b"

lemma stable_identity_sym: "stable_identity_matches a b \<longleftrightarrow> stable_identity_matches b a"
  by (auto simp: stable_identity_matches_def)

lemma distinct_two: "distinct xs \<Longrightarrow> length xs > 1 \<Longrightarrow> \<exists>a b. a \<in> set xs \<and> b \<in> set xs \<and> a \<noteq> b"
  by (cases xs; cases "tl xs") auto

lemma short_list_cases: "\<not> length xs > 1 \<Longrightarrow> xs = [] \<or> (\<exists>x. xs = [x])"
  by (cases xs; cases "tl xs") auto

lemma conflicted_iff:
  assumes "distinct ts" "distinct rs" "\<forall>e\<in>set ts. is_TriggerClaimed e" "\<forall>e\<in>set rs. \<not> is_TriggerClaimed e"
  shows "bucket_conflicted \<lparr>fb_triggers = ts, fb_reaps = rs\<rparr>
    \<longleftrightarrow> (\<exists>a\<in>set ts \<union> set rs. \<exists>b\<in>set ts \<union> set rs. \<not> events_agree a b)"
proof (cases "length ts > 1 \<or> length rs > 1")
  case True
  then obtain a b where "a \<in> set ts \<and> b \<in> set ts \<or> a \<in> set rs \<and> b \<in> set rs" "a \<noteq> b"
    using distinct_two [OF assms(1)] distinct_two [OF assms(2)] by blast
  then have "a \<in> set ts \<union> set rs" "b \<in> set ts \<union> set rs" "\<not> events_agree a b"
    using assms(3,4) by (auto simp: events_agree_def)
  with True show ?thesis by (auto simp: bucket_conflicted_def)
next
  case False
  then have "ts = [] \<or> (\<exists>x. ts = [x])" "rs = [] \<or> (\<exists>x. rs = [x])" using short_list_cases by blast+
  then show ?thesis
    using assms(3,4) by (auto simp: bucket_conflicted_def events_agree_def stable_identity_sym)
qed

lemma reported_evidence [simp]:
  "rx_evidence_state (reported_exit s r ev) = ev" "rx_evidence_state (conflicted_exit sid) = Conflicted"
  by (simp_all add: reported_exit_def conflicted_exit_def Let_def)

lemma session_exit_report:
  assumes "session_exit es degraded sid = Some x"
  defines "own \<equiv> {e \<in> set es. event_session_id e = sid}"
  shows "if \<exists>a\<in>own. \<exists>b\<in>own. \<not> events_agree a b then x = conflicted_exit sid
    else \<exists>source\<in>own. \<exists>reap. (case reap of None \<Rightarrow> \<forall>e\<in>own. is_TriggerClaimed e
            | Some r \<Rightarrow> r \<in> own \<and> \<not> is_TriggerClaimed r)
          \<and> x = reported_exit source reap (if degraded then StorageDegraded
              else if \<exists>e\<in>own. is_TriggerClaimed e then EvidenceComplete else DegradedMissingTriggerEvent)"
proof -
  let ?ts = "session_triggers sid (first_events [] es)" and ?rs = "session_reaps sid (first_events [] es)"
  have own: "own = set ?ts \<union> set ?rs" by (auto simp: own_def session_events)
  have kinds: "\<forall>e\<in>set ?ts. is_TriggerClaimed e" "\<forall>e\<in>set ?rs. \<not> is_TriggerClaimed e"
    by (simp_all add: session_events)
  have dist: "distinct ?ts" "distinct ?rs"
    by (simp_all add: session_triggers_def session_reaps_def distinct_first_events)
  have conf: "bucket_conflicted \<lparr>fb_triggers = ?ts, fb_reaps = ?rs\<rparr> \<longleftrightarrow> (\<exists>a\<in>own. \<exists>b\<in>own. \<not> events_agree a b)"
    unfolding own by (rule conflicted_iff [OF dist kinds])
  show ?thesis
  proof (cases ?ts)
    case Nil
    with assms(1) obtain r rs where r: "?rs = r # rs"
      by (auto simp: session_exit_def fold_bucket_exit_def Let_def split: list.splits)
    then have "x = (if \<exists>a\<in>own. \<exists>b\<in>own. \<not> events_agree a b then conflicted_exit sid
        else reported_exit r (Some r) (if degraded then StorageDegraded else DegradedMissingTriggerEvent))"
      using assms(1) Nil unfolding conf [symmetric] by (simp add: session_exit_def fold_bucket_exit_def Let_def)
    moreover have "r \<in> own" "\<not> is_TriggerClaimed r" using r kinds own by auto
    moreover have "\<not> (\<exists>e\<in>own. is_TriggerClaimed e)" using own kinds Nil by auto
    ultimately show ?thesis by (auto intro!: bexI [of _ r] exI [of _ "Some r"])
  next
    case (Cons t ts)
    let ?reap = "case ?rs of [] \<Rightarrow> None | e # _ \<Rightarrow> Some e"
    have "x = (if \<exists>a\<in>own. \<exists>b\<in>own. \<not> events_agree a b then conflicted_exit sid
        else reported_exit t ?reap (if degraded then StorageDegraded else EvidenceComplete))"
      using assms(1) Cons unfolding conf [symmetric] by (simp add: session_exit_def fold_bucket_exit_def Let_def)
    moreover have "t \<in> own" "is_TriggerClaimed t" using Cons kinds own by auto
    moreover have "case ?reap of None \<Rightarrow> \<forall>e\<in>own. is_TriggerClaimed e | Some r \<Rightarrow> r \<in> own \<and> \<not> is_TriggerClaimed r"
      using own kinds by (auto split: list.splits)
    ultimately show ?thesis by (auto intro!: bexI [of _ t] exI [of _ ?reap])
  qed
qed

section \<open>Properties\<close>

text \<open>C31. The listing is a function of the set of events: neither the order in which events reached
  the journal nor repeated events change what is reported.\<close>

theorem journal_order_irrelevant:
  assumes "set es = set es'"
  shows "fold_events es degraded target limit scope = fold_events es' degraded target limit scope"
  by (simp add: fold_events_def all_exits_cong [OF assms])

text \<open>Reports are faithful and fail closed: an exit in the listing is that of a session with events in the
  journal. If two events of the session disagree, the exit is marked as conflicted and carries nothing
  but the session id; otherwise it reports exactly what one of them says, with the exit code
  and signal of the reaping event when there is one, and says when the claim is missing or the storage is
  degraded.\<close>

theorem exit_report_faithful:
  assumes "x \<in> set (fold_events es degraded target limit scope)"
  shows "let own = {e \<in> set es. event_session_id e = rx_session_id x} in
    exit_matches_scope x scope \<and> own \<noteq> {}
    \<and> (if \<exists>a\<in>own. \<exists>b\<in>own. \<not> events_agree a b then x = conflicted_exit (rx_session_id x)
       else \<exists>source\<in>own. \<exists>reap. (case reap of None \<Rightarrow> \<forall>e\<in>own. is_TriggerClaimed e
            | Some r \<Rightarrow> r \<in> own \<and> \<not> is_TriggerClaimed r)
          \<and> x = reported_exit source reap (if degraded then StorageDegraded
              else if \<exists>e\<in>own. is_TriggerClaimed e then EvidenceComplete else DegradedMissingTriggerEvent))"
proof -
  have x: "x \<in> set (all_exits es degraded)" "exit_matches_scope x scope"
    using fold_events_part [of es degraded target limit scope] assms by auto
  then obtain e where e: "e \<in> set es" "session_exit es degraded (event_session_id e) = Some x"
    by (auto simp: set_all_exits)
  then have "session_exit es degraded (rx_session_id x) = Some x" "event_session_id e = rx_session_id x"
    using session_exit_id by auto
  with session_exit_report [OF this(1)] x(2) e(1) show ?thesis unfolding Let_def by blast
qed

text \<open>The listing is in order and bounded: the latest exits come first, each session appears at most once,
  and there are no more exits than asked for.\<close>

theorem exit_listing_ordered:
  "sorted_wrt exit_before (fold_events es degraded target limit scope)
   \<and> distinct (map rx_session_id (fold_events es degraded target limit scope))
   \<and> length (fold_events es degraded target limit scope) \<le> unat limit"
  using fold_events_part [of es degraded target limit scope] by blast

text \<open>Stored fields are clean and as long as they may be: a sanitised field has no control
  character, fits its limit in bytes, keeps every prefix of the cleaned text that fits, and is not changed
  by a second pass.\<close>

theorem sanitized_field_correct:
  "list_all (\<lambda>c. is_scalar c \<and> \<not> is_c0_or_c1 c) (sanitized_field s n)
   \<and> length (as_bytes (sanitized_field s n)) \<le> n
   \<and> (if length (as_bytes (take k (terminal_text s))) \<le> n
      then take k (sanitized_field s n) = take k (terminal_text s) else True)
   \<and> sanitized_field (sanitized_field s n) n = sanitized_field s n"
proof -
  have "take k (sanitized_field s n) = take k (terminal_text s)"
    if "length (as_bytes (take k (terminal_text s))) \<le> n"
    using slice_longest [OF that] by (simp add: sanitized_field_def Let_def)
  then show ?thesis using sanitized_field_ok [of s n] by (simp add: plain_def)
qed

text \<open>What is stored is loaded as it was: an event that the journal makes is accepted
  unchanged when it is read back, and does not mark the journal as degraded, provided that the
  identity has its required shape and the parent in the trigger is a clean UUID.\<close>

theorem stored_events_load_unchanged:
  assumes "has_valid_shape uuid_ok (stored_from i)"
    and "sanitize_loaded_trigger uuid_ok trigger = Some (trigger, False)"
  shows "validate_and_sanitize_loaded uuid_ok (trigger_claimed event_id i claimed trigger)
      = Some (trigger_claimed event_id i claimed trigger, False)
    \<and> validate_and_sanitize_loaded uuid_ok (leader_reaped event_id i claimed reaped trigger exit_code signal)
      = Some (leader_reaped event_id i claimed reaped trigger exit_code signal, False)"
  using assms
  by (simp add: validate_and_sanitize_loaded_def trigger_claimed_def leader_reaped_def
      sanitize_loaded_stored Let_def option.map_comp comp_def sanitize_exit_signal_def
      cong: option.map_cong)

definition example_lifecycle_identity :: lifecycle_identity where
  "example_lifecycle_identity = \<lparr>li_session_id = [0x61], li_name = [0x6e], li_pane_id = [0x25, 0x31],
     li_parent_session_id = None, li_parent_pane_id = None, li_agent_name = None, li_created_unix_ms = 1,
     li_process_id = Some 5, li_process_group_id = None, li_attached_clients = 0\<rparr>"

lemma example_identity_stored:
  "stored_from example_lifecycle_identity = \<lparr>si_session_id = [0x61], si_name = [0x6e], si_pane_id = [0x25, 0x31],
     si_parent_session_id = None, si_parent_pane_id = None, si_agent_name = None, si_created_unix_ms = 1,
     si_process_id = Some 5, si_process_group_id = None, si_attached_clients = 0\<rparr>"
proof -
  have "sanitized_field s n = s" if "s \<in> {[0x61], [0x6e], [0x25, 0x31]}" "n \<in> {MAX_PANE_BYTES, MAX_NAME_BYTES}" for s n
    using that by (intro sanitized_field_keeps)
      (auto simp: plain_def is_scalar_def is_c0_or_c1_def utf8_encode_def MAX_PANE_BYTES_def MAX_NAME_BYTES_def)
  then show ?thesis
    by (simp add: stored_from_def identity_sanitized_def example_lifecycle_identity_def clamp_u64_def)
qed

theorem stored_events_load_unchanged_witness:
  "validate_and_sanitize_loaded (\<lambda>s. s = [0x61])
     (trigger_claimed 3 example_lifecycle_identity 9 ExitCloseRequested)
   = Some (trigger_claimed 3 example_lifecycle_identity 9 ExitCloseRequested, False)"
proof -
  have "has_valid_shape (\<lambda>s. s = [0x61]) (stored_from example_lifecycle_identity)"
    by (simp add: has_valid_shape_def example_identity_stored starts_with_percent_def is_none_or_def)
  from stored_events_load_unchanged [OF this, of ExitCloseRequested 3 9] show ?thesis by simp
qed

text \<open>A claim, its reaping, and a reaping that contradicts them.\<close>

definition example_claim :: lifecycle_event where
  "example_claim = trigger_claimed 3 example_lifecycle_identity 9 ExitCloseRequested"

definition example_reap :: "u32 \<Rightarrow> lifecycle_event" where
  "example_reap code = leader_reaped 3 example_lifecycle_identity 9 12 ExitCloseRequested code None"

lemma example_fold:
  "fold_events [example_claim, example_reap 0] False None 10 AllExits
     = [reported_exit example_claim (Some (example_reap 0)) EvidenceComplete]"
  "fold_events [example_claim, example_reap 0, example_reap 1] False None 10 AllExits
     = [conflicted_exit [0x61]]"
  by (simp_all add: fold_events_def all_exits_def bucket_push_def empty_bucket_def fold_bucket_exit_def bucket_conflicted_def example_claim_def example_reap_def
      trigger_claimed_def leader_reaped_def event_session_id_def trigger_claimed_at_def example_identity_stored
      sort_by_def map_filter_simps exit_matches_scope_def Let_def)

theorem exit_report_faithful_witness:
  "\<exists>x. x \<in> set (fold_events [example_claim, example_reap 0] False None 10 AllExits)
     \<and> rx_exit_code x = Some 0 \<and> (\<exists>e. e \<in> {example_claim, example_reap 0} \<and> event_session_id e = rx_session_id x)"
proof -
  let ?x = "reported_exit example_claim (Some (example_reap 0)) EvidenceComplete"
  have x: "?x \<in> set (fold_events [example_claim, example_reap 0] False None 10 AllExits)"
    by (simp add: example_fold)
  have "rx_exit_code ?x = Some 0" by (simp add: reported_exit_def example_reap_def leader_reaped_def Let_def)
  with x exit_report_faithful [OF x] show ?thesis unfolding Let_def by auto
qed

theorem journal_order_irrelevant_witness:
  "fold_events [example_reap 1, example_reap 0, example_claim, example_claim] False None 10 AllExits
   = [conflicted_exit [0x61]]"
proof -
  have "set [example_reap 1, example_reap 0, example_claim, example_claim]
      = set [example_claim, example_reap 0, example_reap 1]" by auto
  from journal_order_irrelevant [OF this] show ?thesis by (simp add: example_fold)
qed

end
