(* ===== verification/Session_Lifecycle.thy ===== *)
theory Session_Lifecycle
  imports Terminal_Sanitize
begin

text \<open>
  The finalisation of a session (\<open>src/src/session_lifecycle.rs\<close>, first part): several threads may want to
  end a session; the first to claim it decides the trigger and owns the event, and every one of
  them waits, for at most a tenth of a second, until the event was written or its writing has failed.

  \<open>LifecyclePublication\<close> keeps its state under one lock, so that each method is an atomic step on the
  record \<open>lifecycle_publication\<close>; \<open>publication_step\<close> interleaves them in any order. The inputs that a
  method takes from its surroundings (a random UUID, the clock) are arguments. Waiting is the
  loop \<open>wait_loop\<close> over the sleeps of the waiting thread, each with what the other threads
  did meanwhile. Instants are milliseconds.
\<close>

section \<open>Data\<close>

datatype finalize_trigger =
    LeaderExited | CloseRequested | DaemonShutdown | ParentCascade ustring

datatype session_presentation = Healthy | MonitorFailed | Ending finalize_trigger

datatype write_outcome = Persisted | QueueFull | Timeout | IoFailed | WriterUnavailable

record claim_attempt =
  ca_event_id :: uuid
  ca_authoritative_trigger :: finalize_trigger
  ca_claimant :: bool

record publication_resolution =
  pr_event_id :: uuid
  pr_trigger :: finalize_trigger
  pr_outcome :: write_outcome

datatype publication_state =
    Unclaimed session_presentation
  | Claimed (cl_event_id: uuid) (cl_trigger: finalize_trigger) (cl_deadline: u64)
  | Resolved publication_resolution

record lifecycle_publication =
  lp_state :: publication_state
  lp_conflicts :: u64

definition PUBLICATION_TIMEOUT :: u64 where
  "PUBLICATION_TIMEOUT = 100"

definition default_publication :: lifecycle_publication where
  "default_publication = \<lparr>lp_state = Unclaimed Healthy, lp_conflicts = 0\<rparr>"

section \<open>Operations\<close>

text \<open>The guard is granted exactly while the session is unclaimed; it holds the lock, so that no claim
  intervenes until it is dropped.\<close>

definition identity_commit_guard :: "lifecycle_publication \<Rightarrow> bool" where
  "identity_commit_guard p = (case lp_state p of Unclaimed _ \<Rightarrow> True | _ \<Rightarrow> False)"

definition count_conflict :: "bool \<Rightarrow> lifecycle_publication \<Rightarrow> lifecycle_publication" where
  "count_conflict differs p = (if differs then p\<lparr>lp_conflicts := lp_conflicts p + 1\<rparr> else p)"

text \<open>\<open>claim requested new_id now later (p, alive)\<close>: \<open>new_id\<close> is the UUID that the claimant draws, \<open>now\<close> the
  clock and \<open>later\<close> the clock again, for a deadline that would overflow. The flag \<open>alive\<close> is cleared
  with the claim.\<close>

definition claim ::
    "finalize_trigger \<Rightarrow> uuid \<Rightarrow> u64 \<Rightarrow> u64 \<Rightarrow> lifecycle_publication \<times> bool
       \<Rightarrow> (lifecycle_publication \<times> bool) \<times> claim_attempt" where
  "claim requested new_id now later = (\<lambda>(p, alive).
     (case lp_state p of
        Unclaimed _ \<Rightarrow>
          (let deadline = (case checked_add now PUBLICATION_TIMEOUT of Some t \<Rightarrow> t | None \<Rightarrow> later) in
           ((p\<lparr>lp_state := Claimed new_id requested deadline\<rparr>, False),
            \<lparr>ca_event_id = new_id, ca_authoritative_trigger = requested, ca_claimant = True\<rparr>))
      | Claimed event_id trigger _ \<Rightarrow>
          ((count_conflict (trigger \<noteq> requested) p, alive),
           \<lparr>ca_event_id = event_id, ca_authoritative_trigger = trigger, ca_claimant = False\<rparr>)
      | Resolved r \<Rightarrow>
          ((count_conflict (pr_trigger r \<noteq> requested) p, alive),
           \<lparr>ca_event_id = pr_event_id r, ca_authoritative_trigger = pr_trigger r, ca_claimant = False\<rparr>)))"

text \<open>\<open>None\<close> is the \<open>unreachable!\<close> arm.\<close>

definition mark_monitor_failed :: "lifecycle_publication \<Rightarrow> (lifecycle_publication \<times> bool) option" where
  "mark_monitor_failed p =
     (case lp_state p of
        Unclaimed Healthy \<Rightarrow> Some (p\<lparr>lp_state := Unclaimed MonitorFailed\<rparr>, True)
      | Unclaimed MonitorFailed \<Rightarrow> Some (p, False)
      | Unclaimed (Ending _) \<Rightarrow> None
      | Claimed _ _ _ \<Rightarrow> Some (p, False)
      | Resolved _ \<Rightarrow> Some (p, False))"

definition presentation :: "lifecycle_publication \<Rightarrow> session_presentation" where
  "presentation p =
     (case lp_state p of
        Unclaimed presentation \<Rightarrow> presentation
      | Claimed _ trigger _ \<Rightarrow> Ending trigger
      | Resolved r \<Rightarrow> Ending (pr_trigger r))"

definition authoritative_trigger :: "lifecycle_publication \<Rightarrow> finalize_trigger option" where
  "authoritative_trigger p =
     (case lp_state p of
        Unclaimed _ \<Rightarrow> None
      | Claimed _ trigger _ \<Rightarrow> Some trigger
      | Resolved r \<Rightarrow> Some (pr_trigger r))"

definition resolve ::
    "uuid \<Rightarrow> write_outcome \<Rightarrow> lifecycle_publication \<Rightarrow> lifecycle_publication \<times> bool" where
  "resolve event_id outcome p =
     (case lp_state p of
        Claimed current_id trigger _ \<Rightarrow>
          if current_id \<noteq> event_id then (p, False)
          else (p\<lparr>lp_state := Resolved
                 \<lparr>pr_event_id = event_id, pr_trigger = trigger, pr_outcome = outcome\<rparr>\<rparr>, True)
      | _ \<Rightarrow> (p, False))"

text \<open>One turn of the waiting loop at time \<open>now\<close>, under the lock: it ends with a resolution, or in \<open>wait_timeout\<close> for the time that
  remains.\<close>

datatype wait_turn_result = Returned publication_resolution | Waiting nat | Panicked

definition wait_turn :: "nat \<Rightarrow> lifecycle_publication \<Rightarrow> lifecycle_publication \<times> wait_turn_result" where
  "wait_turn now p =
     (case lp_state p of
        Unclaimed _ \<Rightarrow> (p, Panicked)
      | Resolved r \<Rightarrow> (p, Returned r)
      | Claimed event_id trigger deadline \<Rightarrow>
          if unat deadline \<le> now
          then (let r = \<lparr>pr_event_id = event_id, pr_trigger = trigger, pr_outcome = Timeout\<rparr> in
                (p\<lparr>lp_state := Resolved r\<rparr>, Returned r))
          else (p, Waiting (unat deadline - now)))"

text \<open>The loop. Each sleep is described by what the other threads do meanwhile, when the sleeper is notified, and how long it takes to
  run again; the result has the time of the last turn. \<open>Waiting\<close> means that the thread waits on after the given sleeps.\<close>

fun wait_loop ::
    "((lifecycle_publication \<Rightarrow> lifecycle_publication) \<times> nat option \<times> nat) list \<Rightarrow> nat \<Rightarrow> lifecycle_publication
       \<Rightarrow> lifecycle_publication \<times> wait_turn_result \<times> nat" where
  "wait_loop [] now p = (case wait_turn now p of (p', r) \<Rightarrow> (p', r, now))"
| "wait_loop ((others, notified, delay) # sleeps) now p =
     (case wait_turn now p of
        (p', Waiting remaining) \<Rightarrow> wait_loop sleeps (fst (condvar_wait_timeout now remaining notified delay)) (others p')
      | (p', r) \<Rightarrow> (p', r, now))"

text \<open>The guard of the claimant.\<close>

record claim_resolution_guard =
  cg_event_id :: uuid
  cg_armed :: bool

definition guard_new :: "uuid \<Rightarrow> claim_resolution_guard" where
  "guard_new event_id = \<lparr>cg_event_id = event_id, cg_armed = True\<rparr>"

definition disarm :: "claim_resolution_guard \<Rightarrow> claim_resolution_guard" where
  "disarm g = g\<lparr>cg_armed := False\<rparr>"

definition guard_drop :: "claim_resolution_guard \<Rightarrow> lifecycle_publication \<Rightarrow> lifecycle_publication" where
  "guard_drop g p = (if cg_armed g then fst (resolve (cg_event_id g) IoFailed p) else p)"

section \<open>Interleavings\<close>

inductive publication_step :: "lifecycle_publication \<times> bool \<Rightarrow> lifecycle_publication \<times> bool \<Rightarrow> bool" where
  claims: "publication_step s (fst (claim requested new_id now later s))"
| fails: "mark_monitor_failed p = Some (p', b) \<Longrightarrow> publication_step (p, alive) (p', alive)"
| resolves: "publication_step (p, alive) (fst (resolve event_id outcome p), alive)"
| waits: "publication_step (p, alive) (fst (wait_turn now p), alive)"
| drops: "publication_step (p, alive) (guard_drop g p, alive)"

inductive_cases publication_stepE: "publication_step s t"

text \<open>What a claim fixes: the event and its trigger.\<close>

definition authority :: "lifecycle_publication \<Rightarrow> (uuid \<times> finalize_trigger) option" where
  "authority p =
     (case lp_state p of
        Unclaimed _ \<Rightarrow> None
      | Claimed event_id trigger _ \<Rightarrow> Some (event_id, trigger)
      | Resolved r \<Rightarrow> Some (pr_event_id r, pr_trigger r))"

definition resolution :: "lifecycle_publication \<Rightarrow> publication_resolution option" where
  "resolution p = (case lp_state p of Resolved r \<Rightarrow> Some r | _ \<Rightarrow> None)"

lemmas publication_defs = claim_def mark_monitor_failed_def resolve_def wait_turn_def guard_drop_def
  authority_def resolution_def count_conflict_def Let_def

text \<open>The presentation \<open>Ending\<close> is never stored, and the session counts as alive only until it is claimed.\<close>

definition publication_ok :: "lifecycle_publication \<times> bool \<Rightarrow> bool" where
  "publication_ok = (\<lambda>(p, alive).
     (case lp_state p of Unclaimed pr \<Rightarrow> (\<forall>t. pr \<noteq> Ending t) | _ \<Rightarrow> \<not> alive))"

lemma step_publication_ok: "publication_step s t \<Longrightarrow> publication_ok s \<Longrightarrow> publication_ok t"
  by (induction rule: publication_step.induct)
    (auto simp: publication_ok_def publication_defs
      split: publication_state.splits session_presentation.splits if_splits prod.splits option.splits)

lemma step_authority: "publication_step s t \<Longrightarrow> authority (fst s) = Some a \<Longrightarrow> authority (fst t) = Some a"
  by (induction rule: publication_step.induct)
    (auto simp: publication_defs
      split: publication_state.splits session_presentation.splits if_splits prod.splits option.splits)

lemma step_resolution: "publication_step s t \<Longrightarrow> resolution (fst s) = Some r \<Longrightarrow> resolution (fst t) = Some r"
  by (induction rule: publication_step.induct)
    (auto simp: publication_defs
      split: publication_state.splits session_presentation.splits if_splits prod.splits option.splits)

interpretation publication: state_machine "\<lambda>s. s = (default_publication, True)" publication_step publication_ok
proof
  fix s assume "s = (default_publication, True)"
  then show "publication_ok s" by (simp add: publication_ok_def default_publication_def)
qed (rule step_publication_ok)

interpretation authority_kept: state_machine "\<lambda>s. authority (fst s) = Some a" publication_step
  "\<lambda>s. authority (fst s) = Some a" for a
  by unfold_locales (auto dest: step_authority)

interpretation resolution_kept: state_machine "\<lambda>s. resolution (fst s) = Some r" publication_step
  "\<lambda>s. resolution (fst s) = Some r" for r
  by unfold_locales (auto dest: step_resolution)

section \<open>Waiting\<close>

lemma resolution_Some: "resolution p = Some r \<longleftrightarrow> lp_state p = Resolved r"
  by (cases "lp_state p") (auto simp: resolution_def)

text \<open>While a waiting thread sleeps, the other threads keep the claim as it is or resolve it.\<close>

definition held :: "uuid \<Rightarrow> finalize_trigger \<Rightarrow> u64 \<Rightarrow> lifecycle_publication \<Rightarrow> bool" where
  "held e t d p \<longleftrightarrow> lp_state p = Claimed e t d \<or> (\<exists>outcome. lp_state p =
     Resolved \<lparr>pr_event_id = e, pr_trigger = t, pr_outcome = outcome\<rparr>)"

lemma step_held: "publication_step s s' \<Longrightarrow> held e t d (fst s) \<Longrightarrow> held e t d (fst s')"
  by (induction rule: publication_step.induct)
    (auto simp: publication_defs held_def
      split: publication_state.splits session_presentation.splits if_splits prod.splits option.splits)

interpretation claim_held: state_machine "\<lambda>s. held e t d (fst s)" publication_step
  "\<lambda>s. held e t d (fst s)" for e t d
  by unfold_locales (auto dest: step_held)

lemma wait_turn_held:
  assumes "held e t d p"
  shows "wait_turn now p = (p, Waiting (unat d - now)) \<and> now < unat d
    \<or> (\<exists>p' r. wait_turn now p = (p', Returned r) \<and> pr_event_id r = e \<and> pr_trigger r = t
         \<and> resolution p' = Some r)"
  using assms by (cases "unat d \<le> now") (auto simp: held_def wait_turn_def resolution_def Let_def)

text \<open>What other threads can do to the publication between two turns of a waiting thread.\<close>

definition by_other_threads :: "(lifecycle_publication \<Rightarrow> lifecycle_publication) \<Rightarrow> bool" where
  "by_other_threads others \<longleftrightarrow> (\<forall>q alive. \<exists>alive'. publication_step\<^sup>*\<^sup>* (q, alive) (others q, alive'))"

lemma wait_loop_held:
  assumes "held e t d p" and "list_all (\<lambda>(others, notified, delay). by_other_threads others \<and> delay \<le> slowest) sleeps"
    and "unat d - now \<le> length sleeps"
  shows "\<exists>p' r at. wait_loop sleeps now p = (p', Returned r, at) \<and> at \<le> max now (unat d + Suc slowest)
    \<and> pr_event_id r = e \<and> pr_trigger r = t \<and> resolution p' = Some r"
  using assms
proof (induction sleeps arbitrary: now p)
  case Nil
  then show ?case using wait_turn_held [OF Nil.prems(1), of now] by auto
next
  case (Cons w sleeps)
  obtain others notified delay where w: "w = (others, notified, delay)" by (cases w)
  from wait_turn_held [OF Cons.prems(1), of now] show ?case
  proof (elim disjE exE conjE)
    assume turn: "wait_turn now p = (p, Waiting (unat d - now))" "now < unat d"
    obtain at timed_out where sleep: "condvar_wait_timeout now (unat d - now) notified delay = (at, timed_out)" by fastforce
    note at = condvar_wait_timeout_bounds [OF sleep]
    obtain alive' where "publication_step\<^sup>*\<^sup>* (p, False) (others p, alive')"
      using Cons.prems(2) w by (auto simp: by_other_threads_def)
    then have "held e t d (others p)" using claim_held.steps_inv Cons.prems(1) fst_conv by metis
    moreover have "list_all (\<lambda>(others, notified, delay). by_other_threads others \<and> delay \<le> slowest) sleeps"
      using Cons.prems(2) by simp
    moreover have "unat d - at \<le> length sleeps" using Cons.prems(3) at(1) turn(2) by simp
    ultimately obtain p' r at' where "wait_loop sleeps at (others p) = (p', Returned r, at')"
        "at' \<le> max at (unat d + Suc slowest)" "pr_event_id r = e" "pr_trigger r = t" "resolution p' = Some r"
      using Cons.IH by blast
    moreover have "at \<le> unat d + Suc slowest" using at(2) turn(2) Cons.prems(2) w by simp
    ultimately show ?thesis using turn sleep w by auto
  next
    fix p' r
    assume "wait_turn now p = (p', Returned r)" "pr_event_id r = e" "pr_trigger r = t" "resolution p' = Some r"
    then show ?thesis using w by simp
  qed
qed

section \<open>Properties\<close>

text \<open>C9. One claimant: once a claim has succeeded, every later claim, after any interleaving of
  the operations, is told the event and the trigger of the first; the session is presented as
  ending for that trigger, no longer counts as alive, and no change of its identity is admitted.\<close>

theorem first_claim_is_authoritative:
  assumes "publication_step\<^sup>*\<^sup>* (default_publication, True) s"
    and "claim r1 id1 now1 later1 s = (s1, c1)" and "ca_claimant c1"
    and "publication_step\<^sup>*\<^sup>* s1 s2"
    and "claim r2 id2 now2 later2 s2 = (s3, c2)"
  shows "c1 = \<lparr>ca_event_id = id1, ca_authoritative_trigger = r1, ca_claimant = True\<rparr>
    \<and> c2 = \<lparr>ca_event_id = id1, ca_authoritative_trigger = r1, ca_claimant = False\<rparr>
    \<and> presentation (fst s2) = Ending r1 \<and> authoritative_trigger (fst s2) = Some r1
    \<and> \<not> snd s2 \<and> \<not> identity_commit_guard (fst s2)"
proof -
  have first: "authority (fst s1) = Some (id1, r1)" "c1 = \<lparr>ca_event_id = id1, ca_authoritative_trigger = r1, ca_claimant = True\<rparr>"
    using assms(2,3)
    by (auto simp: claim_def authority_def Let_def split: prod.splits publication_state.splits)
  have "publication_step s s1" using publication_step.claims [of s r1 id1 now1 later1] assms(2) by simp
  then have "publication_step\<^sup>*\<^sup>* (default_publication, True) s2" using assms(1,4) by auto
  then have ok: "publication_ok s2" using publication.reachable_inv by blast
  have "authority (fst s2) = Some (id1, r1)" by (rule authority_kept.reachable_inv [OF first(1) assms(4)])
  with ok assms(5) first(2) show ?thesis
    by (auto simp: authority_def publication_ok_def claim_def presentation_def authoritative_trigger_def
        identity_commit_guard_def split: publication_state.splits prod.splits)
qed

theorem first_claim_is_authoritative_witness:
  "\<exists>s1 c1. claim CloseRequested 7 50 50 (default_publication, True) = (s1, c1) \<and> ca_claimant c1
     \<and> snd (claim DaemonShutdown 8 60 60 s1)
       = \<lparr>ca_event_id = 7, ca_authoritative_trigger = CloseRequested, ca_claimant = False\<rparr>"
proof -
  obtain s1 c1 where c: "claim CloseRequested 7 50 50 (default_publication, True) = (s1, c1)"
    by (cases "claim CloseRequested 7 50 50 (default_publication, True)")
  then have w: "ca_claimant c1" by (auto simp: claim_def default_publication_def Let_def)
  show ?thesis
    using first_claim_is_authoritative [OF rtranclp.rtrancl_refl c w rtranclp.rtrancl_refl surjective_pairing] c w
    by metis
qed

text \<open>The first outcome is final: once an event is resolved, no operation changes its resolution; a
  late acknowledgement reports failure and every waiter gets the same resolution.\<close>

theorem first_outcome_is_final:
  assumes "lp_state (fst s) = Resolved r" and "publication_step\<^sup>*\<^sup>* s t"
  shows "lp_state (fst t) = Resolved r \<and> resolve event_id outcome (fst t) = (fst t, False)
    \<and> wait_turn now (fst t) = (fst t, Returned r)"
proof -
  have "lp_state (fst t) = Resolved r"
    using resolution_kept.reachable_inv [OF _ assms(2)] assms(1) by (simp add: resolution_Some)
  then show ?thesis by (simp add: resolve_def wait_turn_def)
qed

text \<open>A waiter times out; the writer acknowledges too late.\<close>

theorem first_outcome_is_final_witness:
  "\<exists>p. wait_turn 150 (fst (fst (claim CloseRequested 7 50 50 (default_publication, True))))
       = (p, Returned \<lparr>pr_event_id = 7, pr_trigger = CloseRequested, pr_outcome = Timeout\<rparr>)
     \<and> resolve 7 Persisted p = (p, False)"
proof -
  obtain p where p: "wait_turn 150 (fst (fst (claim CloseRequested 7 50 50 (default_publication, True))))
       = (p, Returned \<lparr>pr_event_id = 7, pr_trigger = CloseRequested, pr_outcome = Timeout\<rparr>)"
    "lp_state p = Resolved \<lparr>pr_event_id = 7, pr_trigger = CloseRequested, pr_outcome = Timeout\<rparr>"
    by (simp add: wait_turn_def claim_def default_publication_def Let_def checked_add_def PUBLICATION_TIMEOUT_def)
  from first_outcome_is_final [OF _ rtranclp.rtrancl_refl, of "(p, False)"] p show ?thesis by auto
qed

text \<open>C30. Waiting is bounded: whatever the other threads do and whether or not they ever notify it, a thread that waits for a claimed
  event returns, in at most one turn for each tick until the deadline, no later than it takes it to run again after the
  deadline, with a resolution of that event that is the one stored; and it never panics.\<close>

theorem waiting_is_bounded:
  assumes "lp_state p = Claimed e t deadline"
    and "list_all (\<lambda>(others, notified, delay). by_other_threads others \<and> delay \<le> slowest) sleeps"
    and "unat deadline - now \<le> length sleeps"
  shows "\<exists>p' r at. wait_loop sleeps now p = (p', Returned r, at) \<and> at \<le> max now (unat deadline + Suc slowest)
    \<and> pr_event_id r = e \<and> pr_trigger r = t \<and> lp_state p' = Resolved r"
proof -
  have "held e t deadline p" using assms(1) by (simp add: held_def)
  from wait_loop_held [OF this assms(2,3)] show ?thesis
    by (simp add: resolution_Some)
qed

theorem waiting_is_bounded_witness:
  "\<exists>p' r at. wait_loop [(\<lambda>p. p, Some 149, 0), (\<lambda>p. fst (resolve 9 Persisted p), None, 2)] 148
      \<lparr>lp_state = Claimed 7 DaemonShutdown 150, lp_conflicts = 0\<rparr> = (p', Returned r, at)
    \<and> at \<le> 153 \<and> pr_event_id r = 7 \<and> pr_trigger r = DaemonShutdown"
proof -
  let ?w = "[(\<lambda>p. p, Some 149, 0), (\<lambda>p. fst (resolve 9 Persisted p), None, 2)]
    :: ((lifecycle_publication \<Rightarrow> lifecycle_publication) \<times> nat option \<times> nat) list"
  let ?p = "\<lparr>lp_state = Claimed 7 DaemonShutdown 150, lp_conflicts = 0\<rparr> :: lifecycle_publication"
  have "by_other_threads (\<lambda>p. p)" by (auto simp: by_other_threads_def)
  moreover have "by_other_threads (\<lambda>p. fst (resolve 9 Persisted p))"
    unfolding by_other_threads_def using publication_step.resolves by blast
  ultimately have steps: "list_all (\<lambda>(others, notified, delay). by_other_threads others \<and> delay \<le> 2) ?w" by simp
  have "lp_state ?p = Claimed 7 DaemonShutdown 150" by simp
  moreover have "unat (150 :: u64) - 148 \<le> length ?w" by simp
  moreover have "max 148 (unat (150 :: u64) + Suc 2) = 153" by simp
  ultimately show ?thesis using waiting_is_bounded [of ?p 7 DaemonShutdown 150 2 ?w 148, OF _ steps] by metis
qed

text \<open>No operation panics: in every reachable state the monitor can report its failure, and a
  thread may wait as soon as it has tried to claim the session.\<close>

theorem publication_never_panics:
  assumes "publication_step\<^sup>*\<^sup>* (default_publication, True) s"
  shows "mark_monitor_failed (fst s) \<noteq> None
    \<and> snd (wait_turn now (fst (fst (claim requested new_id now' later s)))) \<noteq> Panicked"
proof -
  have "publication_ok s" using publication.reachable_inv assms by blast
  then show ?thesis
    by (auto simp: publication_ok_def publication_defs
        split: publication_state.splits session_presentation.splits prod.splits if_splits)
qed

theorem publication_never_panics_witness:
  "\<exists>p. mark_monitor_failed default_publication = Some (p, True)
     \<and> snd (wait_turn 0 (fst (fst (claim LeaderExited 3 0 0 (p, True))))) \<noteq> Panicked"
proof -
  have f: "mark_monitor_failed default_publication = Some (default_publication\<lparr>lp_state := Unclaimed MonitorFailed\<rparr>, True)"
    by (simp add: mark_monitor_failed_def default_publication_def)
  from publication_never_panics [OF r_into_rtranclp [where r = publication_step, OF publication_step.fails [OF f]], of 0 LeaderExited 3 0 0] f show ?thesis by simp
qed

end
