(* ===== verification/Exit_Journal.thy ===== *)
theory Exit_Journal
  imports Exit_Events Session_Lifecycle
begin

text \<open>
  The storage and the writer of the exit journal (\<open>src/src/session_lifecycle.rs\<close>, second part): two bounded
  segments of lines in a private directory, appended to by a single thread that serves a bounded
  queue, and read back when the daemon starts.

  A directory is a store of files by inode with two names; the writer keeps a handle on the
  file it appends to. Every system call that can fail is looked up in \<open>faults\<close>, and \<open>written\<close> says how
  much of a write was done before it failed. A reader is the list of blocks that \<open>fill_buf\<close>
  yields. The JSON codec is a parameter.
\<close>

section \<open>Lines\<close>

definition MAX_EVENT_LINE_BYTES :: nat where
  "MAX_EVENT_LINE_BYTES = 16 * 1024"

definition MAX_SEGMENT_BYTES :: nat where
  "MAX_SEGMENT_BYTES = 1024 * 1024"

definition WRITER_QUEUE_CAPACITY :: nat where
  "WRITER_QUEUE_CAPACITY = 64"

definition newline :: u8 where
  "newline = 0x0a"

definition OVERSIZED_SEGMENT_SENTINEL :: "u8 list" where
  "OVERSIZED_SEGMENT_SENTINEL =
     map (\<lambda>c. of_nat (of_char c)) ''oversized segment discarded'' @ [newline]"

definition usize_saturating_add :: "nat \<Rightarrow> nat \<Rightarrow> nat" where
  "usize_saturating_add a b = min (a + b) (2 ^ 64 - 1)"

datatype bounded_line = Eof | Complete "u8 list" | Invalid

text \<open>\<open>fill_buf\<close> returns the next block, \<open>consume\<close> drops a part of it; an empty block means the end.\<close>

definition consume :: "nat \<Rightarrow> u8 list \<Rightarrow> u8 list list \<Rightarrow> u8 list list" where
  "consume n available blocks = (if drop n available = [] then blocks else drop n available # blocks)"

fun read_bounded_line :: "u8 list list \<Rightarrow> u8 list \<Rightarrow> bool \<Rightarrow> bounded_line \<times> u8 list list" where
  "read_bounded_line [] line oversized = (if line = [] \<and> \<not> oversized then Eof else Invalid, [])"
| "read_bounded_line (available # blocks) line oversized =
     (case position (\<lambda>b. b = newline) available of
        Some k \<Rightarrow>
          (if \<not> oversized \<and> usize_saturating_add (usize_saturating_add (length line) k) 1 \<le> MAX_EVENT_LINE_BYTES
           then (Complete (line @ take k available), consume (k + 1) available blocks)
           else (Invalid, consume (k + 1) available blocks))
      | None \<Rightarrow>
          (if \<not> oversized
              \<and> usize_saturating_add (usize_saturating_add (length line) (length available)) 1
                \<le> MAX_EVENT_LINE_BYTES
           then read_bounded_line blocks (line @ available) False
           else read_bounded_line blocks line True))"

section \<open>Loading\<close>

record loaded_events =
  le_events :: "lifecycle_event list"
  le_degraded :: bool

record journal_codec =
  jc_to_vec :: "lifecycle_event \<Rightarrow> u8 list option"
  jc_from_slice :: "u8 list \<Rightarrow> lifecycle_event option"
  jc_uuid_ok :: "ustring \<Rightarrow> bool"

definition load_line :: "journal_codec \<Rightarrow> u8 list \<Rightarrow> loaded_events \<Rightarrow> loaded_events" where
  "load_line jc line loaded =
     (case jc_from_slice jc line of
        None \<Rightarrow> loaded\<lparr>le_degraded := True\<rparr>
      | Some event \<Rightarrow>
          (case validate_and_sanitize_loaded (jc_uuid_ok jc) event of
             None \<Rightarrow> loaded\<lparr>le_degraded := True\<rparr>
           | Some (event', changed) \<Rightarrow>
               \<lparr>le_events = le_events loaded @ [event'], le_degraded = le_degraded loaded \<or> changed\<rparr>))"

lemma read_bounded_line_shrinks:
  "\<forall>b\<in>set blocks. b \<noteq> [] \<Longrightarrow> read_bounded_line blocks line oversized = (l, rest) \<Longrightarrow>
     (\<forall>b\<in>set rest. b \<noteq> []) \<and> length (concat rest) \<le> length (concat blocks)
     \<and> (blocks \<noteq> [] \<longrightarrow> length (concat rest) < length (concat blocks))"
proof (induction blocks line oversized rule: read_bounded_line.induct)
  case (2 available blocks line oversized)
  show ?case
  proof (cases "position (\<lambda>b. b = newline) available")
    case None
    then show ?thesis using 2 by (fastforce split: if_splits)
  next
    case (Some k)
    then have "rest = consume (k + 1) available blocks" using 2(4) by (auto split: if_splits)
    then show ?thesis using 2(3) by (cases available) (auto simp: consume_def)
  qed
qed auto

lemma read_bounded_line_decreases:
  assumes "list_all (\<lambda>b. b \<noteq> []) blocks" and "read_bounded_line blocks [] False = (l, rest)" and "l \<noteq> Eof"
  shows "length (concat rest) < length (concat blocks)"
proof -
  have "blocks \<noteq> []" using assms(2,3) by auto
  then show ?thesis using read_bounded_line_shrinks [of blocks "[]" False l rest] assms(1,2)
    by (simp add: list_all_iff)
qed

text \<open>The loop of \<open>load_segment\<close>; the blocks of a reader are not empty.\<close>

function load_lines :: "journal_codec \<Rightarrow> u8 list list \<Rightarrow> loaded_events \<Rightarrow> loaded_events" where
  "load_lines jc blocks loaded =
     (if list_all (\<lambda>b. b \<noteq> []) blocks then
        (case read_bounded_line blocks [] False of
           (Eof, rest) \<Rightarrow> loaded
         | (Invalid, rest) \<Rightarrow> load_lines jc rest (loaded\<lparr>le_degraded := True\<rparr>)
         | (Complete line, rest) \<Rightarrow> load_lines jc rest (load_line jc line loaded))
      else loaded)"
  by pat_completeness auto
termination
  by (relation "measure (\<lambda>(jc, blocks, loaded). length (concat blocks))")
    (auto dest!: sym [of "(_, _)"] dest: read_bounded_line_decreases)

declare load_lines.simps [simp del]

section \<open>Reading is independent of the blocks\<close>

text \<open>The reference: the first line of a text, and the lines one after another.\<close>

definition next_line :: "u8 list \<Rightarrow> bounded_line \<times> u8 list" where
  "next_line bytes =
     (case position (\<lambda>b. b = newline) bytes of
        None \<Rightarrow> (if bytes = [] then Eof else Invalid, [])
      | Some k \<Rightarrow> (if k + 1 \<le> MAX_EVENT_LINE_BYTES then Complete (take k bytes) else Invalid, drop (k + 1) bytes))"

lemma next_line_decreases: "next_line bytes = (l, rest) \<Longrightarrow> l \<noteq> Eof \<Longrightarrow> length rest < length bytes"
  by (cases bytes) (auto simp: next_line_def split: option.splits if_splits)

function load_text :: "journal_codec \<Rightarrow> u8 list \<Rightarrow> loaded_events \<Rightarrow> loaded_events" where
  "load_text jc bytes loaded =
     (case next_line bytes of
        (Eof, rest) \<Rightarrow> loaded
      | (Invalid, rest) \<Rightarrow> load_text jc rest (loaded\<lparr>le_degraded := True\<rparr>)
      | (Complete line, rest) \<Rightarrow> load_text jc rest (load_line jc line loaded))"
  by pat_completeness auto
termination
  by (relation "measure (\<lambda>(jc, bytes, loaded). length bytes)")
    (auto dest!: sym [of "(_, _)"] dest: next_line_decreases)

declare load_text.simps [simp del]

lemma position_append:
  "position p (xs @ ys) = (case position p xs of Some k \<Rightarrow> Some k
     | None \<Rightarrow> map_option (\<lambda>k. length xs + k) (position p ys))"
  by (induction xs; cases "position p ys") (auto split: option.splits)

lemma saturating_le_line [simp]:
  "usize_saturating_add a b \<le> MAX_EVENT_LINE_BYTES \<longleftrightarrow> a + b \<le> MAX_EVENT_LINE_BYTES"
  "Suc (usize_saturating_add a b) \<le> MAX_EVENT_LINE_BYTES \<longleftrightarrow> Suc (a + b) \<le> MAX_EVENT_LINE_BYTES"
  by (auto simp: usize_saturating_add_def MAX_EVENT_LINE_BYTES_def min_def)

text \<open>What the loop knows of the bytes \<open>acc\<close> that it has consumed.\<close>

definition line_state :: "u8 list \<Rightarrow> u8 list \<Rightarrow> bool \<Rightarrow> bool" where
  "line_state acc line oversized \<longleftrightarrow> position (\<lambda>b. b = newline) acc = None \<and>
     (if oversized then Suc (length acc) > MAX_EVENT_LINE_BYTES
      else line = acc \<and> (acc = [] \<or> Suc (length acc) \<le> MAX_EVENT_LINE_BYTES))"

lemma concat_consume: "concat (consume n available blocks) = drop n available @ concat blocks"
  by (simp add: consume_def)

lemma read_bounded_line_text:
  assumes "line_state acc line oversized" and "read_bounded_line blocks line oversized = (l, rest)"
  shows "next_line (acc @ concat blocks) = (l, concat rest)"
  using assms
proof (induction blocks line oversized arbitrary: acc rule: read_bounded_line.induct)
  case (1 line oversized)
  then show ?case by (auto simp: line_state_def next_line_def MAX_EVENT_LINE_BYTES_def split: if_splits)
next
  case (2 available blocks line oversized)
  have acc: "position (\<lambda>b. b = newline) acc = None" using 2(3) by (simp add: line_state_def)
  show ?case
  proof (cases "position (\<lambda>b. b = newline) available")
    case None
    let ?fits = "\<not> oversized \<and> Suc (length line + length available) \<le> MAX_EVENT_LINE_BYTES"
    have step: "line_state (acc @ available) (if ?fits then line @ available else line) (\<not> ?fits)"
      using 2(3) None by (cases oversized) (auto simp: line_state_def position_append)
    have run: "read_bounded_line blocks (if ?fits then line @ available else line) (\<not> ?fits) = (l, rest)"
      using 2(4) None by auto
    have "next_line ((acc @ available) @ concat blocks) = (l, concat rest)"
      using 2(1,2) None step run by (cases ?fits) (auto simp del: append_assoc)
    then show ?thesis by simp
  next
    case (Some k)
    then have pos: "position (\<lambda>b. b = newline) (acc @ available @ concat blocks) = Some (length acc + k)"
      using acc by (simp add: position_append)
    have "k < length available" using Some by (auto dest: position_Some)
    with Some 2(3,4) pos show ?thesis
      by (auto simp: next_line_def line_state_def concat_consume split: if_splits)
  qed
qed

lemma load_lines_text: "list_all (\<lambda>b. b \<noteq> []) blocks \<Longrightarrow> load_lines jc blocks loaded = load_text jc (concat blocks) loaded"
proof (induction jc blocks loaded rule: load_lines.induct)
  case (1 jc blocks loaded)
  obtain l rest where run: "read_bounded_line blocks [] False = (l, rest)" by fastforce
  then have "next_line (concat blocks) = (l, concat rest)"
    using read_bounded_line_text [of "[]" "[]" False] by (simp add: line_state_def)
  moreover have "list_all (\<lambda>b. b \<noteq> []) rest"
    using read_bounded_line_shrinks [OF _ run] 1(3) by (simp add: list_all_iff)
  ultimately show ?case
    using 1 run by (subst load_lines.simps, subst load_text.simps) (auto split: bounded_line.splits)
qed

text \<open>A text of complete lines is loaded line by line.\<close>

lemma load_text_line:
  assumes "newline \<notin> set line" and "Suc (length line) \<le> MAX_EVENT_LINE_BYTES"
  shows "load_text jc (line @ newline # rest) loaded = load_text jc rest (load_line jc line loaded)"
proof -
  have "position (\<lambda>b. b = newline) line = None" using assms(1) by (auto simp: position_None)
  then have "next_line (line @ newline # rest) = (Complete line, rest)"
    using assms(2) by (simp add: next_line_def position_append)
  then show ?thesis by (subst load_text.simps) simp
qed

section \<open>Storage\<close>

datatype segment = CurrentSegment | PreviousSegment

datatype journal_phase = InOpen | InAppend | InRotate | InLoad

datatype journal_syscall =
    OpenDir | ValidateDir | OpenLock | Flock | OpenSegment segment | ValidateSegment segment
  | StatForRepair segment | SetLen segment | WriteSentinel segment
  | StatCurrent | RenameCurrent | WriteLine | StatForLoad segment | ReadSegment segment

datatype journal_error = CallFailed journal_phase journal_syscall | EventTooLong | EventNotSerializable

type_synonym 'a journal_result = "journal_error + 'a"

record journal_answers =
  ja_faults :: "journal_phase \<Rightarrow> journal_syscall \<Rightarrow> bool"
  ja_written :: "journal_phase \<Rightarrow> journal_syscall \<Rightarrow> nat"
  ja_blocks :: "u8 list \<Rightarrow> u8 list list"

record journal_dir =
  jd_files :: "nat \<Rightarrow> u8 list"
  jd_current :: "nat option"
  jd_previous :: "nat option"
  jd_next :: nat

record secure_storage =
  ss_dir :: journal_dir
  ss_current :: nat
  ss_current_bytes :: nat

definition journal_call ::
    "journal_answers \<Rightarrow> journal_phase \<Rightarrow> journal_syscall \<Rightarrow> unit journal_result" where
  "journal_call ja ph c = (if ja_faults ja ph c then Inl (CallFailed ph c) else Inr ())"

fun segment_name :: "segment \<Rightarrow> journal_dir \<Rightarrow> nat option" where
  "segment_name CurrentSegment d = jd_current d"
| "segment_name PreviousSegment d = jd_previous d"

text \<open>\<open>open_regular_at\<close>: a missing segment is created on demand, and its absence is no error otherwise. A
  segment that was just created stays, even if its validation fails.\<close>

definition create_segment :: "segment \<Rightarrow> journal_dir \<Rightarrow> journal_dir" where
  "create_segment seg d =
     (if seg = CurrentSegment then d\<lparr>jd_current := Some (jd_next d)\<rparr> else d\<lparr>jd_previous := Some (jd_next d)\<rparr>)
       \<lparr>jd_files := (jd_files d)(jd_next d := []), jd_next := jd_next d + 1\<rparr>"

definition open_regular_at ::
    "journal_answers \<Rightarrow> journal_phase \<Rightarrow> journal_dir \<Rightarrow> segment \<Rightarrow> bool
       \<Rightarrow> journal_dir \<times> nat option journal_result" where
  "open_regular_at ja ph d seg create =
     (case journal_call ja ph (OpenSegment seg) of
        Inl e \<Rightarrow> (d, Inl e)
      | Inr _ \<Rightarrow>
          if segment_name seg d = None \<and> \<not> create then (d, Inr None)
          else
            (let d = (if segment_name seg d = None then create_segment seg d else d) in
             (d, bind_res (journal_call ja ph (ValidateSegment seg)) (\<lambda>_. Inr (segment_name seg d)))))"

text \<open>What a write leaves when it fails part of the way.\<close>

definition write_all ::
    "journal_answers \<Rightarrow> journal_phase \<Rightarrow> journal_syscall \<Rightarrow> u8 list \<Rightarrow> u8 list \<Rightarrow> u8 list \<times> unit journal_result" where
  "write_all ja ph c old bytes =
     (if ja_faults ja ph c then (old @ take (ja_written ja ph c) bytes, Inl (CallFailed ph c))
      else (old @ bytes, Inr ()))"

definition repair_oversized_segment ::
    "journal_answers \<Rightarrow> journal_phase \<Rightarrow> segment \<Rightarrow> nat \<Rightarrow> journal_dir \<Rightarrow> journal_dir \<times> bool journal_result" where
  "repair_oversized_segment ja ph seg i d =
     (case journal_call ja ph (StatForRepair seg) of
        Inl e \<Rightarrow> (d, Inl e)
      | Inr _ \<Rightarrow>
          if length (jd_files d i) \<le> MAX_SEGMENT_BYTES then (d, Inr False)
          else
            (case journal_call ja ph (SetLen seg) of
               Inl e \<Rightarrow> (d, Inl e)
             | Inr _ \<Rightarrow>
                 (let (bytes, r) = write_all ja ph (WriteSentinel seg) [] OVERSIZED_SEGMENT_SENTINEL in
                  (d\<lparr>jd_files := (jd_files d)(i := bytes)\<rparr>, bind_res r (\<lambda>_. Inr True)))))"

text \<open>Repairing the previous segment, if there is one.\<close>

definition repair_previous ::
    "journal_answers \<Rightarrow> journal_phase \<Rightarrow> journal_dir \<Rightarrow> journal_dir \<times> bool journal_result" where
  "repair_previous ja ph d =
     (case open_regular_at ja ph d PreviousSegment False of
        (d, Inl e) \<Rightarrow> (d, Inl e)
      | (d, Inr None) \<Rightarrow> (d, Inr False)
      | (d, Inr (Some i)) \<Rightarrow> repair_oversized_segment ja ph PreviousSegment i d)"

definition storage_open :: "journal_answers \<Rightarrow> journal_dir \<Rightarrow> journal_dir \<times> secure_storage journal_result" where
  "storage_open ja d =
     (case (case bind_res (journal_call ja InOpen OpenDir) (\<lambda>_.
                 bind_res (journal_call ja InOpen ValidateDir) (\<lambda>_.
                 bind_res (journal_call ja InOpen OpenLock) (\<lambda>_.
                 journal_call ja InOpen Flock))) of
              Inl e \<Rightarrow> (d, Inl e)
            | Inr _ \<Rightarrow> open_regular_at ja InOpen d CurrentSegment True) of
        (d, Inl e) \<Rightarrow> (d, Inl e)
      | (d, Inr None) \<Rightarrow> (d, Inl (CallFailed InOpen (OpenSegment CurrentSegment)))
      | (d, Inr (Some i)) \<Rightarrow>
          (case open_regular_at ja InOpen d PreviousSegment False of
             (d, Inl e) \<Rightarrow> (d, Inl e)
           | (d, Inr previous) \<Rightarrow>
               (case repair_oversized_segment ja InOpen CurrentSegment i d of
                  (d, Inl e) \<Rightarrow> (d, Inl e)
                | (d, Inr _) \<Rightarrow>
                    (case (case previous of None \<Rightarrow> (d, Inr False)
                           | Some p \<Rightarrow> repair_oversized_segment ja InOpen PreviousSegment p d) of
                       (d, Inl e) \<Rightarrow> (d, Inl e)
                     | (d, Inr _) \<Rightarrow>
                         (d, bind_res (journal_call ja InOpen StatCurrent) (\<lambda>_.
                            Inr \<lparr>ss_dir = d, ss_current = i, ss_current_bytes = length (jd_files d i)\<rparr>))))))"

definition repair_oversized_segments ::
    "journal_answers \<Rightarrow> secure_storage \<Rightarrow> secure_storage \<times> bool journal_result" where
  "repair_oversized_segments ja s =
     (case repair_oversized_segment ja InAppend CurrentSegment (ss_current s) (ss_dir s) of
        (d, Inl e) \<Rightarrow> (s\<lparr>ss_dir := d\<rparr>, Inl e)
      | (d, Inr repaired) \<Rightarrow>
          (case journal_call ja InAppend StatCurrent of
             Inl e \<Rightarrow> (s\<lparr>ss_dir := d\<rparr>, Inl e)
           | Inr _ \<Rightarrow>
               (let (d', r) = repair_previous ja InAppend d in
                (s\<lparr>ss_dir := d', ss_current_bytes := length (jd_files d (ss_current s))\<rparr>,
                 bind_res r (\<lambda>previous_repaired. Inr (repaired \<or> previous_repaired))))))"

text \<open>\<open>renameat\<close> moves the name of the current segment to the previous one; the handle stays on its file.\<close>

definition rename_current :: "journal_answers \<Rightarrow> journal_dir \<Rightarrow> journal_dir journal_result" where
  "rename_current ja d =
     bind_res (journal_call ja InRotate RenameCurrent) (\<lambda>_.
       case jd_current d of
         None \<Rightarrow> Inl (CallFailed InRotate RenameCurrent)
       | Some i \<Rightarrow> Inr (d\<lparr>jd_current := None, jd_previous := Some i\<rparr>))"

definition rotate_storage :: "journal_answers \<Rightarrow> secure_storage \<Rightarrow> secure_storage \<times> unit journal_result" where
  "rotate_storage ja s =
     (case repair_previous ja InRotate (ss_dir s) of
        (d, Inl e) \<Rightarrow> (s\<lparr>ss_dir := d\<rparr>, Inl e)
      | (d, Inr _) \<Rightarrow>
          (case repair_oversized_segment ja InRotate CurrentSegment (ss_current s) d of
             (d, Inl e) \<Rightarrow> (s\<lparr>ss_dir := d\<rparr>, Inl e)
           | (d, Inr _) \<Rightarrow>
               (case journal_call ja InRotate StatCurrent of
                  Inl e \<Rightarrow> (s\<lparr>ss_dir := d\<rparr>, Inl e)
                | Inr _ \<Rightarrow>
                    (let s = s\<lparr>ss_dir := d, ss_current_bytes := length (jd_files d (ss_current s))\<rparr> in
                     case rename_current ja d of
                       Inl e \<Rightarrow> (s, Inl e)
                     | Inr d \<Rightarrow>
                         (case open_regular_at ja InRotate d CurrentSegment True of
                            (d, Inr (Some i)) \<Rightarrow> (\<lparr>ss_dir = d, ss_current = i, ss_current_bytes = 0\<rparr>, Inr ())
                          | (d, Inr None) \<Rightarrow>
                              (s\<lparr>ss_dir := d\<rparr>, Inl (CallFailed InRotate (OpenSegment CurrentSegment)))
                          | (d, Inl e) \<Rightarrow> (s\<lparr>ss_dir := d\<rparr>, Inl e))))))"

definition to_json_line :: "journal_codec \<Rightarrow> lifecycle_event \<Rightarrow> u8 list journal_result" where
  "to_json_line jc event =
     (case jc_to_vec jc event of
        None \<Rightarrow> Inl EventNotSerializable
      | Some line \<Rightarrow>
          if usize_saturating_add (length line) 1 > MAX_EVENT_LINE_BYTES then Inl EventTooLong
          else Inr (line @ [newline]))"

definition append_line ::
    "journal_answers \<Rightarrow> secure_storage \<Rightarrow> u8 list \<Rightarrow> secure_storage \<times> unit journal_result" where
  "append_line ja s line =
     (let (bytes, r) = write_all ja InAppend WriteLine (jd_files (ss_dir s) (ss_current s)) line in
      (s\<lparr>ss_dir := (ss_dir s)\<lparr>jd_files := (jd_files (ss_dir s))(ss_current s := bytes)\<rparr>,
         ss_current_bytes := (if is_ok r then usize_saturating_add (ss_current_bytes s) (length line)
                              else ss_current_bytes s)\<rparr>, r))"

definition append_event ::
    "journal_codec \<Rightarrow> journal_answers \<Rightarrow> secure_storage \<Rightarrow> lifecycle_event \<Rightarrow> secure_storage \<times> bool journal_result" where
  "append_event jc ja s event =
     (case repair_oversized_segments ja s of
        (s, Inl e) \<Rightarrow> (s, Inl e)
      | (s, Inr repaired) \<Rightarrow>
          (case to_json_line jc event of
             Inl e \<Rightarrow> (s, Inl e)
           | Inr line \<Rightarrow>
               (let rotated = ss_current_bytes s > 0
                      \<and> usize_saturating_add (ss_current_bytes s) (length line) > MAX_SEGMENT_BYTES in
                case (if rotated then rotate_storage ja s else (s, Inr ())) of
                  (s, Inl e) \<Rightarrow> (s, Inl e)
                | (s, Inr _) \<Rightarrow>
                    (let (s, r) = append_line ja s line in
                     (s, bind_res r (\<lambda>_. Inr (repaired \<or> rotated)))))))"

definition load_segment ::
    "journal_codec \<Rightarrow> journal_answers \<Rightarrow> segment \<Rightarrow> u8 list \<Rightarrow> loaded_events \<Rightarrow> loaded_events journal_result" where
  "load_segment jc ja seg bytes loaded =
     bind_res (journal_call ja InLoad (StatForLoad seg)) (\<lambda>_.
     bind_res (journal_call ja InLoad (ReadSegment seg)) (\<lambda>_.
       Inr (load_lines jc (ja_blocks ja (take MAX_SEGMENT_BYTES bytes))
         (if length bytes > MAX_SEGMENT_BYTES then loaded\<lparr>le_degraded := True\<rparr> else loaded))))"

definition load_named ::
    "journal_codec \<Rightarrow> journal_answers \<Rightarrow> journal_dir \<Rightarrow> segment \<Rightarrow> loaded_events \<Rightarrow> loaded_events journal_result" where
  "load_named jc ja d seg loaded =
     bind_res (snd (open_regular_at ja InLoad d seg False)) (\<lambda>found.
       case found of
         None \<Rightarrow> Inr loaded
       | Some i \<Rightarrow> load_segment jc ja seg (jd_files d i) loaded)"

definition load_all :: "journal_codec \<Rightarrow> journal_answers \<Rightarrow> secure_storage \<Rightarrow> loaded_events journal_result" where
  "load_all jc ja s =
     bind_res (load_named jc ja (ss_dir s) PreviousSegment \<lparr>le_events = [], le_degraded = False\<rparr>)
       (load_named jc ja (ss_dir s) CurrentSegment)"

section \<open>Writer\<close>

record journal_snapshot =
  js_events :: "lifecycle_event list"
  js_degraded :: bool

text \<open>An acknowledgement names the publication that waits for it and the event.\<close>

record writer_request =
  wr_event :: lifecycle_event
  wr_acknowledgement :: "(nat \<times> uuid) option"

record lifecycle_journal =
  jn_storage :: secure_storage
  jn_snapshot :: journal_snapshot
  jn_queue :: "writer_request list"
  jn_connected :: bool
  jn_publications :: "nat \<Rightarrow> lifecycle_publication"

definition mark_snapshot_degraded :: "lifecycle_journal \<Rightarrow> lifecycle_journal" where
  "mark_snapshot_degraded j = j\<lparr>jn_snapshot := (jn_snapshot j)\<lparr>js_degraded := True\<rparr>\<rparr>"

definition acknowledge :: "(nat \<times> uuid) option \<Rightarrow> write_outcome \<Rightarrow> lifecycle_journal \<Rightarrow> lifecycle_journal" where
  "acknowledge ack outcome j =
     (case ack of
        None \<Rightarrow> j
      | Some (k, event_id) \<Rightarrow>
          j\<lparr>jn_publications := (jn_publications j)(k := fst (resolve event_id outcome (jn_publications j k)))\<rparr>)"

text \<open>\<open>try_send\<close>: the writer may be gone, and the queue may be full.\<close>

datatype send_result = Sent | Full | Disconnected

definition try_send :: "writer_request \<Rightarrow> lifecycle_journal \<Rightarrow> lifecycle_journal \<times> send_result" where
  "try_send request j =
     (if \<not> jn_connected j then (j, Disconnected)
      else if length (jn_queue j) \<ge> WRITER_QUEUE_CAPACITY then (j, Full)
      else (j\<lparr>jn_queue := jn_queue j @ [request]\<rparr>, Sent))"

definition enqueue_claimed :: "lifecycle_event \<Rightarrow> nat \<Rightarrow> uuid \<Rightarrow> lifecycle_journal \<Rightarrow> lifecycle_journal" where
  "enqueue_claimed event k event_id j =
     (case try_send \<lparr>wr_event = event, wr_acknowledgement = Some (k, event_id)\<rparr> j of
        (j, Sent) \<Rightarrow> j
      | (j, Full) \<Rightarrow> acknowledge (Some (k, event_id)) QueueFull (mark_snapshot_degraded j)
      | (j, Disconnected) \<Rightarrow> acknowledge (Some (k, event_id)) WriterUnavailable (mark_snapshot_degraded j))"

definition enqueue_event :: "lifecycle_event \<Rightarrow> lifecycle_journal \<Rightarrow> lifecycle_journal \<times> write_outcome" where
  "enqueue_event event j =
     (case try_send \<lparr>wr_event = event, wr_acknowledgement = None\<rparr> j of
        (j, Sent) \<Rightarrow> (j, Persisted)
      | (j, Full) \<Rightarrow> (mark_snapshot_degraded j, QueueFull)
      | (j, Disconnected) \<Rightarrow> (mark_snapshot_degraded j, WriterUnavailable))"

text \<open>The snapshot after a successful append.\<close>

definition snapshot_appended ::
    "journal_codec \<Rightarrow> journal_answers \<Rightarrow> secure_storage \<Rightarrow> bool \<Rightarrow> lifecycle_event \<Rightarrow> journal_snapshot \<Rightarrow> journal_snapshot" where
  "snapshot_appended jc ja s rotated event snap =
     (if rotated then
        (case load_all jc ja s of
           Inr loaded \<Rightarrow> \<lparr>js_events = le_events loaded, js_degraded = js_degraded snap \<or> le_degraded loaded\<rparr>
         | Inl _ \<Rightarrow> snap\<lparr>js_degraded := True\<rparr>)
      else snap\<lparr>js_events := js_events snap @ [event]\<rparr>)"

text \<open>One turn of \<open>writer_loop\<close>; \<open>None\<close> while the queue is empty.\<close>

definition writer_turn :: "journal_codec \<Rightarrow> journal_answers \<Rightarrow> lifecycle_journal \<Rightarrow> lifecycle_journal option" where
  "writer_turn jc ja j =
     (case jn_queue j of
        [] \<Rightarrow> None
      | request # queue \<Rightarrow>
          (let j = j\<lparr>jn_queue := queue\<rparr>;
               (s, r) = append_event jc ja (jn_storage j) (wr_event request);
               j = j\<lparr>jn_storage := s\<rparr> in
           Some (case r of
             Inr rotated \<Rightarrow>
               acknowledge (wr_acknowledgement request) Persisted
                 (j\<lparr>jn_snapshot := snapshot_appended jc ja s rotated (wr_event request) (jn_snapshot j)\<rparr>)
           | Inl _ \<Rightarrow> acknowledge (wr_acknowledgement request) IoFailed (mark_snapshot_degraded j))))"

definition recent_exits ::
    "lifecycle_journal \<Rightarrow> ustring option \<Rightarrow> u16 \<Rightarrow> exit_list_scope \<Rightarrow> recent_session_exit list" where
  "recent_exits j target limit scope =
     fold_events (js_events (jn_snapshot j)) (js_degraded (jn_snapshot j)) target limit scope"

definition journal_open ::
    "journal_codec \<Rightarrow> journal_answers \<Rightarrow> journal_dir \<Rightarrow> (nat \<Rightarrow> lifecycle_publication)
       \<Rightarrow> journal_dir \<times> lifecycle_journal journal_result" where
  "journal_open jc ja d pubs =
     (case storage_open ja d of
        (d, Inl e) \<Rightarrow> (d, Inl e)
      | (d, Inr s) \<Rightarrow>
          (d, bind_res (load_all jc ja s) (\<lambda>initial.
             Inr \<lparr>jn_storage = s,
               jn_snapshot = \<lparr>js_events = le_events initial, js_degraded = le_degraded initial\<rparr>,
               jn_queue = [], jn_connected = True, jn_publications = pubs\<rparr>)))"

section \<open>The text on disk\<close>

text \<open>A text of complete lines: it ends with a newline, unless it is empty.\<close>

definition complete_lines :: "u8 list \<Rightarrow> bool" where
  "complete_lines bytes \<longleftrightarrow> bytes = [] \<or> last bytes = newline"

lemma next_line_append:
  assumes "complete_lines bytes" and "bytes \<noteq> []"
  shows "\<exists>l bytes'. next_line bytes = (l, bytes') \<and> l \<noteq> Eof \<and> complete_lines bytes'
    \<and> next_line (bytes @ more_bytes) = (l, bytes' @ more_bytes)"
proof -
  have "newline \<in> set bytes" using assms last_in_set [of bytes] by (simp add: complete_lines_def)
  then obtain k where k: "position (\<lambda>b. b = newline) bytes = Some k"
    by (cases "position (\<lambda>b. b = newline) bytes") (auto simp: position_None)
  then have len: "k < length bytes" by (auto dest: position_Some)
  have "complete_lines (drop (k + 1) bytes)"
    using assms(1) by (cases "drop (k + 1) bytes = []") (auto simp: complete_lines_def last_drop)
  with k len show ?thesis by (auto simp: next_line_def position_append)
qed

lemma load_text_append:
  "complete_lines bytes \<Longrightarrow>
     load_text jc (bytes @ more_bytes) loaded = load_text jc more_bytes (load_text jc bytes loaded)"
proof (induction jc bytes loaded rule: load_text.induct)
  case (1 jc bytes loaded)
  show ?case
  proof (cases "bytes = []")
    case True
    have "load_text jc [] loaded = loaded" by (subst load_text.simps) (simp add: next_line_def)
    then show ?thesis using True by simp
  next
    case False
    from next_line_append [OF 1(3) False, of more_bytes] obtain l bytes' where
      n: "next_line bytes = (l, bytes')" "l \<noteq> Eof" "complete_lines bytes'"
      "next_line (bytes @ more_bytes) = (l, bytes' @ more_bytes)" by blast
    show ?thesis
      using 1(1,2) n
      by (subst load_text.simps, subst (3) load_text.simps) (cases l; simp)
  qed
qed

text \<open>What the codec promises: decoding inverts encoding, and an encoded event is one line.\<close>

definition journal_codec_ok :: "journal_codec \<Rightarrow> bool" where
  "journal_codec_ok jc \<longleftrightarrow>
     (\<forall>e bytes. jc_to_vec jc e = Some bytes \<longrightarrow> jc_from_slice jc bytes = Some e \<and> newline \<notin> set bytes)"

definition blocks_ok :: "journal_answers \<Rightarrow> bool" where
  "blocks_ok ja \<longleftrightarrow> (\<forall>bytes. concat (ja_blocks ja bytes) = bytes \<and> list_all (\<lambda>b. b \<noteq> []) (ja_blocks ja bytes))"

definition loads_unchanged :: "journal_codec \<Rightarrow> lifecycle_event \<Rightarrow> bool" where
  "loads_unchanged jc e \<longleftrightarrow> validate_and_sanitize_loaded (jc_uuid_ok jc) e = Some (e, False)"

lemma to_json_line_Inr:
  assumes "journal_codec_ok jc" and "to_json_line jc e = Inr line"
  shows "\<exists>bytes. line = bytes @ [newline] \<and> jc_from_slice jc bytes = Some e \<and> newline \<notin> set bytes
    \<and> length line \<le> MAX_EVENT_LINE_BYTES"
  using assms by (auto simp: to_json_line_def journal_codec_ok_def not_less split: option.splits if_splits)

lemma load_text_json_line:
  assumes "journal_codec_ok jc" and "to_json_line jc e = Inr line" and "loads_unchanged jc e"
  shows "load_text jc line loaded = loaded\<lparr>le_events := le_events loaded @ [e]\<rparr>"
proof -
  obtain bytes where b: "line = bytes @ [newline]" "jc_from_slice jc bytes = Some e" "newline \<notin> set bytes"
    "length line \<le> MAX_EVENT_LINE_BYTES" using to_json_line_Inr [OF assms(1,2)] by blast
  have "load_text jc [] x = x" for x by (subst load_text.simps) (simp add: next_line_def)
  then show ?thesis
    using load_text_line [OF b(3), of jc "[]" loaded] b assms(3)
    by (simp add: load_line_def loads_unchanged_def)
qed

section \<open>Storage steps\<close>

definition storage_ok :: "secure_storage \<Rightarrow> bool" where
  "storage_ok s \<longleftrightarrow> (let d = ss_dir s in
     jd_current d = Some (ss_current s) \<and> jd_previous d \<noteq> Some (ss_current s)
     \<and> ss_current s < jd_next d \<and> (\<forall>p. jd_previous d = Some p \<longrightarrow> p < jd_next d))"

definition dir_ok :: "journal_dir \<Rightarrow> bool" where
  "dir_ok d \<longleftrightarrow> (\<forall>i. jd_current d = Some i \<or> jd_previous d = Some i \<longrightarrow> i < jd_next d)
     \<and> (\<forall>i. \<not> (jd_current d = Some i \<and> jd_previous d = Some i))"

definition storage_bounded :: "secure_storage \<Rightarrow> bool" where
  "storage_bounded s \<longleftrightarrow> length (jd_files (ss_dir s) (ss_current s)) \<le> MAX_SEGMENT_BYTES
     \<and> (\<forall>i. jd_current (ss_dir s) = Some i \<longrightarrow> length (jd_files (ss_dir s) i) \<le> MAX_SEGMENT_BYTES)
     \<and> (\<forall>i. jd_previous (ss_dir s) = Some i \<longrightarrow> length (jd_files (ss_dir s) i) \<le> MAX_SEGMENT_BYTES)"

lemma journal_call_Inr [simp]: "journal_call ja ph c = Inr u \<longleftrightarrow> \<not> ja_faults ja ph c"
  by (simp add: journal_call_def)

lemma sentinel_fits [simp]: "length OVERSIZED_SEGMENT_SENTINEL \<le> MAX_SEGMENT_BYTES"
  by (simp add: OVERSIZED_SEGMENT_SENTINEL_def MAX_SEGMENT_BYTES_def)

lemma sentinel_complete [simp]: "complete_lines OVERSIZED_SEGMENT_SENTINEL"
  by (simp add: complete_lines_def OVERSIZED_SEGMENT_SENTINEL_def)

lemma repair_noop:
  "length (jd_files d i) \<le> MAX_SEGMENT_BYTES \<Longrightarrow>
     repair_oversized_segment ja ph seg i d = (d, bind_res (journal_call ja ph (StatForRepair seg)) (\<lambda>_. Inr False))"
  by (simp add: repair_oversized_segment_def journal_call_def)

lemma repair_Inr:
  "repair_oversized_segment ja ph seg i d = (d', Inr b) \<Longrightarrow>
     b = (length (jd_files d i) > MAX_SEGMENT_BYTES)
     \<and> d' = (if b then d\<lparr>jd_files := (jd_files d)(i := OVERSIZED_SEGMENT_SENTINEL)\<rparr> else d)"
  by (auto simp: repair_oversized_segment_def write_all_def Let_def split: sum.splits if_splits)

lemma repair_previous_noop:
  assumes "\<And>i. jd_previous d = Some i \<Longrightarrow> length (jd_files d i) \<le> MAX_SEGMENT_BYTES"
  shows "fst (repair_previous ja ph d) = d \<and> (\<forall>b. snd (repair_previous ja ph d) = Inr b \<longrightarrow> \<not> b)"
  using assms
  by (auto simp: repair_previous_def open_regular_at_def create_segment_def repair_noop split: sum.splits option.splits)

lemma repair_previous_Inr:
  "repair_previous ja ph d = (d', Inr b) \<Longrightarrow>
     (case jd_previous d of None \<Rightarrow> d' = d \<and> \<not> b
      | Some i \<Rightarrow> b = (length (jd_files d i) > MAX_SEGMENT_BYTES)
          \<and> d' = (if b then d\<lparr>jd_files := (jd_files d)(i := OVERSIZED_SEGMENT_SENTINEL)\<rparr> else d))"
  by (cases "jd_previous d")
    (auto simp: repair_previous_def open_regular_at_def create_segment_def dest!: repair_Inr
      split: sum.splits option.splits if_splits)

lemma repair_segments_bounded:
  assumes "storage_bounded s" and "repair_oversized_segments ja s = (s', r)"
  shows "storage_bounded s' \<and> ss_dir s' = ss_dir s \<and> ss_current s' = ss_current s
    \<and> (\<forall>b. r = Inr b \<longrightarrow> \<not> b \<and> ss_current_bytes s' = length (jd_files (ss_dir s) (ss_current s)))"
proof -
  have prev: "length (jd_files (ss_dir s) i) \<le> MAX_SEGMENT_BYTES" if "jd_previous (ss_dir s) = Some i" for i
    using assms(1) that by (simp add: storage_bounded_def)
  have cur: "length (jd_files (ss_dir s) (ss_current s)) \<le> MAX_SEGMENT_BYTES"
    using assms(1) by (simp add: storage_bounded_def)
  have "ss_dir s' = ss_dir s \<and> ss_current s' = ss_current s
    \<and> (\<forall>b. r = Inr b \<longrightarrow> \<not> b \<and> ss_current_bytes s' = length (jd_files (ss_dir s) (ss_current s)))"
    using assms(2) repair_previous_noop [of "ss_dir s" ja InAppend, OF prev]
    by (auto simp: repair_oversized_segments_def repair_noop [OF cur] journal_call_def Let_def
        split: sum.splits if_splits prod.splits)
  then show ?thesis using assms(1) by (auto simp: storage_bounded_def)
qed

lemma rotate_bounded:
  assumes "storage_bounded s" and "rotate_storage ja s = (s', r)"
  shows "storage_bounded s' \<and> (is_ok r \<longrightarrow> jd_files (ss_dir s') (ss_current s') = [])"
proof -
  have prev: "length (jd_files (ss_dir s) i) \<le> MAX_SEGMENT_BYTES" if "jd_previous (ss_dir s) = Some i" for i
    using assms(1) that by (simp add: storage_bounded_def)
  have cur: "length (jd_files (ss_dir s) (ss_current s)) \<le> MAX_SEGMENT_BYTES"
    using assms(1) by (simp add: storage_bounded_def)
  have named: "length (jd_files (ss_dir s) i) \<le> MAX_SEGMENT_BYTES" if "jd_current (ss_dir s) = Some i" for i
    using assms(1) that by (simp add: storage_bounded_def)
  obtain r1 where r1: "repair_previous ja InRotate (ss_dir s) = (ss_dir s, r1)"
    using repair_previous_noop [of "ss_dir s" ja InRotate, OF prev] by (metis prod.collapse)
  show ?thesis
    using assms(2) prev cur named
    by (auto simp: rotate_storage_def r1 repair_noop [OF cur] journal_call_def rename_current_def
        open_regular_at_def create_segment_def storage_bounded_def Let_def
        split: sum.splits if_splits option.splits)
qed

lemma append_line_bounded:
  assumes "storage_bounded s" and "length (jd_files (ss_dir s) (ss_current s)) + length line \<le> MAX_SEGMENT_BYTES"
    and "append_line ja s line = (s', r)"
  shows "storage_bounded s'"
  using assms by (auto simp: append_line_def write_all_def storage_bounded_def Let_def split: if_splits)

lemma append_event_bounded:
  assumes "storage_bounded s" and "append_event jc ja s e = (s', r)"
  shows "storage_bounded s'"
proof -
  obtain s1 r1 where run: "repair_oversized_segments ja s = (s1, r1)" by fastforce
  note s1 = repair_segments_bounded [OF assms(1) run]
  show ?thesis
  proof (cases r1)
    case (Inl e1)
    then show ?thesis using assms(2) run s1 by (simp add: append_event_def)
  next
    case (Inr repaired)
    show ?thesis
    proof (cases "to_json_line jc e")
      case (Inl e1)
      then show ?thesis using assms(2) run s1 Inr by (simp add: append_event_def)
    next
      case line: (Inr line)
      then have len: "length line \<le> MAX_EVENT_LINE_BYTES" "MAX_EVENT_LINE_BYTES \<le> MAX_SEGMENT_BYTES"
        by (auto simp: to_json_line_def not_less MAX_EVENT_LINE_BYTES_def MAX_SEGMENT_BYTES_def
            usize_saturating_add_def split: option.splits if_splits)
      have bytes: "ss_current_bytes s1 = length (jd_files (ss_dir s1) (ss_current s1))" using s1 Inr by simp
      let ?rotated = "ss_current_bytes s1 > 0
        \<and> usize_saturating_add (ss_current_bytes s1) (length line) > MAX_SEGMENT_BYTES"
      obtain s2 r2 where rot: "(if ?rotated then rotate_storage ja s1 else (s1, Inr ())) = (s2, r2)" by fastforce
      have s2: "storage_bounded s2 \<and> (is_ok r2 \<longrightarrow>
          length (jd_files (ss_dir s2) (ss_current s2)) + length line \<le> MAX_SEGMENT_BYTES)"
      proof (cases ?rotated)
        case True
        then show ?thesis using rot rotate_bounded [of s1 ja s2 r2] s1 len by auto
      next
        case False
        then have "length (jd_files (ss_dir s1) (ss_current s1)) + length line \<le> MAX_SEGMENT_BYTES"
          using bytes len by (auto simp: usize_saturating_add_def MAX_SEGMENT_BYTES_def min_def split: if_splits)
        then show ?thesis using False rot s1 by auto
      qed
      show ?thesis
      proof (cases r2)
        case (Inl e2)
        then show ?thesis using assms(2) run Inr line rot s2 by (simp add: append_event_def)
      next
        case (Inr u)
        then obtain s3 r3 where a: "append_line ja s2 line = (s3, r3)" "s' = s3"
          using assms(2) run \<open>r1 = Inr repaired\<close> line rot by (auto simp: append_event_def split: prod.splits)
        then show ?thesis using append_line_bounded [of s2 line ja s3 r3] s2 Inr by simp
      qed
    qed
  qed
qed

section \<open>Successful appends\<close>

definition current_text :: "secure_storage \<Rightarrow> u8 list" where
  "current_text s = jd_files (ss_dir s) (ss_current s)"

definition previous_text :: "secure_storage \<Rightarrow> u8 list" where
  "previous_text s = (case jd_previous (ss_dir s) of None \<Rightarrow> [] | Some i \<Rightarrow> jd_files (ss_dir s) i)"

lemma repair_segments_Inr:
  assumes "storage_ok s" and "repair_oversized_segments ja s = (s', Inr b)"
  shows "storage_ok s' \<and> ss_current_bytes s' = length (current_text s')
    \<and> (current_text s' = current_text s \<or> current_text s' = OVERSIZED_SEGMENT_SENTINEL)
    \<and> (\<not> b \<longrightarrow> current_text s' = current_text s \<and> previous_text s' = previous_text s
        \<and> length (current_text s) \<le> MAX_SEGMENT_BYTES \<and> length (previous_text s) \<le> MAX_SEGMENT_BYTES)"
proof -
  obtain d1 b1 where 1: "repair_oversized_segment ja InAppend CurrentSegment (ss_current s) (ss_dir s) = (d1, Inr b1)"
    using assms(2) by (auto simp: repair_oversized_segments_def split: prod.splits sum.splits)
  then obtain d2 b2 where 2: "repair_previous ja InAppend d1 = (d2, Inr b2)" "b = (b1 \<or> b2)"
    "s' = s\<lparr>ss_dir := d2, ss_current_bytes := length (jd_files d1 (ss_current s))\<rparr>"
    using assms(2) by (auto simp: repair_oversized_segments_def split: prod.splits sum.splits)
  show ?thesis
    using repair_Inr [OF 1] repair_previous_Inr [OF 2(1)] assms(1) 2(2,3)
    by (auto simp: storage_ok_def current_text_def previous_text_def Let_def
        split: option.splits if_splits)
qed

lemma rotate_Inr:
  assumes "storage_ok s" and "rotate_storage ja s = (s', Inr u)"
  shows "storage_ok s' \<and> current_text s' = []"
proof -
  obtain d1 b1 where 1: "repair_previous ja InRotate (ss_dir s) = (d1, Inr b1)"
    using assms(2) by (auto simp: rotate_storage_def split: prod.splits sum.splits)
  then obtain d2 b2 where 2: "repair_oversized_segment ja InRotate CurrentSegment (ss_current s) d1 = (d2, Inr b2)"
    using assms(2) by (auto simp: rotate_storage_def split: prod.splits sum.splits)
  have "jd_current d2 = jd_current (ss_dir s)" "jd_next d2 = jd_next (ss_dir s)"
    using repair_previous_Inr [OF 1] repair_Inr [OF 2] by (auto split: option.splits if_splits)
  then show ?thesis
    using assms 1 2
    by (auto simp: rotate_storage_def rename_current_def open_regular_at_def create_segment_def journal_call_def storage_ok_def
        current_text_def Let_def split: if_splits option.splits)
qed

lemma append_line_Inr:
  assumes "storage_ok s" and "append_line ja s line = (s', Inr u)"
  shows "storage_ok s' \<and> current_text s' = current_text s @ line \<and> previous_text s' = previous_text s"
  using assms
  by (auto simp: append_line_def write_all_def storage_ok_def current_text_def previous_text_def Let_def
      split: if_splits option.splits)

lemma append_event_Inr:
  assumes "storage_ok s" and "append_event jc ja s e = (s', Inr b)"
  shows "storage_ok s' \<and> (\<exists>line old. to_json_line jc e = Inr line \<and> current_text s' = old @ line
    \<and> (old = current_text s \<or> old = OVERSIZED_SEGMENT_SENTINEL \<or> old = [])
    \<and> (\<not> b \<longrightarrow> old = current_text s \<and> previous_text s' = previous_text s
        \<and> length (current_text s) \<le> MAX_SEGMENT_BYTES \<and> length (previous_text s) \<le> MAX_SEGMENT_BYTES))"
proof -
  obtain s1 b1 where 1: "repair_oversized_segments ja s = (s1, Inr b1)"
    using assms(2) by (auto simp: append_event_def split: prod.splits sum.splits)
  note s1 = repair_segments_Inr [OF assms(1) 1]
  obtain line where line: "to_json_line jc e = Inr line"
    using assms(2) 1 by (auto simp: append_event_def split: sum.splits)
  let ?rotated = "ss_current_bytes s1 > 0
    \<and> usize_saturating_add (ss_current_bytes s1) (length line) > MAX_SEGMENT_BYTES"
  obtain s2 where 2: "(if ?rotated then rotate_storage ja s1 else (s1, Inr ())) = (s2, Inr ())"
    using assms(2) 1 line by (auto simp: append_event_def Let_def split: prod.splits sum.splits)
  have s2: "storage_ok s2 \<and> (if ?rotated then current_text s2 = [] else s2 = s1)"
    using 2 rotate_Inr [of s1 ja s2] s1 by (auto split: if_splits)
  obtain s3 where 3: "append_line ja s2 line = (s3, Inr ())" "s' = s3" "b = (b1 \<or> ?rotated)"
    using assms(2) 1 line 2 by (auto simp: append_event_def Let_def split: prod.splits)
  have s3: "storage_ok s' \<and> current_text s' = current_text s2 @ line \<and> previous_text s' = previous_text s2"
    using append_line_Inr [OF _ 3(1)] s2 3(2) by simp
  have "to_json_line jc e = Inr line \<and> current_text s' = current_text s2 @ line
    \<and> (current_text s2 = current_text s \<or> current_text s2 = OVERSIZED_SEGMENT_SENTINEL \<or> current_text s2 = [])
    \<and> (\<not> b \<longrightarrow> current_text s2 = current_text s \<and> previous_text s' = previous_text s
        \<and> length (current_text s) \<le> MAX_SEGMENT_BYTES \<and> length (previous_text s) \<le> MAX_SEGMENT_BYTES)"
  proof (intro conjI)
    show "current_text s2 = current_text s \<or> current_text s2 = OVERSIZED_SEGMENT_SENTINEL \<or> current_text s2 = []"
      using s2 s1 by (auto split: if_splits)
    show "\<not> b \<longrightarrow> current_text s2 = current_text s \<and> previous_text s' = previous_text s
        \<and> length (current_text s) \<le> MAX_SEGMENT_BYTES \<and> length (previous_text s) \<le> MAX_SEGMENT_BYTES"
      using s3 s2 s1 3(3) by (auto split: if_splits)
  qed (use s3 line in auto)
  with s3 show ?thesis by blast
qed

section \<open>Snapshot and disk\<close>

definition load_reference :: "journal_codec \<Rightarrow> u8 list \<Rightarrow> loaded_events \<Rightarrow> loaded_events" where
  "load_reference jc bytes loaded = load_text jc (take MAX_SEGMENT_BYTES bytes)
     (if length bytes > MAX_SEGMENT_BYTES then loaded\<lparr>le_degraded := True\<rparr> else loaded)"

definition disk_load :: "journal_codec \<Rightarrow> secure_storage \<Rightarrow> loaded_events" where
  "disk_load jc s = load_reference jc (current_text s)
     (load_reference jc (previous_text s) \<lparr>le_events = [], le_degraded = False\<rparr>)"

lemma load_text_Nil [simp]: "load_text jc [] loaded = loaded"
  by (subst load_text.simps) (simp add: next_line_def)

lemma load_segment_reference:
  "blocks_ok ja \<Longrightarrow> load_segment jc ja seg bytes loaded = Inr l \<Longrightarrow> l = load_reference jc bytes loaded"
  by (auto simp: load_segment_def load_reference_def blocks_ok_def load_lines_text)

lemma load_named_reference:
  assumes "blocks_ok ja" and "load_named jc ja d seg loaded = Inr l"
  shows "l = load_reference jc (case segment_name seg d of None \<Rightarrow> [] | Some i \<Rightarrow> jd_files d i) loaded"
proof (cases "segment_name seg d")
  case None
  then show ?thesis using assms(2)
    by (auto simp: load_named_def open_regular_at_def create_segment_def load_reference_def split: sum.splits)
next
  case (Some i)
  then show ?thesis using assms(2) load_segment_reference [OF assms(1)]
    by (auto simp: load_named_def open_regular_at_def create_segment_def split: sum.splits)
qed

lemma load_all_disk:
  assumes "blocks_ok ja" and "storage_ok s" and "load_all jc ja s = Inr l"
  shows "l = disk_load jc s"
  using assms(2,3)
  by (auto simp: load_all_def disk_load_def storage_ok_def current_text_def previous_text_def Let_def
      dest!: load_named_reference [OF assms(1)])

lemma disk_load_append:
  assumes "journal_codec_ok jc" and "to_json_line jc e = Inr line" and "loads_unchanged jc e"
    and "complete_lines (current_text s)" and "current_text s' = current_text s @ line"
    and "previous_text s' = previous_text s" and "length (current_text s') \<le> MAX_SEGMENT_BYTES"
  shows "disk_load jc s' = (disk_load jc s)\<lparr>le_events := le_events (disk_load jc s) @ [e]\<rparr>"
  using assms(4-7)
  by (simp add: disk_load_def load_reference_def load_text_append load_text_json_line [OF assms(1-3)])

section \<open>The snapshot mirrors the disk\<close>

text \<open>While the journal is not degraded, the events in memory are what a restart would load.\<close>

definition journal_inv :: "journal_codec \<Rightarrow> lifecycle_journal \<Rightarrow> bool" where
  "journal_inv jc j \<longleftrightarrow> (\<not> js_degraded (jn_snapshot j) \<longrightarrow>
     storage_ok (jn_storage j) \<and> complete_lines (current_text (jn_storage j))
     \<and> disk_load jc (jn_storage j) = \<lparr>le_events = js_events (jn_snapshot j), le_degraded = False\<rparr>)"

lemma storage_bounded_texts:
  "storage_ok s \<Longrightarrow> storage_bounded s \<longleftrightarrow>
     length (current_text s) \<le> MAX_SEGMENT_BYTES \<and> length (previous_text s) \<le> MAX_SEGMENT_BYTES"
  by (auto simp: storage_ok_def storage_bounded_def current_text_def previous_text_def Let_def split: option.splits)

lemma json_line_complete: "to_json_line jc e = Inr line \<Longrightarrow> complete_lines (bytes @ line)"
  by (auto simp: to_json_line_def complete_lines_def split: option.splits if_splits)

lemma acknowledge_fields [simp]:
  "jn_storage (acknowledge ack out j) = jn_storage j" "jn_snapshot (acknowledge ack out j) = jn_snapshot j"
  "jn_queue (acknowledge ack out j) = jn_queue j"
  by (simp_all add: acknowledge_def split: option.splits prod.splits)

lemma journal_inv_degraded [simp]: "js_degraded (jn_snapshot j) \<Longrightarrow> journal_inv jc j"
  by (simp add: journal_inv_def)

lemma mark_degraded [simp]: "js_degraded (jn_snapshot (mark_snapshot_degraded j))"
  by (simp add: mark_snapshot_degraded_def)

lemma journal_inv_acknowledge [simp]: "journal_inv jc (acknowledge ack out j) \<longleftrightarrow> journal_inv jc j"
  by (simp add: journal_inv_def)

lemma append_keeps_mirror:
  assumes codec: "journal_codec_ok jc" "blocks_ok ja" and e: "loads_unchanged jc e"
    and s: "storage_ok s" "complete_lines (current_text s)"
      "disk_load jc s = \<lparr>le_events = js_events snap, le_degraded = False\<rparr>"
    and run: "append_event jc ja s e = (s', Inr b)" and snap: "\<not> js_degraded snap"
      "\<not> js_degraded (snapshot_appended jc ja s' b e snap)"
  shows "storage_ok s' \<and> complete_lines (current_text s')
    \<and> disk_load jc s' = \<lparr>le_events = js_events (snapshot_appended jc ja s' b e snap), le_degraded = False\<rparr>"
proof -
  from append_event_Inr [OF s(1) run] obtain line old where
    a: "storage_ok s'" "to_json_line jc e = Inr line" "current_text s' = old @ line"
      "\<not> b \<Longrightarrow> old = current_text s \<and> previous_text s' = previous_text s
        \<and> length (current_text s) \<le> MAX_SEGMENT_BYTES \<and> length (previous_text s) \<le> MAX_SEGMENT_BYTES"
    by blast
  have complete: "complete_lines (current_text s')" using json_line_complete [OF a(2)] a(3) by simp
  show ?thesis
  proof (cases b)
    case True
    then obtain l where l: "load_all jc ja s' = Inr l"
      using snap(2) by (cases "load_all jc ja s'") (auto simp: snapshot_appended_def)
    then show ?thesis
      using load_all_disk [OF codec(2) a(1) l] a(1) complete True snap
      by (auto simp: snapshot_appended_def)
  next
    case False
    note old = a(4) [OF False]
    have "storage_bounded s'"
      using append_event_bounded [OF _ run] storage_bounded_texts [OF s(1)] old by simp
    then have len: "length (current_text s') \<le> MAX_SEGMENT_BYTES" using storage_bounded_texts [OF a(1)] by simp
    have texts: "current_text s' = current_text s @ line" "previous_text s' = previous_text s"
      using old a(3) by auto
    show ?thesis
      using disk_load_append [OF codec(1) a(2) e s(2) texts len] s(3) a(1) complete False snap
      by (simp add: snapshot_appended_def)
  qed
qed

lemma writer_turn_inv:
  assumes "journal_codec_ok jc" "blocks_ok ja" and "journal_inv jc j"
    and "\<forall>r\<in>set (jn_queue j). loads_unchanged jc (wr_event r)" and "writer_turn jc ja j = Some j'"
  shows "journal_inv jc j'"
proof -
  obtain r q where q: "jn_queue j = r # q" using assms(5) by (cases "jn_queue j") (auto simp: writer_turn_def)
  obtain s' res where run: "append_event jc ja (jn_storage j) (wr_event r) = (s', res)" by fastforce
  show ?thesis
  proof (cases res)
    case (Inl e)
    then show ?thesis using assms(5) q run by (auto simp: writer_turn_def)
  next
    case (Inr b)
    let ?snap = "snapshot_appended jc ja s' b (wr_event r) (jn_snapshot j)"
    have j': "jn_snapshot j' = ?snap" "jn_storage j' = s'"
      using assms(5) q run Inr by (auto simp: writer_turn_def)
    show ?thesis
    proof (cases "js_degraded ?snap")
      case False
      then have "\<not> js_degraded (jn_snapshot j)"
        by (auto simp: snapshot_appended_def split: if_splits sum.splits)
      then show ?thesis
        using append_keeps_mirror [OF assms(1,2), of "wr_event r" "jn_storage j" "jn_snapshot j" s' b]
          assms(3,4) q run Inr False j'
        by (auto simp: journal_inv_def)
    qed (simp add: j')
  qed
qed

section \<open>Runs of the journal\<close>

lemma storage_open_Inr:
  assumes "dir_ok d" and "storage_open ja d = (d', Inr s)"
  shows "storage_ok s \<and> storage_bounded s \<and> ss_dir s = d'
    \<and> (current_text s = OVERSIZED_SEGMENT_SENTINEL \<or> current_text s = [] \<or> jd_current d = Some (ss_current s)
        \<and> current_text s = jd_files d (ss_current s))"
  using assms
  by (auto simp: storage_open_def open_regular_at_def create_segment_def dir_ok_def storage_ok_def storage_bounded_def
      current_text_def Let_def dest!: repair_Inr split: sum.splits option.splits prod.splits if_splits)

lemma storage_open_same:
  assumes "storage_ok s" and "storage_bounded s" and "storage_open ja (ss_dir s) = (d', Inr s')"
  shows "ss_dir s' = ss_dir s \<and> ss_current s' = ss_current s"
  using assms
  by (auto simp: storage_open_def open_regular_at_def create_segment_def storage_ok_def storage_bounded_def repair_noop
      Let_def split: sum.splits option.splits prod.splits if_splits)

text \<open>The journal may gain a request, serve one, or lose its writer.\<close>

inductive journal_step :: "journal_codec \<Rightarrow> lifecycle_journal \<Rightarrow> lifecycle_journal \<Rightarrow> bool" for jc where
  claimed: "loads_unchanged jc e \<Longrightarrow> journal_step jc j (enqueue_claimed e k event_id j)"
| reaped: "loads_unchanged jc e \<Longrightarrow> journal_step jc j (fst (enqueue_event e j))"
| served: "blocks_ok ja \<Longrightarrow> writer_turn jc ja j = Some j' \<Longrightarrow> journal_step jc j j'"
| stopped: "journal_step jc j (j\<lparr>jn_connected := False\<rparr>)"

definition journal_ok :: "journal_codec \<Rightarrow> lifecycle_journal \<Rightarrow> bool" where
  "journal_ok jc j \<longleftrightarrow> journal_inv jc j \<and> storage_bounded (jn_storage j)
     \<and> length (jn_queue j) \<le> WRITER_QUEUE_CAPACITY
     \<and> (\<forall>r\<in>set (jn_queue j). loads_unchanged jc (wr_event r))"

definition journal_opened :: "journal_codec \<Rightarrow> lifecycle_journal \<Rightarrow> bool" where
  "journal_opened jc j \<longleftrightarrow> (\<exists>ja d d' pubs. blocks_ok ja \<and> dir_ok d \<and> journal_open jc ja d pubs = (d', Inr j))"

lemma try_send_cases:
  "try_send r j = (j', res) \<Longrightarrow>
     (res = Sent \<and> j' = j\<lparr>jn_queue := jn_queue j @ [r]\<rparr> \<and> jn_connected j \<and> length (jn_queue j) < WRITER_QUEUE_CAPACITY)
     \<or> (res = Full \<and> j' = j \<and> length (jn_queue j) \<ge> WRITER_QUEUE_CAPACITY) \<or> (res = Disconnected \<and> j' = j \<and> \<not> jn_connected j)"
  by (auto simp: try_send_def split: if_splits)

lemma mark_degraded_fields [simp]:
  "jn_storage (mark_snapshot_degraded j) = jn_storage j" "jn_queue (mark_snapshot_degraded j) = jn_queue j"
  "jn_publications (mark_snapshot_degraded j) = jn_publications j"
  by (simp_all add: mark_snapshot_degraded_def)

lemma journal_ok_enqueue:
  assumes "journal_ok jc j" and "loads_unchanged jc e"
  shows "journal_ok jc (enqueue_claimed e k event_id j)" "journal_ok jc (fst (enqueue_event e j))"
proof -
  have sent: "journal_ok jc (j\<lparr>jn_queue := jn_queue j @ [r]\<rparr>)"
    if "wr_event r = e" "length (jn_queue j) < WRITER_QUEUE_CAPACITY" for r
    using assms that by (auto simp: journal_ok_def journal_inv_def)
  have refused: "journal_ok jc (mark_snapshot_degraded j)" "journal_ok jc (acknowledge ack out (mark_snapshot_degraded j))" for ack out
    using assms by (auto simp: journal_ok_def)
  show "journal_ok jc (enqueue_claimed e k event_id j)"
    using sent refused by (auto simp: enqueue_claimed_def dest: try_send_cases split: prod.splits send_result.splits)
  show "journal_ok jc (fst (enqueue_event e j))"
    using sent refused by (auto simp: enqueue_event_def dest: try_send_cases split: prod.splits send_result.splits)
qed

lemma writer_turn_fields:
  assumes "writer_turn jc ja j = Some j'"
  shows "\<exists>r. jn_queue j = r # jn_queue j'
    \<and> (\<exists>res. append_event jc ja (jn_storage j) (wr_event r) = (jn_storage j', res)
        \<and> jn_publications j' = jn_publications (acknowledge (wr_acknowledgement r) (if is_ok res then Persisted else IoFailed) j))"
  using assms
  by (auto simp: writer_turn_def acknowledge_def mark_snapshot_degraded_def Let_def
      split: list.splits prod.splits sum.splits option.splits)

lemma journal_ok_turn:
  assumes "journal_codec_ok jc" "blocks_ok ja" "journal_ok jc j" "writer_turn jc ja j = Some j'"
  shows "journal_ok jc j'"
  using writer_turn_fields [OF assms(4)] writer_turn_inv [OF assms(1,2) _ _ assms(4)] assms(3)
  by (auto simp: journal_ok_def dest: append_event_bounded)

lemma journal_ok_opened:
  assumes "journal_opened jc j"
  shows "storage_bounded (jn_storage j) \<and> jn_queue j = []"
proof -
  obtain ja d d' pubs where "dir_ok d" "journal_open jc ja d pubs = (d', Inr j)"
    using assms by (auto simp: journal_opened_def)
  then show ?thesis
    by (auto simp: journal_open_def dest!: storage_open_Inr split: prod.splits sum.splits)
qed

lemma load_line_degraded: "le_degraded loaded \<Longrightarrow> le_degraded (load_line jc line loaded)"
  by (simp add: load_line_def split: option.splits prod.splits)

lemma load_text_degraded: "le_degraded loaded \<Longrightarrow> le_degraded (load_text jc bytes loaded)"
proof (induction jc bytes loaded rule: load_text.induct)
  case (1 jc bytes loaded)
  then show ?case
    by (subst load_text.simps) (auto simp: load_line_degraded split: prod.splits bounded_line.splits)
qed

lemma load_text_complete: "\<not> le_degraded (load_text jc bytes loaded) \<Longrightarrow> complete_lines bytes"
proof (induction jc bytes loaded rule: load_text.induct)
  case (1 jc bytes loaded)
  obtain l rest where n: "next_line bytes = (l, rest)" by fastforce
  show ?case
  proof (cases l)
    case Eof
    then show ?thesis using n by (auto simp: next_line_def complete_lines_def split: option.splits if_splits)
  next
    case Invalid
    then have "le_degraded (load_text jc bytes loaded)"
      using n by (subst load_text.simps) (simp add: load_text_degraded)
    then show ?thesis using 1(3) by simp
  next
    case (Complete line)
    then have "\<not> le_degraded (load_text jc rest (load_line jc line loaded))"
      using 1(3) n by (subst (asm) load_text.simps) simp
    then have rest: "complete_lines rest" using 1(1) [OF n [symmetric] Complete] by simp
    obtain k where k: "position (\<lambda>b. b = newline) bytes = Some k" "rest = drop (k + 1) bytes"
      using n Complete by (auto simp: next_line_def split: option.splits if_splits)
    then have "k < length bytes" "bytes ! k = newline" by (auto dest: position_Some)
    moreover have "length bytes = Suc k" if "rest = []" using that k(2) \<open>k < length bytes\<close> by simp
    moreover have "last rest = last bytes" if "rest \<noteq> []" using that k(2) by (simp add: last_drop)
    moreover have "last bytes = bytes ! (length bytes - 1)" using \<open>k < length bytes\<close> by (intro last_conv_nth) auto
    ultimately show ?thesis using rest unfolding complete_lines_def by (metis diff_Suc_1)
  qed
qed

lemma disk_load_complete:
  assumes "storage_ok s" and "storage_bounded s" and "\<not> le_degraded (disk_load jc s)"
  shows "complete_lines (current_text s)"
  using assms(3) storage_bounded_texts [OF assms(1)] assms(2)
  by (auto simp: disk_load_def load_reference_def dest: load_text_complete)

lemma opened_journal_ok:
  assumes "journal_opened jc j"
  shows "journal_ok jc j"
proof -
  obtain ja d d' pubs where o: "blocks_ok ja" "dir_ok d" "journal_open jc ja d pubs = (d', Inr j)"
    using assms by (auto simp: journal_opened_def)
  then obtain s l where s: "storage_open ja d = (d', Inr s)" "load_all jc ja s = Inr l"
      "jn_storage j = s" "jn_snapshot j = \<lparr>js_events = le_events l, js_degraded = le_degraded l\<rparr>"
    by (auto simp: journal_open_def split: prod.splits sum.splits)
  note ok = storage_open_Inr [OF o(2) s(1)]
  have "l = disk_load jc s" using load_all_disk [OF o(1) _ s(2)] ok by simp
  then have "journal_inv jc j"
    using ok disk_load_complete [of s jc] s(3,4) by (simp add: journal_inv_def)
  then show ?thesis
    using journal_ok_opened [OF assms] by (simp add: journal_ok_def)
qed

interpretation journal: state_machine "journal_opened jc" "\<lambda>j j'. journal_codec_ok jc \<and> journal_step jc j j'" "journal_ok jc"
  for jc
proof
  fix j j' assume "journal_ok jc j" and "journal_codec_ok jc \<and> journal_step jc j j'"
  then have "journal_step jc j j'" "journal_ok jc j" "journal_codec_ok jc" by auto
  then show "journal_ok jc j'"
    by (induction rule: journal_step.induct)
      (auto intro: journal_ok_enqueue journal_ok_turn, auto simp: journal_ok_def journal_inv_def)
qed (rule opened_journal_ok)

lemma journal_steps_codec:
  "journal_codec_ok jc \<Longrightarrow> (journal_step jc)\<^sup>*\<^sup>* j j' \<Longrightarrow> (\<lambda>j j'. journal_codec_ok jc \<and> journal_step jc j j')\<^sup>*\<^sup>* j j'"
  by simp

lemma journal_run_ok:
  assumes "journal_codec_ok jc" and "journal_opened jc j" and "(journal_step jc)\<^sup>*\<^sup>* j j'"
  shows "journal_ok jc j'"
  using journal.reachable_inv [OF assms(2) journal_steps_codec [OF assms(1,3)]] .

lemma disk_load_cong:
  "ss_dir s = ss_dir s' \<Longrightarrow> ss_current s = ss_current s' \<Longrightarrow> disk_load jc s = disk_load jc s'"
  by (simp add: disk_load_def current_text_def previous_text_def split: option.splits)

lemma restart_loads_disk:
  assumes "blocks_ok ja" and "storage_ok s" and "storage_bounded s"
    and "journal_open jc ja (ss_dir s) pubs = (d, Inr j)"
  shows "jn_snapshot j = \<lparr>js_events = le_events (disk_load jc s), js_degraded = le_degraded (disk_load jc s)\<rparr>"
proof -
  obtain s' l where s': "storage_open ja (ss_dir s) = (d, Inr s')" "load_all jc ja s' = Inr l"
      "jn_snapshot j = \<lparr>js_events = le_events l, js_degraded = le_degraded l\<rparr>"
    using assms(4) by (auto simp: journal_open_def split: prod.splits sum.splits)
  note same = storage_open_same [OF assms(2,3) s'(1)]
  then have "storage_ok s'" using assms(2) by (simp add: storage_ok_def)
  then have "l = disk_load jc s'" using load_all_disk [OF assms(1) _ s'(2)] by simp
  then show ?thesis using disk_load_cong [of s s' jc] same s'(3) by simp
qed

lemma acknowledge_resolved:
  assumes "resolution (jn_publications j k) = Some r"
  shows "resolution (jn_publications (acknowledge ack out j) k) = Some r"
  using assms by (auto simp: acknowledge_def resolve_def resolution_def split: option.splits publication_state.splits)

lemma acknowledge_authority:
  "authority (jn_publications (acknowledge ack out j) k) = authority (jn_publications j k)"
  by (auto simp: acknowledge_def resolve_def authority_def split: option.splits publication_state.splits)

lemma acknowledge_resolves:
  assumes "authority (jn_publications j k) = Some (event_id, t)"
  shows "\<exists>r. resolution (jn_publications (acknowledge (Some (k, event_id)) out j) k) = Some r
    \<and> (resolution (jn_publications j k) = None \<longrightarrow> pr_outcome r = out)"
  using assms by (auto simp: acknowledge_def resolve_def resolution_def authority_def split: publication_state.splits)

text \<open>The writer serving its queue, with what the system answers in each turn.\<close>

fun writer_run :: "journal_codec \<Rightarrow> journal_answers list \<Rightarrow> lifecycle_journal \<Rightarrow> lifecycle_journal" where
  "writer_run jc [] j = j"
| "writer_run jc (ja # jas) j = (case writer_turn jc ja j of None \<Rightarrow> j | Some j' \<Rightarrow> writer_run jc jas j')"

lemma writer_turn_None [simp]: "writer_turn jc ja j = None \<longleftrightarrow> jn_queue j = []"
  by (auto simp: writer_turn_def Let_def split: list.splits prod.splits)

lemma writer_turn_publications:
  assumes "writer_turn jc ja j = Some j'"
  shows "authority (jn_publications j' k) = authority (jn_publications j k)
    \<and> (\<forall>r. resolution (jn_publications j k) = Some r \<longrightarrow> resolution (jn_publications j' k) = Some r)"
  using writer_turn_fields [OF assms] by (auto simp: acknowledge_authority acknowledge_resolved)

lemma writer_run_publications:
  "resolution (jn_publications j k) = Some r \<Longrightarrow> resolution (jn_publications (writer_run jc jas j) k) = Some r"
proof (induction jc jas j rule: writer_run.induct)
  case (2 jc ja jas j)
  then show ?case using writer_turn_publications [of jc ja j] by (auto split: option.splits)
qed simp

lemma writer_run_drains:
  assumes "length (jn_queue j) \<le> length jas"
  shows "jn_queue (writer_run jc jas j) = []
    \<and> (\<forall>k event_id t. (\<exists>r\<in>set (jn_queue j). wr_acknowledgement r = Some (k, event_id))
         \<longrightarrow> authority (jn_publications j k) = Some (event_id, t)
         \<longrightarrow> resolution (jn_publications (writer_run jc jas j) k) \<noteq> None)"
  using assms
proof (induction jc jas j rule: writer_run.induct)
  case (2 jc ja jas j)
  show ?case
  proof (cases "writer_turn jc ja j")
    case None
    then have "jn_queue j = []" by simp
    with None show ?thesis by (simp del: writer_turn_None)
  next
    case (Some j')
    obtain r where r: "jn_queue j = r # jn_queue j'"
      "\<exists>out. jn_publications j' = jn_publications (acknowledge (wr_acknowledgement r) out j)"
      using writer_turn_fields [OF Some] by blast
    note IH = 2(1) [OF Some]
    have "resolution (jn_publications (writer_run jc jas j') k) \<noteq> None"
      if "q \<in> set (jn_queue j)" "wr_acknowledgement q = Some (k, event_id)"
        "authority (jn_publications j k) = Some (event_id, t)" for q k event_id t
    proof (cases "q = r")
      case True
      note claimed = that(3)
      have "wr_acknowledgement r = Some (k, event_id)" using that(2) True by simp
      with r(2) obtain out where "jn_publications j' = jn_publications (acknowledge (Some (k, event_id)) out j)" by auto
      then obtain x where "resolution (jn_publications j' k) = Some x"
        using acknowledge_resolves [OF claimed, of out] by auto
      then show ?thesis using writer_run_publications by auto
    next
      case False
      then show ?thesis
        using IH 2(2) r(1) that writer_turn_publications [OF Some, of k] by auto
    qed
    moreover have "jn_queue (writer_run jc jas j') = []" using IH 2(2) r(1) by simp
    moreover have "writer_run jc (ja # jas) j = writer_run jc jas j'" using Some by simp
    ultimately show ?thesis by metis
  qed
qed simp

section \<open>Properties\<close>

text \<open>The sizes of blocks do not matter: reading a segment block by block, whatever the sizes of the
  blocks, finds the same lines, drops the same overlong or unfinished lines and loads the same
  events as reading its text line by line.\<close>

theorem reading_ignores_blocks:
  assumes "list_all (\<lambda>b. b \<noteq> []) blocks"
  shows "load_lines jc blocks loaded = load_text jc (concat blocks) loaded
    \<and> (\<forall>l rest. read_bounded_line blocks [] False = (l, rest) \<longrightarrow> next_line (concat blocks) = (l, concat rest))"
  using load_lines_text [OF assms] read_bounded_line_text [of "[]" "[]" False blocks] by (simp add: line_state_def)

text \<open>The segments stay bounded: from the opening of any directory on, through every append and
  every failure of a system call in it, even in the middle of a write, neither segment grows beyond
  its limit, and the queue of the writer holds no more requests than its capacity.\<close>

theorem segments_stay_bounded:
  assumes "journal_codec_ok jc" and "journal_opened jc j" and "(journal_step jc)\<^sup>*\<^sup>* j j'"
  shows "storage_bounded (jn_storage j') \<and> length (jn_queue j') \<le> WRITER_QUEUE_CAPACITY"
  using journal_run_ok [OF assms] by (simp add: journal_ok_def)

text \<open>C3. The events in memory are those on disk: whatever was enqueued and whichever calls failed, a journal
  that is not marked as degraded is one that a restart, if it succeeds, reads back exactly, with the same answers
  to every listing.\<close>

theorem restart_restores_journal:
  assumes "journal_codec_ok jc" and "journal_opened jc j" and "(journal_step jc)\<^sup>*\<^sup>* j j'"
    and "\<not> js_degraded (jn_snapshot j')" and "blocks_ok ja"
    and "journal_open jc ja (ss_dir (jn_storage j')) pubs = (d, Inr restarted)"
  shows "jn_snapshot restarted = jn_snapshot j'
    \<and> recent_exits restarted target limit scope = recent_exits j' target limit scope"
proof -
  have ok: "journal_ok jc j'" using journal_run_ok [OF assms(1-3)] .
  have "jn_snapshot restarted = jn_snapshot j'"
    using restart_loads_disk [OF assms(5) _ _ assms(6)] ok assms(4)
    by (cases "jn_snapshot j'") (simp add: journal_ok_def journal_inv_def)
  then show ?thesis by (simp add: recent_exits_def)
qed

text \<open>C25. No waiting thread is forgotten: serving the queue empties it in as many turns as it has requests,
  whichever calls fail, and resolves the publication of every request that asked for an acknowledgement.\<close>

theorem writer_resolves_everyone:
  assumes "length (jn_queue j) \<le> length jas"
    and "r \<in> set (jn_queue j)" and "wr_acknowledgement r = Some (k, event_id)"
    and "authority (jn_publications j k) = Some (event_id, t)"
  shows "jn_queue (writer_run jc jas j) = [] \<and> resolution (jn_publications (writer_run jc jas j) k) \<noteq> None"
  using writer_run_drains [OF assms(1), of jc] assms(2-4) by blast

text \<open>An event is never dropped in silence: enqueueing a claim either puts it at the end of the
  queue and changes nothing else, or marks the journal as degraded and resolves the publication with the
  reason, so that the claimant does not wait for the deadline.\<close>

theorem enqueue_accepts_or_reports:
  assumes "lp_state (jn_publications j k) = Claimed event_id t deadline"
  shows "if jn_connected j \<and> length (jn_queue j) < WRITER_QUEUE_CAPACITY
    then enqueue_claimed e k event_id j
      = j\<lparr>jn_queue := jn_queue j @ [\<lparr>wr_event = e, wr_acknowledgement = Some (k, event_id)\<rparr>]\<rparr>
    else js_degraded (jn_snapshot (enqueue_claimed e k event_id j)) \<and> jn_queue (enqueue_claimed e k event_id j) = jn_queue j
      \<and> resolution (jn_publications (enqueue_claimed e k event_id j) k)
        = Some \<lparr>pr_event_id = event_id, pr_trigger = t,
            pr_outcome = (if jn_connected j then QueueFull else WriterUnavailable)\<rparr>"
  using assms
  by (auto simp: enqueue_claimed_def try_send_def acknowledge_def resolve_def resolution_def mark_snapshot_degraded_def)

section \<open>A torn write\<close>

text \<open>An append that fits the current segment, when no call but the write of the line can fail.\<close>

lemma append_event_fits:
  assumes "storage_ok s" "storage_bounded s" "to_json_line jc e = Inr line"
    and "length (current_text s) + length line \<le> MAX_SEGMENT_BYTES"
    and "\<And>ph c. ja_faults ja ph c \<Longrightarrow> c = WriteLine"
  shows "\<exists>n. append_event jc ja s e =
    (s\<lparr>ss_dir := (ss_dir s)\<lparr>jd_files := (jd_files (ss_dir s))(ss_current s := current_text s @
        (if ja_faults ja InAppend WriteLine then take (ja_written ja InAppend WriteLine) line else line))\<rparr>, ss_current_bytes := n\<rparr>,
     if ja_faults ja InAppend WriteLine then Inl (CallFailed InAppend WriteLine) else Inr False)"
proof -
  have calls: "\<not> ja_faults ja ph c" if "c \<noteq> WriteLine" for ph c using assms(5) that by blast
  have prev: "repair_previous ja InAppend (ss_dir s) = (ss_dir s, Inr False)"
    using assms(2) calls by (cases "jd_previous (ss_dir s)")
      (auto simp: repair_previous_def open_regular_at_def create_segment_def repair_noop storage_bounded_def journal_call_def)
  have "repair_oversized_segments ja s = (s\<lparr>ss_current_bytes := length (current_text s)\<rparr>, Inr False)"
    using prev calls assms(2) by (simp add: repair_oversized_segments_def repair_noop storage_bounded_def journal_call_def current_text_def)
  moreover have "\<not> usize_saturating_add (length (current_text s)) (length line) > MAX_SEGMENT_BYTES"
    using assms(4) by (simp add: usize_saturating_add_def)
  ultimately show ?thesis
    using assms(3)
    by (intro exI [of _ "if ja_faults ja InAppend WriteLine then length (current_text s)
          else usize_saturating_add (length (current_text s)) (length line)"])
      (simp add: append_event_def append_line_def write_all_def current_text_def Let_def)
qed

lemma storage_after_append:
  assumes "storage_ok s" "storage_bounded s" "length (current_text s) + length more_bytes \<le> MAX_SEGMENT_BYTES"
    and "s' = s\<lparr>ss_dir := (ss_dir s)\<lparr>jd_files := (jd_files (ss_dir s))(ss_current s := current_text s @ more_bytes)\<rparr>, ss_current_bytes := n\<rparr>"
  shows "storage_ok s'" "storage_bounded s'" "current_text s' = current_text s @ more_bytes" "previous_text s' = previous_text s"
  using assms(1-3)
  by (auto simp: assms(4) storage_ok_def storage_bounded_def current_text_def previous_text_def Let_def split: option.splits)

text \<open>A line that cannot be decoded adds no event.\<close>

lemma load_text_garbage:
  assumes "newline \<notin> set bytes" "jc_from_slice jc bytes = None"
  shows "load_text jc (bytes @ [newline]) loaded = loaded\<lparr>le_degraded := True\<rparr>"
proof (cases "Suc (length bytes) \<le> MAX_EVENT_LINE_BYTES")
  case True
  then show ?thesis using load_text_line [OF assms(1) True, of jc "[]"] assms(2) by (simp add: load_line_def)
next
  case False
  have "position (\<lambda>b. b = newline) bytes = None" using assms(1) by (auto simp: position_None)
  then have "next_line (bytes @ [newline]) = (Invalid, [])" using False by (simp add: next_line_def position_append)
  then show ?thesis by (subst load_text.simps) simp
qed

lemma torn_disk_load:
  assumes "journal_codec_ok jc" "to_json_line jc e = Inr line" "to_json_line jc e' = Inr line'" "k < length line"
    "jc_from_slice jc (take k line @ butlast line') = None"
    and "complete_lines (current_text s)" "length (current_text s) \<le> MAX_SEGMENT_BYTES"
    "current_text s' = current_text s @ take k line @ line'" "previous_text s' = previous_text s" "length (current_text s') \<le> MAX_SEGMENT_BYTES"
  shows "le_events (disk_load jc s') = le_events (disk_load jc s)"
proof -
  obtain b where b: "line = b @ [newline]" "newline \<notin> set b" using to_json_line_Inr [OF assms(1,2)] by blast
  obtain b' where b': "line' = b' @ [newline]" "newline \<notin> set b'" using to_json_line_Inr [OF assms(1,3)] by blast
  have "take k line = take k b" using assms(4) b(1) by simp
  then have "newline \<notin> set (take k line @ b')" using b(2) b'(2) by (auto dest: in_set_takeD)
  then have "load_text jc (take k line @ line') l = l\<lparr>le_degraded := True\<rparr>" for l
    using load_text_garbage [of "take k line @ b'" jc] assms(5) b'(1) by simp
  then show ?thesis
    using load_text_append [OF assms(6), of jc "take k line @ line'"] assms(7-10)
    unfolding disk_load_def load_reference_def by (simp only: take_all) simp
qed

text \<open>The publications that a turn of the writer does not acknowledge stay as they are.\<close>

lemma acknowledge_other:
  "map_option fst ack \<noteq> Some p \<Longrightarrow> jn_publications (acknowledge ack out j) p = jn_publications j p"
  by (auto simp: acknowledge_def split: option.splits)

text \<open>C32. A torn write spoils the next event. A journal that was opened and has run without losing anything serves two requests.
  The write of the first line fails after some of its bytes, and every other call of both turns succeeds. Then the second
  event is acknowledged as persisted and is in memory, but the restart that follows does not load it: its line was
  appended to the part of the first one, and the two together are no event. (Both lines fit the current segment, the event is
  new, and the decoder refuses a part of one line followed by another.)\<close>

theorem torn_write_loses_next_event:
  assumes "journal_codec_ok jc" "journal_opened jc j0" "(journal_step jc)\<^sup>*\<^sup>* j0 j" "\<not> js_degraded (jn_snapshot j)"
    "jn_queue j = request # next_request # queue"
    "wr_acknowledgement next_request = Some (p, event_id)" "map_option fst (wr_acknowledgement request) \<noteq> Some p"
    "authority (jn_publications j p) = Some (event_id, t)" "resolution (jn_publications j p) = None"
    "to_json_line jc (wr_event request) = Inr line" "to_json_line jc (wr_event next_request) = Inr line'"
    "length (current_text (jn_storage j)) + length line + length line' \<le> MAX_SEGMENT_BYTES"
    "wr_event next_request \<notin> set (js_events (jn_snapshot j))"
    "0 < k" "k < length line" "jc_from_slice jc (take k line @ butlast line') = None"
    "\<And>ph c. ja_faults ja ph c = (ph = InAppend \<and> c = WriteLine)" "ja_written ja InAppend WriteLine = k"
    "\<And>ph c. \<not> ja_faults ja' ph c"
    "j' = writer_run jc [ja, ja'] j" "blocks_ok ja''" "journal_open jc ja'' (ss_dir (jn_storage j')) pubs = (d, Inr restarted)"
  shows "map_option pr_outcome (resolution (jn_publications j' p)) = Some Persisted
    \<and> wr_event next_request \<in> set (js_events (jn_snapshot j'))
    \<and> js_events (jn_snapshot restarted) = js_events (jn_snapshot j)
    \<and> wr_event next_request \<notin> set (js_events (jn_snapshot restarted))"
proof -
  let ?s = "jn_storage j"
  have ok: "journal_ok jc j" by (rule journal_run_ok [OF assms(1-3)])
  then have inv: "storage_ok ?s" "storage_bounded ?s" "complete_lines (current_text ?s)"
    "le_events (disk_load jc ?s) = js_events (jn_snapshot j)"
    using assms(4) by (auto simp: journal_ok_def journal_inv_def)
  obtain n s1 where s1: "s1 = ?s\<lparr>ss_dir := (ss_dir ?s)\<lparr>jd_files := (jd_files (ss_dir ?s))(ss_current ?s := current_text ?s @ take k line)\<rparr>,
      ss_current_bytes := n\<rparr>" and a1: "append_event jc ja ?s (wr_event request) = (s1, Inl (CallFailed InAppend WriteLine))"
    using append_event_fits [OF inv(1,2) assms(10), of ja] assms(12,17,18) by auto
  have fits1: "length (current_text ?s) + length (take k line) \<le> MAX_SEGMENT_BYTES" using assms(12) by simp
  note st1 = storage_after_append [OF inv(1,2) fits1 s1]
  have fits2: "length (current_text s1) + length line' \<le> MAX_SEGMENT_BYTES" using st1(3) assms(12) by simp
  obtain n' s2 where s2: "s2 = s1\<lparr>ss_dir := (ss_dir s1)\<lparr>jd_files := (jd_files (ss_dir s1))(ss_current s1 := current_text s1 @ line')\<rparr>,
      ss_current_bytes := n'\<rparr>" and a2: "append_event jc ja' s1 (wr_event next_request) = (s2, Inr False)"
    using append_event_fits [OF st1(1,2) assms(11) fits2, of ja'] assms(19) by auto
  note st2 = storage_after_append [OF st1(1,2) fits2 s2]
  define j1 where "j1 = acknowledge (wr_acknowledgement request) IoFailed
    (mark_snapshot_degraded (j\<lparr>jn_queue := next_request # queue, jn_storage := s1\<rparr>))"
  have t1: "writer_turn jc ja j = Some j1" using assms(5) a1 by (simp add: writer_turn_def j1_def)
  have j1: "jn_storage j1 = s1" "jn_queue j1 = next_request # queue" "js_events (jn_snapshot j1) = js_events (jn_snapshot j)"
    "jn_publications j1 p = jn_publications j p"
    using acknowledge_other [OF assms(7)] by (simp_all add: j1_def mark_snapshot_degraded_def)
  have t2: "writer_turn jc ja' j1 = Some (acknowledge (Some (p, event_id)) Persisted (j1\<lparr>jn_queue := queue, jn_storage := s2,
      jn_snapshot := (jn_snapshot j1)\<lparr>js_events := js_events (jn_snapshot j1) @ [wr_event next_request]\<rparr>\<rparr>))" (is "_ = Some ?j2")
    using a2 j1 assms(6) by (simp add: writer_turn_def snapshot_appended_def)
  have j': "j' = ?j2" using t1 t2 assms(20) by simp
  have "map_option pr_outcome (resolution (jn_publications j' p)) = Some Persisted"
    unfolding j' using acknowledge_resolves [of "j1\<lparr>jn_queue := queue, jn_storage := s2, jn_snapshot := (jn_snapshot j1)\<lparr>js_events :=
      js_events (jn_snapshot j1) @ [wr_event next_request]\<rparr>\<rparr>" p event_id t Persisted] assms(8,9) j1(4) by auto
  moreover have "js_events (jn_snapshot restarted) = js_events (jn_snapshot j)"
  proof -
    have "jn_storage j' = s2" by (simp add: j')
    then have "js_events (jn_snapshot restarted) = le_events (disk_load jc s2)"
      using restart_loads_disk [OF assms(21) st2(1,2)] assms(22) by simp
    also have "... = le_events (disk_load jc ?s)"
      using torn_disk_load [OF assms(1,10,11,15,16) inv(3), of s2] st1 st2 assms(12) fits2 by simp
    finally show ?thesis using inv(4) by simp
  qed
  ultimately show ?thesis using assms(13) by (simp add: j')
qed

section \<open>Examples\<close>

definition example_codec :: journal_codec where
  "example_codec = \<lparr>
     jc_to_vec = (\<lambda>e. if e = example_claim then Some [1, 2] else if e = example_reap 0 then Some [3, 4] else None),
     jc_from_slice = (\<lambda>b. if b = [1, 2] then Some example_claim else if b = [3, 4] then Some (example_reap 0) else None),
     jc_uuid_ok = (\<lambda>s. s = [0x61])\<rparr>"

definition example_answers :: "bool \<Rightarrow> journal_answers" where
  "example_answers torn = \<lparr>ja_faults = (\<lambda>ph c. torn \<and> c = WriteLine), ja_written = (\<lambda>ph c. 1),
     ja_blocks = (\<lambda>b. if b = [] then [] else [b])\<rparr>"

definition empty_journal_dir :: journal_dir where
  "empty_journal_dir = \<lparr>jd_files = (\<lambda>_. []), jd_current = None, jd_previous = None, jd_next = 0\<rparr>"

definition example_publications :: "nat \<Rightarrow> lifecycle_publication" where
  "example_publications k = \<lparr>lp_state = Claimed 3 CloseRequested 100, lp_conflicts = 0\<rparr>"

definition example_journal :: lifecycle_journal where
  "example_journal = \<lparr>jn_storage = \<lparr>ss_dir = \<lparr>jd_files = (\<lambda>_. []), jd_current = Some 0, jd_previous = None, jd_next = 1\<rparr>,
       ss_current = 0, ss_current_bytes = 0\<rparr>,
     jn_snapshot = \<lparr>js_events = [], js_degraded = False\<rparr>, jn_queue = [], jn_connected = True,
     jn_publications = example_publications\<rparr>"

lemma example_events_differ [simp]: "example_reap 0 \<noteq> example_claim" "example_claim \<noteq> example_reap 0"
  by (auto simp: example_reap_def example_claim_def leader_reaped_def trigger_claimed_def)

lemma example_blocks_ok: "blocks_ok (example_answers torn)"
  by (simp add: blocks_ok_def example_answers_def)

lemma example_codec_ok: "journal_codec_ok example_codec"
  by (simp add: journal_codec_ok_def example_codec_def newline_def)

lemma example_loads_unchanged: "loads_unchanged example_codec example_claim"
proof -
  have "has_valid_shape (\<lambda>s. s = [0x61]) (stored_from example_lifecycle_identity)"
    by (simp add: has_valid_shape_def example_identity_stored starts_with_percent_def is_none_or_def)
  then show ?thesis
    by (simp add: loads_unchanged_def example_codec_def example_claim_def validate_and_sanitize_loaded_def
        trigger_claimed_def sanitize_loaded_stored Let_def)
qed

lemmas journal_eval = writer_turn_def append_event_def repair_oversized_segments_def repair_oversized_segment_def
  repair_previous_def open_regular_at_def create_segment_def journal_call_def append_line_def write_all_def to_json_line_def
  usize_saturating_add_def MAX_EVENT_LINE_BYTES_def MAX_SEGMENT_BYTES_def example_answers_def example_codec_def
  acknowledge_def resolve_def snapshot_appended_def mark_snapshot_degraded_def

lemma example_opens:
  "journal_open example_codec (example_answers False) empty_journal_dir example_publications
     = (ss_dir (jn_storage example_journal), Inr example_journal)"
  by (simp add: journal_open_def storage_open_def empty_journal_dir_def example_journal_def load_all_def load_named_def
      load_segment_def load_lines_text journal_eval fun_upd_idem)

lemma example_opened: "journal_opened example_codec example_journal"
  using example_opens example_blocks_ok
  by (force simp: journal_opened_def dir_ok_def empty_journal_dir_def)

text \<open>One event enqueued and served, and the same journal after the next.\<close>

definition example_queued :: lifecycle_journal where
  "example_queued = enqueue_claimed example_claim 0 3 example_journal"

definition example_served :: lifecycle_journal where
  "example_served = example_queued\<lparr>jn_queue := [],
     jn_storage := \<lparr>ss_dir = (ss_dir (jn_storage example_journal))\<lparr>jd_files := (\<lambda>_. [])(0 := [1, 2, newline])\<rparr>,
       ss_current = 0, ss_current_bytes = 3\<rparr>,
     jn_snapshot := \<lparr>js_events = [example_claim], js_degraded = False\<rparr>,
     jn_publications := (example_publications)(0 := \<lparr>lp_state = Resolved
       \<lparr>pr_event_id = 3, pr_trigger = CloseRequested, pr_outcome = Persisted\<rparr>, lp_conflicts = 0\<rparr>)\<rparr>"

lemma example_queued_eq:
  "example_queued = example_journal\<lparr>jn_queue := [\<lparr>wr_event = example_claim, wr_acknowledgement = Some (0, 3)\<rparr>]\<rparr>"
  by (simp add: example_queued_def enqueue_claimed_def try_send_def example_journal_def WRITER_QUEUE_CAPACITY_def)

lemma example_turn: "writer_turn example_codec (example_answers False) example_queued = Some example_served"
  by (simp add: example_served_def example_queued_eq example_journal_def journal_eval example_publications_def)

lemma example_run: "(journal_step example_codec)\<^sup>*\<^sup>* example_journal example_served"
proof -
  have "journal_step example_codec example_journal example_queued"
    unfolding example_queued_def by (rule journal_step.claimed [OF example_loads_unchanged])
  moreover have "journal_step example_codec example_queued example_served"
    by (rule journal_step.served [OF example_blocks_ok example_turn])
  ultimately show ?thesis by (meson rtranclp.rtrancl_into_rtrancl rtranclp.rtrancl_refl)
qed

lemma example_reopens:
  "\<exists>d j. journal_open example_codec (example_answers False) (ss_dir (jn_storage example_served)) pubs = (d, Inr j)"
  by (simp add: journal_open_def storage_open_def example_served_def example_journal_def load_all_def load_named_def
      load_segment_def load_lines_text journal_eval)

theorem restart_restores_journal_witness:
  "\<exists>d j. journal_open example_codec (example_answers False) (ss_dir (jn_storage example_served)) example_publications = (d, Inr j)
     \<and> js_events (jn_snapshot j) = [example_claim]"
proof -
  obtain d j where o: "journal_open example_codec (example_answers False) (ss_dir (jn_storage example_served))
      example_publications = (d, Inr j)" using example_reopens by blast
  have "jn_snapshot j = jn_snapshot example_served"
    using restart_restores_journal [OF example_codec_ok example_opened example_run _ example_blocks_ok o]
    by (simp add: example_served_def)
  then show ?thesis using o by (simp add: example_served_def)
qed

theorem segments_stay_bounded_witness:
  "storage_bounded (jn_storage example_served) \<and> length (jn_queue example_queued) = 1"
  using segments_stay_bounded [OF example_codec_ok example_opened example_run] by (simp add: example_queued_eq)

theorem reading_ignores_blocks_witness:
  "le_events (load_lines example_codec [[1], [2, newline, 1], [2]] \<lparr>le_events = [], le_degraded = False\<rparr>) = [example_claim]
   \<and> le_degraded (load_lines example_codec [[1], [2, newline, 1], [2]] \<lparr>le_events = [], le_degraded = False\<rparr>)"
proof -
  let ?start = "\<lparr>le_events = [], le_degraded = False\<rparr>"
  have "load_lines example_codec [[1], [2, newline, 1], [2]] ?start = load_text example_codec [1, 2, newline, 1, 2] ?start"
    using reading_ignores_blocks [of "[[1], [2, newline, 1], [2]]" example_codec ?start] by simp
  also have "... = load_text example_codec [1, 2] (load_line example_codec [1, 2] ?start)"
    using load_text_line [of "[1, 2]" example_codec "[1, 2]" ?start] by (simp add: newline_def MAX_EVENT_LINE_BYTES_def)
  also have "... = (load_line example_codec [1, 2] ?start)\<lparr>le_degraded := True\<rparr>"
    by (subst load_text.simps, subst load_text.simps) (simp add: next_line_def newline_def)
  finally show ?thesis
    using example_loads_unchanged by (simp add: load_line_def loads_unchanged_def example_codec_def)
qed

theorem writer_resolves_everyone_witness:
  "resolution (jn_publications (writer_run example_codec [example_answers True] example_queued) 0) \<noteq> None"
proof -
  let ?r = "\<lparr>wr_event = example_claim, wr_acknowledgement = Some (0, 3)\<rparr>"
  have "?r \<in> set (jn_queue example_queued)" "length (jn_queue example_queued) \<le> length [example_answers True]"
    "authority (jn_publications example_queued 0) = Some (3, CloseRequested)"
    by (simp_all add: example_queued_eq example_journal_def example_publications_def authority_def)
  then show ?thesis using writer_resolves_everyone [of example_queued "[example_answers True]" ?r 0 3] by simp
qed

theorem enqueue_accepts_or_reports_witness:
  "resolution (jn_publications (enqueue_claimed example_claim 0 3 (example_journal\<lparr>jn_connected := False\<rparr>)) 0)
     = Some \<lparr>pr_event_id = 3, pr_trigger = CloseRequested, pr_outcome = WriterUnavailable\<rparr>"
  using enqueue_accepts_or_reports [of "example_journal\<lparr>jn_connected := False\<rparr>" 0 3 CloseRequested 100 example_claim]
  by (simp add: example_journal_def example_publications_def)

text \<open>A write that fails after its first byte leaves that byte; the next event is appended to it and
  acknowledged as persisted, but the two share a line that no restart can read.\<close>

definition torn_start :: lifecycle_journal where
  "torn_start = enqueue_claimed (example_reap 0) 1 3 example_queued"

lemma torn_start_eq:
  "torn_start = example_journal\<lparr>jn_queue := [\<lparr>wr_event = example_claim, wr_acknowledgement = Some (0, 3)\<rparr>,
     \<lparr>wr_event = example_reap 0, wr_acknowledgement = Some (1, 3)\<rparr>]\<rparr>"
  by (simp add: torn_start_def example_queued_eq enqueue_claimed_def try_send_def example_journal_def WRITER_QUEUE_CAPACITY_def)

lemma example_reap_loads_unchanged: "loads_unchanged example_codec (example_reap 0)"
proof -
  have "has_valid_shape (\<lambda>s. s = [0x61]) (stored_from example_lifecycle_identity)"
    by (simp add: has_valid_shape_def example_identity_stored starts_with_percent_def is_none_or_def)
  then show ?thesis
    by (simp add: loads_unchanged_def example_codec_def example_reap_def validate_and_sanitize_loaded_def
        leader_reaped_def sanitize_loaded_stored Let_def)
qed

lemma torn_start_run: "(journal_step example_codec)\<^sup>*\<^sup>* example_journal torn_start"
proof -
  have "journal_step example_codec example_journal example_queued"
    unfolding example_queued_def by (rule journal_step.claimed [OF example_loads_unchanged])
  moreover have "journal_step example_codec example_queued torn_start"
    unfolding torn_start_def by (rule journal_step.claimed [OF example_reap_loads_unchanged])
  ultimately show ?thesis by (meson rtranclp.rtrancl_into_rtrancl rtranclp.rtrancl_refl)
qed

definition torn_answers :: journal_answers where
  "torn_answers = (example_answers False)\<lparr>ja_faults := (\<lambda>ph c. ph = InAppend \<and> c = WriteLine)\<rparr>"

definition torn_end :: lifecycle_journal where
  "torn_end = writer_run example_codec [torn_answers, example_answers False] torn_start"

lemma torn_storage:
  "ss_dir (jn_storage torn_end) = \<lparr>jd_files = (\<lambda>_. [])(0 := [1, 3, 4, newline]), jd_current = Some 0, jd_previous = None, jd_next = 1\<rparr>"
  by (simp add: torn_end_def torn_start_eq torn_answers_def example_journal_def journal_eval example_publications_def)

lemma torn_reopens:
  "\<exists>d j. journal_open example_codec (example_answers False) (ss_dir (jn_storage torn_end)) example_publications = (d, Inr j)"
  by (simp add: torn_storage journal_open_def storage_open_def load_all_def load_named_def load_segment_def load_lines_text journal_eval)

theorem torn_write_loses_next_event_witness:
  "map_option pr_outcome (resolution (jn_publications torn_end 1)) = Some Persisted
   \<and> example_reap 0 \<in> set (js_events (jn_snapshot torn_end))
   \<and> (\<exists>d j. journal_open example_codec (example_answers False) (ss_dir (jn_storage torn_end)) example_publications = (d, Inr j)
        \<and> js_events (jn_snapshot j) = [])"
proof -
  obtain d j where o: "journal_open example_codec (example_answers False) (ss_dir (jn_storage torn_end)) example_publications = (d, Inr j)"
    using torn_reopens by blast
  have "\<not> js_degraded (jn_snapshot torn_start)"
    "jn_queue torn_start = \<lparr>wr_event = example_claim, wr_acknowledgement = Some (0, 3)\<rparr> #
      \<lparr>wr_event = example_reap 0, wr_acknowledgement = Some (1, 3)\<rparr> # []"
    "authority (jn_publications torn_start 1) = Some (3, CloseRequested)" "resolution (jn_publications torn_start 1) = None"
    "js_events (jn_snapshot torn_start) = []" "current_text (jn_storage torn_start) = []"
    by (simp_all add: torn_start_eq example_journal_def example_publications_def authority_def resolution_def current_text_def)
  moreover have "to_json_line example_codec example_claim = Inr [1, 2, newline]" "to_json_line example_codec (example_reap 0) = Inr [3, 4, newline]"
    "jc_from_slice example_codec (take 1 [1, 2, newline] @ butlast [3, 4, newline]) = None"
    by (simp_all add: to_json_line_def example_codec_def usize_saturating_add_def MAX_EVENT_LINE_BYTES_def)
  moreover have "ja_faults torn_answers ph c = (ph = InAppend \<and> c = WriteLine)" "ja_written torn_answers InAppend WriteLine = 1"
    "\<not> ja_faults (example_answers False) ph c" for ph c
    by (simp_all add: torn_answers_def example_answers_def)
  ultimately show ?thesis
    using torn_write_loses_next_event [where k = 1 and pubs = example_publications, OF example_codec_ok example_opened torn_start_run _ _ _ _ _ _ _ _ _ _ _ _ _ _ _ _
        torn_end_def example_blocks_ok o] o
    by (simp add: MAX_SEGMENT_BYTES_def)
qed

end
