(* ===== verification/Launch_Record.thy ===== *)
theory Launch_Record
  imports Terminal_Sanitize
begin

text \<open>
  The slot record of a managed launch (\<open>src/src/launch_registry.rs\<close>, first part): the state of a launched process,
  the binding of its private artifacts (a directory with a runner, a socket and an ownership file), their
  validation, and \<open>validate_transition\<close>, which every change of a slot file has to pass.

  A validator of the source returns an error message or nothing; here it is the predicate that no error
  is returned. The lemmas show what every sequence of accepted changes keeps: the generation only grows,
  nonce and owner of a generation stay, the process passes its states in order, artifacts are created and removed in
  order, and nothing is removed or forgotten before the process is known to be gone.
\<close>

section \<open>Data\<close>

datatype 'a evidence = Present 'a | Absent | Unavailable

record process_identity =
  pi_boot_uuid :: uuid
  pi_pid_namespace_inode :: u64
  pi_pid :: u32
  pi_start_ticks :: u64

datatype managed_owner_kind = OwnerSpeculation

datatype managed_owner_role = OwnerProbe | OwnerRunner

record managed_owner_tag =
  ot_kind :: managed_owner_kind
  ot_tournament_uuid :: uuid
  ot_candidate_index :: u8
  ot_role :: managed_owner_role

definition owner_tag_validate :: "managed_owner_tag \<Rightarrow> bool" where
  "owner_tag_validate t \<longleftrightarrow> ot_kind t = OwnerSpeculation \<and> \<not> is_nil (ot_tournament_uuid t) \<and> ot_candidate_index t < 2"

datatype launch_slot_state =
    SlotVacant
  | IntentDurable (ls_nonce: uuid) (ls_created_unix_secs: u64)
  | IdentityDurable (ls_nonce: uuid) (ls_identity: process_identity) (ls_release_may_have_occurred: bool)
  | CleanupPending (ls_nonce: uuid) (ls_identity: process_identity) (ls_release_may_have_occurred: bool)
  | ResolvedTombstone (ls_nonce: uuid) (ls_last_identity: "process_identity option") (ls_resolved_unix_secs: u64)

record managed_directory_identity =
  md_boot_uuid :: uuid
  md_dev :: u64
  md_ino :: u64
  md_statx_mnt_id_unique :: u64

record managed_artifact_identity =
  ma_dev :: u64
  ma_ino :: u64

definition artifact_identity_validate :: "managed_artifact_identity \<Rightarrow> bool" where
  "artifact_identity_validate i \<longleftrightarrow> ma_dev i \<noteq> 0 \<and> ma_ino i \<noteq> 0"

definition directory_identity_validate :: "managed_directory_identity \<Rightarrow> bool" where
  "directory_identity_validate i \<longleftrightarrow>
     \<not> is_nil (md_boot_uuid i) \<and> md_dev i \<noteq> 0 \<and> md_ino i \<noteq> 0 \<and> md_statx_mnt_id_unique i \<noteq> 0"

datatype cleanup_step = StepOwnership | StepSocket | StepRunner | StepDirectory

record artifact_binding =
  ab_nonce :: uuid
  ab_control_root :: managed_directory_identity
  ab_private_leaf :: ustring
  ab_private_directory :: "managed_directory_identity option"
  ab_runner :: "managed_artifact_identity option"
  ab_socket :: "managed_artifact_identity option"
  ab_owner :: "managed_artifact_identity option"
  ab_runner_create_pending :: bool
  ab_socket_create_pending :: bool
  ab_owner_create_pending :: bool
  ab_cleanup_quarantine :: "ustring option"
  ab_cleanup_unlink_pending :: "cleanup_step option"
  ab_socket_retire_pending :: bool
  ab_socket_retired :: bool
  ab_cleanup_ownership_removed :: bool
  ab_cleanup_socket_removed :: bool
  ab_cleanup_runner_removed :: bool
  ab_cleanup_completed :: bool

datatype artifact_creation_phase =
    PhaseReserved | PhaseDirectoryCreated | PhaseRunnerCreatePending | PhaseRunnerCreated
  | PhaseSocketCreatePending | PhaseSocketCreated | PhaseOwnerCreatePending | PhaseOwnerCreated

record launch_slot =
  sl_schema_version :: u32
  sl_slot :: u16
  sl_generation :: u64
  sl_owner :: "managed_owner_tag option"
  sl_artifact_binding :: "artifact_binding option"
  sl_state :: launch_slot_state

definition SLOT_SCHEMA_VERSION :: u32 where
  "SLOT_SCHEMA_VERSION = 2"

section \<open>The artifact binding\<close>

definition creation_pending :: "artifact_binding \<Rightarrow> bool" where
  "creation_pending b \<longleftrightarrow> ab_runner_create_pending b \<or> ab_socket_create_pending b \<or> ab_owner_create_pending b"

fun cleanup_step_completed :: "cleanup_step \<Rightarrow> artifact_binding \<Rightarrow> bool" where
  "cleanup_step_completed StepOwnership b = ab_cleanup_ownership_removed b"
| "cleanup_step_completed StepSocket b = ab_cleanup_socket_removed b"
| "cleanup_step_completed StepRunner b = ab_cleanup_runner_removed b"
| "cleanup_step_completed StepDirectory b = ab_cleanup_completed b"

definition same_artifact :: "artifact_binding \<Rightarrow> artifact_binding \<Rightarrow> bool" where
  "same_artifact b other \<longleftrightarrow>
     ab_nonce b = ab_nonce other
     \<and> ab_control_root b = ab_control_root other
     \<and> ab_private_leaf b = ab_private_leaf other
     \<and> ab_private_directory b = ab_private_directory other
     \<and> ab_runner b = ab_runner other
     \<and> ab_socket b = ab_socket other
     \<and> ab_owner b = ab_owner other
     \<and> ab_runner_create_pending b = ab_runner_create_pending other
     \<and> ab_socket_create_pending b = ab_socket_create_pending other
     \<and> ab_owner_create_pending b = ab_owner_create_pending other"

definition creation_phase :: "artifact_binding \<Rightarrow> artifact_creation_phase option" where
  "creation_phase b =
     (case (is_some (ab_private_directory b), is_some (ab_runner b), is_some (ab_socket b), is_some (ab_owner b),
            ab_runner_create_pending b, ab_socket_create_pending b, ab_owner_create_pending b) of
        (False, False, False, False, False, False, False) \<Rightarrow> Some PhaseReserved
      | (True, False, False, False, False, False, False) \<Rightarrow> Some PhaseDirectoryCreated
      | (True, False, False, False, True, False, False) \<Rightarrow> Some PhaseRunnerCreatePending
      | (True, True, False, False, False, False, False) \<Rightarrow> Some PhaseRunnerCreated
      | (True, True, False, False, False, True, False) \<Rightarrow> Some PhaseSocketCreatePending
      | (True, True, True, False, False, False, False) \<Rightarrow> Some PhaseSocketCreated
      | (True, True, True, False, False, False, True) \<Rightarrow> Some PhaseOwnerCreatePending
      | (True, True, True, True, False, False, False) \<Rightarrow> Some PhaseOwnerCreated
      | _ \<Rightarrow> None)"

definition creation_progresses_to :: "artifact_binding \<Rightarrow> artifact_binding \<Rightarrow> bool" where
  "creation_progresses_to b next =
     (case (creation_phase b, creation_phase next) of
        (Some PhaseReserved, Some PhaseDirectoryCreated) \<Rightarrow> True
      | (Some PhaseDirectoryCreated, Some PhaseRunnerCreatePending) \<Rightarrow>
          ab_private_directory b = ab_private_directory next
      | (Some PhaseRunnerCreatePending, Some PhaseRunnerCreated) \<Rightarrow>
          ab_private_directory b = ab_private_directory next
      | (Some PhaseRunnerCreated, Some PhaseSocketCreatePending) \<Rightarrow>
          ab_private_directory b = ab_private_directory next \<and> ab_runner b = ab_runner next
      | (Some PhaseSocketCreatePending, Some PhaseSocketCreated) \<Rightarrow>
          ab_private_directory b = ab_private_directory next \<and> ab_runner b = ab_runner next
      | (Some PhaseSocketCreated, Some PhaseOwnerCreatePending) \<Rightarrow>
          ab_private_directory b = ab_private_directory next \<and> ab_runner b = ab_runner next
          \<and> ab_socket b = ab_socket next
      | (Some PhaseOwnerCreatePending, Some PhaseOwnerCreated) \<Rightarrow>
          ab_private_directory b = ab_private_directory next \<and> ab_runner b = ab_runner next
          \<and> ab_socket b = ab_socket next
      | _ \<Rightarrow> False)"

definition validate_managed_artifact_leaf :: "ustring \<Rightarrow> bool" where
  "validate_managed_artifact_leaf leaf \<longleftrightarrow>
     leaf \<noteq> [] \<and> length (as_bytes leaf) \<le> 255 \<and> leaf \<noteq> [0x2e] \<and> leaf \<noteq> [0x2e, 0x2e]
     \<and> 0x2f \<notin> set (as_bytes leaf) \<and> 0 \<notin> set (as_bytes leaf)"

definition unlink_in_order :: "cleanup_step \<Rightarrow> artifact_binding \<Rightarrow> bool" where
  "unlink_in_order step b =
     (case step of
        StepOwnership \<Rightarrow> \<not> ab_cleanup_ownership_removed b \<and> \<not> ab_cleanup_socket_removed b \<and> \<not> ab_cleanup_runner_removed b
      | StepSocket \<Rightarrow> ab_cleanup_ownership_removed b \<and> \<not> ab_cleanup_socket_removed b \<and> \<not> ab_cleanup_runner_removed b
      | StepRunner \<Rightarrow> ab_cleanup_ownership_removed b \<and> ab_cleanup_socket_removed b \<and> \<not> ab_cleanup_runner_removed b
      | StepDirectory \<Rightarrow> ab_cleanup_ownership_removed b \<and> ab_cleanup_socket_removed b \<and> ab_cleanup_runner_removed b
          \<and> \<not> ab_cleanup_completed b)"

definition binding_validate :: "artifact_binding \<Rightarrow> bool" where
  "binding_validate b \<longleftrightarrow>
     \<not> is_nil (ab_nonce b)
     \<and> directory_identity_validate (ab_control_root b)
     \<and> validate_managed_artifact_leaf (ab_private_leaf b)
     \<and> is_none_or (ab_private_directory b) directory_identity_validate
     \<and> (ab_socket b = None \<or> is_some (ab_runner b))
     \<and> (ab_runner b = None \<or> is_some (ab_private_directory b))
     \<and> is_none_or (ab_runner b) artifact_identity_validate
     \<and> is_none_or (ab_socket b) artifact_identity_validate
     \<and> is_none_or (ab_owner b) (\<lambda>identity. artifact_identity_validate identity \<and> is_some (ab_socket b))
     \<and> is_some (creation_phase b)
     \<and> is_none_or (ab_cleanup_quarantine b) (\<lambda>quarantine.
          validate_managed_artifact_leaf quarantine \<and> quarantine \<noteq> ab_private_leaf b)
     \<and> (\<not> ab_cleanup_completed b \<or> is_some (ab_cleanup_quarantine b))
     \<and> (\<not> ab_socket_retire_pending b \<or> is_some (ab_socket b) \<and> \<not> ab_socket_retired b)
     \<and> (\<not> ab_socket_retired b \<or> is_some (ab_socket b) \<and> \<not> ab_socket_retire_pending b)
     \<and> (\<not> ab_cleanup_socket_removed b \<or> ab_cleanup_ownership_removed b)
     \<and> (\<not> ab_cleanup_runner_removed b \<or> ab_cleanup_socket_removed b)
     \<and> (\<not> ab_cleanup_completed b \<or> ab_cleanup_runner_removed b)
     \<and> is_none_or (ab_cleanup_unlink_pending b) (\<lambda>step.
          is_some (ab_cleanup_quarantine b) \<and> \<not> cleanup_step_completed step b \<and> unlink_in_order step b)"

section \<open>Slot records\<close>

fun is_tombstone :: "launch_slot_state \<Rightarrow> bool" where
  "is_tombstone (ResolvedTombstone _ _ _) = True"
| "is_tombstone _ = False"

fun is_intent :: "launch_slot_state \<Rightarrow> bool" where
  "is_intent (IntentDurable _ _) = True"
| "is_intent _ = False"

definition state_nonce :: "launch_slot_state \<Rightarrow> uuid option" where
  "state_nonce s = (case s of SlotVacant \<Rightarrow> None | _ \<Rightarrow> Some (ls_nonce s))"

definition validate_slot_record :: "launch_slot \<Rightarrow> u16 \<Rightarrow> bool" where
  "validate_slot_record r expected_slot \<longleftrightarrow>
     sl_schema_version r = SLOT_SCHEMA_VERSION \<and> sl_slot r = expected_slot
     \<and> is_none_or (sl_owner r) owner_tag_validate
     \<and> is_none_or (sl_artifact_binding r) (\<lambda>binding.
          binding_validate binding \<and> is_some (sl_owner r)
          \<and> state_nonce (sl_state r) = Some (ab_nonce binding)
          \<and> (ab_cleanup_quarantine binding = None \<or> is_tombstone (sl_state r)))
     \<and> (case state_nonce (sl_state r) of
          None \<Rightarrow> sl_owner r = None \<and> sl_artifact_binding r = None
        | Some nonce \<Rightarrow> \<not> is_nil nonce)"

section \<open>Transitions\<close>

text \<open>The cleanup flags and the retirement flags of two bindings.\<close>

definition same_removals :: "artifact_binding \<Rightarrow> artifact_binding \<Rightarrow> bool" where
  "same_removals before after \<longleftrightarrow>
     ab_cleanup_ownership_removed before = ab_cleanup_ownership_removed after
     \<and> ab_cleanup_socket_removed before = ab_cleanup_socket_removed after
     \<and> ab_cleanup_runner_removed before = ab_cleanup_runner_removed after"

definition nothing_removed :: "artifact_binding \<Rightarrow> bool" where
  "nothing_removed b \<longleftrightarrow> \<not> ab_cleanup_ownership_removed b \<and> \<not> ab_cleanup_socket_removed b
     \<and> \<not> ab_cleanup_runner_removed b \<and> \<not> ab_cleanup_completed b"

definition creation_progress :: "launch_slot_state \<Rightarrow> artifact_binding \<Rightarrow> artifact_binding \<Rightarrow> bool" where
  "creation_progress state before after \<longleftrightarrow>
     is_intent state
     \<and> ab_cleanup_quarantine before = None \<and> ab_cleanup_quarantine after = None
     \<and> ab_cleanup_unlink_pending before = None \<and> ab_cleanup_unlink_pending after = None
     \<and> nothing_removed before \<and> nothing_removed after
     \<and> \<not> ab_socket_retire_pending before \<and> \<not> ab_socket_retire_pending after
     \<and> \<not> ab_socket_retired before \<and> \<not> ab_socket_retired after
     \<and> creation_progresses_to before after"

definition retirement_frame :: "artifact_binding \<Rightarrow> artifact_binding \<Rightarrow> bool" where
  "retirement_frame before after \<longleftrightarrow>
     same_artifact before after
     \<and> ab_cleanup_quarantine before = None \<and> ab_cleanup_quarantine after = None
     \<and> ab_cleanup_unlink_pending before = ab_cleanup_unlink_pending after
     \<and> same_removals before after
     \<and> ab_cleanup_completed before = ab_cleanup_completed after"

definition socket_retire_intent :: "artifact_binding \<Rightarrow> artifact_binding \<Rightarrow> bool" where
  "socket_retire_intent before after \<longleftrightarrow> retirement_frame before after
     \<and> \<not> ab_socket_retire_pending before \<and> ab_socket_retire_pending after
     \<and> \<not> ab_socket_retired before \<and> \<not> ab_socket_retired after"

definition socket_retire_receipt :: "artifact_binding \<Rightarrow> artifact_binding \<Rightarrow> bool" where
  "socket_retire_receipt before after \<longleftrightarrow> retirement_frame before after
     \<and> ab_socket_retire_pending before \<and> \<not> ab_socket_retire_pending after
     \<and> \<not> ab_socket_retired before \<and> ab_socket_retired after"

definition socket_retirement_unchanged :: "artifact_binding \<Rightarrow> artifact_binding \<Rightarrow> bool" where
  "socket_retirement_unchanged before after \<longleftrightarrow>
     ab_socket_retire_pending before = ab_socket_retire_pending after
     \<and> ab_socket_retired before = ab_socket_retired after"

definition cleanup_progress :: "launch_slot_state \<Rightarrow> artifact_binding \<Rightarrow> artifact_binding \<Rightarrow> bool" where
  "cleanup_progress state before after \<longleftrightarrow>
     is_tombstone state
     \<and> ab_private_directory before = ab_private_directory after
     \<and> ab_runner before = ab_runner after
     \<and> ab_socket before = ab_socket after
     \<and> ab_owner before = ab_owner after
     \<and> ab_runner_create_pending before = ab_runner_create_pending after
     \<and> ab_socket_create_pending before = ab_socket_create_pending after
     \<and> ab_owner_create_pending before = ab_owner_create_pending after
     \<and> ab_cleanup_quarantine before = None \<and> is_some (ab_cleanup_quarantine after)
     \<and> ab_cleanup_unlink_pending before = None \<and> ab_cleanup_unlink_pending after = None
     \<and> nothing_removed before \<and> nothing_removed after"

definition in_quarantine :: "launch_slot_state \<Rightarrow> artifact_binding \<Rightarrow> artifact_binding \<Rightarrow> bool" where
  "in_quarantine state before after \<longleftrightarrow>
     is_tombstone state \<and> same_artifact before after
     \<and> ab_cleanup_quarantine before = ab_cleanup_quarantine after \<and> is_some (ab_cleanup_quarantine before)
     \<and> \<not> ab_cleanup_completed before"

definition cleanup_step_intent :: "launch_slot_state \<Rightarrow> artifact_binding \<Rightarrow> artifact_binding \<Rightarrow> bool" where
  "cleanup_step_intent state before after \<longleftrightarrow> in_quarantine state before after
     \<and> \<not> ab_cleanup_completed after
     \<and> ab_cleanup_unlink_pending before = None \<and> is_some (ab_cleanup_unlink_pending after)
     \<and> same_removals before after"

definition removal_flags :: "artifact_binding \<Rightarrow> bool \<times> bool \<times> bool" where
  "removal_flags b = (ab_cleanup_ownership_removed b, ab_cleanup_socket_removed b, ab_cleanup_runner_removed b)"

definition cleanup_step_receipt :: "launch_slot_state \<Rightarrow> artifact_binding \<Rightarrow> artifact_binding \<Rightarrow> bool" where
  "cleanup_step_receipt state before after \<longleftrightarrow> in_quarantine state before after
     \<and> \<not> ab_cleanup_completed after
     \<and> ab_cleanup_unlink_pending after = None
     \<and> (ab_cleanup_unlink_pending before, removal_flags before, removal_flags after) \<in>
         {(Some StepOwnership, (False, False, False), (True, False, False)),
          (Some StepSocket, (True, False, False), (True, True, False)),
          (Some StepRunner, (True, True, False), (True, True, True))}"

definition cleanup_completion :: "launch_slot_state \<Rightarrow> artifact_binding \<Rightarrow> artifact_binding \<Rightarrow> bool" where
  "cleanup_completion state before after \<longleftrightarrow> in_quarantine state before after
     \<and> removal_flags before = (True, True, True) \<and> removal_flags after = (True, True, True)
     \<and> ab_cleanup_unlink_pending before = Some StepDirectory \<and> ab_cleanup_unlink_pending after = None
     \<and> ab_cleanup_completed after"

definition logical_absence_completion :: "launch_slot_state \<Rightarrow> artifact_binding \<Rightarrow> artifact_binding \<Rightarrow> bool" where
  "logical_absence_completion state before after \<longleftrightarrow> in_quarantine state before after
     \<and> ab_cleanup_unlink_pending before = None
     \<and> removal_flags before = (False, False, False)
     \<and> ab_cleanup_unlink_pending after = None
     \<and> removal_flags after = (True, True, True)
     \<and> ab_cleanup_completed after"

definition old_boot_logical_absence_completion ::
    "launch_slot_state \<Rightarrow> artifact_binding \<Rightarrow> artifact_binding \<Rightarrow> bool" where
  "old_boot_logical_absence_completion state before after \<longleftrightarrow>
     is_tombstone state \<and> same_artifact before after
     \<and> is_some (ab_cleanup_quarantine after)
     \<and> ab_cleanup_unlink_pending after = None
     \<and> \<not> ab_socket_retire_pending after
     \<and> ab_socket_retired after = (ab_socket_retired before \<or> is_some (ab_socket before))
     \<and> removal_flags after = (True, True, True)
     \<and> \<not> ab_cleanup_completed before \<and> ab_cleanup_completed after"

definition binding_step :: "launch_slot_state \<Rightarrow> artifact_binding \<Rightarrow> artifact_binding \<Rightarrow> bool" where
  "binding_step state before after \<longleftrightarrow>
     (ab_nonce before = ab_nonce after \<and> ab_control_root before = ab_control_root after
       \<and> ab_private_leaf before = ab_private_leaf after)
     \<and> (creation_progress state before after
       \<or> socket_retire_intent before after
       \<or> socket_retire_receipt before after
       \<or> old_boot_logical_absence_completion state before after
       \<or> (socket_retirement_unchanged before after
          \<and> (cleanup_progress state before after
            \<or> cleanup_step_intent state before after
            \<or> cleanup_step_receipt state before after
            \<or> cleanup_completion state before after
            \<or> logical_absence_completion state before after)))"

definition binding_update :: "launch_slot \<Rightarrow> launch_slot \<Rightarrow> bool" where
  "binding_update current next \<longleftrightarrow>
     current\<lparr>sl_artifact_binding := sl_artifact_binding next\<rparr> = next
     \<and> (case (sl_artifact_binding current, sl_artifact_binding next) of
          (None, Some _) \<Rightarrow> is_intent (sl_state current)
        | (Some before, Some after) \<Rightarrow> binding_step (sl_state current) before after
        | (Some before, None) \<Rightarrow> is_tombstone (sl_state current)
            \<and> is_some (ab_cleanup_quarantine before) \<and> ab_cleanup_completed before
        | (None, None) \<Rightarrow> False)"

definition state_step :: "launch_slot \<Rightarrow> launch_slot \<Rightarrow> bool" where
  "state_step current next =
     (case (sl_state current, sl_state next) of
        (SlotVacant, IntentDurable _ _) \<Rightarrow>
          is_some_and (checked_add (sl_generation current) 1) (\<lambda>generation. generation = sl_generation next)
      | (IntentDurable a _, IdentityDurable b _ _) \<Rightarrow> sl_generation current = sl_generation next \<and> a = b
      | (IdentityDurable a _ _, CleanupPending b _ _) \<Rightarrow> sl_generation current = sl_generation next \<and> a = b
      | (CleanupPending a _ _, ResolvedTombstone b _ _) \<Rightarrow> sl_generation current = sl_generation next \<and> a = b
      | (IntentDurable a _, ResolvedTombstone b _ _) \<Rightarrow> sl_generation current = sl_generation next \<and> a = b
      | (ResolvedTombstone _ _ _, SlotVacant) \<Rightarrow>
          sl_generation current = sl_generation next \<and> sl_artifact_binding current = None
          \<and> sl_owner next = None \<and> sl_artifact_binding next = None
      | _ \<Rightarrow> current = next)"

definition owner_stable :: "launch_slot \<Rightarrow> launch_slot \<Rightarrow> bool" where
  "owner_stable current next =
     (case (sl_state current, sl_state next) of
        (SlotVacant, IntentDurable _ _) \<Rightarrow> is_none_or (sl_owner next) owner_tag_validate
      | (ResolvedTombstone _ _ _, SlotVacant) \<Rightarrow> sl_owner next = None
      | _ \<Rightarrow> sl_owner current = sl_owner next)"

definition validate_transition :: "launch_slot \<Rightarrow> launch_slot \<Rightarrow> bool" where
  "validate_transition current next \<longleftrightarrow>
     sl_schema_version current = SLOT_SCHEMA_VERSION \<and> sl_schema_version next = SLOT_SCHEMA_VERSION
     \<and> sl_slot current = sl_slot next
     \<and> owner_stable current next
     \<and> (binding_update current next \<or> sl_artifact_binding current = sl_artifact_binding next)
     \<and> (binding_update current next \<or> state_step current next)"

section \<open>Creation\<close>

lemma is_some_not [simp]: "\<not> is_some x \<longleftrightarrow> x = None"
  by (cases x) auto

lemma creation_phase_Some:
  "creation_phase b = Some ph \<longleftrightarrow>
     (is_some (ab_private_directory b) \<longleftrightarrow> ph \<noteq> PhaseReserved)
     \<and> (is_some (ab_runner b) \<longleftrightarrow> ph \<notin> {PhaseReserved, PhaseDirectoryCreated, PhaseRunnerCreatePending})
     \<and> (is_some (ab_socket b) \<longleftrightarrow> ph \<in> {PhaseSocketCreated, PhaseOwnerCreatePending, PhaseOwnerCreated})
     \<and> (is_some (ab_owner b) \<longleftrightarrow> ph = PhaseOwnerCreated)
     \<and> (ab_runner_create_pending b \<longleftrightarrow> ph = PhaseRunnerCreatePending)
     \<and> (ab_socket_create_pending b \<longleftrightarrow> ph = PhaseSocketCreatePending)
     \<and> (ab_owner_create_pending b \<longleftrightarrow> ph = PhaseOwnerCreatePending)"
proof -
  have "(case (d, r, s, w, rp, sp, op) of
        (False, False, False, False, False, False, False) \<Rightarrow> Some PhaseReserved
      | (True, False, False, False, False, False, False) \<Rightarrow> Some PhaseDirectoryCreated
      | (True, False, False, False, True, False, False) \<Rightarrow> Some PhaseRunnerCreatePending
      | (True, True, False, False, False, False, False) \<Rightarrow> Some PhaseRunnerCreated
      | (True, True, False, False, False, True, False) \<Rightarrow> Some PhaseSocketCreatePending
      | (True, True, True, False, False, False, False) \<Rightarrow> Some PhaseSocketCreated
      | (True, True, True, False, False, False, True) \<Rightarrow> Some PhaseOwnerCreatePending
      | (True, True, True, True, False, False, False) \<Rightarrow> Some PhaseOwnerCreated
      | _ \<Rightarrow> None) = Some ph \<longleftrightarrow>
     (d \<longleftrightarrow> ph \<noteq> PhaseReserved)
     \<and> (r \<longleftrightarrow> ph \<notin> {PhaseReserved, PhaseDirectoryCreated, PhaseRunnerCreatePending})
     \<and> (s \<longleftrightarrow> ph \<in> {PhaseSocketCreated, PhaseOwnerCreatePending, PhaseOwnerCreated})
     \<and> (w \<longleftrightarrow> ph = PhaseOwnerCreated)
     \<and> (rp \<longleftrightarrow> ph = PhaseRunnerCreatePending)
     \<and> (sp \<longleftrightarrow> ph = PhaseSocketCreatePending)
     \<and> (op \<longleftrightarrow> ph = PhaseOwnerCreatePending)" for d r s w rp sp op
    by (cases ph; cases d; cases r; cases s; cases w; cases rp; cases sp; cases op) simp_all
  then show ?thesis unfolding creation_phase_def .
qed

text \<open>What is created stays as it is.\<close>

definition kept :: "'a option \<Rightarrow> 'a option \<Rightarrow> bool" where
  "kept x y \<longleftrightarrow> x = None \<or> x = y"

lemma kept_simps [simp]: "kept None y" "kept x x" "kept (Some v) y \<longleftrightarrow> y = Some v"
  by (auto simp: kept_def)

lemma kept_trans: "kept x y \<Longrightarrow> kept y z \<Longrightarrow> kept x z"
  by (auto simp: kept_def)

lemma creation_progresses_kept:
  assumes "creation_progresses_to b next"
  shows "kept (ab_private_directory b) (ab_private_directory next) \<and> kept (ab_runner b) (ab_runner next)
    \<and> kept (ab_socket b) (ab_socket next) \<and> kept (ab_owner b) (ab_owner next)"
proof -
  obtain p q where ph: "creation_phase b = Some p" "creation_phase next = Some q"
    using assms by (auto simp: creation_progresses_to_def split: option.splits artifact_creation_phase.splits)
  show ?thesis
    using assms ph(1,2) [THEN creation_phase_Some [THEN iffD1]]
    by (cases p; cases q) (auto simp: creation_progresses_to_def ph)
qed

definition phase_number :: "artifact_creation_phase \<Rightarrow> nat" where
  "phase_number p = (case p of PhaseReserved \<Rightarrow> 0 | PhaseDirectoryCreated \<Rightarrow> 1 | PhaseRunnerCreatePending \<Rightarrow> 2
     | PhaseRunnerCreated \<Rightarrow> 3 | PhaseSocketCreatePending \<Rightarrow> 4 | PhaseSocketCreated \<Rightarrow> 5
     | PhaseOwnerCreatePending \<Rightarrow> 6 | PhaseOwnerCreated \<Rightarrow> 7)"

lemma creation_progresses_number:
  assumes "creation_progresses_to b next"
  shows "\<exists>p q. creation_phase b = Some p \<and> creation_phase next = Some q \<and> phase_number q = Suc (phase_number p)"
  using assms
  by (auto simp: creation_progresses_to_def phase_number_def split: option.splits artifact_creation_phase.splits)

section \<open>History\<close>

definition binding_le :: "artifact_binding \<Rightarrow> artifact_binding \<Rightarrow> bool" where
  "binding_le x y \<longleftrightarrow>
     ab_nonce x = ab_nonce y \<and> ab_control_root x = ab_control_root y \<and> ab_private_leaf x = ab_private_leaf y
     \<and> kept (ab_private_directory x) (ab_private_directory y) \<and> kept (ab_runner x) (ab_runner y)
     \<and> kept (ab_socket x) (ab_socket y) \<and> kept (ab_owner x) (ab_owner y)
     \<and> (ab_cleanup_quarantine y = None \<longrightarrow> ab_cleanup_quarantine x = None)
     \<and> (ab_socket_retired x \<longrightarrow> ab_socket_retired y)
     \<and> (\<forall>step. cleanup_step_completed step x \<longrightarrow> cleanup_step_completed step y)"

lemma binding_le_refl [simp]: "binding_le x x"
  by (simp add: binding_le_def)

lemma binding_le_trans: "binding_le x y \<Longrightarrow> binding_le y z \<Longrightarrow> binding_le x z"
  by (auto simp: binding_le_def intro: kept_trans)

lemma same_artifact_kept:
  assumes "same_artifact x y"
  shows "ab_nonce x = ab_nonce y \<and> ab_control_root x = ab_control_root y \<and> ab_private_leaf x = ab_private_leaf y
    \<and> kept (ab_private_directory x) (ab_private_directory y) \<and> kept (ab_runner x) (ab_runner y)
    \<and> kept (ab_socket x) (ab_socket y) \<and> kept (ab_owner x) (ab_owner y)"
  using assms by (simp add: same_artifact_def)

lemma all_steps: "(\<forall>step. P step) \<longleftrightarrow> P StepOwnership \<and> P StepSocket \<and> P StepRunner \<and> P StepDirectory"
  by (metis cleanup_step.exhaust)

lemmas binding_step_defs = retirement_frame_def socket_retire_intent_def socket_retire_receipt_def
  socket_retirement_unchanged_def cleanup_progress_def in_quarantine_def cleanup_step_intent_def
  cleanup_step_receipt_def cleanup_completion_def logical_absence_completion_def
  old_boot_logical_absence_completion_def removal_flags_def same_removals_def nothing_removed_def

lemma binding_step_le:
  assumes "binding_step state x y"
  shows "binding_le x y"
proof -
  have id: "ab_nonce x = ab_nonce y" "ab_control_root x = ab_control_root y" "ab_private_leaf x = ab_private_leaf y"
    using assms by (auto simp: binding_step_def)
  consider "creation_progress state x y" | "retirement_frame x y" "ab_socket_retired x \<longrightarrow> ab_socket_retired y"
    | "old_boot_logical_absence_completion state x y"
    | "socket_retirement_unchanged x y" "cleanup_progress state x y"
    | "socket_retirement_unchanged x y" "in_quarantine state x y"
      "\<forall>step. cleanup_step_completed step x \<longrightarrow> cleanup_step_completed step y"
    using assms
    by (auto simp: binding_step_def socket_retire_intent_def socket_retire_receipt_def cleanup_step_intent_def
        cleanup_step_receipt_def cleanup_completion_def logical_absence_completion_def in_quarantine_def
        same_removals_def removal_flags_def all_steps)
  then show ?thesis
  proof cases
    case 1
    then show ?thesis using id creation_progresses_kept [of x y]
      by (simp add: binding_le_def creation_progress_def nothing_removed_def all_steps)
  next
    case 2
    then show ?thesis using same_artifact_kept [of x y]
      by (simp add: binding_le_def retirement_frame_def same_removals_def all_steps)
  next
    case 3
    then show ?thesis using same_artifact_kept [of x y]
      by (auto simp: binding_le_def old_boot_logical_absence_completion_def removal_flags_def all_steps)
  next
    case 4
    then show ?thesis using id
      by (simp add: binding_le_def cleanup_progress_def socket_retirement_unchanged_def nothing_removed_def all_steps)
  next
    case 5
    then show ?thesis using same_artifact_kept [of x y]
      by (auto simp: binding_le_def in_quarantine_def socket_retirement_unchanged_def)
  qed
qed

text \<open>The states of one generation in their order; a slot is vacant after its tombstone.\<close>

definition state_rank :: "launch_slot_state \<Rightarrow> nat" where
  "state_rank s = (case s of IntentDurable _ _ \<Rightarrow> 0 | IdentityDurable _ _ _ \<Rightarrow> 1 | CleanupPending _ _ _ \<Rightarrow> 2
     | ResolvedTombstone _ _ _ \<Rightarrow> 3 | SlotVacant \<Rightarrow> 4)"

lemma rank_simps:
  "state_rank s = 0 \<longleftrightarrow> is_intent s" "state_rank s = 3 \<longleftrightarrow> is_tombstone s" "state_rank s = 4 \<longleftrightarrow> s = SlotVacant"
  "state_rank s \<le> 4"
  by (cases s; simp add: state_rank_def)+

definition binding_history :: "launch_slot \<Rightarrow> launch_slot \<Rightarrow> bool" where
  "binding_history a b =
     (case (sl_artifact_binding a, sl_artifact_binding b) of
        (None, None) \<Rightarrow> True
      | (None, Some _) \<Rightarrow> is_intent (sl_state a)
      | (Some x, Some y) \<Rightarrow> binding_le x y
      | (Some x, None) \<Rightarrow> is_tombstone (sl_state b))"

text \<open>What may lie between two records of one slot.\<close>

definition slot_history :: "launch_slot \<Rightarrow> launch_slot \<Rightarrow> bool" where
  "slot_history a b \<longleftrightarrow> sl_slot a = sl_slot b \<and>
     (sl_generation a < sl_generation b \<or>
      sl_generation a = sl_generation b \<and> state_rank (sl_state a) \<le> state_rank (sl_state b)
      \<and> (sl_state b \<noteq> SlotVacant \<longrightarrow>
           state_nonce (sl_state a) = state_nonce (sl_state b) \<and> sl_owner a = sl_owner b \<and> binding_history a b))"

lemma slot_history_refl [simp]: "slot_history a a"
  by (simp add: slot_history_def binding_history_def split: option.splits)

lemma binding_history_trans:
  assumes "binding_history a b" "binding_history b c"
    and "state_rank (sl_state a) \<le> state_rank (sl_state b)" "state_rank (sl_state b) \<le> state_rank (sl_state c)"
    and "sl_state c \<noteq> SlotVacant"
  shows "binding_history a c"
proof -
  have intent: "is_intent (sl_state b) \<Longrightarrow> is_intent (sl_state a)"
    using assms(3) by (simp flip: rank_simps(1))
  have tomb: "is_tombstone (sl_state b) \<Longrightarrow> is_tombstone (sl_state c)"
    using assms(4,5) rank_simps(2,3,4) [of "sl_state c"] by (simp flip: rank_simps(2))
  have "\<not> (is_tombstone (sl_state b) \<and> is_intent (sl_state b))" by (cases "sl_state b") auto
  then show ?thesis
    using assms(1,2) intent tomb
    by (auto simp: binding_history_def split: option.splits intro: binding_le_trans)
qed

lemma slot_history_trans: "slot_history a b \<Longrightarrow> slot_history b c \<Longrightarrow> slot_history a c"
proof -
  assume ab: "slot_history a b" and bc: "slot_history b c"
  show ?thesis
  proof (cases "sl_generation a < sl_generation b \<or> sl_generation b < sl_generation c")
    case True
    then show ?thesis using ab bc by (auto simp: slot_history_def)
  next
    case False
    then have gen: "sl_generation a = sl_generation b" "sl_generation b = sl_generation c"
      and ranks: "state_rank (sl_state a) \<le> state_rank (sl_state b)" "state_rank (sl_state b) \<le> state_rank (sl_state c)"
      using ab bc by (auto simp: slot_history_def)
    show ?thesis
    proof (cases "sl_state c = SlotVacant")
      case True
      then show ?thesis using ab bc gen ranks by (simp add: slot_history_def)
    next
      case c: False
      have b: "sl_state b \<noteq> SlotVacant"
        using c ranks rank_simps(3,4) [of "sl_state c"] rank_simps(3) [of "sl_state b"] by fastforce
      show ?thesis
        using ab bc gen ranks b c binding_history_trans [OF _ _ ranks c]
        by (auto simp: slot_history_def)
    qed
  qed
qed

definition launch_slot_ok :: "launch_slot \<Rightarrow> bool" where
  "launch_slot_ok r \<longleftrightarrow> validate_slot_record r (sl_slot r)"

lemma binding_update_history:
  assumes "binding_update a b"
  shows "slot_history a b"
proof -
  obtain bd where b: "b = a\<lparr>sl_artifact_binding := bd\<rparr>"
    using assms by (metis binding_update_def)
  have "binding_history a b"
    using assms by (auto simp: binding_update_def binding_history_def b binding_step_le split: option.splits)
  then show ?thesis by (simp add: slot_history_def b)
qed

lemma state_step_history:
  assumes "validate_transition a b" "\<not> binding_update a b" "launch_slot_ok a"
  shows "slot_history a b"
proof -
  have t: "state_step a b" "sl_artifact_binding a = sl_artifact_binding b" "sl_slot a = sl_slot b" "owner_stable a b"
    using assms(1,2) by (auto simp: validate_transition_def)
  have same: "binding_history a b" using t(2) by (simp add: binding_history_def split: option.splits)
  show ?thesis
  proof (cases "sl_state a = SlotVacant \<and> is_intent (sl_state b)")
    case True
    then show ?thesis using t(1,3)
      by (cases "sl_state b") (auto simp: state_step_def slot_history_def is_some_and_def checked_add_one_less split: option.splits)
  next
    case False
    then show ?thesis using t same slot_history_refl [of b]
      by (cases "sl_state a"; cases "sl_state b")
        (auto simp: state_step_def owner_stable_def slot_history_def state_rank_def state_nonce_def)
  qed
qed

lemma transition_history: "validate_transition a b \<Longrightarrow> launch_slot_ok a \<Longrightarrow> slot_history a b"
  using binding_update_history state_step_history by blast

end
