(* ===== verification/Launch_Registry.thy ===== *)
theory Launch_Registry
  imports Launch_Record
begin

text \<open>
  The registry of managed launches (\<open>src/src/launch_registry.rs\<close>, second part): one file for each slot, one
  registration for each slot, and the operations on them. An operation is a function on the \<open>registry\<close> that returns
  a result or an error, together with the registry that it leaves, so that an error can come after a part of
  the work. Every call of the operating system takes the next number; \<open>launch_env\<close> says for each number
  whether the call fails and what it answers. The JSON codec is a parameter.
\<close>

section \<open>State and calls\<close>

datatype launch_error =
    InvalidArgument | RegistryBusy | GuardBusy | SlotUnreadable | RecordTooLarge | NotSerializable | OsCallFailed
  | IllegalTransition | SlotConflict | GenerationConflict | WrongState | BindingAbsent | BindingMismatch
  | OutOfOrder | OwnerTaken | OwnerUncertain | CapacityExhausted nat | GenerationExhausted | RegistrationInvalid
  | BootUnavailable

record gate_registration =
  gr_schema_version :: u32
  gr_slot :: u16
  gr_generation :: u64
  gr_nonce :: uuid
  gr_identity :: process_identity

record registration_record =
  rr_schema_version :: u32
  rr_slot :: u16
  rr_generation :: u64
  rr_registration :: "gate_registration option"

text \<open>A process descriptor refers to the process that had the number when it was opened, whatever has the number later.\<close>

record pidfd =
  fd_pid :: u32
  fd_opened_at :: nat

record registry =
  rg_slots :: "u16 \<Rightarrow> u8 list option"
  rg_registrations :: "u16 \<Rightarrow> u8 list option"
  rg_slot_count :: nat
  rg_signalled :: "(pidfd \<times> nat) list"
  rg_calls :: nat

record launch_env =
  le_fails :: "nat \<Rightarrow> bool"
  le_fails_after :: "nat \<Rightarrow> bool"
  le_new_uuid :: "nat \<Rightarrow> uuid"
  le_now :: "nat \<Rightarrow> u64"
  le_boot_uuid :: "nat \<Rightarrow> uuid evidence"
  le_pid_namespace_inode :: "nat \<Rightarrow> u32 \<Rightarrow> u64 evidence"
  le_stat :: "nat \<Rightarrow> u32 \<Rightarrow> ustring evidence"
  le_pidfd_open :: "nat \<Rightarrow> u32 \<Rightarrow> unit evidence"

record launch_codec =
  lc_slot_to_vec :: "launch_slot \<Rightarrow> u8 list option"
  lc_slot_from_slice :: "u8 list \<Rightarrow> launch_slot option"
  lc_registration_to_vec :: "registration_record \<Rightarrow> u8 list option"
  lc_registration_from_slice :: "u8 list \<Rightarrow> registration_record option"
  lc_uuid_simple :: "uuid \<Rightarrow> ustring"

type_synonym 'a rg = "registry \<Rightarrow> (launch_error + 'a) \<times> registry"

definition rreturn :: "'a \<Rightarrow> 'a rg" where
  "rreturn x s = (Inr x, s)"

definition rfail :: "launch_error \<Rightarrow> 'a rg" where
  "rfail e s = (Inl e, s)"

definition rbind :: "'a rg \<Rightarrow> ('a \<Rightarrow> 'b rg) \<Rightarrow> 'b rg" where
  "rbind m f s = (case m s of (Inl e, s') \<Rightarrow> (Inl e, s') | (Inr x, s') \<Rightarrow> f x s')"

definition rensure :: "bool \<Rightarrow> launch_error \<Rightarrow> unit rg" where
  "rensure b e = (if b then rreturn () else rfail e)"

definition rsome :: "'a option \<Rightarrow> launch_error \<Rightarrow> 'a rg" where
  "rsome x e = (case x of None \<Rightarrow> rfail e | Some v \<Rightarrow> rreturn v)"

text \<open>\<open>attempt m\<close>: the result of \<open>m\<close> as a value, for a caller that inspects it.\<close>

definition attempt :: "'a rg \<Rightarrow> (launch_error + 'a) rg" where
  "attempt m s = (case m s of (r, s') \<Rightarrow> (Inr r, s'))"

definition next_call :: "nat rg" where
  "next_call s = (Inr (rg_calls s), s\<lparr>rg_calls := Suc (rg_calls s)\<rparr>)"

text \<open>A call that either fails or does nothing that the registry sees, such as locking.\<close>

definition plain_call :: "launch_env \<Rightarrow> launch_error \<Rightarrow> unit rg" where
  "plain_call le e = rbind next_call (\<lambda>k. rensure (\<not> le_fails le k) e)"

definition MAX_RECORD_BYTES :: nat where
  "MAX_RECORD_BYTES = 8 * 1024"

definition GATE_SCHEMA_VERSION :: u32 where
  "GATE_SCHEMA_VERSION = 1"

definition TOMBSTONE_RETENTION_SECS :: u64 where
  "TOMBSTONE_RETENTION_SECS = 24 * 60 * 60"

section \<open>Slot files\<close>

definition decode_slot :: "launch_codec \<Rightarrow> u16 \<Rightarrow> u8 list option \<Rightarrow> launch_slot option" where
  "decode_slot lc slot file =
     (case file of None \<Rightarrow> None
      | Some bytes \<Rightarrow>
          if length bytes \<le> MAX_RECORD_BYTES
          then (case lc_slot_from_slice lc bytes of None \<Rightarrow> None
                | Some r \<Rightarrow> if validate_slot_record r slot then Some r else None)
          else None)"

definition read_valid_slot :: "launch_codec \<Rightarrow> launch_env \<Rightarrow> u16 \<Rightarrow> launch_slot rg" where
  "read_valid_slot lc le slot =
     rbind (plain_call le SlotUnreadable) (\<lambda>_ s.
       rsome (decode_slot lc slot (rg_slots s slot)) SlotUnreadable s)"

text \<open>\<open>read_slot\<close> reports an unreadable slot as a value.\<close>

definition read_slot :: "launch_codec \<Rightarrow> launch_env \<Rightarrow> u16 \<Rightarrow> (launch_error + launch_slot) rg" where
  "read_slot lc le slot = attempt (read_valid_slot lc le slot)"

text \<open>\<open>atomic_replace_json\<close>: the record is written aside and renamed into place; the directory is synchronised
  afterwards.\<close>

definition json_line :: "u8 list option \<Rightarrow> launch_error + u8 list" where
  "json_line encoded =
     (case encoded of None \<Rightarrow> Inl NotSerializable
      | Some bytes \<Rightarrow> if Suc (length bytes) \<le> MAX_RECORD_BYTES then Inr (bytes @ [0x0a]) else Inl RecordTooLarge)"

definition atomic_replace_slot :: "launch_codec \<Rightarrow> launch_env \<Rightarrow> u16 \<Rightarrow> launch_slot \<Rightarrow> unit rg" where
  "atomic_replace_slot lc le slot r s =
     (case json_line (lc_slot_to_vec lc r) of
        Inl e \<Rightarrow> rfail e s
      | Inr bytes \<Rightarrow>
          rbind next_call (\<lambda>k s.
            if le_fails le k then rfail OsCallFailed s
            else rensure (\<not> le_fails_after le k) OsCallFailed (s\<lparr>rg_slots := (rg_slots s)(slot := Some bytes)\<rparr>)) s)"

definition registry_replace_slot :: "launch_codec \<Rightarrow> launch_env \<Rightarrow> launch_slot \<Rightarrow> launch_slot \<Rightarrow> unit rg" where
  "registry_replace_slot lc le expected next =
     rbind (rensure (validate_transition expected next) IllegalTransition) (\<lambda>_.
     rbind (read_valid_slot lc le (sl_slot expected)) (\<lambda>current.
     rbind (rensure (current = expected) SlotConflict) (\<lambda>_.
     rbind (atomic_replace_slot lc le (sl_slot expected) next) (\<lambda>_.
     rbind (read_valid_slot lc le (sl_slot expected)) (\<lambda>readback.
     rensure (readback = next) SlotConflict)))))"

section \<open>Registrations\<close>

definition atomic_replace_registration :: "launch_codec \<Rightarrow> launch_env \<Rightarrow> u16 \<Rightarrow> registration_record \<Rightarrow> unit rg" where
  "atomic_replace_registration lc le slot r s =
     (case json_line (lc_registration_to_vec lc r) of
        Inl e \<Rightarrow> rfail e s
      | Inr bytes \<Rightarrow>
          rbind next_call (\<lambda>k s.
            if le_fails le k then rfail OsCallFailed s
            else rensure (\<not> le_fails_after le k) OsCallFailed
              (s\<lparr>rg_registrations := (rg_registrations s)(slot := Some bytes)\<rparr>)) s)"

definition read_registration :: "launch_codec \<Rightarrow> launch_env \<Rightarrow> u16 \<Rightarrow> registration_record rg" where
  "read_registration lc le slot =
     rbind (plain_call le RegistrationInvalid) (\<lambda>_ s.
       (case rg_registrations s slot of None \<Rightarrow> rfail RegistrationInvalid s
        | Some bytes \<Rightarrow>
            rbind (rensure (length bytes \<le> MAX_RECORD_BYTES) RecordTooLarge) (\<lambda>_.
            rbind (rsome (lc_registration_from_slice lc bytes) RegistrationInvalid) (\<lambda>r.
            rbind (rensure (rr_schema_version r = GATE_SCHEMA_VERSION \<and> rr_slot r = slot) RegistrationInvalid) (\<lambda>_.
            rreturn r))) s))"

definition replace_registration :: "launch_codec \<Rightarrow> launch_env \<Rightarrow> u16 \<Rightarrow> registration_record \<Rightarrow> unit rg" where
  "replace_registration lc le slot next =
     rbind (rensure (rr_schema_version next = GATE_SCHEMA_VERSION \<and> rr_slot next = slot) RegistrationInvalid) (\<lambda>_.
     rbind (rensure (is_none_or (rr_registration next) (\<lambda>registration.
        gr_schema_version registration = GATE_SCHEMA_VERSION \<and> gr_slot registration = slot
        \<and> gr_generation registration = rr_generation next)) RegistrationInvalid) (\<lambda>_.
     rbind (atomic_replace_registration lc le slot next) (\<lambda>_.
     rbind (read_registration lc le slot) (\<lambda>readback.
     rensure (readback = next) RegistrationInvalid))))"

section \<open>Process evidence\<close>

text \<open>\<open>stat.rfind(')')\<close> and the rest after it.\<close>

fun after_last :: "uchar \<Rightarrow> ustring \<Rightarrow> ustring option" where
  "after_last d [] = None"
| "after_last d (c # cs) =
     (case after_last d cs of Some rest \<Rightarrow> Some rest | None \<Rightarrow> if c = d then Some cs else None)"

definition parse_proc_stat_start_ticks :: "ustring \<Rightarrow> u64 option" where
  "parse_proc_stat_start_ticks stat =
     (case after_last 0x29 stat of None \<Rightarrow> None
      | Some rest \<Rightarrow>
          (let fields = str_split_whitespace rest in
           if 19 < length fields then map_option of_nat (parse_unsigned (2 ^ 64) (fields ! 19)) else None))"

definition read_boot_uuid :: "launch_env \<Rightarrow> uuid evidence rg" where
  "read_boot_uuid le = rbind next_call (\<lambda>k. rreturn (le_boot_uuid le k))"

definition read_pid_namespace_inode :: "launch_env \<Rightarrow> u32 \<Rightarrow> u64 evidence rg" where
  "read_pid_namespace_inode le pid = rbind next_call (\<lambda>k. rreturn (le_pid_namespace_inode le k pid))"

definition read_start_ticks :: "launch_env \<Rightarrow> u32 \<Rightarrow> u64 evidence rg" where
  "read_start_ticks le pid = rbind next_call (\<lambda>k. rreturn
     (case le_stat le k pid of
        Present stat \<Rightarrow> (case parse_proc_stat_start_ticks stat of Some ticks \<Rightarrow> Present ticks | None \<Rightarrow> Unavailable)
      | Absent \<Rightarrow> Absent
      | Unavailable \<Rightarrow> Unavailable))"

definition observe_identity :: "launch_env \<Rightarrow> u32 \<Rightarrow> process_identity evidence rg" where
  "observe_identity le pid =
     rbind (read_boot_uuid le) (\<lambda>boot.
       case boot of Absent \<Rightarrow> rreturn Unavailable | Unavailable \<Rightarrow> rreturn Unavailable
       | Present boot_uuid \<Rightarrow>
           rbind (read_pid_namespace_inode le pid) (\<lambda>inode.
             case inode of Absent \<Rightarrow> rreturn Absent | Unavailable \<Rightarrow> rreturn Unavailable
             | Present pid_namespace_inode \<Rightarrow>
                 rbind (read_start_ticks le pid) (\<lambda>ticks.
                   case ticks of Absent \<Rightarrow> rreturn Absent | Unavailable \<Rightarrow> rreturn Unavailable
                   | Present start_ticks \<Rightarrow>
                       rreturn (Present \<lparr>pi_boot_uuid = boot_uuid, pi_pid_namespace_inode = pid_namespace_inode,
                         pi_pid = pid, pi_start_ticks = start_ticks\<rparr>))))"

text \<open>A process descriptor is the process id that it was opened for.\<close>

definition pidfd_open :: "launch_env \<Rightarrow> u32 \<Rightarrow> pidfd evidence rg" where
  "pidfd_open le pid = rbind next_call (\<lambda>k. rreturn
     (case le_pidfd_open le k pid of Present _ \<Rightarrow> Present \<lparr>fd_pid = pid, fd_opened_at = k\<rparr> | Absent \<Rightarrow> Absent | Unavailable \<Rightarrow> Unavailable))"

definition open_verified_pidfd :: "launch_env \<Rightarrow> process_identity \<Rightarrow> pidfd evidence rg" where
  "open_verified_pidfd le expected =
     rbind (pidfd_open le (pi_pid expected)) (\<lambda>opened.
       case opened of Absent \<Rightarrow> rreturn Absent | Unavailable \<Rightarrow> rreturn Unavailable
       | Present pidfd \<Rightarrow>
           rbind (observe_identity le (pi_pid expected)) (\<lambda>observed. rreturn
             (case observed of
                Present actual \<Rightarrow> if actual = expected then Present pidfd else Absent
              | Absent \<Rightarrow> Absent
              | Unavailable \<Rightarrow> Unavailable)))"

definition verify_exact_process :: "launch_env \<Rightarrow> process_identity \<Rightarrow> process_identity evidence rg" where
  "verify_exact_process le expected =
     rbind (read_boot_uuid le) (\<lambda>boot.
       case boot of Absent \<Rightarrow> rreturn Unavailable | Unavailable \<Rightarrow> rreturn Unavailable
       | Present boot_uuid \<Rightarrow>
           if boot_uuid \<noteq> pi_boot_uuid expected then rreturn Absent
           else rbind (open_verified_pidfd le expected) (\<lambda>opened. rreturn
             (case opened of Present _ \<Rightarrow> Present expected | Absent \<Rightarrow> Absent | Unavailable \<Rightarrow> Unavailable)))"

text \<open>The signal is recorded with the number of the call that sends it; it may be sent even if the call reports a
  failure.\<close>

definition send_signal :: "launch_env \<Rightarrow> pidfd \<Rightarrow> unit rg" where
  "send_signal le pidfd s = plain_call le OsCallFailed (s\<lparr>rg_signalled := rg_signalled s @ [(pidfd, rg_calls s)]\<rparr>)"

section \<open>Allocation\<close>

record allocation_scan =
  as_selected :: "launch_slot option"
  as_unknown :: nat
  as_unreadable :: nat

definition get_or_insert :: "launch_slot \<Rightarrow> allocation_scan \<Rightarrow> allocation_scan" where
  "get_or_insert r acc = (case as_selected acc of None \<Rightarrow> acc\<lparr>as_selected := Some r\<rparr> | Some _ \<Rightarrow> acc)"

definition expired :: "u64 \<Rightarrow> u64 \<Rightarrow> bool" where
  "expired now resolved \<longleftrightarrow> resolved \<le> now \<and> TOMBSTONE_RETENTION_SECS \<le> now - resolved"

definition vacated :: "launch_slot \<Rightarrow> launch_slot" where
  "vacated r = r\<lparr>sl_owner := None, sl_state := SlotVacant\<rparr>"

definition scan_slot ::
    "launch_codec \<Rightarrow> launch_env \<Rightarrow> u64 \<Rightarrow> managed_owner_tag option \<Rightarrow> u16 \<Rightarrow> allocation_scan \<Rightarrow> allocation_scan rg" where
  "scan_slot lc le now owner slot acc =
     rbind (read_slot lc le slot) (\<lambda>read.
       case read of
         Inl _ \<Rightarrow> rreturn (acc\<lparr>as_unknown := as_unknown acc + 1, as_unreadable := as_unreadable acc + 1\<rparr>)
       | Inr r \<Rightarrow>
           rbind (rensure (owner = None \<or> sl_owner r \<noteq> owner) OwnerTaken) (\<lambda>_.
             case sl_state r of
               SlotVacant \<Rightarrow> rreturn (get_or_insert r acc)
             | ResolvedTombstone _ _ resolved \<Rightarrow>
                 if expired now resolved \<and> sl_artifact_binding r = None
                 then rbind (registry_replace_slot lc le r (vacated r)) (\<lambda>_. rreturn (get_or_insert (vacated r) acc))
                 else rreturn (acc\<lparr>as_unknown := as_unknown acc + 1\<rparr>)
             | _ \<Rightarrow> rreturn (acc\<lparr>as_unknown := as_unknown acc + 1\<rparr>)))"

fun scan_slots ::
    "launch_codec \<Rightarrow> launch_env \<Rightarrow> u64 \<Rightarrow> managed_owner_tag option \<Rightarrow> u16 list \<Rightarrow> allocation_scan \<Rightarrow> allocation_scan rg" where
  "scan_slots lc le now owner [] acc = rreturn acc"
| "scan_slots lc le now owner (slot # slots) acc =
     rbind (scan_slot lc le now owner slot acc) (scan_slots lc le now owner slots)"

definition slot_numbers :: "registry \<Rightarrow> u16 list" where
  "slot_numbers s = map of_nat [0..<rg_slot_count s]"

definition claim_vacant ::
    "launch_codec \<Rightarrow> launch_env \<Rightarrow> u64 \<Rightarrow> managed_owner_tag option \<Rightarrow> launch_slot \<Rightarrow> u64 \<Rightarrow> launch_slot rg" where
  "claim_vacant lc le now owner vacant generation =
     rbind next_call (\<lambda>k.
     rbind (replace_registration lc le (sl_slot vacant)
              \<lparr>rr_schema_version = GATE_SCHEMA_VERSION, rr_slot = sl_slot vacant, rr_generation = generation,
               rr_registration = None\<rparr>) (\<lambda>_.
     (let intent = \<lparr>sl_schema_version = SLOT_SCHEMA_VERSION, sl_slot = sl_slot vacant, sl_generation = generation,
            sl_owner = owner, sl_artifact_binding = None, sl_state = IntentDurable (le_new_uuid le k) now\<rparr> in
      rbind (registry_replace_slot lc le vacant intent) (\<lambda>_.
      rbind (plain_call le GuardBusy) (\<lambda>_.
      rreturn intent)))))"

definition allocate_intent ::
    "launch_codec \<Rightarrow> launch_env \<Rightarrow> u64 \<Rightarrow> managed_owner_tag option \<Rightarrow> launch_slot rg" where
  "allocate_intent lc le now owner =
     rbind (rensure (is_none_or owner owner_tag_validate) InvalidArgument) (\<lambda>_.
     rbind (plain_call le RegistryBusy) (\<lambda>_.
     rbind (\<lambda>s. scan_slots lc le now owner (slot_numbers s)
              \<lparr>as_selected = None, as_unknown = 0, as_unreadable = 0\<rparr> s) (\<lambda>scan.
     rbind (rensure (owner = None \<or> as_unreadable scan = 0) OwnerUncertain) (\<lambda>_.
     rbind (rsome (as_selected scan) (CapacityExhausted (as_unknown scan))) (\<lambda>vacant.
     rbind (rsome (checked_add (sl_generation vacant) 1) GenerationExhausted) (\<lambda>generation.
     claim_vacant lc le now owner vacant generation))))))"

section \<open>Creation of artifacts\<close>

text \<open>A reservation holds the record of its intent until it is used up; every step stores the next binding and
  then the record.\<close>

type_synonym reservation = "launch_slot option"

definition reserve_update ::
    "launch_codec \<Rightarrow> launch_env \<Rightarrow> launch_slot \<Rightarrow> artifact_binding \<Rightarrow> (artifact_binding \<times> reservation) rg" where
  "reserve_update lc le intent binding =
     (let next = intent\<lparr>sl_artifact_binding := Some binding\<rparr> in
      rbind (registry_replace_slot lc le intent next) (\<lambda>_. rreturn (binding, Some next)))"

definition fresh_binding :: "uuid \<Rightarrow> managed_directory_identity \<Rightarrow> ustring \<Rightarrow> artifact_binding" where
  "fresh_binding nonce control_root private_leaf =
     \<lparr>ab_nonce = nonce, ab_control_root = control_root, ab_private_leaf = private_leaf,
      ab_private_directory = None, ab_runner = None, ab_socket = None, ab_owner = None,
      ab_runner_create_pending = False, ab_socket_create_pending = False, ab_owner_create_pending = False,
      ab_cleanup_quarantine = None, ab_cleanup_unlink_pending = None, ab_socket_retire_pending = False,
      ab_socket_retired = False, ab_cleanup_ownership_removed = False, ab_cleanup_socket_removed = False,
      ab_cleanup_runner_removed = False, ab_cleanup_completed = False\<rparr>"

definition begin_artifact_creation ::
    "launch_codec \<Rightarrow> launch_env \<Rightarrow> managed_directory_identity \<Rightarrow> ustring \<Rightarrow> reservation
       \<Rightarrow> (artifact_binding \<times> reservation) rg" where
  "begin_artifact_creation lc le control_root private_leaf res =
     rbind (rensure (directory_identity_validate control_root) InvalidArgument) (\<lambda>_.
     rbind (rsome res InvalidArgument) (\<lambda>intent.
     rbind (rensure (sl_artifact_binding intent = None) BindingMismatch) (\<lambda>_.
     (case sl_state intent of
        IntentDurable nonce _ \<Rightarrow>
          (let binding = fresh_binding nonce control_root private_leaf in
           rbind (rensure (binding_validate binding) InvalidArgument) (\<lambda>_.
           reserve_update lc le intent binding))
      | _ \<Rightarrow> rfail WrongState))))"

text \<open>The steps between share their frame: a phase that they require, and the binding that they store.\<close>

definition creation_step ::
    "launch_codec \<Rightarrow> launch_env \<Rightarrow> artifact_creation_phase \<Rightarrow> (artifact_binding \<Rightarrow> artifact_binding) \<Rightarrow> bool \<Rightarrow> reservation
       \<Rightarrow> (artifact_binding \<times> reservation) rg" where
  "creation_step lc le phase change validated res =
     rbind (rsome res InvalidArgument) (\<lambda>intent.
     rbind (rsome (sl_artifact_binding intent) BindingAbsent) (\<lambda>created.
     rbind (rensure (creation_phase created = Some phase) OutOfOrder) (\<lambda>_.
     rbind (rensure (\<not> validated \<or> binding_validate (change created)) InvalidArgument) (\<lambda>_.
     reserve_update lc le intent (change created)))))"

definition finish_artifact_creation ::
    "launch_codec \<Rightarrow> launch_env \<Rightarrow> managed_directory_identity \<Rightarrow> reservation \<Rightarrow> (artifact_binding \<times> reservation) rg" where
  "finish_artifact_creation lc le private_directory res =
     rbind (rensure (directory_identity_validate private_directory) InvalidArgument) (\<lambda>_.
     creation_step lc le PhaseReserved (\<lambda>b. b\<lparr>ab_private_directory := Some private_directory\<rparr>) False res)"

definition begin_artifact_runner_creation ::
    "launch_codec \<Rightarrow> launch_env \<Rightarrow> reservation \<Rightarrow> (artifact_binding \<times> reservation) rg" where
  "begin_artifact_runner_creation lc le =
     creation_step lc le PhaseDirectoryCreated (\<lambda>b. b\<lparr>ab_runner_create_pending := True\<rparr>) True"

definition finish_artifact_runner ::
    "launch_codec \<Rightarrow> launch_env \<Rightarrow> managed_artifact_identity \<Rightarrow> reservation \<Rightarrow> (artifact_binding \<times> reservation) rg" where
  "finish_artifact_runner lc le runner res =
     rbind (rensure (artifact_identity_validate runner) InvalidArgument) (\<lambda>_.
     creation_step lc le PhaseRunnerCreatePending
       (\<lambda>b. b\<lparr>ab_runner := Some runner, ab_runner_create_pending := False\<rparr>) False res)"

definition begin_artifact_socket_creation ::
    "launch_codec \<Rightarrow> launch_env \<Rightarrow> reservation \<Rightarrow> (artifact_binding \<times> reservation) rg" where
  "begin_artifact_socket_creation lc le =
     creation_step lc le PhaseRunnerCreated (\<lambda>b. b\<lparr>ab_socket_create_pending := True\<rparr>) True"

definition finish_artifact_socket ::
    "launch_codec \<Rightarrow> launch_env \<Rightarrow> managed_artifact_identity \<Rightarrow> reservation \<Rightarrow> (artifact_binding \<times> reservation) rg" where
  "finish_artifact_socket lc le socket res =
     rbind (rensure (artifact_identity_validate socket) InvalidArgument) (\<lambda>_.
     creation_step lc le PhaseSocketCreatePending
       (\<lambda>b. b\<lparr>ab_socket := Some socket, ab_socket_create_pending := False\<rparr>) False res)"

definition begin_artifact_owner_creation ::
    "launch_codec \<Rightarrow> launch_env \<Rightarrow> reservation \<Rightarrow> (artifact_binding \<times> reservation) rg" where
  "begin_artifact_owner_creation lc le =
     creation_step lc le PhaseSocketCreated (\<lambda>b. b\<lparr>ab_owner_create_pending := True\<rparr>) True"

definition finish_artifact_owner ::
    "launch_codec \<Rightarrow> launch_env \<Rightarrow> managed_artifact_identity \<Rightarrow> reservation \<Rightarrow> (artifact_binding \<times> reservation) rg" where
  "finish_artifact_owner lc le owner res =
     rbind (rensure (artifact_identity_validate owner) InvalidArgument) (\<lambda>_.
     creation_step lc le PhaseOwnerCreatePending
       (\<lambda>b. b\<lparr>ab_owner := Some owner, ab_owner_create_pending := False\<rparr>) True res)"

section \<open>Cleanup of artifacts\<close>

record managed_key =
  mk_slot :: u16
  mk_generation :: u64

definition locked_slot :: "launch_codec \<Rightarrow> launch_env \<Rightarrow> managed_key \<Rightarrow> launch_slot rg" where
  "locked_slot lc le key =
     rbind (plain_call le RegistryBusy) (\<lambda>_.
     rbind (read_valid_slot lc le (mk_slot key)) (\<lambda>current.
     rbind (rensure (sl_generation current = mk_generation key) GenerationConflict) (\<lambda>_.
     rreturn current)))"

definition store_binding ::
    "launch_codec \<Rightarrow> launch_env \<Rightarrow> launch_slot \<Rightarrow> artifact_binding \<Rightarrow> artifact_binding rg" where
  "store_binding lc le current binding =
     rbind (registry_replace_slot lc le current (current\<lparr>sl_artifact_binding := Some binding\<rparr>)) (\<lambda>_. rreturn binding)"

definition acknowledge_artifact_cleanup ::
    "launch_codec \<Rightarrow> launch_env \<Rightarrow> managed_key \<Rightarrow> artifact_binding \<Rightarrow> unit rg" where
  "acknowledge_artifact_cleanup lc le key binding =
     rbind (locked_slot lc le key) (\<lambda>current.
     if sl_artifact_binding current = None \<and> is_tombstone (sl_state current) then rreturn ()
     else
       rbind (rsome (sl_artifact_binding current) BindingAbsent) (\<lambda>authoritative.
       rbind (rensure (same_artifact authoritative binding) BindingMismatch) (\<lambda>_.
       rbind (rensure (\<not> creation_pending authoritative) OutOfOrder) (\<lambda>_.
       rbind (rensure (is_tombstone (sl_state current) \<and> is_some (ab_cleanup_quarantine authoritative)
                \<and> ab_cleanup_completed authoritative) WrongState) (\<lambda>_.
       registry_replace_slot lc le current (current\<lparr>sl_artifact_binding := None\<rparr>))))))"

definition quarantine_leaf :: "launch_codec \<Rightarrow> artifact_binding \<Rightarrow> ustring" where
  "quarantine_leaf lc b = 0x2e # ab_private_leaf b @ map of_char ''.cleanup-'' @ lc_uuid_simple lc (ab_nonce b)"

definition begin_artifact_cleanup ::
    "launch_codec \<Rightarrow> launch_env \<Rightarrow> managed_key \<Rightarrow> artifact_binding \<Rightarrow> artifact_binding rg" where
  "begin_artifact_cleanup lc le key binding =
     rbind (locked_slot lc le key) (\<lambda>current.
     rbind (rensure (is_tombstone (sl_state current)) WrongState) (\<lambda>_.
     rbind (rsome (sl_artifact_binding current) BindingAbsent) (\<lambda>authoritative.
     rbind (rensure (\<not> ab_socket_retire_pending authoritative) OutOfOrder) (\<lambda>_.
     rbind (rensure (\<not> creation_pending authoritative) OutOfOrder) (\<lambda>_.
     rbind (rensure (same_artifact authoritative binding) BindingMismatch) (\<lambda>_.
     if is_some (ab_cleanup_quarantine authoritative) then rreturn authoritative
     else
       (let quarantine = quarantine_leaf lc authoritative in
        rbind (rensure (validate_managed_artifact_leaf quarantine) InvalidArgument) (\<lambda>_.
        store_binding lc le current
          (authoritative\<lparr>ab_cleanup_quarantine := Some quarantine, ab_cleanup_completed := False\<rparr>)))))))))"

definition begin_artifact_socket_retirement ::
    "launch_codec \<Rightarrow> launch_env \<Rightarrow> managed_key \<Rightarrow> artifact_binding \<Rightarrow> artifact_binding rg" where
  "begin_artifact_socket_retirement lc le key binding =
     rbind (locked_slot lc le key) (\<lambda>current.
     rbind (rensure (case sl_state current of IdentityDurable _ _ _ \<Rightarrow> True | _ \<Rightarrow> False) WrongState) (\<lambda>_.
     rbind (rsome (sl_artifact_binding current) BindingAbsent) (\<lambda>authoritative.
     rbind (rensure (\<not> creation_pending authoritative \<and> is_some (ab_owner authoritative)) OutOfOrder) (\<lambda>_.
     rbind (rensure (same_artifact authoritative binding \<and> ab_cleanup_quarantine authoritative = None
              \<and> is_some (ab_socket authoritative)) BindingMismatch) (\<lambda>_.
     if ab_socket_retired authoritative \<or> ab_socket_retire_pending authoritative then rreturn authoritative
     else store_binding lc le current (authoritative\<lparr>ab_socket_retire_pending := True\<rparr>))))))"

definition finish_artifact_socket_retirement ::
    "launch_codec \<Rightarrow> launch_env \<Rightarrow> managed_key \<Rightarrow> artifact_binding \<Rightarrow> artifact_binding rg" where
  "finish_artifact_socket_retirement lc le key binding =
     rbind (locked_slot lc le key) (\<lambda>current.
     rbind (rsome (sl_artifact_binding current) BindingAbsent) (\<lambda>authoritative.
     rbind (rensure (same_artifact authoritative binding \<and> ab_cleanup_quarantine authoritative = None)
              BindingMismatch) (\<lambda>_.
     if ab_socket_retired authoritative then rreturn authoritative
     else
       rbind (rensure (ab_socket_retire_pending authoritative) OutOfOrder) (\<lambda>_.
       store_binding lc le current
         (authoritative\<lparr>ab_socket_retire_pending := False, ab_socket_retired := True\<rparr>)))))"

text \<open>What the remaining operations require of the slot.\<close>

definition tombstone_binding ::
    "launch_codec \<Rightarrow> launch_env \<Rightarrow> managed_key \<Rightarrow> artifact_binding \<Rightarrow> (launch_slot \<times> artifact_binding) rg" where
  "tombstone_binding lc le key binding =
     rbind (locked_slot lc le key) (\<lambda>current.
     rbind (rensure (is_tombstone (sl_state current)) WrongState) (\<lambda>_.
     rbind (rsome (sl_artifact_binding current) BindingAbsent) (\<lambda>authoritative.
     rbind (rensure (same_artifact authoritative binding) BindingMismatch) (\<lambda>_.
     rreturn (current, authoritative)))))"

definition finish_artifact_cleanup ::
    "launch_codec \<Rightarrow> launch_env \<Rightarrow> managed_key \<Rightarrow> artifact_binding \<Rightarrow> artifact_binding rg" where
  "finish_artifact_cleanup lc le key binding =
     rbind (tombstone_binding lc le key binding) (\<lambda>(current, authoritative).
     if ab_cleanup_completed authoritative then rreturn authoritative
     else
       rbind (rensure (is_some (ab_cleanup_quarantine authoritative) \<and> ab_cleanup_ownership_removed authoritative
                \<and> ab_cleanup_socket_removed authoritative \<and> ab_cleanup_runner_removed authoritative
                \<and> ab_cleanup_unlink_pending authoritative = Some StepDirectory) OutOfOrder) (\<lambda>_.
       store_binding lc le current
         (authoritative\<lparr>ab_cleanup_unlink_pending := None, ab_cleanup_completed := True\<rparr>)))"

definition begin_artifact_unlink ::
    "launch_codec \<Rightarrow> launch_env \<Rightarrow> managed_key \<Rightarrow> artifact_binding \<Rightarrow> cleanup_step \<Rightarrow> artifact_binding rg" where
  "begin_artifact_unlink lc le key binding step =
     rbind (tombstone_binding lc le key binding) (\<lambda>(current, authoritative).
     rbind (rensure (is_some (ab_cleanup_quarantine authoritative) \<and> \<not> ab_cleanup_completed authoritative)
              WrongState) (\<lambda>_.
     if cleanup_step_completed step authoritative then rreturn authoritative
     else
       (case ab_cleanup_unlink_pending authoritative of
          Some pending \<Rightarrow> rbind (rensure (pending = step) OutOfOrder) (\<lambda>_. rreturn authoritative)
        | None \<Rightarrow>
            (let pending = authoritative\<lparr>ab_cleanup_unlink_pending := Some step\<rparr> in
             rbind (rensure (binding_validate pending) OutOfOrder) (\<lambda>_.
             store_binding lc le current pending)))))"

fun record_removal :: "cleanup_step \<Rightarrow> artifact_binding \<Rightarrow> artifact_binding option" where
  "record_removal StepOwnership b =
     (if \<not> ab_cleanup_socket_removed b \<and> \<not> ab_cleanup_runner_removed b
      then Some (b\<lparr>ab_cleanup_ownership_removed := True\<rparr>) else None)"
| "record_removal StepSocket b =
     (if ab_cleanup_ownership_removed b \<and> \<not> ab_cleanup_runner_removed b
      then Some (b\<lparr>ab_cleanup_socket_removed := True\<rparr>) else None)"
| "record_removal StepRunner b =
     (if ab_cleanup_ownership_removed b \<and> ab_cleanup_socket_removed b
      then Some (b\<lparr>ab_cleanup_runner_removed := True\<rparr>) else None)"
| "record_removal StepDirectory b = None"

definition finish_artifact_unlink ::
    "launch_codec \<Rightarrow> launch_env \<Rightarrow> managed_key \<Rightarrow> artifact_binding \<Rightarrow> cleanup_step \<Rightarrow> artifact_binding rg" where
  "finish_artifact_unlink lc le key binding step =
     rbind (tombstone_binding lc le key binding) (\<lambda>(current, authoritative).
     rbind (rensure (is_some (ab_cleanup_quarantine authoritative) \<and> \<not> ab_cleanup_completed authoritative)
              WrongState) (\<lambda>_.
     if cleanup_step_completed step authoritative then rreturn authoritative
     else
       rbind (rensure (ab_cleanup_unlink_pending authoritative = Some step) OutOfOrder) (\<lambda>_.
       rbind (rsome (record_removal step (authoritative\<lparr>ab_cleanup_unlink_pending := None\<rparr>)) OutOfOrder) (\<lambda>advanced.
       store_binding lc le current advanced))))"

definition completed_removal :: "artifact_binding \<Rightarrow> artifact_binding" where
  "completed_removal b = b\<lparr>ab_cleanup_ownership_removed := True, ab_cleanup_socket_removed := True,
     ab_cleanup_runner_removed := True, ab_cleanup_completed := True\<rparr>"

definition finish_artifact_logical_absence ::
    "launch_codec \<Rightarrow> launch_env \<Rightarrow> managed_key \<Rightarrow> artifact_binding \<Rightarrow> artifact_binding rg" where
  "finish_artifact_logical_absence lc le key binding =
     rbind (tombstone_binding lc le key binding) (\<lambda>(current, authoritative).
     rbind (rensure (\<not> creation_pending authoritative) OutOfOrder) (\<lambda>_.
     rbind (read_boot_uuid le) (\<lambda>boot.
     (case boot of
        Present current_boot \<Rightarrow>
          rbind (rensure (md_boot_uuid (ab_control_root authoritative) \<noteq> current_boot) WrongState) (\<lambda>_.
          if ab_cleanup_completed authoritative then rreturn authoritative
          else
            (let quarantine = (case ab_cleanup_quarantine authoritative of Some q \<Rightarrow> q
                               | None \<Rightarrow> quarantine_leaf lc authoritative) in
             rbind (rensure (validate_managed_artifact_leaf quarantine) InvalidArgument) (\<lambda>_.
             store_binding lc le current
               (completed_removal (authoritative\<lparr>ab_cleanup_quarantine := Some quarantine,
                  ab_cleanup_unlink_pending := None, ab_socket_retire_pending := False,
                  ab_socket_retired := (ab_socket_retired authoritative \<or> is_some (ab_socket authoritative))\<rparr>)))))
      | _ \<Rightarrow> rfail BootUnavailable))))"

definition finish_artifact_create_pending_absence ::
    "launch_codec \<Rightarrow> launch_env \<Rightarrow> managed_key \<Rightarrow> artifact_binding \<Rightarrow> artifact_binding rg" where
  "finish_artifact_create_pending_absence lc le key binding =
     rbind (tombstone_binding lc le key binding) (\<lambda>(current, authoritative).
     rbind (rensure (ab_private_directory authoritative = None \<and> ab_runner authoritative = None
              \<and> ab_socket authoritative = None \<and> is_some (ab_cleanup_quarantine authoritative)
              \<and> ab_cleanup_unlink_pending authoritative = None \<and> \<not> ab_socket_retire_pending authoritative
              \<and> \<not> ab_socket_retired authoritative) BindingMismatch) (\<lambda>_.
     rbind (read_boot_uuid le) (\<lambda>boot.
     (case boot of
        Present current_boot \<Rightarrow>
          rbind (rensure (md_boot_uuid (ab_control_root authoritative) = current_boot) WrongState) (\<lambda>_.
          if ab_cleanup_completed authoritative then rreturn authoritative
          else store_binding lc le current (completed_removal authoritative))
      | _ \<Rightarrow> rfail BootUnavailable))))"

definition read_artifact_binding ::
    "launch_codec \<Rightarrow> launch_env \<Rightarrow> managed_key \<Rightarrow> managed_owner_tag \<Rightarrow> artifact_binding option rg" where
  "read_artifact_binding lc le key expected_owner =
     rbind (rensure (owner_tag_validate expected_owner) InvalidArgument) (\<lambda>_.
     rbind (read_valid_slot lc le (mk_slot key)) (\<lambda>current.
     rbind (rensure (sl_generation current = mk_generation key) GenerationConflict) (\<lambda>_.
     rbind (rensure (is_tombstone (sl_state current)) WrongState) (\<lambda>_.
     rbind (rensure (sl_owner current = Some expected_owner) BindingMismatch) (\<lambda>_.
     rreturn (sl_artifact_binding current))))))"

section \<open>Processes\<close>

definition record_identity ::
    "launch_codec \<Rightarrow> launch_env \<Rightarrow> launch_slot \<Rightarrow> gate_registration \<Rightarrow> launch_slot rg" where
  "record_identity lc le intent registration =
     (case sl_state intent of
        IntentDurable nonce _ \<Rightarrow>
          rbind (rensure (gr_slot registration = sl_slot intent) RegistrationInvalid) (\<lambda>_.
          rbind (rensure (gr_generation registration = sl_generation intent) RegistrationInvalid) (\<lambda>_.
          rbind (rensure (gr_nonce registration = nonce) RegistrationInvalid) (\<lambda>_.
          rbind (read_registration lc le (sl_slot intent)) (\<lambda>durable.
          rbind (rensure (rr_registration durable = Some registration) RegistrationInvalid) (\<lambda>_.
          (let identity = \<lparr>sl_schema_version = SLOT_SCHEMA_VERSION, sl_slot = sl_slot intent,
                 sl_generation = sl_generation intent, sl_owner = sl_owner intent,
                 sl_artifact_binding = sl_artifact_binding intent,
                 sl_state = IdentityDurable nonce (gr_identity registration) True\<rparr> in
           rbind (registry_replace_slot lc le intent identity) (\<lambda>_. rreturn identity)))))))
      | _ \<Rightarrow> rfail WrongState)"

text \<open>The registration that a gate leaves before it announces itself; the checks on its own slot come first.\<close>

definition gate_register ::
    "launch_codec \<Rightarrow> launch_env \<Rightarrow> u16 \<Rightarrow> u64 \<Rightarrow> uuid \<Rightarrow> u32 \<Rightarrow> gate_registration rg" where
  "gate_register lc le slot generation nonce own_pid =
     rbind (read_valid_slot lc le slot) (\<lambda>intent.
     rbind (rensure (sl_generation intent = generation) GenerationConflict) (\<lambda>_.
     rbind (rensure (is_intent (sl_state intent) \<and> ls_nonce (sl_state intent) = nonce) WrongState) (\<lambda>_.
     rbind (observe_identity le own_pid) (\<lambda>observed.
     (case observed of
        Present identity \<Rightarrow>
          (let registration = \<lparr>gr_schema_version = GATE_SCHEMA_VERSION, gr_slot = slot, gr_generation = generation,
                 gr_nonce = nonce, gr_identity = identity\<rparr> in
           rbind (replace_registration lc le slot \<lparr>rr_schema_version = GATE_SCHEMA_VERSION, rr_slot = slot,
                    rr_generation = generation, rr_registration = Some registration\<rparr>) (\<lambda>_.
           rreturn registration))
      | _ \<Rightarrow> rfail WrongState)))))"

text \<open>The last check of the gate before it runs its target.\<close>

definition gate_may_exec ::
    "launch_codec \<Rightarrow> launch_env \<Rightarrow> u16 \<Rightarrow> uuid \<Rightarrow> process_identity \<Rightarrow> unit rg" where
  "gate_may_exec lc le slot nonce identity =
     rbind (read_valid_slot lc le slot) (\<lambda>durable.
     rensure (case sl_state durable of
        IdentityDurable n i released \<Rightarrow> released \<and> n = nonce \<and> i = identity
      | _ \<Rightarrow> False) WrongState)"

datatype reconcile_code =
    InvalidIntentState | BusyGuardIdentityAbsent | RegistrationUnavailable | ProcessStillLive
  | ProcessEvidenceUnavailable | ReconciliationFailed | UnknownSlot | DuplicateOwner

datatype reconcile_outcome =
    OutcomeAbsent | OutcomeLive | OutcomeUnknownOrphanRisk reconcile_code | OutcomeResolvedTombstone

definition registration_matches :: "registration_record \<Rightarrow> launch_slot \<Rightarrow> uuid \<Rightarrow> bool" where
  "registration_matches sidecar r nonce \<longleftrightarrow>
     rr_generation sidecar = sl_generation r
     \<and> is_some_and (rr_registration sidecar) (\<lambda>registration.
          gr_nonce registration = nonce \<and> gr_slot registration = sl_slot r
          \<and> gr_generation registration = sl_generation r)"

definition reconcile_intent :: "launch_codec \<Rightarrow> launch_env \<Rightarrow> launch_slot \<Rightarrow> reconcile_outcome rg" where
  "reconcile_intent lc le r =
     (case sl_state r of
        IntentDurable nonce _ \<Rightarrow>
          rbind (attempt (plain_call le GuardBusy)) (\<lambda>guard.
          case guard of
            Inr _ \<Rightarrow> rreturn OutcomeAbsent
          | Inl _ \<Rightarrow>
              rbind (attempt (read_registration lc le (sl_slot r))) (\<lambda>read.
              case read of
                Inr sidecar \<Rightarrow>
                  if registration_matches sidecar r nonce
                  then
                    rbind (verify_exact_process le (gr_identity (the (rr_registration sidecar)))) (\<lambda>verified.
                    rreturn (case verified of
                      Present _ \<Rightarrow> OutcomeLive
                    | Absent \<Rightarrow> OutcomeUnknownOrphanRisk BusyGuardIdentityAbsent
                    | Unavailable \<Rightarrow> OutcomeUnknownOrphanRisk ProcessEvidenceUnavailable))
                  else rreturn (OutcomeUnknownOrphanRisk RegistrationUnavailable)
              | Inl _ \<Rightarrow> rreturn (OutcomeUnknownOrphanRisk RegistrationUnavailable)))
      | _ \<Rightarrow> rreturn (OutcomeUnknownOrphanRisk InvalidIntentState))"

definition persist_tombstone ::
    "launch_codec \<Rightarrow> launch_env \<Rightarrow> launch_slot \<Rightarrow> uuid \<Rightarrow> process_identity option \<Rightarrow> reconcile_outcome rg" where
  "persist_tombstone lc le current nonce identity =
     rbind next_call (\<lambda>k.
     rbind (rensure (\<not> le_fails le k) OsCallFailed) (\<lambda>_.
     rbind (registry_replace_slot lc le current
              (current\<lparr>sl_state := ResolvedTombstone nonce identity (le_now le k)\<rparr>)) (\<lambda>_.
     rreturn OutcomeResolvedTombstone)))"

text \<open>The end of \<open>cleanup\<close>, once the slot says that the process is to be cleaned up.\<close>

definition terminate_identity ::
    "launch_codec \<Rightarrow> launch_env \<Rightarrow> launch_slot \<Rightarrow> uuid \<Rightarrow> process_identity \<Rightarrow> reconcile_outcome rg" where
  "terminate_identity lc le pending nonce identity =
     rbind (open_verified_pidfd le identity) (\<lambda>opened.
     case opened of
       Present pidfd \<Rightarrow>
         rbind (send_signal le pidfd) (\<lambda>_.
         rbind (plain_call le OsCallFailed) (\<lambda>_.
         rbind (verify_exact_process le identity) (\<lambda>verified.
         case verified of
           Absent \<Rightarrow> persist_tombstone lc le pending nonce (Some identity)
         | Present _ \<Rightarrow> rreturn (OutcomeUnknownOrphanRisk ProcessStillLive)
         | Unavailable \<Rightarrow> rreturn (OutcomeUnknownOrphanRisk ProcessEvidenceUnavailable))))
     | Absent \<Rightarrow> persist_tombstone lc le pending nonce (Some identity)
     | Unavailable \<Rightarrow> rreturn (OutcomeUnknownOrphanRisk ProcessEvidenceUnavailable))"

definition cleanup_process ::
    "launch_codec \<Rightarrow> launch_env \<Rightarrow> launch_slot \<Rightarrow> uuid \<Rightarrow> process_identity \<Rightarrow> bool \<Rightarrow> reconcile_outcome rg" where
  "cleanup_process lc le current nonce identity released =
     (let pending = current\<lparr>sl_state := CleanupPending nonce identity released\<rparr> in
      rbind (if current \<noteq> pending then registry_replace_slot lc le current pending else rreturn ()) (\<lambda>_.
      terminate_identity lc le pending nonce identity))"

definition cleanup :: "launch_codec \<Rightarrow> launch_env \<Rightarrow> u16 \<Rightarrow> u64 \<Rightarrow> reconcile_outcome rg" where
  "cleanup lc le slot generation =
     rbind (locked_slot lc le \<lparr>mk_slot = slot, mk_generation = generation\<rparr>) (\<lambda>current.
     case sl_state current of
       IdentityDurable nonce identity released \<Rightarrow> cleanup_process lc le current nonce identity released
     | CleanupPending nonce identity released \<Rightarrow> cleanup_process lc le current nonce identity released
     | ResolvedTombstone _ _ _ \<Rightarrow> rreturn OutcomeResolvedTombstone
     | IntentDurable nonce _ \<Rightarrow>
         rbind (reconcile_intent lc le current) (\<lambda>outcome.
         if outcome = OutcomeAbsent then persist_tombstone lc le current nonce None else rreturn outcome)
     | SlotVacant \<Rightarrow> rreturn OutcomeAbsent)"

text \<open>A reservation that is dropped unused is cleaned up; its errors are ignored.\<close>

definition drop_reservation :: "launch_codec \<Rightarrow> launch_env \<Rightarrow> reservation \<Rightarrow> unit rg" where
  "drop_reservation lc le res =
     (case res of
        None \<Rightarrow> rreturn ()
      | Some intent \<Rightarrow>
          rbind (attempt (cleanup lc le (sl_slot intent) (sl_generation intent))) (\<lambda>_. rreturn ()))"

section \<open>Reconciliation\<close>

record reconcile_entry =
  re_key :: "managed_key option"
  re_owner :: "managed_owner_tag option"
  re_artifact_binding :: "artifact_binding option"
  re_outcome :: reconcile_outcome

definition reconcile_slot :: "launch_codec \<Rightarrow> launch_env \<Rightarrow> u16 \<Rightarrow> reconcile_entry option rg" where
  "reconcile_slot lc le slot =
     rbind (read_slot lc le slot) (\<lambda>read.
     case read of
       Inl _ \<Rightarrow> rreturn (Some \<lparr>re_key = None, re_owner = None, re_artifact_binding = None,
         re_outcome = OutcomeUnknownOrphanRisk UnknownSlot\<rparr>)
     | Inr r \<Rightarrow>
         (let entry = \<lparr>re_key = Some \<lparr>mk_slot = slot, mk_generation = sl_generation r\<rparr>, re_owner = sl_owner r,
                re_artifact_binding = sl_artifact_binding r, re_outcome = OutcomeResolvedTombstone\<rparr> in
          case sl_state r of
            SlotVacant \<Rightarrow> rreturn None
          | ResolvedTombstone _ _ _ \<Rightarrow> rreturn (Some entry)
          | _ \<Rightarrow>
              rbind (attempt (cleanup lc le slot (sl_generation r))) (\<lambda>outcome.
              rreturn (Some (entry\<lparr>re_outcome :=
                (case outcome of Inr o' \<Rightarrow> o' | Inl _ \<Rightarrow> OutcomeUnknownOrphanRisk ReconciliationFailed)\<rparr>)))))"

fun reconcile_slots :: "launch_codec \<Rightarrow> launch_env \<Rightarrow> u16 list \<Rightarrow> reconcile_entry list rg" where
  "reconcile_slots lc le [] = rreturn []"
| "reconcile_slots lc le (slot # slots) =
     rbind (reconcile_slot lc le slot) (\<lambda>entry.
     rbind (reconcile_slots lc le slots) (\<lambda>entries.
     rreturn (case entry of None \<Rightarrow> entries | Some e \<Rightarrow> e # entries)))"

definition reconcile_all :: "launch_codec \<Rightarrow> launch_env \<Rightarrow> reconcile_entry list rg" where
  "reconcile_all lc le s = reconcile_slots lc le (slot_numbers s) s"

datatype owner_correlation =
    CorrelationAbsent | CorrelationMatched managed_key reconcile_outcome | CorrelationUnresolved

fun correlate_entries ::
    "managed_owner_tag \<Rightarrow> reconcile_entry list \<Rightarrow> owner_correlation option \<Rightarrow> owner_correlation" where
  "correlate_entries owner [] matched = (case matched of None \<Rightarrow> CorrelationAbsent | Some m \<Rightarrow> m)"
| "correlate_entries owner (entry # entries) matched =
     (case re_owner entry of
        None \<Rightarrow> CorrelationUnresolved
      | Some entry_owner \<Rightarrow>
          if entry_owner \<noteq> owner then correlate_entries owner entries matched
          else
            (case re_key entry of
               None \<Rightarrow> CorrelationUnresolved
             | Some key \<Rightarrow>
                 if is_some matched then CorrelationUnresolved
                 else correlate_entries owner entries (Some (CorrelationMatched key (re_outcome entry)))))"

definition correlate_owner :: "managed_owner_tag \<Rightarrow> reconcile_entry list \<Rightarrow> owner_correlation" where
  "correlate_owner owner entries =
     (if owner_tag_validate owner then correlate_entries owner entries None else CorrelationUnresolved)"

datatype owner_outcome =
    OwnerAbsent | OwnerResolvedTombstone managed_key | OwnerUnknownOrphanRisk reconcile_code

fun find_owner_slot ::
    "launch_codec \<Rightarrow> launch_env \<Rightarrow> managed_owner_tag \<Rightarrow> u16 list \<Rightarrow> launch_slot option
       \<Rightarrow> (reconcile_code + launch_slot option) rg" where
  "find_owner_slot lc le owner [] matched = rreturn (Inr matched)"
| "find_owner_slot lc le owner (slot # slots) matched =
     rbind (read_slot lc le slot) (\<lambda>read.
     case read of
       Inl _ \<Rightarrow> rreturn (Inl UnknownSlot)
     | Inr r \<Rightarrow>
         if sl_owner r = Some owner
         then (if is_some matched then rreturn (Inl DuplicateOwner)
               else find_owner_slot lc le owner slots (Some r))
         else find_owner_slot lc le owner slots matched)"

definition owner_outcome_of :: "managed_key \<Rightarrow> launch_error + reconcile_outcome \<Rightarrow> owner_outcome" where
  "owner_outcome_of key r =
     (case r of
        Inl _ \<Rightarrow> OwnerUnknownOrphanRisk ReconciliationFailed
      | Inr outcome \<Rightarrow>
          (case outcome of
             OutcomeResolvedTombstone \<Rightarrow> OwnerResolvedTombstone key
           | OutcomeAbsent \<Rightarrow> OwnerAbsent
           | OutcomeLive \<Rightarrow> OwnerUnknownOrphanRisk ProcessStillLive
           | OutcomeUnknownOrphanRisk reason \<Rightarrow> OwnerUnknownOrphanRisk reason))"

definition reconcile_owner :: "launch_codec \<Rightarrow> launch_env \<Rightarrow> managed_owner_tag \<Rightarrow> owner_outcome rg" where
  "reconcile_owner lc le owner =
     rbind (rensure (owner_tag_validate owner) InvalidArgument) (\<lambda>_.
     rbind (\<lambda>s. find_owner_slot lc le owner (slot_numbers s) None s) (\<lambda>found.
     case found of
       Inl code \<Rightarrow> rreturn (OwnerUnknownOrphanRisk code)
     | Inr None \<Rightarrow> rreturn OwnerAbsent
     | Inr (Some r) \<Rightarrow>
         (let key = \<lparr>mk_slot = sl_slot r, mk_generation = sl_generation r\<rparr> in
          case sl_state r of
            ResolvedTombstone _ _ _ \<Rightarrow> rreturn (OwnerResolvedTombstone key)
          | SlotVacant \<Rightarrow> rreturn OwnerAbsent
          | _ \<Rightarrow>
              rbind (attempt (cleanup lc le (sl_slot r) (sl_generation r))) (\<lambda>outcome.
              rreturn (owner_outcome_of key outcome)))))"

section \<open>What an operation does to the slots\<close>

definition launch_codec_ok :: "launch_codec \<Rightarrow> bool" where
  "launch_codec_ok lc \<longleftrightarrow>
     (\<forall>r bytes. lc_slot_to_vec lc r = Some bytes \<longrightarrow> lc_slot_from_slice lc (bytes @ [0x0a]) = Some r)"

definition slot_view :: "launch_codec \<Rightarrow> registry \<Rightarrow> u16 \<Rightarrow> launch_slot option" where
  "slot_view lc s slot = decode_slot lc slot (rg_slots s slot)"

text \<open>Every slot file is unchanged, or its record has moved along the relation.\<close>

definition moves :: "launch_codec \<Rightarrow> (launch_slot \<Rightarrow> launch_slot \<Rightarrow> bool) \<Rightarrow> registry \<Rightarrow> registry \<Rightarrow> bool" where
  "moves lc R s s' \<longleftrightarrow> rg_slot_count s' = rg_slot_count s \<and>
     (\<forall>slot. rg_slots s' slot = rg_slots s slot
       \<or> (\<exists>r r'. slot_view lc s slot = Some r \<and> slot_view lc s' slot = Some r' \<and> R\<^sup>*\<^sup>* r r'))"

definition tracks :: "launch_codec \<Rightarrow> (launch_slot \<Rightarrow> launch_slot \<Rightarrow> bool) \<Rightarrow> 'a rg \<Rightarrow> bool" where
  "tracks lc R m \<longleftrightarrow> (\<forall>s. moves lc R s (snd (m s)))"

lemma moves_refl [simp]: "moves lc R s s"
  by (simp add: moves_def)

lemma moves_same_slots: "rg_slots s' = rg_slots s \<Longrightarrow> rg_slot_count s' = rg_slot_count s \<Longrightarrow> moves lc R s s'"
  by (simp add: moves_def)

lemma moves_trans:
  assumes "moves lc R s t" and "moves lc R t u"
  shows "moves lc R s u"
proof -
  have "rg_slots u slot = rg_slots s slot
    \<or> (\<exists>r r'. slot_view lc s slot = Some r \<and> slot_view lc u slot = Some r' \<and> R\<^sup>*\<^sup>* r r')" for slot
  proof -
    have 1: "rg_slots t slot = rg_slots s slot
      \<or> (\<exists>r r'. slot_view lc s slot = Some r \<and> slot_view lc t slot = Some r' \<and> R\<^sup>*\<^sup>* r r')"
      and 2: "rg_slots u slot = rg_slots t slot
      \<or> (\<exists>r r'. slot_view lc t slot = Some r \<and> slot_view lc u slot = Some r' \<and> R\<^sup>*\<^sup>* r r')"
      using assms by (auto simp: moves_def)
    show ?thesis
    proof (cases "rg_slots t slot = rg_slots s slot")
      case True
      then have "slot_view lc t slot = slot_view lc s slot" by (simp add: slot_view_def)
      then show ?thesis using 2 True by auto
    next
      case False
      then obtain r r' where r: "slot_view lc s slot = Some r" "slot_view lc t slot = Some r'" "R\<^sup>*\<^sup>* r r'" using 1 by auto
      show ?thesis
      proof (cases "rg_slots u slot = rg_slots t slot")
        case True
        then have "slot_view lc u slot = Some r'" using r(2) by (simp add: slot_view_def)
        then show ?thesis using r by blast
      next
        case False
        then obtain r'' where "slot_view lc u slot = Some r''" "R\<^sup>*\<^sup>* r' r''" using 2 r(2) by auto
        then show ?thesis using r by (meson rtranclp_trans)
      qed
    qed
  qed
  then show ?thesis using assms by (simp add: moves_def)
qed

lemma moves_mono: "moves lc R s t \<Longrightarrow> (\<And>a b. R a b \<Longrightarrow> S a b) \<Longrightarrow> moves lc S s t"
  unfolding moves_def by (metis (no_types, lifting) rtranclp_mono predicate2I predicate2D)

named_theorems tracks_rules "rules for what an operation does to the slots"

lemma tracks_return [tracks_rules]: "tracks lc R (rreturn x)"
  by (simp add: tracks_def rreturn_def)

lemma tracks_fail [tracks_rules]: "tracks lc R (rfail e)"
  by (simp add: tracks_def rfail_def)

lemma tracks_next_call [tracks_rules]: "tracks lc R next_call"
  by (simp add: tracks_def next_call_def moves_def)

lemma tracks_ensure [tracks_rules]: "tracks lc R (rensure b e)"
  by (simp add: rensure_def tracks_rules)

lemma tracks_some [tracks_rules]: "tracks lc R (rsome x e)"
  by (simp add: rsome_def tracks_rules split: option.splits)

lemma tracks_bind:
  assumes "tracks lc R m" and "\<And>s x s'. m s = (Inr x, s') \<Longrightarrow> tracks lc R (f x)"
  shows "tracks lc R (rbind m f)"
  unfolding tracks_def
proof
  fix s
  obtain r s' where m: "m s = (r, s')" by fastforce
  have 1: "moves lc R s s'" using assms(1) m by (metis tracks_def snd_conv)
  show "moves lc R s (snd (rbind m f s))"
  proof (cases r)
    case (Inl e)
    then show ?thesis using 1 m by (simp add: rbind_def)
  next
    case (Inr x)
    then have "moves lc R s' (snd (f x s'))" using assms(2) m unfolding tracks_def by blast
    then show ?thesis using 1 m Inr moves_trans [of lc R s s'] by (simp add: rbind_def)
  qed
qed

lemma tracks_bind_any [tracks_rules]:
  assumes "tracks lc R m" and "\<And>x. tracks lc R (f x)"
  shows "tracks lc R (rbind m f)"
  using assms by (intro tracks_bind) auto

lemma tracks_bind_ensure [tracks_rules]:
  assumes "b \<Longrightarrow> tracks lc R (f ())"
  shows "tracks lc R (rbind (rensure b e) f)"
  by (rule tracks_bind) (auto simp: rensure_def rfail_def tracks_rules intro: assms split: if_splits)

lemma tracks_bind_some [tracks_rules]:
  assumes "\<And>v. x = Some v \<Longrightarrow> tracks lc R (f v)"
  shows "tracks lc R (rbind (rsome x e) f)"
  by (rule tracks_bind) (auto simp: rsome_def rfail_def rreturn_def tracks_rules intro: assms split: option.splits)

lemma tracks_attempt [tracks_rules]: "tracks lc R m \<Longrightarrow> tracks lc R (attempt m)"
  by (simp add: tracks_def attempt_def split: prod.splits) (metis snd_conv)

lemma tracks_plain_call [tracks_rules]: "tracks lc R (plain_call le e)"
  unfolding plain_call_def by (intro tracks_rules)

lemma decode_slot_Some: "decode_slot lc slot file = Some r \<Longrightarrow> launch_slot_ok r \<and> sl_slot r = slot"
  by (auto simp: decode_slot_def launch_slot_ok_def validate_slot_record_def split: option.splits if_splits)

lemma rbind_Inr: "rbind m f s = (Inr y, s') \<longleftrightarrow> (\<exists>x t. m s = (Inr x, t) \<and> f x t = (Inr y, s'))"
  by (auto simp: rbind_def split: prod.splits sum.splits)

lemma plain_call_Inr: "plain_call le e s = (Inr u, s') \<longleftrightarrow> \<not> le_fails le (rg_calls s) \<and> s' = s\<lparr>rg_calls := Suc (rg_calls s)\<rparr>"
  by (auto simp: plain_call_def rbind_def next_call_def rensure_def rreturn_def rfail_def)

lemma read_valid_slot_Inr:
  "read_valid_slot lc le slot s = (Inr r, s') \<Longrightarrow>
     slot_view lc s slot = Some r \<and> launch_slot_ok r \<and> sl_slot r = slot \<and> s' = s\<lparr>rg_calls := Suc (rg_calls s)\<rparr>"
  by (auto simp: read_valid_slot_def rbind_Inr plain_call_Inr rsome_def rfail_def rreturn_def slot_view_def
      dest: decode_slot_Some split: option.splits)

lemma tracks_read_valid_slot: "tracks lc R (read_valid_slot lc le slot)"
proof -
  have "tracks lc R (\<lambda>s. rsome (decode_slot lc slot (rg_slots s slot)) SlotUnreadable s)"
    by (simp add: tracks_def rsome_def rfail_def rreturn_def split: option.splits)
  then show ?thesis unfolding read_valid_slot_def by (intro tracks_rules)
qed

lemma tracks_bind_read [tracks_rules]:
  assumes "\<And>r. launch_slot_ok r \<Longrightarrow> sl_slot r = slot \<Longrightarrow> tracks lc R (f r)"
  shows "tracks lc R (rbind (read_valid_slot lc le slot) f)"
  by (rule tracks_bind [OF tracks_read_valid_slot]) (auto intro: assms dest: read_valid_slot_Inr)

lemma tracks_read_slot [tracks_rules]: "tracks lc R (read_slot lc le slot)"
  unfolding read_slot_def by (intro tracks_attempt tracks_read_valid_slot)

lemma rbind_ok: "m s = (Inr x, t) \<Longrightarrow> rbind m f s = f x t"
  by (simp add: rbind_def)

lemma rbind_err: "m s = (Inl e, t) \<Longrightarrow> rbind m f s = (Inl e, t)"
  by (simp add: rbind_def)

lemma rensure_run [simp]: "rensure b e s = (if b then (Inr (), s) else (Inl e, s))"
  by (simp add: rensure_def rreturn_def rfail_def)

lemma rbind_rensure [simp]: "rbind (rensure b e) f s = (if b then f () s else (Inl e, s))"
  by (simp add: rbind_def)

lemma json_line_Inr:
  assumes "launch_codec_ok lc" and "json_line (lc_slot_to_vec lc n) = Inr bytes" and "launch_slot_ok n"
  shows "decode_slot lc (sl_slot n) (Some bytes) = Some n"
  using assms
  by (auto simp: json_line_def launch_codec_ok_def decode_slot_def launch_slot_ok_def split: option.splits if_splits)

lemma atomic_replace_slot_effect:
  assumes "atomic_replace_slot lc le slot n s = (r, s')"
  shows "(\<exists>k. s' = s\<lparr>rg_calls := k\<rparr>)
    \<or> (\<exists>bytes k. json_line (lc_slot_to_vec lc n) = Inr bytes
        \<and> s' = s\<lparr>rg_slots := (rg_slots s)(slot := Some bytes), rg_calls := k\<rparr>)"
proof (cases "json_line (lc_slot_to_vec lc n)")
  case (Inl e)
  then have "s' = s\<lparr>rg_calls := rg_calls s\<rparr>" using assms by (simp add: atomic_replace_slot_def rfail_def)
  then show ?thesis by blast
next
  case (Inr bytes)
  let ?k = "Suc (rg_calls s)"
  have "s' = s\<lparr>rg_calls := ?k\<rparr> \<or> s' = s\<lparr>rg_slots := (rg_slots s)(slot := Some bytes), rg_calls := ?k\<rparr>"
    using assms Inr
    by (auto simp: atomic_replace_slot_def rbind_def next_call_def rensure_def rreturn_def rfail_def split: if_splits)
  then show ?thesis using Inr by blast
qed

lemma read_valid_slot_state:
  assumes "read_valid_slot lc le slot s = (r, s')"
  shows "s' = s\<lparr>rg_calls := Suc (rg_calls s)\<rparr>"
  using assms
  by (auto simp: read_valid_slot_def plain_call_def rbind_def next_call_def rensure_def rreturn_def rfail_def rsome_def
      split: if_splits option.splits)

lemma registry_replace_slot_effect:
  assumes "registry_replace_slot lc le e n s = (r, s')"
  shows "(\<exists>k. s' = s\<lparr>rg_calls := k\<rparr>)
    \<or> (validate_transition e n \<and> slot_view lc s (sl_slot e) = Some e \<and> launch_slot_ok e
       \<and> (\<exists>bytes k. json_line (lc_slot_to_vec lc n) = Inr bytes
           \<and> s' = s\<lparr>rg_slots := (rg_slots s)(sl_slot e := Some bytes), rg_calls := k\<rparr>))"
proof (cases "validate_transition e n")
  case False
  then have "s' = s\<lparr>rg_calls := rg_calls s\<rparr>"
    using assms by (simp add: registry_replace_slot_def rbind_def rensure_def rfail_def)
  then show ?thesis by blast
next
  case True
  let ?s1 = "s\<lparr>rg_calls := Suc (rg_calls s)\<rparr>"
  obtain r1 where 1: "read_valid_slot lc le (sl_slot e) s = (r1, ?s1)"
    using read_valid_slot_state by (metis surj_pair)
  show ?thesis
  proof (cases "r1 = Inr e")
    case False
    have "s' = ?s1"
    proof (cases r1)
      case (Inl err)
      then show ?thesis using assms True by (simp add: registry_replace_slot_def rbind_err [of "read_valid_slot lc le (sl_slot e)" s, OF 1 [unfolded Inl]])
    next
      case (Inr x)
      then show ?thesis using assms True False by (simp add: registry_replace_slot_def rbind_ok [of "read_valid_slot lc le (sl_slot e)" s, OF 1 [unfolded Inr]])
    qed
    then show ?thesis by blast
  next
    case ok: True
    obtain r2 s2 where 2: "atomic_replace_slot lc le (sl_slot e) n ?s1 = (r2, s2)" by fastforce
    have view: "slot_view lc s (sl_slot e) = Some e" "launch_slot_ok e" using read_valid_slot_Inr [OF 1 [unfolded ok]] by auto
    have "s' = s2 \<or> s' = s2\<lparr>rg_calls := Suc (rg_calls s2)\<rparr>"
    proof (cases r2)
      case (Inl err)
      then show ?thesis using assms True
        by (simp add: registry_replace_slot_def rbind_ok [of "read_valid_slot lc le (sl_slot e)" s, OF 1 [unfolded ok]] rbind_err [of "atomic_replace_slot lc le (sl_slot e) n" "?s1", OF 2 [unfolded Inl]])
    next
      case (Inr u)
      obtain r3 where 3: "read_valid_slot lc le (sl_slot e) s2 = (r3, s2\<lparr>rg_calls := Suc (rg_calls s2)\<rparr>)"
        using read_valid_slot_state by (metis surj_pair)
      have "registry_replace_slot lc le e n s = rbind (read_valid_slot lc le (sl_slot e)) (\<lambda>readback.
          rensure (readback = n) SlotConflict) s2"
        using True by (simp add: registry_replace_slot_def rbind_ok [of "read_valid_slot lc le (sl_slot e)" s, OF 1 [unfolded ok]] rbind_ok [of "atomic_replace_slot lc le (sl_slot e) n" "?s1", OF 2 [unfolded Inr]])
      then show ?thesis using assms 3 by (cases r3) (auto simp: rbind_def split: if_splits)
    qed
    then obtain k where s': "s' = s2\<lparr>rg_calls := k\<rparr>" by (metis (no_types) registry.surjective registry.update_convs(5))
    from atomic_replace_slot_effect [OF 2] s' True view show ?thesis by auto
  qed
qed

lemma tracks_replace_slot [tracks_rules]:
  assumes "launch_codec_ok lc" and "launch_slot_ok e \<Longrightarrow> validate_transition e n \<Longrightarrow> launch_slot_ok n \<and> R e n"
  shows "tracks lc R (registry_replace_slot lc le e n)"
  unfolding tracks_def
proof
  fix s
  obtain r s' where run: "registry_replace_slot lc le e n s = (r, s')" by fastforce
  from registry_replace_slot_effect [OF run] show "moves lc R s (snd (registry_replace_slot lc le e n s))"
  proof (elim disjE conjE exE)
    fix k assume "s' = s\<lparr>rg_calls := k\<rparr>"
    then show ?thesis using run by (simp add: moves_same_slots)
  next
    fix bytes k
    assume v: "validate_transition e n" "slot_view lc s (sl_slot e) = Some e" "launch_slot_ok e"
      and b: "json_line (lc_slot_to_vec lc n) = Inr bytes"
      and s': "s' = s\<lparr>rg_slots := (rg_slots s)(sl_slot e := Some bytes), rg_calls := k\<rparr>"
    have n: "launch_slot_ok n" "R e n" using assms(2) v by auto
    have "sl_slot n = sl_slot e" using v(1) by (simp add: validate_transition_def)
    then have "slot_view lc s' (sl_slot e) = Some n"
      using json_line_Inr [OF assms(1) b n(1)] by (simp add: s' slot_view_def)
    then show ?thesis using run v n by (auto simp: moves_def s')
  qed
qed

text \<open>Calls that only observe.\<close>

lemma tracks_read_registration [tracks_rules]: "tracks lc R (read_registration lc' le slot)"
proof -
  have "tracks lc R (\<lambda>s. (case rg_registrations s slot of None \<Rightarrow> rfail RegistrationInvalid s
        | Some bytes \<Rightarrow>
            rbind (rensure (length bytes \<le> MAX_RECORD_BYTES) RecordTooLarge) (\<lambda>_.
            rbind (rsome (lc_registration_from_slice lc' bytes) RegistrationInvalid) (\<lambda>r.
            rbind (rensure (rr_schema_version r = GATE_SCHEMA_VERSION \<and> rr_slot r = slot) RegistrationInvalid) (\<lambda>_.
            rreturn r))) s))"
    by (simp add: tracks_def rbind_def rensure_def rsome_def rfail_def rreturn_def split: option.splits)
  then show ?thesis unfolding read_registration_def by (intro tracks_rules)
qed

lemma tracks_replace_registration [tracks_rules]: "tracks lc R (replace_registration lc' le slot next)"
proof -
  have "tracks lc R (atomic_replace_registration lc' le slot next)"
    by (auto simp: tracks_def atomic_replace_registration_def rbind_def next_call_def rensure_def rreturn_def rfail_def
        moves_same_slots split: sum.splits)
  then show ?thesis unfolding replace_registration_def by (intro tracks_rules)
qed

lemma tracks_observers [tracks_rules]:
  "tracks lc R (read_boot_uuid le)" "tracks lc R (observe_identity le pid)" "tracks lc R (open_verified_pidfd le i)"
  "tracks lc R (verify_exact_process le i)" "tracks lc R (send_signal le pidfd)"
proof -
  show boot: "tracks lc R (read_boot_uuid le)" for le
    unfolding read_boot_uuid_def by (intro tracks_rules)
  show obs: "tracks lc R (observe_identity le pid)" for le pid
    unfolding observe_identity_def read_pid_namespace_inode_def read_start_ticks_def
    by (intro tracks_rules boot) (auto split: evidence.splits intro!: tracks_rules)
  show pidfd: "tracks lc R (open_verified_pidfd le i)" for le i
    unfolding open_verified_pidfd_def pidfd_open_def
    by (intro tracks_rules) (auto split: evidence.splits intro!: tracks_rules obs)
  show "tracks lc R (verify_exact_process le i)"
    unfolding verify_exact_process_def
    by (intro tracks_rules boot) (auto split: evidence.splits intro!: tracks_rules pidfd)
  show "tracks lc R (send_signal le pidfd)"
    by (auto simp: tracks_def send_signal_def plain_call_def rbind_def next_call_def rensure_def rreturn_def rfail_def
        moves_same_slots)
qed

section \<open>Steps of a slot\<close>

text \<open>A tombstone whose artifacts were being created when the process was lost: nobody can tell what is there.\<close>

definition unresolved :: "launch_slot \<Rightarrow> bool" where
  "unresolved r \<longleftrightarrow> is_tombstone (sl_state r)
     \<and> is_some_and (sl_artifact_binding r) (\<lambda>x. creation_pending x \<and> \<not> ab_socket_retire_pending x \<and> ab_cleanup_quarantine x = None)"

text \<open>What the operations do beyond what \<open>validate_transition\<close> asks for.\<close>

definition discipline :: "launch_slot \<Rightarrow> launch_slot \<Rightarrow> bool" where
  "discipline a b \<longleftrightarrow>
     (\<forall>y. sl_artifact_binding a = None \<and> sl_artifact_binding b = Some y \<longrightarrow>
        (\<exists>nonce root leaf. y = fresh_binding nonce root leaf))
     \<and> (\<forall>x y. sl_artifact_binding a = Some x \<and> sl_artifact_binding b = Some y \<and> ab_socket_retire_pending y
          \<longrightarrow> ab_socket_retire_pending x \<or> \<not> creation_pending x)
     \<and> (\<forall>x y. sl_artifact_binding a = Some x \<and> sl_artifact_binding b = Some y \<and> is_some (ab_cleanup_quarantine y)
          \<longrightarrow> is_some (ab_cleanup_quarantine x) \<or> \<not> creation_pending x)
     \<and> (unresolved a \<longrightarrow> b = a)
     \<and> (\<forall>n i released. sl_state a = IdentityDurable n i released \<longrightarrow>
          sl_state b \<in> {sl_state a, CleanupPending n i released})
     \<and> (\<forall>n i released. sl_state a = CleanupPending n i released \<longrightarrow>
          sl_state b = sl_state a \<or> (\<exists>t. sl_state b = ResolvedTombstone n (Some i) t))"

definition slot_step :: "launch_slot \<Rightarrow> launch_slot \<Rightarrow> bool" where
  "slot_step a b \<longleftrightarrow> launch_slot_ok a \<and> launch_slot_ok b \<and> validate_transition a b \<and> discipline a b"

definition live_step :: "launch_slot \<Rightarrow> launch_slot \<Rightarrow> bool" where
  "live_step a b \<longleftrightarrow> slot_step a b \<and> sl_state a \<noteq> SlotVacant"

text \<open>A step that keeps the artifact binding, and the step that drops one whose cleanup is complete.\<close>

definition holding_step :: "launch_slot \<Rightarrow> launch_slot \<Rightarrow> bool" where
  "holding_step a b \<longleftrightarrow> live_step a b \<and> (is_some (sl_artifact_binding a) \<longrightarrow> is_some (sl_artifact_binding b))"

definition drop_step :: "launch_slot \<Rightarrow> launch_slot \<Rightarrow> bool" where
  "drop_step a b \<longleftrightarrow> live_step a b \<and> is_tombstone (sl_state a) \<and> is_some_and (sl_artifact_binding a) ab_cleanup_completed
     \<and> b = a\<lparr>sl_artifact_binding := None\<rparr>"

lemma slot_ok_bound:
  "launch_slot_ok r \<Longrightarrow> sl_artifact_binding r = Some x \<Longrightarrow>
     binding_validate x \<and> state_nonce (sl_state r) = Some (ab_nonce x) \<and> sl_state r \<noteq> SlotVacant
     \<and> is_some (sl_owner r) \<and> (ab_cleanup_quarantine x = None \<or> is_tombstone (sl_state r))"
  by (auto simp: launch_slot_ok_def validate_slot_record_def state_nonce_def split: launch_slot_state.splits)

lemma slot_ok_rebind:
  assumes "launch_slot_ok r" "sl_artifact_binding r = Some x" "binding_validate y" "ab_nonce y = ab_nonce x"
    and "ab_cleanup_quarantine y = None \<or> is_tombstone (sl_state r)"
  shows "launch_slot_ok (r\<lparr>sl_artifact_binding := Some y\<rparr>)"
  using assms by (auto simp: launch_slot_ok_def validate_slot_record_def split: option.splits)

lemma same_artifact_phase: "same_artifact x y \<Longrightarrow> creation_phase x = creation_phase y"
  by (simp add: same_artifact_def creation_phase_def)

lemma binding_step_phase:
  "binding_step state x y \<Longrightarrow> is_intent state \<and> creation_progresses_to x y \<or> creation_phase x = creation_phase y"
proof -
  assume "binding_step state x y"
  then consider "is_intent state \<and> creation_progresses_to x y" | "same_artifact x y" | "cleanup_progress state x y"
    unfolding binding_step_def creation_progress_def socket_retire_intent_def socket_retire_receipt_def retirement_frame_def
      old_boot_logical_absence_completion_def cleanup_step_intent_def cleanup_step_receipt_def cleanup_completion_def
      logical_absence_completion_def in_quarantine_def by blast
  then show ?thesis
  proof cases
    case 3
    then have "creation_phase x = creation_phase y" unfolding cleanup_progress_def creation_phase_def by presburger
    then show ?thesis ..
  qed (auto dest: same_artifact_phase)
qed

lemma rebind_step:
  assumes "launch_slot_ok r" "sl_artifact_binding r = Some x" "binding_validate y" "ab_nonce y = ab_nonce x"
    and "ab_cleanup_quarantine y = None \<or> is_tombstone (sl_state r)"
    and "validate_transition r (r\<lparr>sl_artifact_binding := Some y\<rparr>)"
    and "is_tombstone (sl_state r) \<Longrightarrow> creation_pending x \<Longrightarrow> \<not> ab_socket_retire_pending x
      \<Longrightarrow> ab_cleanup_quarantine x = None \<Longrightarrow> y = x"
    and "ab_socket_retire_pending y \<Longrightarrow> ab_socket_retire_pending x \<or> \<not> creation_pending x"
    and "is_some (ab_cleanup_quarantine y) \<Longrightarrow> is_some (ab_cleanup_quarantine x) \<or> \<not> creation_pending x"
  shows "launch_slot_ok (r\<lparr>sl_artifact_binding := Some y\<rparr>) \<and> holding_step r (r\<lparr>sl_artifact_binding := Some y\<rparr>)"
proof -
  have ok: "launch_slot_ok (r\<lparr>sl_artifact_binding := Some y\<rparr>)" by (rule slot_ok_rebind [OF assms(1-5)])
  have "unresolved r \<Longrightarrow> r\<lparr>sl_artifact_binding := Some y\<rparr> = r"
    using assms(2,7) by (simp add: unresolved_def)
  then have "discipline r (r\<lparr>sl_artifact_binding := Some y\<rparr>)"
    using assms(2,8,9) by (auto simp: discipline_def)
  then show ?thesis
    using ok assms(1,6) slot_ok_bound [OF assms(1,2)] by (simp add: holding_step_def live_step_def slot_step_def)
qed

lemma tracks_rebind:
  assumes "launch_codec_ok lc" and "sl_artifact_binding r = Some x" "ab_nonce y = ab_nonce x"
    and "launch_slot_ok r \<Longrightarrow> binding_validate x \<Longrightarrow> binding_validate y"
    and "ab_cleanup_quarantine y = None \<or> is_tombstone (sl_state r)"
    and "is_tombstone (sl_state r) \<Longrightarrow> creation_pending x \<Longrightarrow> \<not> ab_socket_retire_pending x
      \<Longrightarrow> ab_cleanup_quarantine x = None \<Longrightarrow> binding_step (sl_state r) x y \<Longrightarrow> y = x"
    and "ab_socket_retire_pending y \<Longrightarrow> ab_socket_retire_pending x \<or> \<not> creation_pending x"
    and "is_some (ab_cleanup_quarantine y) \<Longrightarrow> is_some (ab_cleanup_quarantine x) \<or> \<not> creation_pending x"
  shows "tracks lc holding_step (registry_replace_slot lc le r (r\<lparr>sl_artifact_binding := Some y\<rparr>))"
proof (rule tracks_replace_slot [OF assms(1)])
  assume r: "launch_slot_ok r" "validate_transition r (r\<lparr>sl_artifact_binding := Some y\<rparr>)"
  have step: "binding_step (sl_state r) x y \<or> y = x"
    using r(2) assms(2) by (auto simp: validate_transition_def binding_update_def)
  have "binding_validate y" using assms(4) r(1) slot_ok_bound [OF r(1) assms(2)] by blast
  then show "launch_slot_ok (r\<lparr>sl_artifact_binding := Some y\<rparr>) \<and> holding_step r (r\<lparr>sl_artifact_binding := Some y\<rparr>)"
    using rebind_step [OF r(1) assms(2) _ assms(3,5) r(2)] assms(6-8) step by blast
qed

section \<open>Artifact operations move slots by steps\<close>

lemma tracks_reserve_update:
  assumes "tracks lc R (registry_replace_slot lc le r (r\<lparr>sl_artifact_binding := Some y\<rparr>))"
  shows "tracks lc R (reserve_update lc le r y)" "tracks lc R (store_binding lc le r y)"
  using assms by (auto simp: reserve_update_def store_binding_def Let_def intro!: tracks_bind_any tracks_return)

lemma fresh_binding_phase: "creation_phase (fresh_binding n root leaf) = Some PhaseReserved"
  by (simp add: creation_phase_def fresh_binding_def)

lemma begin_creation_step:
  assumes "launch_slot_ok r" "sl_artifact_binding r = None" "sl_state r = IntentDurable nonce created"
    and "binding_validate (fresh_binding nonce root leaf)" "is_some (sl_owner r)"
    and "validate_transition r (r\<lparr>sl_artifact_binding := Some (fresh_binding nonce root leaf)\<rparr>)"
  shows "launch_slot_ok (r\<lparr>sl_artifact_binding := Some (fresh_binding nonce root leaf)\<rparr>)
    \<and> holding_step r (r\<lparr>sl_artifact_binding := Some (fresh_binding nonce root leaf)\<rparr>)"
  using assms
  by (auto simp: holding_step_def live_step_def slot_step_def discipline_def unresolved_def launch_slot_ok_def validate_slot_record_def
      fresh_binding_def state_nonce_def)

lemma cleanup_step_completed_cong:
  assumes "ab_cleanup_ownership_removed y = ab_cleanup_ownership_removed x"
    "ab_cleanup_socket_removed y = ab_cleanup_socket_removed x"
    "ab_cleanup_runner_removed y = ab_cleanup_runner_removed x" "ab_cleanup_completed y = ab_cleanup_completed x"
  shows "cleanup_step_completed step y = cleanup_step_completed step x" "unlink_in_order step y = unlink_in_order step x"
  using assms by (cases step; simp add: unlink_in_order_def)+

text \<open>A change of what is created keeps a binding valid, if it leads to a phase and its identities are valid.\<close>

lemma creation_change_ok:
  assumes "binding_validate x" "creation_phase y = Some q"
    and same: "ab_nonce y = ab_nonce x" "ab_control_root y = ab_control_root x" "ab_private_leaf y = ab_private_leaf x"
      "ab_cleanup_quarantine y = ab_cleanup_quarantine x" "ab_cleanup_unlink_pending y = ab_cleanup_unlink_pending x"
      "ab_socket_retire_pending y = ab_socket_retire_pending x" "ab_socket_retired y = ab_socket_retired x"
      "ab_cleanup_ownership_removed y = ab_cleanup_ownership_removed x"
      "ab_cleanup_socket_removed y = ab_cleanup_socket_removed x"
      "ab_cleanup_runner_removed y = ab_cleanup_runner_removed x" "ab_cleanup_completed y = ab_cleanup_completed x"
    and new: "is_none_or (ab_private_directory y) directory_identity_validate"
      "is_none_or (ab_runner y) artifact_identity_validate" "is_none_or (ab_socket y) artifact_identity_validate"
      "is_none_or (ab_owner y) artifact_identity_validate" "is_some (ab_socket x) \<longrightarrow> is_some (ab_socket y)"
  shows "binding_validate y"
proof -
  have "(ab_socket y = None \<or> is_some (ab_runner y)) \<and> (ab_runner y = None \<or> is_some (ab_private_directory y))
    \<and> is_none_or (ab_owner y) (\<lambda>i. artifact_identity_validate i \<and> is_some (ab_socket y))"
    using assms(2) new(4)
    by (cases q; cases "ab_owner y") (auto simp: creation_phase_Some)
  then show ?thesis
    using assms(1,2) new
    by (simp add: binding_validate_def same cleanup_step_completed_cong [OF same(8-11)])
qed

lemma tracks_begin_creation:
  assumes "launch_codec_ok lc" and "is_some_and res (\<lambda>intent. is_some (sl_owner intent))"
  shows "tracks lc holding_step (begin_artifact_creation lc le root leaf res)"
proof -
  have "tracks lc holding_step (case sl_state r of
        IntentDurable nonce _ \<Rightarrow>
          (let binding = fresh_binding nonce root leaf in
           rbind (rensure (binding_validate binding) InvalidArgument) (\<lambda>_. reserve_update lc le r binding))
      | _ \<Rightarrow> rfail WrongState)"
    if "res = Some r" "sl_artifact_binding r = None" for r
    using that assms
    by (cases "sl_state r")
      (auto simp: Let_def intro!: tracks_rules tracks_reserve_update
        begin_creation_step [THEN conjunct1] begin_creation_step [THEN conjunct2])
  then show ?thesis
    unfolding begin_artifact_creation_def by (intro tracks_bind_ensure tracks_bind_some) auto
qed

text \<open>A creation step changes the phase, so it is refused unless the slot holds an intent.\<close>

lemma tracks_creation_step:
  assumes "launch_codec_ok lc"
    and "\<And>x. creation_phase x = Some p \<Longrightarrow> creation_phase (change x) = Some q" "p \<noteq> q"
    and "\<And>x. ab_nonce (change x) = ab_nonce x" "\<And>x. ab_cleanup_quarantine (change x) = ab_cleanup_quarantine x"
    and "\<And>x. ab_socket_retire_pending (change x) = ab_socket_retire_pending x"
    and "\<And>x. creation_phase x = Some p \<Longrightarrow> binding_validate x \<Longrightarrow> \<not> validated \<Longrightarrow> binding_validate (change x)"
  shows "tracks lc holding_step (creation_step lc le p change validated res)"
  unfolding creation_step_def
proof (intro tracks_bind_ensure tracks_bind_some tracks_reserve_update)
  fix r :: launch_slot and x :: artifact_binding
  assume x: "sl_artifact_binding r = Some x" "creation_phase x = Some p"
    and valid: "\<not> validated \<or> binding_validate (change x)"
  show "tracks lc holding_step (registry_replace_slot lc le r (r\<lparr>sl_artifact_binding := Some (change x)\<rparr>))"
  proof (rule tracks_replace_slot [OF assms(1)])
    assume r: "launch_slot_ok r" "validate_transition r (r\<lparr>sl_artifact_binding := Some (change x)\<rparr>)"
    have "change x \<noteq> x" using assms(2) [OF x(2)] assms(3) x(2) by auto
    then have "binding_step (sl_state r) x (change x)"
      using r(2) x(1) by (auto simp: validate_transition_def binding_update_def)
    then have intent: "is_intent (sl_state r)"
      using binding_step_phase [of "sl_state r" x "change x"] assms(2) [OF x(2)] assms(3) x(2) by auto
    then have live: "\<not> is_tombstone (sl_state r)" by (cases "sl_state r") auto
    note bound = slot_ok_bound [OF r(1) x(1)]
    have "binding_validate (change x)" using valid assms(7) [OF x(2)] bound by blast
    then show "launch_slot_ok (r\<lparr>sl_artifact_binding := Some (change x)\<rparr>)
        \<and> holding_step r (r\<lparr>sl_artifact_binding := Some (change x)\<rparr>)"
      using live bound assms(4-6) by (intro rebind_step [OF r(1) x(1) _ _ _ r(2)]) auto
  qed
qed

lemma tracks_creation_steps:
  assumes "launch_codec_ok lc"
  shows "tracks lc holding_step (finish_artifact_creation lc le d res)"
    "tracks lc holding_step (begin_artifact_runner_creation lc le res)"
    "tracks lc holding_step (finish_artifact_runner lc le r res)"
    "tracks lc holding_step (begin_artifact_socket_creation lc le res)"
    "tracks lc holding_step (finish_artifact_socket lc le s res)"
    "tracks lc holding_step (begin_artifact_owner_creation lc le res)"
    "tracks lc holding_step (finish_artifact_owner lc le w res)"
proof -
  show "tracks lc holding_step (finish_artifact_creation lc le d res)"
    unfolding finish_artifact_creation_def
  proof (intro tracks_bind_ensure)
    assume d: "directory_identity_validate d"
    show "tracks lc holding_step (creation_step lc le PhaseReserved (\<lambda>b. b\<lparr>ab_private_directory := Some d\<rparr>) False res)"
    proof (rule tracks_creation_step [OF assms, where q = PhaseDirectoryCreated])
      fix x assume x: "creation_phase x = Some PhaseReserved" "binding_validate x"
      show "binding_validate (x\<lparr>ab_private_directory := Some d\<rparr>)"
        by (rule creation_change_ok [OF x(2), where q = PhaseDirectoryCreated]) (use x d in \<open>auto simp: creation_phase_Some binding_validate_def\<close>)
    qed (auto simp: creation_phase_Some)
  qed
  show "tracks lc holding_step (finish_artifact_runner lc le r res)"
    unfolding finish_artifact_runner_def
  proof (intro tracks_bind_ensure)
    assume r: "artifact_identity_validate r"
    show "tracks lc holding_step (creation_step lc le PhaseRunnerCreatePending
        (\<lambda>b. b\<lparr>ab_runner := Some r, ab_runner_create_pending := False\<rparr>) False res)"
    proof (rule tracks_creation_step [OF assms, where q = PhaseRunnerCreated])
      fix x assume x: "creation_phase x = Some PhaseRunnerCreatePending" "binding_validate x"
      show "binding_validate (x\<lparr>ab_runner := Some r, ab_runner_create_pending := False\<rparr>)"
        by (rule creation_change_ok [OF x(2), where q = PhaseRunnerCreated]) (use x r in \<open>auto simp: creation_phase_Some binding_validate_def\<close>)
    qed (auto simp: creation_phase_Some)
  qed
  show "tracks lc holding_step (finish_artifact_socket lc le s res)"
    unfolding finish_artifact_socket_def
  proof (intro tracks_bind_ensure)
    assume s: "artifact_identity_validate s"
    show "tracks lc holding_step (creation_step lc le PhaseSocketCreatePending
        (\<lambda>b. b\<lparr>ab_socket := Some s, ab_socket_create_pending := False\<rparr>) False res)"
    proof (rule tracks_creation_step [OF assms, where q = PhaseSocketCreated])
      fix x assume x: "creation_phase x = Some PhaseSocketCreatePending" "binding_validate x"
      show "binding_validate (x\<lparr>ab_socket := Some s, ab_socket_create_pending := False\<rparr>)"
        by (rule creation_change_ok [OF x(2), where q = PhaseSocketCreated]) (use x s in \<open>auto simp: creation_phase_Some binding_validate_def\<close>)
    qed (auto simp: creation_phase_Some)
  qed
  show "tracks lc holding_step (finish_artifact_owner lc le w res)"
    unfolding finish_artifact_owner_def
    by (intro tracks_bind_ensure tracks_creation_step [OF assms, where q = PhaseOwnerCreated])
      (auto simp: creation_phase_Some)
  show "tracks lc holding_step (begin_artifact_runner_creation lc le res)"
    unfolding begin_artifact_runner_creation_def
    by (rule tracks_creation_step [OF assms, where q = PhaseRunnerCreatePending]) (auto simp: creation_phase_Some)
  show "tracks lc holding_step (begin_artifact_socket_creation lc le res)"
    unfolding begin_artifact_socket_creation_def
    by (rule tracks_creation_step [OF assms, where q = PhaseSocketCreatePending]) (auto simp: creation_phase_Some)
  show "tracks lc holding_step (begin_artifact_owner_creation lc le res)"
    unfolding begin_artifact_owner_creation_def
    by (rule tracks_creation_step [OF assms, where q = PhaseOwnerCreatePending]) (auto simp: creation_phase_Some)
qed

lemma tracks_locked_slot [tracks_rules]:
  assumes "\<And>r. launch_slot_ok r \<Longrightarrow> tracks lc R (f r)"
  shows "tracks lc R (rbind (locked_slot lc le key) f)"
proof -
  have run: "rbind (locked_slot lc le key) f = rbind (plain_call le RegistryBusy) (\<lambda>_.
     rbind (read_valid_slot lc le (mk_slot key)) (\<lambda>current.
     rbind (rensure (sl_generation current = mk_generation key) GenerationConflict) (\<lambda>_. f current)))"
    by (rule ext) (auto simp: locked_slot_def rbind_def rreturn_def split: prod.splits sum.splits)
  show ?thesis unfolding run by (intro tracks_rules assms)
qed

lemma tracks_tombstone_binding [tracks_rules]:
  assumes "\<And>r x. launch_slot_ok r \<Longrightarrow> is_tombstone (sl_state r) \<Longrightarrow> sl_artifact_binding r = Some x
    \<Longrightarrow> tracks lc R (f r x)"
  shows "tracks lc R (rbind (tombstone_binding lc le key binding) (\<lambda>(r, x). f r x))"
proof -
  have run: "rbind (tombstone_binding lc le key binding) (\<lambda>(r, x). f r x) = rbind (locked_slot lc le key) (\<lambda>current.
     rbind (rensure (is_tombstone (sl_state current)) WrongState) (\<lambda>_.
     rbind (rsome (sl_artifact_binding current) BindingAbsent) (\<lambda>authoritative.
     rbind (rensure (same_artifact authoritative binding) BindingMismatch) (\<lambda>_. f current authoritative))))"
    by (rule ext) (auto simp: tombstone_binding_def rbind_def rreturn_def rsome_def rfail_def split: prod.splits sum.splits option.splits)
  show ?thesis unfolding run by (intro tracks_rules assms)
qed

lemma tracks_if [tracks_rules]:
  "(b \<Longrightarrow> tracks lc R m) \<Longrightarrow> (\<not> b \<Longrightarrow> tracks lc R n) \<Longrightarrow> tracks lc R (if b then m else n)"
  by simp

lemma tracks_option:
  "(\<And>v. x = Some v \<Longrightarrow> tracks lc R (f v)) \<Longrightarrow> (x = None \<Longrightarrow> tracks lc R m) \<Longrightarrow>
     tracks lc R (case x of Some v \<Rightarrow> f v | None \<Rightarrow> m)"
  by (simp split: option.splits)

text \<open>A change of the cleanup flags of a tombstone keeps its binding valid.\<close>

lemma binding_validate_creation:
  "binding_validate b \<Longrightarrow> is_some (creation_phase b)"
  by (simp add: binding_validate_def)

lemma cleanup_change_ok:
  assumes "binding_validate x" and "same_artifact x y"
    and "is_none_or (ab_cleanup_quarantine y) (\<lambda>q. validate_managed_artifact_leaf q \<and> q \<noteq> ab_private_leaf x)"
    and "ab_cleanup_completed y \<longrightarrow> is_some (ab_cleanup_quarantine y) \<and> ab_cleanup_runner_removed y"
    and "ab_socket_retire_pending y \<longrightarrow> is_some (ab_socket x) \<and> \<not> ab_socket_retired y"
    and "ab_socket_retired y \<longrightarrow> is_some (ab_socket x)"
    and "ab_cleanup_runner_removed y \<longrightarrow> ab_cleanup_socket_removed y"
      "ab_cleanup_socket_removed y \<longrightarrow> ab_cleanup_ownership_removed y"
    and "is_none_or (ab_cleanup_unlink_pending y) (\<lambda>step. is_some (ab_cleanup_quarantine y)
           \<and> \<not> cleanup_step_completed step y \<and> unlink_in_order step y)"
  shows "binding_validate y"
proof -
  have same: "ab_nonce y = ab_nonce x" "ab_control_root y = ab_control_root x" "ab_private_leaf y = ab_private_leaf x"
    "ab_private_directory y = ab_private_directory x" "ab_runner y = ab_runner x" "ab_socket y = ab_socket x"
    "ab_owner y = ab_owner x" "creation_phase y = creation_phase x"
    using assms(2) same_artifact_phase [OF assms(2)] by (auto simp: same_artifact_def)
  show ?thesis
    using assms(1,3-9) by (simp add: binding_validate_def same) blast
qed

lemma creation_phase_cleanup [simp]:
  "creation_phase (b\<lparr>ab_cleanup_quarantine := v0\<rparr>) = creation_phase b"
  "creation_phase (b\<lparr>ab_cleanup_unlink_pending := v1\<rparr>) = creation_phase b"
  "creation_phase (b\<lparr>ab_socket_retire_pending := v2\<rparr>) = creation_phase b"
  "creation_phase (b\<lparr>ab_socket_retired := v3\<rparr>) = creation_phase b"
  "creation_phase (b\<lparr>ab_cleanup_ownership_removed := v4\<rparr>) = creation_phase b"
  "creation_phase (b\<lparr>ab_cleanup_socket_removed := v5\<rparr>) = creation_phase b"
  "creation_phase (b\<lparr>ab_cleanup_runner_removed := v6\<rparr>) = creation_phase b"
  "creation_phase (b\<lparr>ab_cleanup_completed := v7\<rparr>) = creation_phase b"
  by (simp_all add: creation_phase_def)

lemma same_artifact_cleanup [simp]:
  "same_artifact x x"
  "same_artifact x (y\<lparr>ab_cleanup_quarantine := v0\<rparr>) = same_artifact x y"
  "same_artifact x (y\<lparr>ab_cleanup_unlink_pending := v1\<rparr>) = same_artifact x y"
  "same_artifact x (y\<lparr>ab_socket_retire_pending := v2\<rparr>) = same_artifact x y"
  "same_artifact x (y\<lparr>ab_socket_retired := v3\<rparr>) = same_artifact x y"
  "same_artifact x (y\<lparr>ab_cleanup_ownership_removed := v4\<rparr>) = same_artifact x y"
  "same_artifact x (y\<lparr>ab_cleanup_socket_removed := v5\<rparr>) = same_artifact x y"
  "same_artifact x (y\<lparr>ab_cleanup_runner_removed := v6\<rparr>) = same_artifact x y"
  "same_artifact x (y\<lparr>ab_cleanup_completed := v7\<rparr>) = same_artifact x y"
  by (simp_all add: same_artifact_def)

lemma cleanup_steps_update [simp]:
  "cleanup_step_completed step (b\<lparr>ab_cleanup_quarantine := v0\<rparr>) = cleanup_step_completed step b"
  "unlink_in_order step (b\<lparr>ab_cleanup_quarantine := v0\<rparr>) = unlink_in_order step b"
  "cleanup_step_completed step (b\<lparr>ab_cleanup_unlink_pending := v1\<rparr>) = cleanup_step_completed step b"
  "unlink_in_order step (b\<lparr>ab_cleanup_unlink_pending := v1\<rparr>) = unlink_in_order step b"
  "cleanup_step_completed step (b\<lparr>ab_socket_retire_pending := v2\<rparr>) = cleanup_step_completed step b"
  "unlink_in_order step (b\<lparr>ab_socket_retire_pending := v2\<rparr>) = unlink_in_order step b"
  "cleanup_step_completed step (b\<lparr>ab_socket_retired := v3\<rparr>) = cleanup_step_completed step b"
  "unlink_in_order step (b\<lparr>ab_socket_retired := v3\<rparr>) = unlink_in_order step b"
  by (cases step; simp add: unlink_in_order_def)+

lemma quarantine_leaf_differs: "quarantine_leaf lc b \<noteq> ab_private_leaf b"
proof
  assume "quarantine_leaf lc b = ab_private_leaf b"
  then have "length (quarantine_leaf lc b) = length (ab_private_leaf b)" by simp
  then show False by (simp add: quarantine_leaf_def)
qed

lemma tracks_store:
  assumes "launch_codec_ok lc" and "launch_slot_ok r" "sl_artifact_binding r = Some x"
    and "same_artifact x y" "ab_cleanup_quarantine y = None \<or> is_tombstone (sl_state r)"
    and "binding_validate x \<Longrightarrow> binding_validate y"
    and "is_tombstone (sl_state r) \<Longrightarrow> creation_pending x \<Longrightarrow> \<not> ab_socket_retire_pending x
      \<Longrightarrow> ab_cleanup_quarantine x = None \<Longrightarrow> y = x"
    and "ab_socket_retire_pending y \<Longrightarrow> ab_socket_retire_pending x \<or> \<not> creation_pending x"
    and "is_some (ab_cleanup_quarantine y) \<Longrightarrow> is_some (ab_cleanup_quarantine x) \<or> \<not> creation_pending x"
  shows "tracks lc holding_step (store_binding lc le r y)"
  using assms
  by (intro tracks_reserve_update tracks_rebind [where x = x]) (auto simp: same_artifact_def)

lemma begin_cleanup_valid:
  assumes "binding_validate x" "ab_cleanup_quarantine x = None" "validate_managed_artifact_leaf q" "q \<noteq> ab_private_leaf x"
  shows "binding_validate (x\<lparr>ab_cleanup_quarantine := Some q, ab_cleanup_completed := False\<rparr>)"
proof -
  have "ab_cleanup_unlink_pending x = None"
    using assms(1,2) by (cases "ab_cleanup_unlink_pending x") (auto simp: binding_validate_def)
  then show ?thesis using assms by (simp add: binding_validate_def)
qed

lemma retire_valid:
  assumes "binding_validate x" "is_some (ab_socket x)"
  shows "\<not> ab_socket_retired x \<Longrightarrow> binding_validate (x\<lparr>ab_socket_retire_pending := True\<rparr>)"
    "binding_validate (x\<lparr>ab_socket_retire_pending := False, ab_socket_retired := True\<rparr>)"
  using assms by (simp_all add: binding_validate_def)

lemma binding_validate_cleanup:
  assumes "binding_validate x"
  shows "is_none_or (ab_cleanup_quarantine x) (\<lambda>q. validate_managed_artifact_leaf q \<and> q \<noteq> ab_private_leaf x)"
    "ab_socket_retire_pending x \<longrightarrow> is_some (ab_socket x) \<and> \<not> ab_socket_retired x"
    "ab_socket_retired x \<longrightarrow> is_some (ab_socket x)"
    "ab_cleanup_runner_removed x \<longrightarrow> ab_cleanup_socket_removed x"
    "ab_cleanup_socket_removed x \<longrightarrow> ab_cleanup_ownership_removed x"
    "ab_cleanup_completed x \<longrightarrow> is_some (ab_cleanup_quarantine x) \<and> ab_cleanup_runner_removed x"
  using assms unfolding binding_validate_def by blast+

lemma unlink_valid:
  assumes "binding_validate x" "is_some (ab_cleanup_quarantine x)" "\<not> ab_cleanup_completed x"
    and "record_removal step (x\<lparr>ab_cleanup_unlink_pending := None\<rparr>) = Some y"
  shows "binding_validate y"
proof -
  note v = binding_validate_cleanup [OF assms(1)]
  have same: "same_artifact x y" using assms(4) by (cases step) (auto split: if_splits)
  have y: "ab_cleanup_quarantine y = ab_cleanup_quarantine x" "ab_cleanup_completed y = ab_cleanup_completed x"
    "ab_socket_retire_pending y = ab_socket_retire_pending x" "ab_socket_retired y = ab_socket_retired x"
    "ab_cleanup_unlink_pending y = None"
    using assms(4) by (cases step; auto split: if_splits)+
  have order: "ab_cleanup_runner_removed y \<longrightarrow> ab_cleanup_socket_removed y"
    "ab_cleanup_socket_removed y \<longrightarrow> ab_cleanup_ownership_removed y"
    using assms(4) v(4,5) by (cases step; auto split: if_splits)+
  show ?thesis
    by (rule cleanup_change_ok [OF assms(1) same]) (use assms(3) v order in \<open>simp_all add: y\<close>)
qed

lemma finish_cleanup_valid:
  assumes "binding_validate x" "is_some (ab_cleanup_quarantine x)" "ab_cleanup_runner_removed x"
  shows "binding_validate (x\<lparr>ab_cleanup_unlink_pending := None, ab_cleanup_completed := True\<rparr>)"
  using assms by (simp add: binding_validate_def)

lemma completed_removal_fields [simp]:
  "same_artifact x (completed_removal y) = same_artifact x y"
  "ab_cleanup_quarantine (completed_removal y) = ab_cleanup_quarantine y"
  "ab_socket_retire_pending (completed_removal y) = ab_socket_retire_pending y"
  by (simp_all add: completed_removal_def)

lemma completed_removal_valid:
  assumes "binding_validate x" "is_some (ab_cleanup_quarantine x)" "ab_cleanup_unlink_pending x = None"
  shows "binding_validate (completed_removal x)"
  using assms by (simp add: binding_validate_def completed_removal_def)

lemma logical_absence_valid:
  assumes "binding_validate x" "validate_managed_artifact_leaf q" "q \<noteq> ab_private_leaf x"
  shows "binding_validate (completed_removal (x\<lparr>ab_cleanup_quarantine := Some q, ab_cleanup_unlink_pending := None,
    ab_socket_retire_pending := False, ab_socket_retired := (ab_socket_retired x \<or> is_some (ab_socket x))\<rparr>))"
  using assms by (auto simp: binding_validate_def completed_removal_def)

lemmas op_rules = tracks_locked_slot tracks_tombstone_binding tracks_bind_ensure tracks_bind_some tracks_if
  tracks_return tracks_fail

lemma tracks_begin_cleanup:
  assumes "launch_codec_ok lc"
  shows "tracks lc holding_step (begin_artifact_cleanup lc le key binding)"
  unfolding begin_artifact_cleanup_def Let_def
proof (intro op_rules)
  fix r x
  assume x: "launch_slot_ok r" "sl_artifact_binding r = Some x" "is_tombstone (sl_state r)" "\<not> creation_pending x"
    "\<not> is_some (ab_cleanup_quarantine x)" "validate_managed_artifact_leaf (quarantine_leaf lc x)"
    "\<not> ab_socket_retire_pending x"
  let ?y = "x\<lparr>ab_cleanup_quarantine := Some (quarantine_leaf lc x), ab_cleanup_completed := False\<rparr>"
  have valid: "binding_validate x \<Longrightarrow> binding_validate ?y"
    using x(5,6) by (intro begin_cleanup_valid) (simp_all add: quarantine_leaf_differs)
  have same: "same_artifact x ?y" by simp
  have tomb: "ab_cleanup_quarantine ?y = None \<or> is_tombstone (sl_state r)" using x(3) by blast
  show "tracks lc holding_step (store_binding lc le r ?y)"
    by (rule tracks_store [OF assms x(1,2) same tomb valid]) (use x(4) in blast)+
qed

lemma tracks_socket_retirement:
  assumes "launch_codec_ok lc"
  shows "tracks lc holding_step (begin_artifact_socket_retirement lc le key binding)"
    "tracks lc holding_step (finish_artifact_socket_retirement lc le key binding)"
proof -
  show "tracks lc holding_step (begin_artifact_socket_retirement lc le key binding)"
    unfolding begin_artifact_socket_retirement_def
  proof (intro op_rules)
    fix r x
    assume x: "launch_slot_ok r" "sl_artifact_binding r = Some x" "\<not> creation_pending x \<and> is_some (ab_owner x)"
      "same_artifact x binding \<and> ab_cleanup_quarantine x = None \<and> is_some (ab_socket x)"
      "\<not> (ab_socket_retired x \<or> ab_socket_retire_pending x)"
    then show "tracks lc holding_step (store_binding lc le r (x\<lparr>ab_socket_retire_pending := True\<rparr>))"
      by (intro tracks_store [OF assms x(1,2)]) (simp_all add: retire_valid)
  qed
  have socket: "is_some (ab_socket x)" if "binding_validate x" "ab_socket_retire_pending x" for x
    using that by (simp add: binding_validate_def)
  show "tracks lc holding_step (finish_artifact_socket_retirement lc le key binding)"
    unfolding finish_artifact_socket_retirement_def
    by (intro op_rules; (rule tracks_store [OF assms], assumption, assumption); simp add: retire_valid socket)
qed

lemma tracks_unlink:
  assumes "launch_codec_ok lc"
  shows "tracks lc holding_step (begin_artifact_unlink lc le key binding step)"
    "tracks lc holding_step (finish_artifact_unlink lc le key binding step)"
    "tracks lc holding_step (finish_artifact_cleanup lc le key binding)"
proof -
  show "tracks lc holding_step (finish_artifact_cleanup lc le key binding)"
    unfolding finish_artifact_cleanup_def
    by (intro op_rules; (rule tracks_store [OF assms], assumption, assumption); simp add: finish_cleanup_valid)
  show "tracks lc holding_step (finish_artifact_unlink lc le key binding step)"
    unfolding finish_artifact_unlink_def
  proof (intro op_rules)
    fix r x y
    assume x: "launch_slot_ok r" "sl_artifact_binding r = Some x" "is_tombstone (sl_state r)"
      "is_some (ab_cleanup_quarantine x) \<and> \<not> ab_cleanup_completed x"
      and y: "record_removal step (x\<lparr>ab_cleanup_unlink_pending := None\<rparr>) = Some y"
    have "same_artifact x y \<and> ab_socket_retire_pending y = ab_socket_retire_pending x"
      using y by (cases step) (auto split: if_splits)
    then show "tracks lc holding_step (store_binding lc le r y)"
      using x unlink_valid [OF _ _ _ y] by (intro tracks_store [OF assms x(1,2)]) auto
  qed
  show "tracks lc holding_step (begin_artifact_unlink lc le key binding step)"
    unfolding begin_artifact_unlink_def Let_def
    by (intro op_rules tracks_option; (rule tracks_store [OF assms], assumption, assumption); simp)
qed

lemma tracks_evidence:
  "(\<And>v. x = Present v \<Longrightarrow> tracks lc R (f v)) \<Longrightarrow> tracks lc R m \<Longrightarrow> tracks lc R n \<Longrightarrow>
     tracks lc R (case x of Present v \<Rightarrow> f v | Absent \<Rightarrow> m | Unavailable \<Rightarrow> n)"
  by (cases x) auto

lemma tracks_absence:
  assumes "launch_codec_ok lc"
  shows "tracks lc holding_step (finish_artifact_logical_absence lc le key binding)"
    "tracks lc holding_step (finish_artifact_create_pending_absence lc le key binding)"
proof -
  show "tracks lc holding_step (finish_artifact_logical_absence lc le key binding)"
    unfolding finish_artifact_logical_absence_def Let_def
  proof (intro op_rules tracks_bind_any [OF tracks_observers(1)] tracks_evidence)
    fix r x
    let ?q = "case ab_cleanup_quarantine x of Some q \<Rightarrow> q | None \<Rightarrow> quarantine_leaf lc x"
    let ?y = "completed_removal (x\<lparr>ab_cleanup_quarantine := Some ?q, ab_cleanup_unlink_pending := None,
      ab_socket_retire_pending := False, ab_socket_retired := (ab_socket_retired x \<or> is_some (ab_socket x))\<rparr>)"
    assume x: "launch_slot_ok r" "sl_artifact_binding r = Some x" "is_tombstone (sl_state r)" "\<not> creation_pending x"
      "validate_managed_artifact_leaf ?q"
    have valid: "binding_validate ?y" if b: "binding_validate x"
      using binding_validate_cleanup(1) [OF b] x(5)
      by (intro logical_absence_valid [OF b]) (auto simp: quarantine_leaf_differs split: option.splits)
    have same: "same_artifact x ?y" by simp
    have tomb: "ab_cleanup_quarantine ?y = None \<or> is_tombstone (sl_state r)" using x(3) by blast
    show "tracks lc holding_step (store_binding lc le r ?y)"
      by (rule tracks_store [OF assms x(1,2) same tomb valid]) (use x(4) in blast)+
  qed
  show "tracks lc holding_step (finish_artifact_create_pending_absence lc le key binding)"
    unfolding finish_artifact_create_pending_absence_def
  proof (intro op_rules tracks_bind_any [OF tracks_observers(1)] tracks_evidence)
    fix r x
    assume x: "launch_slot_ok r" "sl_artifact_binding r = Some x" "is_tombstone (sl_state r)"
      and b: "ab_private_directory x = None \<and> ab_runner x = None \<and> ab_socket x = None
        \<and> is_some (ab_cleanup_quarantine x) \<and> ab_cleanup_unlink_pending x = None
        \<and> \<not> ab_socket_retire_pending x \<and> \<not> ab_socket_retired x"
    have same: "same_artifact x (completed_removal x)" by simp
    have tomb: "ab_cleanup_quarantine (completed_removal x) = None \<or> is_tombstone (sl_state r)" using x(3) by blast
    have valid: "binding_validate (completed_removal x)" if "binding_validate x"
      using b by (intro completed_removal_valid [OF that]) simp_all
    have "is_some (ab_cleanup_quarantine x)" "ab_socket_retire_pending (completed_removal x) = ab_socket_retire_pending x"
      using b by simp_all
    then show "tracks lc holding_step (store_binding lc le r (completed_removal x))"
      by (intro tracks_store [OF assms x(1,2) same tomb valid]) auto
  qed
qed

lemma acknowledge_step:
  assumes "launch_slot_ok r" "is_tombstone (sl_state r)" "sl_artifact_binding r = Some x" "ab_cleanup_completed x"
    "is_some (ab_cleanup_quarantine x)" "validate_transition r (r\<lparr>sl_artifact_binding := None\<rparr>)"
  shows "launch_slot_ok (r\<lparr>sl_artifact_binding := None\<rparr>) \<and> drop_step r (r\<lparr>sl_artifact_binding := None\<rparr>)"
proof -
  have "launch_slot_ok (r\<lparr>sl_artifact_binding := None\<rparr>)" "sl_state r \<noteq> SlotVacant"
    using assms(1,2) by (auto simp: launch_slot_ok_def validate_slot_record_def state_nonce_def split: launch_slot_state.splits)
  moreover have "discipline r (r\<lparr>sl_artifact_binding := None\<rparr>)"
    using assms(2,3,5) by (auto simp: discipline_def unresolved_def)
  ultimately show ?thesis using assms by (simp add: drop_step_def live_step_def slot_step_def)
qed

lemma tracks_acknowledge:
  assumes "launch_codec_ok lc"
  shows "tracks lc drop_step (acknowledge_artifact_cleanup lc le key binding)"
  unfolding acknowledge_artifact_cleanup_def
proof (intro op_rules tracks_replace_slot [OF assms])
  fix r x
  assume x: "launch_slot_ok r" "sl_artifact_binding r = Some x"
    and finished: "is_tombstone (sl_state r) \<and> is_some (ab_cleanup_quarantine x) \<and> ab_cleanup_completed x"
    and t: "validate_transition r (r\<lparr>sl_artifact_binding := None\<rparr>)"
  show "launch_slot_ok (r\<lparr>sl_artifact_binding := None\<rparr>) \<and> drop_step r (r\<lparr>sl_artifact_binding := None\<rparr>)"
    using acknowledge_step [OF x(1) _ x(2) _ _ t] finished by blast
qed

section \<open>Process operations move slots by steps\<close>

lemma state_change_ok:
  assumes "launch_slot_ok r" "sl_state r \<noteq> SlotVacant" "s \<noteq> SlotVacant" "state_nonce s = state_nonce (sl_state r)"
    and "is_tombstone s \<or> \<not> is_tombstone (sl_state r)"
  shows "launch_slot_ok (r\<lparr>sl_state := s\<rparr>)"
  using assms
  by (auto simp: launch_slot_ok_def validate_slot_record_def is_none_or_def state_nonce_def split: option.splits launch_slot_state.splits)

lemma tracks_state_change:
  assumes "launch_codec_ok lc" "s \<noteq> SlotVacant" "state_nonce s = state_nonce (sl_state r)"
    and "\<not> is_tombstone (sl_state r)"
    and "\<And>n i released. sl_state r = IdentityDurable n i released \<Longrightarrow> s = CleanupPending n i released"
    and "\<And>n i released. sl_state r = CleanupPending n i released \<Longrightarrow> \<exists>t. s = ResolvedTombstone n (Some i) t"
  shows "tracks lc holding_step (registry_replace_slot lc le r (r\<lparr>sl_state := s\<rparr>))"
proof (rule tracks_replace_slot [OF assms(1)])
  assume r: "launch_slot_ok r" "validate_transition r (r\<lparr>sl_state := s\<rparr>)"
  have vacant: "sl_state r \<noteq> SlotVacant" using assms(2,3) by (auto simp: state_nonce_def split: launch_slot_state.splits)
  then have "launch_slot_ok (r\<lparr>sl_state := s\<rparr>)" using state_change_ok [OF r(1)] assms(2-4) by blast
  moreover have "discipline r (r\<lparr>sl_state := s\<rparr>)"
    using assms(4-6) by (auto simp: discipline_def unresolved_def)
  ultimately show "launch_slot_ok (r\<lparr>sl_state := s\<rparr>) \<and> holding_step r (r\<lparr>sl_state := s\<rparr>)"
    using r vacant by (simp add: holding_step_def live_step_def slot_step_def)
qed

lemma tracks_record_identity:
  assumes "launch_codec_ok lc"
  shows "tracks lc holding_step (record_identity lc le intent registration)"
proof (cases "sl_state intent")
  case (IntentDurable nonce created)
  let ?state = "IdentityDurable nonce (gr_identity registration) True"
  have replace: "tracks lc holding_step (registry_replace_slot lc le intent
      \<lparr>sl_schema_version = SLOT_SCHEMA_VERSION, sl_slot = sl_slot intent, sl_generation = sl_generation intent,
       sl_owner = sl_owner intent, sl_artifact_binding = sl_artifact_binding intent, sl_state = ?state\<rparr>)"
  proof (cases "launch_slot_ok intent")
    case True
    then have "\<lparr>sl_schema_version = SLOT_SCHEMA_VERSION, sl_slot = sl_slot intent, sl_generation = sl_generation intent,
       sl_owner = sl_owner intent, sl_artifact_binding = sl_artifact_binding intent, sl_state = ?state\<rparr>
      = intent\<lparr>sl_state := ?state\<rparr>" by (cases intent) (simp add: launch_slot_ok_def validate_slot_record_def)
    then show ?thesis
      using IntentDurable tracks_state_change [OF assms, of ?state intent] by (simp add: state_nonce_def)
  next
    case False
    then show ?thesis by (intro tracks_replace_slot [OF assms]) blast
  qed
  show ?thesis
    unfolding record_identity_def IntentDurable Let_def launch_slot_state.case
    by (intro tracks_bind_ensure tracks_bind_any [OF tracks_read_registration] tracks_bind_any [OF replace] tracks_return)
qed (simp_all add: record_identity_def tracks_fail)

lemma tracks_gate [tracks_rules]:
  "tracks lc R (gate_register lc le slot generation nonce pid)" "tracks lc R (gate_may_exec lc le slot nonce i)"
  unfolding gate_register_def gate_may_exec_def Let_def
  by (intro tracks_bind_read tracks_bind_ensure tracks_bind_any [OF tracks_observers(2)] tracks_evidence tracks_fail
      tracks_bind_any [OF tracks_replace_registration] tracks_return tracks_ensure)+

lemma tracks_reconcile_intent: "tracks lc R (reconcile_intent lc' le r)"
  unfolding reconcile_intent_def
  by (cases "sl_state r")
    (auto intro!: tracks_return tracks_bind_any [OF tracks_attempt [OF tracks_plain_call]]
      tracks_bind_any [OF tracks_attempt [OF tracks_read_registration]] tracks_bind_any [OF tracks_observers(4)]
      split: sum.splits)

lemma tracks_persist_tombstone:
  assumes "launch_codec_ok lc" "state_nonce (sl_state r) = Some nonce" "\<not> is_tombstone (sl_state r)"
    and "\<And>n i released. sl_state r \<noteq> IdentityDurable n i released"
    and "\<And>n i released. sl_state r = CleanupPending n i released \<Longrightarrow> identity = Some i"
  shows "tracks lc holding_step (persist_tombstone lc le r nonce identity)"
proof -
  have "tracks lc holding_step (registry_replace_slot lc le r (r\<lparr>sl_state := ResolvedTombstone nonce identity t\<rparr>))" for t
    using assms by (intro tracks_state_change [OF assms(1)]) (auto simp: state_nonce_def)
  then show ?thesis
    unfolding persist_tombstone_def
    by (intro tracks_bind_any [OF tracks_next_call] tracks_bind_ensure) (intro tracks_bind_any tracks_return)
qed

lemma tracks_terminate:
  assumes "launch_codec_ok lc" "sl_state r = CleanupPending nonce identity released"
  shows "tracks lc holding_step (terminate_identity lc le r nonce identity)"
proof -
  have tomb: "tracks lc holding_step (persist_tombstone lc le r nonce (Some identity))"
    using assms by (intro tracks_persist_tombstone) (auto simp: state_nonce_def)
  show ?thesis
    unfolding terminate_identity_def
    by (intro tracks_bind_any [OF tracks_observers(3)] tracks_bind_any [OF tracks_observers(5)]
        tracks_bind_any [OF tracks_plain_call] tracks_bind_any [OF tracks_observers(4)] tracks_evidence tracks_return tomb)
qed

lemma tracks_cleanup_process:
  assumes "launch_codec_ok lc"
    and "sl_state r = IdentityDurable nonce identity released \<or> sl_state r = CleanupPending nonce identity released"
  shows "tracks lc holding_step (cleanup_process lc le r nonce identity released)"
proof -
  let ?p = "r\<lparr>sl_state := CleanupPending nonce identity released\<rparr>"
  have "tracks lc holding_step (registry_replace_slot lc le r ?p)" if "r \<noteq> ?p"
    using that assms(2) by (intro tracks_state_change [OF assms(1)]) (auto simp: state_nonce_def)
  moreover have "tracks lc holding_step (terminate_identity lc le ?p nonce identity)"
    by (rule tracks_terminate [OF assms(1)]) simp
  ultimately show ?thesis
    unfolding cleanup_process_def Let_def
    by (intro tracks_bind_any tracks_if) (auto intro: tracks_return)
qed

lemma tracks_cleanup:
  assumes "launch_codec_ok lc"
  shows "tracks lc holding_step (cleanup lc le slot generation)"
  unfolding cleanup_def
proof (intro tracks_locked_slot)
  fix r :: launch_slot
  have intent: "tracks lc holding_step (rbind (reconcile_intent lc le r) (\<lambda>outcome.
      if outcome = OutcomeAbsent then persist_tombstone lc le r n None else rreturn outcome))"
    if "sl_state r = IntentDurable n t" for n t
    using that
    by (intro tracks_bind_any [OF tracks_reconcile_intent] tracks_if tracks_return tracks_persist_tombstone [OF assms])
      (auto simp: state_nonce_def)
  show "tracks lc holding_step (case sl_state r of
       IdentityDurable nonce identity released \<Rightarrow> cleanup_process lc le r nonce identity released
     | CleanupPending nonce identity released \<Rightarrow> cleanup_process lc le r nonce identity released
     | ResolvedTombstone _ _ _ \<Rightarrow> rreturn OutcomeResolvedTombstone
     | IntentDurable nonce _ \<Rightarrow>
         rbind (reconcile_intent lc le r) (\<lambda>outcome.
         if outcome = OutcomeAbsent then persist_tombstone lc le r nonce None else rreturn outcome)
     | SlotVacant \<Rightarrow> rreturn OutcomeAbsent)"
    by (cases "sl_state r") (auto intro: intent tracks_return tracks_cleanup_process [OF assms])
qed

lemma tracks_drop_reservation:
  "launch_codec_ok lc \<Longrightarrow> tracks lc holding_step (drop_reservation lc le res)"
  by (auto simp: drop_reservation_def split: option.splits
      intro!: tracks_return tracks_bind_any [OF tracks_attempt [OF tracks_cleanup]])

lemma tracks_reconcile_slot:
  assumes "launch_codec_ok lc"
  shows "tracks lc holding_step (reconcile_slot lc le slot)"
proof -
  have "tracks lc holding_step (rbind (attempt (cleanup lc le slot g)) (\<lambda>outcome. rreturn (h outcome)))" for g and h :: "_ \<Rightarrow> 'x"
    by (intro tracks_bind_any [OF tracks_attempt [OF tracks_cleanup [OF assms]]] tracks_return)
  then show ?thesis
    unfolding reconcile_slot_def Let_def
    by (intro tracks_bind_any [OF tracks_read_slot])
      (auto intro!: tracks_return split: sum.splits launch_slot_state.splits)
qed

lemma tracks_reconcile_slots:
  "launch_codec_ok lc \<Longrightarrow> tracks lc holding_step (reconcile_slots lc le slots)"
  by (induction slots) (auto intro!: tracks_return tracks_bind_any tracks_reconcile_slot)

lemma tracks_reconcile_all: "launch_codec_ok lc \<Longrightarrow> tracks lc holding_step (reconcile_all lc le)"
  using tracks_reconcile_slots by (simp add: tracks_def reconcile_all_def)

lemma tracks_find_owner_slot: "tracks lc R (find_owner_slot lc le owner slots matched)"
  by (induction slots arbitrary: matched)
    (auto intro!: tracks_return tracks_bind_any [OF tracks_read_slot] split: sum.splits)

lemma tracks_reconcile_owner:
  assumes "launch_codec_ok lc"
  shows "tracks lc holding_step (reconcile_owner lc le owner)"
proof -
  have find: "tracks lc holding_step (\<lambda>s. find_owner_slot lc le owner (slot_numbers s) None s)"
    using tracks_find_owner_slot by (simp add: tracks_def)
  show ?thesis
    unfolding reconcile_owner_def Let_def
    by (intro tracks_bind_ensure tracks_bind_any [OF find])
      (auto intro!: tracks_return tracks_bind_any [OF tracks_attempt [OF tracks_cleanup [OF assms]]]
        split: sum.splits option.splits launch_slot_state.splits)
qed

text \<open>The scan vacates slots whose tombstone has expired.\<close>

lemma vacate_step:
  assumes "launch_slot_ok r" "is_tombstone (sl_state r)" "sl_artifact_binding r = None" "validate_transition r (vacated r)"
  shows "launch_slot_ok (vacated r) \<and> holding_step r (vacated r)"
proof -
  have "launch_slot_ok (vacated r)" using assms(1,3)
    by (auto simp: vacated_def launch_slot_ok_def validate_slot_record_def state_nonce_def)
  moreover have "discipline r (vacated r)" using assms(2,3)
    by (cases "sl_state r") (auto simp: discipline_def unresolved_def vacated_def)
  ultimately show ?thesis using assms by (auto simp: holding_step_def live_step_def slot_step_def)
qed

lemma tracks_scan_slot:
  assumes "launch_codec_ok lc"
  shows "tracks lc holding_step (scan_slot lc le now owner slot acc)"
proof -
  have vacate: "tracks lc holding_step (registry_replace_slot lc le r (vacated r))"
    if "is_tombstone (sl_state r)" "sl_artifact_binding r = None" for r
    using that vacate_step by (intro tracks_replace_slot [OF assms]) blast
  have "tracks lc holding_step (rbind (rensure b OwnerTaken) (\<lambda>_.
       case sl_state r of
         SlotVacant \<Rightarrow> rreturn (get_or_insert r acc)
       | ResolvedTombstone _ _ resolved \<Rightarrow>
           if expired now resolved \<and> sl_artifact_binding r = None
           then rbind (registry_replace_slot lc le r (vacated r)) (\<lambda>_. rreturn (get_or_insert (vacated r) acc))
           else rreturn (acc\<lparr>as_unknown := as_unknown acc + 1\<rparr>)
       | _ \<Rightarrow> rreturn (acc\<lparr>as_unknown := as_unknown acc + 1\<rparr>)))" for b r
    by (intro tracks_bind_ensure, cases "sl_state r")
      (auto intro!: tracks_return tracks_if tracks_bind_any [OF vacate])
  then show ?thesis
    unfolding scan_slot_def
    by (intro tracks_bind_any [OF tracks_read_slot]) (auto intro!: tracks_return split: sum.splits)
qed

lemma tracks_scan_slots:
  "launch_codec_ok lc \<Longrightarrow> tracks lc holding_step (scan_slots lc le now owner slots acc)"
  by (induction slots arbitrary: acc) (auto intro!: tracks_return tracks_bind_any tracks_scan_slot)

section \<open>Owners and allocation\<close>

lemma live_step_owner: "live_step a b \<Longrightarrow> sl_owner b = sl_owner a \<or> sl_owner b = None"
  by (auto simp: live_step_def slot_step_def validate_transition_def owner_stable_def
      split: launch_slot_state.splits)

lemma live_steps_owner: "live_step\<^sup>*\<^sup>* a b \<Longrightarrow> sl_owner b = sl_owner a \<or> sl_owner b = None"
proof (induction rule: rtranclp_induct)
  case (step y z)
  then show ?case using live_step_owner [of y z] by metis
qed simp

lemma holding_moves: "moves lc holding_step s t \<Longrightarrow> moves lc live_step s t"
  by (erule moves_mono) (simp add: holding_step_def)

lemma moves_owner:
  assumes "moves lc live_step s t" and "slot_view lc s slot = Some r"
  shows "\<exists>r'. slot_view lc t slot = Some r' \<and> (sl_owner r' = sl_owner r \<or> sl_owner r' = None)"
proof (cases "rg_slots t slot = rg_slots s slot")
  case True
  then show ?thesis using assms(2) by (auto simp: slot_view_def)
next
  case False
  then show ?thesis using assms live_steps_owner by (force simp: moves_def)
qed

lemma moves_owner_back:
  assumes "moves lc live_step s t" and "slot_view lc t slot = Some r'" and "sl_owner r' = Some o'"
  shows "\<exists>r. slot_view lc s slot = Some r \<and> sl_owner r = Some o'"
proof (cases "rg_slots t slot = rg_slots s slot")
  case True
  then show ?thesis using assms(2,3) by (auto simp: slot_view_def)
next
  case False
  then show ?thesis using assms live_steps_owner by (force simp: moves_def)
qed

lemma tracks_run: "tracks lc R m \<Longrightarrow> m s = (r, s') \<Longrightarrow> moves lc R s s'"
  by (metis tracks_def snd_conv)

lemma scan_slot_post:
  assumes "launch_codec_ok lc" and "scan_slot lc le now owner slot acc s = (Inr acc', s')"
  shows "(\<forall>v. as_selected acc' = Some v \<longrightarrow> as_selected acc = Some v \<or> sl_state v = SlotVacant)
    \<and> as_unreadable acc \<le> as_unreadable acc'
    \<and> (owner \<noteq> None \<and> as_unreadable acc' = as_unreadable acc \<longrightarrow>
        (\<exists>r. slot_view lc s' slot = Some r \<and> sl_owner r \<noteq> owner))"
proof -
  let ?s1 = "s\<lparr>rg_calls := Suc (rg_calls s)\<rparr>"
  obtain read where read: "read_valid_slot lc le slot s = (read, ?s1)"
    using read_valid_slot_state by (metis surj_pair)
  have run: "scan_slot lc le now owner slot acc s = (case read of
         Inl _ \<Rightarrow> rreturn (acc\<lparr>as_unknown := as_unknown acc + 1, as_unreadable := as_unreadable acc + 1\<rparr>)
       | Inr r \<Rightarrow>
           rbind (rensure (owner = None \<or> sl_owner r \<noteq> owner) OwnerTaken) (\<lambda>_.
             case sl_state r of
               SlotVacant \<Rightarrow> rreturn (get_or_insert r acc)
             | ResolvedTombstone _ _ resolved \<Rightarrow>
                 if expired now resolved \<and> sl_artifact_binding r = None
                 then rbind (registry_replace_slot lc le r (vacated r)) (\<lambda>_. rreturn (get_or_insert (vacated r) acc))
                 else rreturn (acc\<lparr>as_unknown := as_unknown acc + 1\<rparr>)
             | _ \<Rightarrow> rreturn (acc\<lparr>as_unknown := as_unknown acc + 1\<rparr>))) ?s1"
    by (simp add: scan_slot_def read_slot_def rbind_def attempt_def read)
  show ?thesis
  proof (cases read)
    case (Inl e)
    then show ?thesis using assms(2) run by (auto simp: rreturn_def)
  next
    case (Inr r)
    then have view: "slot_view lc s slot = Some r" using read_valid_slot_Inr [OF read [unfolded Inr]] by blast
    have owner: "owner = None \<or> sl_owner r \<noteq> owner"
      using assms(2) run Inr by (auto split: if_splits)
    have acc: "acc' = get_or_insert r acc \<and> sl_state r = SlotVacant \<or> acc' = get_or_insert (vacated r) acc
        \<or> acc' = acc\<lparr>as_unknown := as_unknown acc + 1\<rparr>"
      using assms(2) run Inr
      by (auto simp: rreturn_def rbind_Inr split: launch_slot_state.splits if_splits)
    obtain r' where "slot_view lc s' slot = Some r'" "sl_owner r' = sl_owner r \<or> sl_owner r' = None"
      using moves_owner [OF holding_moves [OF tracks_run [OF tracks_scan_slot [OF assms(1)] assms(2)]] view] by blast
    then have "owner \<noteq> None \<longrightarrow> (\<exists>r. slot_view lc s' slot = Some r \<and> sl_owner r \<noteq> owner)" using owner by metis
    moreover have "as_unreadable acc' = as_unreadable acc" using acc by (auto simp: get_or_insert_def split: option.splits)
    moreover have "as_selected acc' = Some v \<longrightarrow> as_selected acc = Some v \<or> sl_state v = SlotVacant" for v
      using acc by (auto simp: get_or_insert_def vacated_def split: option.splits)
    ultimately show ?thesis by auto
  qed
qed

lemma scan_slots_post:
  assumes "launch_codec_ok lc" and "scan_slots lc le now owner slots acc s = (Inr acc', s')"
  shows "(\<forall>v. as_selected acc' = Some v \<longrightarrow> as_selected acc = Some v \<or> sl_state v = SlotVacant)
    \<and> as_unreadable acc \<le> as_unreadable acc'
    \<and> (owner \<noteq> None \<and> as_unreadable acc' = as_unreadable acc \<longrightarrow>
        (\<forall>slot\<in>set slots. \<exists>r. slot_view lc s' slot = Some r \<and> sl_owner r \<noteq> owner))"
  using assms(2)
proof (induction slots arbitrary: acc s)
  case Nil
  then show ?case by (simp add: rreturn_def)
next
  case (Cons slot slots)
  obtain acc1 s1 where 1: "scan_slot lc le now owner slot acc s = (Inr acc1, s1)"
    and 2: "scan_slots lc le now owner slots acc1 s1 = (Inr acc', s')"
    using Cons.prems by (auto simp: rbind_Inr)
  note post1 = scan_slot_post [OF assms(1) 1] and post2 = Cons.IH [OF 2]
  have first: "\<exists>r. slot_view lc s' slot = Some r \<and> sl_owner r \<noteq> owner"
    if "owner \<noteq> None" "as_unreadable acc' = as_unreadable acc"
  proof -
    note some = that(1)
    have "as_unreadable acc1 = as_unreadable acc" using that(2) post1 post2 by linarith
    then obtain r where r: "slot_view lc s1 slot = Some r" "sl_owner r \<noteq> owner" using post1 some by auto
    from moves_owner [OF holding_moves [OF tracks_run [OF tracks_scan_slots [OF assms(1)] 2]] r(1)] r(2) some
    show ?thesis by metis
  qed
  have rest: "as_unreadable acc' = as_unreadable acc \<Longrightarrow> as_unreadable acc' = as_unreadable acc1"
    using post1 post2 by linarith
  show ?case
    using post1 post2 first rest by auto
qed

lemma slot_step_intent:
  assumes "launch_slot_ok v" "sl_state v = SlotVacant" "validate_transition v intent"
    and "intent = \<lparr>sl_schema_version = SLOT_SCHEMA_VERSION, sl_slot = sl_slot v, sl_generation = generation,
      sl_owner = owner, sl_artifact_binding = None, sl_state = IntentDurable nonce now\<rparr>"
    and "nonce \<noteq> 0" "is_none_or owner owner_tag_validate"
  shows "launch_slot_ok intent \<and> slot_step v intent"
proof -
  have "launch_slot_ok intent" using assms(4-6) by (simp add: launch_slot_ok_def validate_slot_record_def state_nonce_def is_nil_def)
  moreover have "discipline v intent" using assms(2,4) by (simp add: discipline_def unresolved_def)
  ultimately show ?thesis using assms(1,3) by (simp add: slot_step_def)
qed

text \<open>An allocation first moves slots as other operations do, and then takes one slot for an owner that no
  slot has.\<close>

definition claims_slot ::
    "launch_codec \<Rightarrow> managed_owner_tag option \<Rightarrow> registry \<Rightarrow> registry \<Rightarrow> bool" where
  "claims_slot lc owner t s' \<longleftrightarrow> rg_slot_count s' = rg_slot_count t \<and>
     (\<exists>v intent. slot_view lc t (sl_slot v) = Some v \<and> sl_state v = SlotVacant \<and> slot_view lc s' (sl_slot v) = Some intent
       \<and> slot_step v intent \<and> sl_owner intent = owner
       \<and> (\<forall>slot. slot \<noteq> sl_slot v \<longrightarrow> rg_slots s' slot = rg_slots t slot)
       \<and> (owner \<noteq> None \<longrightarrow> (\<forall>slot\<in>set (slot_numbers t). \<exists>r. slot_view lc t slot = Some r \<and> sl_owner r \<noteq> owner)))"

lemma slot_numbers_cong: "rg_slot_count s = rg_slot_count t \<Longrightarrow> slot_numbers s = slot_numbers t"
  by (simp add: slot_numbers_def)

lemma replace_registration_slots:
  assumes "replace_registration lc le slot next s = (r, s')"
  shows "rg_slots s' = rg_slots s \<and> rg_slot_count s' = rg_slot_count s"
proof -
  have "moves lc (\<lambda>_ _. False) s s'" using tracks_run [OF tracks_replace_registration assms] .
  then have count: "rg_slot_count s' = rg_slot_count s" by (simp add: moves_def)
  have reads: "rg_slots (snd (read_registration lc le slot t)) = rg_slots t" for t
    by (auto simp: read_registration_def plain_call_def rbind_def next_call_def rreturn_def rfail_def rsome_def
        split: option.splits)
  have writes: "rg_slots (snd (atomic_replace_registration lc le slot next t)) = rg_slots t" for t
    by (auto simp: atomic_replace_registration_def rbind_def next_call_def rfail_def split: sum.splits)
  have "rg_slots (snd (replace_registration lc le slot next s)) = rg_slots s"
    unfolding replace_registration_def
    using reads writes by (auto simp: rbind_def split: prod.splits sum.splits) (metis snd_conv)+
  then show ?thesis using assms count by simp
qed

lemma claim_vacant_effect:
  assumes ok: "launch_codec_ok lc" "\<And>k. le_new_uuid le k \<noteq> 0" "is_none_or owner owner_tag_validate"
    and v: "sl_state v = SlotVacant" and run: "claim_vacant lc le now owner v generation t = (r, s')"
  shows "rg_slot_count s' = rg_slot_count t \<and> (rg_slots s' = rg_slots t \<or>
    (\<exists>intent. slot_view lc t (sl_slot v) = Some v \<and> slot_view lc s' (sl_slot v) = Some intent \<and> slot_step v intent
       \<and> sl_owner intent = owner \<and> (\<forall>slot. slot \<noteq> sl_slot v \<longrightarrow> rg_slots s' slot = rg_slots t slot)))"
proof -
  let ?t1 = "t\<lparr>rg_calls := Suc (rg_calls t)\<rparr>"
  define intent where "intent = \<lparr>sl_schema_version = SLOT_SCHEMA_VERSION, sl_slot = sl_slot v, sl_generation = generation,
    sl_owner = owner, sl_artifact_binding = None, sl_state = IntentDurable (le_new_uuid le (rg_calls t)) now\<rparr>"
  define reg where "reg = \<lparr>rr_schema_version = GATE_SCHEMA_VERSION, rr_slot = sl_slot v, rr_generation = generation,
    rr_registration = (None :: gate_registration option)\<rparr>"
  obtain r2 t2 where 2: "replace_registration lc le (sl_slot v) reg ?t1 = (r2, t2)" by fastforce
  have t2: "rg_slots t2 = rg_slots t" "rg_slot_count t2 = rg_slot_count t"
    using replace_registration_slots [OF 2] by simp_all
  obtain r3 t3 where 3: "registry_replace_slot lc le v intent t2 = (r3, t3)" by fastforce
  have fin: "rg_slots s' = rg_slots t2 \<and> rg_slot_count s' = rg_slot_count t2
      \<or> rg_slots s' = rg_slots t3 \<and> rg_slot_count s' = rg_slot_count t3"
    using run 2 3
    by (auto simp: claim_vacant_def intent_def reg_def rbind_def plain_call_def next_call_def rreturn_def Let_def
        split: sum.splits prod.splits if_splits)
  from registry_replace_slot_effect [OF 3] show ?thesis
  proof (elim disjE exE conjE)
    fix k assume "t3 = t2\<lparr>rg_calls := k\<rparr>"
    then show ?thesis using fin t2 by auto
  next
    fix bytes k
    assume e: "validate_transition v intent" "slot_view lc t2 (sl_slot v) = Some v" "launch_slot_ok v"
      "json_line (lc_slot_to_vec lc intent) = Inr bytes"
      "t3 = t2\<lparr>rg_slots := (rg_slots t2)(sl_slot v := Some bytes), rg_calls := k\<rparr>"
    have step: "launch_slot_ok intent" "slot_step v intent"
      using slot_step_intent [OF e(3) v e(1) intent_def] ok(2,3) by auto
    have "slot_view lc t3 (sl_slot v) = Some intent"
      using json_line_Inr [OF ok(1) e(4) step(1)] by (simp add: e(5) slot_view_def intent_def)
    moreover have "slot_view lc t (sl_slot v) = Some v" using e(2) t2 by (simp add: slot_view_def)
    moreover have "slot_view lc s' (sl_slot v) = slot_view lc t3 (sl_slot v)" if "rg_slots s' = rg_slots t3"
      using that by (simp add: slot_view_def)
    moreover have "sl_owner intent = owner" by (simp add: intent_def)
    ultimately show ?thesis using fin e(5) t2 step(2) by auto
  qed
qed

lemma allocate_effect:
  assumes ok: "launch_codec_ok lc" "\<And>k. le_new_uuid le k \<noteq> 0"
    and run: "allocate_intent lc le now owner s = (r, s')"
  shows "\<exists>t. moves lc holding_step s t
    \<and> (rg_slots s' = rg_slots t \<and> rg_slot_count s' = rg_slot_count t \<or> claims_slot lc owner t s')"
proof (cases "is_none_or owner owner_tag_validate \<and> \<not> le_fails le (rg_calls s)")
  case False
  then have "s' = s \<or> s' = s\<lparr>rg_calls := Suc (rg_calls s)\<rparr>"
    using run by (auto simp: allocate_intent_def plain_call_def rbind_def next_call_def split: if_splits)
  then show ?thesis by (intro exI [of _ s]) auto
next
  case True
  let ?s1 = "s\<lparr>rg_calls := Suc (rg_calls s)\<rparr>"
  have lock: "plain_call le RegistryBusy s = (Inr (), ?s1)" using True by (simp add: plain_call_Inr)
  obtain res t where scan: "scan_slots lc le now owner (slot_numbers ?s1)
      \<lparr>as_selected = None, as_unknown = 0, as_unreadable = 0\<rparr> ?s1 = (res, t)" by fastforce
  have mv: "moves lc holding_step s t"
    using tracks_run [OF tracks_scan_slots [OF ok(1)] scan] moves_trans [of lc holding_step s ?s1 t]
    by (simp add: moves_same_slots)
  show ?thesis
  proof (cases "\<exists>acc v generation. res = Inr acc \<and> (owner = None \<or> as_unreadable acc = 0) \<and> as_selected acc = Some v
      \<and> checked_add (sl_generation v) 1 = Some generation")
    case False
    then have "s' = t" using run True scan
      by (cases res) (auto simp: allocate_intent_def lock rbind_def rsome_def rfail_def rreturn_def
          split: if_splits option.splits)
    then show ?thesis using mv by blast
  next
    case sel: True
    then obtain acc v generation where v: "res = Inr acc" "owner = None \<or> as_unreadable acc = 0"
      "as_selected acc = Some v" "checked_add (sl_generation v) 1 = Some generation" by blast
    note post = scan_slots_post [OF ok(1) scan [unfolded v(1)]]
    have vacant: "sl_state v = SlotVacant" using post v(3) by auto
    have "claim_vacant lc le now owner v generation t = (r, s')"
      using run True scan v by (simp add: allocate_intent_def lock rbind_def rsome_def rreturn_def)
    note effect = claim_vacant_effect [OF ok _ vacant this]
    have "owner \<noteq> None \<longrightarrow> (\<forall>slot\<in>set (slot_numbers t). \<exists>r. slot_view lc t slot = Some r \<and> sl_owner r \<noteq> owner)"
      using post v(2) slot_numbers_cong [of t ?s1] mv by (auto simp: moves_def)
    then show ?thesis using effect True mv vacant by (auto simp: claims_slot_def)
  qed
qed

section \<open>Runs of the registry\<close>

inductive registry_step :: "launch_codec \<Rightarrow> registry \<Rightarrow> registry \<Rightarrow> bool" for lc where
  allocates: "\<forall>k. le_new_uuid le k \<noteq> 0 \<Longrightarrow> registry_step lc s (snd (allocate_intent lc le now owner s))"
| begins: "is_some_and res (\<lambda>intent. is_some (sl_owner intent)) \<Longrightarrow>
    registry_step lc s (snd (begin_artifact_creation lc le root leaf res s))"
| creates_directory: "registry_step lc s (snd (finish_artifact_creation lc le d res s))"
| begins_runner: "registry_step lc s (snd (begin_artifact_runner_creation lc le res s))"
| creates_runner: "registry_step lc s (snd (finish_artifact_runner lc le i res s))"
| begins_socket: "registry_step lc s (snd (begin_artifact_socket_creation lc le res s))"
| creates_socket: "registry_step lc s (snd (finish_artifact_socket lc le i res s))"
| begins_owner: "registry_step lc s (snd (begin_artifact_owner_creation lc le res s))"
| creates_owner: "registry_step lc s (snd (finish_artifact_owner lc le i res s))"
| registers: "registry_step lc s (snd (gate_register lc le slot generation nonce pid s))"
| releases: "registry_step lc s (snd (record_identity lc le intent registration s))"
| retires: "registry_step lc s (snd (begin_artifact_socket_retirement lc le key binding s))"
| retired: "registry_step lc s (snd (finish_artifact_socket_retirement lc le key binding s))"
| cleans: "registry_step lc s (snd (cleanup lc le slot generation s))"
| drops: "registry_step lc s (snd (drop_reservation lc le res s))"
| reconciles: "registry_step lc s (snd (reconcile_all lc le s))"
| reconciles_owner: "registry_step lc s (snd (reconcile_owner lc le owner' s))"
| begins_cleanup: "registry_step lc s (snd (begin_artifact_cleanup lc le key binding s))"
| begins_unlink: "registry_step lc s (snd (begin_artifact_unlink lc le key binding step s))"
| unlinks: "registry_step lc s (snd (finish_artifact_unlink lc le key binding step s))"
| completes: "registry_step lc s (snd (finish_artifact_cleanup lc le key binding s))"
| absent_old_boot: "registry_step lc s (snd (finish_artifact_logical_absence lc le key binding s))"
| absent_never_created: "registry_step lc s (snd (finish_artifact_create_pending_absence lc le key binding s))"
| acknowledges: "registry_step lc s (snd (acknowledge_artifact_cleanup lc le key binding s))"

lemma tracks_moves: "tracks lc R m \<Longrightarrow> moves lc R s (snd (m s))"
  by (simp add: tracks_def)

lemma tracks_after: "s' = snd (m s) \<Longrightarrow> tracks lc R m \<Longrightarrow> moves lc R s s'"
  by (simp add: tracks_def)

lemmas tracks_operations = tracks_begin_creation tracks_creation_steps tracks_gate tracks_record_identity
  tracks_socket_retirement tracks_cleanup tracks_drop_reservation tracks_reconcile_all tracks_reconcile_owner
  tracks_begin_cleanup tracks_unlink tracks_absence

text \<open>A step of the registry keeps the artifact bindings, takes a vacant slot, or is an acknowledgement of a cleanup.\<close>

lemma registry_step_cases:
  assumes "launch_codec_ok lc" and "registry_step lc s s'"
  shows "moves lc holding_step s s' \<or> (\<exists>t owner. moves lc holding_step s t \<and> claims_slot lc owner t s')
    \<or> (\<exists>le key binding. s' = snd (acknowledge_artifact_cleanup lc le key binding s))"
  using assms(2)
proof cases
  case (allocates le now owner)
  then have nonnil: "\<And>k. le_new_uuid le k \<noteq> 0" by blast
  obtain r where "allocate_intent lc le now owner s = (r, s')" using allocates(1) by (metis prod.collapse)
  from allocate_effect [OF assms(1) nonnil this] obtain t where t: "moves lc holding_step s t"
    "rg_slots s' = rg_slots t \<and> rg_slot_count s' = rg_slot_count t \<or> claims_slot lc owner t s'" by blast
  have "moves lc holding_step s s'" if "rg_slots s' = rg_slots t \<and> rg_slot_count s' = rg_slot_count t"
    using t(1) that moves_trans moves_same_slots by metis
  then show ?thesis using t by blast
next
  case (acknowledges le key binding)
  then show ?thesis by blast
qed (rule disjI1, erule tracks_after, (rule tracks_operations, ((rule assms(1) | assumption)+)?)[1])+

lemma registry_step_live_cases:
  assumes "launch_codec_ok lc" and "registry_step lc s s'"
  shows "moves lc live_step s s' \<or> (\<exists>t owner. moves lc live_step s t \<and> claims_slot lc owner t s')"
proof -
  have mono: "moves lc holding_step s t \<Longrightarrow> moves lc live_step s t" for t
    by (erule moves_mono) (simp add: holding_step_def)
  have "moves lc drop_step s t \<Longrightarrow> moves lc live_step s t" for t
    by (erule moves_mono) (simp add: drop_step_def)
  then show ?thesis
    using registry_step_cases [OF assms] mono tracks_moves [OF tracks_acknowledge [OF assms(1)]] by blast
qed

lemma claims_moves:
  assumes "claims_slot lc owner t s'"
  shows "moves lc slot_step t s'"
proof -
  obtain v intent where v: "slot_view lc t (sl_slot v) = Some v" "slot_view lc s' (sl_slot v) = Some intent"
    "slot_step v intent" "\<And>slot. slot \<noteq> sl_slot v \<Longrightarrow> rg_slots s' slot = rg_slots t slot"
    "rg_slot_count s' = rg_slot_count t" using assms by (auto simp: claims_slot_def)
  have "slot_step\<^sup>*\<^sup>* v intent" using v(3) by blast
  then show ?thesis unfolding moves_def using v by metis
qed

lemma registry_step_moves:
  assumes "launch_codec_ok lc" and "registry_step lc s s'"
  shows "moves lc slot_step s s'"
proof -
  have mono: "moves lc live_step s t \<Longrightarrow> moves lc slot_step s t" for t
    by (erule moves_mono) (simp add: live_step_def)
  show ?thesis
    using registry_step_live_cases [OF assms] mono claims_moves moves_trans by blast
qed

lemma registry_steps_moves:
  assumes "launch_codec_ok lc" and "(registry_step lc)\<^sup>*\<^sup>* s s'"
  shows "moves lc slot_step s s'"
  using assms(2)
proof (induction rule: rtranclp_induct)
  case (step t u)
  then show ?case using registry_step_moves [OF assms(1)] moves_trans by blast
qed simp

lemma moves_view:
  assumes "moves lc R s s'" and "slot_view lc s slot = Some r"
  shows "\<exists>r'. slot_view lc s' slot = Some r' \<and> R\<^sup>*\<^sup>* r r'"
proof (cases "rg_slots s' slot = rg_slots s slot")
  case True
  then show ?thesis using assms(2) by (auto simp: slot_view_def)
next
  case False
  then show ?thesis using assms by (force simp: moves_def)
qed

lemma slot_steps_history: "slot_step\<^sup>*\<^sup>* a b \<Longrightarrow> slot_history a b"
proof (induction rule: rtranclp_induct)
  case (step b c)
  then have "slot_history b c" by (simp add: slot_step_def transition_history)
  then show ?case using step.IH slot_history_trans by blast
qed simp

section \<open>Invariants of a slot\<close>

definition binding_inv :: "artifact_binding \<Rightarrow> bool" where
  "binding_inv x \<longleftrightarrow>
     (creation_pending x \<longrightarrow> \<not> ab_socket_retire_pending x \<and> ab_cleanup_quarantine x = None)
     \<and> (\<forall>step. cleanup_step_completed step x \<longrightarrow> is_some (ab_cleanup_quarantine x))"

definition slot_inv :: "launch_slot \<Rightarrow> bool" where
  "slot_inv r \<longleftrightarrow> launch_slot_ok r \<and> is_none_or (sl_artifact_binding r) binding_inv"

lemma creation_pending_phase:
  "creation_phase x = creation_phase y \<Longrightarrow> is_some (creation_phase x) \<Longrightarrow> creation_pending x = creation_pending y"
proof -
  assume same: "creation_phase x = creation_phase y" "is_some (creation_phase x)"
  then obtain ph where "creation_phase x = Some ph" "creation_phase y = Some ph" by (auto simp: is_some_iff)
  from this [THEN creation_phase_Some [THEN iffD1]] show ?thesis by (simp add: creation_pending_def)
qed

lemma slot_step_binding:
  assumes "slot_step a b" "sl_artifact_binding a = Some x" "sl_artifact_binding b = Some y"
  shows "binding_step (sl_state a) x y \<or> y = x"
  using assms by (auto simp: slot_step_def validate_transition_def binding_update_def)

lemma binding_step_inv:
  assumes "binding_step state x y" "binding_inv x" "is_some (creation_phase x)"
    and "ab_socket_retire_pending y \<Longrightarrow> ab_socket_retire_pending x \<or> \<not> creation_pending x"
    and "is_some (ab_cleanup_quarantine y) \<Longrightarrow> is_some (ab_cleanup_quarantine x) \<or> \<not> creation_pending x"
  shows "binding_inv y"
proof -
  have pending: "\<not> ab_socket_retire_pending y \<and> ab_cleanup_quarantine y = None" if y: "creation_pending y"
  proof (cases "creation_progress state x y")
    case True
    then show ?thesis by (simp add: creation_progress_def)
  next
    case False
    then have "creation_phase x = creation_phase y"
      using assms(1) by (auto simp: binding_step_def binding_step_defs dest: same_artifact_phase)
        (auto simp: creation_phase_def)
    then have "creation_pending x" using creation_pending_phase assms(3) y by metis
    then show ?thesis using assms(2,4,5) by (auto simp: binding_inv_def)
  qed
  have removed: "is_some (ab_cleanup_quarantine y)" if "cleanup_step_completed step y" for step
  proof (cases "ab_cleanup_quarantine y")
    case None
    have "creation_progress state x y \<or> retirement_frame x y"
      using assms(1) None by (auto simp: binding_step_def binding_step_defs)
    moreover have "cleanup_step_completed step x" if "retirement_frame x y"
      using that \<open>cleanup_step_completed step y\<close>
      by (cases step) (simp_all add: retirement_frame_def same_removals_def)
    moreover have "\<not> creation_progress state x y"
      using \<open>cleanup_step_completed step y\<close> by (cases step) (auto simp: creation_progress_def nothing_removed_def)
    ultimately show ?thesis
      using assms(2) by (auto simp: binding_inv_def retirement_frame_def)
  qed simp
  show ?thesis using pending removed by (simp add: binding_inv_def)
qed

lemma slot_step_inv:
  assumes "slot_step a b" "slot_inv a"
  shows "slot_inv b"
proof -
  have ok: "launch_slot_ok a" "launch_slot_ok b" "discipline a b" using assms(1) by (auto simp: slot_step_def)
  have "binding_inv y" if y: "sl_artifact_binding b = Some y" for y
  proof (cases "sl_artifact_binding a")
    case None
    then obtain nonce root leaf where "y = fresh_binding nonce root leaf"
      using ok(3) y unfolding discipline_def by blast
    then show ?thesis
      by (simp add: binding_inv_def fresh_binding_def creation_pending_def all_steps)
  next
    case (Some x)
    have inv: "binding_inv x" using assms(2) Some by (simp add: slot_inv_def)
    have phase: "is_some (creation_phase x)"
      using slot_ok_bound [OF ok(1) Some] by (simp add: binding_validate_def)
    have "ab_socket_retire_pending y \<Longrightarrow> ab_socket_retire_pending x \<or> \<not> creation_pending x"
      "is_some (ab_cleanup_quarantine y) \<Longrightarrow> is_some (ab_cleanup_quarantine x) \<or> \<not> creation_pending x"
      using ok(3) Some y unfolding discipline_def by blast+
    then show ?thesis using slot_step_binding [OF assms(1) Some y] binding_step_inv inv phase by blast
  qed
  then show ?thesis using ok(2) by (cases "sl_artifact_binding b") (auto simp: slot_inv_def)
qed

lemma slot_steps_inv: "slot_step\<^sup>*\<^sup>* a b \<Longrightarrow> slot_inv a \<Longrightarrow> slot_inv b"
  by (induction rule: rtranclp_induct) (auto intro: slot_step_inv)

interpretation slots: state_machine "\<lambda>r. launch_slot_ok r \<and> sl_state r = SlotVacant" slot_step slot_inv
proof
  fix r assume "launch_slot_ok r \<and> sl_state r = SlotVacant"
  then show "slot_inv r" by (auto simp: slot_inv_def launch_slot_ok_def validate_slot_record_def state_nonce_def)
qed (rule slot_step_inv)

lemma unresolved_steps: "slot_step\<^sup>*\<^sup>* a b \<Longrightarrow> unresolved a \<Longrightarrow> b = a"
  by (induction rule: rtranclp_induct) (auto simp: slot_step_def discipline_def)

section \<open>Invariants of the registry\<close>

definition owners_unique :: "launch_codec \<Rightarrow> registry \<Rightarrow> bool" where
  "owners_unique lc s \<longleftrightarrow> (\<forall>i\<in>set (slot_numbers s). \<forall>j\<in>set (slot_numbers s). \<forall>r r' tag.
     slot_view lc s i = Some r \<longrightarrow> slot_view lc s j = Some r' \<longrightarrow> sl_owner r = Some tag \<longrightarrow> sl_owner r' = Some tag
       \<longrightarrow> i = j)"

definition registry_ok :: "launch_codec \<Rightarrow> registry \<Rightarrow> bool" where
  "registry_ok lc s \<longleftrightarrow> owners_unique lc s
     \<and> (\<forall>slot\<in>set (slot_numbers s). \<exists>r. slot_view lc s slot = Some r \<and> slot_inv r)"

text \<open>The registry as \<open>ensure_genesis\<close> makes it.\<close>

definition genesis_slot :: "u16 \<Rightarrow> launch_slot" where
  "genesis_slot slot = \<lparr>sl_schema_version = SLOT_SCHEMA_VERSION, sl_slot = slot, sl_generation = 0, sl_owner = None,
     sl_artifact_binding = None, sl_state = SlotVacant\<rparr>"

definition genesis :: "launch_codec \<Rightarrow> registry \<Rightarrow> bool" where
  "genesis lc s \<longleftrightarrow> (\<forall>slot\<in>set (slot_numbers s). slot_view lc s slot = Some (genesis_slot slot))"

lemma moves_unique:
  assumes "moves lc live_step s t" "owners_unique lc s"
  shows "owners_unique lc t"
proof -
  have "slot_numbers t = slot_numbers s" using assms(1) by (simp add: moves_def slot_numbers_def)
  then show ?thesis
    using moves_owner_back [OF assms(1)] assms(2) unfolding owners_unique_def by metis
qed

lemma claims_unique:
  assumes "claims_slot lc owner t s'" "owners_unique lc t"
  shows "owners_unique lc s'"
proof -
  obtain v :: launch_slot and intent where c: "slot_view lc s' (sl_slot v) = Some intent" "sl_owner intent = owner"
    and others: "\<forall>slot. slot \<noteq> sl_slot v \<longrightarrow> rg_slots s' slot = rg_slots t slot"
    and free: "owner \<noteq> None \<longrightarrow> (\<forall>slot\<in>set (slot_numbers t). \<exists>r. slot_view lc t slot = Some r \<and> sl_owner r \<noteq> owner)"
    using assms(1) unfolding claims_slot_def by blast
  have same: "slot_view lc s' slot = slot_view lc t slot" if "slot \<noteq> sl_slot v" for slot
    using others that by (simp add: slot_view_def)
  have count: "slot_numbers s' = slot_numbers t" using assms(1) by (auto simp: claims_slot_def intro: slot_numbers_cong)
  show ?thesis
    unfolding owners_unique_def
  proof (intro ballI allI impI)
    fix i j r r' tag
    assume *: "i \<in> set (slot_numbers s')" "j \<in> set (slot_numbers s')" "slot_view lc s' i = Some r"
      "slot_view lc s' j = Some r'" "sl_owner r = Some tag" "sl_owner r' = Some tag"
    show "i = j"
    proof (cases "i = sl_slot v \<or> j = sl_slot v")
      case True
      then have "owner = Some tag" using * c(1,2) by auto
      then have other: "slot = sl_slot v" if "slot \<in> set (slot_numbers t)" "slot_view lc s' slot = Some q" "sl_owner q = Some tag" for slot q
        using same free that by force
      then show ?thesis using * count by metis
    next
      case False
      then show ?thesis using * same count assms(2) unfolding owners_unique_def by metis
    qed
  qed
qed

lemma registry_step_ok:
  assumes "launch_codec_ok lc" "registry_step lc s s'" "registry_ok lc s"
  shows "registry_ok lc s'"
proof -
  have "owners_unique lc s'"
    using registry_step_live_cases [OF assms(1,2)] assms(3) moves_unique claims_unique
    by (auto simp: registry_ok_def)
  moreover have "slot_numbers s' = slot_numbers s"
    using registry_step_moves [OF assms(1,2)] by (simp add: moves_def slot_numbers_def)
  moreover have "\<exists>r. slot_view lc s' slot = Some r \<and> slot_inv r" if slot: "slot \<in> set (slot_numbers s)" for slot
    using moves_view [OF registry_step_moves [OF assms(1,2)]] assms(3) slot slot_steps_inv
    unfolding registry_ok_def by metis
  ultimately show ?thesis by (simp add: registry_ok_def)
qed

lemma genesis_ok: "genesis lc s \<Longrightarrow> registry_ok lc s"
proof -
  assume g: "genesis lc s"
  have inv: "slot_inv (genesis_slot slot)" for slot
    by (simp add: slot_inv_def launch_slot_ok_def validate_slot_record_def genesis_slot_def state_nonce_def)
  have "sl_owner r = None" if "slot \<in> set (slot_numbers s)" "slot_view lc s slot = Some r" for slot r
    using g that by (auto simp: genesis_def genesis_slot_def)
  then have "owners_unique lc s" unfolding owners_unique_def by (metis option.distinct(1))
  then show ?thesis using g inv by (auto simp: registry_ok_def genesis_def)
qed

interpretation registry: state_machine "genesis lc" "\<lambda>s s'. launch_codec_ok lc \<and> registry_step lc s s'" "registry_ok lc"
  for lc
  by unfold_locales (auto intro: genesis_ok registry_step_ok)

lemma registry_run_ok:
  assumes "launch_codec_ok lc" "genesis lc s" "(registry_step lc)\<^sup>*\<^sup>* s s'"
  shows "registry_ok lc s'"
  using registry.reachable_inv [OF assms(2), of s'] assms(1,3) by simp

end
