(* ===== verification/Launch_Safety.thy ===== *)
theory Launch_Safety
  imports Launch_Registry
begin

text \<open>
  What the launch registry guarantees: a slot never goes back in its history, owners are unique, artifacts are removed in
  order and never forgotten, a slot with an unresolved creation is kept, a tombstone is written only with evidence that
  the process is gone, a signal goes only to a verified process, and a cleanup of a lost process succeeds if no
  call fails. The end of the theory runs the registry on a small example.
\<close>

section \<open>Evidence about processes\<close>

text \<open>What the answer to call number \<open>k\<close> has to be to show that the process is gone, and what three answers
  show that it is the one that was recorded.\<close>

definition process_gone :: "launch_env \<Rightarrow> nat \<Rightarrow> process_identity \<Rightarrow> bool" where
  "process_gone le k i \<longleftrightarrow>
     (\<exists>boot. le_boot_uuid le k = Present boot \<and> boot \<noteq> pi_boot_uuid i)
     \<or> le_pidfd_open le k (pi_pid i) = Absent
     \<or> le_pid_namespace_inode le k (pi_pid i) = Absent
     \<or> (\<exists>inode. le_pid_namespace_inode le k (pi_pid i) = Present inode \<and> inode \<noteq> pi_pid_namespace_inode i)
     \<or> le_stat le k (pi_pid i) = Absent
     \<or> (\<exists>stat ticks. le_stat le k (pi_pid i) = Present stat \<and> parse_proc_stat_start_ticks stat = Some ticks
          \<and> ticks \<noteq> pi_start_ticks i)"

definition process_verified :: "launch_env \<Rightarrow> nat \<Rightarrow> process_identity \<Rightarrow> bool" where
  "process_verified le k i \<longleftrightarrow>
     le_boot_uuid le k = Present (pi_boot_uuid i)
     \<and> le_pid_namespace_inode le (Suc k) (pi_pid i) = Present (pi_pid_namespace_inode i)
     \<and> (\<exists>stat. le_stat le (Suc (Suc k)) (pi_pid i) = Present stat
          \<and> parse_proc_stat_start_ticks stat = Some (pi_start_ticks i))"

text \<open>A signal that was sent between two states, through a descriptor that was opened there: the process of the descriptor was
  verified after the descriptor was opened and before the signal was sent.\<close>

definition killed_verified :: "launch_env \<Rightarrow> process_identity \<Rightarrow> registry \<Rightarrow> registry \<Rightarrow> bool" where
  "killed_verified le i s s' \<longleftrightarrow> (\<exists>fd k v. rg_signalled s' = rg_signalled s @ [(fd, k)] \<and> fd_pid fd = pi_pid i
     \<and> rg_calls s \<le> fd_opened_at fd \<and> le_pidfd_open le (fd_opened_at fd) (pi_pid i) = Present ()
     \<and> fd_opened_at fd < v \<and> process_verified le v i \<and> v + 2 < k \<and> k < rg_calls s')"

definition seen_gone :: "launch_env \<Rightarrow> process_identity \<Rightarrow> registry \<Rightarrow> registry \<Rightarrow> bool" where
  "seen_gone le i s s' \<longleftrightarrow> (\<exists>k. rg_calls s \<le> k \<and> k < rg_calls s' \<and> process_gone le k i)"

lemma seen_gone_now: "process_gone le (rg_calls s) i \<Longrightarrow> seen_gone le i s (s\<lparr>rg_calls := Suc (rg_calls s)\<rparr>)"
  by (auto simp: seen_gone_def)

lemma one_call: "\<exists>n. s\<lparr>rg_calls := Suc (rg_calls s)\<rparr> = s\<lparr>rg_calls := rg_calls s + n\<rparr>"
  by (rule exI [of _ 1]) simp

lemma observe_identity_run:
  assumes "observe_identity le pid s = (r, s')"
  shows "\<exists>n. s' = s\<lparr>rg_calls := rg_calls s + n\<rparr> \<and> 0 < n
    \<and> (r = Inr Absent \<longrightarrow> (\<exists>k<n. le_pid_namespace_inode le (rg_calls s + k) pid = Absent \<or> le_stat le (rg_calls s + k) pid = Absent))
    \<and> (\<forall>i. r = Inr (Present i) \<longrightarrow> pi_pid i = pid \<and> n = 3 \<and> process_verified le (rg_calls s) i)"
proof (cases "le_boot_uuid le (rg_calls s)")
  case (Present boot)
  show ?thesis
  proof (cases "le_pid_namespace_inode le (Suc (rg_calls s)) pid")
    case ns: (Present inode)
    then show ?thesis using assms Present
      by (intro exI [of _ "3 :: nat"])
        (auto simp: observe_identity_def read_boot_uuid_def read_pid_namespace_inode_def read_start_ticks_def rbind_def
          next_call_def rreturn_def process_verified_def split: evidence.splits option.splits
          intro!: exI [of _ "2 :: nat"])
  next
    case Absent
    then have "s' = s\<lparr>rg_calls := rg_calls s + 2\<rparr> \<and> r = Inr Absent" using assms Present
      by (simp add: observe_identity_def read_boot_uuid_def read_pid_namespace_inode_def rbind_def next_call_def rreturn_def)
    then show ?thesis using Absent by (intro exI [of _ "2 :: nat"]) (auto intro!: exI [of _ "1 :: nat"])
  next
    case Unavailable
    then have "s' = s\<lparr>rg_calls := rg_calls s + 2\<rparr> \<and> r = Inr Unavailable" using assms Present
      by (simp add: observe_identity_def read_boot_uuid_def read_pid_namespace_inode_def rbind_def next_call_def rreturn_def)
    then show ?thesis by (intro exI [of _ "2 :: nat"]) auto
  qed
qed (use assms in \<open>intro exI [of _ "1 :: nat"], auto simp: observe_identity_def read_boot_uuid_def rbind_def
      next_call_def rreturn_def\<close>)+

lemma different_identity:
  assumes "process_verified le k actual" "pi_pid actual = pi_pid i" "actual \<noteq> i"
  shows "\<exists>j\<le>2. process_gone le (k + j) i"
proof -
  consider "pi_boot_uuid actual \<noteq> pi_boot_uuid i" | "pi_pid_namespace_inode actual \<noteq> pi_pid_namespace_inode i"
    | "pi_start_ticks actual \<noteq> pi_start_ticks i"
    using assms(2,3) by (cases actual; cases i) auto
  then show ?thesis
  proof cases
    case 1
    then show ?thesis using assms(1) by (intro exI [of _ 0]) (auto simp: process_verified_def process_gone_def)
  next
    case 2
    then show ?thesis using assms(1,2) by (intro exI [of _ 1]) (auto simp: process_verified_def process_gone_def)
  next
    case 3
    then show ?thesis using assms(1,2) by (intro exI [of _ 2]) (auto simp: process_verified_def process_gone_def)
  qed
qed

lemma open_verified_run:
  assumes "open_verified_pidfd le i s = (r, s')"
  shows "(\<exists>n. s' = s\<lparr>rg_calls := rg_calls s + n\<rparr>)
    \<and> (r = Inr Absent \<longrightarrow> seen_gone le i s s')
    \<and> (\<forall>p. r = Inr (Present p) \<longrightarrow> p = \<lparr>fd_pid = pi_pid i, fd_opened_at = rg_calls s\<rparr> \<and> s' = s\<lparr>rg_calls := rg_calls s + 4\<rparr>
      \<and> le_pidfd_open le (rg_calls s) (pi_pid i) = Present () \<and> process_verified le (Suc (rg_calls s)) i)"
proof (cases "le_pidfd_open le (rg_calls s) (pi_pid i)")
  case (Present u)
  let ?s1 = "s\<lparr>rg_calls := Suc (rg_calls s)\<rparr>"
  obtain r1 s1 where obs: "observe_identity le (pi_pid i) ?s1 = (r1, s1)" by fastforce
  obtain n where n: "s1 = s\<lparr>rg_calls := Suc (rg_calls s) + n\<rparr>" "0 < n"
    "r1 = Inr Absent \<Longrightarrow> \<exists>k<n. le_pid_namespace_inode le (Suc (rg_calls s) + k) (pi_pid i) = Absent
      \<or> le_stat le (Suc (rg_calls s) + k) (pi_pid i) = Absent"
    "\<And>a. r1 = Inr (Present a) \<Longrightarrow> pi_pid a = pi_pid i \<and> n = 3 \<and> process_verified le (Suc (rg_calls s)) a"
    using observe_identity_run [OF obs] by auto
  have run: "(r, s') = (case r1 of Inl e \<Rightarrow> (Inl e, s1) | Inr x \<Rightarrow>
      (Inr (case x of Present a \<Rightarrow> if a = i then Present \<lparr>fd_pid = pi_pid i, fd_opened_at = rg_calls s\<rparr> else Absent | Absent \<Rightarrow> Absent | Unavailable \<Rightarrow> Unavailable), s1))"
    using assms Present obs
    by (auto simp: open_verified_pidfd_def pidfd_open_def rbind_def next_call_def rreturn_def split: sum.splits evidence.splits)
  have s': "s' = s\<lparr>rg_calls := Suc (rg_calls s) + n\<rparr>" using run n(1) by (auto split: sum.splits)
  have "seen_gone le i s s'" if absent: "r = Inr Absent"
  proof (cases "r1 = Inr Absent")
    case True
    then obtain k where "k < n" "process_gone le (Suc (rg_calls s) + k) i" using n(3) by (auto simp: process_gone_def)
    then show ?thesis using s' by (auto simp: seen_gone_def intro!: exI [of _ "Suc (rg_calls s) + k"])
  next
    case False
    then obtain a where a: "r1 = Inr (Present a)" "a \<noteq> i"
      using run absent by (auto split: sum.splits evidence.splits if_splits)
    then obtain j where "j \<le> 2" "process_gone le (Suc (rg_calls s) + j) i"
      using n(4) [OF a(1)] different_identity by blast
    then show ?thesis using s' n(4) [OF a(1)] by (auto simp: seen_gone_def intro!: exI [of _ "Suc (rg_calls s) + j"])
  qed
  moreover have "p = \<lparr>fd_pid = pi_pid i, fd_opened_at = rg_calls s\<rparr> \<and> s' = s\<lparr>rg_calls := rg_calls s + 4\<rparr>
      \<and> le_pidfd_open le (rg_calls s) (pi_pid i) = Present () \<and> process_verified le (Suc (rg_calls s)) i"
    if "r = Inr (Present p)" for p
  proof -
    have "r1 = Inr (Present i)" "p = \<lparr>fd_pid = pi_pid i, fd_opened_at = rg_calls s\<rparr>" using run that by (auto split: sum.splits evidence.splits if_splits)
    then show ?thesis using n(4) [of i] s' Present by simp
  qed
  moreover have "s' = s\<lparr>rg_calls := rg_calls s + Suc n\<rparr>" using s' by simp
  ultimately show ?thesis by blast
next
  case Absent
  then have "process_gone le (rg_calls s) i" by (simp add: process_gone_def)
  moreover have "r = Inr Absent \<and> s' = s\<lparr>rg_calls := Suc (rg_calls s)\<rparr>" using assms Absent
    by (auto simp: open_verified_pidfd_def pidfd_open_def rbind_def next_call_def rreturn_def)
  ultimately show ?thesis using seen_gone_now one_call by auto
next
  case Unavailable
  then show ?thesis using assms
    by (auto simp: open_verified_pidfd_def pidfd_open_def rbind_def next_call_def rreturn_def intro!: exI [of _ "1 :: nat"])
qed

lemma verify_run:
  assumes "verify_exact_process le i s = (r, s')"
  shows "(\<exists>n. s' = s\<lparr>rg_calls := rg_calls s + n\<rparr>) \<and> (r = Inr Absent \<longrightarrow> seen_gone le i s s')"
proof (cases "le_boot_uuid le (rg_calls s) = Present (pi_boot_uuid i)")
  case False
  then have "s' = s\<lparr>rg_calls := rg_calls s + 1\<rparr>" "r = Inr Absent \<Longrightarrow> process_gone le (rg_calls s) i" using assms
    by (auto simp: verify_exact_process_def read_boot_uuid_def rbind_def next_call_def rreturn_def
        process_gone_def split: evidence.splits if_splits)
  then show ?thesis using seen_gone_now one_call by auto
next
  case True
  let ?s1 = "s\<lparr>rg_calls := Suc (rg_calls s)\<rparr>"
  obtain r1 s1 where op: "open_verified_pidfd le i ?s1 = (r1, s1)" by fastforce
  have run: "s' = s1 \<and> (r = Inr Absent \<longleftrightarrow> r1 = Inr Absent)"
    using assms True op
    by (auto simp: verify_exact_process_def read_boot_uuid_def rbind_def next_call_def rreturn_def
        split: sum.splits evidence.splits)
  obtain n where "s1 = ?s1\<lparr>rg_calls := Suc (rg_calls s) + n\<rparr>" using open_verified_run [OF op] by auto
  then have "s' = s\<lparr>rg_calls := rg_calls s + Suc n\<rparr>" using run by simp
  moreover have "r = Inr Absent \<Longrightarrow> seen_gone le i s s'"
    using open_verified_run [OF op] run unfolding seen_gone_def by (auto simp: Suc_le_eq intro: less_imp_le)
  ultimately show ?thesis by blast
qed


section \<open>Evidence for a tombstone\<close>

definition counts :: "'a rg \<Rightarrow> bool" where
  "counts m \<longleftrightarrow> (\<forall>s. rg_calls s \<le> rg_calls (snd (m s)) \<and> rg_signalled (snd (m s)) = rg_signalled s)"

named_theorems counts_rules "operations that only make calls and send no signal"

lemma counts_basic [counts_rules]:
  "counts (rreturn x)" "counts (rfail e)" "counts next_call" "counts (rensure b e)" "counts (rsome z e)"
  "counts (plain_call le e)"
  by (auto simp: counts_def rreturn_def rfail_def next_call_def rsome_def plain_call_def rbind_def split: option.splits)

lemma counts_bind [counts_rules]:
  assumes "counts m" "\<And>x. counts (f x)"
  shows "counts (rbind m f)"
  unfolding counts_def
proof
  fix s
  obtain r t where m: "m s = (r, t)" by fastforce
  have "rg_calls s \<le> rg_calls t \<and> rg_signalled t = rg_signalled s" using assms(1) m unfolding counts_def by (metis snd_conv)
  moreover have "rg_calls t \<le> rg_calls (snd (f x t)) \<and> rg_signalled (snd (f x t)) = rg_signalled t" for x
    using assms(2) unfolding counts_def by blast
  ultimately show "rg_calls s \<le> rg_calls (snd (rbind m f s)) \<and> rg_signalled (snd (rbind m f s)) = rg_signalled s"
    using m by (cases r) (auto simp: rbind_def intro: order_trans)
qed

lemma counts_read_valid_slot [counts_rules]: "counts (read_valid_slot lc le slot)"
  unfolding counts_def
proof
  fix s
  obtain r t where run: "read_valid_slot lc le slot s = (r, t)" by fastforce
  from read_valid_slot_state [OF this] run
  show "rg_calls s \<le> rg_calls (snd (read_valid_slot lc le slot s))
    \<and> rg_signalled (snd (read_valid_slot lc le slot s)) = rg_signalled s" by simp
qed

lemma counts_replace_slot [counts_rules]: "counts (registry_replace_slot lc le e n)"
proof -
  have "counts (atomic_replace_slot lc le slot n)" for slot
    by (auto simp: counts_def atomic_replace_slot_def rbind_def next_call_def rreturn_def rfail_def split: sum.splits)
  then show ?thesis unfolding registry_replace_slot_def by (intro counts_rules)
qed

lemma counts_persist_tombstone [counts_rules]: "counts (persist_tombstone lc le r nonce i)"
  unfolding persist_tombstone_def by (intro counts_rules)

lemma counts_run: "counts m \<Longrightarrow> m s = (r, s') \<Longrightarrow> rg_calls s \<le> rg_calls s' \<and> rg_signalled s' = rg_signalled s"
  unfolding counts_def by (metis snd_conv)

lemma seen_gone_later:
  "seen_gone le i s t \<Longrightarrow> rg_calls s0 \<le> rg_calls s \<Longrightarrow> rg_calls t \<le> rg_calls u \<Longrightarrow> seen_gone le i s0 u"
  unfolding seen_gone_def by (meson less_le_trans order_trans)

lemma killed_verified_later:
  "killed_verified le i s t \<Longrightarrow> rg_signalled u = rg_signalled t \<Longrightarrow> rg_calls t \<le> rg_calls u \<Longrightarrow> killed_verified le i s u"
  unfolding killed_verified_def by (metis less_le_trans)

lemma killed_verified_earlier:
  "killed_verified le i s t \<Longrightarrow> rg_signalled s = rg_signalled r \<Longrightarrow> rg_calls r \<le> rg_calls s \<Longrightarrow> killed_verified le i r t"
  unfolding killed_verified_def by (metis order_trans)

text \<open>What the end of a cleanup leaves: either nothing was written, or the process was seen to be gone. A signal
  goes to the recorded process only, right after it was verified.\<close>

lemma terminate_run:
  assumes "terminate_identity lc le pending nonce i s = (res, s')"
  shows "(rg_slots s' = rg_slots s \<or> seen_gone le i s s') \<and> rg_calls s \<le> rg_calls s'
    \<and> (rg_signalled s' = rg_signalled s
       \<or> killed_verified le i s s')"
proof -
  obtain r1 s1 where 1: "open_verified_pidfd le i s = (r1, s1)" by fastforce
  note o = open_verified_run [OF 1]
  obtain n where s1: "s1 = s\<lparr>rg_calls := rg_calls s + n\<rparr>" using o by blast
  have persist: ?thesis if gone: "seen_gone le i s t" "rg_calls s \<le> rg_calls t" "rg_calls t \<le> rg_calls s'"
    and "rg_signalled s' = rg_signalled t"
    and "rg_signalled t = rg_signalled s \<or> killed_verified le i s t" for t
    using that seen_gone_later [OF gone(1) order_refl gone(3)] killed_verified_later [of le i s t s'] by auto
  show ?thesis
  proof (cases r1)
    case (Inl e)
    then have "s' = s1" using assms 1 by (simp add: terminate_identity_def rbind_def)
    then show ?thesis using s1 by simp
  next
    case (Inr opened)
    show ?thesis
    proof (cases opened)
      case Absent
      then have "persist_tombstone lc le pending nonce (Some i) s1 = (res, s')"
        using assms 1 Inr by (simp add: terminate_identity_def rbind_def)
      from counts_run [OF counts_persist_tombstone this] show ?thesis
        using o Inr Absent s1 by (intro persist [of s1]) auto
    next
      case Unavailable
      then have "s' = s1" using assms 1 Inr by (simp add: terminate_identity_def rbind_def rreturn_def)
      then show ?thesis using s1 by simp
    next
      case (Present p)
      let ?fd = "\<lparr>fd_pid = pi_pid i, fd_opened_at = rg_calls s\<rparr>"
      have p: "p = ?fd" "process_verified le (Suc (rg_calls s)) i" "le_pidfd_open le (rg_calls s) (pi_pid i) = Present ()"
        and four: "s1 = s\<lparr>rg_calls := rg_calls s + 4\<rparr>"
        using o Inr Present by auto
      let ?s2 = "s1\<lparr>rg_signalled := rg_signalled s1 @ [(?fd, rg_calls s1)]\<rparr>"
      have killed: "killed_verified le i s t" if "rg_signalled t = rg_signalled ?s2" "rg_calls s1 < rg_calls t" for t
        unfolding killed_verified_def
        by (rule exI [of _ ?fd], rule exI [of _ "rg_calls s1"], rule exI [of _ "Suc (rg_calls s)"]) (use p four that in auto)
      let ?s3 = "?s2\<lparr>rg_calls := Suc (rg_calls s1)\<rparr>" and ?s4 = "?s2\<lparr>rg_calls := Suc (Suc (rg_calls s1))\<rparr>"
      have sent: "send_signal le p s1 = (if le_fails le (rg_calls s1) then (Inl OsCallFailed, ?s3) else (Inr (), ?s3))"
        by (simp add: send_signal_def plain_call_def rbind_def next_call_def rreturn_def rfail_def p(1))
      have waited: "plain_call le OsCallFailed ?s3 = (if le_fails le (Suc (rg_calls s1)) then (Inl OsCallFailed, ?s4) else (Inr (), ?s4))"
        by (simp add: plain_call_def rbind_def next_call_def rreturn_def rfail_def)
      obtain r5 s5 where 5: "verify_exact_process le i ?s4 = (r5, s5)" by fastforce
      obtain m where s5: "s5 = ?s4\<lparr>rg_calls := Suc (Suc (rg_calls s1)) + m\<rparr>" using verify_run [OF 5] by auto
      show ?thesis
      proof (cases "r5 = Inr Absent \<and> \<not> le_fails le (rg_calls s1) \<and> \<not> le_fails le (Suc (rg_calls s1))")
        case True
        then have "persist_tombstone lc le pending nonce (Some i) s5 = (res, s')"
          using assms 1 Inr Present sent waited 5 by (simp add: terminate_identity_def rbind_def)
        from counts_run [OF counts_persist_tombstone this] show ?thesis
          using verify_run [OF 5] True four s5 killed [of s5] seen_gone_later [of le i ?s4 s5 s s5] by (intro persist [of s5]) auto
      next
        case False
        then have "s' \<in> {?s3, ?s4, s5}"
          using assms 1 Inr Present sent waited 5
          by (auto simp: terminate_identity_def rbind_def rreturn_def split: if_splits sum.splits evidence.splits)
        then show ?thesis using four s5 killed [of s'] by auto
      qed
    qed
  qed
qed

lemma counts_attempt [counts_rules]: "counts m \<Longrightarrow> counts (attempt m)"
  unfolding counts_def attempt_def by (simp split: prod.splits) (metis snd_conv)

lemma counts_read_registration [counts_rules]: "counts (read_registration lc le slot)"
proof -
  have body: "counts (\<lambda>s. case rg_registrations s slot of None \<Rightarrow> rfail RegistrationInvalid s
      | Some bytes \<Rightarrow> f bytes s)" if "\<And>bytes. counts (f bytes)" for f :: "u8 list \<Rightarrow> registration_record rg"
    using that unfolding counts_def by (auto simp: rfail_def split: option.splits)
  show ?thesis unfolding read_registration_def by (intro counts_rules body)
qed

lemma counts_verify [counts_rules]: "counts (verify_exact_process le i)"
  unfolding counts_def
proof
  fix s
  obtain r t where "verify_exact_process le i s = (r, t)" by fastforce
  from verify_run [OF this] this
  show "rg_calls s \<le> rg_calls (snd (verify_exact_process le i s))
    \<and> rg_signalled (snd (verify_exact_process le i s)) = rg_signalled s" by auto
qed

lemma counts_if [counts_rules]: "counts a \<Longrightarrow> counts b \<Longrightarrow> counts (if c then a else b)"
  by simp

lemma counts_reconcile_intent [counts_rules]: "counts (reconcile_intent lc le r)"
proof (cases "sl_state r")
  case (IntentDurable nonce t)
  have read: "counts (case x of Inr sidecar \<Rightarrow> f sidecar | Inl _ \<Rightarrow> g)" if "\<And>c. counts (f c)" "counts g"
    for x :: "launch_error + 'b" and f and g :: "reconcile_outcome rg"
    using that by (cases x) auto
  show ?thesis unfolding reconcile_intent_def IntentDurable launch_slot_state.case
    by (intro counts_rules read)
qed (simp_all add: reconcile_intent_def counts_rules)

text \<open>The process that a slot still has to clean up.\<close>

fun slot_identity :: "launch_slot_state \<Rightarrow> process_identity option" where
  "slot_identity (IdentityDurable _ i _) = Some i"
| "slot_identity (CleanupPending _ i _) = Some i"
| "slot_identity _ = None"

lemma locked_slot_run:
  assumes "locked_slot lc le key s = (r, t)"
  shows "(\<exists>k. t = s\<lparr>rg_calls := rg_calls s + k\<rparr>)
    \<and> (\<forall>c. r = Inr c \<longrightarrow> slot_view lc s (mk_slot key) = Some c \<and> launch_slot_ok c \<and> sl_slot c = mk_slot key \<and> sl_generation c = mk_generation key)"
proof (cases "le_fails le (rg_calls s)")
  case True
  then show ?thesis using assms one_call [of s]
    by (auto simp: locked_slot_def plain_call_def rbind_def next_call_def rfail_def)
next
  case False
  let ?s1 = "s\<lparr>rg_calls := Suc (rg_calls s)\<rparr>"
  obtain r2 s2 where 2: "read_valid_slot lc le (mk_slot key) ?s1 = (r2, s2)" by fastforce
  have t: "t = s2" "\<And>c. r = Inr c \<Longrightarrow> r2 = Inr c \<and> sl_generation c = mk_generation key"
    using assms 2 False
    by (auto simp: locked_slot_def plain_call_def rbind_def next_call_def rreturn_def split: sum.splits if_splits)
  have "t = s\<lparr>rg_calls := rg_calls s + 2\<rparr>" using read_valid_slot_state [OF 2] t(1) by simp
  moreover have "slot_view lc s (mk_slot key) = Some c \<and> launch_slot_ok c \<and> sl_slot c = mk_slot key \<and> sl_generation c = mk_generation key"
    if "r = Inr c" for c
    using read_valid_slot_Inr [of lc le "mk_slot key" ?s1 c s2] 2 t(2) [OF that] by (auto simp: slot_view_def)
  ultimately show ?thesis by blast
qed

text \<open>The run of a cleanup over the record that it finds.\<close>

lemma cleanup_cases:
  assumes "cleanup lc le slot generation s = (res, s')"
  obtains "rg_slots s' = rg_slots s" "rg_signalled s' = rg_signalled s"
  | (quiet) current where "slot_view lc s slot = Some current" "slot_identity (sl_state current) = None"
      "rg_signalled s' = rg_signalled s"
  | (process) current nonce i released t k where "slot_view lc s slot = Some current" "launch_slot_ok current" "sl_generation current = generation"
      "sl_slot current = slot" "sl_state current \<in> {IdentityDurable nonce i released, CleanupPending nonce i released}"
      "t = s\<lparr>rg_calls := rg_calls s + k\<rparr>" "cleanup_process lc le current nonce i released t = (res, s')"
proof -
  let ?key = "\<lparr>mk_slot = slot, mk_generation = generation\<rparr>"
  obtain r t where lock: "locked_slot lc le ?key s = (r, t)" by fastforce
  obtain k where t: "t = s\<lparr>rg_calls := rg_calls s + k\<rparr>" using locked_slot_run [OF lock] by blast
  show thesis
  proof (cases r)
    case (Inl e)
    then show thesis using assms lock t that(1) by (auto simp: cleanup_def rbind_def)
  next
    case (Inr c)
    then have c: "slot_view lc s slot = Some c" "launch_slot_ok c" "sl_slot c = slot" "sl_generation c = generation"
      using locked_slot_run [OF lock] by auto
    have run: "cleanup lc le slot generation s = (case sl_state c of
         IdentityDurable nonce identity released \<Rightarrow> cleanup_process lc le c nonce identity released t
       | CleanupPending nonce identity released \<Rightarrow> cleanup_process lc le c nonce identity released t
       | ResolvedTombstone _ _ _ \<Rightarrow> rreturn OutcomeResolvedTombstone t
       | IntentDurable nonce _ \<Rightarrow> rbind (reconcile_intent lc le c) (\<lambda>outcome.
           if outcome = OutcomeAbsent then persist_tombstone lc le c nonce None else rreturn outcome) t
       | SlotVacant \<Rightarrow> rreturn OutcomeAbsent t)"
      using lock Inr by (simp add: cleanup_def rbind_def split: launch_slot_state.splits)
    show thesis
    proof (cases "slot_identity (sl_state c)")
      case None
      have counted: "counts (rbind (reconcile_intent lc le c) (\<lambda>outcome.
          if outcome = OutcomeAbsent then persist_tombstone lc le c nonce None else rreturn outcome))" for nonce
        by (intro counts_rules)
      have "rg_signalled s' = rg_signalled t"
        using run assms None by (cases "sl_state c") (auto simp: rreturn_def dest: counts_run [OF counted, OF sym])
      then have "rg_signalled s' = rg_signalled s" using t by simp
      then show thesis using quiet c(1) None by blast
    next
      case (Some i)
      then obtain nonce released where state: "sl_state c \<in> {IdentityDurable nonce i released, CleanupPending nonce i released}"
        by (cases "sl_state c") auto
      then have "cleanup_process lc le c nonce i released t = (res, s')" using run assms by auto
      then show thesis using process c state t by blast
    qed
  qed
qed


lemma cleanup_process_run:
  assumes "launch_codec_ok lc" "cleanup_process lc le current nonce i released s = (res, s')" "launch_slot_ok current"
    and "sl_state current \<in> {IdentityDurable nonce i released, CleanupPending nonce i released}"
    and "slot_view lc s (sl_slot current) = Some current"
  shows "(seen_gone le i s s' \<or> is_some_and (slot_view lc s' (sl_slot current)) (\<lambda>r. \<not> is_tombstone (sl_state r)))
    \<and> (rg_signalled s' = rg_signalled s \<or> killed_verified le i s s')"
proof -
  let ?pending = "current\<lparr>sl_state := CleanupPending nonce i released\<rparr>"
  let ?first = "if current \<noteq> ?pending then registry_replace_slot lc le current ?pending else rreturn ()"
  obtain r t where first: "?first s = (r, t)" by fastforce
  have ok: "launch_slot_ok ?pending"
    using assms(3,4) by (auto simp: launch_slot_ok_def validate_slot_record_def state_nonce_def split: option.splits)
  have "counts ?first" by (intro counts_rules)
  from counts_run [OF this first] have t: "rg_calls s \<le> rg_calls t" "rg_signalled t = rg_signalled s" by auto
  have "tracks lc (\<lambda>a b. \<not> is_tombstone (sl_state b)) ?first"
    using ok by (auto intro!: tracks_rules tracks_replace_slot [OF assms(1)])
  from moves_view [OF tracks_run [OF this first] assms(5)] obtain r' where
    view: "slot_view lc t (sl_slot current) = Some r'" "(\<lambda>a b. \<not> is_tombstone (sl_state b))\<^sup>*\<^sup>* current r'" by blast
  have live: "\<not> is_tombstone (sl_state r')" using view(2) assms(4) by (induction rule: rtranclp_induct) auto
  have run: "rbind ?first (\<lambda>_. terminate_identity lc le ?pending nonce i) s = (res, s')"
    using assms(2) by (simp only: cleanup_process_def Let_def)
  show ?thesis
  proof (cases r)
    case (Inl e)
    then have "s' = t" using run rbind_err [of ?first s, OF first [unfolded Inl]] by (metis prod.inject)
    then show ?thesis using view(1) live t by simp
  next
    case (Inr u)
    have "terminate_identity lc le ?pending nonce i t = (res, s')"
      using run rbind_ok [of ?first s, OF first [unfolded Inr]] by metis
    note e = terminate_run [OF this]
    have "seen_gone le i s s' \<or> slot_view lc s' (sl_slot current) = Some r'"
      using e t(1) view(1) seen_gone_later [of le i t s' s s'] by (auto simp: slot_view_def)
    then show ?thesis using e t live killed_verified_earlier [of le i t s' s] by auto
  qed
qed

section \<open>Properties of the registry\<close>

text \<open>C2. Whatever operations run on the registry, successful or failing at any call, the record of a slot follows one history:
  its generation only grows; within one generation the states pass in order, nonce and owner stay, and the artifact
  binding only gains artifacts and removals, and is dropped only from a tombstone.\<close>

theorem slots_follow_history:
  assumes "launch_codec_ok lc" "(registry_step lc)\<^sup>*\<^sup>* s s'" "slot_view lc s slot = Some r"
  shows "\<exists>r'. slot_view lc s' slot = Some r' \<and> slot_history r r'"
  using moves_view [OF registry_steps_moves [OF assms(1,2)] assms(3)] slot_steps_history by blast

text \<open>C13. Starting from the registry that genesis makes, every slot stays readable and valid, and no two slots ever
  belong to the same owner: allocation refuses an owner that has a slot, or that might have one in an unreadable slot.\<close>

theorem owners_stay_unique:
  assumes "launch_codec_ok lc" "genesis lc s" "(registry_step lc)\<^sup>*\<^sup>* s s'"
    and "i \<in> set (slot_numbers s')" "j \<in> set (slot_numbers s')"
  shows "\<exists>r r'. slot_view lc s' i = Some r \<and> slot_view lc s' j = Some r' \<and> launch_slot_ok r \<and> launch_slot_ok r'
    \<and> (i = j \<or> sl_owner r = None \<or> sl_owner r \<noteq> sl_owner r')"
proof -
  have ok: "registry_ok lc s'" by (rule registry_run_ok [OF assms(1-3)])
  then obtain r r' where "slot_view lc s' i = Some r" "slot_view lc s' j = Some r'" "slot_inv r" "slot_inv r'"
    using assms(4,5) unfolding registry_ok_def by blast
  then show ?thesis using ok assms(4,5) unfolding registry_ok_def owners_unique_def slot_inv_def
    by (metis option.exhaust)
qed

fun steps_before :: "cleanup_step \<Rightarrow> cleanup_step list" where
  "steps_before StepOwnership = []"
| "steps_before StepSocket = [StepOwnership]"
| "steps_before StepRunner = [StepOwnership, StepSocket]"
| "steps_before StepDirectory = [StepOwnership, StepSocket, StepRunner]"

text \<open>In every state of the registry, an artifact is recorded as removed only in a slot whose process has a tombstone,
  after the private directory was moved to quarantine, with all artifacts that precede it in the order owner, socket, runner,
  directory removed before it.\<close>

theorem artifacts_removed_in_order:
  assumes "launch_codec_ok lc" "genesis lc s" "(registry_step lc)\<^sup>*\<^sup>* s s'" "slot \<in> set (slot_numbers s')"
    and "slot_view lc s' slot = Some r" "sl_artifact_binding r = Some x" "cleanup_step_completed step x"
  shows "is_tombstone (sl_state r) \<and> is_some (ab_cleanup_quarantine x)
    \<and> list_all (\<lambda>earlier. cleanup_step_completed earlier x) (steps_before step)"
proof -
  have inv: "slot_inv r" using registry_run_ok [OF assms(1-3)] assms(4,5) unfolding registry_ok_def by fastforce
  then have "is_some (ab_cleanup_quarantine x)" using assms(6,7) by (auto simp: slot_inv_def binding_inv_def)
  moreover have "binding_validate x" "ab_cleanup_quarantine x = None \<or> is_tombstone (sl_state r)"
    using slot_ok_bound [of r x] inv assms(6) by (auto simp: slot_inv_def)
  ultimately show ?thesis using assms(7) by (cases step) (auto simp: binding_validate_def)
qed

text \<open>A tombstone whose artifact creation was still pending, so that nobody knows what exists, is never touched again by
  any operation: the slot is kept as it is, for an operator, and its owner stays reserved.\<close>

theorem unresolved_slot_is_kept:
  assumes "launch_codec_ok lc" "(registry_step lc)\<^sup>*\<^sup>* s s'" "slot_view lc s slot = Some r" "unresolved r"
  shows "slot_view lc s' slot = Some r"
  using moves_view [OF registry_steps_moves [OF assms(1,2)] assms(3)] unresolved_steps assms(4) by blast

lemma binding_dropped:
  assumes "slot_step a b" "sl_artifact_binding a = Some x" "sl_artifact_binding b = None"
  shows "ab_cleanup_completed x"
  using assms by (auto simp: slot_step_def validate_transition_def binding_update_def)

lemma holding_steps_binding:
  assumes "holding_step\<^sup>*\<^sup>* a b" "sl_artifact_binding a = Some x"
  shows "\<exists>y. sl_artifact_binding b = Some y \<and> binding_le x y"
  using assms
proof (induction rule: rtranclp_induct)
  case (step b c)
  then obtain y z where "sl_artifact_binding b = Some y" "binding_le x y" "sl_artifact_binding c = Some z"
    by (auto simp: holding_step_def is_some_iff)
  moreover have "slot_step b c" using step.hyps(2) by (simp add: holding_step_def live_step_def)
  ultimately show ?case using slot_step_binding [of b c y z] binding_step_le binding_le_trans by blast
qed simp

lemma drop_steps:
  assumes "drop_step\<^sup>*\<^sup>* a b"
  shows "b = a \<or> drop_step a b"
  using assms by (induction rule: rtranclp_induct) (auto simp: drop_step_def)

lemma registry_step_binding:
  assumes "launch_codec_ok lc" "registry_step lc s s'" "slot_view lc s slot = Some r" "sl_artifact_binding r = Some x"
  shows "(\<exists>r' y. slot_view lc s' slot = Some r' \<and> sl_artifact_binding r' = Some y \<and> binding_le x y)
    \<or> (\<exists>le key b. s' = snd (acknowledge_artifact_cleanup lc le key b s) \<and> is_tombstone (sl_state r) \<and> ab_cleanup_completed x
         \<and> slot_view lc s' slot = Some (r\<lparr>sl_artifact_binding := None\<rparr>))"
  using registry_step_cases [OF assms(1,2)]
proof (elim disjE exE conjE)
  fix t owner assume t: "moves lc holding_step s t" "claims_slot lc owner t s'"
  obtain r' y where r': "slot_view lc t slot = Some r'" "sl_artifact_binding r' = Some y" "binding_le x y"
    using moves_view [OF t(1) assms(3)] holding_steps_binding assms(4) by blast
  obtain v where v: "slot_view lc t (sl_slot v) = Some v" "sl_state v = SlotVacant" "launch_slot_ok v"
    "\<And>slot. slot \<noteq> sl_slot v \<Longrightarrow> rg_slots s' slot = rg_slots t slot"
    using t(2) by (auto simp: claims_slot_def slot_step_def)
  have "slot \<noteq> sl_slot v" using v(1,2) r'(1,2) slot_ok_bound [OF v(3)] by auto
  then show ?thesis using r' v(4) by (auto simp: slot_view_def)
next
  fix le key b assume s': "s' = snd (acknowledge_artifact_cleanup lc le key b s)"
  obtain r' where r': "slot_view lc s' slot = Some r'" "drop_step\<^sup>*\<^sup>* r r'"
    using moves_view [OF tracks_moves [OF tracks_acknowledge [OF assms(1)]] assms(3)] s' by blast
  from drop_steps [OF r'(2)] show ?thesis using r'(1) assms(4) s' by (auto simp: drop_step_def)
qed (use moves_view [OF _ assms(3)] holding_steps_binding assms(4) in blast)

text \<open>C24. A slot forgets its artifacts only after they are gone: once a slot has an artifact binding, every later state of the
  registry still has it, with the same identities, or in some state of the run the slot held a tombstone with that binding and
  its cleanup complete, and the acknowledgement of that cleanup is the operation that took it out of the slot.\<close>

theorem artifacts_never_forgotten:
  assumes "launch_codec_ok lc" "(registry_step lc)\<^sup>*\<^sup>* s s'" "slot_view lc s slot = Some r" "sl_artifact_binding r = Some x"
  shows "(\<exists>r' y. slot_view lc s' slot = Some r' \<and> sl_artifact_binding r' = Some y \<and> binding_le x y)
    \<or> (\<exists>t c y le key b. (registry_step lc)\<^sup>*\<^sup>* s t \<and> slot_view lc t slot = Some c \<and> is_tombstone (sl_state c)
         \<and> sl_artifact_binding c = Some y \<and> binding_le x y \<and> ab_cleanup_completed y
         \<and> slot_view lc (snd (acknowledge_artifact_cleanup lc le key b t)) slot = Some (c\<lparr>sl_artifact_binding := None\<rparr>)
         \<and> (registry_step lc)\<^sup>*\<^sup>* (snd (acknowledge_artifact_cleanup lc le key b t)) s')"
  using assms(2)
proof (induction rule: rtranclp_induct)
  case base
  then show ?case using assms(3,4) by simp
next
  case (step t u)
  from step.IH show ?case
  proof (elim disjE)
    assume "\<exists>r' y. slot_view lc t slot = Some r' \<and> sl_artifact_binding r' = Some y \<and> binding_le x y"
    then obtain c y where c: "slot_view lc t slot = Some c" "sl_artifact_binding c = Some y" "binding_le x y" by blast
    from registry_step_binding [OF assms(1) step.hyps(2) c(1,2)] show ?thesis
    proof (elim disjE exE conjE)
      fix r' z assume "slot_view lc u slot = Some r'" "sl_artifact_binding r' = Some z" "binding_le y z"
      then show ?thesis using c(3) binding_le_trans by blast
    next
      fix le key b assume "u = snd (acknowledge_artifact_cleanup lc le key b t)" "is_tombstone (sl_state c)" "ab_cleanup_completed y"
        "slot_view lc u slot = Some (c\<lparr>sl_artifact_binding := None\<rparr>)"
      then show ?thesis using c step.hyps(1) by blast
    qed
  qed (meson step.hyps(2) rtranclp.rtrancl_into_rtrancl)
qed

text \<open>C7. A cleanup of a slot with a recorded process leaves a tombstone only if some answer of the operating system during
  that very cleanup shows that the process is gone: another boot, no such process, or another process under its number.\<close>

theorem tombstone_needs_evidence:
  assumes "launch_codec_ok lc" "cleanup lc le slot generation s = (res, s')" "slot_view lc s slot = Some r"
    and "slot_identity (sl_state r) = Some i" "slot_view lc s' slot = Some r'" "is_tombstone (sl_state r')"
  shows "\<exists>k. rg_calls s \<le> k \<and> k < rg_calls s' \<and> process_gone le k i"
  using assms(2)
proof (cases rule: cleanup_cases)
  case 1
  then have "r' = r" using assms(3,5) by (simp add: slot_view_def)
  then show ?thesis using assms(4,6) by (cases "sl_state r") auto
next
  case (quiet current)
  then show ?thesis using assms(3,4) by simp
next
  case (process current nonce i' released t k)
  then have cur: "current = r" and "i' = i" and view: "slot_view lc t (sl_slot current) = Some current"
    using assms(3,4) by (auto simp: slot_view_def)
  have "seen_gone le i t s'"
    using cleanup_process_run [OF assms(1) process(7,2,5) view] assms(5,6) process(4) cur \<open>i' = i\<close> by auto
  then show ?thesis using process(6) by (auto simp: seen_gone_def intro: le_trans [OF le_add1])
qed

text \<open>C8. A cleanup kills at most one process, the one that the slot records under the given generation, and through a process
  descriptor that this cleanup opened: after the call that opened the descriptor and before the call that sent the signal, boot,
  process namespace and start time of that process were read and are those of the record. The number cannot have passed to
  another process in between, since the descriptor was open before the identity was read.\<close>

theorem cleanup_kills_only_verified:
  assumes "launch_codec_ok lc" "cleanup lc le slot generation s = (res, s')" "rg_signalled s' \<noteq> rg_signalled s"
  shows "\<exists>r i fd v k. slot_view lc s slot = Some r \<and> sl_generation r = generation \<and> slot_identity (sl_state r) = Some i
    \<and> rg_signalled s' = rg_signalled s @ [(fd, k)] \<and> fd_pid fd = pi_pid i
    \<and> rg_calls s \<le> fd_opened_at fd \<and> le_pidfd_open le (fd_opened_at fd) (pi_pid i) = Present ()
    \<and> fd_opened_at fd < v \<and> process_verified le v i \<and> v + 2 < k \<and> k < rg_calls s'"
  using assms(2)
proof (cases rule: cleanup_cases)
  case (process current nonce i released t k)
  have view: "slot_view lc t (sl_slot current) = Some current" using process(1,4,6) by (simp add: slot_view_def)
  have "killed_verified le i t s'"
    using cleanup_process_run [OF assms(1) process(7,2,5) view] assms(3) process(6) by simp
  then have "killed_verified le i s s'" using process(6) by (auto elim: killed_verified_earlier)
  moreover have "slot_identity (sl_state current) = Some i" using process(5) by auto
  ultimately show ?thesis using process(1,3) unfolding killed_verified_def by blast
qed (use assms(3) in simp_all)

section \<open>Runs in which no call fails\<close>

definition calm :: "launch_env \<Rightarrow> bool" where
  "calm le \<longleftrightarrow> (\<forall>k. \<not> le_fails le k \<and> \<not> le_fails_after le k)"

definition storable :: "launch_codec \<Rightarrow> launch_slot \<Rightarrow> bool" where
  "storable lc r \<longleftrightarrow> is_some_and (lc_slot_to_vec lc r) (\<lambda>bytes. Suc (length bytes) \<le> MAX_RECORD_BYTES)"

lemma slot_view_calls [simp]: "slot_view lc (s\<lparr>rg_calls := k\<rparr>) slot = slot_view lc s slot"
  by (simp add: slot_view_def)

lemma read_valid_slot_ok:
  assumes "calm le" "slot_view lc s slot = Some r"
  shows "read_valid_slot lc le slot s = (Inr r, s\<lparr>rg_calls := Suc (rg_calls s)\<rparr>)"
  using assms by (simp add: calm_def read_valid_slot_def rbind_def plain_call_def next_call_def rreturn_def rsome_def slot_view_def)

lemma locked_slot_ok:
  assumes "calm le" "slot_view lc s (mk_slot key) = Some c" "sl_generation c = mk_generation key"
  shows "locked_slot lc le key s = (Inr c, s\<lparr>rg_calls := Suc (Suc (rg_calls s))\<rparr>)"
proof -
  have "plain_call le RegistryBusy s = (Inr (), s\<lparr>rg_calls := Suc (rg_calls s)\<rparr>)"
    using assms(1) by (simp add: plain_call_Inr calm_def)
  moreover have "read_valid_slot lc le (mk_slot key) (s\<lparr>rg_calls := Suc (rg_calls s)\<rparr>)
      = (Inr c, s\<lparr>rg_calls := Suc (Suc (rg_calls s))\<rparr>)"
    using read_valid_slot_ok [OF assms(1), of lc "s\<lparr>rg_calls := Suc (rg_calls s)\<rparr>"] assms(2) by simp
  ultimately show ?thesis using assms(3) by (simp add: locked_slot_def rbind_def rreturn_def)
qed

text \<open>A replacement that the checks accept takes place, and leaves the other slots alone.\<close>

lemma registry_replace_slot_ok:
  assumes "launch_codec_ok lc" "calm le" "storable lc n" "launch_slot_ok n" "validate_transition e n"
    and "slot_view lc s (sl_slot e) = Some e"
  shows "\<exists>s'. registry_replace_slot lc le e n s = (Inr (), s') \<and> slot_view lc s' (sl_slot e) = Some n
    \<and> (\<forall>slot. slot \<noteq> sl_slot e \<longrightarrow> rg_slots s' slot = rg_slots s slot)
    \<and> rg_slot_count s' = rg_slot_count s \<and> rg_registrations s' = rg_registrations s"
proof -
  obtain bytes where b: "lc_slot_to_vec lc n = Some bytes" "Suc (length bytes) \<le> MAX_RECORD_BYTES"
    using assms(3) by (auto simp: storable_def is_some_and_def split: option.splits)
  have line: "json_line (lc_slot_to_vec lc n) = Inr (bytes @ [0x0a])" using b by (simp add: json_line_def)
  let ?s1 = "s\<lparr>rg_calls := Suc (rg_calls s)\<rparr>"
  let ?s2 = "s\<lparr>rg_slots := (rg_slots s)(sl_slot e := Some (bytes @ [0x0a])), rg_calls := Suc (Suc (rg_calls s))\<rparr>"
  have 1: "read_valid_slot lc le (sl_slot e) s = (Inr e, ?s1)" by (rule read_valid_slot_ok [OF assms(2,6)])
  have 2: "atomic_replace_slot lc le (sl_slot e) n ?s1 = (Inr (), ?s2)"
    using line assms(2) by (simp add: atomic_replace_slot_def rbind_def next_call_def calm_def)
  have "sl_slot n = sl_slot e" using assms(5) by (simp add: validate_transition_def)
  then have view: "slot_view lc ?s2 (sl_slot e) = Some n"
    using json_line_Inr [OF assms(1) line assms(4)] by (simp add: slot_view_def)
  have 3: "read_valid_slot lc le (sl_slot e) ?s2 = (Inr n, ?s2\<lparr>rg_calls := Suc (rg_calls ?s2)\<rparr>)"
    by (rule read_valid_slot_ok [OF assms(2) view])
  have "registry_replace_slot lc le e n s = (Inr (), ?s2\<lparr>rg_calls := Suc (rg_calls ?s2)\<rparr>)"
    using assms(5) by (simp add: registry_replace_slot_def rbind_def 1 2 3)
  then show ?thesis using view by (intro exI [of _ "?s2\<lparr>rg_calls := Suc (rg_calls ?s2)\<rparr>"]) (simp add: slot_view_def)
qed

lemma persist_tombstone_ok:
  assumes "launch_codec_ok lc" "calm le" "launch_slot_ok c" "slot_view lc s (sl_slot c) = Some c"
    and state: "sl_state c = CleanupPending nonce i released"
    and "\<forall>k. storable lc (c\<lparr>sl_state := ResolvedTombstone nonce (Some i) (le_now le k)\<rparr>)"
  shows "\<exists>s' t. persist_tombstone lc le c nonce (Some i) s = (Inr OutcomeResolvedTombstone, s')
    \<and> slot_view lc s' (sl_slot c) = Some (c\<lparr>sl_state := ResolvedTombstone nonce (Some i) t\<rparr>)"
proof -
  let ?n = "c\<lparr>sl_state := ResolvedTombstone nonce (Some i) (le_now le (rg_calls s))\<rparr>"
  have "launch_slot_ok ?n"
    using assms(3) state by (cases "sl_artifact_binding c") (auto simp: launch_slot_ok_def validate_slot_record_def state_nonce_def)
  moreover have "validate_transition c ?n"
    using assms(3) state by (auto simp: validate_transition_def launch_slot_ok_def validate_slot_record_def state_step_def owner_stable_def)
  ultimately obtain s' where "registry_replace_slot lc le c ?n (s\<lparr>rg_calls := Suc (rg_calls s)\<rparr>) = (Inr (), s')"
    "slot_view lc s' (sl_slot c) = Some ?n"
    using registry_replace_slot_ok [OF assms(1,2), of ?n c "s\<lparr>rg_calls := Suc (rg_calls s)\<rparr>"] assms(4,6) by auto
  then show ?thesis using assms(2)
    by (intro exI [of _ s'] exI [of _ "le_now le (rg_calls s)"])
      (simp add: persist_tombstone_def rbind_def next_call_def rreturn_def calm_def)
qed

text \<open>C29. If no call fails and the recorded process does not exist any more, a cleanup of its slot succeeds: it answers that
  the slot is resolved and leaves a tombstone with the process that the slot recorded.\<close>

theorem cleanup_resolves_lost_process:
  assumes "launch_codec_ok lc" "calm le" "\<forall>k pid. le_pidfd_open le k pid = Absent"
    and "slot_view lc s slot = Some r" "sl_generation r = generation" "sl_state r = IdentityDurable nonce i released"
    and "storable lc (r\<lparr>sl_state := CleanupPending nonce i released\<rparr>)"
    and "\<forall>k. storable lc (r\<lparr>sl_state := ResolvedTombstone nonce (Some i) (le_now le k)\<rparr>)"
  shows "\<exists>s' t. cleanup lc le slot generation s = (Inr OutcomeResolvedTombstone, s')
    \<and> slot_view lc s' slot = Some (r\<lparr>sl_state := ResolvedTombstone nonce (Some i) t\<rparr>)"
proof -
  let ?pending = "r\<lparr>sl_state := CleanupPending nonce i released\<rparr>"
  let ?s1 = "s\<lparr>rg_calls := Suc (Suc (rg_calls s))\<rparr>"
  have r: "launch_slot_ok r" "sl_slot r = slot" using assms(4) decode_slot_Some by (auto simp: slot_view_def)
  have lock: "locked_slot lc le \<lparr>mk_slot = slot, mk_generation = generation\<rparr> s = (Inr r, ?s1)"
    using locked_slot_ok [OF assms(2), of lc s "\<lparr>mk_slot = slot, mk_generation = generation\<rparr>"] assms(4,5) by simp
  have ok: "launch_slot_ok ?pending"
    using r(1) assms(6) by (auto simp: launch_slot_ok_def validate_slot_record_def state_nonce_def split: option.splits)
  have "validate_transition r ?pending"
    using r(1) assms(6) by (auto simp: validate_transition_def launch_slot_ok_def validate_slot_record_def state_step_def owner_stable_def)
  then obtain s2 where 2: "registry_replace_slot lc le r ?pending ?s1 = (Inr (), s2)" "slot_view lc s2 slot = Some ?pending"
    using registry_replace_slot_ok [OF assms(1,2,7) ok, of r ?s1] assms(4) r(2) by auto
  let ?s3 = "s2\<lparr>rg_calls := Suc (rg_calls s2)\<rparr>"
  have 3: "open_verified_pidfd le i s2 = (Inr Absent, ?s3)"
    using assms(3) by (simp add: open_verified_pidfd_def pidfd_open_def rbind_def next_call_def rreturn_def)
  obtain s' t where 4: "persist_tombstone lc le ?pending nonce (Some i) ?s3 = (Inr OutcomeResolvedTombstone, s')"
    "slot_view lc s' slot = Some (?pending\<lparr>sl_state := ResolvedTombstone nonce (Some i) t\<rparr>)"
    using persist_tombstone_ok [OF assms(1,2) ok, of ?s3 nonce i released] 2(2) r(2) assms(8) by auto
  have "r \<noteq> ?pending" using assms(6) by (auto dest: arg_cong [of _ _ sl_state])
  then have "cleanup_process lc le r nonce i released ?s1 = (Inr OutcomeResolvedTombstone, s')"
    by (simp add: cleanup_process_def Let_def rbind_def 2(1) terminate_identity_def 3 4(1))
  then show ?thesis using lock assms(6) 4(2) by (intro exI [of _ s'] exI [of _ t]) (simp add: cleanup_def rbind_def)
qed

section \<open>A registry to run\<close>

text \<open>A codec that numbers the records of a table, and environments in which no call fails. They show that the
  hypotheses of the properties can hold.\<close>

fun index_of :: "'a \<Rightarrow> 'a list \<Rightarrow> nat option" where
  "index_of x [] = None"
| "index_of x (y # ys) = (if x = y then Some 0 else map_option Suc (index_of x ys))"

lemma index_of_Some: "index_of x ys = Some n \<Longrightarrow> n < length ys \<and> ys ! n = x"
  by (induction ys arbitrary: n) (auto split: if_splits)

definition table_encode :: "'a list \<Rightarrow> 'a \<Rightarrow> u8 list option" where
  "table_encode table x = (case index_of x table of None \<Rightarrow> None | Some n \<Rightarrow> if n < 256 then Some [of_nat n] else None)"

definition table_decode :: "'a list \<Rightarrow> u8 list \<Rightarrow> 'a option" where
  "table_decode table bytes = (case bytes of b # _ \<Rightarrow> if unat b < length table then Some (table ! unat b) else None | [] \<Rightarrow> None)"

definition table_codec :: "launch_slot list \<Rightarrow> registration_record list \<Rightarrow> launch_codec" where
  "table_codec slots registrations = \<lparr>lc_slot_to_vec = table_encode slots, lc_slot_from_slice = table_decode slots,
     lc_registration_to_vec = table_encode registrations, lc_registration_from_slice = table_decode registrations,
     lc_uuid_simple = (\<lambda>u. [0x61])\<rparr>"

lemma table_round_trip: "table_encode table x = Some bytes \<Longrightarrow> table_decode table (bytes @ rest) = Some x"
  by (auto simp: table_encode_def table_decode_def unat_of_nat take_bit_nat_eq_self dest: index_of_Some split: option.splits if_splits)

lemma table_codec_ok: "launch_codec_ok (table_codec slots registrations)"
  by (simp add: launch_codec_ok_def table_codec_def table_round_trip)

definition calm_env :: "unit evidence \<Rightarrow> launch_env" where
  "calm_env opened = \<lparr>le_fails = (\<lambda>k. False), le_fails_after = (\<lambda>k. False), le_new_uuid = (\<lambda>k. 7), le_now = (\<lambda>k. 200),
     le_boot_uuid = (\<lambda>k. Present 9), le_pid_namespace_inode = (\<lambda>k pid. Present 5),
     le_stat = (\<lambda>k pid. Present ([0x34, 0x20, 0x28, 0x61, 0x29, 0x20, 0x62, 0x29] @ concat (replicate 19 [0x20, 0x31]) @ [0x20, 0x33, 0x33])),
     le_pidfd_open = (\<lambda>k pid. opened)\<rparr>"

definition demo_owner :: managed_owner_tag where
  "demo_owner = \<lparr>ot_kind = OwnerSpeculation, ot_tournament_uuid = 3, ot_candidate_index = 0, ot_role = OwnerRunner\<rparr>"

definition demo_identity :: process_identity where
  "demo_identity = \<lparr>pi_boot_uuid = 9, pi_pid_namespace_inode = 5, pi_pid = 4, pi_start_ticks = 33\<rparr>"

definition demo_root :: managed_directory_identity where
  "demo_root = \<lparr>md_boot_uuid = 9, md_dev = 1, md_ino = 2, md_statx_mnt_id_unique = 3\<rparr>"

definition demo_slot :: "launch_slot_state \<Rightarrow> artifact_binding option \<Rightarrow> launch_slot" where
  "demo_slot state binding = \<lparr>sl_schema_version = SLOT_SCHEMA_VERSION, sl_slot = 0, sl_generation = 1,
     sl_owner = Some demo_owner, sl_artifact_binding = binding, sl_state = state\<rparr>"

definition demo_binding :: artifact_binding where
  "demo_binding = fresh_binding 7 demo_root [0x61]"

definition demo_directory :: artifact_binding where
  "demo_directory = demo_binding\<lparr>ab_private_directory := Some demo_root\<rparr>"

definition demo_pending :: artifact_binding where
  "demo_pending = demo_directory\<lparr>ab_runner_create_pending := True\<rparr>"

definition demo_quarantine :: artifact_binding where
  "demo_quarantine = demo_directory\<lparr>ab_cleanup_quarantine := Some (0x2e # 0x61 # map of_char ''.cleanup-'' @ [0x61])\<rparr>"

definition demo_done :: artifact_binding where
  "demo_done = demo_quarantine\<lparr>ab_cleanup_ownership_removed := True, ab_cleanup_socket_removed := True, ab_cleanup_runner_removed := True,
     ab_cleanup_completed := True\<rparr>"

definition demo_tombstone :: launch_slot_state where
  "demo_tombstone = ResolvedTombstone 7 None 200"

definition demo_table :: "launch_slot list" where
  "demo_table =
     [genesis_slot 0, genesis_slot 1, demo_slot (IntentDurable 7 100) None,
      demo_slot (IntentDurable 7 100) (Some demo_binding), demo_slot (IntentDurable 7 100) (Some demo_directory),
      demo_slot demo_tombstone (Some demo_directory), demo_slot demo_tombstone (Some demo_quarantine),
      demo_slot demo_tombstone (Some (demo_quarantine\<lparr>ab_cleanup_unlink_pending := Some StepOwnership\<rparr>)),
      demo_slot demo_tombstone (Some (demo_quarantine\<lparr>ab_cleanup_ownership_removed := True\<rparr>)),
      demo_slot (IdentityDurable 7 demo_identity True) None, demo_slot (CleanupPending 7 demo_identity True) None,
      demo_slot (ResolvedTombstone 7 (Some demo_identity) 200) None, demo_slot demo_tombstone (Some demo_pending),
      demo_slot demo_tombstone (Some demo_done), demo_slot demo_tombstone None]"

definition demo_codec :: launch_codec where
  "demo_codec = table_codec demo_table
     [\<lparr>rr_schema_version = GATE_SCHEMA_VERSION, rr_slot = 0, rr_generation = 1, rr_registration = None\<rparr>]"

definition demo_registry :: "u8 \<Rightarrow> registry" where
  "demo_registry record = \<lparr>rg_slots = (\<lambda>slot. Some [if slot = 0 then record else 1, 0x0a]), rg_registrations = (\<lambda>slot. None),
     rg_slot_count = 2, rg_signalled = [], rg_calls = 0\<rparr>"

definition demo_allocated :: registry where
  "demo_allocated = snd (allocate_intent demo_codec (calm_env Absent) 100 (Some demo_owner) (demo_registry 0))"

definition demo_reserved :: registry where
  "demo_reserved = snd (begin_artifact_creation demo_codec (calm_env Absent) demo_root [0x61]
     (Some (demo_slot (IntentDurable 7 100) None)) demo_allocated)"

definition demo_created :: registry where
  "demo_created = snd (finish_artifact_creation demo_codec (calm_env Absent) demo_root
     (Some (demo_slot (IntentDurable 7 100) (Some demo_binding))) demo_reserved)"

definition demo_cleaned :: registry where
  "demo_cleaned = snd (cleanup demo_codec (calm_env Absent) 0 1 demo_created)"

definition demo_key :: managed_key where
  "demo_key = \<lparr>mk_slot = 0, mk_generation = 1\<rparr>"

definition demo_quarantined :: registry where
  "demo_quarantined = snd (begin_artifact_cleanup demo_codec (calm_env Absent) demo_key demo_directory demo_cleaned)"

definition demo_unlinking :: registry where
  "demo_unlinking = snd (begin_artifact_unlink demo_codec (calm_env Absent) demo_key demo_quarantine StepOwnership demo_quarantined)"

definition demo_unlinked :: registry where
  "demo_unlinked = snd (finish_artifact_unlink demo_codec (calm_env Absent) demo_key demo_quarantine StepOwnership demo_unlinking)"

lemma demo_codec_ok: "launch_codec_ok demo_codec"
  by (simp add: demo_codec_def table_codec_ok)

lemma calm_env_simps [simp]:
  "le_fails (calm_env opened) k = False" "le_fails_after (calm_env opened) k = False" "le_new_uuid (calm_env opened) k = 7"
  "le_now (calm_env opened) k = 200" "le_boot_uuid (calm_env opened) k = Present 9"
  "le_pid_namespace_inode (calm_env opened) k pid = Present 5" "le_pidfd_open (calm_env opened) k pid = opened"
  by (simp_all add: calm_env_def)

lemma demo_views:
  "slot_view demo_codec (demo_registry 0) 0 = Some (genesis_slot 0)"
  "slot_view demo_codec (demo_registry 0) 1 = Some (genesis_slot 1)"
  "slot_view demo_codec (demo_registry 9) 0 = Some (demo_slot (IdentityDurable 7 demo_identity True) None)"
  "slot_view demo_codec (demo_registry 10) 0 = Some (demo_slot (CleanupPending 7 demo_identity True) None)"
  "slot_view demo_codec (demo_registry 12) 0 = Some (demo_slot demo_tombstone (Some demo_pending))"
  by code_simp+

lemma demo_encodes:
  "table_encode demo_table (demo_slot (IntentDurable 7 100) None) = Some [2]"
  "table_encode demo_table (demo_slot (IntentDurable 7 100) (Some demo_binding)) = Some [3]"
  "table_encode demo_table (demo_slot (IntentDurable 7 100) (Some demo_directory)) = Some [4]"
  "table_encode demo_table (demo_slot demo_tombstone (Some demo_directory)) = Some [5]"
  "table_encode demo_table (demo_slot demo_tombstone (Some demo_quarantine)) = Some [6]"
  "table_encode demo_table (demo_slot demo_tombstone
     (Some (demo_quarantine\<lparr>ab_cleanup_unlink_pending := Some StepOwnership\<rparr>))) = Some [7]"
  "table_encode demo_table (demo_slot demo_tombstone
     (Some (demo_quarantine\<lparr>ab_cleanup_ownership_removed := True\<rparr>))) = Some [8]"
  "table_encode demo_table (demo_slot (CleanupPending 7 demo_identity True) None) = Some [10]"
  "table_encode demo_table (demo_slot (ResolvedTombstone 7 (Some demo_identity) 200) None) = Some [11]"
  by code_simp+

lemma demo_transitions:
  "validate_transition (genesis_slot 0) (demo_slot (IntentDurable 7 100) None)"
  "validate_transition (demo_slot (IntentDurable 7 100) None) (demo_slot (IntentDurable 7 100) (Some demo_binding))"
  "validate_transition (demo_slot (IntentDurable 7 100) (Some demo_binding)) (demo_slot (IntentDurable 7 100) (Some demo_directory))"
  "validate_transition (demo_slot (IntentDurable 7 100) (Some demo_directory)) (demo_slot demo_tombstone (Some demo_directory))"
  "validate_transition (demo_slot demo_tombstone (Some demo_directory)) (demo_slot demo_tombstone (Some demo_quarantine))"
  "validate_transition (demo_slot demo_tombstone (Some demo_quarantine))
     (demo_slot demo_tombstone (Some (demo_quarantine\<lparr>ab_cleanup_unlink_pending := Some StepOwnership\<rparr>)))"
  "validate_transition (demo_slot demo_tombstone (Some (demo_quarantine\<lparr>ab_cleanup_unlink_pending := Some StepOwnership\<rparr>)))
     (demo_slot demo_tombstone (Some (demo_quarantine\<lparr>ab_cleanup_ownership_removed := True\<rparr>)))"
  "validate_transition (demo_slot (IdentityDurable 7 demo_identity True) None) (demo_slot (CleanupPending 7 demo_identity True) None)"
  "validate_transition (demo_slot (CleanupPending 7 demo_identity True) None)
     (demo_slot (ResolvedTombstone 7 (Some demo_identity) 200) None)"
  by (simp add: validate_transition_def genesis_slot_def demo_slot_def state_step_def owner_stable_def binding_update_def
      checked_add_def demo_owner_def owner_tag_validate_def is_nil_def) code_simp+

lemma demo_slots_ok:
  "launch_slot_ok (demo_slot (IntentDurable 7 100) None)"
  "launch_slot_ok (demo_slot (IntentDurable 7 100) (Some demo_binding))"
  "launch_slot_ok (demo_slot (IntentDurable 7 100) (Some demo_directory))"
  "launch_slot_ok (demo_slot demo_tombstone (Some demo_directory))"
  "launch_slot_ok (demo_slot demo_tombstone (Some demo_quarantine))"
  "launch_slot_ok (demo_slot demo_tombstone (Some (demo_quarantine\<lparr>ab_cleanup_unlink_pending := Some StepOwnership\<rparr>)))"
  "launch_slot_ok (demo_slot demo_tombstone (Some (demo_quarantine\<lparr>ab_cleanup_ownership_removed := True\<rparr>)))"
  "launch_slot_ok (demo_slot (CleanupPending 7 demo_identity True) None)"
  "launch_slot_ok (demo_slot (ResolvedTombstone 7 (Some demo_identity) 200) None)"
  by code_simp+

lemma calm_env_calm [simp]: "calm (calm_env opened)"
  by (simp add: calm_def)

lemma demo_slot_simps [simp]:
  "sl_slot (demo_slot st b) = 0" "sl_generation (demo_slot st b) = 1" "sl_state (demo_slot st b) = st"
  "sl_artifact_binding (demo_slot st b) = b" "sl_owner (demo_slot st b) = Some demo_owner"
  "(demo_slot st b)\<lparr>sl_artifact_binding := b'\<rparr> = demo_slot st b'" "(demo_slot st b)\<lparr>sl_state := st'\<rparr> = demo_slot st' b"
  by (simp_all add: demo_slot_def)

lemma demo_key_simps [simp]: "mk_slot demo_key = 0" "mk_generation demo_key = 1"
  by (simp_all add: demo_key_def)

lemma demo_storable: "table_encode demo_table r = Some [b] \<Longrightarrow> storable demo_codec r"
  by (simp add: storable_def demo_codec_def table_codec_def MAX_RECORD_BYTES_def)

lemma demo_replace:
  assumes "slot_view demo_codec s 0 = Some (demo_slot st b)" "validate_transition (demo_slot st b) (demo_slot st' b')"
    and "launch_slot_ok (demo_slot st' b')" "table_encode demo_table (demo_slot st' b') = Some [code]"
  shows "\<exists>s'. registry_replace_slot demo_codec (calm_env opened) (demo_slot st b) (demo_slot st' b') s = (Inr (), s')
    \<and> slot_view demo_codec s' 0 = Some (demo_slot st' b')"
  using registry_replace_slot_ok [OF demo_codec_ok calm_env_calm demo_storable [OF assms(4)] assms(3,2), of s opened] assms(1) by auto

lemma demo_locked:
  assumes "slot_view demo_codec s 0 = Some (demo_slot st b)"
  shows "locked_slot demo_codec (calm_env opened) demo_key s = (Inr (demo_slot st b), s\<lparr>rg_calls := Suc (Suc (rg_calls s))\<rparr>)"
  by (rule locked_slot_ok) (use assms in simp_all)

lemma demo_store:
  assumes "slot_view demo_codec s 0 = Some (demo_slot demo_tombstone (Some b))"
    and "validate_transition (demo_slot demo_tombstone (Some b)) (demo_slot demo_tombstone (Some b'))"
    and "launch_slot_ok (demo_slot demo_tombstone (Some b'))" "table_encode demo_table (demo_slot demo_tombstone (Some b')) = Some [code]"
  shows "slot_view demo_codec (snd (store_binding demo_codec (calm_env opened) (demo_slot demo_tombstone (Some b)) b' s)) 0
    = Some (demo_slot demo_tombstone (Some b'))"
  using demo_replace [OF assms, of opened] by (auto simp: store_binding_def rbind_def rreturn_def)

lemma demo_binding_steps:
  "directory_identity_validate demo_root" "binding_validate demo_binding" "creation_phase demo_binding = Some PhaseReserved"
  "same_artifact demo_directory demo_directory" "\<not> creation_pending demo_directory" "ab_cleanup_quarantine demo_directory = None"
  "\<not> ab_socket_retire_pending demo_directory" "validate_managed_artifact_leaf (quarantine_leaf demo_codec demo_directory)"
  "demo_directory\<lparr>ab_cleanup_quarantine := Some (quarantine_leaf demo_codec demo_directory), ab_cleanup_completed := False\<rparr> = demo_quarantine"
  "same_artifact demo_quarantine demo_quarantine" "is_some (ab_cleanup_quarantine demo_quarantine)"
  "\<not> ab_cleanup_completed demo_quarantine" "\<not> ab_cleanup_ownership_removed demo_quarantine"
  "ab_cleanup_unlink_pending demo_quarantine = None"
  "binding_validate (demo_quarantine\<lparr>ab_cleanup_unlink_pending := Some StepOwnership\<rparr>)"
  "same_artifact (demo_quarantine\<lparr>ab_cleanup_unlink_pending := Some StepOwnership\<rparr>) demo_quarantine"
  "record_removal StepOwnership (demo_quarantine\<lparr>ab_cleanup_unlink_pending := None\<rparr>)
     = Some (demo_quarantine\<lparr>ab_cleanup_ownership_removed := True\<rparr>)"
  by code_simp+

lemma demo_registration:
  "\<exists>t. replace_registration demo_codec (calm_env Absent) 0
      \<lparr>rr_schema_version = GATE_SCHEMA_VERSION, rr_slot = 0, rr_generation = 1, rr_registration = None\<rparr> s = (Inr (), t)
    \<and> rg_slots t = rg_slots s"
proof -
  let ?r = "\<lparr>rr_schema_version = GATE_SCHEMA_VERSION, rr_slot = 0, rr_generation = 1, rr_registration = None\<rparr>"
  have codec: "lc_registration_to_vec demo_codec ?r = Some [0]" "lc_registration_from_slice demo_codec [0, 0x0a] = Some ?r"
    by code_simp+
  let ?t = "s\<lparr>rg_registrations := (rg_registrations s)(0 := Some [0, 0x0a]), rg_calls := Suc (Suc (rg_calls s))\<rparr>"
  have "replace_registration demo_codec (calm_env Absent) 0 ?r s = (Inr (), ?t)"
    by (simp add: replace_registration_def atomic_replace_registration_def read_registration_def rbind_def plain_call_def
        next_call_def rreturn_def rsome_def codec json_line_def MAX_RECORD_BYTES_def)
  then show ?thesis by auto
qed

text \<open>The steps of a run: a slot is allocated, its directory created, its process found to be gone, and its
  ownership file removed from quarantine.\<close>

lemma demo_allocated_view: "slot_view demo_codec demo_allocated 0 = Some (demo_slot (IntentDurable 7 100) None)"
proof -
  let ?le = "calm_env Absent" and ?s = "demo_registry 0"
  have read: "read_slot demo_codec ?le slot (?s\<lparr>rg_calls := k\<rparr>) = (Inr (Inr (genesis_slot slot)), ?s\<lparr>rg_calls := Suc k\<rparr>)"
    if "slot = 0 \<or> slot = 1" for slot k
    using that demo_views(1,2) read_valid_slot_ok [of ?le demo_codec "?s\<lparr>rg_calls := k\<rparr>" slot "genesis_slot slot"]
    by (auto simp: read_slot_def attempt_def)
  have numbers: "slot_numbers (?s\<lparr>rg_calls := k\<rparr>) = [0, 1]" for k
    by (simp add: slot_numbers_def demo_registry_def numeral_2_eq_2)
  have scan: "scan_slots demo_codec ?le 100 (Some demo_owner) [0, 1] \<lparr>as_selected = None, as_unknown = 0, as_unreadable = 0\<rparr>
      (?s\<lparr>rg_calls := 1\<rparr>) = (Inr \<lparr>as_selected = Some (genesis_slot 0), as_unknown = 0, as_unreadable = 0\<rparr>, ?s\<lparr>rg_calls := 3\<rparr>)"
    by (simp add: scan_slot_def rbind_def read rreturn_def get_or_insert_def genesis_slot_def eval_nat_numeral)
  define intent where "intent = demo_slot (IntentDurable 7 100) None"
  let ?r = "\<lparr>rr_schema_version = GATE_SCHEMA_VERSION, rr_slot = 0, rr_generation = 1, rr_registration = None\<rparr>"
  obtain t where reg: "replace_registration demo_codec ?le 0 ?r (?s\<lparr>rg_calls := 4\<rparr>) = (Inr (), t)" "rg_slots t = rg_slots ?s"
    using demo_registration [of "?s\<lparr>rg_calls := 4\<rparr>"] by auto
  have "slot_view demo_codec t 0 = Some (genesis_slot 0)" using demo_views(1) reg(2) by (simp add: slot_view_def)
  then obtain u where rep: "registry_replace_slot demo_codec ?le (genesis_slot 0) intent t = (Inr (), u)" "slot_view demo_codec u 0 = Some intent"
    using registry_replace_slot_ok [OF demo_codec_ok calm_env_calm demo_storable [OF demo_encodes(1)] demo_slots_ok(1) demo_transitions(1), of t Absent]
    by (auto simp: genesis_slot_def intent_def)
  have claim: "claim_vacant demo_codec ?le 100 (Some demo_owner) (genesis_slot 0) 1 (?s\<lparr>rg_calls := 3\<rparr>)
      = (Inr intent, u\<lparr>rg_calls := Suc (rg_calls u)\<rparr>)"
    using reg(1) rep(1)
    by (simp add: claim_vacant_def rbind_def next_call_def rreturn_def plain_call_def genesis_slot_def intent_def demo_slot_def Let_def)
  have "allocate_intent demo_codec ?le 100 (Some demo_owner) ?s = claim_vacant demo_codec ?le 100 (Some demo_owner) (genesis_slot 0) 1 (?s\<lparr>rg_calls := 3\<rparr>)"
    using scan numbers [of 1]
    by (simp add: allocate_intent_def rbind_def plain_call_def next_call_def rreturn_def rsome_def demo_owner_def owner_tag_validate_def is_nil_def
        genesis_slot_def checked_add_def demo_registry_def)
  then show ?thesis using claim rep(2) by (simp add: demo_allocated_def intent_def)
qed

lemma demo_reserved_view: "slot_view demo_codec demo_reserved 0 = Some (demo_slot (IntentDurable 7 100) (Some demo_binding))"
  using demo_replace [OF demo_allocated_view demo_transitions(2) demo_slots_ok(2) demo_encodes(2), of Absent]
  by (auto simp: demo_reserved_def begin_artifact_creation_def rbind_def rsome_def rreturn_def demo_binding_steps
      reserve_update_def Let_def simp flip: demo_binding_def)

lemma demo_created_view: "slot_view demo_codec demo_created 0 = Some (demo_slot (IntentDurable 7 100) (Some demo_directory))"
  using demo_replace [OF demo_reserved_view demo_transitions(3) demo_slots_ok(3) demo_encodes(3), of Absent]
  by (auto simp: demo_created_def finish_artifact_creation_def creation_step_def rbind_def rsome_def rreturn_def demo_binding_steps
      reserve_update_def Let_def simp flip: demo_directory_def)

lemma demo_cleaned_view: "slot_view demo_codec demo_cleaned 0 = Some (demo_slot demo_tombstone (Some demo_directory))"
proof -
  let ?s = "demo_created\<lparr>rg_calls := Suc (Suc (Suc (Suc (rg_calls demo_created))))\<rparr>"
  have "slot_view demo_codec ?s 0 = Some (demo_slot (IntentDurable 7 100) (Some demo_directory))"
    using demo_created_view by simp
  from demo_replace [OF this demo_transitions(4) demo_slots_ok(4) demo_encodes(4), of Absent] show ?thesis
    using demo_locked [OF demo_created_view, of Absent]
    by (auto simp: demo_cleaned_def cleanup_def rbind_def reconcile_intent_def attempt_def plain_call_def next_call_def
        rreturn_def persist_tombstone_def demo_key_def demo_tombstone_def)
qed

lemma demo_quarantined_view: "slot_view demo_codec demo_quarantined 0 = Some (demo_slot demo_tombstone (Some demo_quarantine))"
  using demo_store [of "demo_cleaned\<lparr>rg_calls := Suc (Suc (rg_calls demo_cleaned))\<rparr>", OF _ demo_transitions(5) demo_slots_ok(5) demo_encodes(5), of Absent]
    demo_locked [OF demo_cleaned_view, of Absent] demo_cleaned_view
  by (simp add: demo_quarantined_def begin_artifact_cleanup_def rbind_def rsome_def rreturn_def demo_binding_steps Let_def demo_tombstone_def)

lemma demo_unlinking_view:
  "slot_view demo_codec demo_unlinking 0 = Some (demo_slot demo_tombstone (Some (demo_quarantine\<lparr>ab_cleanup_unlink_pending := Some StepOwnership\<rparr>)))"
  using demo_store [of "demo_quarantined\<lparr>rg_calls := Suc (Suc (rg_calls demo_quarantined))\<rparr>", OF _ demo_transitions(6) demo_slots_ok(6) demo_encodes(6), of Absent]
    demo_locked [OF demo_quarantined_view, of Absent] demo_quarantined_view
  by (simp add: demo_unlinking_def begin_artifact_unlink_def tombstone_binding_def rbind_def rsome_def rreturn_def demo_binding_steps Let_def demo_tombstone_def)

lemma demo_unlinked_view:
  "slot_view demo_codec demo_unlinked 0 = Some (demo_slot demo_tombstone (Some (demo_quarantine\<lparr>ab_cleanup_ownership_removed := True\<rparr>)))"
  using demo_store [of "demo_unlinking\<lparr>rg_calls := Suc (Suc (rg_calls demo_unlinking))\<rparr>", OF _ demo_transitions(7) demo_slots_ok(7) demo_encodes(7), of Absent]
    demo_locked [OF demo_unlinking_view, of Absent] demo_unlinking_view
  by (simp add: demo_unlinked_def finish_artifact_unlink_def tombstone_binding_def rbind_def rsome_def rreturn_def demo_binding_steps Let_def demo_tombstone_def
      del: record_removal.simps)

lemma demo_genesis: "genesis demo_codec (demo_registry 0)"
  using demo_views(1,2) by (simp add: genesis_def slot_numbers_def demo_registry_def numeral_2_eq_2)

lemma demo_allocation: "(registry_step demo_codec)\<^sup>*\<^sup>* (demo_registry 0) demo_allocated"
  unfolding demo_allocated_def by (intro r_into_rtranclp registry_step.allocates) simp

lemma demo_run: "(registry_step demo_codec)\<^sup>*\<^sup>* (demo_registry 0) demo_unlinked"
proof -
  have "registry_step demo_codec demo_allocated demo_reserved"
    unfolding demo_reserved_def by (intro registry_step.begins) simp
  moreover have "registry_step demo_codec demo_reserved demo_created" "registry_step demo_codec demo_created demo_cleaned"
    "registry_step demo_codec demo_cleaned demo_quarantined" "registry_step demo_codec demo_quarantined demo_unlinking"
    "registry_step demo_codec demo_unlinking demo_unlinked"
    unfolding demo_created_def demo_cleaned_def demo_quarantined_def demo_unlinking_def demo_unlinked_def
    by (rule registry_step.intros)+
  ultimately show ?thesis using demo_allocation by (meson rtranclp.rtrancl_into_rtrancl)
qed

lemma demo_numbers: "slot_numbers demo_unlinked = [0, 1]" "slot_numbers demo_allocated = [0, 1]"
proof -
  have base: "slot_numbers (demo_registry 0) = [0, 1]"
    by (simp add: slot_numbers_def demo_registry_def numeral_2_eq_2)
  have "rg_slot_count s' = rg_slot_count s" if "(registry_step demo_codec)\<^sup>*\<^sup>* s s'" for s s'
    using registry_steps_moves [OF demo_codec_ok that] by (simp add: moves_def)
  then show "slot_numbers demo_unlinked = [0, 1]" "slot_numbers demo_allocated = [0, 1]"
    using demo_run demo_allocation base slot_numbers_cong by metis+
qed

theorem slots_follow_history_witness:
  "\<exists>r'. slot_view demo_codec demo_unlinked 0 = Some r' \<and> slot_history (genesis_slot 0) r'"
  by (rule slots_follow_history [OF demo_codec_ok demo_run demo_views(1)])

theorem owners_stay_unique_witness:
  "\<exists>r r'. slot_view demo_codec demo_allocated 0 = Some r \<and> slot_view demo_codec demo_allocated 1 = Some r' \<and> launch_slot_ok r \<and> launch_slot_ok r'
    \<and> sl_owner r \<noteq> sl_owner r'"
proof -
  from owners_stay_unique [OF demo_codec_ok demo_genesis demo_allocation, of 0 1] demo_numbers(2) demo_allocated_view
  show ?thesis by simp
qed

theorem artifacts_removed_in_order_witness:
  "is_tombstone (sl_state (demo_slot demo_tombstone (Some (demo_quarantine\<lparr>ab_cleanup_ownership_removed := True\<rparr>))))
    \<and> is_some (ab_cleanup_quarantine (demo_quarantine\<lparr>ab_cleanup_ownership_removed := True\<rparr>))"
  using artifacts_removed_in_order [OF demo_codec_ok demo_genesis demo_run _ demo_unlinked_view, of _ StepOwnership] demo_numbers(1)
  by simp

theorem unresolved_slot_is_kept_witness:
  "slot_view demo_codec (snd (cleanup demo_codec (calm_env Absent) 0 1 (demo_registry 12))) 0
     = Some (demo_slot demo_tombstone (Some demo_pending))"
proof (rule unresolved_slot_is_kept [OF demo_codec_ok _ demo_views(5)])
  show "(registry_step demo_codec)\<^sup>*\<^sup>* (demo_registry 12) (snd (cleanup demo_codec (calm_env Absent) 0 1 (demo_registry 12)))"
    by (intro r_into_rtranclp registry_step.cleans)
  show "unresolved (demo_slot demo_tombstone (Some demo_pending))" by code_simp
qed

text \<open>The cleanup of an artifact is acknowledged, and the slot forgets it.\<close>

lemma demo_done_facts:
  "slot_view demo_codec (demo_registry 13) 0 = Some (demo_slot demo_tombstone (Some demo_done))"
  "validate_transition (demo_slot demo_tombstone (Some demo_done)) (demo_slot demo_tombstone None)"
  "launch_slot_ok (demo_slot demo_tombstone None)" "table_encode demo_table (demo_slot demo_tombstone None) = Some [14]"
  "same_artifact demo_done demo_done" "\<not> creation_pending demo_done" "is_some (ab_cleanup_quarantine demo_done)" "ab_cleanup_completed demo_done"
  "is_tombstone demo_tombstone"
  by code_simp+

definition demo_acknowledged :: registry where
  "demo_acknowledged = snd (acknowledge_artifact_cleanup demo_codec (calm_env Absent) demo_key demo_done (demo_registry 13))"

lemma demo_acknowledged_view: "slot_view demo_codec demo_acknowledged 0 = Some (demo_slot demo_tombstone None)"
proof -
  let ?s = "demo_registry 13\<lparr>rg_calls := Suc (Suc (rg_calls (demo_registry 13)))\<rparr>"
  have "slot_view demo_codec ?s 0 = Some (demo_slot demo_tombstone (Some demo_done))" using demo_done_facts(1) by simp
  from demo_replace [OF this demo_done_facts(2-4), of Absent] show ?thesis
    using demo_locked [OF demo_done_facts(1), of Absent] demo_done_facts(5-9)
    by (auto simp: demo_acknowledged_def acknowledge_artifact_cleanup_def rbind_def rsome_def rreturn_def)
qed

theorem artifacts_never_forgotten_witness:
  "\<exists>t c y. (registry_step demo_codec)\<^sup>*\<^sup>* (demo_registry 13) t \<and> slot_view demo_codec t 0 = Some c \<and> sl_artifact_binding c = Some y
    \<and> ab_cleanup_completed y \<and> (\<exists>r'. slot_view demo_codec demo_acknowledged 0 = Some r' \<and> sl_artifact_binding r' = None)"
proof -
  have run: "(registry_step demo_codec)\<^sup>*\<^sup>* (demo_registry 13) demo_acknowledged"
    unfolding demo_acknowledged_def by (intro r_into_rtranclp registry_step.acknowledges)
  from artifacts_never_forgotten [OF demo_codec_ok run demo_done_facts(1), of demo_done]
  show ?thesis using demo_acknowledged_view by auto
qed

theorem cleanup_resolves_lost_process_witness:
  "\<exists>s' t. cleanup demo_codec (calm_env Absent) 0 1 (demo_registry 9) = (Inr OutcomeResolvedTombstone, s')
    \<and> slot_view demo_codec s' 0 = Some (demo_slot (ResolvedTombstone 7 (Some demo_identity) t) None)"
  using cleanup_resolves_lost_process [of demo_codec "calm_env Absent" "demo_registry 9" 0 "demo_slot (IdentityDurable 7 demo_identity True) None"
      1 7 demo_identity True] demo_codec_ok demo_views(3) demo_encodes(8,9) demo_storable
  by simp

lemma demo_pending_cleanup:
  "cleanup demo_codec (calm_env opened) 0 1 (demo_registry 10)
     = terminate_identity demo_codec (calm_env opened) (demo_slot (CleanupPending 7 demo_identity True) None) 7 demo_identity
         (demo_registry 10\<lparr>rg_calls := 2\<rparr>)"
  using demo_locked [OF demo_views(4), of opened]
  by (simp add: cleanup_def rbind_def cleanup_process_def rreturn_def demo_key_def) (simp add: demo_registry_def numeral_2_eq_2)

theorem tombstone_needs_evidence_witness:
  "\<exists>k s'. s' = snd (cleanup demo_codec (calm_env Absent) 0 1 (demo_registry 10)) \<and> k < rg_calls s'
    \<and> process_gone (calm_env Absent) k demo_identity"
proof -
  let ?c = "demo_slot (CleanupPending 7 demo_identity True) None" and ?le = "calm_env Absent"
  let ?s = "demo_registry 10\<lparr>rg_calls := 3\<rparr>"
  obtain s' t where p: "persist_tombstone demo_codec ?le ?c 7 (Some demo_identity) ?s = (Inr OutcomeResolvedTombstone, s')"
    "slot_view demo_codec s' 0 = Some (demo_slot (ResolvedTombstone 7 (Some demo_identity) t) None)"
    using persist_tombstone_ok [OF demo_codec_ok calm_env_calm demo_slots_ok(8), of ?s 7 demo_identity True Absent]
      demo_views(4) demo_storable demo_encodes(9) by auto
  have "open_verified_pidfd ?le demo_identity (demo_registry 10\<lparr>rg_calls := 2\<rparr>) = (Inr Absent, ?s)"
    by (simp add: open_verified_pidfd_def pidfd_open_def rbind_def next_call_def rreturn_def)
  then have run: "cleanup demo_codec ?le 0 1 (demo_registry 10) = (Inr OutcomeResolvedTombstone, s')"
    using p(1) by (simp add: demo_pending_cleanup terminate_identity_def rbind_def)
  from tombstone_needs_evidence [OF demo_codec_ok run demo_views(4) _ p(2), of demo_identity] run show ?thesis by auto
qed

lemma demo_stat:
  "parse_proc_stat_start_ticks ([0x34, 0x20, 0x28, 0x61, 0x29, 0x20, 0x62, 0x29] @ concat (replicate 19 [0x20, 0x31]) @ [0x20, 0x33, 0x33]) = Some 33"
proof -
  have fill: "concat (replicate 19 [0x20, 0x31 :: nat])
      = [0x20, 0x31, 0x20, 0x31, 0x20, 0x31, 0x20, 0x31, 0x20, 0x31, 0x20, 0x31, 0x20, 0x31, 0x20, 0x31, 0x20, 0x31, 0x20, 0x31,
         0x20, 0x31, 0x20, 0x31, 0x20, 0x31, 0x20, 0x31, 0x20, 0x31, 0x20, 0x31, 0x20, 0x31, 0x20, 0x31, 0x20, 0x31]"
    by code_simp
  show ?thesis unfolding fill
    by (simp add: parse_proc_stat_start_ticks_def parse_unsigned_def str_split_whitespace_def is_whitespace_def)
qed

lemma demo_observed:
  "observe_identity (calm_env opened) 4 s = (Inr (Present demo_identity), s\<lparr>rg_calls := rg_calls s + 3\<rparr>)"
  using demo_stat
  by (simp add: observe_identity_def read_boot_uuid_def read_pid_namespace_inode_def read_start_ticks_def rbind_def
      next_call_def rreturn_def calm_env_def demo_identity_def)

theorem cleanup_kills_only_verified_witness:
  "\<exists>s' fd v k. s' = snd (cleanup demo_codec (calm_env (Present ())) 0 1 (demo_registry 10)) \<and> rg_signalled s' = [(fd, k)] \<and> fd_pid fd = 4
    \<and> fd_opened_at fd < v \<and> process_verified (calm_env (Present ())) v demo_identity \<and> v + 2 < k \<and> k < rg_calls s'"
proof -
  let ?le = "calm_env (Present ())"
  obtain res s' where run: "cleanup demo_codec ?le 0 1 (demo_registry 10) = (res, s')" by fastforce
  have pid: "pi_pid demo_identity = 4" "pi_boot_uuid demo_identity = 9" by (simp_all add: demo_identity_def)
  have "rg_signalled s' \<noteq> []" using run demo_observed [of "Present ()"]
    by (simp add: demo_pending_cleanup terminate_identity_def open_verified_pidfd_def pidfd_open_def rbind_def next_call_def
        rreturn_def send_signal_def plain_call_def verify_exact_process_def read_boot_uuid_def pid)
      (auto simp: demo_registry_def)
  moreover have "rg_signalled (demo_registry 10) = []" by (simp add: demo_registry_def)
  ultimately show ?thesis
    using cleanup_kills_only_verified [OF demo_codec_ok run] run demo_views(4) pid(1) by auto
qed

end
