(* ===== verification/Tmux_Store.thy ===== *)
theory Tmux_Store
  imports Terminal_Sanitize "HOL-Library.AList"
begin

text \<open>
  The store of the tmux compatibility layer (\<open>src/src/tmux_compat.rs\<close>): what the shim remembers between two runs, in one
  JSON file under a lock. It holds the panes, the user options of panes and sessions, the generations of
  \<open>wait-for\<close> channels and the leases of managed attaches. A \<open>HashMap\<close> is an association list without duplicate keys;
  where the source depends on the order of iteration, that order is an argument. The state of the file and the answers of the
  system are explicit, so that an operation is a function from the file to a result and the file it leaves.
\<close>

section \<open>Data\<close>

type_synonym 'v dict = "(ustring \<times> 'v) list"

definition dict_ok :: "'v dict \<Rightarrow> bool" where
  "dict_ok d \<longleftrightarrow> distinct (map fst d)"

definition contains_key :: "'v dict \<Rightarrow> ustring \<Rightarrow> bool" where
  "contains_key d k \<longleftrightarrow> is_some (map_of d k)"

record compat_pane =
  cp_pane_id :: ustring
  cp_session_name :: ustring
  cp_immutable_id :: "ustring option"
  cp_cmux_surface_id :: "ustring option"
  cp_cmux_workspace_id :: "ustring option"
  cp_cmux_window_id :: "ustring option"

record managed_attach_lease =
  ml_pane_id :: ustring
  ml_token :: ustring
  ml_pid :: u32
  ml_process_start_id :: "ustring option"
  ml_cmux_surface_id :: "ustring option"
  ml_cmux_workspace_id :: "ustring option"
  ml_cmux_window_id :: "ustring option"
  ml_updated_secs :: u64

record compat_store =
  cs_panes :: "compat_pane dict"
  cs_pane_user_options :: "ustring dict dict"
  cs_session_user_options :: "ustring dict dict"
  cs_wait_generations :: "u64 dict"
  cs_wait_generation_touched_secs :: "u64 dict"
  cs_managed_attaches :: "managed_attach_lease dict"

definition compat_store_default :: compat_store where
  "compat_store_default = \<lparr>cs_panes = [], cs_pane_user_options = [], cs_session_user_options = [], cs_wait_generations = [],
     cs_wait_generation_touched_secs = [], cs_managed_attaches = []\<rparr>"

datatype compat_error =
    LockFailed | OpenFailed | ReadFailed | QuarantineFailed | NotEncodable | StoreTooLarge | WriteFailed | RenameFailed
  | MissingValue | MissingTarget | UnsupportedFlag | UnsupportedTarget | InvalidValue | WrongArity | LimitReached
  | TargetUnavailable | CyclicParents | DaemonUnavailable

type_synonym 'a compat_result = "compat_error + 'a"

definition WAIT_GENERATION_RETENTION_SECS :: u64 where
  "WAIT_GENERATION_RETENTION_SECS = 7 * 24 * 60 * 60"

definition WAIT_GENERATION_MAX_CHANNELS :: nat where
  "WAIT_GENERATION_MAX_CHANNELS = 4096"

definition WAIT_GENERATION_MAX_CHANNEL_BYTES :: nat where
  "WAIT_GENERATION_MAX_CHANNEL_BYTES = 1024"

definition COMPAT_STORE_MAX_BYTES :: nat where
  "COMPAT_STORE_MAX_BYTES = 16 * 1024 * 1024"

definition MANAGED_ATTACH_LEASE_TTL_SECS :: u64 where
  "MANAGED_ATTACH_LEASE_TTL_SECS = 120"

definition USER_OPTION_NAME_MAX_BYTES :: nat where
  "USER_OPTION_NAME_MAX_BYTES = 128"

definition USER_OPTION_VALUE_MAX_BYTES :: nat where
  "USER_OPTION_VALUE_MAX_BYTES = 4096"

definition USER_OPTIONS_PER_IDENTITY_MAX :: nat where
  "USER_OPTIONS_PER_IDENTITY_MAX = 64"

definition USER_OPTION_IDENTITIES_MAX :: nat where
  "USER_OPTION_IDENTITIES_MAX = 512"

definition USER_OPTION_ENTRIES_MAX :: nat where
  "USER_OPTION_ENTRIES_MAX = 4096"

section \<open>The file\<close>

text \<open>The file and what was quarantined from it; the answers of the system during one operation, where \<open>True\<close> is
  success; the JSON codec.\<close>

record compat_disk =
  cd_store :: "u8 list option"
  cd_quarantine :: "u8 list list"

record compat_answers =
  ca_lock :: bool
  ca_open :: bool
  ca_read :: bool
  ca_quarantine :: bool
  ca_write :: bool
  ca_rename :: bool

record compat_codec =
  cc_to_vec :: "compat_store \<Rightarrow> u8 list option"
  cc_from_slice :: "u8 list \<Rightarrow> compat_store option"

definition quarantine_store_file :: "compat_answers \<Rightarrow> compat_disk \<Rightarrow> compat_disk \<times> unit compat_result" where
  "quarantine_store_file ca d =
     (case cd_store d of
        None \<Rightarrow> (d, Inl QuarantineFailed)
      | Some bytes \<Rightarrow>
          if ca_quarantine ca then (\<lparr>cd_store = None, cd_quarantine = cd_quarantine d @ [bytes]\<rparr>, Inr ())
          else (d, Inl QuarantineFailed))"

definition load_store :: "compat_codec \<Rightarrow> compat_answers \<Rightarrow> compat_disk \<Rightarrow> compat_disk \<times> compat_store compat_result" where
  "load_store cc ca d =
     (case cd_store d of
        None \<Rightarrow> (d, Inr compat_store_default)
      | Some bytes \<Rightarrow>
          if \<not> ca_open ca then (d, Inl OpenFailed)
          else if \<not> ca_read ca then (d, Inl ReadFailed)
          else
            (case (if length bytes > COMPAT_STORE_MAX_BYTES then None else cc_from_slice cc bytes) of
               Some store \<Rightarrow> (d, Inr store)
             | None \<Rightarrow>
                 (case quarantine_store_file ca d of
                    (d', Inl e) \<Rightarrow> (d', Inl e)
                  | (d', Inr _) \<Rightarrow> (d', Inr compat_store_default))))"

definition save_store :: "compat_codec \<Rightarrow> compat_answers \<Rightarrow> compat_store \<Rightarrow> compat_disk \<Rightarrow> compat_disk \<times> unit compat_result" where
  "save_store cc ca store d =
     (case cc_to_vec cc store of
        None \<Rightarrow> (d, Inl NotEncodable)
      | Some bytes \<Rightarrow>
          if length bytes > COMPAT_STORE_MAX_BYTES then (d, Inl StoreTooLarge)
          else if \<not> ca_write ca then (d, Inl WriteFailed)
          else if \<not> ca_rename ca then (d, Inl RenameFailed)
          else (d\<lparr>cd_store := Some bytes\<rparr>, Inr ()))"

text \<open>Under the lock: load, change, save. A change that fails is not saved.\<close>

definition update_store ::
    "compat_codec \<Rightarrow> compat_answers \<Rightarrow> (compat_store \<Rightarrow> (compat_store \<times> 'a) compat_result) \<Rightarrow> compat_disk
       \<Rightarrow> compat_disk \<times> 'a compat_result" where
  "update_store cc ca f d =
     (if \<not> ca_lock ca then (d, Inl LockFailed)
      else
        (case load_store cc ca d of
           (d, Inl e) \<Rightarrow> (d, Inl e)
         | (d, Inr store) \<Rightarrow>
             (case f store of
                Inl e \<Rightarrow> (d, Inl e)
              | Inr (store', x) \<Rightarrow>
                  (case save_store cc ca store' d of
                     (d, Inl e) \<Rightarrow> (d, Inl e)
                   | (d, Inr _) \<Rightarrow> (d, Inr x)))))"

definition read_store ::
    "compat_codec \<Rightarrow> compat_answers \<Rightarrow> (compat_store \<Rightarrow> 'a compat_result) \<Rightarrow> compat_disk \<Rightarrow> compat_disk \<times> 'a compat_result" where
  "read_store cc ca f d =
     (if \<not> ca_lock ca then (d, Inl LockFailed)
      else (case load_store cc ca d of (d, Inl e) \<Rightarrow> (d, Inl e) | (d, Inr store) \<Rightarrow> (d, f store)))"

section \<open>Wait channels\<close>

definition validate_wait_channel :: "ustring \<Rightarrow> unit compat_result" where
  "validate_wait_channel channel =
     (if channel = [] then Inl InvalidValue
      else if length (as_bytes channel) > WAIT_GENERATION_MAX_CHANNEL_BYTES then Inl InvalidValue
      else if list_ex is_c0_or_c1 channel then Inl InvalidValue
      else Inr ())"

definition touch_wait_generation :: "u64 \<Rightarrow> ustring \<Rightarrow> compat_store \<Rightarrow> compat_store" where
  "touch_wait_generation now channel store =
     store\<lparr>cs_wait_generation_touched_secs := AList.update channel now (cs_wait_generation_touched_secs store)\<rparr>"

definition touch_existing_wait_generation :: "u64 \<Rightarrow> ustring \<Rightarrow> compat_store \<Rightarrow> compat_store" where
  "touch_existing_wait_generation now channel store =
     (if contains_key (cs_wait_generations store) channel then touch_wait_generation now channel store else store)"

definition wait_generation_has_advanced :: "u64 \<Rightarrow> u64 \<Rightarrow> bool" where
  "wait_generation_has_advanced observed current \<longleftrightarrow>
     current > observed \<or> (observed > 0 \<and> current > 0 \<and> current < observed)"

text \<open>The parts of \<open>prune_wait_generations\<close>: every channel gets a time, stale channels go, times without a channel go, and the
  channels touched longest ago go until the rest fits. \<open>order\<close> is the order in which the map is iterated.\<close>

definition stamp_untouched :: "u64 \<Rightarrow> u64 dict \<Rightarrow> u64 dict \<Rightarrow> u64 dict" where
  "stamp_untouched now generations touched =
     fold (\<lambda>(channel, _) t. if contains_key t channel then t else AList.update channel now t) generations touched"

definition drop_stale :: "u64 \<Rightarrow> ustring option \<Rightarrow> compat_store \<Rightarrow> compat_store" where
  "drop_stale cutoff protected store =
     (let stale = map fst (filter (\<lambda>(channel, touched). protected \<noteq> Some channel \<and> touched < cutoff)
                    (cs_wait_generation_touched_secs store)) in
      store\<lparr>cs_wait_generation_touched_secs := fold AList.delete stale (cs_wait_generation_touched_secs store),
        cs_wait_generations := fold AList.delete stale (cs_wait_generations store)\<rparr>)"

definition drop_orphaned :: "compat_store \<Rightarrow> compat_store" where
  "drop_orphaned store =
     store\<lparr>cs_wait_generation_touched_secs :=
       filter (\<lambda>(channel, _). contains_key (cs_wait_generations store) channel) (cs_wait_generation_touched_secs store)\<rparr>"

definition drop_overflow ::
    "(ustring list \<Rightarrow> ustring list) \<Rightarrow> u64 \<Rightarrow> ustring option \<Rightarrow> compat_store \<Rightarrow> compat_store" where
  "drop_overflow order now protected store =
     (let generations = cs_wait_generations store;
          touched = cs_wait_generation_touched_secs store;
          channels = map (\<lambda>channel. (channel, case map_of touched channel of Some t \<Rightarrow> t | None \<Rightarrow> now))
            (filter (\<lambda>channel. protected \<noteq> Some channel) (order (map fst generations)));
          victims = map fst (take (length generations - WAIT_GENERATION_MAX_CHANNELS) (sort_key snd channels)) in
      store\<lparr>cs_wait_generation_touched_secs := fold AList.delete victims touched,
        cs_wait_generations := fold AList.delete victims generations\<rparr>)"

definition prune_wait_generations ::
    "(ustring list \<Rightarrow> ustring list) \<Rightarrow> u64 \<Rightarrow> ustring option \<Rightarrow> compat_store \<Rightarrow> compat_store" where
  "prune_wait_generations order now protected store =
     (let cutoff = saturating_sub now WAIT_GENERATION_RETENTION_SECS;
          store = store\<lparr>cs_wait_generation_touched_secs :=
            stamp_untouched now (cs_wait_generations store) (cs_wait_generation_touched_secs store)\<rparr>;
          store = drop_orphaned (drop_stale cutoff protected store) in
      if length (cs_wait_generations store) \<le> WAIT_GENERATION_MAX_CHANNELS then store
      else drop_overflow order now protected store)"

definition generation_of :: "compat_store \<Rightarrow> ustring \<Rightarrow> u64" where
  "generation_of store channel = (case map_of (cs_wait_generations store) channel of Some g \<Rightarrow> g | None \<Rightarrow> 0)"

text \<open>The changes of \<open>wait_for\<close>: a signal, and the look at the channel by a thread that waits. The clock is read once
  for pruning and once for touching.\<close>

definition signal_channel ::
    "(ustring list \<Rightarrow> ustring list) \<Rightarrow> u64 \<Rightarrow> u64 \<Rightarrow> ustring \<Rightarrow> compat_store \<Rightarrow> (compat_store \<times> unit) compat_result" where
  "signal_channel order now now' channel store =
     (let store = prune_wait_generations order now None store;
          generation = saturating_add (generation_of store channel) 1;
          store = store\<lparr>cs_wait_generations := AList.update channel generation (cs_wait_generations store)\<rparr> in
      Inr (touch_wait_generation now' channel store, ()))"

definition look_at_channel ::
    "(ustring list \<Rightarrow> ustring list) \<Rightarrow> u64 \<Rightarrow> u64 \<Rightarrow> ustring \<Rightarrow> compat_store \<Rightarrow> (compat_store \<times> u64) compat_result" where
  "look_at_channel order now now' channel store =
     (let store = touch_existing_wait_generation now' channel (prune_wait_generations order now (Some channel) store) in
      Inr (store, generation_of store channel))"

section \<open>Sessions and targets\<close>

text \<open>The fields of \<open>SessionInfo\<close> that the compatibility layer reads.\<close>

record session_info =
  si_id :: ustring
  si_name :: ustring
  si_pane_id :: ustring
  si_command :: ustring
  si_cwd :: ustring
  si_alive :: bool
  si_process_id :: "u32 option"
  si_rows :: u16
  si_cols :: u16
  si_parent_pane_id :: "ustring option"
  si_parent_session_id :: "ustring option"

fun split_once :: "uchar \<Rightarrow> ustring \<Rightarrow> (ustring \<times> ustring) option" where
  "split_once c [] = None"
| "split_once c (x # xs) = (if x = c then Some ([], xs) else map_option (\<lambda>(a, b). (x # a, b)) (split_once c xs))"

fun str_starts_with :: "uchar \<Rightarrow> ustring \<Rightarrow> bool" where
  "str_starts_with c [] = False"
| "str_starts_with c (x # _) = (x = c)"

definition target_matches_info :: "ustring \<Rightarrow> session_info \<Rightarrow> bool" where
  "target_matches_info target info \<longleftrightarrow>
     target = si_name info \<or> target = si_pane_id info \<or> target = si_id info
     \<or> (\<not> str_starts_with 0x25 target \<and> target \<noteq> [] \<and> 0x25 # target = si_pane_id info)"

definition tmux_window_target_session :: "ustring \<Rightarrow> ustring option" where
  "tmux_window_target_session target =
     (case split_once 0x3a target of
        None \<Rightarrow> None
      | Some (session, window) \<Rightarrow> if session = [] then None else if window \<noteq> [0x30] then None else Some session)"

definition reject_unsupported_tmux_window_target :: "ustring \<Rightarrow> unit compat_result" where
  "reject_unsupported_tmux_window_target target =
     (case split_once 0x3a target of
        None \<Rightarrow> Inr ()
      | Some (session, window) \<Rightarrow> if session \<noteq> [] \<and> window = [0x30] then Inr () else Inl UnsupportedTarget)"

definition normalize_tmux_target :: "ustring \<Rightarrow> ustring compat_result" where
  "normalize_tmux_target target =
     bind_res (reject_unsupported_tmux_window_target target) (\<lambda>_.
       Inr (case tmux_window_target_session target of Some session \<Rightarrow> session | None \<Rightarrow> target))"

text \<open>\<open>default_target\<close> from the two environment variables.\<close>

definition default_target :: "ustring option \<times> ustring option \<Rightarrow> ustring" where
  "default_target vars =
     (case fst vars of Some pane \<Rightarrow> pane | None \<Rightarrow> (case snd vars of Some pane \<Rightarrow> pane | None \<Rightarrow> [0x25, 0x30]))"

section \<open>User options\<close>

record user_option_args =
  ua_quiet :: bool
  ua_value_only :: bool
  ua_pane :: bool
  ua_unset :: bool
  ua_target :: "ustring option"
  ua_name :: ustring
  ua_value :: "ustring option"

definition option_name_byte :: "u8 \<Rightarrow> bool" where
  "option_name_byte b \<longleftrightarrow> (0x30 \<le> b \<and> b \<le> 0x39) \<or> (0x41 \<le> b \<and> b \<le> 0x5a) \<or> (0x61 \<le> b \<and> b \<le> 0x7a)
     \<or> b \<in> {0x5f, 0x2e, 0x3a, 0x2d}"

definition validate_user_option_name :: "ustring \<Rightarrow> unit compat_result" where
  "validate_user_option_name name =
     (let bytes = as_bytes name in
      if \<not> (2 \<le> length bytes \<and> length bytes \<le> USER_OPTION_NAME_MAX_BYTES) \<or> \<not> str_starts_with 0x40 name
         \<or> \<not> list_all option_name_byte (tl bytes)
      then Inl InvalidValue else Inr ())"

definition UNICODE_FORMAT_RANGES :: "(nat \<times> nat) list" where
  "UNICODE_FORMAT_RANGES =
     [(0x00ad, 0x00ad), (0x0600, 0x0605), (0x061c, 0x061c), (0x06dd, 0x06dd), (0x070f, 0x070f), (0x0890, 0x0891),
      (0x08e2, 0x08e2), (0x180e, 0x180e), (0x200b, 0x200f), (0x202a, 0x202e), (0x2060, 0x2064), (0x2066, 0x206f),
      (0xfeff, 0xfeff), (0xfff9, 0xfffb), (0x110bd, 0x110bd), (0x110cd, 0x110cd), (0x13430, 0x1343f),
      (0x1bca0, 0x1bca3), (0x1d173, 0x1d17a), (0xe0001, 0xe0001), (0xe0020, 0xe007f)]"

definition is_unsafe_user_option_char :: "uchar \<Rightarrow> bool" where
  "is_unsafe_user_option_char ch \<longleftrightarrow>
     is_c0_or_c1 ch
     \<or> list_ex (\<lambda>(start, end). start \<le> ch \<and> ch \<le> end) UNICODE_FORMAT_RANGES
     \<or> ch \<in> {0x00ad, 0x034f, 0x061c, 0x115f, 0x1160, 0x17b4, 0x17b5, 0x2028, 0x2029, 0x3164, 0xfeff, 0xffa0}
     \<or> list_ex (\<lambda>(start, end). start \<le> ch \<and> ch \<le> end)
         [(0x180b, 0x180f), (0x200b, 0x200f), (0x202a, 0x202e), (0x2060, 0x206f), (0xfe00, 0xfe0f),
          (0x1bca0, 0x1bca3), (0x1d173, 0x1d17a), (0xe0000, 0xe0fff)]"

definition validate_user_option_value :: "ustring \<Rightarrow> unit compat_result" where
  "validate_user_option_value value =
     (if length (as_bytes value) > USER_OPTION_VALUE_MAX_BYTES then Inl InvalidValue
      else if list_ex is_unsafe_user_option_char value then Inl InvalidValue
      else Inr ())"

text \<open>\<open>by_id\<close> is the map that \<open>collect\<close> builds: of two sessions with one identity the later one is in it.\<close>

definition by_id :: "session_info list \<Rightarrow> ustring \<Rightarrow> session_info option" where
  "by_id sessions i = find (\<lambda>s. si_id s = i) (rev sessions)"

lemma by_id_Some: "by_id sessions i = Some s \<Longrightarrow> si_id s = i \<and> s \<in> set sessions"
  by (auto simp: by_id_def find_Some_iff in_set_conv_nth) (metis set_rev nth_mem length_rev in_set_conv_nth)

function root_session_identity :: "session_info list \<Rightarrow> ustring list \<Rightarrow> session_info \<Rightarrow> ustring compat_result" where
  "root_session_identity sessions seen info =
     (case si_parent_session_id info of
        None \<Rightarrow> Inr (si_id info)
      | Some parent_id \<Rightarrow>
          if si_id info \<in> set seen then Inl CyclicParents
          else (case by_id sessions parent_id of
                  None \<Rightarrow> Inl TargetUnavailable
                | Some parent \<Rightarrow> root_session_identity sessions (si_id info # seen) parent))"
  by pat_completeness auto
lemma identity_measure:
  assumes "si_id parent \<in> si_id ` set sessions" "i \<notin> set seen"
  shows "2 * card (si_id ` set sessions - set (i # seen)) + (if si_id parent \<in> si_id ` set sessions then 0 else 1)
    < 2 * card (si_id ` set sessions - set seen) + (if i \<in> si_id ` set sessions then 0 else (1::nat))"
proof (cases "i \<in> si_id ` set sessions")
  case True
  then have "card (si_id ` set sessions - set (i # seen)) < card (si_id ` set sessions - set seen)"
    using assms(2) by (intro psubset_card_mono) auto
  then show ?thesis using True assms(1) by simp
next
  case False
  then have "si_id ` set sessions - set (i # seen) = si_id ` set sessions - set seen" by auto
  then show ?thesis using False assms(1) by simp
qed

termination root_session_identity
  by (relation "measure (\<lambda>(sessions, seen, info). 2 * card (si_id ` set sessions - set seen)
      + (if si_id info \<in> si_id ` set sessions then 0 else 1))")
    (use identity_measure by_id_Some in fastforce)+

definition root_session_identity_from_snapshot :: "session_info \<Rightarrow> session_info list \<Rightarrow> ustring compat_result" where
  "root_session_identity_from_snapshot info sessions = root_session_identity sessions [] info"

definition user_option_identity_from_snapshot ::
    "ustring option \<times> ustring option \<Rightarrow> user_option_args \<Rightarrow> session_info list \<Rightarrow> ustring compat_result" where
  "user_option_identity_from_snapshot vars args sessions =
     bind_res (normalize_tmux_target (case ua_target args of Some t \<Rightarrow> t | None \<Rightarrow> default_target vars)) (\<lambda>target.
     bind_res (ok_or (find (target_matches_info target) sessions) TargetUnavailable) (\<lambda>info.
     if ua_pane args then Inr (si_id info) else root_session_identity_from_snapshot info sessions))"

definition prune_user_options :: "ustring list \<Rightarrow> compat_store \<Rightarrow> compat_store" where
  "prune_user_options live store =
     (let keep = filter (\<lambda>(identity, options). identity \<in> set live \<and> options \<noteq> []) in
      store\<lparr>cs_pane_user_options := keep (cs_pane_user_options store),
        cs_session_user_options := keep (cs_session_user_options store)\<rparr>)"

definition user_option_identity_count :: "compat_store \<Rightarrow> nat" where
  "user_option_identity_count store =
     length (remdups (map fst (cs_pane_user_options store) @ map fst (cs_session_user_options store)))"

definition user_option_entry_count :: "compat_store \<Rightarrow> nat" where
  "user_option_entry_count store =
     sum_list (map (length \<circ> snd) (cs_pane_user_options store @ cs_session_user_options store))"

definition options_of :: "bool \<Rightarrow> compat_store \<Rightarrow> ustring dict dict" where
  "options_of pane store = (if pane then cs_pane_user_options store else cs_session_user_options store)"

definition set_options_of :: "bool \<Rightarrow> ustring dict dict \<Rightarrow> compat_store \<Rightarrow> compat_store" where
  "set_options_of pane options store =
     (if pane then store\<lparr>cs_pane_user_options := options\<rparr> else store\<lparr>cs_session_user_options := options\<rparr>)"

definition entry_or_default :: "'v dict dict \<Rightarrow> ustring \<Rightarrow> 'v dict" where
  "entry_or_default d k = (case map_of d k of Some v \<Rightarrow> v | None \<Rightarrow> [])"

definition unset_user_option :: "bool \<Rightarrow> ustring \<Rightarrow> ustring \<Rightarrow> compat_store \<Rightarrow> compat_store" where
  "unset_user_option pane identity name store =
     (case map_of (options_of pane store) identity of
        None \<Rightarrow> store
      | Some identity_options \<Rightarrow>
          (let rest = AList.delete name identity_options in
           set_options_of pane
             (if rest = [] then AList.delete identity (options_of pane store)
              else AList.update identity rest (options_of pane store)) store))"

definition user_option_limits :: "ustring \<Rightarrow> compat_store \<Rightarrow> unit compat_result" where
  "user_option_limits identity store =
     (let identity_exists = contains_key (cs_pane_user_options store) identity
            \<or> contains_key (cs_session_user_options store) identity;
          identity_option_count = length (entry_or_default (cs_pane_user_options store) identity)
            + length (entry_or_default (cs_session_user_options store) identity) in
      if \<not> identity_exists \<and> user_option_identity_count store \<ge> USER_OPTION_IDENTITIES_MAX then Inl LimitReached
      else if user_option_entry_count store \<ge> USER_OPTION_ENTRIES_MAX then Inl LimitReached
      else if identity_option_count \<ge> USER_OPTIONS_PER_IDENTITY_MAX then Inl LimitReached
      else Inr ())"

definition set_user_option :: "bool \<Rightarrow> ustring \<Rightarrow> ustring \<Rightarrow> ustring \<Rightarrow> compat_store \<Rightarrow> compat_store compat_result" where
  "set_user_option pane identity name value store =
     (let options = options_of pane store;
          option_exists = is_some_and (map_of options identity) (\<lambda>o'. contains_key o' name) in
      bind_res (if option_exists then Inr () else user_option_limits identity store) (\<lambda>_.
      Inr (set_options_of pane
        (AList.update identity (AList.update name value (entry_or_default options identity)) options) store)))"

definition change_user_option :: "user_option_args \<Rightarrow> ustring \<Rightarrow> compat_store \<Rightarrow> compat_store compat_result" where
  "change_user_option args identity store =
     (if ua_unset args then Inr (unset_user_option (ua_pane args) identity (ua_name args) store)
      else bind_res (ok_or (ua_value args) MissingValue) (\<lambda>value.
        set_user_option (ua_pane args) identity (ua_name args) value store))"

text \<open>The answer of the daemon to \<open>list_sessions\<close> is an argument.\<close>

definition mutate_user_option ::
    "compat_codec \<Rightarrow> compat_answers \<Rightarrow> ustring option \<times> ustring option \<Rightarrow> session_info list compat_result
       \<Rightarrow> user_option_args \<Rightarrow> compat_disk \<Rightarrow> compat_disk \<times> unit compat_result" where
  "mutate_user_option cc ca vars listed args d =
     (if \<not> ca_lock ca then (d, Inl LockFailed)
      else
        (case bind_res listed (\<lambda>sessions.
              bind_res (user_option_identity_from_snapshot vars args sessions) (\<lambda>identity. Inr (sessions, identity))) of
           Inl e \<Rightarrow> (d, Inl e)
         | Inr (sessions, identity) \<Rightarrow>
             (case load_store cc ca d of
                (d, Inl e) \<Rightarrow> (d, Inl e)
              | (d, Inr store) \<Rightarrow>
                  (case change_user_option args identity (prune_user_options (map si_id sessions) store) of
                     Inl e \<Rightarrow> (d, Inl e)
                   | Inr store \<Rightarrow> save_store cc ca store d))))"

definition read_user_option ::
    "compat_codec \<Rightarrow> compat_answers \<Rightarrow> ustring option \<times> ustring option \<Rightarrow> session_info list compat_result
       \<Rightarrow> user_option_args \<Rightarrow> compat_disk \<Rightarrow> compat_disk \<times> ustring option compat_result" where
  "read_user_option cc ca vars listed args d =
     (if \<not> ca_lock ca then (d, Inl LockFailed)
      else
        (case bind_res listed (user_option_identity_from_snapshot vars args) of
           Inl e \<Rightarrow> (d, Inl e)
         | Inr identity \<Rightarrow>
             (case load_store cc ca d of
                (d, Inl e) \<Rightarrow> (d, Inl e)
              | (d, Inr store) \<Rightarrow>
                  (d, Inr (case map_of (options_of (ua_pane args) store) identity of
                      None \<Rightarrow> None | Some identity_options \<Rightarrow> map_of identity_options (ua_name args))))))"

section \<open>Leases of managed attaches\<close>

text \<open>What one call sees of the processes: the result of signal 0, the start identity, its own process id and the
  clock.\<close>

datatype kill_result = Killable | NotPermitted | NoSuchProcess

record process_view =
  pv_kill :: "u32 \<Rightarrow> kill_result"
  pv_start_identity :: "u32 \<Rightarrow> ustring option"
  pv_self :: u32
  pv_now :: u64

record cmux_surface_context =
  sc_surface_ref :: ustring
  sc_workspace_ref :: "ustring option"
  sc_window_ref :: "ustring option"

record managed_attach_claim =
  mc_proceed :: bool
  mc_owner_surface_id :: "ustring option"

definition process_is_live :: "process_view \<Rightarrow> u32 \<Rightarrow> bool" where
  "process_is_live pv pid \<longleftrightarrow> pid \<noteq> 0 \<and> unat pid < 2 ^ 31 \<and> pv_kill pv pid \<in> {Killable, NotPermitted}"

definition lease_owner_is_live :: "process_view \<Rightarrow> managed_attach_lease \<Rightarrow> bool" where
  "lease_owner_is_live pv lease \<longleftrightarrow> process_is_live pv (ml_pid lease)
     \<and> is_some_and (ml_process_start_id lease) (\<lambda>expected. pv_start_identity pv (ml_pid lease) = Some expected)"

definition lease_owner_blocks_duplicate :: "process_view \<Rightarrow> managed_attach_lease \<Rightarrow> bool" where
  "lease_owner_blocks_duplicate pv lease \<longleftrightarrow>
     lease_owner_is_live pv lease
     \<or> (ml_process_start_id lease = None \<and> process_is_live pv (ml_pid lease)
        \<and> ml_updated_secs lease \<ge> saturating_sub (pv_now pv) MANAGED_ATTACH_LEASE_TTL_SECS)"

definition prune_managed_attach_leases :: "process_view \<Rightarrow> compat_store \<Rightarrow> compat_store" where
  "prune_managed_attach_leases pv store =
     store\<lparr>cs_managed_attaches := filter (\<lambda>(_, lease). lease_owner_blocks_duplicate pv lease) (cs_managed_attaches store)\<rparr>"

definition own_lease :: "process_view \<Rightarrow> ustring \<Rightarrow> ustring \<Rightarrow> cmux_surface_context \<Rightarrow> managed_attach_lease" where
  "own_lease pv pane_id token surface =
     \<lparr>ml_pane_id = pane_id, ml_token = token, ml_pid = pv_self pv, ml_process_start_id = pv_start_identity pv (pv_self pv),
      ml_cmux_surface_id = Some (sc_surface_ref surface), ml_cmux_workspace_id = sc_workspace_ref surface,
      ml_cmux_window_id = sc_window_ref surface, ml_updated_secs = pv_now pv\<rparr>"

definition claim_lease ::
    "process_view \<Rightarrow> ustring \<Rightarrow> ustring \<Rightarrow> cmux_surface_context \<Rightarrow> compat_store
       \<Rightarrow> (compat_store \<times> managed_attach_claim) compat_result" where
  "claim_lease pv pane_id token surface store =
     (let store = prune_managed_attach_leases pv store;
          take = (\<lambda>store. Inr (store\<lparr>cs_managed_attaches :=
              AList.update pane_id (own_lease pv pane_id token surface) (cs_managed_attaches store)\<rparr>,
            \<lparr>mc_proceed = True, mc_owner_surface_id = Some (sc_surface_ref surface)\<rparr>)) in
      case map_of (cs_managed_attaches store) pane_id of
        None \<Rightarrow> take store
      | Some existing \<Rightarrow>
          if \<not> lease_owner_blocks_duplicate pv existing
          then take (store\<lparr>cs_managed_attaches := AList.delete pane_id (cs_managed_attaches store)\<rparr>)
          else if is_some_and (ml_cmux_surface_id existing) (\<lambda>owner. owner \<noteq> sc_surface_ref surface)
          then Inr (store, \<lparr>mc_proceed = False, mc_owner_surface_id = ml_cmux_surface_id existing\<rparr>)
          else take store)"

definition claim_managed_attach ::
    "compat_codec \<Rightarrow> compat_answers \<Rightarrow> process_view \<Rightarrow> ustring \<Rightarrow> ustring \<Rightarrow> cmux_surface_context \<Rightarrow> compat_disk
       \<Rightarrow> compat_disk \<times> managed_attach_claim compat_result" where
  "claim_managed_attach cc ca pv pane_id token surface = update_store cc ca (claim_lease pv pane_id token surface)"

definition release_lease :: "process_view \<Rightarrow> ustring \<Rightarrow> ustring \<Rightarrow> compat_store \<Rightarrow> (compat_store \<times> unit) compat_result" where
  "release_lease pv pane_id token store =
     (let store = prune_managed_attach_leases pv store in
      Inr (if is_some_and (map_of (cs_managed_attaches store) pane_id) (\<lambda>lease. ml_token lease = token)
           then store\<lparr>cs_managed_attaches := AList.delete pane_id (cs_managed_attaches store)\<rparr> else store, ()))"

definition release_managed_attach ::
    "compat_codec \<Rightarrow> compat_answers \<Rightarrow> process_view \<Rightarrow> ustring \<Rightarrow> ustring \<Rightarrow> compat_disk \<Rightarrow> compat_disk \<times> unit compat_result" where
  "release_managed_attach cc ca pv pane_id token = update_store cc ca (release_lease pv pane_id token)"

definition renew_lease :: "process_view \<Rightarrow> ustring \<Rightarrow> ustring \<Rightarrow> compat_store \<Rightarrow> (compat_store \<times> bool) compat_result" where
  "renew_lease pv pane_id token store =
     (let store = prune_managed_attach_leases pv store in
      case map_of (cs_managed_attaches store) pane_id of
        None \<Rightarrow> Inr (store, False)
      | Some lease \<Rightarrow>
          if ml_token lease \<noteq> token then Inr (store, False)
          else Inr (store\<lparr>cs_managed_attaches :=
            AList.update pane_id (lease\<lparr>ml_updated_secs := pv_now pv\<rparr>) (cs_managed_attaches store)\<rparr>, True))"

definition renew_managed_attach ::
    "compat_codec \<Rightarrow> compat_answers \<Rightarrow> process_view \<Rightarrow> ustring \<Rightarrow> ustring \<Rightarrow> compat_disk \<Rightarrow> compat_disk \<times> bool compat_result" where
  "renew_managed_attach cc ca pv pane_id token = update_store cc ca (renew_lease pv pane_id token)"

section \<open>Panes\<close>

definition remember_pane_with_live ::
    "compat_codec \<Rightarrow> compat_answers \<Rightarrow> session_info \<Rightarrow> cmux_surface_context option \<Rightarrow> ustring list \<Rightarrow> compat_disk
       \<Rightarrow> compat_disk \<times> unit compat_result" where
  "remember_pane_with_live cc ca info surface live d =
     (case load_store cc ca d of
        (d, Inl e) \<Rightarrow> (d, Inl e)
      | (d, Inr store) \<Rightarrow>
          (let store = prune_user_options live store;
               pane = \<lparr>cp_pane_id = si_pane_id info, cp_session_name = si_name info, cp_immutable_id = Some (si_id info),
                 cp_cmux_surface_id = map_option sc_surface_ref surface,
                 cp_cmux_workspace_id = Option.bind surface sc_workspace_ref,
                 cp_cmux_window_id = Option.bind surface sc_window_ref\<rparr> in
           save_store cc ca (store\<lparr>cs_panes := AList.update (si_pane_id info) pane (cs_panes store)\<rparr>) d))"

definition remember_pane ::
    "compat_codec \<Rightarrow> compat_answers \<Rightarrow> session_info list compat_result \<Rightarrow> session_info \<Rightarrow> cmux_surface_context option
       \<Rightarrow> compat_disk \<Rightarrow> compat_disk \<times> unit compat_result" where
  "remember_pane cc ca listed info surface d =
     (if \<not> ca_lock ca then (d, Inl LockFailed)
      else (case listed of Inl e \<Rightarrow> (d, Inl e)
            | Inr sessions \<Rightarrow> remember_pane_with_live cc ca info surface (map si_id sessions) d))"

definition cmux_surface_from_pane :: "compat_pane \<Rightarrow> cmux_surface_context option" where
  "cmux_surface_from_pane pane =
     map_option (\<lambda>surface. \<lparr>sc_surface_ref = surface, sc_workspace_ref = cp_cmux_workspace_id pane,
       sc_window_ref = cp_cmux_window_id pane\<rparr>) (cp_cmux_surface_id pane)"

definition stored_cmux_surface_for_pane ::
    "compat_codec \<Rightarrow> compat_answers \<Rightarrow> ustring \<Rightarrow> compat_disk \<Rightarrow> compat_disk \<times> cmux_surface_context option compat_result" where
  "stored_cmux_surface_for_pane cc ca pane_id =
     read_store cc ca (\<lambda>store. Inr (Option.bind (map_of (cs_panes store) pane_id) cmux_surface_from_pane))"

record captured_compat_pane =
  cap_pane_id :: ustring
  cap_immutable_id :: ustring
  cap_stored :: "compat_pane option"

definition capture_compat_pane_best_effort ::
    "compat_codec \<Rightarrow> compat_answers \<Rightarrow> ustring \<Rightarrow> ustring \<Rightarrow> compat_disk \<Rightarrow> compat_disk \<times> captured_compat_pane" where
  "capture_compat_pane_best_effort cc ca pane_id immutable_id d =
     (let (d, stored) = read_store cc ca (\<lambda>store. Inr (map_of (cs_panes store) pane_id)) d in
      (d, \<lparr>cap_pane_id = pane_id, cap_immutable_id = immutable_id,
           cap_stored = (case stored of Inr pane \<Rightarrow> pane | Inl _ \<Rightarrow> None)\<rparr>))"

definition cmux_surface_from_captured_pane :: "captured_compat_pane \<Rightarrow> cmux_surface_context option" where
  "cmux_surface_from_captured_pane captured =
     (case cap_stored captured of
        None \<Rightarrow> None
      | Some stored \<Rightarrow>
          if is_some_and (cp_immutable_id stored) (\<lambda>i. i \<noteq> cap_immutable_id captured) then None
          else cmux_surface_from_pane stored)"

definition forget_pane :: "captured_compat_pane \<Rightarrow> compat_pane dict \<Rightarrow> compat_pane dict" where
  "forget_pane captured panes =
     (if is_some_and (cap_stored captured) (\<lambda>before.
           is_none_or (cp_immutable_id before) (\<lambda>i. i = cap_immutable_id captured)
           \<and> map_of panes (cap_pane_id captured) = Some before)
      then AList.delete (cap_pane_id captured) panes else panes)"

definition forget_in_store ::
    "captured_compat_pane list \<Rightarrow> ustring list \<Rightarrow> compat_store \<Rightarrow> (compat_store \<times> unit) compat_result" where
  "forget_in_store captured_panes immutable_ids store =
     Inr (store\<lparr>cs_panes := fold forget_pane captured_panes (cs_panes store),
       cs_pane_user_options := fold AList.delete immutable_ids (cs_pane_user_options store),
       cs_session_user_options := fold AList.delete immutable_ids (cs_session_user_options store)\<rparr>, ())"

definition forget_panes_and_user_options ::
    "compat_codec \<Rightarrow> compat_answers \<Rightarrow> captured_compat_pane list \<Rightarrow> ustring list \<Rightarrow> compat_disk
       \<Rightarrow> compat_disk \<times> unit compat_result" where
  "forget_panes_and_user_options cc ca captured_panes immutable_ids =
     update_store cc ca (forget_in_store captured_panes immutable_ids)"

section \<open>The tree of a session\<close>

definition snapshot_parent :: "session_info list \<Rightarrow> session_info \<Rightarrow> session_info option compat_result" where
  "snapshot_parent sessions pane =
     (case (si_parent_session_id pane, si_parent_pane_id pane) of
        (None, None) \<Rightarrow> Inr None
      | (Some parent_id, Some parent_pane_id) \<Rightarrow>
          bind_res (ok_or (find (\<lambda>s. si_id s = parent_id) sessions) TargetUnavailable) (\<lambda>parent.
          if si_pane_id parent \<noteq> parent_pane_id then Inl InvalidValue else Inr (Some parent))
      | _ \<Rightarrow> Inl InvalidValue)"

text \<open>The three maps are built first, and every duplicate is refused, so that a lookup is a search in the list.\<close>

definition snapshot_consistent :: "session_info list \<Rightarrow> bool" where
  "snapshot_consistent sessions \<longleftrightarrow>
     list_all (\<lambda>s. si_id s \<noteq> [] \<and> si_pane_id s \<noteq> [] \<and> si_name s \<noteq> []) sessions
     \<and> distinct (map si_id sessions) \<and> distinct (map si_pane_id sessions) \<and> distinct (map si_name sessions)"

definition or_else :: "'a option \<Rightarrow> 'a option \<Rightarrow> 'a option" where
  "or_else a b = (case a of Some x \<Rightarrow> Some x | None \<Rightarrow> b)"

definition resolve_snapshot_target :: "ustring \<Rightarrow> session_info list \<Rightarrow> session_info option" where
  "resolve_snapshot_target target sessions =
     (let by_pane = (\<lambda>p. find (\<lambda>s. si_pane_id s = p) sessions);
          resolved = or_else (or_else (if str_starts_with 0x25 target then by_pane target else None)
            (find (\<lambda>s. si_name s = target) sessions)) (find (\<lambda>s. si_id s = target) sessions) in
      if resolved = None \<and> \<not> str_starts_with 0x25 target then by_pane (0x25 # target) else resolved)"

function root_of :: "session_info list \<Rightarrow> ustring list \<Rightarrow> session_info \<Rightarrow> session_info compat_result" where
  "root_of sessions ancestors root =
     (if si_id root \<in> set ancestors then Inl CyclicParents
      else
        (case snapshot_parent sessions root of
           Inl e \<Rightarrow> Inl e
         | Inr None \<Rightarrow> Inr root
         | Inr (Some parent) \<Rightarrow> root_of sessions (si_id root # ancestors) parent))"
  by pat_completeness auto

lemma snapshot_parent_in: "snapshot_parent sessions pane = Inr (Some parent) \<Longrightarrow>
    parent \<in> set sessions \<and> si_parent_session_id pane = Some (si_id parent) \<and> si_parent_pane_id pane = Some (si_pane_id parent)"
  by (auto simp: snapshot_parent_def find_Some_iff split: option.splits if_splits)

termination root_of
proof (relation "measure (\<lambda>(sessions, seen, info). 2 * card (si_id ` set sessions - set seen)
    + (if si_id info \<in> si_id ` set sessions then 0 else 1))")
  fix sessions ancestors x2 and root parent :: session_info
  assume step: "si_id root \<notin> set ancestors" "snapshot_parent sessions root = Inr x2" "x2 = Some parent"
  show "((sessions, si_id root # ancestors, parent), (sessions, ancestors, root)) \<in> measure (\<lambda>(sessions, seen, info).
      2 * card (si_id ` set sessions - set seen) + (if si_id info \<in> si_id ` set sessions then 0 else 1))"
    using identity_measure [of parent sessions "si_id root" ancestors] snapshot_parent_in [of sessions root parent] step by simp
qed simp

definition add_child ::
    "session_info list \<Rightarrow> session_info \<Rightarrow> session_info \<Rightarrow> session_info list compat_result \<Rightarrow> session_info list compat_result" where
  "add_child sessions parent child acc =
     bind_res acc (\<lambda>tree.
       if si_parent_session_id child \<noteq> Some (si_id parent) \<and> si_parent_pane_id child \<noteq> Some (si_pane_id parent)
       then Inr tree
       else
         (case snapshot_parent sessions child of
            Inl e \<Rightarrow> Inl e
          | Inr None \<Rightarrow> Inl TargetUnavailable
          | Inr (Some actual_parent) \<Rightarrow>
              if si_id actual_parent \<noteq> si_id parent then Inl InvalidValue
              else if si_id child \<in> si_id ` set tree then Inl CyclicParents
              else Inr (tree @ [child])))"

definition add_children ::
    "session_info list \<Rightarrow> session_info \<Rightarrow> session_info list \<Rightarrow> session_info list compat_result" where
  "add_children sessions parent tree = fold (add_child sessions parent) sessions (Inr tree)"

definition child_of :: "session_info list \<Rightarrow> session_info \<Rightarrow> session_info \<Rightarrow> bool" where
  "child_of sessions parent c \<longleftrightarrow> (\<exists>p. snapshot_parent sessions c = Inr (Some p) \<and> si_id p = si_id parent)"

lemma add_child_Inl [simp]: "add_child sessions parent c (Inl e) = Inl e"
  by (simp add: add_child_def)

lemma add_children_Inl [simp]: "fold (add_child sessions parent) cs (Inl e) = Inl e"
  by (induction cs) simp_all

lemma add_child_Inr:
  assumes "add_child sessions parent c (Inr tree) = Inr tree'"
  shows "tree' = tree \<and> si_parent_session_id c \<noteq> Some (si_id parent) \<and> si_parent_pane_id c \<noteq> Some (si_pane_id parent)
    \<or> tree' = tree @ [c] \<and> si_id c \<notin> si_id ` set tree \<and> child_of sessions parent c"
  using assms by (auto simp: add_child_def child_of_def split: if_splits sum.splits option.splits)

lemma add_children_grows:
  assumes "fold (add_child sessions parent) cs (Inr tree) = Inr tree'"
  shows "\<exists>new. tree' = tree @ new \<and> set new \<subseteq> set cs \<and> distinct (map si_id new) \<and> si_id ` set new \<inter> si_id ` set tree = {}
    \<and> list_all (child_of sessions parent) new"
  using assms
proof (induction cs arbitrary: tree)
  case (Cons c cs)
  obtain mid where mid: "add_child sessions parent c (Inr tree) = Inr mid" "fold (add_child sessions parent) cs (Inr mid) = Inr tree'"
    using Cons.prems by (cases "add_child sessions parent c (Inr tree)") auto
  obtain new where new: "tree' = mid @ new" "set new \<subseteq> set cs" "distinct (map si_id new)" "si_id ` set new \<inter> si_id ` set mid = {}"
    "list_all (child_of sessions parent) new"
    using Cons.IH [OF mid(2)] by blast
  from add_child_Inr [OF mid(1)] show ?case
  proof (elim disjE conjE)
    assume "mid = tree"
    then show ?thesis using new by (intro exI [of _ new]) auto
  next
    assume "mid = tree @ [c]" "si_id c \<notin> si_id ` set tree" "child_of sessions parent c"
    then show ?thesis using new by (intro exI [of _ "c # new"]) auto
  qed
qed simp

function grow_tree :: "session_info list \<Rightarrow> nat \<Rightarrow> session_info list \<Rightarrow> session_info list compat_result" where
  "grow_tree sessions cursor tree =
     (if cursor < length tree
      then (case add_children sessions (tree ! cursor) tree of
              Inl e \<Rightarrow> Inl e
            | Inr tree' \<Rightarrow> grow_tree sessions (Suc cursor) tree')
      else Inr tree)"
  by pat_completeness auto

lemma card_remove_ids:
  assumes "distinct (map f new)" "f ` set new \<subseteq> A" "f ` set new \<inter> B = {}" "finite A"
  shows "card (A - (B \<union> f ` set new)) + length new = card (A - B)"
proof -
  have "card (f ` set new) = length new" using assms(1) by (metis distinct_card length_map set_map)
  moreover have "A - B = (A - (B \<union> f ` set new)) \<union> f ` set new" "(A - (B \<union> f ` set new)) \<inter> f ` set new = {}"
    using assms(2,3) by auto
  ultimately show ?thesis using assms(4) by (metis card_Un_disjoint finite_Diff finite_imageI List.finite_set)
qed

termination grow_tree
proof (relation "measure (\<lambda>(sessions, cursor, tree). 2 * card (si_id ` set sessions - si_id ` set tree) + (length tree - cursor))")
  fix sessions cursor tree tree'
  assume step: "cursor < length tree" "add_children sessions (tree ! cursor) tree = Inr tree'"
  obtain new where new: "tree' = tree @ new" "set new \<subseteq> set sessions" "distinct (map si_id new)" "si_id ` set new \<inter> si_id ` set tree = {}"
    using add_children_grows [OF step(2) [unfolded add_children_def]] by blast
  then have "card (si_id ` set sessions - si_id ` set tree') + length new = card (si_id ` set sessions - si_id ` set tree)"
    using card_remove_ids [of si_id new "si_id ` set sessions" "si_id ` set tree"] by (auto simp: image_Un)
  then show "((sessions, Suc cursor, tree'), (sessions, cursor, tree)) \<in> measure (\<lambda>(sessions, cursor, tree).
      2 * card (si_id ` set sessions - si_id ` set tree) + (length tree - cursor))"
    using step(1) new(1) by simp
qed simp

definition session_tree_from_snapshot :: "ustring \<Rightarrow> session_info list \<Rightarrow> session_info list compat_result" where
  "session_tree_from_snapshot target sessions =
     (if \<not> snapshot_consistent sessions then Inl InvalidValue
      else
        bind_res (ok_or (resolve_snapshot_target target sessions) TargetUnavailable) (\<lambda>pane.
        bind_res (root_of sessions [] pane) (\<lambda>root. grow_tree sessions 0 [root])))"

section \<open>Waiting on a channel\<close>

text \<open>One turn of the loop of \<open>wait_for\<close>. A turn knows the time, the signature of the file (or that it could not be read), and
  what the operations on the store answer; the loop ends with 0 when the generation has advanced and with 1 at the
  deadline. Instants are milliseconds.\<close>

record waiter =
  wt_channel :: ustring
  wt_observed :: u64
  wt_deadline :: nat
  wt_next_touch :: nat
  wt_last_signature :: "(nat \<times> nat option) option option"
  wt_last_forced_read :: nat
  wt_sleep_for :: nat

datatype wait_progress = WaitReturned nat | WaitFailed compat_error | WaitSleeping waiter

definition WAIT_GENERATION_TOUCH_INTERVAL_MS :: nat where
  "WAIT_GENERATION_TOUCH_INTERVAL_MS = 30 * 1000"

definition WAIT_GENERATION_FORCE_READ_INTERVAL_MS :: nat where
  "WAIT_GENERATION_FORCE_READ_INTERVAL_MS = 1000"

definition should_read_wait_store ::
    "(nat \<times> nat option) option option \<Rightarrow> (nat \<times> nat option) option option \<Rightarrow> nat \<Rightarrow> nat \<Rightarrow> bool" where
  "should_read_wait_store current_signature last_signature now last_forced_read \<longleftrightarrow>
     current_signature \<noteq> last_signature \<or> now - last_forced_read \<ge> WAIT_GENERATION_FORCE_READ_INTERVAL_MS"

definition wait_channel_turn ::
    "compat_codec \<Rightarrow> compat_answers \<Rightarrow> (ustring list \<Rightarrow> ustring list) \<Rightarrow> u64 \<Rightarrow> u64 \<Rightarrow> nat
       \<Rightarrow> (nat \<times> nat option) option option \<Rightarrow> (nat \<times> nat option) option option \<Rightarrow> waiter \<Rightarrow> compat_disk
       \<Rightarrow> compat_disk \<times> wait_progress" where
  "wait_channel_turn cc ca order secs secs' now signature signature' w d =
     (if wt_deadline w \<le> now then (d, WaitReturned 1)
      else
        (let touch = wt_next_touch w \<le> now;
             w = (if touch then w\<lparr>wt_next_touch := now + WAIT_GENERATION_TOUCH_INTERVAL_MS\<rparr> else w);
             reads = touch \<or> should_read_wait_store signature (wt_last_signature w) now (wt_last_forced_read w);
             (d, read) =
               (if touch then update_store cc ca (look_at_channel order secs secs' (wt_channel w)) d
                else if reads then read_store cc ca (\<lambda>store. Inr (generation_of store (wt_channel w))) d
                else (d, Inr (wt_observed w)));
             w = (if reads then w\<lparr>wt_last_signature := signature', wt_last_forced_read := now\<rparr> else w) in
         case read of
           Inl e \<Rightarrow> (d, WaitFailed e)
         | Inr generation \<Rightarrow>
             if wait_generation_has_advanced (wt_observed w) generation then (d, WaitReturned 0)
             else (d, WaitSleeping (w\<lparr>wt_sleep_for := min (wt_sleep_for w + 100) 1000\<rparr>))))"

definition signal_wait_channel ::
    "compat_codec \<Rightarrow> compat_answers \<Rightarrow> (ustring list \<Rightarrow> ustring list) \<Rightarrow> u64 \<Rightarrow> u64 \<Rightarrow> ustring \<Rightarrow> compat_disk
       \<Rightarrow> compat_disk \<times> unit compat_result" where
  "signal_wait_channel cc ca order secs secs' channel =
     (\<lambda>d. case validate_wait_channel channel of Inl e \<Rightarrow> (d, Inl e)
       | Inr _ \<Rightarrow> update_store cc ca (signal_channel order secs secs' channel) d)"

definition begin_wait ::
    "compat_codec \<Rightarrow> compat_answers \<Rightarrow> (ustring list \<Rightarrow> ustring list) \<Rightarrow> u64 \<Rightarrow> u64 \<Rightarrow> nat
       \<Rightarrow> (nat \<times> nat option) option option \<Rightarrow> ustring \<Rightarrow> compat_disk \<Rightarrow> compat_disk \<times> waiter compat_result" where
  "begin_wait cc ca order secs secs' now signature channel d =
     (case validate_wait_channel channel of
        Inl e \<Rightarrow> (d, Inl e)
      | Inr _ \<Rightarrow>
          (case update_store cc ca (look_at_channel order secs secs' channel) d of
             (d, Inl e) \<Rightarrow> (d, Inl e)
           | (d, Inr observed) \<Rightarrow>
               (d, Inr \<lparr>wt_channel = channel, wt_observed = observed, wt_deadline = now + 24 * 60 * 60 * 1000,
                  wt_next_touch = now + WAIT_GENERATION_TOUCH_INTERVAL_MS, wt_last_signature = signature,
                  wt_last_forced_read = now, wt_sleep_for = 100\<rparr>)))"

end
