(* ===== verification/Tmux_Invariant.thy ===== *)
theory Tmux_Invariant
  imports Tmux_Store "HOL-Library.Multiset"
begin

text \<open>
  The tree of a session that the tmux compatibility layer kills, and the invariant of its store: every invocation of the shim
  keeps the maps well formed and within their limits. The contract \<open>store_change\<close> of a change that runs under the lock is a
  locale, interpreted for every change of the source.
\<close>

section \<open>The tree of a session is complete\<close>

definition parent_link :: "session_info list \<Rightarrow> session_info \<Rightarrow> session_info \<Rightarrow> bool" where
  "parent_link sessions c p \<longleftrightarrow> c \<in> set sessions \<and> snapshot_parent sessions c = Inr (Some p)"

lemma parent_link_in: "parent_link sessions c p \<Longrightarrow> p \<in> set sessions"
  using snapshot_parent_in by (auto simp: parent_link_def)

lemma same_id:
  "snapshot_consistent sessions \<Longrightarrow> a \<in> set sessions \<Longrightarrow> b \<in> set sessions \<Longrightarrow> si_id a = si_id b \<Longrightarrow> a = b"
  by (auto simp: snapshot_consistent_def distinct_map inj_on_def)

lemma child_of_link:
  assumes "snapshot_consistent sessions" "c \<in> set sessions" "p \<in> set sessions"
  shows "child_of sessions p c \<longleftrightarrow> parent_link sessions c p"
  using assms same_id [OF assms(1) _ assms(3)] snapshot_parent_in by (fastforce simp: child_of_def parent_link_def)

lemma add_children_mono: "fold (add_child sessions parent) cs (Inr tree) = Inr tree' \<Longrightarrow> set tree \<subseteq> set tree'"
  using add_children_grows by fastforce

lemma add_children_all:
  assumes "fold (add_child sessions parent) cs (Inr tree) = Inr tree'" "c \<in> set cs" "child_of sessions parent c"
  shows "c \<in> set tree'"
  using assms(1,2)
proof (induction cs arbitrary: tree)
  case (Cons x cs)
  obtain mid where mid: "add_child sessions parent x (Inr tree) = Inr mid" "fold (add_child sessions parent) cs (Inr mid) = Inr tree'"
    using Cons.prems(1) by (cases "add_child sessions parent x (Inr tree)") auto
  show ?case
  proof (cases "c \<in> set cs")
    case True
    then show ?thesis using Cons.IH [OF mid(2)] by blast
  next
    case False
    then have "c = x" using Cons.prems(2) by simp
    moreover have "si_parent_session_id c = Some (si_id parent)"
      using assms(3) snapshot_parent_in by (fastforce simp: child_of_def)
    ultimately have "c \<in> set mid" using add_child_Inr [OF mid(1)] by auto
    then show ?thesis using add_children_mono [OF mid(2)] by blast
  qed
qed simp

text \<open>The tree so far: everything in it descends from the root, and the children of the nodes before the cursor are in
  it.\<close>

definition tree_inv :: "session_info list \<Rightarrow> session_info \<Rightarrow> nat \<Rightarrow> session_info list \<Rightarrow> bool" where
  "tree_inv sessions root cursor tree \<longleftrightarrow>
     tree \<noteq> [] \<and> hd tree = root \<and> distinct (map si_id tree) \<and> set tree \<subseteq> set sessions
     \<and> (\<forall>s\<in>set tree. (parent_link sessions)\<^sup>*\<^sup>* s root)
     \<and> (\<forall>i<cursor. \<forall>c. parent_link sessions c (tree ! i) \<longrightarrow> c \<in> set tree) \<and> cursor \<le> length tree"

lemma grow_step_inv:
  assumes ok: "snapshot_consistent sessions" and inv: "tree_inv sessions root cursor tree" and lt: "cursor < length tree"
    and run: "add_children sessions (tree ! cursor) tree = Inr tree'"
  shows "tree_inv sessions root (Suc cursor) tree'"
proof -
  let ?p = "tree ! cursor"
  have p: "?p \<in> set tree" "?p \<in> set sessions" using inv lt by (auto simp: tree_inv_def)
  obtain new where new: "tree' = tree @ new" "set new \<subseteq> set sessions" "distinct (map si_id new)"
    "si_id ` set new \<inter> si_id ` set tree = {}" "list_all (child_of sessions ?p) new"
    using add_children_grows [OF run [unfolded add_children_def]] by blast
  have link: "parent_link sessions c ?p" if "c \<in> set new" for c
    using new(2,5) that child_of_link [OF ok _ p(2)] by (auto simp: list_all_iff)
  have reach: "(parent_link sessions)\<^sup>*\<^sup>* s root" if "s \<in> set tree'" for s
    using that new(1) inv p(1) link [of s] by (auto simp: tree_inv_def intro: converse_rtranclp_into_rtranclp)
  have "c \<in> set tree'" if "i < Suc cursor" "parent_link sessions c (tree' ! i)" for i c
  proof (cases "i = cursor")
    case True
    then have "child_of sessions ?p c" "c \<in> set sessions"
      using that(2) new(1) lt child_of_link [OF ok _ p(2)] by (auto simp: nth_append parent_link_def)
    then show ?thesis using add_children_all [OF run [unfolded add_children_def]] by blast
  next
    case False
    then have "i < cursor" using that(1) by simp
    then show ?thesis using that(2) inv new(1) lt by (auto simp: tree_inv_def nth_append)
  qed
  then show ?thesis
    using inv new reach lt by (auto simp: tree_inv_def)
qed

lemma grow_tree_inv:
  "grow_tree sessions cursor tree = Inr tree' \<Longrightarrow> snapshot_consistent sessions \<Longrightarrow> tree_inv sessions root cursor tree
    \<Longrightarrow> tree_inv sessions root (length tree') tree'"
proof (induction sessions cursor tree rule: grow_tree.induct)
  case (1 sessions cursor tree)
  show ?case
  proof (cases "cursor < length tree")
    case True
    then obtain mid where mid: "add_children sessions (tree ! cursor) tree = Inr mid" "grow_tree sessions (Suc cursor) mid = Inr tree'"
      using 1(2) by (cases "add_children sessions (tree ! cursor) tree") (simp_all add: grow_tree.simps [of sessions cursor tree] del: grow_tree.simps)
    show ?thesis using 1(1) [OF True mid(1) mid(2) 1(3)] grow_step_inv [OF 1(3,4) True mid(1)] by blast
  next
    case False
    then have "tree' = tree" using 1(2) by (simp add: grow_tree.simps [of sessions cursor tree] del: grow_tree.simps)
    then show ?thesis using False 1(4) by (simp add: tree_inv_def)
  qed
qed

lemma root_of_reaches:
  "root_of sessions ancestors pane = Inr root \<Longrightarrow> pane \<in> set sessions \<Longrightarrow>
     (parent_link sessions)\<^sup>*\<^sup>* pane root \<and> root \<in> set sessions \<and> snapshot_parent sessions root = Inr None"
proof (induction sessions ancestors pane rule: root_of.induct)
  case (1 sessions ancestors pane)
  show ?case
  proof (cases "snapshot_parent sessions pane = Inr None")
    case True
    then show ?thesis using 1(2,3) by (simp add: root_of.simps [of sessions ancestors pane] del: root_of.simps split: if_splits)
  next
    case False
    then obtain parent where p: "snapshot_parent sessions pane = Inr (Some parent)" "si_id pane \<notin> set ancestors"
      "root_of sessions (si_id pane # ancestors) parent = Inr root"
      using 1(2)
      by (cases "snapshot_parent sessions pane")
        (auto simp: root_of.simps [of sessions ancestors pane] simp del: root_of.simps split: if_splits option.splits)
    have "parent \<in> set sessions" using snapshot_parent_in [OF p(1)] by blast
    then show ?thesis using 1(1) [OF p(2,1) refl p(3)] 1(3) p(1)
      by (auto simp: parent_link_def intro: converse_rtranclp_into_rtranclp)
  qed
qed

lemma resolve_in: "resolve_snapshot_target target sessions = Some pane \<Longrightarrow> pane \<in> set sessions"
  by (auto simp: resolve_snapshot_target_def or_else_def Let_def find_Some_iff split: option.splits if_splits)

text \<open>C22. The panes that are killed with a session are exactly the sessions of the snapshot that descend from its root by
  parent links, the target among them, each once, with the root first.\<close>

theorem session_tree_complete:
  assumes "session_tree_from_snapshot target sessions = Inr tree"
  shows "\<exists>pane. resolve_snapshot_target target sessions = Some pane \<and> pane \<in> set tree \<and> distinct (map si_id tree)
    \<and> snapshot_parent sessions (hd tree) = Inr None
    \<and> set tree = {s \<in> set sessions. (parent_link sessions)\<^sup>*\<^sup>* s (hd tree)}"
proof -
  obtain pane root where p: "snapshot_consistent sessions" "resolve_snapshot_target target sessions = Some pane"
    "root_of sessions [] pane = Inr root" "grow_tree sessions 0 [root] = Inr tree"
    using assms by (auto simp: session_tree_from_snapshot_def split: if_splits)
  have r: "(parent_link sessions)\<^sup>*\<^sup>* pane root" "root \<in> set sessions" "snapshot_parent sessions root = Inr None"
    using root_of_reaches [OF p(3) resolve_in [OF p(2)]] by auto
  have "tree_inv sessions root 0 [root]" using r(2) by (simp add: tree_inv_def)
  from grow_tree_inv [OF p(4,1) this] have inv: "tree_inv sessions root (length tree) tree" .
  have closed: "c \<in> set tree" if "parent_link sessions c s" "s \<in> set tree" for c s
    using that inv by (metis tree_inv_def in_set_conv_nth)
  have down: "s \<in> set tree" if "(parent_link sessions)\<^sup>*\<^sup>* s root" for s
    using that
  proof (induction rule: converse_rtranclp_induct)
    case base
    then show ?case using inv by (metis tree_inv_def hd_in_set)
  qed (use closed in blast)
  have "set tree = {s \<in> set sessions. (parent_link sessions)\<^sup>*\<^sup>* s root}" using inv down by (auto simp: tree_inv_def)
  moreover have "hd tree = root" "distinct (map si_id tree)" using inv by (auto simp: tree_inv_def)
  ultimately show ?thesis using p(2) r down by auto
qed

section \<open>Dictionaries\<close>

lemma fold_delete: "fold AList.delete ks d = filter (\<lambda>(k, _). k \<notin> set ks) d"
  by (induction ks arbitrary: d) (auto simp: AList.delete_eq intro!: filter_cong)

lemma map_of_filter_key: "map_of (filter (\<lambda>(k, _). P k) d) k = (if P k then map_of d k else None)"
  by (induction d) auto

lemma map_of_fold_delete [simp]: "map_of (fold AList.delete ks d) k = (if k \<in> set ks then None else map_of d k)"
  by (simp add: fold_delete map_of_filter_key)

lemma dict_ok_filter: "dict_ok d \<Longrightarrow> dict_ok (filter P d)"
  by (auto simp: dict_ok_def distinct_map inj_on_def)

lemma dict_ok_Nil [simp]: "dict_ok []"
  by (simp add: dict_ok_def)

lemma dict_ok_update [simp]: "dict_ok d \<Longrightarrow> dict_ok (AList.update k v d)"
  by (simp add: dict_ok_def AList.distinct_update)

lemma dict_ok_delete [simp]: "dict_ok d \<Longrightarrow> dict_ok (AList.delete k d)"
  by (simp add: AList.delete_eq dict_ok_filter)

lemma dict_ok_fold_delete [simp]: "dict_ok d \<Longrightarrow> dict_ok (fold AList.delete ks d)"
  by (simp add: fold_delete dict_ok_filter)

lemma keys_update [simp]: "fst ` set (AList.update k v d) = insert k (fst ` set d)"
  by (induction d) auto

lemma keys_fold_delete [simp]: "fst ` set (fold AList.delete ks d) = fst ` set d - set ks"
  by (force simp: fold_delete)

lemma contains_key_iff: "contains_key d k \<longleftrightarrow> k \<in> fst ` set d"
  by (metis contains_key_def is_some_iff map_of_eq_None_iff not_None_eq)

lemma dict_card: "dict_ok d \<Longrightarrow> length d = card (fst ` set d)"
  by (metis dict_ok_def distinct_card length_map list.set_map)

lemma length_update_le: "length (AList.update k v d) \<le> Suc (length d)"
  by (induction d) auto

lemma length_update_old: "k \<in> fst ` set d \<Longrightarrow> length (AList.update k v d) = length d"
  by (induction d) auto


section \<open>Pruning the wait channels\<close>

lemma stamp_untouched_Cons:
  "stamp_untouched now ((c, g) # gs) t = stamp_untouched now gs (if contains_key t c then t else AList.update c now t)"
  by (simp add: stamp_untouched_def)

lemma stamp_untouched_ok: "dict_ok t \<Longrightarrow> dict_ok (stamp_untouched now gs t)"
  by (induction gs arbitrary: t) (auto simp: stamp_untouched_Cons, simp add: stamp_untouched_def)

lemma stamp_untouched_keys: "fst ` set (stamp_untouched now gs t) = fst ` set t \<union> fst ` set gs"
proof (induction gs arbitrary: t)
  case (Cons x gs)
  then show ?case by (cases x) (auto simp: stamp_untouched_Cons contains_key_iff)
qed (simp add: stamp_untouched_def)

lemma stamp_untouched_map_of:
  "map_of (stamp_untouched now gs t) c =
     (case map_of t c of Some s \<Rightarrow> Some s | None \<Rightarrow> if c \<in> fst ` set gs then Some now else None)"
proof (induction gs arbitrary: t)
  case (Cons x gs)
  then show ?case
    by (cases x) (auto simp: stamp_untouched_Cons contains_key_def is_some_iff AList.update_conv' split: option.splits)
qed (simp add: stamp_untouched_def split: option.splits)

text \<open>The channels of the store are well formed: both maps have the same keys.\<close>

definition channels_ok :: "compat_store \<Rightarrow> bool" where
  "channels_ok store \<longleftrightarrow> dict_ok (cs_wait_generations store) \<and> dict_ok (cs_wait_generation_touched_secs store)
     \<and> fst ` set (cs_wait_generation_touched_secs store) = fst ` set (cs_wait_generations store)"

definition other_parts :: "compat_store \<Rightarrow> compat_pane dict \<times> ustring dict dict \<times> ustring dict dict \<times> managed_attach_lease dict" where
  "other_parts store = (cs_panes store, cs_pane_user_options store, cs_session_user_options store, cs_managed_attaches store)"

definition permutes_keys :: "(ustring list \<Rightarrow> ustring list) \<Rightarrow> bool" where
  "permutes_keys order \<longleftrightarrow> (\<forall>xs. mset (order xs) = mset xs)"

lemma filter_one: "distinct xs \<Longrightarrow> length (filter (\<lambda>c. p = Some c) xs) \<le> 1"
proof (induction xs)
  case (Cons x xs)
  then show ?case by (cases "p = Some x") (auto simp: filter_empty_conv)
qed simp

lemma drop_overflow_bound:
  assumes "permutes_keys order" "dict_ok (cs_wait_generations store)"
    "WAIT_GENERATION_MAX_CHANNELS < length (cs_wait_generations store)"
  shows "length (cs_wait_generations (drop_overflow order now protected store)) = WAIT_GENERATION_MAX_CHANNELS"
proof -
  let ?g = "cs_wait_generations store"
  let ?keys = "filter (\<lambda>c. protected \<noteq> Some c) (order (map fst ?g))"
  let ?stamp = "\<lambda>c. (c, case map_of (cs_wait_generation_touched_secs store) c of Some t \<Rightarrow> t | None \<Rightarrow> now)"
  let ?n = "length ?g - WAIT_GENERATION_MAX_CHANNELS"
  define victims where "victims = map fst (take ?n (sort_key snd (map ?stamp ?keys)))"
  have perm: "mset (order (map fst ?g)) = mset (map fst ?g)" using assms(1) by (simp add: permutes_keys_def)
  then have set_order: "set (order (map fst ?g)) = fst ` set ?g" and len: "length (order (map fst ?g)) = length ?g"
    using mset_eq_setD [OF perm] mset_eq_length [OF perm] by simp_all
  have d: "distinct (order (map fst ?g))" using assms(2) perm by (metis dict_ok_def mset_eq_imp_distinct_iff)
  then have dk: "distinct ?keys" by simp
  have "mset (map fst (sort_key snd (map ?stamp ?keys))) = mset ?keys"
    by (simp add: multiset.map_comp comp_def)
  then have sorted: "set (map fst (sort_key snd (map ?stamp ?keys))) = set ?keys"
    "distinct (map fst (sort_key snd (map ?stamp ?keys)))"
    using dk mset_eq_setD mset_eq_imp_distinct_iff by blast+
  have dist: "distinct victims" using sorted(2) by (simp add: victims_def take_map [symmetric] distinct_take)
  have sub: "set victims \<subseteq> fst ` set ?g"
    using sorted(1) set_order by (auto simp: victims_def take_map [symmetric] dest!: in_set_takeD)
  have "length ?g - 1 \<le> length ?keys"
    using filter_one [OF d, of protected] sum_length_filter_compl [of "\<lambda>c. protected \<noteq> Some c" "order (map fst ?g)"] len
    by simp
  then have lv: "length victims = ?n" using assms(3) by (simp add: victims_def WAIT_GENERATION_MAX_CHANNELS_def)
  have "cs_wait_generations (drop_overflow order now protected store) = fold AList.delete victims ?g"
    by (simp add: drop_overflow_def victims_def Let_def)
  moreover have "length (fold AList.delete victims ?g) = card (fst ` set ?g - set victims)"
    using assms(2) by (simp add: dict_card)
  moreover have "card (fst ` set ?g - set victims) = length ?g - length victims"
    using sub dist assms(2) by (simp add: card_Diff_subset distinct_card dict_card)
  ultimately show ?thesis using lv assms(3) by simp
qed

lemma drop_stale_other [simp]: "other_parts (drop_stale cutoff protected store) = other_parts store"
  "other_parts (drop_orphaned store) = other_parts store"
  "other_parts (drop_overflow order now protected store) = other_parts store"
  by (simp_all add: other_parts_def drop_stale_def drop_orphaned_def drop_overflow_def Let_def)

lemma prune_other [simp]: "other_parts (prune_wait_generations order now protected store) = other_parts store"
proof -
  have "other_parts (store\<lparr>cs_wait_generation_touched_secs := t\<rparr>) = other_parts store" for t
    by (simp add: other_parts_def)
  then show ?thesis by (simp add: prune_wait_generations_def Let_def)
qed

lemma drop_overflow_ok: "channels_ok store \<Longrightarrow> channels_ok (drop_overflow order now protected store)"
  by (auto simp: channels_ok_def drop_overflow_def Let_def)

text \<open>Before the orphans go, the times have the keys of the generations and more.\<close>

lemma drop_orphaned_ok:
  assumes "dict_ok (cs_wait_generations store)" "dict_ok (cs_wait_generation_touched_secs store)"
    "fst ` set (cs_wait_generations store) \<subseteq> fst ` set (cs_wait_generation_touched_secs store)"
  shows "channels_ok (drop_orphaned store)"
  using assms by (force simp: channels_ok_def drop_orphaned_def dict_ok_filter contains_key_iff)

lemma drop_stale_ok:
  assumes "dict_ok (cs_wait_generations store)" "dict_ok (cs_wait_generation_touched_secs store)"
    "fst ` set (cs_wait_generations store) \<subseteq> fst ` set (cs_wait_generation_touched_secs store)"
  shows "channels_ok (drop_orphaned (drop_stale cutoff protected store))"
proof (rule drop_orphaned_ok)
  show "fst ` set (cs_wait_generations (drop_stale cutoff protected store))
      \<subseteq> fst ` set (cs_wait_generation_touched_secs (drop_stale cutoff protected store))"
    unfolding drop_stale_def Let_def using assms(3) by (simp del: set_map add: Diff_mono)
qed (use assms in \<open>simp_all add: drop_stale_def Let_def\<close>)

lemma prune_channels_ok:
  assumes "dict_ok (cs_wait_generations store)" "dict_ok (cs_wait_generation_touched_secs store)"
  shows "channels_ok (prune_wait_generations order now protected store)"
proof -
  let ?stamped = "store\<lparr>cs_wait_generation_touched_secs :=
    stamp_untouched now (cs_wait_generations store) (cs_wait_generation_touched_secs store)\<rparr>"
  have "channels_ok (drop_orphaned (drop_stale cutoff protected ?stamped))" for cutoff
    by (rule drop_stale_ok) (use assms in \<open>simp_all add: stamp_untouched_ok stamp_untouched_keys\<close>)
  then show ?thesis by (simp add: prune_wait_generations_def Let_def drop_overflow_ok)
qed

lemma prune_bound:
  assumes "permutes_keys order" "dict_ok (cs_wait_generations store)"
  shows "length (cs_wait_generations (prune_wait_generations order now protected store)) \<le> WAIT_GENERATION_MAX_CHANNELS"
  using assms drop_overflow_bound [OF assms(1)]
  by (auto simp: prune_wait_generations_def Let_def drop_orphaned_def drop_stale_def not_le)

text \<open>A channel that was touched within the retention stays when the channels fit.\<close>

definition recently_touched :: "u64 \<Rightarrow> ustring \<Rightarrow> compat_store \<Rightarrow> bool" where
  "recently_touched now channel store \<longleftrightarrow>
     is_none_or (map_of (cs_wait_generation_touched_secs store) channel)
       (\<lambda>t. saturating_sub now WAIT_GENERATION_RETENTION_SECS \<le> t)"

lemma saturating_sub_le: "saturating_sub now b \<le> now"
  by (simp add: saturating_sub_def word_sub_le_iff)

lemma length_fold_delete: "length (fold AList.delete ks d) \<le> length d"
  by (simp add: fold_delete)

lemma prune_keeps_channel:
  assumes "length (cs_wait_generations store) \<le> WAIT_GENERATION_MAX_CHANNELS"
    "dict_ok (cs_wait_generation_touched_secs store)"
    "protected = Some channel \<or> recently_touched now channel store"
  shows "map_of (cs_wait_generations (prune_wait_generations order now protected store)) channel
    = map_of (cs_wait_generations store) channel"
proof -
  let ?cut = "saturating_sub now WAIT_GENERATION_RETENTION_SECS"
  let ?t = "stamp_untouched now (cs_wait_generations store) (cs_wait_generation_touched_secs store)"
  have "channel \<notin> set (map fst (filter (\<lambda>(c, t). protected \<noteq> Some c \<and> t < ?cut) ?t))"
  proof
    assume "channel \<in> set (map fst (filter (\<lambda>(c, t). protected \<noteq> Some c \<and> t < ?cut) ?t))"
    then obtain t where "(channel, t) \<in> set ?t" "protected \<noteq> Some channel" "t < ?cut" by auto
    moreover have "map_of ?t channel = Some t"
      using calculation(1) stamp_untouched_ok [OF assms(2)] by (simp add: dict_ok_def map_of_is_SomeI)
    ultimately show False
      using assms(3) saturating_sub_le [of now WAIT_GENERATION_RETENTION_SECS]
      by (auto simp: stamp_untouched_map_of recently_touched_def is_none_or_def split: option.splits if_splits)
  qed
  moreover have "length (fold AList.delete ks (cs_wait_generations store)) \<le> WAIT_GENERATION_MAX_CHANNELS" for ks
    using length_fold_delete assms(1) le_trans by blast
  ultimately show ?thesis
    by (simp add: prune_wait_generations_def Let_def drop_orphaned_def drop_stale_def)
qed

section \<open>The store is bounded\<close>

definition options_ok :: "ustring dict dict \<Rightarrow> bool" where
  "options_ok options \<longleftrightarrow> dict_ok options \<and> list_all (dict_ok \<circ> snd) options"

definition option_count :: "compat_store \<Rightarrow> ustring \<Rightarrow> nat" where
  "option_count store identity = length (entry_or_default (cs_pane_user_options store) identity)
     + length (entry_or_default (cs_session_user_options store) identity)"

definition compat_store_ok :: "compat_store \<Rightarrow> bool" where
  "compat_store_ok store \<longleftrightarrow> channels_ok store \<and> length (cs_wait_generations store) \<le> Suc WAIT_GENERATION_MAX_CHANNELS
     \<and> dict_ok (cs_panes store) \<and> dict_ok (cs_managed_attaches store)
     \<and> options_ok (cs_pane_user_options store) \<and> options_ok (cs_session_user_options store)
     \<and> (\<forall>identity. option_count store identity \<le> USER_OPTIONS_PER_IDENTITY_MAX)
     \<and> user_option_identity_count store \<le> USER_OPTION_IDENTITIES_MAX
     \<and> user_option_entry_count store \<le> USER_OPTION_ENTRIES_MAX"

lemma compat_store_ok_default: "compat_store_ok compat_store_default"
  by (simp add: compat_store_ok_def compat_store_default_def channels_ok_def options_ok_def option_count_def entry_or_default_def
      user_option_identity_count_def user_option_entry_count_def)

lemma store_ok_channels:
  assumes "compat_store_ok store" "other_parts store' = other_parts store" "channels_ok store'"
    "length (cs_wait_generations store') \<le> Suc WAIT_GENERATION_MAX_CHANNELS"
  shows "compat_store_ok store'"
  using assms
  by (simp add: compat_store_ok_def other_parts_def option_count_def user_option_identity_count_def user_option_entry_count_def)

lemma prune_dicts: "compat_store_ok store \<Longrightarrow> channels_ok (prune_wait_generations order now protected store)"
  by (rule prune_channels_ok) (simp_all add: compat_store_ok_def channels_ok_def)

lemma signal_channel_ok:
  assumes "permutes_keys order" "compat_store_ok store" "signal_channel order now now' channel store = Inr (store', x)"
  shows "compat_store_ok store'"
proof (rule store_ok_channels [OF assms(2)])
  have p: "channels_ok (prune_wait_generations order now None store)"
    "length (cs_wait_generations (prune_wait_generations order now None store)) \<le> WAIT_GENERATION_MAX_CHANNELS"
    using prune_dicts [OF assms(2)] prune_bound [OF assms(1)] assms(2) by (auto simp: compat_store_ok_def channels_ok_def)
  show "other_parts store' = other_parts store"
    using assms(3) prune_other [of order now None store]
    by (auto simp: signal_channel_def Let_def touch_wait_generation_def other_parts_def)
  show "channels_ok store'"
    using assms(3) p(1) by (clarsimp simp: signal_channel_def Let_def touch_wait_generation_def channels_ok_def)
  show "length (cs_wait_generations store') \<le> Suc WAIT_GENERATION_MAX_CHANNELS"
    using assms(3) p(2) by (auto simp: signal_channel_def Let_def touch_wait_generation_def intro!: le_trans [OF length_update_le])
qed

lemma look_at_channel_ok:
  assumes "permutes_keys order" "compat_store_ok store" "look_at_channel order now now' channel store = Inr (store', x)"
  shows "compat_store_ok store'"
proof (rule store_ok_channels [OF assms(2)])
  have p: "channels_ok (prune_wait_generations order now (Some channel) store)"
    "length (cs_wait_generations (prune_wait_generations order now (Some channel) store)) \<le> WAIT_GENERATION_MAX_CHANNELS"
    using prune_dicts [OF assms(2)] prune_bound [OF assms(1)] assms(2) by (auto simp: compat_store_ok_def channels_ok_def)
  show "other_parts store' = other_parts store"
    using assms(3) prune_other [of order now "Some channel" store]
    by (auto simp: look_at_channel_def Let_def touch_existing_wait_generation_def touch_wait_generation_def other_parts_def)
  show "channels_ok store'"
    using assms(3) p(1)
    by (clarsimp simp: look_at_channel_def Let_def touch_existing_wait_generation_def touch_wait_generation_def channels_ok_def
        contains_key_iff insert_absorb)
  show "length (cs_wait_generations store') \<le> Suc WAIT_GENERATION_MAX_CHANNELS"
    using assms(3) p(2) by (auto simp: look_at_channel_def Let_def touch_existing_wait_generation_def touch_wait_generation_def)
qed

subsection \<open>User options\<close>

definition total_entries :: "ustring dict dict \<Rightarrow> nat" where
  "total_entries d = sum_list (map (length \<circ> snd) d)"

lemma user_option_entry_count_total:
  "user_option_entry_count store = total_entries (cs_pane_user_options store) + total_entries (cs_session_user_options store)"
  by (simp add: user_option_entry_count_def total_entries_def)

lemma user_option_identity_count_card:
  "user_option_identity_count store
     = card (fst ` set (cs_pane_user_options store) \<union> fst ` set (cs_session_user_options store))"
  unfolding user_option_identity_count_def by (subst length_remdups_card_conv) simp

lemma total_update: "total_entries (AList.update k v d) + length (entry_or_default d k) = total_entries d + length v"
  by (induction d) (auto simp: total_entries_def entry_or_default_def)

lemma total_filter: "total_entries (filter P d) \<le> total_entries d"
  by (induction d) (auto simp: total_entries_def)

lemma total_delete: "total_entries (AList.delete k d) \<le> total_entries d"
  by (simp add: AList.delete_eq total_filter)

lemma entry_update: "entry_or_default (AList.update k v d) k' = (if k' = k then v else entry_or_default d k')"
  by (simp add: entry_or_default_def AList.update_conv')

lemma entry_ok: "options_ok d \<Longrightarrow> dict_ok (entry_or_default d k)"
  by (auto simp: options_ok_def entry_or_default_def list_all_iff split: option.splits dest!: map_of_SomeD)

lemma map_of_filter_dict:
  "dict_ok d \<Longrightarrow> map_of (filter (\<lambda>(k, v). P k v) d) k = Option.bind (map_of d k) (\<lambda>v. if P k v then Some v else None)"
proof (induction d)
  case (Cons x d)
  then have "dict_ok d" "fst x \<notin> fst ` set d" by (auto simp: dict_ok_def)
  then show ?case
    using Cons.IH map_of_eq_None_iff [of d "fst x"] by (cases x) auto
qed simp

lemma options_ok_filter: "options_ok d \<Longrightarrow> options_ok (filter P d)"
  by (auto simp: options_ok_def dict_ok_filter list_all_iff)

lemma options_ok_update: "options_ok d \<Longrightarrow> dict_ok v \<Longrightarrow> options_ok (AList.update k v d)"
proof -
  assume ok: "options_ok d" "dict_ok v"
  have "list_all (dict_ok \<circ> snd) (AList.update k v d)" if "list_all (dict_ok \<circ> snd) d"
    using that ok(2) by (induction d) auto
  then show ?thesis using ok(1) by (simp add: options_ok_def)
qed

text \<open>A change of the options that adds nothing.\<close>

definition shrinks :: "ustring dict dict \<Rightarrow> ustring dict dict \<Rightarrow> bool" where
  "shrinks d' d \<longleftrightarrow> options_ok d' \<and> fst ` set d' \<subseteq> fst ` set d
     \<and> (\<forall>k. length (entry_or_default d' k) \<le> length (entry_or_default d k)) \<and> total_entries d' \<le> total_entries d"

lemma shrinks_refl: "options_ok d \<Longrightarrow> shrinks d d"
  by (simp add: shrinks_def)

lemma shrinks_trans: "shrinks c b \<Longrightarrow> shrinks b a \<Longrightarrow> shrinks c a"
  unfolding shrinks_def by (auto intro: le_trans)

lemma shrinks_filter:
  assumes "options_ok d" shows "shrinks (filter (\<lambda>(k, v). P k v) d) d"
proof -
  have "length (entry_or_default (filter (\<lambda>(k, v). P k v) d) k) \<le> length (entry_or_default d k)" for k
    using assms by (auto simp: entry_or_default_def map_of_filter_dict options_ok_def split: option.splits)
  moreover have "fst ` set (filter (\<lambda>(k, v). P k v) d) \<subseteq> fst ` set d" by auto
  ultimately show ?thesis using assms unfolding shrinks_def by (blast intro: options_ok_filter total_filter)
qed

lemma shrinks_delete: "options_ok d \<Longrightarrow> shrinks (AList.delete k d) d"
  using shrinks_filter [of d "\<lambda>k' _. k \<noteq> k'"] by (simp add: AList.delete_eq)

lemma shrinks_fold_delete: "options_ok d \<Longrightarrow> shrinks (fold AList.delete ks d) d"
  using shrinks_filter [of d "\<lambda>k' _. k' \<notin> set ks"] by (simp add: fold_delete)

lemma shrinks_update:
  assumes "options_ok d" "k \<in> fst ` set d" "dict_ok v" "length v \<le> length (entry_or_default d k)"
  shows "shrinks (AList.update k v d) d"
  using assms total_update [of k v d] options_ok_update [of d v k] by (auto simp: shrinks_def entry_update insert_absorb)

lemma store_ok_shrinks:
  assumes "compat_store_ok store" "shrinks (cs_pane_user_options store') (cs_pane_user_options store)"
    "shrinks (cs_session_user_options store') (cs_session_user_options store)"
    "cs_wait_generations store' = cs_wait_generations store"
    "cs_wait_generation_touched_secs store' = cs_wait_generation_touched_secs store"
    "dict_ok (cs_panes store')" "dict_ok (cs_managed_attaches store')"
  shows "compat_store_ok store'"
proof -
  have "option_count store' identity \<le> option_count store identity" for identity
    using assms(2,3) by (auto simp: option_count_def shrinks_def intro: add_mono)
  then have "option_count store' identity \<le> USER_OPTIONS_PER_IDENTITY_MAX" for identity
    by (rule le_trans) (use assms(1) in \<open>simp add: compat_store_ok_def\<close>)
  moreover have "user_option_entry_count store' \<le> user_option_entry_count store"
    using assms(2,3) by (auto simp: user_option_entry_count_total shrinks_def intro: add_mono)
  moreover have "user_option_identity_count store' \<le> user_option_identity_count store"
    unfolding user_option_identity_count_card using assms(2,3) by (intro card_mono) (auto simp: shrinks_def)
  ultimately show ?thesis
    using assms unfolding compat_store_ok_def channels_ok_def shrinks_def by (auto intro: le_trans)
qed

lemma prune_user_options_ok: "compat_store_ok store \<Longrightarrow> compat_store_ok (prune_user_options live store)"
  by (rule store_ok_shrinks) (auto simp: prune_user_options_def Let_def compat_store_ok_def intro!: shrinks_filter)

lemma set_options_ok:
  assumes "compat_store_ok store" "shrinks options (options_of pane store)"
  shows "compat_store_ok (set_options_of pane options store)"
  using assms by (intro store_ok_shrinks [OF assms(1)])
    (auto simp: set_options_of_def options_of_def compat_store_ok_def shrinks_refl split: if_splits)

lemma options_of_ok: "compat_store_ok store \<Longrightarrow> options_ok (options_of pane store)"
  by (simp add: options_of_def compat_store_ok_def)

lemma length_delete_le: "length (AList.delete k d) \<le> length d"
  by (simp add: AList.delete_eq)

lemma unset_user_option_ok:
  assumes "compat_store_ok store" shows "compat_store_ok (unset_user_option pane identity name store)"
proof (cases "map_of (options_of pane store) identity")
  case (Some o')
  have e: "entry_or_default (options_of pane store) identity = o'" using Some by (simp add: entry_or_default_def)
  have "identity \<in> fst ` set (options_of pane store)" using Some by (force dest: map_of_SomeD)
  then have "shrinks (AList.update identity (AList.delete name o') (options_of pane store)) (options_of pane store)"
    using entry_ok [OF options_of_ok [OF assms], of pane identity] e length_delete_le [of name o']
    by (intro shrinks_update options_of_ok assms) auto
  then show ?thesis
    using Some assms by (auto simp: unset_user_option_def Let_def intro!: set_options_ok shrinks_delete options_of_ok)
qed (use assms in \<open>simp add: unset_user_option_def\<close>)

lemma option_count_split:
  "option_count store identity = length (entry_or_default (options_of pane store) identity)
     + length (entry_or_default (options_of (\<not> pane) store) identity)"
  by (simp add: option_count_def options_of_def)

lemma set_new_option_ok:
  assumes "compat_store_ok store" "user_option_limits identity store = Inr ()"
    and new: "\<not> contains_key (entry_or_default (options_of pane store) identity) name"
  shows "compat_store_ok (set_options_of pane
    (AList.update identity (AList.update name value (entry_or_default (options_of pane store) identity))
       (options_of pane store)) store)" (is "compat_store_ok ?new")
proof -
  let ?o = "options_of pane store" and ?v = "AList.update name value (entry_or_default (options_of pane store) identity)"
  have len: "length ?v \<le> Suc (length (entry_or_default ?o identity))" by (rule length_update_le)
  have ok: "options_ok (AList.update identity ?v ?o)"
    using entry_ok [OF options_of_ok [OF assms(1)]] by (intro options_ok_update options_of_ok assms(1)) simp
  have lim: "option_count store identity < USER_OPTIONS_PER_IDENTITY_MAX"
    "user_option_entry_count store < USER_OPTION_ENTRIES_MAX"
    "contains_key (cs_pane_user_options store) identity \<or> contains_key (cs_session_user_options store) identity
     \<or> user_option_identity_count store < USER_OPTION_IDENTITIES_MAX"
    using assms(2) by (auto simp: user_option_limits_def Let_def option_count_def split: if_splits)
  have same: "options_of pane ?new = AList.update identity ?v ?o" "options_of (\<not> pane) ?new = options_of (\<not> pane) store"
    by (auto simp: options_of_def set_options_of_def)
  have "option_count ?new i \<le> USER_OPTIONS_PER_IDENTITY_MAX" for i
  proof (cases "i = identity")
    case True
    then show ?thesis
      using lim(1) len option_count_split [of ?new i pane] option_count_split [of store i pane] same by (simp add: entry_update)
  next
    case False
    then have "option_count ?new i = option_count store i"
      using option_count_split [of ?new i pane] option_count_split [of store i pane] same by (simp add: entry_update)
    then show ?thesis using assms(1) by (simp add: compat_store_ok_def)
  qed
  moreover have "user_option_entry_count ?new \<le> USER_OPTION_ENTRIES_MAX"
    using total_update [of identity ?v ?o] len lim(2)
    by (cases pane) (simp_all add: user_option_entry_count_total options_of_def set_options_of_def)
  moreover have "user_option_identity_count ?new \<le> USER_OPTION_IDENTITIES_MAX"
    using lim(3) assms(1) card_insert_le_m1
    by (cases pane) (auto simp: user_option_identity_count_card options_of_def set_options_of_def contains_key_iff compat_store_ok_def
        insert_absorb card_insert_if)
  ultimately show ?thesis
    using assms(1) ok by (cases pane) (simp_all add: compat_store_ok_def channels_ok_def set_options_of_def options_of_def)
qed

lemma set_user_option_ok:
  assumes "compat_store_ok store" "set_user_option pane identity name value store = Inr store'"
  shows "compat_store_ok store'"
proof -
  let ?o = "options_of pane store"
  have s': "store' = set_options_of pane (AList.update identity (AList.update name value (entry_or_default ?o identity)) ?o) store"
    using assms(2) by (auto simp: set_user_option_def Let_def)
  show ?thesis
  proof (cases "contains_key (entry_or_default ?o identity) name")
    case True
    then have "identity \<in> fst ` set ?o"
      by (auto simp: entry_or_default_def contains_key_def split: option.splits intro: rev_image_eqI dest!: map_of_SomeD)
    moreover have "name \<in> fst ` set (entry_or_default ?o identity)" using True contains_key_iff by blast
    ultimately show ?thesis unfolding s'
      using entry_ok [OF options_of_ok [OF assms(1)]]
      by (intro set_options_ok assms(1) shrinks_update options_of_ok) (simp_all add: length_update_old)
  next
    case False
    then have "user_option_limits identity store = Inr ()"
      using assms(2) by (auto simp: set_user_option_def Let_def entry_or_default_def split: if_splits option.splits)
    then show ?thesis unfolding s' using set_new_option_ok [OF assms(1) _ False] by blast
  qed
qed

lemma change_user_option_ok:
  "compat_store_ok store \<Longrightarrow> change_user_option args identity store = Inr store' \<Longrightarrow> compat_store_ok store'"
  using set_user_option_ok unset_user_option_ok by (auto simp: change_user_option_def split: if_splits)

subsection \<open>Leases and panes\<close>

lemma store_ok_leases: "compat_store_ok store \<Longrightarrow> dict_ok leases \<Longrightarrow> compat_store_ok (store\<lparr>cs_managed_attaches := leases\<rparr>)"
  by (rule store_ok_shrinks) (simp_all add: compat_store_ok_def shrinks_refl)

lemma prune_leases_ok: "compat_store_ok store \<Longrightarrow> compat_store_ok (prune_managed_attach_leases pv store)"
  unfolding prune_managed_attach_leases_def by (rule store_ok_leases) (simp_all add: compat_store_ok_def dict_ok_filter)

lemma leases_dict: "compat_store_ok store \<Longrightarrow> dict_ok (cs_managed_attaches store)"
  by (simp add: compat_store_ok_def)

lemma claim_lease_ok: "compat_store_ok store \<Longrightarrow> claim_lease pv pane_id token surface store = Inr (store', x) \<Longrightarrow> compat_store_ok store'"
  by (auto simp: claim_lease_def Let_def leases_dict prune_leases_ok split: option.splits if_splits intro!: store_ok_leases)

lemma release_lease_ok: "compat_store_ok store \<Longrightarrow> release_lease pv pane_id token store = Inr (store', x) \<Longrightarrow> compat_store_ok store'"
  by (auto simp: release_lease_def Let_def leases_dict prune_leases_ok split: if_splits intro!: store_ok_leases)

lemma renew_lease_ok: "compat_store_ok store \<Longrightarrow> renew_lease pv pane_id token store = Inr (store', x) \<Longrightarrow> compat_store_ok store'"
  by (auto simp: renew_lease_def Let_def leases_dict prune_leases_ok split: option.splits if_splits intro!: store_ok_leases)

lemma forget_pane_ok: "dict_ok panes \<Longrightarrow> dict_ok (forget_pane captured panes)"
  by (simp add: forget_pane_def)

lemma forget_panes_ok: "dict_ok panes \<Longrightarrow> dict_ok (fold forget_pane captured panes)"
  by (induction captured arbitrary: panes) (simp_all add: forget_pane_ok)

lemma forget_in_store_ok:
  assumes "compat_store_ok store" "forget_in_store captured ids store = Inr (store', x)"
  shows "compat_store_ok store'"
  by (rule store_ok_shrinks [OF assms(1)])
    (use assms in \<open>auto simp: forget_in_store_def compat_store_ok_def forget_panes_ok intro: shrinks_fold_delete\<close>)

subsection \<open>The file\<close>

text \<open>What the codec promises: a store that is read back is the store that was written.\<close>

definition codec_ok :: "compat_codec \<Rightarrow> bool" where
  "codec_ok cc \<longleftrightarrow> (\<forall>store bytes. compat_store_ok store \<longrightarrow> cc_to_vec cc store = Some bytes \<longrightarrow> cc_from_slice cc bytes = Some store)"

definition disk_ok :: "compat_codec \<Rightarrow> compat_disk \<Rightarrow> bool" where
  "disk_ok cc d \<longleftrightarrow> is_none_or (Option.bind (cd_store d) (cc_from_slice cc)) compat_store_ok"

lemma load_store_ok:
  assumes "disk_ok cc d" "load_store cc ca d = (d', r)"
  shows "disk_ok cc d'" "r = Inr store \<Longrightarrow> compat_store_ok store"
  using assms compat_store_ok_default
  by (auto simp: load_store_def quarantine_store_file_def disk_ok_def is_none_or_def Let_def
      split: option.splits if_splits prod.splits sum.splits)

lemma save_store_ok:
  "codec_ok cc \<Longrightarrow> compat_store_ok store \<Longrightarrow> disk_ok cc d \<Longrightarrow> save_store cc ca store d = (d', r) \<Longrightarrow> disk_ok cc d'"
  by (auto simp: save_store_def codec_ok_def disk_ok_def is_none_or_def split: option.splits if_splits)

text \<open>The contract of a change that runs under \<open>update_store\<close>: it keeps the store well formed. Every such change keeps the file
  well formed, whatever the system answers.\<close>

locale store_change =
  fixes change :: "(ustring list \<Rightarrow> ustring list) \<Rightarrow> compat_store \<Rightarrow> (compat_store \<times> 'a) compat_result"
  assumes keeps: "permutes_keys order \<Longrightarrow> compat_store_ok store \<Longrightarrow> change order store = Inr (store', x) \<Longrightarrow> compat_store_ok store'"
begin

lemma update_disk_ok:
  assumes "codec_ok cc" "permutes_keys order" "disk_ok cc d"
  shows "disk_ok cc (fst (update_store cc ca (change order) d))"
proof (cases "load_store cc ca d")
  case (Pair d1 r)
  note load = load_store_ok [OF assms(3) Pair]
  show ?thesis
  proof (cases r)
    case (Inr store)
    show ?thesis
    proof (cases "change order store")
      case (Inr y)
      obtain store' x where y: "y = (store', x)" by (cases y)
      have "compat_store_ok store'" using keeps [OF assms(2) load(2) Inr [unfolded y]] \<open>r = Inr store\<close> by blast
      then show ?thesis
        using save_store_ok [OF assms(1) _ load(1)] \<open>r = Inr store\<close> Inr y Pair assms(3)
        by (auto simp: update_store_def split: prod.splits sum.splits)
    qed (use Inr load Pair assms(3) in \<open>simp add: update_store_def\<close>)
  qed (use load Pair assms(3) in \<open>simp add: update_store_def\<close>)
qed

end

interpretation signal: store_change "\<lambda>order. signal_channel order now now' channel" for now now' channel
  by unfold_locales (rule signal_channel_ok)

interpretation look: store_change "\<lambda>order. look_at_channel order now now' channel" for now now' channel
  by unfold_locales (rule look_at_channel_ok)

interpretation claiming: store_change "\<lambda>_. claim_lease pv pane_id token surface" for pv pane_id token surface
  by unfold_locales (rule claim_lease_ok)

interpretation release: store_change "\<lambda>_. release_lease pv pane_id token" for pv pane_id token
  by unfold_locales (rule release_lease_ok)

interpretation renew: store_change "\<lambda>_. renew_lease pv pane_id token" for pv pane_id token
  by unfold_locales (rule renew_lease_ok)

interpretation forget: store_change "\<lambda>_. forget_in_store captured ids" for captured ids
  by unfold_locales (rule forget_in_store_ok)

section \<open>Runs of the shim\<close>

text \<open>Every invocation of the shim that touches the store, with any answers of the system and of the daemon. The invocations are
  serialised by the lock.\<close>

inductive compat_step :: "compat_codec \<Rightarrow> compat_disk \<Rightarrow> compat_disk \<Rightarrow> bool" for cc :: compat_codec where
  signal_step: "permutes_keys order \<Longrightarrow> compat_step cc d (fst (signal_wait_channel cc ca order now now' channel d))"
| begin_wait_step: "permutes_keys order \<Longrightarrow> compat_step cc d (fst (begin_wait cc ca order now now' t signature channel d))"
| wait_turn_step: "permutes_keys order \<Longrightarrow>
    compat_step cc d (fst (wait_channel_turn cc ca order now now' t signature signature' w d))"
| mutate_option_step: "compat_step cc d (fst (mutate_user_option cc ca vars listed args d))"
| read_option_step: "compat_step cc d (fst (read_user_option cc ca vars listed args d))"
| claim_step: "compat_step cc d (fst (claim_managed_attach cc ca pv pane_id token surface d))"
| release_step: "compat_step cc d (fst (release_managed_attach cc ca pv pane_id token d))"
| renew_step: "compat_step cc d (fst (renew_managed_attach cc ca pv pane_id token d))"
| remember_step: "compat_step cc d (fst (remember_pane cc ca listed info surface' d))"
| stored_surface_step: "compat_step cc d (fst (stored_cmux_surface_for_pane cc ca pane_id d))"
| capture_pane_step: "compat_step cc d (fst (capture_compat_pane_best_effort cc ca pane_id immutable_id d))"
| forget_step: "compat_step cc d (fst (forget_panes_and_user_options cc ca captured ids d))"

lemma permutes_id: "permutes_keys (\<lambda>xs. xs)"
  by (simp add: permutes_keys_def)

lemma read_store_ok: "disk_ok cc d \<Longrightarrow> disk_ok cc (fst (read_store cc ca f d))"
  using load_store_ok(1) [of cc d ca] by (auto simp: read_store_def split: prod.splits sum.splits)

lemma store_ok_panes: "compat_store_ok store \<Longrightarrow> dict_ok panes \<Longrightarrow> compat_store_ok (store\<lparr>cs_panes := panes\<rparr>)"
  by (rule store_ok_shrinks) (simp_all add: compat_store_ok_def shrinks_refl)

lemma panes_dict: "compat_store_ok store \<Longrightarrow> dict_ok (cs_panes store)"
  by (simp add: compat_store_ok_def)

lemma remember_pane_ok:
  assumes "codec_ok cc" "disk_ok cc d" shows "disk_ok cc (fst (remember_pane cc ca listed info surface d))"
proof -
  have "disk_ok cc (fst (remember_pane_with_live cc ca info surface live d))" for live
  proof (cases "load_store cc ca d")
    case (Pair d1 r)
    note load = load_store_ok [OF assms(2) Pair]
    show ?thesis
    proof (cases r)
      case (Inr store)
      have "compat_store_ok ((prune_user_options live store)\<lparr>cs_panes := AList.update k v (cs_panes (prune_user_options live store))\<rparr>)" for k v
        using prune_user_options_ok [OF load(2) [OF Inr]] by (intro store_ok_panes) (auto simp: panes_dict)
      from save_store_ok [OF assms(1) this load(1)] show ?thesis
        using Pair Inr by (simp add: remember_pane_with_live_def Let_def) (metis prod.collapse)
    qed (use Pair load in \<open>simp add: remember_pane_with_live_def\<close>)
  qed
  then show ?thesis using assms(2) by (simp add: remember_pane_def split: sum.splits)
qed

lemma mutate_user_option_ok:
  assumes "codec_ok cc" "disk_ok cc d" shows "disk_ok cc (fst (mutate_user_option cc ca vars listed args d))"
proof (cases "load_store cc ca d")
  case (Pair d1 r)
  note load = load_store_ok [OF assms(2) Pair]
  have "disk_ok cc (fst (save_store cc ca store' d1))"
    if "change_user_option args identity (prune_user_options live store) = Inr store'" "r = Inr store" for identity live store store'
    using save_store_ok [OF assms(1) change_user_option_ok [OF prune_user_options_ok [OF load(2) [OF that(2)]] that(1)] load(1)]
    by (metis prod.collapse)
  then show ?thesis
    using Pair load(1) assms(2) by (auto simp: mutate_user_option_def split: sum.splits prod.splits)
qed

lemma read_user_option_ok: "disk_ok cc d \<Longrightarrow> disk_ok cc (fst (read_user_option cc ca vars listed args d))"
  using load_store_ok(1) [of cc d ca] by (auto simp: read_user_option_def split: prod.splits sum.splits)

lemma compat_step_ok: "compat_step cc d d' \<Longrightarrow> codec_ok cc \<Longrightarrow> disk_ok cc d \<Longrightarrow> disk_ok cc d'"
proof (induction rule: compat_step.induct)
  case (signal_step order d ca now now' channel)
  then show ?case using signal.update_disk_ok by (auto simp: signal_wait_channel_def split: sum.splits)
next
  case (begin_wait_step order d ca now now' t signature channel)
  then show ?case using look.update_disk_ok [of cc order d ca now now' channel]
    by (auto simp: begin_wait_def split: sum.splits prod.splits)
next
  case (wait_turn_step order d ca now now' t signature signature' w)
  then have "disk_ok cc (fst (update_store cc ca (look_at_channel order now now' (wt_channel w)) d))"
    "disk_ok cc (fst (read_store cc ca (\<lambda>store. Inr (generation_of store (wt_channel w))) d))"
    using look.update_disk_ok read_store_ok by blast+
  then show ?case using wait_turn_step(3)
    by (auto simp: wait_channel_turn_def Let_def split: sum.splits prod.splits)
next
  case (claim_step d ca pv pane_id token surface)
  then show ?case using claiming.update_disk_ok [OF _ permutes_id] by (simp add: claim_managed_attach_def)
next
  case (release_step d ca pv pane_id token)
  then show ?case using release.update_disk_ok [OF _ permutes_id] by (simp add: release_managed_attach_def)
next
  case (renew_step d ca pv pane_id token)
  then show ?case using renew.update_disk_ok [OF _ permutes_id] by (simp add: renew_managed_attach_def)
next
  case (forget_step d ca captured ids)
  then show ?case using forget.update_disk_ok [OF _ permutes_id] by (simp add: forget_panes_and_user_options_def)
next
  case (capture_pane_step d ca pane_id immutable_id)
  then show ?case using read_store_ok [of cc d ca] by (simp add: capture_compat_pane_best_effort_def split_beta)
qed (auto simp: remember_pane_ok mutate_user_option_ok read_user_option_ok read_store_ok stored_cmux_surface_for_pane_def)

definition empty_disk :: compat_disk where
  "empty_disk = \<lparr>cd_store = None, cd_quarantine = []\<rparr>"

lemma compat_run_ok: "(compat_step cc)\<^sup>*\<^sup>* empty_disk d \<Longrightarrow> codec_ok cc \<Longrightarrow> disk_ok cc d"
proof (induction rule: rtranclp_induct)
  case base
  then show ?case by (simp add: empty_disk_def disk_ok_def is_none_or_def)
qed (blast intro: compat_step_ok)

text \<open>C4. However the shim is run, with whatever answers of the system, the store it loads is bounded: at most 512 identities
  with options, 64 options each, 4096 in all; each map, the options of each identity included, has each key once, and the
  wait channels are the channels with a time. Of these there are at most 4097: a signal drops channels beyond the
  limit of 4096 before it adds its own, so the limit is exceeded by at most one, until the next command on a channel
  prunes again.\<close>

theorem store_stays_bounded:
  assumes "codec_ok cc" "(compat_step cc)\<^sup>*\<^sup>* empty_disk d" "load_store cc ca d = (d', Inr store)" "permutes_keys order"
  shows "user_option_identity_count store \<le> 512 \<and> user_option_entry_count store \<le> 4096 \<and> option_count store identity \<le> 64
    \<and> length (cs_wait_generations store) \<le> 4096 + 1
    \<and> length (cs_wait_generations (prune_wait_generations order now protected store)) \<le> 4096
    \<and> fst ` set (cs_wait_generation_touched_secs store) = fst ` set (cs_wait_generations store)
    \<and> dict_ok (cs_panes store) \<and> dict_ok (cs_managed_attaches store)
    \<and> dict_ok (cs_wait_generations store) \<and> dict_ok (cs_wait_generation_touched_secs store)
    \<and> dict_ok (cs_pane_user_options store) \<and> list_all (dict_ok \<circ> snd) (cs_pane_user_options store)
    \<and> dict_ok (cs_session_user_options store) \<and> list_all (dict_ok \<circ> snd) (cs_session_user_options store)"
proof -
  have "compat_store_ok store" using load_store_ok(2) [OF compat_run_ok [OF assms(2,1)] assms(3)] by blast
  then show ?thesis using prune_bound [OF assms(4), of store now protected]
    by (simp add: compat_store_ok_def channels_ok_def options_ok_def USER_OPTION_IDENTITIES_MAX_def USER_OPTION_ENTRIES_MAX_def
        USER_OPTIONS_PER_IDENTITY_MAX_def WAIT_GENERATION_MAX_CHANNELS_def)
qed

end
