(* ===== verification/Tmux_Laws.thy ===== *)
theory Tmux_Laws
  imports Tmux_Invariant
begin

text \<open>
  What the operations of the tmux compatibility layer promise across invocations: options read back, a pane is attached by
  one surface at a time, and a signal wakes the process that waits, except where the channel has expired.
\<close>

section \<open>What a user option holds\<close>

definition lookup_option :: "bool \<Rightarrow> ustring \<Rightarrow> ustring \<Rightarrow> compat_store \<Rightarrow> ustring option" where
  "lookup_option pane identity name store = Option.bind (map_of (options_of pane store) identity) (\<lambda>o'. map_of o' name)"

lemma lookup_entry: "lookup_option pane identity name store = map_of (entry_or_default (options_of pane store) identity) name"
  by (simp add: lookup_option_def entry_or_default_def split: option.splits)

lemma lookup_prune:
  assumes "compat_store_ok store" "identity \<in> set live"
  shows "lookup_option pane identity name (prune_user_options live store) = lookup_option pane identity name store"
proof -
  have "options_of pane (prune_user_options live store)
      = filter (\<lambda>(i, o'). i \<in> set live \<and> o' \<noteq> []) (options_of pane store)"
    by (simp add: options_of_def prune_user_options_def Let_def)
  moreover have "dict_ok (options_of pane store)" using options_of_ok [OF assms(1)] by (simp add: options_ok_def)
  ultimately show ?thesis
    using assms(2) by (auto simp: lookup_option_def map_of_filter_dict split: Option.bind_splits)
qed

lemma options_of_set: "options_of pane' (set_options_of pane options store) = (if pane' = pane then options else options_of pane' store)"
  by (auto simp: options_of_def set_options_of_def)

lemma lookup_set:
  assumes "set_user_option pane identity name value store = Inr store'"
  shows "lookup_option pane' identity' name' store'
    = (if pane' = pane \<and> identity' = identity \<and> name' = name then Some value else lookup_option pane' identity' name' store)"
  using assms by (auto simp: set_user_option_def Let_def lookup_entry options_of_set entry_update AList.update_conv')

lemma entry_delete: "entry_or_default (AList.delete k d) k' = (if k' = k then [] else entry_or_default d k')"
  by (simp add: entry_or_default_def AList.delete_conv')

lemma entry_unset:
  "entry_or_default (options_of pane' (unset_user_option pane identity name store)) identity'
    = (if pane' = pane \<and> identity' = identity then AList.delete name (entry_or_default (options_of pane store) identity)
       else entry_or_default (options_of pane' store) identity')"
proof (cases "map_of (options_of pane store) identity")
  case None
  then show ?thesis by (auto simp: unset_user_option_def entry_or_default_def)
next
  case (Some o')
  then have "entry_or_default (options_of pane store) identity = o'" by (simp add: entry_or_default_def)
  then show ?thesis using Some by (simp add: unset_user_option_def Let_def options_of_set entry_update entry_delete)
qed

lemma lookup_unset:
  "lookup_option pane' identity' name' (unset_user_option pane identity name store)
    = (if pane' = pane \<and> identity' = identity \<and> name' = name then None else lookup_option pane' identity' name' store)"
  by (simp add: lookup_entry entry_unset AList.delete_conv')

lemma lookup_change:
  assumes "change_user_option args identity store = Inr store'"
  shows "lookup_option pane' identity' name' store'
    = (if pane' = ua_pane args \<and> identity' = identity \<and> name' = ua_name args then (if ua_unset args then None else ua_value args)
       else lookup_option pane' identity' name' store)"
  using assms lookup_set [of "ua_pane args" identity "ua_name args"]
  by (cases "ua_unset args"; cases "ua_value args") (auto simp: change_user_option_def lookup_unset)

lemma root_identity_live:
  "root_session_identity sessions seen info = Inr i \<Longrightarrow> info \<in> set sessions \<Longrightarrow> i \<in> si_id ` set sessions"
proof (induction sessions seen info rule: root_session_identity.induct)
  case (1 sessions seen info)
  show ?case
  proof (cases "si_parent_session_id info")
    case None
    then show ?thesis using 1(2,3) by (auto simp: root_session_identity.simps [of sessions seen info] simp del: root_session_identity.simps)
  next
    case (Some p)
    then obtain parent where "by_id sessions p = Some parent" "si_id info \<notin> set seen"
      "root_session_identity sessions (si_id info # seen) parent = Inr i"
      using 1(2) by (auto simp: root_session_identity.simps [of sessions seen info] simp del: root_session_identity.simps
          split: if_splits option.splits)
    then show ?thesis using 1(1) Some by_id_Some by blast
  qed
qed

lemma identity_live:
  assumes "user_option_identity_from_snapshot vars args sessions = Inr i"
  shows "i \<in> set (map si_id sessions)"
  using assms root_identity_live
  by (force simp: user_option_identity_from_snapshot_def root_session_identity_from_snapshot_def find_Some_iff in_set_conv_nth
      split: if_splits simp del: root_session_identity.simps)

lemma load_store_det:
  "load_store cc ca d = (d1, Inr s) \<Longrightarrow> load_store cc ca' d = (d2, Inr s') \<Longrightarrow> s' = s"
  by (auto simp: load_store_def quarantine_store_file_def split: option.splits if_splits)

lemma load_saved:
  assumes "codec_ok cc" "compat_store_ok store" "save_store cc ca store d = (d', Inr ())" "ca_open ca'" "ca_read ca'"
  shows "load_store cc ca' d' = (d', Inr store)"
  using assms by (auto simp: save_store_def load_store_def codec_ok_def split: option.splits if_splits)

lemma read_user_option_lookup:
  assumes "ca_lock ca" "user_option_identity_from_snapshot vars args sessions = Inr identity" "load_store cc ca d = (d', Inr store)"
  shows "read_user_option cc ca vars (Inr sessions) args d = (d', Inr (lookup_option (ua_pane args) identity (ua_name args) store))"
  using assms by (simp add: read_user_option_def lookup_option_def split: option.splits)

lemma mutate_user_optionE:
  assumes "mutate_user_option cc ca vars (Inr sessions) args d = (d', Inr ())"
  obtains identity d1 store store' where
    "user_option_identity_from_snapshot vars args sessions = Inr identity" "load_store cc ca d = (d1, Inr store)"
    "change_user_option args identity (prune_user_options (map si_id sessions) store) = Inr store'"
    "save_store cc ca store' d1 = (d', Inr ())"
  using assms by (auto simp: mutate_user_option_def split: if_splits sum.splits prod.splits)

text \<open>C21. After \<open>set-option\<close> has succeeded, \<open>show-option\<close> of any option of any live target reads the value that was set, nothing when
  it was unset, and what it read before when it is another option, whatever the targets are written as.\<close>

theorem user_option_read_back:
  assumes "codec_ok cc" "(compat_step cc)\<^sup>*\<^sup>* empty_disk d"
    "mutate_user_option cc ca vars (Inr sessions) args d = (d', Inr ())"
    "read_user_option cc ca' vars' (Inr sessions) args' d = (d'', Inr before)" "ca_lock ca'" "ca_open ca'" "ca_read ca'"
  shows "read_user_option cc ca' vars' (Inr sessions) args' d' = (d', Inr
    (if user_option_identity_from_snapshot vars' args' sessions = user_option_identity_from_snapshot vars args sessions
        \<and> ua_pane args' = ua_pane args \<and> ua_name args' = ua_name args
     then (if ua_unset args then None else ua_value args) else before))"
proof -
  obtain identity d1 store store' where m: "user_option_identity_from_snapshot vars args sessions = Inr identity"
    "load_store cc ca d = (d1, Inr store)" "change_user_option args identity (prune_user_options (map si_id sessions) store) = Inr store'"
    "save_store cc ca store' d1 = (d', Inr ())"
    using assms(3) by (rule mutate_user_optionE)
  obtain identity' s where r: "user_option_identity_from_snapshot vars' args' sessions = Inr identity'"
    "load_store cc ca' d = (d'', Inr s)" "before = lookup_option (ua_pane args') identity' (ua_name args') s"
    using assms(4) by (auto simp: read_user_option_def lookup_option_def bind_eq_Some_conv split: if_splits sum.splits prod.splits option.splits)
  have ok: "compat_store_ok store" using load_store_ok(2) [OF compat_run_ok [OF assms(2,1)] m(2)] by blast
  have ok': "compat_store_ok store'" by (rule change_user_option_ok [OF prune_user_options_ok [OF ok] m(3)])
  have "s = store" by (rule load_store_det [OF m(2) r(2)])
  then have "lookup_option (ua_pane args') identity' (ua_name args') store' =
    (if identity' = identity \<and> ua_pane args' = ua_pane args \<and> ua_name args' = ua_name args
     then (if ua_unset args then None else ua_value args) else before)"
    using lookup_change [OF m(3)] lookup_prune [OF ok identity_live [OF r(1)]] r(3) by auto
  then show ?thesis
    using r(1) m(1) read_user_option_lookup [OF assms(5) r(1) load_saved [OF assms(1) ok' m(4) assms(6,7)]] by simp
qed

section \<open>One attach per pane\<close>














text \<open>On the file.\<close>

definition disk_holds :: "compat_codec \<Rightarrow> (compat_store \<Rightarrow> bool) \<Rightarrow> compat_disk \<Rightarrow> bool" where
  "disk_holds cc P d \<longleftrightarrow> (\<exists>bytes store. cd_store d = Some bytes \<and> length bytes \<le> COMPAT_STORE_MAX_BYTES
     \<and> cc_from_slice cc bytes = Some store \<and> compat_store_ok store \<and> P store)"

lemma load_holds:
  assumes "disk_holds cc P d"
  obtains store where "P store" "compat_store_ok store" "load_store cc ca d = (d, Inr store) \<or> (\<exists>e. load_store cc ca d = (d, Inl e))"
  using assms by (auto simp: disk_holds_def load_store_def)

lemma save_holds:
  "codec_ok cc \<Longrightarrow> compat_store_ok store \<Longrightarrow> P store \<Longrightarrow> disk_holds cc P d \<Longrightarrow> disk_holds cc P (fst (save_store cc ca store d))"
  by (auto simp: save_store_def disk_holds_def codec_ok_def split: option.splits)

lemma update_store_moves:
  assumes "codec_ok cc" "disk_holds cc (\<lambda>store. P store \<and> Q store) d"
    and "\<And>store store' x. P store \<Longrightarrow> Q store \<Longrightarrow> compat_store_ok store \<Longrightarrow> f store = Inr (store', x) \<Longrightarrow> P store' \<and> compat_store_ok store'"
  shows "disk_holds cc P (fst (update_store cc ca f d))"
proof -
  have P: "disk_holds cc P d" using assms(2) by (auto simp: disk_holds_def)
  obtain store where s: "P store \<and> Q store" "compat_store_ok store" "load_store cc ca d = (d, Inr store) \<or> (\<exists>e. load_store cc ca d = (d, Inl e))"
    using assms(2) by (rule load_holds)
  show ?thesis
  proof (cases "f store")
    case (Inr y)
    obtain store' x where "y = (store', x)" by (cases y)
    then show ?thesis
      using s Inr P assms(3) [OF _ _ s(2)] save_holds [OF assms(1) _ _ P, of store' ca]
      by (auto simp: update_store_def split: prod.splits sum.splits)
  qed (use s P in \<open>auto simp: update_store_def\<close>)
qed

lemma update_store_holds:
  assumes "codec_ok cc" "disk_holds cc P d"
    and "\<And>store store' x. P store \<Longrightarrow> compat_store_ok store \<Longrightarrow> f store = Inr (store', x) \<Longrightarrow> P store' \<and> compat_store_ok store'"
  shows "disk_holds cc P (fst (update_store cc ca f d))"
proof (rule update_store_moves [OF assms(1), where Q = "\<lambda>_. True"])
  show "disk_holds cc (\<lambda>store. P store \<and> True) d" using assms(2) by simp
qed (rule assms(3))



lemma update_storeE:
  assumes "update_store cc ca f d = (d', Inr x)"
  obtains d1 store store' where "load_store cc ca d = (d1, Inr store)" "f store = Inr (store', x)"
    "save_store cc ca store' d1 = (d', Inr ())"
  using assms by (auto simp: update_store_def split: if_splits sum.splits prod.splits)



section \<open>Signals wake waiters\<close>

lemma drop_overflow_protected:
  assumes "permutes_keys order"
  shows "map_of (cs_wait_generations (drop_overflow order now (Some channel) store)) channel = map_of (cs_wait_generations store) channel"
  by (auto simp: drop_overflow_def Let_def dest!: in_set_takeD)

lemma prune_keeps_protected:
  assumes "permutes_keys order"
  shows "generation_of (prune_wait_generations order now (Some channel) store) channel = generation_of store channel"
  using drop_overflow_protected [OF assms]
  by (auto simp: generation_of_def prune_wait_generations_def Let_def drop_orphaned_def drop_stale_def)

lemma generation_touch [simp]: "generation_of (touch_wait_generation now c store) channel = generation_of store channel"
  "generation_of (touch_existing_wait_generation now c store) channel = generation_of store channel"
  by (simp_all add: generation_of_def touch_existing_wait_generation_def touch_wait_generation_def)

lemma look_generation:
  assumes "permutes_keys order" "look_at_channel order now now' channel store = Inr (store', g)"
  shows "g = generation_of store channel" "generation_of store' channel = g"
  using assms prune_keeps_protected [OF assms(1)] by (auto simp: look_at_channel_def Let_def)

lemma look_touches:
  assumes "permutes_keys order" "compat_store_ok store" "look_at_channel order now now' channel store = Inr (store', g)"
  shows "map_of (cs_wait_generation_touched_secs store') channel \<in> {None, Some now'}"
    "length (cs_wait_generations store') \<le> WAIT_GENERATION_MAX_CHANNELS"
proof -
  let ?p = "prune_wait_generations order now (Some channel) store"
  have s': "store' = touch_existing_wait_generation now' channel ?p" using assms(3) by (simp add: look_at_channel_def Let_def)
  have "channels_ok ?p" by (rule prune_dicts [OF assms(2)])
  then show "map_of (cs_wait_generation_touched_secs store') channel \<in> {None, Some now'}"
    by (auto simp: s' touch_existing_wait_generation_def touch_wait_generation_def contains_key_iff channels_ok_def
        AList.update_conv' map_of_eq_None_iff)
  show "length (cs_wait_generations store') \<le> WAIT_GENERATION_MAX_CHANNELS"
    using prune_bound [OF assms(1)] assms(2)
    by (simp add: s' touch_existing_wait_generation_def touch_wait_generation_def compat_store_ok_def channels_ok_def)
qed

lemma signal_generation:
  assumes "signal_channel order now now' channel store = Inr (store', x)"
  shows "generation_of store' channel = saturating_add (generation_of (prune_wait_generations order now None store) channel) 1"
  using assms by (auto simp: signal_channel_def Let_def) (simp add: generation_of_def AList.update_conv')

lemma advanced_by_one: "g < - 1 \<Longrightarrow> wait_generation_has_advanced g (saturating_add g (1 :: u64))"
proof -
  assume "g < - 1"
  then have "saturating_add g 1 \<noteq> g" by (auto simp: saturating_add_def)
  then show ?thesis using saturating_add_ge [of g 1] by (auto simp: wait_generation_has_advanced_def)
qed

lemma wait_turn_reads:
  assumes "permutes_keys order" "load_store cc ca d = (d, Inr store) \<or> (\<exists>e. load_store cc ca d = (d, Inl e))" "now < wt_deadline w"
    "wt_next_touch w \<le> now \<or> should_read_wait_store signature (wt_last_signature w) now (wt_last_forced_read w)"
    "wait_generation_has_advanced (wt_observed w) (generation_of store (wt_channel w))"
  shows "snd (wait_channel_turn cc ca order secs secs' now signature signature' w d) \<in> insert (WaitReturned 0) (range WaitFailed)"
    "now < wt_next_touch w \<Longrightarrow> ca_lock ca \<Longrightarrow> load_store cc ca d = (d, Inr store) \<Longrightarrow>
      snd (wait_channel_turn cc ca order secs secs' now signature signature' w d) = WaitReturned 0"
proof -
  obtain store' where l: "look_at_channel order secs secs' (wt_channel w) store = Inr (store', generation_of store (wt_channel w))"
    using look_generation(1) [OF assms(1)] by (metis look_at_channel_def)
  show "snd (wait_channel_turn cc ca order secs secs' now signature signature' w d) \<in> insert (WaitReturned 0) (range WaitFailed)"
    using assms(2-5) l
    by (auto simp: wait_channel_turn_def Let_def update_store_def read_store_def split: prod.splits sum.splits)
  show "snd (wait_channel_turn cc ca order secs secs' now signature signature' w d) = WaitReturned 0"
    if "now < wt_next_touch w" "ca_lock ca" "load_store cc ca d = (d, Inr store)"
    using assms(3-5) that by (auto simp: wait_channel_turn_def Let_def read_store_def)
qed

text \<open>What a waiter needs of the store: the generation of its channel is at least the one it has seen, and the channel has been touched
  since.\<close>

definition channel_kept :: "u64 \<Rightarrow> u64 \<Rightarrow> ustring \<Rightarrow> compat_store \<Rightarrow> bool" where
  "channel_kept since generation channel store \<longleftrightarrow> generation \<le> generation_of store channel
     \<and> is_none_or (map_of (cs_wait_generation_touched_secs store) channel) (\<lambda>t. since \<le> t)"

definition few_channels :: "compat_store \<Rightarrow> bool" where
  "few_channels store \<longleftrightarrow> length (cs_wait_generations store) \<le> WAIT_GENERATION_MAX_CHANNELS"

definition few_on_disk :: "compat_codec \<Rightarrow> compat_disk \<Rightarrow> bool" where
  "few_on_disk cc d \<longleftrightarrow> is_none_or (cd_store d) (\<lambda>bytes. is_none_or (cc_from_slice cc bytes) few_channels)"

text \<open>The invocations of the shim in a span of time: those that prune the wait channels read a clock of the span and find at
  most as many channels as the limit; the others are free.\<close>

inductive timed_step :: "compat_codec \<Rightarrow> u64 \<Rightarrow> u64 \<Rightarrow> compat_disk \<Rightarrow> compat_disk \<Rightarrow> bool" for cc :: compat_codec and since til :: u64 where
  timed_signal: "permutes_keys order \<Longrightarrow> few_on_disk cc d \<Longrightarrow> {now, now'} \<subseteq> {since..til} \<Longrightarrow>
    timed_step cc since til d (fst (signal_wait_channel cc ca order now now' channel d))"
| timed_begin: "permutes_keys order \<Longrightarrow> few_on_disk cc d \<Longrightarrow> {now, now'} \<subseteq> {since..til} \<Longrightarrow>
    timed_step cc since til d (fst (begin_wait cc ca order now now' t signature channel d))"
| timed_turn: "permutes_keys order \<Longrightarrow> few_on_disk cc d \<Longrightarrow> {now, now'} \<subseteq> {since..til} \<Longrightarrow>
    timed_step cc since til d (fst (wait_channel_turn cc ca order now now' t signature signature' w d))"
| timed_mutate: "timed_step cc since til d (fst (mutate_user_option cc ca vars listed args d))"
| timed_read: "timed_step cc since til d (fst (read_user_option cc ca vars listed args d))"
| timed_claim: "timed_step cc since til d (fst (claim_managed_attach cc ca pv pane_id token surface d))"
| timed_release: "timed_step cc since til d (fst (release_managed_attach cc ca pv pane_id token d))"
| timed_renew: "timed_step cc since til d (fst (renew_managed_attach cc ca pv pane_id token d))"
| timed_remember: "timed_step cc since til d (fst (remember_pane cc ca listed info surface' d))"
| timed_surface: "timed_step cc since til d (fst (stored_cmux_surface_for_pane cc ca pane_id d))"
| timed_capture: "timed_step cc since til d (fst (capture_compat_pane_best_effort cc ca pane_id immutable_id d))"
| timed_forget: "timed_step cc since til d (fst (forget_panes_and_user_options cc ca captured ids d))"

lemma less_succ_word:
  fixes g :: u64
  assumes "g < - 1" shows "g < g + 1" "g \<le> h \<Longrightarrow> g + 1 \<le> saturating_add h 1"
proof -
  have "(- 1 :: u64) = 18446744073709551615" by simp
  then have "unat g < 2 ^ 64 - 1" using assms by (simp only: word_less_nat_alt) simp
  then have g: "unat (g + 1) = Suc (unat g)" by (simp add: unat_word_ariths)
  then show "g < g + 1" by (simp add: word_less_nat_alt)
  show "g + 1 \<le> saturating_add h 1" if "g \<le> h"
  proof (cases "unat h + 1 < 2 ^ 64")
    case True
    then have "unat (h + 1) = Suc (unat h)" by (simp add: unat_word_ariths)
    then show ?thesis using True g that by (simp add: saturating_add_def word_le_nat_alt)
  qed (simp add: saturating_add_def)
qed

lemma saturating_sub_mono: "(a :: 'a::len word) \<le> b \<Longrightarrow> saturating_sub a c \<le> saturating_sub b c"
  by (auto simp: saturating_sub_def word_le_nat_alt unat_sub)

lemma map_of_filterD: "dict_ok d \<Longrightarrow> map_of (filter P d) k = Some v \<Longrightarrow> map_of d k = Some v"
  by (metis dict_ok_def dict_ok_filter filter_is_subset map_of_SomeD map_of_is_SomeI subsetD)

lemma prune_touched:
  assumes "dict_ok (cs_wait_generation_touched_secs store)"
    "map_of (cs_wait_generation_touched_secs (prune_wait_generations order now protected store)) channel = Some t"
  shows "t = now \<or> map_of (cs_wait_generation_touched_secs store) channel = Some t"
proof -
  let ?t = "stamp_untouched now (cs_wait_generations store) (cs_wait_generation_touched_secs store)"
  have "set (cs_wait_generation_touched_secs (prune_wait_generations order now protected store)) \<subseteq> set ?t"
    unfolding prune_wait_generations_def Let_def drop_overflow_def drop_orphaned_def drop_stale_def fold_delete by auto
  then have "(channel, t) \<in> set ?t" using map_of_SomeD [OF assms(2)] by blast
  then have "map_of ?t channel = Some t" using stamp_untouched_ok [OF assms(1)] by (simp add: dict_ok_def map_of_is_SomeI)
  then show ?thesis by (auto simp: stamp_untouched_map_of split: option.splits if_splits)
qed

lemma prune_keeps:
  assumes "compat_store_ok store" "few_channels store" "channel_kept since g channel store" "since \<le> now" "now \<le> til"
    "saturating_sub til WAIT_GENERATION_RETENTION_SECS \<le> since"
  shows "channel_kept since g channel (prune_wait_generations order now protected store)"
proof -
  have d: "dict_ok (cs_wait_generation_touched_secs store)" using assms(1) by (simp add: compat_store_ok_def channels_ok_def)
  have "saturating_sub now WAIT_GENERATION_RETENTION_SECS \<le> since" using saturating_sub_mono [OF assms(5)] assms(6) order_trans by blast
  then have "recently_touched now channel store"
    using assms(3) by (auto simp: channel_kept_def recently_touched_def is_none_or_def split: option.splits)
  then have "generation_of (prune_wait_generations order now protected store) channel = generation_of store channel"
    using prune_keeps_channel [of store protected channel now order] assms(2) d by (simp add: generation_of_def few_channels_def)
  then show ?thesis
    using assms(3,4) prune_touched [OF d, of order now protected channel] by (fastforce simp: channel_kept_def is_none_or_def split: option.splits)
qed

lemma touch_keeps:
  "channel_kept since g channel store \<Longrightarrow> since \<le> now \<Longrightarrow> channel_kept since g channel (touch_wait_generation now c store)"
  "channel_kept since g channel store \<Longrightarrow> since \<le> now \<Longrightarrow> channel_kept since g channel (touch_existing_wait_generation now c store)"
  by (auto simp: channel_kept_def touch_existing_wait_generation_def touch_wait_generation_def AList.update_conv' is_none_or_def
      generation_of_def)

lemma bump_keeps:
  "channel_kept since g channel store \<Longrightarrow>
    channel_kept since g channel (store\<lparr>cs_wait_generations := AList.update c (saturating_add (generation_of store c) 1) (cs_wait_generations store)\<rparr>)"
  using saturating_add_ge [of "generation_of store channel" 1] by (auto simp: channel_kept_def generation_of_def AList.update_conv')

lemma look_keeps:
  assumes "channel_kept since g channel store" "few_channels store" "compat_store_ok store" "{now, now'} \<subseteq> {since..til}"
    "saturating_sub til WAIT_GENERATION_RETENTION_SECS \<le> since" "look_at_channel order now now' c store = Inr (store', x)"
  shows "channel_kept since g channel store'"
  using touch_keeps(2) prune_keeps [OF assms(3,2,1) _ _ assms(5)] assms(4,6) by (auto simp: look_at_channel_def Let_def)

lemma signal_keeps:
  assumes "channel_kept since g channel store" "few_channels store" "compat_store_ok store" "{now, now'} \<subseteq> {since..til}"
    "saturating_sub til WAIT_GENERATION_RETENTION_SECS \<le> since" "signal_channel order now now' c store = Inr (store', x)"
  shows "channel_kept since g channel store'"
  using touch_keeps(1) [OF bump_keeps [OF prune_keeps [OF assms(3,2,1) _ _ assms(5)]]] assms(4,6) by (auto simp: signal_channel_def Let_def)

text \<open>The other invocations leave the channels as they are.\<close>

lemma channel_kept_cong:
  "cs_wait_generations store' = cs_wait_generations store \<Longrightarrow> cs_wait_generation_touched_secs store' = cs_wait_generation_touched_secs store \<Longrightarrow>
    channel_kept since g channel store' = channel_kept since g channel store"
  by (simp add: channel_kept_def generation_of_def)

lemma options_keep_channels:
  "channel_kept since g channel (prune_user_options live store) = channel_kept since g channel store"
  "change_user_option args identity store = Inr store' \<Longrightarrow> channel_kept since g channel store' = channel_kept since g channel store"
  by (rule channel_kept_cong; auto simp: prune_user_options_def change_user_option_def unset_user_option_def set_user_option_def Let_def
      set_options_of_def ok_or_def split: if_splits option.splits sum.splits)+

lemma leases_keep_channels:
  "claim_lease pv pane_id token surface store = Inr (store', x) \<Longrightarrow> channel_kept since g channel store' = channel_kept since g channel store"
  "release_lease pv pane_id token store = Inr (store', y) \<Longrightarrow> channel_kept since g channel store' = channel_kept since g channel store"
  "renew_lease pv pane_id token store = Inr (store', z) \<Longrightarrow> channel_kept since g channel store' = channel_kept since g channel store"
  "forget_in_store captured ids store = Inr (store', u) \<Longrightarrow> channel_kept since g channel store' = channel_kept since g channel store"
  by (rule channel_kept_cong; auto simp: claim_lease_def release_lease_def renew_lease_def forget_in_store_def Let_def
      prune_managed_attach_leases_def split: option.splits if_splits)+

lemma read_store_holds: "disk_holds cc P d \<Longrightarrow> fst (read_store cc ca f d) = d"
  by (auto simp: disk_holds_def read_store_def load_store_def)

lemma few_holds: "few_on_disk cc d \<Longrightarrow> disk_holds cc P d \<Longrightarrow> disk_holds cc (\<lambda>store. P store \<and> few_channels store) d"
  by (auto simp: few_on_disk_def disk_holds_def is_none_or_def)

lemma wait_updates_hold:
  assumes "codec_ok cc" "permutes_keys order" "few_on_disk cc d" "{now, now'} \<subseteq> {since..til}"
    "saturating_sub til WAIT_GENERATION_RETENTION_SECS \<le> since" "disk_holds cc (channel_kept since g channel) d"
  shows "disk_holds cc (channel_kept since g channel) (fst (update_store cc ca (signal_channel order now now' c) d))"
    "disk_holds cc (channel_kept since g channel) (fst (update_store cc ca (look_at_channel order now now' c) d))"
proof -
  show "disk_holds cc (channel_kept since g channel) (fst (update_store cc ca (signal_channel order now now' c) d))"
    using signal_keeps [OF _ _ _ assms(4,5)] signal_channel_ok [OF assms(2)]
    by (intro update_store_moves [OF assms(1) few_holds [OF assms(3,6)]] conjI)
  show "disk_holds cc (channel_kept since g channel) (fst (update_store cc ca (look_at_channel order now now' c) d))"
    using look_keeps [OF _ _ _ assms(4,5)] look_at_channel_ok [OF assms(2)]
    by (intro update_store_moves [OF assms(1) few_holds [OF assms(3,6)]] conjI)
qed

lemma saved_holds:
  assumes "codec_ok cc" "disk_holds cc P d" "load_store cc ca d = (d1, Inr store)" "P store \<Longrightarrow> compat_store_ok store \<Longrightarrow> P store' \<and> compat_store_ok store'"
  shows "d1 = d" "disk_holds cc P (fst (save_store cc ca store' d))"
proof -
  obtain s where s: "P s" "compat_store_ok s" "load_store cc ca d = (d, Inr s) \<or> (\<exists>e. load_store cc ca d = (d, Inl e))"
    using assms(2) by (rule load_holds)
  then show "d1 = d" "disk_holds cc P (fst (save_store cc ca store' d))"
    using assms(3,4) save_holds [OF assms(1) _ _ assms(2)] by auto
qed

lemma mutate_keeps_channel:
  assumes "codec_ok cc" "disk_holds cc (channel_kept since g channel) d"
  shows "disk_holds cc (channel_kept since g channel) (fst (mutate_user_option cc ca vars listed args d))"
proof (cases "load_store cc ca d")
  case (Pair d1 r)
  have "d1 = d" using assms(2) Pair by (auto simp: disk_holds_def load_store_def split: if_splits)
  moreover have "disk_holds cc (channel_kept since g channel) (fst (save_store cc ca store' d))"
    if "change_user_option args identity (prune_user_options live store) = Inr store'" "load_store cc ca d = (d, Inr store)"
    for identity live store store'
    using saved_holds(2) [OF assms that(2), of store'] options_keep_channels(2) [OF that(1)] options_keep_channels(1)
      change_user_option_ok [OF prune_user_options_ok that(1)] by simp
  ultimately show ?thesis using Pair assms(2) by (auto simp: mutate_user_option_def split: sum.splits prod.splits)
qed

lemma remember_keeps_channel:
  assumes "codec_ok cc" "disk_holds cc (channel_kept since g channel) d"
  shows "disk_holds cc (channel_kept since g channel) (fst (remember_pane cc ca listed info surface d))"
proof (cases "load_store cc ca d")
  case (Pair d1 r)
  have d: "d1 = d" using assms(2) Pair by (auto simp: disk_holds_def load_store_def split: if_splits)
  have kept: "channel_kept since g channel (s\<lparr>cs_panes := panes\<rparr>) = channel_kept since g channel s" for s panes
    by (rule channel_kept_cong) simp_all
  have "disk_holds cc (channel_kept since g channel) (fst (remember_pane_with_live cc ca info surface live d))" for live
  proof (cases r)
    case (Inr store)
    have "compat_store_ok store \<Longrightarrow> compat_store_ok ((prune_user_options live store)\<lparr>cs_panes := AList.update k v (cs_panes (prune_user_options live store))\<rparr>)" for k v
      using prune_user_options_ok by (intro store_ok_panes) (auto simp: panes_dict)
    then show ?thesis
      using saved_holds(2) [OF assms] Pair d Inr by (simp add: remember_pane_with_live_def Let_def kept options_keep_channels)
  qed (use Pair d assms(2) in \<open>simp add: remember_pane_with_live_def\<close>)
  then show ?thesis using assms(2) by (simp add: remember_pane_def split: sum.splits)
qed

lemma timed_step_keeps:
  assumes "timed_step cc since til d d'" "codec_ok cc" "saturating_sub til WAIT_GENERATION_RETENTION_SECS \<le> since"
    "disk_holds cc (channel_kept since g channel) d"
  shows "disk_holds cc (channel_kept since g channel) d'"
  using assms(1,4)
proof (induction rule: timed_step.induct)
  case (timed_signal order d now now' ca c)
  then show ?case using wait_updates_hold(1) [OF assms(2) timed_signal(1-3) assms(3) timed_signal(4)]
    by (simp add: signal_wait_channel_def split: sum.splits)
next
  case (timed_begin order d now now' ca t signature c)
  then show ?case using wait_updates_hold(2) [OF assms(2) timed_begin(1-3) assms(3) timed_begin(4)]
    by (auto simp: begin_wait_def split: sum.splits prod.splits) (metis fst_conv)+
next
  case (timed_turn order d now now' ca t signature signature' w)
  then show ?case using wait_updates_hold(2) [OF assms(2) timed_turn(1-3) assms(3) timed_turn(4), of ca "wt_channel w"]
      read_store_holds [OF timed_turn(4), of ca "\<lambda>store. Inr (generation_of store (wt_channel w))"]
    by (auto simp: wait_channel_turn_def Let_def split: sum.splits prod.splits)
next
  case (timed_claim d ca pv p t s)
  then show ?case unfolding claim_managed_attach_def
    by (rule update_store_holds [OF assms(2)]) (blast intro: claim_lease_ok dest: leases_keep_channels(1))
next
  case (timed_release d ca pv p t)
  then show ?case unfolding release_managed_attach_def
    by (rule update_store_holds [OF assms(2)]) (blast intro: release_lease_ok dest: leases_keep_channels(2))
next
  case (timed_renew d ca pv p t)
  then show ?case unfolding renew_managed_attach_def
    by (rule update_store_holds [OF assms(2)]) (blast intro: renew_lease_ok dest: leases_keep_channels(3))
next
  case (timed_forget d ca captured ids)
  then show ?case unfolding forget_panes_and_user_options_def
    by (rule update_store_holds [OF assms(2)]) (blast intro: forget_in_store_ok dest: leases_keep_channels(4))
next
  case (timed_mutate d ca vars listed args)
  then show ?case by (rule mutate_keeps_channel [OF assms(2)])
next
  case (timed_remember d ca listed info surface)
  then show ?case by (rule remember_keeps_channel [OF assms(2)])
next
  case (timed_read d ca vars listed args)
  then have "fst (load_store cc ca d) = d" by (auto simp: disk_holds_def load_store_def)
  then show ?case using timed_read by (auto simp: read_user_option_def split: prod.splits sum.splits)
qed (simp_all add: stored_cmux_surface_for_pane_def capture_compat_pane_best_effort_def split_beta read_store_holds)

lemma timed_run_keeps:
  assumes "(timed_step cc since til)\<^sup>*\<^sup>* d d'" "codec_ok cc" "saturating_sub til WAIT_GENERATION_RETENTION_SECS \<le> since"
    "disk_holds cc (channel_kept since g channel) d"
  shows "disk_holds cc (channel_kept since g channel) d'"
  using assms(1,4) by (induction rule: rtranclp_induct) (blast intro: timed_step_keeps [OF _ assms(2,3)])+

lemma begin_wait_sees:
  assumes "codec_ok cc" "disk_ok cc d" "permutes_keys order" "begin_wait cc ca order secs secs' t signature channel d = (d1, Inr w)"
  shows "wt_channel w = channel" "disk_holds cc (channel_kept secs' (wt_observed w) channel) d1"
proof -
  obtain d0 store store1 where b: "load_store cc ca d = (d0, Inr store)"
    "look_at_channel order secs secs' channel store = Inr (store1, wt_observed w)" "save_store cc ca store1 d0 = (d1, Inr ())"
    and ch: "wt_channel w = channel"
    using assms(4) by (auto simp: begin_wait_def split: sum.splits prod.splits elim!: update_storeE)
  have ok: "compat_store_ok store" by (rule load_store_ok(2) [OF assms(2) b(1) refl])
  have "compat_store_ok store1" by (rule look_at_channel_ok [OF assms(3) ok b(2)])
  moreover have "channel_kept secs' (wt_observed w) channel store1"
    using look_touches(1) [OF assms(3) ok b(2)] look_generation(2) [OF assms(3) b(2)] by (auto simp: channel_kept_def is_none_or_def)
  ultimately show "wt_channel w = channel" "disk_holds cc (channel_kept secs' (wt_observed w) channel) d1"
    using b(3) assms(1) ch by (auto simp: disk_holds_def save_store_def codec_ok_def not_less split: option.splits if_splits)
qed

lemma signal_raises:
  assumes "codec_ok cc" "permutes_keys order" "few_on_disk cc d" "{now, now'} \<subseteq> {since..til}"
    "saturating_sub til WAIT_GENERATION_RETENTION_SECS \<le> since" "disk_holds cc (channel_kept since g channel) d" "g < - 1"
    "signal_wait_channel cc ca order now now' channel d = (d', Inr ())"
  shows "disk_holds cc (channel_kept since (g + 1) channel) d'"
proof -
  obtain d1 store store' where s: "load_store cc ca d = (d1, Inr store)" "signal_channel order now now' channel store = Inr (store', ())"
    "save_store cc ca store' d1 = (d', Inr ())"
    using assms(8) by (auto simp: signal_wait_channel_def split: sum.splits elim!: update_storeE)
  obtain s' where h: "channel_kept since g channel s' \<and> few_channels s'" "compat_store_ok s'"
      "load_store cc ca d = (d, Inr s') \<or> (\<exists>e. load_store cc ca d = (d, Inl e))"
    using load_holds [OF few_holds [OF assms(3,6)], of ca] by blast
  then have s': "s' = store" using s(1) by auto
  have ok: "compat_store_ok store'" using signal_channel_ok [OF assms(2) _ s(2)] h(2) s' by simp
  have "g \<le> generation_of (prune_wait_generations order now None store) channel"
    using prune_keeps [of store since g channel now til order None] h s' assms(4,5) by (simp add: channel_kept_def)
  then have "g + 1 \<le> generation_of store' channel"
    using signal_generation [OF s(2)] assms(7) by (simp add: less_succ_word(2))
  moreover have "channel_kept since g channel store'" using signal_keeps [OF _ _ _ assms(4,5) s(2)] h s' by blast
  ultimately have "channel_kept since (g + 1) channel store'" by (simp add: channel_kept_def)
  then show ?thesis
    using s(3) assms(1) ok by (auto simp: disk_holds_def save_store_def codec_ok_def not_less split: option.splits if_splits)
qed

text \<open>C15. A process that waits on a channel is woken by a signal: other invocations of the shim, on this channel and others, may come
  before the signal and after it, in any order and with any answers of the system. The first turn of the loop that reads the
  store, and every turn reads it once a second, ends the wait with status 0 or fails with the error of the store; it ends
  with 0 when the lock and the file are there. The condition is that the channel is not dropped from the store: from the
  look of the waiter to the signal's reading the clocks stay within the retention of a week, and whoever prunes finds at most
  4096 channels.\<close>

theorem signal_wakes_waiter:
  assumes "codec_ok cc" "(compat_step cc)\<^sup>*\<^sup>* empty_disk d" "permutes_keys order" "permutes_keys order'" "permutes_keys order''"
    "begin_wait cc ca order secs secs' t signature channel d = (d1, Inr w)"
    "saturating_sub til WAIT_GENERATION_RETENTION_SECS \<le> secs'"
    "(timed_step cc secs' til)\<^sup>*\<^sup>* d1 d2"
    "few_on_disk cc d2" "{secs2, secs2'} \<subseteq> {secs'..til}"
    "signal_wait_channel cc ca' order' secs2 secs2' channel d2 = (d3, Inr ())"
    "(timed_step cc secs' til)\<^sup>*\<^sup>* d3 d4"
    "wt_channel w' = wt_channel w" "wt_observed w' = wt_observed w" "wt_observed w < - 1" "now < wt_deadline w'"
    "wt_next_touch w' \<le> now \<or> should_read_wait_store signature' (wt_last_signature w') now (wt_last_forced_read w')"
  shows "snd (wait_channel_turn cc ca'' order'' secs3 secs3' now signature' signature'' w' d4)
      \<in> insert (WaitReturned 0) (range WaitFailed)
    \<and> (now < wt_next_touch w' \<and> ca_lock ca'' \<and> ca_open ca'' \<and> ca_read ca'' \<longrightarrow>
       snd (wait_channel_turn cc ca'' order'' secs3 secs3' now signature' signature'' w' d4) = WaitReturned 0)"
proof -
  note b = begin_wait_sees [OF assms(1) compat_run_ok [OF assms(2,1)] assms(3,6)]
  have "disk_holds cc (channel_kept secs' (wt_observed w) channel) d2" by (rule timed_run_keeps [OF assms(8,1,7) b(2)])
  then have "disk_holds cc (channel_kept secs' (wt_observed w + 1) channel) d3"
    by (rule signal_raises [OF assms(1,4,9,10,7) _ assms(15,11)])
  then have h: "disk_holds cc (channel_kept secs' (wt_observed w + 1) channel) d4" by (rule timed_run_keeps [OF assms(12,1,7)])
  then obtain store where s: "channel_kept secs' (wt_observed w + 1) channel store"
    "load_store cc ca'' d4 = (d4, Inr store) \<or> (\<exists>e. load_store cc ca'' d4 = (d4, Inl e))" by (rule load_holds)
  have "wt_observed w < wt_observed w + 1" using assms(15) by (simp add: less_succ_word)
  then have adv: "wait_generation_has_advanced (wt_observed w') (generation_of store (wt_channel w'))"
    using s(1) b(1) assms(13,14) by (auto simp: channel_kept_def wait_generation_has_advanced_def)
  have "ca_open ca'' \<Longrightarrow> ca_read ca'' \<Longrightarrow> load_store cc ca'' d4 = (d4, Inr store)"
    using h s(2) by (auto simp: disk_holds_def load_store_def)
  then show ?thesis using wait_turn_reads [OF assms(5) s(2) assms(16,17) adv] by blast
qed

text \<open>C33. A signal is lost when the channel of the waiter has expired: a waiter that has seen generation 1 of a channel that nobody
  has touched for longer than the retention is not woken by the signal that creates the channel anew, because the new
  generation is 1 again. (A test of the source asks that such a signal wakes the waiter, for the generation 7.)\<close>

theorem evicted_channel_loses_signal:
  assumes "dict_ok (cs_wait_generation_touched_secs store)" "map_of (cs_wait_generations store) channel = Some 1"
    "map_of (cs_wait_generation_touched_secs store) channel = Some t" "t < saturating_sub now WAIT_GENERATION_RETENTION_SECS"
  shows "\<exists>store'. signal_channel order now now' channel store = Inr (store', ()) \<and> generation_of store channel = 1
    \<and> generation_of store' channel = 1 \<and> \<not> wait_generation_has_advanced (generation_of store channel) (generation_of store' channel)"
proof -
  let ?t = "stamp_untouched now (cs_wait_generations store) (cs_wait_generation_touched_secs store)"
  have "map_of ?t channel = Some t" using assms(3) by (simp add: stamp_untouched_map_of)
  then have "channel \<in> set (map fst (filter (\<lambda>(c, t). t < saturating_sub now WAIT_GENERATION_RETENTION_SECS) ?t))"
    using assms(4) by (force dest: map_of_SomeD)
  then have "generation_of (prune_wait_generations order now None store) channel = 0"
    by (simp add: generation_of_def prune_wait_generations_def Let_def drop_orphaned_def drop_stale_def drop_overflow_def)
  moreover obtain store' where s: "signal_channel order now now' channel store = Inr (store', ())"
    by (simp add: signal_channel_def Let_def)
  ultimately have "generation_of store' channel = 1" using signal_generation [OF s] by (simp add: saturating_add_def)
  then show ?thesis using s assms(2) by (simp add: generation_of_def wait_generation_has_advanced_def)
qed

section \<open>Examples\<close>

text \<open>A codec for the stores of a table, answers that grant everything, and the stores of the examples.\<close>

definition store_table_codec :: "compat_store list \<Rightarrow> compat_codec" where
  "store_table_codec stores = \<lparr>
     cc_to_vec = (\<lambda>s. if s \<in> set stores then Some (replicate (length (takeWhile (\<lambda>x. x \<noteq> s) stores)) 0) else None),
     cc_from_slice = (\<lambda>b. if length b < length stores then Some (stores ! length b) else None)\<rparr>"

lemma store_table_codec_ok: "codec_ok (store_table_codec stores)"
proof -
  have "length (takeWhile (\<lambda>x. x \<noteq> s) stores) < length stores" if "s \<in> set stores" for s
    using that by (induction stores) auto
  moreover from this have "stores ! length (takeWhile (\<lambda>x. x \<noteq> s) stores) = s" if "s \<in> set stores" for s
    using nth_length_takeWhile [of "\<lambda>x. x \<noteq> s" stores] that by auto
  ultimately show ?thesis by (auto simp: codec_ok_def store_table_codec_def)
qed

definition granted :: compat_answers where
  "granted = \<lparr>ca_lock = True, ca_open = True, ca_read = True, ca_quarantine = True, ca_write = True, ca_rename = True\<rparr>"

definition signalled :: compat_store where
  "signalled = compat_store_default\<lparr>cs_wait_generations := [([97], 1)], cs_wait_generation_touched_secs := [([97], 5)]\<rparr>"

definition keep_order :: "ustring list \<Rightarrow> ustring list" where
  "keep_order xs = xs"

lemma keep_order_permutes: "permutes_keys keep_order"
  by (simp add: permutes_keys_def keep_order_def)

definition disk_with :: "u8 list \<Rightarrow> compat_disk" where
  "disk_with bytes = \<lparr>cd_store = Some bytes, cd_quarantine = []\<rparr>"

lemma signal_example: "signal_channel keep_order 5 5 [97] compat_store_default = Inr (signalled, ())"
  by (simp add: signal_channel_def prune_wait_generations_def stamp_untouched_def drop_stale_def drop_orphaned_def Let_def
      generation_of_def saturating_add_def touch_wait_generation_def signalled_def compat_store_default_def)

lemma signal_disk_example:
  "signal_wait_channel (store_table_codec [signalled]) granted keep_order 5 5 [97] empty_disk = (disk_with [], Inr ())"
  by (simp add: signal_wait_channel_def validate_wait_channel_def update_store_def load_store_def empty_disk_def granted_def
      signal_example save_store_def store_table_codec_def COMPAT_STORE_MAX_BYTES_def disk_with_def
      is_c0_or_c1_def as_bytes_def utf8_encode_def WAIT_GENERATION_MAX_CHANNEL_BYTES_def)

lemma bounded_run_example: "(compat_step (store_table_codec [signalled]))\<^sup>*\<^sup>* empty_disk (disk_with [])"
  using compat_step.signal_step [OF keep_order_permutes, of "store_table_codec [signalled]" empty_disk granted 5 5 "[97]"]
  by (simp add: signal_disk_example r_into_rtranclp)

lemma load_example: "load_store (store_table_codec (s # stores)) granted (disk_with []) = (disk_with [], Inr s)"
  by (simp add: load_store_def disk_with_def granted_def store_table_codec_def COMPAT_STORE_MAX_BYTES_def)

theorem store_stays_bounded_witness:
  "user_option_identity_count signalled \<le> 512 \<and> length (cs_wait_generations signalled) \<le> 4096 + 1 \<and> dict_ok (cs_wait_generations signalled)"
  using store_stays_bounded [OF store_table_codec_ok bounded_run_example load_example keep_order_permutes] by blast

theorem evicted_channel_loses_signal_witness:
  "\<exists>store'. signal_channel keep_order 1000000 1000000 [97] signalled = Inr (store', ())
    \<and> \<not> wait_generation_has_advanced (generation_of signalled [97]) (generation_of store' [97])"
proof -
  have "dict_ok (cs_wait_generation_touched_secs signalled)" "map_of (cs_wait_generations signalled) [97] = Some 1"
    "map_of (cs_wait_generation_touched_secs signalled) [97] = Some 5"
    "(5::u64) < saturating_sub 1000000 WAIT_GENERATION_RETENTION_SECS"
    by (simp_all add: signalled_def dict_ok_def saturating_sub_def WAIT_GENERATION_RETENTION_SECS_def)
  from evicted_channel_loses_signal [OF this, of keep_order 1000000] show ?thesis by blast
qed

definition example_waiter :: waiter where
  "example_waiter = \<lparr>wt_channel = [97], wt_observed = 0, wt_deadline = 86400000, wt_next_touch = 30000, wt_last_signature = None,
     wt_last_forced_read = 0, wt_sleep_for = 100\<rparr>"

lemma look_example: "look_at_channel keep_order 5 5 [97] compat_store_default = Inr (compat_store_default, 0)"
  by (simp add: look_at_channel_def prune_wait_generations_def stamp_untouched_def drop_stale_def drop_orphaned_def Let_def
      generation_of_def touch_existing_wait_generation_def contains_key_def compat_store_default_def)

text \<open>While a process waits on one channel, a signal goes to another one, and then one to its own.\<close>

definition other_signalled :: compat_store where
  "other_signalled = compat_store_default\<lparr>cs_wait_generations := [([98], 1)], cs_wait_generation_touched_secs := [([98], 6)]\<rparr>"

definition both_signalled :: compat_store where
  "both_signalled = compat_store_default\<lparr>cs_wait_generations := [([98], 1), ([97], 1)],
     cs_wait_generation_touched_secs := [([98], 6), ([97], 7)]\<rparr>"

lemmas wait_store_defs = other_signalled_def both_signalled_def compat_store_default_def

lemma signals_example: "signal_channel keep_order 6 6 [98] compat_store_default = Inr (other_signalled, ())"
    "signal_channel keep_order 7 7 [97] other_signalled = Inr (both_signalled, ())"
  by (simp_all add: signal_channel_def prune_wait_generations_def stamp_untouched_def drop_stale_def drop_orphaned_def Let_def
      generation_of_def saturating_add_def touch_wait_generation_def contains_key_def saturating_sub_def WAIT_GENERATION_RETENTION_SECS_def
      WAIT_GENERATION_MAX_CHANNELS_def wait_store_defs)

abbreviation signals_codec :: compat_codec where
  "signals_codec \<equiv> store_table_codec [compat_store_default, other_signalled, both_signalled]"

lemma wait_stores_differ: "other_signalled \<noteq> compat_store_default" "both_signalled \<noteq> compat_store_default" "both_signalled \<noteq> other_signalled"
  "compat_store_default \<noteq> other_signalled" "compat_store_default \<noteq> both_signalled" "other_signalled \<noteq> both_signalled"
  by (simp_all add: wait_store_defs)

lemmas wait_example_simps = validate_wait_channel_def update_store_def load_store_def granted_def save_store_def store_table_codec_def
  COMPAT_STORE_MAX_BYTES_def disk_with_def empty_disk_def is_c0_or_c1_def as_bytes_def utf8_encode_def
  WAIT_GENERATION_MAX_CHANNEL_BYTES_def wait_stores_differ

lemma signals_on_disk:
  "begin_wait signals_codec granted keep_order 5 5 0 None [97] empty_disk = (disk_with [], Inr example_waiter)"
  "signal_wait_channel signals_codec granted keep_order 6 6 [98] (disk_with []) = (disk_with [0], Inr ())"
  "signal_wait_channel signals_codec granted keep_order 7 7 [97] (disk_with [0]) = (disk_with [0, 0], Inr ())"
  by (simp_all add: begin_wait_def signal_wait_channel_def wait_example_simps look_example signals_example example_waiter_def
      WAIT_GENERATION_TOUCH_INTERVAL_MS_def)

lemma few_on_disk_example: "few_on_disk signals_codec (disk_with [])" "few_on_disk signals_codec (disk_with [0])"
  by (simp_all add: few_on_disk_def disk_with_def is_none_or_def store_table_codec_def few_channels_def wait_store_defs
      WAIT_GENERATION_MAX_CHANNELS_def)

theorem signal_wakes_waiter_witness:
  "snd (wait_channel_turn signals_codec granted keep_order 8 8 1000 None None example_waiter (disk_with [0, 0])) = WaitReturned 0"
proof -
  have run: "(timed_step signals_codec 5 9)\<^sup>*\<^sup>* (disk_with []) (disk_with [0])"
    using timed_step.timed_signal [OF keep_order_permutes few_on_disk_example(1), of 6 6 5 9 granted "[98]"]
    by (simp add: signals_on_disk r_into_rtranclp)
  have times: "saturating_sub 9 WAIT_GENERATION_RETENTION_SECS \<le> 5" "{7, 7} \<subseteq> {5..9 :: u64}"
    by (simp_all add: saturating_sub_def WAIT_GENERATION_RETENTION_SECS_def)
  from signal_wakes_waiter [OF store_table_codec_ok rtranclp.rtrancl_refl keep_order_permutes keep_order_permutes keep_order_permutes
      signals_on_disk(1) times(1) run few_on_disk_example(2) times(2) signals_on_disk(3) rtranclp.rtrancl_refl refl refl,
      of 1000 None granted 8 8 None]
  show ?thesis
    by (simp add: granted_def example_waiter_def should_read_wait_store_def WAIT_GENERATION_FORCE_READ_INTERVAL_MS_def word_gt_0)
qed

text \<open>A root session and a pane in it.\<close>

definition root_session :: session_info where
  "root_session = \<lparr>si_id = [1], si_name = [2], si_pane_id = [0x25, 0x30], si_command = [], si_cwd = [], si_alive = True, si_process_id = None, si_rows = 24, si_cols = 80,
     si_parent_pane_id = None, si_parent_session_id = None\<rparr>"

definition child_session :: session_info where
  "child_session = root_session\<lparr>si_id := [3], si_name := [4], si_pane_id := [0x25, 0x31], si_parent_pane_id := Some [0x25, 0x30],
     si_parent_session_id := Some [1]\<rparr>"

lemma tree_example: "session_tree_from_snapshot [4] [root_session, child_session] = Inr [root_session, child_session]"
  by code_simp

theorem session_tree_complete_witness: "\<exists>pane. resolve_snapshot_target [4] [root_session, child_session] = Some pane
    \<and> pane \<in> set [root_session, child_session]"
  using session_tree_complete [OF tree_example] by blast

definition option_args :: user_option_args where
  "option_args = \<lparr>ua_quiet = False, ua_value_only = True, ua_pane = True, ua_unset = False, ua_target = Some [4], ua_name = [0x40, 0x61],
     ua_value = Some [0x78]\<rparr>"

definition optioned :: compat_store where
  "optioned = compat_store_default\<lparr>cs_pane_user_options := [([3], [([0x40, 0x61], [0x78])])]\<rparr>"

lemma option_identity_example:
  "user_option_identity_from_snapshot (None, None) option_args [root_session, child_session] = Inr [3]"
  by code_simp

lemma change_option_example:
  "change_user_option option_args [3] (prune_user_options live compat_store_default) = Inr optioned"
  by (simp add: change_user_option_def option_args_def set_user_option_def Let_def options_of_def set_options_of_def
      prune_user_options_def compat_store_default_def optioned_def user_option_limits_def contains_key_def entry_or_default_def
      user_option_identity_count_def user_option_entry_count_def USER_OPTION_IDENTITIES_MAX_def USER_OPTION_ENTRIES_MAX_def
      USER_OPTIONS_PER_IDENTITY_MAX_def)

lemma mutate_example:
  "mutate_user_option (store_table_codec [optioned]) granted (None, None) (Inr [root_session, child_session]) option_args empty_disk
    = (disk_with [], Inr ())"
  by (simp add: mutate_user_option_def option_identity_example load_store_def empty_disk_def granted_def change_option_example
      save_store_def store_table_codec_def COMPAT_STORE_MAX_BYTES_def disk_with_def)

lemma read_before_example:
  "read_user_option (store_table_codec [optioned]) granted (None, None) (Inr [root_session, child_session]) option_args empty_disk
    = (empty_disk, Inr None)"
  by (simp add: read_user_option_def option_identity_example load_store_def empty_disk_def granted_def compat_store_default_def
      options_of_def)

theorem user_option_read_back_witness:
  "read_user_option (store_table_codec [optioned]) granted (None, None) (Inr [root_session, child_session]) option_args (disk_with [])
    = (disk_with [], Inr (Some [0x78]))"
  using user_option_read_back [OF store_table_codec_ok rtranclp.rtrancl_refl mutate_example read_before_example]
  by (simp add: granted_def option_args_def)











end
