(* ===== verification/Tmux_Args.thy ===== *)
theory Tmux_Args
  imports Tmux_Laws Wire_Base64
begin

text \<open>
  The command lines of the tmux shim (\<open>src/src/tmux_compat.rs\<close>): short flags in clusters, flags that take a value, targets, and the
  arguments of \<open>new-session\<close>, \<open>new-window\<close>, \<open>capture-pane\<close>, \<open>send-keys\<close>, \<open>resize-pane\<close> and of the user options; the
  bytes of keys; the expansion of formats. The source walks an array with an index; here a parser walks the list of the
  arguments that are left, and a position in a cluster is the text after it.
\<close>

section \<open>Clusters of short flags\<close>

definition short_cluster :: "ustring \<Rightarrow> ustring option" where
  "short_cluster arg =
     (case arg of
        [] \<Rightarrow> None
      | c # cluster \<Rightarrow> if c \<noteq> 0x2d \<or> cluster = [] \<or> str_starts_with 0x2d cluster then None else Some cluster)"

definition is_value_taking_short_flag :: "uchar \<Rightarrow> bool" where
  "is_value_taking_short_flag flag \<longleftrightarrow> flag \<in> set (lit ''Ftfcnxy'')"

definition short_flag_takes_value :: "uchar \<Rightarrow> uchar list \<Rightarrow> uchar list \<Rightarrow> bool" where
  "short_flag_takes_value flag extra overrides \<longleftrightarrow>
     (is_value_taking_short_flag flag \<and> flag \<notin> set overrides) \<or> flag \<in> set extra"

definition strip_equals :: "ustring \<Rightarrow> ustring" where
  "strip_equals rest = (case strip_prefix_str (lit ''='') rest of Some r \<Rightarrow> r | None \<Rightarrow> rest)"

text \<open>\<open>rest\<close> is the cluster after the flag and \<open>next\<close> the argument after the cluster.\<close>

definition value_for_short_flag :: "ustring \<Rightarrow> uchar \<Rightarrow> ustring option \<Rightarrow> uchar list \<Rightarrow> uchar list \<Rightarrow> ustring option" where
  "value_for_short_flag rest flag next extra overrides =
     (if \<not> short_flag_takes_value flag extra overrides then None
      else if rest = [] then next
      else Some (strip_equals rest))"

fun cluster_flag_value ::
    "ustring \<Rightarrow> uchar \<Rightarrow> ustring option \<Rightarrow> uchar list \<Rightarrow> uchar list \<Rightarrow> (ustring \<times> ustring option) option" where
  "cluster_flag_value [] needle next extra overrides = None"
| "cluster_flag_value (flag # rest) needle next extra overrides =
     (let value = value_for_short_flag rest flag next extra overrides in
      if flag = needle then Some (rest, value)
      else if is_some value \<or> (short_flag_takes_value flag extra overrides \<and> rest = []) then None
      else cluster_flag_value rest needle next extra overrides)"

definition short_cluster_flag_value ::
    "ustring \<Rightarrow> uchar \<Rightarrow> ustring option \<Rightarrow> uchar list \<Rightarrow> uchar list \<Rightarrow> (ustring \<times> ustring option) option" where
  "short_cluster_flag_value arg needle next extra overrides =
     (case short_cluster arg of
        None \<Rightarrow> None
      | Some cluster \<Rightarrow> cluster_flag_value cluster needle next extra overrides)"

fun cluster_has_flag :: "ustring \<Rightarrow> uchar \<Rightarrow> uchar list \<Rightarrow> uchar list \<Rightarrow> bool" where
  "cluster_has_flag [] needle extra overrides = False"
| "cluster_has_flag (flag # rest) needle extra overrides =
     (if flag = needle then True
      else if is_some (value_for_short_flag rest flag None extra overrides)
        \<or> (short_flag_takes_value flag extra overrides \<and> rest = []) then False
      else cluster_has_flag rest needle extra overrides)"

definition has_flag_in_arg :: "ustring \<Rightarrow> uchar \<Rightarrow> uchar list \<Rightarrow> uchar list \<Rightarrow> bool" where
  "has_flag_in_arg arg needle extra overrides =
     (case short_cluster arg of None \<Rightarrow> False | Some cluster \<Rightarrow> cluster_has_flag cluster needle extra overrides)"

fun cluster_width :: "ustring \<Rightarrow> ustring option \<Rightarrow> uchar list \<Rightarrow> uchar list \<Rightarrow> nat" where
  "cluster_width [] next extra overrides = 1"
| "cluster_width (flag # rest) next extra overrides =
     (if short_flag_takes_value flag extra overrides then (if rest = [] \<and> is_some next then 2 else 1)
      else cluster_width rest next extra overrides)"

definition flag_arg_width :: "ustring \<Rightarrow> ustring option \<Rightarrow> uchar list \<Rightarrow> uchar list \<Rightarrow> nat" where
  "flag_arg_width flag next extra overrides =
     (case short_cluster flag of None \<Rightarrow> 1 | Some cluster \<Rightarrow> cluster_width cluster next extra overrides)"

text \<open>The argument after the first one, and the arguments after a step of that width.\<close>

definition next_arg :: "ustring list \<Rightarrow> ustring option" where
  "next_arg rest = (case rest of [] \<Rightarrow> None | a # _ \<Rightarrow> Some a)"

definition skip :: "nat \<Rightarrow> ustring list \<Rightarrow> ustring list" where
  "skip width rest = drop (width - 1) rest"

lemma skip_length [simp]: "length (skip w rest) < Suc (length rest)" "length (drop n rest) < Suc (length rest)"
  by (simp_all add: skip_def less_Suc_eq_le)

section \<open>Targets, formats and filters\<close>

definition target_value :: "ustring option \<Rightarrow> ustring option compat_result" where
  "target_value value =
     (case value of Some v \<Rightarrow> if v \<noteq> [] then Inr (Some v) else Inl MissingTarget | None \<Rightarrow> Inl MissingTarget)"

definition value_for_option :: "ustring option \<Rightarrow> ustring compat_result" where
  "value_for_option value = ok_or value MissingValue"

text \<open>\<open>parse_target_with_value_flags\<close>; \<open>target\<close> is the target found so far.\<close>

function parse_target_from :: "uchar list \<Rightarrow> ustring option \<Rightarrow> ustring list \<Rightarrow> ustring option compat_result" where
  "parse_target_from extra target [] = Inr target"
| "parse_target_from extra target (arg # rest) =
     (if arg = lit ''--'' then Inr target
      else if arg = lit ''-t'' then
        bind_res (target_value (next_arg rest)) (\<lambda>t. parse_target_from extra t (skip 2 rest))
      else if starts_with_str (lit ''-t='') arg then
        bind_res (target_value (Some (drop 3 arg))) (\<lambda>t. parse_target_from extra t rest)
      else if starts_with_str (lit ''-t'') arg \<and> 2 < length arg then
        bind_res (target_value (Some (drop 2 arg))) (\<lambda>t. parse_target_from extra t rest)
      else
        (case short_cluster_flag_value arg 0x74 (next_arg rest) extra [] of
           Some (_, value) \<Rightarrow>
             bind_res (target_value (case value of Some v \<Rightarrow> Some v | None \<Rightarrow> next_arg rest)) (\<lambda>t.
             parse_target_from extra t (skip (flag_arg_width arg (next_arg rest) extra []) rest))
         | None \<Rightarrow>
             if str_starts_with 0x2d arg
             then parse_target_from extra target (skip (flag_arg_width arg (next_arg rest) extra []) rest)
             else Inr target))"
  by pat_completeness auto
termination by (relation "measure (\<lambda>(_, _, args). length args)") auto

definition parse_target_with_value_flags :: "ustring list \<Rightarrow> uchar list \<Rightarrow> ustring option compat_result" where
  "parse_target_with_value_flags args extra = parse_target_from extra None args"

definition parse_target :: "ustring list \<Rightarrow> ustring option compat_result" where
  "parse_target args = parse_target_with_value_flags args []"

function parse_format :: "ustring list \<Rightarrow> ustring option" where
  "parse_format [] = None"
| "parse_format (arg # rest) =
     (if arg = lit ''--'' then None
      else if arg = lit ''-F'' then next_arg rest
      else if starts_with_str (lit ''-F='') arg then Some (drop 3 arg)
      else if starts_with_str (lit ''-F'') arg \<and> 2 < length arg then Some (strip_equals (drop 2 arg))
      else
        (case short_cluster_flag_value arg 0x46 (next_arg rest) [] [] of
           Some (_, value) \<Rightarrow> (case value of Some v \<Rightarrow> Some v | None \<Rightarrow> next_arg rest)
         | None \<Rightarrow>
             if str_starts_with 0x2d arg then parse_format (skip (flag_arg_width arg (next_arg rest) [] []) rest)
             else parse_format rest))"
  by pat_completeness auto
termination by (relation "measure length") auto

function reject_filter :: "ustring list \<Rightarrow> unit compat_result" where
  "reject_filter [] = Inr ()"
| "reject_filter (arg # rest) =
     (if arg = lit ''--'' then Inr ()
      else if arg = lit ''-f'' \<or> short_cluster_flag_value arg 0x66 (next_arg rest) [] [] \<noteq> None then Inl UnsupportedFlag
      else if str_starts_with 0x2d arg then reject_filter (skip (flag_arg_width arg (next_arg rest) [] []) rest)
      else reject_filter rest)"
  by pat_completeness auto
termination by (relation "measure length") auto

function parse_command_filter :: "ustring list \<Rightarrow> ustring option" where
  "parse_command_filter [] = None"
| "parse_command_filter (arg # rest) =
     (if arg = lit ''--'' then next_arg rest
      else if arg = lit ''-F'' then parse_command_filter (skip 2 rest)
      else if starts_with_str (lit ''-F'') arg then parse_command_filter rest
      else if str_starts_with 0x2d arg then parse_command_filter (skip (flag_arg_width arg (next_arg rest) [] []) rest)
      else Some arg)"
  by pat_completeness auto
termination by (relation "measure length") auto

text \<open>\<open>has_flag\<close> for a needle \<open>-c\<close> of one ASCII character, which is what its callers pass.\<close>

function has_flag :: "ustring list \<Rightarrow> uchar \<Rightarrow> bool" where
  "has_flag [] c = False"
| "has_flag (arg # rest) c =
     (if arg = lit ''--'' then False
      else if arg = [0x2d, c] then True
      else if str_starts_with 0x2d arg \<and> \<not> str_starts_with 0x2d (tl arg)
        \<and> short_cluster_flag_value arg c (next_arg rest) [] [] \<noteq> None then True
      else if str_starts_with 0x2d arg then has_flag (skip (flag_arg_width arg (next_arg rest) [] []) rest) c
      else has_flag rest c)"
  by pat_completeness auto
termination by (relation "measure (\<lambda>(args, _). length args)") auto

definition buffer_option_width :: "ustring \<Rightarrow> ustring option \<Rightarrow> nat option" where
  "buffer_option_width arg next =
     (if arg = lit ''-b'' then Some (if is_some next then 2 else 1)
      else if starts_with_str (lit ''-b='') arg \<or> (starts_with_str (lit ''-b'') arg \<and> 2 < length arg) then Some 1
      else
        (case short_cluster_flag_value arg 0x62 next [] [] of
           None \<Rightarrow> None
         | Some (rest, _) \<Rightarrow> Some (if rest = [] \<and> is_some next then 2 else 1)))"

function buffer_path_arg :: "ustring list \<Rightarrow> ustring option" where
  "buffer_path_arg [] = None"
| "buffer_path_arg (arg # rest) =
     (if arg = lit ''--'' then next_arg rest
      else
        (case buffer_option_width arg (next_arg rest) of
           Some width \<Rightarrow> buffer_path_arg (skip width rest)
         | None \<Rightarrow>
             if str_starts_with 0x2d arg then buffer_path_arg (skip (flag_arg_width arg (next_arg rest) [] []) rest)
             else Some arg))"
  by pat_completeness auto
termination by (relation "measure length") auto

section \<open>Arguments of the commands\<close>

function strip_global_flags :: "ustring list \<Rightarrow> ustring list compat_result" where
  "strip_global_flags [] = Inr []"
| "strip_global_flags (arg # rest) =
     (if arg \<in> {lit ''-L'', lit ''-S'', lit ''-f''} then
        (if rest = [] then Inl MissingValue
         else if arg \<in> {lit ''-L'', lit ''-S''} then Inl UnsupportedFlag
         else strip_global_flags (drop 1 rest))
      else if arg \<in> {lit ''-q'', lit ''-u'', lit ''-2'', lit ''-CC'', lit ''-N''} then strip_global_flags rest
      else Inr (arg # rest))"
  by pat_completeness auto
termination by (relation "measure length") auto

record new_session_args =
  ns_detached :: bool
  ns_print :: bool
  ns_format :: ustring
  ns_name :: "ustring option"
  ns_cwd :: "ustring option"

text \<open>The value of a flag in a cluster: what is attached, or the next argument, which is then consumed.\<close>

definition cluster_value :: "ustring \<Rightarrow> ustring option \<Rightarrow> ustring option \<times> bool" where
  "cluster_value rest next = (if rest = [] then (next, True) else (Some (strip_equals rest), False))"

fun new_session_cluster ::
    "ustring \<Rightarrow> ustring option \<Rightarrow> new_session_args \<Rightarrow> (new_session_args \<times> bool) compat_result" where
  "new_session_cluster [] next parsed = Inr (parsed, False)"
| "new_session_cluster (c # rest) next parsed =
     (if c = 0x64 then new_session_cluster rest next (parsed\<lparr>ns_detached := True\<rparr>)
      else if c = 0x50 then new_session_cluster rest next (parsed\<lparr>ns_print := True\<rparr>)
      else if c \<in> {0x46, 0x73, 0x63} then
        (let (value, consumed_next) = cluster_value rest next in
         bind_res (value_for_option value) (\<lambda>v.
           Inr (if c = 0x46 then parsed\<lparr>ns_format := v\<rparr> else if c = 0x73 then parsed\<lparr>ns_name := Some v\<rparr>
                else parsed\<lparr>ns_cwd := Some v\<rparr>, consumed_next)))
      else if is_value_taking_short_flag c then Inr (parsed, rest = [] \<and> is_some next)
      else new_session_cluster rest next parsed)"

definition parse_new_session_short_flags ::
    "ustring \<Rightarrow> ustring option \<Rightarrow> new_session_args \<Rightarrow> (new_session_args \<times> bool) compat_result" where
  "parse_new_session_short_flags flag next parsed =
     (case short_cluster flag of
        None \<Rightarrow> Inr (parsed, False)
      | Some cluster \<Rightarrow> new_session_cluster cluster next parsed)"

function new_session_loop ::
    "new_session_args \<Rightarrow> ustring list \<Rightarrow> (new_session_args \<times> ustring list) compat_result" where
  "new_session_loop parsed [] = Inr (parsed, [])"
| "new_session_loop parsed (arg # rest) =
     (if arg = lit ''-d'' then new_session_loop (parsed\<lparr>ns_detached := True\<rparr>) rest
      else if arg = lit ''-P'' then new_session_loop (parsed\<lparr>ns_print := True\<rparr>) rest
      else if arg = lit ''-F'' then
        bind_res (value_for_option (next_arg rest)) (\<lambda>v. new_session_loop (parsed\<lparr>ns_format := v\<rparr>) (skip 2 rest))
      else if arg = lit ''-s'' then
        bind_res (value_for_option (next_arg rest)) (\<lambda>v. new_session_loop (parsed\<lparr>ns_name := Some v\<rparr>) (skip 2 rest))
      else if arg = lit ''-c'' then
        bind_res (value_for_option (next_arg rest)) (\<lambda>v. new_session_loop (parsed\<lparr>ns_cwd := Some v\<rparr>) (skip 2 rest))
      else if arg = lit ''--'' then Inr (parsed, rest)
      else if str_starts_with 0x2d arg then
        bind_res (parse_new_session_short_flags arg (next_arg rest) parsed) (\<lambda>(parsed, consumed_next).
          new_session_loop parsed (skip (if consumed_next then 2 else 1) rest))
      else Inr (parsed, arg # rest))"
  by pat_completeness auto
termination by (relation "measure (\<lambda>(_, args). length args)") auto

definition parse_new_session_args :: "ustring list \<Rightarrow> (new_session_args \<times> ustring list) compat_result" where
  "parse_new_session_args args =
     new_session_loop \<lparr>ns_detached = False, ns_print = False, ns_format = lit ''#{pane_id}'', ns_name = None, ns_cwd = None\<rparr> args"

record new_window_args =
  nw_detached :: bool
  nw_print :: bool
  nw_format :: ustring
  nw_target :: "ustring option"
  nw_name :: "ustring option"
  nw_cwd :: "ustring option"

fun new_window_cluster ::
    "ustring \<Rightarrow> ustring option \<Rightarrow> new_window_args \<Rightarrow> (new_window_args \<times> bool) compat_result" where
  "new_window_cluster [] next parsed = Inr (parsed, False)"
| "new_window_cluster (c # rest) next parsed =
     (if c = 0x64 then new_window_cluster rest next (parsed\<lparr>nw_detached := True\<rparr>)
      else if c = 0x50 then new_window_cluster rest next (parsed\<lparr>nw_print := True\<rparr>)
      else if c \<in> {0x61, 0x62, 0x6b, 0x53} then new_window_cluster rest next parsed
      else if c \<in> {0x46, 0x74, 0x6e, 0x63} then
        (let (value, consumed_next) = cluster_value rest next in
         bind_res
           (if c = 0x46 then bind_res (value_for_option value) (\<lambda>v. Inr (parsed\<lparr>nw_format := v\<rparr>))
            else if c = 0x74 then bind_res (target_value value) (\<lambda>t. Inr (parsed\<lparr>nw_target := t\<rparr>))
            else if c = 0x6e then bind_res (value_for_option value) (\<lambda>v. Inr (parsed\<lparr>nw_name := Some v\<rparr>))
            else bind_res (value_for_option value) (\<lambda>v. Inr (parsed\<lparr>nw_cwd := Some v\<rparr>)))
           (\<lambda>parsed. Inr (parsed, consumed_next)))
      else Inl UnsupportedFlag)"

definition parse_new_window_short_flags ::
    "ustring \<Rightarrow> ustring option \<Rightarrow> new_window_args \<Rightarrow> (new_window_args \<times> bool) compat_result" where
  "parse_new_window_short_flags flag next parsed =
     (case short_cluster flag of
        None \<Rightarrow> Inl UnsupportedFlag
      | Some cluster \<Rightarrow> new_window_cluster cluster next parsed)"

function new_window_loop ::
    "new_window_args \<Rightarrow> ustring list \<Rightarrow> (new_window_args \<times> ustring list) compat_result" where
  "new_window_loop parsed [] = Inr (parsed, [])"
| "new_window_loop parsed (arg # rest) =
     (if arg = lit ''-d'' then new_window_loop (parsed\<lparr>nw_detached := True\<rparr>) rest
      else if arg = lit ''-P'' then new_window_loop (parsed\<lparr>nw_print := True\<rparr>) rest
      else if arg = lit ''-F'' then
        bind_res (value_for_option (next_arg rest)) (\<lambda>v. new_window_loop (parsed\<lparr>nw_format := v\<rparr>) (skip 2 rest))
      else if arg = lit ''-t'' then
        bind_res (target_value (next_arg rest)) (\<lambda>t. new_window_loop (parsed\<lparr>nw_target := t\<rparr>) (skip 2 rest))
      else if arg = lit ''-n'' then
        bind_res (value_for_option (next_arg rest)) (\<lambda>v. new_window_loop (parsed\<lparr>nw_name := Some v\<rparr>) (skip 2 rest))
      else if arg = lit ''-c'' then
        bind_res (value_for_option (next_arg rest)) (\<lambda>v. new_window_loop (parsed\<lparr>nw_cwd := Some v\<rparr>) (skip 2 rest))
      else if arg = lit ''--'' then Inr (parsed, rest)
      else if str_starts_with 0x2d arg then
        bind_res (parse_new_window_short_flags arg (next_arg rest) parsed) (\<lambda>(parsed, consumed_next).
          new_window_loop parsed (skip (if consumed_next then 2 else 1) rest))
      else Inr (parsed, arg # rest))"
  by pat_completeness auto
termination by (relation "measure (\<lambda>(_, args). length args)") auto

text \<open>\<open>new_window\<close> up to the call of the daemon: what is created, and only for a detached window.\<close>

definition parse_new_window :: "ustring list \<Rightarrow> (new_window_args \<times> ustring list) compat_result" where
  "parse_new_window args =
     bind_res (new_window_loop \<lparr>nw_detached = False, nw_print = False, nw_format = lit ''#{session_name}:#{window_index}'',
       nw_target = None, nw_name = None, nw_cwd = None\<rparr> args) (\<lambda>(parsed, command).
     if \<not> nw_detached parsed then Inl UnsupportedFlag else Inr (parsed, command))"

subsection \<open>Capturing, sending keys, resizing\<close>

record capture_pane_args =
  ca_target :: "ustring option"
  ca_print :: bool
  ca_start :: "int option"
  ca_end :: "int option"

text \<open>\<open>i32::from_str\<close>.\<close>

definition parse_i32 :: "ustring \<Rightarrow> int option" where
  "parse_i32 s =
     (case s of
        [] \<Rightarrow> None
      | c # cs \<Rightarrow>
          if c = 0x2d then (if cs = [] then None else map_option (\<lambda>n. - int n) (parse_digits (2 ^ 31 + 1) 0 cs))
          else map_option int (parse_unsigned (2 ^ 31) s))"

definition parse_capture_line_value :: "uchar \<Rightarrow> ustring option \<Rightarrow> int option compat_result" where
  "parse_capture_line_value flag value =
     (case value of
        None \<Rightarrow> Inl MissingValue
      | Some value \<Rightarrow>
          if value = lit ''-'' then Inr None
          else if flag = 0x53 \<and> map ascii_lower value = lit ''top'' then Inr (Some 0)
          else bind_res (ok_or (parse_i32 value) InvalidValue) (\<lambda>n. Inr (Some n)))"

definition CAPTURE_VALUE_FLAGS :: "uchar list" where
  "CAPTURE_VALUE_FLAGS = lit ''SEbt''"

definition capture_cluster_target :: "ustring \<Rightarrow> ustring option \<Rightarrow> capture_pane_args \<Rightarrow> capture_pane_args compat_result" where
  "capture_cluster_target flag next parsed =
     (if starts_with_str (lit ''-t='') flag then
        bind_res (target_value (Some (drop 3 flag))) (\<lambda>t. Inr (parsed\<lparr>ca_target := t\<rparr>))
      else if starts_with_str (lit ''-t'') flag \<and> 2 < length flag then
        bind_res (target_value (Some (drop 2 flag))) (\<lambda>t. Inr (parsed\<lparr>ca_target := t\<rparr>))
      else
        (case short_cluster_flag_value flag 0x74 next CAPTURE_VALUE_FLAGS [] of
           Some (_, value) \<Rightarrow>
             bind_res (target_value (case value of Some v \<Rightarrow> Some v | None \<Rightarrow> next)) (\<lambda>t. Inr (parsed\<lparr>ca_target := t\<rparr>))
         | None \<Rightarrow> Inr parsed))"

definition capture_cluster :: "ustring \<Rightarrow> ustring option \<Rightarrow> capture_pane_args \<Rightarrow> capture_pane_args compat_result" where
  "capture_cluster flag next parsed =
     bind_res (capture_cluster_target flag next parsed) (\<lambda>parsed.
     let parsed = (if has_flag_in_arg flag 0x70 CAPTURE_VALUE_FLAGS [] then parsed\<lparr>ca_print := True\<rparr> else parsed) in
     bind_res
       (case short_cluster_flag_value flag 0x53 next CAPTURE_VALUE_FLAGS [] of
          Some (_, value) \<Rightarrow> bind_res (parse_capture_line_value 0x53 value) (\<lambda>n. Inr (parsed\<lparr>ca_start := n\<rparr>))
        | None \<Rightarrow> Inr parsed) (\<lambda>parsed.
     case short_cluster_flag_value flag 0x45 next CAPTURE_VALUE_FLAGS [] of
       Some (_, value) \<Rightarrow> bind_res (parse_capture_line_value 0x45 value) (\<lambda>n. Inr (parsed\<lparr>ca_end := n\<rparr>))
     | None \<Rightarrow> Inr parsed))"

function capture_loop_args :: "capture_pane_args \<Rightarrow> ustring list \<Rightarrow> capture_pane_args compat_result" where
  "capture_loop_args parsed [] = Inr parsed"
| "capture_loop_args parsed (arg # rest) =
     (if arg = lit ''--'' then Inr parsed
      else if arg = lit ''-p'' then capture_loop_args (parsed\<lparr>ca_print := True\<rparr>) rest
      else if arg = lit ''-t'' then
        bind_res (target_value (next_arg rest)) (\<lambda>t. capture_loop_args (parsed\<lparr>ca_target := t\<rparr>) (skip 2 rest))
      else if arg = lit ''-S'' then
        bind_res (parse_capture_line_value 0x53 (next_arg rest)) (\<lambda>n. capture_loop_args (parsed\<lparr>ca_start := n\<rparr>) (skip 2 rest))
      else if arg = lit ''-E'' then
        bind_res (parse_capture_line_value 0x45 (next_arg rest)) (\<lambda>n. capture_loop_args (parsed\<lparr>ca_end := n\<rparr>) (skip 2 rest))
      else if arg = lit ''-b'' then capture_loop_args parsed (skip 2 rest)
      else if arg = lit ''-e'' \<or> arg = lit ''-J'' then capture_loop_args parsed rest
      else if str_starts_with 0x2d arg then
        bind_res (capture_cluster arg (next_arg rest) parsed) (\<lambda>parsed.
          capture_loop_args parsed (skip (flag_arg_width arg (next_arg rest) CAPTURE_VALUE_FLAGS []) rest))
      else capture_loop_args parsed rest)"
  by pat_completeness auto
termination by (relation "measure (\<lambda>(_, args). length args)") auto

definition parse_capture_pane_args :: "ustring list \<Rightarrow> capture_pane_args compat_result" where
  "parse_capture_pane_args args =
     capture_loop_args \<lparr>ca_target = None, ca_print = False, ca_start = None, ca_end = None\<rparr> args"

definition parse_send_keys_repeat :: "ustring option \<Rightarrow> nat compat_result" where
  "parse_send_keys_repeat value =
     bind_res (ok_or value MissingValue) (\<lambda>value.
     bind_res (ok_or (parse_unsigned (2 ^ 64) value) InvalidValue) (\<lambda>repeat.
     if repeat = 0 then Inl InvalidValue else Inr repeat))"

record send_keys_args =
  sk_literal :: bool
  sk_repeat :: nat
  sk_keys :: "ustring list"

definition SEND_VALUE_FLAGS :: "uchar list" where
  "SEND_VALUE_FLAGS = lit ''N''"

function send_keys_loop :: "send_keys_args \<Rightarrow> ustring list \<Rightarrow> send_keys_args compat_result" where
  "send_keys_loop parsed [] = Inr parsed"
| "send_keys_loop parsed (arg # rest) =
     (if arg = lit ''-t'' then send_keys_loop parsed (skip 2 rest)
      else if arg = lit ''-l'' then send_keys_loop (parsed\<lparr>sk_literal := True\<rparr>) rest
      else if arg = lit ''-N'' then
        bind_res (parse_send_keys_repeat (next_arg rest)) (\<lambda>n. send_keys_loop (parsed\<lparr>sk_repeat := n\<rparr>) (skip 2 rest))
      else if arg = lit ''--'' then Inr (parsed\<lparr>sk_keys := rest\<rparr>)
      else if str_starts_with 0x2d arg then
        bind_res
          (case short_cluster_flag_value arg 0x4e (next_arg rest) SEND_VALUE_FLAGS [] of
             Some (_, value) \<Rightarrow>
               bind_res (parse_send_keys_repeat (case value of Some v \<Rightarrow> Some v | None \<Rightarrow> next_arg rest)) (\<lambda>n.
               Inr (parsed\<lparr>sk_repeat := n\<rparr>))
           | None \<Rightarrow> Inr parsed) (\<lambda>parsed.
        send_keys_loop parsed (skip (flag_arg_width arg (next_arg rest) SEND_VALUE_FLAGS []) rest))
      else Inr (parsed\<lparr>sk_keys := arg # rest\<rparr>))"
  by pat_completeness auto
termination by (relation "measure (\<lambda>(_, args). length args)") auto

text \<open>The keys with a name and what they send; the names are compared as they are written.\<close>

definition NAMED_KEYS :: "(ustring list \<times> u8 list) list" where
  "NAMED_KEYS =
     [([lit ''C-m'', lit ''Enter'', lit ''enter'', lit ''Return''], [0x0d]),
      ([lit ''C-j''], [0x0a]), ([lit ''C-c''], [0x03]), ([lit ''C-d''], [0x04]), ([lit ''C-z''], [0x1a]),
      ([lit ''Tab'', lit ''tab''], [0x09]), ([lit ''Space'', lit ''space''], [0x20]),
      ([lit ''Escape'', lit ''Esc'', lit ''escape''], [0x1b]),
      ([lit ''BSpace'', lit ''Backspace'', lit ''backspace''], [0x7f]),
      ([lit ''Up'', lit ''up''], [0x1b, 0x5b, 0x41]), ([lit ''Down'', lit ''down''], [0x1b, 0x5b, 0x42]),
      ([lit ''Right'', lit ''right''], [0x1b, 0x5b, 0x43]), ([lit ''Left'', lit ''left''], [0x1b, 0x5b, 0x44])]"

definition control_char_byte :: "uchar \<Rightarrow> u8 option" where
  "control_char_byte ch =
     (if ch \<in> {0x40, 0x20} then Some 0x00
      else if ch = 0x5b then Some 0x1b
      else if ch = 0x5c then Some 0x1c
      else if ch = 0x5d then Some 0x1d
      else if ch = 0x5e then Some 0x1e
      else if ch = 0x5f then Some 0x1f
      else if ch = 0x3f then Some 0x7f
      else if is_ascii_alphabetic ch then Some (of_nat (ascii_upper ch mod 0x20))
      else None)"

definition control_key_byte :: "ustring \<Rightarrow> u8 option" where
  "control_key_byte key =
     (case strip_prefix_str (lit ''C-'') key of
        Some [ch] \<Rightarrow> control_char_byte ch
      | _ \<Rightarrow> None)"

definition key_bytes :: "ustring \<Rightarrow> u8 list" where
  "key_bytes key =
     (case find (\<lambda>(names, _). key \<in> set names) NAMED_KEYS of
        Some (_, bytes) \<Rightarrow> bytes
      | None \<Rightarrow> (case control_key_byte key of Some byte \<Rightarrow> [byte] | None \<Rightarrow> as_bytes key))"

definition keys_to_bytes :: "ustring list \<Rightarrow> bool \<Rightarrow> u8 list" where
  "keys_to_bytes keys literal = (if literal then as_bytes (concat keys) else concat (map key_bytes keys))"

definition repeated_send_payload :: "u8 list \<Rightarrow> nat \<Rightarrow> u8 list compat_result" where
  "repeated_send_payload bytes repeat =
     (if bytes = [] then Inr []
      else if length bytes * repeat \<ge> 2 ^ 64 then Inl InvalidValue
      else if length bytes * repeat > MAX_SEND_DATA_BYTES then Inl LimitReached
      else Inr (concat (replicate repeat bytes)))"

text \<open>\<open>send_keys\<close> up to the call of the daemon: the target and the bytes.\<close>

definition send_keys :: "ustring option \<times> ustring option \<Rightarrow> ustring list \<Rightarrow> (ustring \<times> u8 list) compat_result" where
  "send_keys vars args =
     bind_res (parse_target_with_value_flags args SEND_VALUE_FLAGS) (\<lambda>target.
     bind_res (send_keys_loop \<lparr>sk_literal = False, sk_repeat = 1, sk_keys = []\<rparr> args) (\<lambda>parsed.
     bind_res (normalize_tmux_target (case target of Some t \<Rightarrow> t | None \<Rightarrow> default_target vars)) (\<lambda>target.
     bind_res (repeated_send_payload (keys_to_bytes (sk_keys parsed) (sk_literal parsed)) (sk_repeat parsed)) (\<lambda>bytes.
     Inr (target, bytes)))))"

definition parse_resize_dimension :: "ustring option \<Rightarrow> u16 compat_result" where
  "parse_resize_dimension value =
     bind_res (ok_or value MissingValue) (\<lambda>value.
     bind_res (ok_or (parse_unsigned (2 ^ 16) value) InvalidValue) (\<lambda>n.
     if n = 0 then Inl InvalidValue else Inr (of_nat n)))"

definition width_for_value_flag :: "ustring \<Rightarrow> ustring option \<Rightarrow> nat" where
  "width_for_value_flag rest next = (if rest = [] \<and> is_some next then 2 else 1)"

function resize_loop :: "u16 option \<times> u16 option \<Rightarrow> ustring list \<Rightarrow> (u16 option \<times> u16 option) compat_result" where
  "resize_loop dims [] = Inr dims"
| "resize_loop dims (arg # rest) =
     (if arg = lit ''--'' then Inr dims
      else
        (case short_cluster_flag_value arg 0x78 (next_arg rest) [] [] of
           Some (r, value) \<Rightarrow>
             bind_res (parse_resize_dimension (case value of Some v \<Rightarrow> Some v | None \<Rightarrow> next_arg rest)) (\<lambda>n.
             resize_loop (fst dims, Some n) (skip (width_for_value_flag r (next_arg rest)) rest))
         | None \<Rightarrow>
             (case short_cluster_flag_value arg 0x79 (next_arg rest) [] [] of
                Some (r, value) \<Rightarrow>
                  bind_res (parse_resize_dimension (case value of Some v \<Rightarrow> Some v | None \<Rightarrow> next_arg rest)) (\<lambda>n.
                  resize_loop (Some n, snd dims) (skip (width_for_value_flag r (next_arg rest)) rest))
              | None \<Rightarrow>
                  if str_starts_with 0x2d arg then resize_loop dims (skip (flag_arg_width arg (next_arg rest) [] []) rest)
                  else resize_loop dims rest)))"
  by pat_completeness auto
termination by (relation "measure (\<lambda>(_, args). length args)") auto

text \<open>\<open>resize_pane\<close>: the daemon is asked for the size that was not given; \<open>info\<close> is its answer, and the result is the request to resize,
  if there is one.\<close>

definition resize_pane ::
    "ustring option \<times> ustring option \<Rightarrow> (ustring \<Rightarrow> session_info compat_result) \<Rightarrow> ustring list
       \<Rightarrow> (ustring \<times> u16 \<times> u16) option compat_result" where
  "resize_pane vars info args =
     bind_res (parse_target args) (\<lambda>target.
     bind_res (normalize_tmux_target (case target of Some t \<Rightarrow> t | None \<Rightarrow> default_target vars)) (\<lambda>target.
     bind_res (resize_loop (None, None) args) (\<lambda>dims.
     case dims of
       (Some rows, Some cols) \<Rightarrow> Inr (Some (target, rows, cols))
     | (Some rows, None) \<Rightarrow> bind_res (info target) (\<lambda>i. Inr (Some (target, rows, si_cols i)))
     | (None, Some cols) \<Rightarrow> bind_res (info target) (\<lambda>i. Inr (Some (target, si_rows i, cols)))
     | (None, None) \<Rightarrow> Inr None)))"

subsection \<open>User options\<close>

datatype user_option_command = SetOption | ShowOption

definition user_option_flag_supported :: "user_option_command \<Rightarrow> uchar \<Rightarrow> bool" where
  "user_option_flag_supported command flag \<longleftrightarrow>
     flag \<in> {0x71, 0x70} \<or> (command = SetOption \<and> flag = 0x75) \<or> (command = ShowOption \<and> flag = 0x76)"

text \<open>The first flag of a cluster that takes a value, with the text after it.\<close>

fun routing_value_flag :: "user_option_command \<Rightarrow> ustring \<Rightarrow> (uchar \<times> ustring) option" where
  "routing_value_flag command [] = None"
| "routing_value_flag command (flag # rest) =
     (if flag = 0x74 \<or> (\<not> user_option_flag_supported command flag \<and> is_value_taking_short_flag flag) then Some (flag, rest)
      else routing_value_flag command rest)"

function actual_user_option_name :: "user_option_command \<Rightarrow> bool \<Rightarrow> ustring list \<Rightarrow> ustring option" where
  "actual_user_option_name command options [] = None"
| "actual_user_option_name command options (arg # rest) =
     (if options \<and> arg = lit ''--'' then actual_user_option_name command False rest
      else if options \<and> arg = lit ''-t'' then actual_user_option_name command options (skip 2 rest)
      else if options \<and> starts_with_str (lit ''-t'') arg \<and> 2 < length arg then actual_user_option_name command options rest
      else if options \<and> str_starts_with 0x2d arg \<and> arg \<noteq> lit ''-'' then
        (case short_cluster arg of
           None \<Rightarrow> actual_user_option_name command options rest
         | Some cluster \<Rightarrow>
             (case routing_value_flag command cluster of
                None \<Rightarrow> actual_user_option_name command options rest
              | Some (flag, attached) \<Rightarrow>
                  if flag = 0x74 then
                    actual_user_option_name command options (skip (if attached = [] \<and> is_some (next_arg rest) then 2 else 1) rest)
                  else if attached = [] then
                    (case rest of
                       [] \<Rightarrow> None
                     | value # _ \<Rightarrow>
                         if str_starts_with 0x40 value then Some value
                         else actual_user_option_name command options (skip 2 rest))
                  else actual_user_option_name command options rest))
      else if str_starts_with 0x40 arg then Some arg else None)"
  by pat_completeness auto
termination by (relation "measure (\<lambda>(_, _, args). length args)") (auto simp: skip_def)

fun option_flags :: "bool \<Rightarrow> ustring \<Rightarrow> user_option_args \<Rightarrow> user_option_args compat_result" where
  "option_flags is_set [] parsed = Inr parsed"
| "option_flags is_set (flag # rest) parsed =
     (if flag = 0x71 then option_flags is_set rest (parsed\<lparr>ua_quiet := True\<rparr>)
      else if flag = 0x70 then option_flags is_set rest (parsed\<lparr>ua_pane := True\<rparr>)
      else if flag = 0x75 \<and> is_set then option_flags is_set rest (parsed\<lparr>ua_unset := True\<rparr>)
      else if flag = 0x76 \<and> \<not> is_set then option_flags is_set rest (parsed\<lparr>ua_value_only := True\<rparr>)
      else Inl UnsupportedFlag)"

function user_option_loop ::
    "bool \<Rightarrow> bool \<Rightarrow> user_option_args \<Rightarrow> ustring list \<Rightarrow> ustring list \<Rightarrow> (user_option_args \<times> ustring list) compat_result" where
  "user_option_loop is_set options parsed positional [] = Inr (parsed, positional)"
| "user_option_loop is_set options parsed positional (arg # rest) =
     (if options \<and> arg = lit ''--'' then user_option_loop is_set False parsed positional rest
      else if options \<and> arg = lit ''-t'' then
        bind_res (value_for_option (next_arg rest)) (\<lambda>t.
        user_option_loop is_set options (parsed\<lparr>ua_target := Some t\<rparr>) positional (skip 2 rest))
      else if options \<and> starts_with_str (lit ''-t'') arg \<and> 2 < length arg then
        user_option_loop is_set options (parsed\<lparr>ua_target := Some (drop 2 arg)\<rparr>) positional rest
      else if options \<and> str_starts_with 0x2d arg \<and> arg \<noteq> lit ''-'' then
        (case short_cluster arg of
           None \<Rightarrow> Inl UnsupportedFlag
         | Some cluster \<Rightarrow>
             if 0x74 \<in> set cluster then Inl UnsupportedFlag
             else bind_res (option_flags is_set cluster parsed) (\<lambda>parsed. user_option_loop is_set options parsed positional rest))
      else user_option_loop is_set False parsed (positional @ [arg]) rest)"
  by pat_completeness auto
termination by (relation "measure (\<lambda>(_, _, _, _, args). length args)") auto

definition parse_user_option_args :: "ustring list \<Rightarrow> bool \<Rightarrow> user_option_args compat_result" where
  "parse_user_option_args args is_set =
     bind_res (user_option_loop is_set True \<lparr>ua_quiet = False, ua_value_only = False, ua_pane = False, ua_unset = False,
       ua_target = None, ua_name = [], ua_value = None\<rparr> [] args) (\<lambda>(parsed, positional).
     if length positional \<noteq> (if is_set \<and> \<not> ua_unset parsed then 2 else 1) then Inl WrongArity
     else Inr (parsed\<lparr>ua_name := hd positional,
       ua_value := (if tl positional = [] then None else Some (last (tl positional)))\<rparr>))"

definition set_option ::
    "compat_codec \<Rightarrow> compat_answers \<Rightarrow> ustring option \<times> ustring option \<Rightarrow> session_info list compat_result
       \<Rightarrow> ustring list \<Rightarrow> compat_disk \<Rightarrow> compat_disk \<times> unit compat_result" where
  "set_option cc ca vars listed args d =
     (if actual_user_option_name SetOption True args = None then (d, Inr ())
      else
        (case bind_res (parse_user_option_args args True) (\<lambda>parsed.
              bind_res (validate_user_option_name (ua_name parsed)) (\<lambda>_.
              bind_res (case ua_value parsed of Some value \<Rightarrow> validate_user_option_value value | None \<Rightarrow> Inr ()) (\<lambda>_.
              Inr parsed))) of
           Inl e \<Rightarrow> (d, Inl e)
         | Inr parsed \<Rightarrow> mutate_user_option cc ca vars listed parsed d))"

text \<open>What \<open>show_option\<close> prints for a user option; \<open>None\<close> when it prints nothing.\<close>

definition show_user_option ::
    "compat_codec \<Rightarrow> compat_answers \<Rightarrow> ustring option \<times> ustring option \<Rightarrow> session_info list compat_result
       \<Rightarrow> ustring list \<Rightarrow> compat_disk \<Rightarrow> compat_disk \<times> ustring option compat_result" where
  "show_user_option cc ca vars listed args d =
     (case bind_res (parse_user_option_args args False) (\<lambda>parsed.
           bind_res (validate_user_option_name (ua_name parsed)) (\<lambda>_. Inr parsed)) of
        Inl e \<Rightarrow> (d, Inl e)
      | Inr parsed \<Rightarrow>
          (case read_user_option cc ca vars listed parsed d of
             (d, Inl e) \<Rightarrow> (d, Inl e)
           | (d, Inr (Some value)) \<Rightarrow>
               (d, Inr (Some (if ua_value_only parsed then value else ua_name parsed @ [0x20] @ value)))
           | (d, Inr None) \<Rightarrow> (d, if ua_quiet parsed then Inr None else Inl TargetUnavailable)))"

function show_option_name :: "ustring option \<Rightarrow> ustring list \<Rightarrow> ustring option" where
  "show_option_name option [] = option"
| "show_option_name option (arg # rest) =
     (if arg = lit ''--'' then next_arg rest
      else if str_starts_with 0x2d arg \<and> arg \<noteq> lit ''-'' then
        show_option_name option (skip (flag_arg_width arg (next_arg rest) (lit ''t'') []) rest)
      else show_option_name (Some arg) rest)"
  by pat_completeness auto
termination by (relation "measure (\<lambda>(_, args). length args)") auto

definition tmux_option_value :: "ustring option \<Rightarrow> ustring" where
  "tmux_option_value option = (if option = Some (lit ''focus-events'') then lit ''on'' else lit ''off'')"

definition legacy_show_option :: "ustring list \<Rightarrow> ustring option" where
  "legacy_show_option args =
     (if has_flag args 0x67 \<or> has_flag args 0x76 then
        (let option = show_option_name None args;
             value = tmux_option_value option in
         Some (if has_flag args 0x76 then value
               else (case option of Some o' \<Rightarrow> o' @ [0x20] @ value | None \<Rightarrow> value)))
      else None)"

definition show_option ::
    "compat_codec \<Rightarrow> compat_answers \<Rightarrow> ustring option \<times> ustring option \<Rightarrow> session_info list compat_result
       \<Rightarrow> ustring list \<Rightarrow> compat_disk \<Rightarrow> compat_disk \<times> ustring option compat_result" where
  "show_option cc ca vars listed args d =
     (if actual_user_option_name ShowOption True args = None then (d, Inr (legacy_show_option args))
      else show_user_option cc ca vars listed args d)"

section \<open>Formats\<close>

definition basename_of :: "ustring \<Rightarrow> ustring" where
  "basename_of s = rev (takeWhile (\<lambda>c. c \<noteq> 0x2f) (rev s))"

definition current_command :: "ustring \<Rightarrow> ustring" where
  "current_command command = (case str_split_whitespace command of [] \<Rightarrow> lit ''sh'' | s # _ \<Rightarrow> basename_of s)"

definition format_replacements :: "session_info \<Rightarrow> ustring \<Rightarrow> (ustring \<times> ustring) list" where
  "format_replacements info current =
     [(lit ''#{pane_id}'', si_pane_id info),
      (lit ''#D'', si_pane_id info),
      (lit ''#{session_name}'', si_name info),
      (lit ''#S'', si_name info),
      (lit ''#I'', lit ''0''),
      (lit ''#{pane_current_command}'', current),
      (lit ''#{pane_start_command}'', si_command info),
      (lit ''#{pane_current_path}'', si_cwd info),
      (lit ''#{pane_active}'', lit ''1''),
      (lit ''#{pane_dead}'', if si_alive info then lit ''0'' else lit ''1''),
      (lit ''#{pane_pid}'', case si_process_id info of Some pid \<Rightarrow> decimal (unat pid) | None \<Rightarrow> []),
      (lit ''#{pane_in_mode}'', lit ''0''),
      (lit ''#{history_size}'', lit ''0''),
      (lit ''#{window_id}'', 0x40 # dropWhile (\<lambda>c. c = 0x25) (si_pane_id info)),
      (lit ''#{window_index}'', lit ''0''),
      (lit ''#{window_name}'', si_name info),
      (lit ''#{window_active}'', lit ''1''),
      (lit ''#{window_panes}'', lit ''1''),
      (lit ''#{client_name}'', lit ''lterm''),
      (lit ''#{client_session}'', si_name info),
      (lit ''#{client_pane}'', si_pane_id info),
      (lit ''#{client_pid}'', []),
      (lit ''#{client_tty}'', []),
      (lit ''#{extended-keys-format}'', lit ''xterm''),
      (lit ''#{window_width}'', decimal (unat (si_cols info))),
      (lit ''#{window_height}'', decimal (unat (si_rows info)))]"

definition format_replacement :: "ustring \<Rightarrow> session_info \<Rightarrow> ustring \<Rightarrow> (ustring \<times> ustring) option" where
  "format_replacement rest info current = find (\<lambda>(needle, _). starts_with_str needle rest) (format_replacements info current)"

text \<open>The name of an option in a format, and what follows its token.\<close>

definition session_user_option_format_token :: "ustring \<Rightarrow> (ustring \<times> ustring) option" where
  "session_user_option_format_token rest =
     (if \<not> starts_with_str (lit ''#{@'') rest then None
      else
        (case split_once 0x7d rest of
           None \<Rightarrow> None
         | Some (before, after) \<Rightarrow>
             if validate_user_option_name (drop 2 before) \<noteq> Inr () then None else Some (after, drop 2 before)))"

definition session_user_option_format_replacement ::
    "ustring \<Rightarrow> session_info \<Rightarrow> ustring dict dict \<Rightarrow> (ustring \<times> ustring) option" where
  "session_user_option_format_replacement rest info options =
     (case session_user_option_format_token rest of
        None \<Rightarrow> None
      | Some (after, name) \<Rightarrow>
          Some (after, case Option.bind (map_of options (si_id info)) (\<lambda>o'. map_of o' name) of Some v \<Rightarrow> v | None \<Rightarrow> []))"

lemma split_once_length: "split_once c s = Some (a, b) \<Longrightarrow> length b < length s"
  by (induction s arbitrary: a) (auto split: if_splits)

lemma token_shortens: "session_user_option_format_replacement rest info options = Some (after, v) \<Longrightarrow> length after < length rest"
  by (auto simp: session_user_option_format_replacement_def session_user_option_format_token_def
      split: option.splits if_splits dest: split_once_length)

lemma find_Some_member: "find P xs = Some x \<Longrightarrow> x \<in> set xs \<and> P x"
  by (induction xs) (auto split: if_splits)

lemma needles_nonempty:
  assumes "format_replacement rest info current = Some (needle, v)"
  shows "needle \<noteq> [] \<and> starts_with_str needle rest \<and> v \<in> snd ` set (format_replacements info current)"
proof -
  have "list_all (\<lambda>(n, _). n \<noteq> []) (format_replacements info current)"
    by (simp add: format_replacements_def lit_def)
  then show ?thesis
    using find_Some_member [OF assms [unfolded format_replacement_def]] by (force simp: list_all_iff)
qed

function expand_format_from :: "session_info \<Rightarrow> ustring dict dict option \<Rightarrow> ustring \<Rightarrow> ustring" where
  "expand_format_from info options [] = []"
| "expand_format_from info options (ch # cs) =
     (if starts_with_str (lit ''#{pane_width}'') (ch # cs)
      then decimal (unat (si_cols info)) @ expand_format_from info options (drop (length (lit ''#{pane_width}'')) (ch # cs))
      else if starts_with_str (lit ''#{pane_height}'') (ch # cs)
      then decimal (unat (si_rows info)) @ expand_format_from info options (drop (length (lit ''#{pane_height}'')) (ch # cs))
      else
        (case Option.bind options (session_user_option_format_replacement (ch # cs) info) of
           Some (after, value) \<Rightarrow> terminal_text value @ expand_format_from info options after
         | None \<Rightarrow>
             (case format_replacement (ch # cs) info (current_command (si_command info)) of
                Some (needle, value) \<Rightarrow>
                  terminal_text value @ expand_format_from info options (drop (length needle) (ch # cs))
              | None \<Rightarrow> ch # expand_format_from info options cs)))"
  by pat_completeness auto
termination
proof (relation "measure (\<lambda>(_, _, f). length f)")
  fix info options ch cs x2 needle v
  assume "format_replacement (ch # cs) info (current_command (si_command info)) = Some x2" "(needle, v) = x2"
  then show "((info, options, drop (length needle) (ch # cs)), (info, options, ch # cs)) \<in> measure (\<lambda>(_, _, f). length f)"
    using needles_nonempty by force
qed (auto simp: lit_def dest: token_shortens split: Option.bind_splits)

definition expand_format_with_session_user_options :: "ustring \<Rightarrow> session_info \<Rightarrow> ustring dict dict option \<Rightarrow> ustring" where
  "expand_format_with_session_user_options format info options = expand_format_from info options format"

definition expand_format :: "ustring \<Rightarrow> session_info \<Rightarrow> ustring" where
  "expand_format format info = expand_format_with_session_user_options format info None"

end
