(* ===== verification/Tmux_Commands.thy ===== *)
theory Tmux_Commands
  imports Tmux_Args
begin

text \<open>
  What the command lines of the tmux shim promise: expanded formats and shown options cannot drive a terminal, flags and
  their values are read consistently, keys are sent as they are typed, and user options are routed as they are parsed.
  \<open>shim_step\<close> is any run of the shim by its commands; the contract \<open>store_invariant\<close> lifts an invariant of the store to the
  file.
\<close>

section \<open>Expanded formats are clean\<close>

definition no_controls :: "ustring \<Rightarrow> bool" where
  "no_controls s \<longleftrightarrow> list_all (\<lambda>c. \<not> is_c0_or_c1 c) s"

lemma no_controls_append [simp]: "no_controls (a @ b) \<longleftrightarrow> no_controls a \<and> no_controls b"
  by (simp add: no_controls_def)

lemma terminal_text_no_controls: "no_controls (terminal_text s)"
  by (simp add: terminal_text_def strip_controls_def no_controls_def list_all_iff)

lemma decimal_no_controls: "no_controls (decimal n)"
proof (induction n rule: decimal.induct)
  case (1 n)
  show ?case
  proof (cases "n < 10")
    case True
    then show ?thesis by (simp add: no_controls_def is_c0_or_c1_def decimal.simps [of n])
  next
    case False
    have "n mod 10 < 10" by simp
    then have "no_controls [0x30 + n mod 10]" by (simp add: no_controls_def is_c0_or_c1_def)
    then show ?thesis using 1 False by (simp add: decimal.simps [of n])
  qed
qed

lemma no_controls_drop: "no_controls s \<Longrightarrow> no_controls (drop n s)"
  by (auto simp: no_controls_def list_all_iff dest: in_set_dropD)

lemma split_once_controls: "split_once c s = Some (a, b) \<Longrightarrow> no_controls s \<Longrightarrow> no_controls b"
  by (induction s arbitrary: a) (auto simp: no_controls_def split: if_splits)

lemma token_controls:
  "session_user_option_format_replacement rest info options = Some (after, v) \<Longrightarrow> no_controls rest \<Longrightarrow> no_controls after"
  by (auto simp: session_user_option_format_replacement_def session_user_option_format_token_def
      split: option.splits if_splits dest: split_once_controls)

text \<open>Whatever a pane, a session or a program in it calls itself, and whatever the options hold, the expansion of a format without
  control characters has no control character: nothing in it can drive the terminal that prints it.\<close>

theorem expand_format_clean:
  assumes "no_controls format"
  shows "no_controls (expand_format_with_session_user_options format info options)"
proof -
  have "no_controls f \<Longrightarrow> no_controls (expand_format_from info options f)" for f
  proof (induction info options f rule: expand_format_from.induct)
    case (2 info options ch cs)
    note rest = no_controls_drop [OF 2(6)] and IH = 2(1-5)
    show ?case
    proof (cases "starts_with_str (lit ''#{pane_width}'') (ch # cs) \<or> starts_with_str (lit ''#{pane_height}'') (ch # cs)")
      case True
      then show ?thesis using IH(1,2) rest decimal_no_controls by auto
    next
      case False
      show ?thesis
      proof (cases "Option.bind options (session_user_option_format_replacement (ch # cs) info)")
        case (Some x)
        obtain after v where x: "x = (after, v)" by (cases x)
        then have "no_controls after" using Some token_controls [of "ch # cs" info] 2(6) by (auto split: Option.bind_splits)
        then have "no_controls (expand_format_from info options after)" using IH(5) [OF _ _ Some] False x by blast
        then show ?thesis using Some False x terminal_text_no_controls by simp
      next
        case None
        then show ?thesis using False IH(3,4) rest 2(6) terminal_text_no_controls
          by (cases "format_replacement (ch # cs) info (current_command (si_command info))") (auto simp: no_controls_def)
      qed
    qed
  qed (simp add: no_controls_def)
  then show ?thesis using assms by (simp add: expand_format_with_session_user_options_def)
qed

section \<open>Flags and their values\<close>

text \<open>Reading the value of a flag and stepping over it agree: when a flag that takes a value is found in a cluster, its value is
  the attached text or the next argument, and the step over the cluster consumes the next argument exactly when it was
  the value.\<close>

theorem flag_value_and_width_agree:
  assumes "short_cluster_flag_value arg needle next extra overrides = Some (rest, v)"
    "short_flag_takes_value needle extra overrides"
  shows "v = (if rest = [] then next else Some (strip_equals rest))
    \<and> flag_arg_width arg next extra overrides = (if rest = [] \<and> is_some next then 2 else 1)"
proof -
  have "v = (if rest = [] then next else Some (strip_equals rest))
    \<and> cluster_width cluster next extra overrides = (if rest = [] \<and> is_some next then 2 else 1)"
    if "cluster_flag_value cluster needle next extra overrides = Some (rest, v)" for cluster
    using that assms(2)
  proof (induction cluster)
    case (Cons flag cs)
    then show ?case
      by (cases "short_flag_takes_value flag extra overrides"; cases "cs = []")
        (auto simp: value_for_short_flag_def Let_def is_some_def split: if_splits option.splits)
  qed simp
  then show ?thesis
    using assms(1) by (auto simp: short_cluster_flag_value_def flag_arg_width_def split: option.splits)
qed

lemma lits: "lit ''--'' = [0x2d, 0x2d]" "lit ''-t'' = [0x2d, 0x74]" "lit ''-t='' = [0x2d, 0x74, 0x3d]" "lit ''-l'' = [0x2d, 0x6c]"
  "lit ''-N'' = [0x2d, 0x4e]" "lit ''-'' = [0x2d]"
  by (simp_all add: lit_def)

text \<open>C40. With \<open>-l\<close> and after \<open>--\<close> the keys are sent as they are typed, whatever they look like: the bytes are those of the
  concatenated arguments, when they fit the limit of a message.\<close>

theorem literal_keys_verbatim:
  assumes "target \<noteq> []" "normalize_tmux_target target = Inr t" "length (as_bytes (concat keys)) \<le> MAX_SEND_DATA_BYTES"
  shows "send_keys vars (lit ''-t'' # target # lit ''-l'' # lit ''--'' # keys) = Inr (t, as_bytes (concat keys))"
proof -
  have "parse_target_with_value_flags (lit ''-t'' # target # lit ''-l'' # lit ''--'' # keys) SEND_VALUE_FLAGS = Inr (Some target)"
    using assms(1)
    by (simp add: parse_target_with_value_flags_def target_value_def next_arg_def skip_def lits starts_with_str_def
        short_cluster_flag_value_def short_cluster_def value_for_short_flag_def short_flag_takes_value_def
        is_value_taking_short_flag_def SEND_VALUE_FLAGS_def flag_arg_width_def lit_def)
  moreover have "send_keys_loop \<lparr>sk_literal = False, sk_repeat = 1, sk_keys = []\<rparr> (lit ''-t'' # target # lit ''-l'' # lit ''--'' # keys)
      = Inr \<lparr>sk_literal = True, sk_repeat = 1, sk_keys = keys\<rparr>"
    by (simp add: skip_def lits)
  moreover have "repeated_send_payload bytes 1 = Inr bytes" if "length bytes \<le> MAX_SEND_DATA_BYTES" for bytes
    using that by (simp add: repeated_send_payload_def MAX_SEND_DATA_BYTES_def)
  ultimately show ?thesis using assms(2,3) by (simp add: send_keys_def keys_to_bytes_def)
qed

text \<open>C99. What \<open>send-keys\<close> sends fits a message, and is the bytes of the keys, as many times as asked.\<close>

theorem send_keys_payload:
  assumes "send_keys vars args = Inr (t, bytes)"
  shows "length bytes \<le> MAX_SEND_DATA_BYTES \<and> (\<exists>keys literal repeat. 0 < repeat \<and> length bytes = repeat * length (keys_to_bytes keys literal)
    \<and> bytes = concat (replicate repeat (keys_to_bytes keys literal)))"
proof -
  have repeat: "0 < sk_repeat p" if "send_keys_loop parsed as = Inr p" "0 < sk_repeat parsed" for parsed as p
    using that
  proof (induction parsed as arbitrary: p rule: send_keys_loop.induct)
    case (2 parsed arg rest)
    have "0 < n" if "parse_send_keys_repeat x = Inr n" for x n
      using that by (auto simp: parse_send_keys_repeat_def split: if_splits)
    then show ?case using 2 by (auto split: if_splits option.splits)
  qed simp
  obtain parsed where p: "send_keys_loop \<lparr>sk_literal = False, sk_repeat = 1, sk_keys = []\<rparr> args = Inr parsed"
    "repeated_send_payload (keys_to_bytes (sk_keys parsed) (sk_literal parsed)) (sk_repeat parsed) = Inr bytes"
    using assms by (auto simp: send_keys_def)
  let ?b = "keys_to_bytes (sk_keys parsed) (sk_literal parsed)"
  have "bytes = concat (replicate (sk_repeat parsed) ?b)" "length bytes \<le> MAX_SEND_DATA_BYTES"
    using p(2) by (auto simp: repeated_send_payload_def length_concat sum_list_replicate mult.commute split: if_splits)
  moreover from this(1) have "length bytes = sk_repeat parsed * length ?b" by (simp add: length_concat sum_list_replicate)
  ultimately show ?thesis using repeat [OF p(1)] by auto
qed

section \<open>Routing of user options\<close>

definition option_command :: "bool \<Rightarrow> user_option_command" where
  "option_command is_set = (if is_set then SetOption else ShowOption)"

lemma supported_cluster:
  "option_flags is_set cluster parsed = Inr parsed' \<Longrightarrow> 0x74 \<notin> set cluster \<Longrightarrow>
     routing_value_flag (option_command is_set) cluster = None"
  by (induction is_set cluster parsed rule: option_flags.induct)
    (auto simp: option_command_def user_option_flag_supported_def split: if_splits)

lemma positional_extends:
  "user_option_loop is_set options parsed positional args = Inr (p, positional') \<Longrightarrow> \<exists>more. positional' = positional @ more"
  by (induction is_set options parsed positional args rule: user_option_loop.induct)
    (auto split: if_splits option.splits)

definition at_name :: "ustring \<Rightarrow> ustring option" where
  "at_name name = (if str_starts_with 0x40 name then Some name else None)"

lemma routing_agrees:
  "user_option_loop is_set options parsed positional args = Inr (p, positional') \<Longrightarrow> positional = [] \<Longrightarrow> positional' \<noteq> [] \<Longrightarrow>
     actual_user_option_name (option_command is_set) options args = at_name (hd positional')"
proof (induction is_set options parsed positional args rule: user_option_loop.induct)
  case (2 is_set options parsed positional arg rest)
  consider (dashes) "options" "arg = lit ''--''" | (target) "options" "arg \<noteq> lit ''--''" "arg = lit ''-t''"
    | (attached) "options" "arg \<noteq> lit ''--''" "arg \<noteq> lit ''-t''" "starts_with_str (lit ''-t'') arg \<and> 2 < length arg"
    | (flags) "options" "arg \<noteq> lit ''--''" "arg \<noteq> lit ''-t''" "\<not> (starts_with_str (lit ''-t'') arg \<and> 2 < length arg)"
        "str_starts_with 0x2d arg \<and> arg \<noteq> lit ''-''"
    | (positional) "\<not> (options \<and> arg = lit ''--'')" "\<not> (options \<and> arg = lit ''-t'')"
        "\<not> (options \<and> starts_with_str (lit ''-t'') arg \<and> 2 < length arg)" "\<not> (options \<and> str_starts_with 0x2d arg \<and> arg \<noteq> lit ''-'')"
    by blast
  then show ?case
  proof cases
    case dashes
    then show ?thesis using 2 by simp
  next
    case target
    then show ?thesis using 2 by (cases "value_for_option (next_arg rest)") simp_all
  next
    case attached
    then show ?thesis using 2 by simp
  next
    case flags
    then obtain cluster parsed' where "short_cluster arg = Some cluster" "0x74 \<notin> set cluster" "option_flags is_set cluster parsed = Inr parsed'"
      "user_option_loop is_set options parsed' positional rest = Inr (p, positional')"
      using 2(6) by (auto split: option.splits if_splits)
    then show ?thesis using flags 2(4) 2(7,8) supported_cluster by simp
  next
    case positional
    then have "user_option_loop is_set False parsed [arg] rest = Inr (p, positional')" using 2(6,7) by auto
    then have "hd positional' = arg" using positional_extends by fastforce
    then show ?thesis using positional by (auto simp: at_name_def)
  qed
qed simp

text \<open>C39. The scan that decides whether a command line is about a user option and the parser that reads it agree: a line that
  parses is routed as a user option exactly when its name starts with \<open>@\<close>, with that name.\<close>

theorem option_routing_agrees:
  assumes "parse_user_option_args args is_set = Inr parsed"
  shows "actual_user_option_name (option_command is_set) True args
    = (if str_starts_with 0x40 (ua_name parsed) then Some (ua_name parsed) else None)"
proof -
  let ?start = "\<lparr>ua_quiet = False, ua_value_only = False, ua_pane = False, ua_unset = False, ua_target = None, ua_name = [], ua_value = None\<rparr>"
  obtain r where r: "user_option_loop is_set True ?start [] args = Inr r"
    using assms unfolding parse_user_option_args_def by (cases "user_option_loop is_set True ?start [] args") simp_all
  obtain p positional where r': "r = (p, positional)" by (cases r)
  note loop = r [unfolded r']
  have "length positional = (if is_set \<and> \<not> ua_unset p then 2 else 1) \<and> ua_name parsed = hd positional"
    using assms unfolding parse_user_option_args_def loop
    by (cases "length positional = (if is_set \<and> \<not> ua_unset p then 2 else 1)") auto
  then have "positional \<noteq> []" "ua_name parsed = hd positional" by (auto split: if_splits)
  then show ?thesis using routing_agrees [OF loop refl] by (simp add: at_name_def)
qed

section \<open>Shown options are clean\<close>

definition safe_text :: "ustring \<Rightarrow> bool" where
  "safe_text s \<longleftrightarrow> list_all (\<lambda>c. \<not> is_unsafe_user_option_char c) s"

lemma valid_value_safe: "validate_user_option_value v = Inr () \<Longrightarrow> safe_text v"
  by (auto simp: validate_user_option_value_def safe_text_def list_ex_iff list_all_iff split: if_splits)

lemma option_name_byte_unat: "option_name_byte b \<Longrightarrow> 0x2d \<le> unat b \<and> unat b \<le> 0x7a"
  by (auto simp: option_name_byte_def word_le_nat_alt)

lemma continuation_not_name: "\<not> option_name_byte (of_nat (0x80 + c mod 0x40))"
proof -
  define n where "n = 0x80 + c mod 0x40"
  have "c mod 0x40 < 0x40" by simp
  then have n: "0x80 \<le> n" "n < 256" unfolding n_def by linarith+
  then have "unat (of_nat n :: u8) = n" by (simp add: unat_of_nat)
  then have "\<not> option_name_byte (of_nat n)" using n(1) option_name_byte_unat [of "of_nat n"] by auto
  then show ?thesis unfolding n_def .
qed

lemma name_char_safe:
  assumes "list_all option_name_byte (utf8_encode c)" shows "\<not> is_unsafe_user_option_char c"
proof -
  have small: "c < 0x80"
    using assms continuation_not_name [of c] by (auto simp: utf8_encode_def split: if_splits)
  then have "option_name_byte (of_nat c)" using assms by (simp add: utf8_encode_def)
  moreover have "unat (of_nat c :: u8) = c" using small by (simp add: unat_of_nat)
  ultimately have "0x2d \<le> c \<and> c \<le> 0x7a" using option_name_byte_unat by metis
  then show ?thesis by (simp add: is_unsafe_user_option_char_def is_c0_or_c1_def UNICODE_FORMAT_RANGES_def)
qed

lemma valid_name_safe:
  assumes "validate_user_option_name name = Inr ()" shows "safe_text name"
proof -
  obtain cs where name: "name = 0x40 # cs" using assms
    by (cases name) (auto simp: validate_user_option_name_def Let_def split: if_splits)
  then have "list_all option_name_byte (as_bytes cs)"
    using assms by (auto simp: validate_user_option_name_def Let_def as_bytes_def utf8_encode_def split: if_splits)
  then have "\<not> is_unsafe_user_option_char c" if "c \<in> set cs" for c
    using that name_char_safe by (auto simp: as_bytes_def list_all_iff)
  moreover have "\<not> is_unsafe_user_option_char 0x40"
    by (simp add: is_unsafe_user_option_char_def is_c0_or_c1_def UNICODE_FORMAT_RANGES_def)
  ultimately show ?thesis by (auto simp: safe_text_def list_all_iff name)
qed

text \<open>A store whose options all hold safe text.\<close>

definition dict_values_safe :: "ustring dict dict \<Rightarrow> bool" where
  "dict_values_safe d \<longleftrightarrow> list_all (\<lambda>(_, o'). list_all (safe_text \<circ> snd) o') d"

definition options_clean :: "compat_store \<Rightarrow> bool" where
  "options_clean store \<longleftrightarrow> compat_store_ok store \<and> dict_values_safe (cs_pane_user_options store)
     \<and> dict_values_safe (cs_session_user_options store)"

lemma options_clean_default: "options_clean compat_store_default"
  using compat_store_ok_default by (simp add: options_clean_def dict_values_safe_def compat_store_default_def)

lemma options_clean_same:
  assumes "options_clean store" "compat_store_ok store'" "cs_pane_user_options store' = cs_pane_user_options store"
    "cs_session_user_options store' = cs_session_user_options store"
  shows "options_clean store'"
  using assms by (simp add: options_clean_def)

lemma values_filter: "dict_values_safe d \<Longrightarrow> dict_values_safe (filter P d)"
  by (auto simp: dict_values_safe_def list_all_iff)

lemma values_delete: "dict_values_safe d \<Longrightarrow> dict_values_safe (AList.delete k d)"
  by (simp add: AList.delete_eq values_filter)

lemma values_fold_delete: "dict_values_safe d \<Longrightarrow> dict_values_safe (fold AList.delete ks d)"
  by (simp add: fold_delete values_filter)

lemma values_update: "dict_values_safe d \<Longrightarrow> list_all (safe_text \<circ> snd) o' \<Longrightarrow> dict_values_safe (AList.update k o' d)"
  by (induction d) (auto simp: dict_values_safe_def)

lemma entry_values: "dict_values_safe d \<Longrightarrow> list_all (safe_text \<circ> snd) (entry_or_default d k)"
  by (cases "map_of d k") (auto simp: dict_values_safe_def list_all_iff entry_or_default_def dest!: map_of_SomeD)

lemma inner_update: "list_all (safe_text \<circ> snd) o' \<Longrightarrow> safe_text v \<Longrightarrow> list_all (safe_text \<circ> snd) (AList.update n v o')"
  by (induction o') auto

lemma inner_delete: "list_all (safe_text \<circ> snd) o' \<Longrightarrow> list_all (safe_text \<circ> snd) (AList.delete n o')"
  by (auto simp: AList.delete_eq list_all_iff)

lemma options_of_values: "options_clean store \<Longrightarrow> dict_values_safe (options_of pane store)"
  by (simp add: options_of_def options_clean_def)

lemma set_options_clean:
  "options_clean store \<Longrightarrow> compat_store_ok (set_options_of pane d store) \<Longrightarrow> dict_values_safe d \<Longrightarrow> options_clean (set_options_of pane d store)"
  by (simp add: options_clean_def set_options_of_def)

lemma prune_user_options_clean: "options_clean store \<Longrightarrow> options_clean (prune_user_options live store)"
  using prune_user_options_ok [of store live] by (simp add: options_clean_def prune_user_options_def Let_def values_filter)

lemma change_user_option_clean:
  assumes "options_clean store" "change_user_option args identity store = Inr store'"
    "is_none_or (ua_value args) safe_text"
  shows "options_clean store'"
proof -
  have ok: "compat_store_ok store'" using change_user_option_ok assms(1,2) by (auto simp: options_clean_def)
  show ?thesis
  proof (cases "ua_unset args")
    case True
    then have s': "store' = unset_user_option (ua_pane args) identity (ua_name args) store"
      using assms(2) by (simp add: change_user_option_def)
    show ?thesis
    proof (cases "map_of (options_of (ua_pane args) store) identity")
      case (Some o')
      then have "list_all (safe_text \<circ> snd) o'"
        using entry_values [OF options_of_values [OF assms(1)], of "ua_pane args" identity] by (simp add: entry_or_default_def)
      then show ?thesis
        using ok Some options_of_values [OF assms(1)] unfolding s' unset_user_option_def
        by (auto simp: Let_def intro!: set_options_clean assms(1) values_delete values_update inner_delete split: if_splits)
    qed (use s' assms(1) in \<open>simp add: unset_user_option_def\<close>)
  next
    case False
    then obtain v where v: "ua_value args = Some v" "set_user_option (ua_pane args) identity (ua_name args) v store = Inr store'"
      using assms(2) by (cases "ua_value args") (simp_all add: change_user_option_def)
    have s': "store' = set_options_of (ua_pane args) (AList.update identity (AList.update (ua_name args) v
        (entry_or_default (options_of (ua_pane args) store) identity)) (options_of (ua_pane args) store)) store"
      using v(2) by (auto simp: set_user_option_def Let_def)
    show ?thesis
      using ok assms(3) v(1) entry_values [OF options_of_values [OF assms(1)]] options_of_values [OF assms(1)]
      unfolding s' by (intro set_options_clean assms(1) values_update inner_update) (simp_all add: is_none_or_def)
  qed
qed

text \<open>An invariant of the store that the default store has carries over to the file, through every operation that keeps it.\<close>

definition on_disk :: "(compat_store \<Rightarrow> bool) \<Rightarrow> compat_codec \<Rightarrow> compat_disk \<Rightarrow> bool" where
  "on_disk P cc d \<longleftrightarrow> is_none_or (Option.bind (cd_store d) (cc_from_slice cc)) P"

locale store_invariant =
  fixes P :: "compat_store \<Rightarrow> bool"
  assumes P_ok: "P store \<Longrightarrow> compat_store_ok store" and P_default: "P compat_store_default"
begin

lemma load_inv:
  assumes "on_disk P cc d" "load_store cc ca d = (d', r)"
  shows "on_disk P cc d'" "r = Inr store \<Longrightarrow> P store"
  using assms P_default
  by (auto simp: load_store_def quarantine_store_file_def on_disk_def is_none_or_def Let_def
      split: option.splits if_splits prod.splits sum.splits)

lemma save_inv: "codec_ok cc \<Longrightarrow> P store \<Longrightarrow> on_disk P cc d \<Longrightarrow> on_disk P cc (fst (save_store cc ca store d))"
  using P_ok [of store] by (auto simp: save_store_def codec_ok_def on_disk_def is_none_or_def split: option.splits if_splits)

lemma read_inv: "on_disk P cc d \<Longrightarrow> on_disk P cc (fst (read_store cc ca f d))"
  using load_inv(1) [of cc d ca] by (auto simp: read_store_def split: prod.splits sum.splits)

lemma update_inv:
  assumes "codec_ok cc" "on_disk P cc d" "\<And>store store' x. P store \<Longrightarrow> f store = Inr (store', x) \<Longrightarrow> P store'"
  shows "on_disk P cc (fst (update_store cc ca f d))"
proof (cases "load_store cc ca d")
  case (Pair d1 r)
  note load = load_inv [OF assms(2) Pair]
  show ?thesis
  proof (cases r)
    case (Inr store)
    then show ?thesis
      using Pair load assms(2) assms(3) [OF load(2) [OF Inr]] save_inv [OF assms(1) _ load(1), of _ ca]
      by (fastforce simp: update_store_def split: sum.splits prod.splits)
  qed (use load Pair assms(2) in \<open>simp add: update_store_def\<close>)
qed

end

interpretation clean: store_invariant options_clean
  by unfold_locales (simp_all add: options_clean_def options_clean_default [unfolded options_clean_def])

text \<open>Every run of the shim as its commands make it: options are set by \<open>set-option\<close>.\<close>

inductive shim_step :: "compat_codec \<Rightarrow> compat_disk \<Rightarrow> compat_disk \<Rightarrow> bool" for cc :: compat_codec where
  shim_signal: "permutes_keys order \<Longrightarrow> shim_step cc d (fst (signal_wait_channel cc ca order now now' channel d))"
| shim_begin_wait: "permutes_keys order \<Longrightarrow> shim_step cc d (fst (begin_wait cc ca order now now' t signature channel d))"
| shim_wait_turn: "permutes_keys order \<Longrightarrow>
    shim_step cc d (fst (wait_channel_turn cc ca order now now' t signature signature' w d))"
| shim_set_option: "shim_step cc d (fst (set_option cc ca vars listed args d))"
| shim_show_option: "shim_step cc d (fst (show_option cc ca vars listed args d))"
| shim_claim: "shim_step cc d (fst (claim_managed_attach cc ca pv pane_id token surface d))"
| shim_release: "shim_step cc d (fst (release_managed_attach cc ca pv pane_id token d))"
| shim_renew: "shim_step cc d (fst (renew_managed_attach cc ca pv pane_id token d))"
| shim_remember: "shim_step cc d (fst (remember_pane cc ca listed info surface' d))"
| shim_stored_surface: "shim_step cc d (fst (stored_cmux_surface_for_pane cc ca pane_id d))"
| shim_capture_pane: "shim_step cc d (fst (capture_compat_pane_best_effort cc ca pane_id immutable_id d))"
| shim_forget: "shim_step cc d (fst (forget_panes_and_user_options cc ca captured ids d))"

lemma same_options:
  assumes "other_parts store' = other_parts store" "options_clean store" "compat_store_ok store'"
  shows "options_clean store'"
  using options_clean_same [OF assms(2,3)] assms(1) by (simp add: other_parts_def)

lemma signal_clean:
  assumes "permutes_keys order" "options_clean store" "signal_channel order now now' channel store = Inr (store', x)"
  shows "options_clean store'"
proof (rule same_options [OF _ assms(2)])
  show "compat_store_ok store'" using signal_channel_ok [OF assms(1) _ assms(3)] assms(2) by (simp add: options_clean_def)
  show "other_parts store' = other_parts store"
    using assms(3) prune_other [of order now None store]
    by (auto simp: signal_channel_def Let_def touch_wait_generation_def other_parts_def)
qed

lemma look_clean:
  assumes "permutes_keys order" "options_clean store" "look_at_channel order now now' channel store = Inr (store', x)"
  shows "options_clean store'"
proof (rule same_options [OF _ assms(2)])
  show "compat_store_ok store'" using look_at_channel_ok [OF assms(1) _ assms(3)] assms(2) by (simp add: options_clean_def)
  show "other_parts store' = other_parts store"
    using assms(3) prune_other [of order now "Some channel" store]
    by (auto simp: look_at_channel_def Let_def touch_existing_wait_generation_def touch_wait_generation_def other_parts_def)
qed

lemma lease_options:
  "claim_lease pv p t s store = Inr (store', x) \<Longrightarrow>
     cs_pane_user_options store' = cs_pane_user_options store \<and> cs_session_user_options store' = cs_session_user_options store"
  "release_lease pv p t store = Inr (store', y) \<Longrightarrow>
     cs_pane_user_options store' = cs_pane_user_options store \<and> cs_session_user_options store' = cs_session_user_options store"
  "renew_lease pv p t store = Inr (store', z) \<Longrightarrow>
     cs_pane_user_options store' = cs_pane_user_options store \<and> cs_session_user_options store' = cs_session_user_options store"
  by (auto simp: claim_lease_def release_lease_def renew_lease_def prune_managed_attach_leases_def Let_def
      split: option.splits if_splits)

lemma leases_clean:
  assumes "options_clean store"
  shows "claim_lease pv p t s store = Inr (store', x) \<Longrightarrow> options_clean store'"
    "release_lease pv p t store = Inr (store', y) \<Longrightarrow> options_clean store'"
    "renew_lease pv p t store = Inr (store', z) \<Longrightarrow> options_clean store'"
proof -
  note ok = clean.P_ok [OF assms]
  show "claim_lease pv p t s store = Inr (store', x) \<Longrightarrow> options_clean store'"
    using options_clean_same [OF assms claim_lease_ok [OF ok]] lease_options(1) by blast
  show "release_lease pv p t store = Inr (store', y) \<Longrightarrow> options_clean store'"
    using options_clean_same [OF assms release_lease_ok [OF ok]] lease_options(2) by blast
  show "renew_lease pv p t store = Inr (store', z) \<Longrightarrow> options_clean store'"
    using options_clean_same [OF assms renew_lease_ok [OF ok]] lease_options(3) by blast
qed

lemma forget_clean: "options_clean store \<Longrightarrow> forget_in_store captured ids store = Inr (store', x) \<Longrightarrow> options_clean store'"
  using forget_in_store_ok [of store captured ids store' x]
  by (auto simp: options_clean_def forget_in_store_def values_fold_delete)

lemma mutate_clean:
  assumes "codec_ok cc" "on_disk options_clean cc d" "is_none_or (ua_value args) safe_text"
  shows "on_disk options_clean cc (fst (mutate_user_option cc ca vars listed args d))"
proof (cases "load_store cc ca d")
  case (Pair d1 r)
  note load = clean.load_inv [OF assms(2) Pair]
  have "on_disk options_clean cc (fst (save_store cc ca store' d1))"
    if "change_user_option args identity (prune_user_options live store) = Inr store'" "r = Inr store" for identity live store store'
    using clean.save_inv [OF assms(1) change_user_option_clean [OF prune_user_options_clean [OF load(2) [OF that(2)]] that(1) assms(3)] load(1)] .
  then show ?thesis using Pair load(1) assms(2) by (auto simp: mutate_user_option_def split: sum.splits prod.splits)
qed

lemma set_option_clean:
  assumes "codec_ok cc" "on_disk options_clean cc d"
  shows "on_disk options_clean cc (fst (set_option cc ca vars listed args d))"
  using assms mutate_clean [OF assms] valid_value_safe
  by (auto simp: set_option_def is_none_or_def split: sum.splits option.splits)

lemma read_option_clean: "on_disk options_clean cc d \<Longrightarrow> on_disk options_clean cc (fst (read_user_option cc ca vars listed args d))"
  using clean.load_inv(1) [of cc d ca] by (auto simp: read_user_option_def split: prod.splits sum.splits)

lemma show_option_clean:
  assumes "on_disk options_clean cc d" shows "on_disk options_clean cc (fst (show_option cc ca vars listed args d))"
proof -
  have "on_disk options_clean cc d'" if "read_user_option cc ca vars listed parsed d = (d', r)" for parsed d' r
    using read_option_clean [OF assms, of ca vars listed parsed] that by simp
  then show ?thesis
    using assms by (auto simp: show_option_def show_user_option_def split: sum.splits prod.splits option.splits)
qed

lemma remember_clean:
  assumes "codec_ok cc" "on_disk options_clean cc d" shows "on_disk options_clean cc (fst (remember_pane cc ca listed info surface d))"
proof -
  have "on_disk options_clean cc (fst (remember_pane_with_live cc ca info surface live d))" for live
  proof (cases "load_store cc ca d")
    case (Pair d1 r)
    note load = clean.load_inv [OF assms(2) Pair]
    show ?thesis
    proof (cases r)
      case (Inr store)
      let ?pruned = "prune_user_options live store"
      have pruned: "options_clean ?pruned" by (rule prune_user_options_clean [OF load(2) [OF Inr]])
      then have "options_clean (?pruned\<lparr>cs_panes := AList.update k v (cs_panes ?pruned)\<rparr>)" for k v
        using store_ok_panes [OF clean.P_ok [OF pruned]] panes_dict [OF clean.P_ok [OF pruned]]
        by (intro options_clean_same [OF pruned]) simp_all
      from clean.save_inv [OF assms(1) this load(1)] show ?thesis
        using Pair Inr by (simp add: remember_pane_with_live_def Let_def)
    qed (use Pair load in \<open>simp add: remember_pane_with_live_def\<close>)
  qed
  then show ?thesis using assms(2) by (simp add: remember_pane_def split: sum.splits)
qed

lemma shim_step_clean: "shim_step cc d d' \<Longrightarrow> codec_ok cc \<Longrightarrow> on_disk options_clean cc d \<Longrightarrow> on_disk options_clean cc d'"
proof (induction rule: shim_step.induct)
  case (shim_signal order d ca now now' channel)
  then have "on_disk options_clean cc (fst (update_store cc ca (signal_channel order now now' channel) d))"
    using clean.update_inv signal_clean by blast
  then show ?case using shim_signal(3) by (auto simp: signal_wait_channel_def split: sum.splits)
next
  case (shim_begin_wait order d ca now now' t signature channel)
  then have "on_disk options_clean cc (fst (update_store cc ca (look_at_channel order now now' channel) d))"
    using clean.update_inv look_clean by blast
  then show ?case using shim_begin_wait(3) by (auto simp: begin_wait_def split: sum.splits prod.splits)
next
  case (shim_wait_turn order d ca now now' t signature signature' w)
  then have "on_disk options_clean cc (fst (update_store cc ca (look_at_channel order now now' (wt_channel w)) d))"
    "on_disk options_clean cc (fst (read_store cc ca (\<lambda>store. Inr (generation_of store (wt_channel w))) d))"
    using clean.update_inv look_clean clean.read_inv by blast+
  then show ?case using shim_wait_turn(3)
    by (auto simp: wait_channel_turn_def Let_def split: sum.splits prod.splits)
next
  case (shim_capture_pane d ca pane_id immutable_id)
  then show ?case using clean.read_inv [of cc d ca] by (simp add: capture_compat_pane_best_effort_def split_beta)
qed (auto simp: claim_managed_attach_def release_managed_attach_def renew_managed_attach_def forget_panes_and_user_options_def
    stored_cmux_surface_for_pane_def set_option_clean show_option_clean remember_clean
    intro: clean.update_inv leases_clean forget_clean clean.read_inv)

lemma shim_run_clean: "(shim_step cc)\<^sup>*\<^sup>* empty_disk d \<Longrightarrow> codec_ok cc \<Longrightarrow> on_disk options_clean cc d"
proof (induction rule: rtranclp_induct)
  case base
  then show ?case by (simp add: on_disk_def empty_disk_def is_none_or_def)
qed (blast intro: shim_step_clean)

text \<open>C16. However the shim is run, what \<open>show-option\<close> prints for a user option has no control, format or invisible character: the
  options of one client cannot forge the terminal of another.\<close>

theorem shown_options_are_safe:
  assumes "codec_ok cc" "(shim_step cc)\<^sup>*\<^sup>* empty_disk d" "show_user_option cc ca vars listed args d = (d', Inr (Some out))"
  shows "list_all (\<lambda>c. \<not> is_unsafe_user_option_char c) out"
proof -
  obtain parsed v where p: "validate_user_option_name (ua_name parsed) = Inr ()"
    "read_user_option cc ca vars listed parsed d = (d', Inr (Some v))"
    "out = (if ua_value_only parsed then v else ua_name parsed @ [0x20] @ v)"
    using assms(3) by (auto simp: show_user_option_def split: sum.splits prod.splits option.splits if_splits)
  obtain identity store where r: "load_store cc ca d = (d', Inr store)"
    "map_of (entry_or_default (options_of (ua_pane parsed) store) identity) (ua_name parsed) = Some v"
    using p(2) by (fastforce simp: read_user_option_def entry_or_default_def split: sum.splits prod.splits option.splits if_splits)
  have "options_clean store" by (rule clean.load_inv(2) [OF shim_run_clean [OF assms(2,1)] r(1) refl])
  then have "safe_text v"
    using entry_values [OF options_of_values, of store "ua_pane parsed" identity] r(2)
    by (force simp: list_all_iff dest!: map_of_SomeD)
  moreover have "\<not> is_unsafe_user_option_char 0x20"
    by (simp add: is_unsafe_user_option_char_def is_c0_or_c1_def UNICODE_FORMAT_RANGES_def)
  ultimately have "safe_text out" using valid_name_safe [OF p(1)] p(3) by (auto simp: safe_text_def)
  then show ?thesis by (simp add: safe_text_def)
qed

section \<open>Examples of command lines\<close>

theorem expand_format_clean_witness: "no_controls (expand_format_with_session_user_options (lit ''#S:#{pane_width}'') root_session None)"
  by (rule expand_format_clean) (simp add: no_controls_def lit_def is_c0_or_c1_def)

lemma cluster_example: "short_cluster_flag_value (lit ''-dF'') 0x46 (Some [1]) [] [] = Some ([], Some [1])"
  by (simp add: short_cluster_flag_value_def short_cluster_def lit_def value_for_short_flag_def short_flag_takes_value_def
      is_value_taking_short_flag_def Let_def)

theorem flag_value_and_width_agree_witness: "flag_arg_width (lit ''-dF'') (Some [1]) [] [] = 2"
  using flag_value_and_width_agree [OF cluster_example]
  by (simp add: short_flag_takes_value_def is_value_taking_short_flag_def lit_def)

theorem literal_keys_verbatim_witness:
  "send_keys (None, None) (lit ''-t'' # [4] # lit ''-l'' # lit ''--'' # [lit ''-N'', lit ''Enter'']) = Inr ([4], as_bytes (lit ''-NEnter''))"
proof -
  have "normalize_tmux_target [4] = Inr [4]"
    by (simp add: normalize_tmux_target_def reject_unsupported_tmux_window_target_def tmux_window_target_session_def)
  moreover have "length (as_bytes (concat [lit ''-N'', lit ''Enter''])) \<le> MAX_SEND_DATA_BYTES"
    by (simp add: as_bytes_def lit_def utf8_encode_def MAX_SEND_DATA_BYTES_def)
  ultimately show ?thesis
    using literal_keys_verbatim [of "[4]" "[4]" "[lit ''-N'', lit ''Enter'']" "(None, None)"] by (simp add: lit_def)
qed

lemma send_example: "send_keys (None, None) [lit ''-l'', lit ''x''] = Inr ([0x25, 0x30], [0x78])"
proof -
  have "parse_target_with_value_flags [lit ''-l'', lit ''x''] SEND_VALUE_FLAGS = Inr None"
    by (simp add: parse_target_with_value_flags_def next_arg_def skip_def lit_def starts_with_str_def
        short_cluster_flag_value_def short_cluster_def value_for_short_flag_def short_flag_takes_value_def
        is_value_taking_short_flag_def SEND_VALUE_FLAGS_def flag_arg_width_def)
  then show ?thesis
    by (simp add: send_keys_def lit_def default_target_def normalize_tmux_target_def reject_unsupported_tmux_window_target_def
        tmux_window_target_session_def keys_to_bytes_def as_bytes_def utf8_encode_def repeated_send_payload_def MAX_SEND_DATA_BYTES_def)
qed

theorem send_keys_payload_witness: "length [0x78 :: u8] \<le> MAX_SEND_DATA_BYTES"
  using send_keys_payload [OF send_example] by simp

definition set_line :: "ustring list" where
  "set_line = [lit ''-p'', lit ''-t'', [4], lit ''@a'', lit ''x'']"

definition show_line :: "ustring list" where
  "show_line = [lit ''-pv'', lit ''-t'', [4], lit ''@a'']"

definition set_args :: user_option_args where
  "set_args = \<lparr>ua_quiet = False, ua_value_only = False, ua_pane = True, ua_unset = False, ua_target = Some [4], ua_name = [0x40, 0x61],
     ua_value = Some [0x78]\<rparr>"

definition show_args :: user_option_args where
  "show_args = \<lparr>ua_quiet = False, ua_value_only = True, ua_pane = True, ua_unset = False, ua_target = Some [4], ua_name = [0x40, 0x61],
     ua_value = None\<rparr>"

lemma parse_set_line: "parse_user_option_args set_line True = Inr set_args"
  by code_simp

lemma parse_show_line: "parse_user_option_args show_line False = Inr show_args"
  by code_simp

theorem option_routing_agrees_witness: "actual_user_option_name SetOption True set_line = Some [0x40, 0x61]"
  using option_routing_agrees [OF parse_set_line] by (simp add: option_command_def set_args_def)

lemma valid_example: "validate_user_option_name [0x40, 0x61] = Inr ()" "validate_user_option_value [0x78] = Inr ()"
  by (simp_all add: validate_user_option_name_def validate_user_option_value_def Let_def as_bytes_def utf8_encode_def
      USER_OPTION_NAME_MAX_BYTES_def USER_OPTION_VALUE_MAX_BYTES_def option_name_byte_def is_unsafe_user_option_char_def
      is_c0_or_c1_def UNICODE_FORMAT_RANGES_def)

lemma set_identity_example: "user_option_identity_from_snapshot (None, None) set_args [root_session, child_session] = Inr [3]"
  "user_option_identity_from_snapshot (None, None) show_args [root_session, child_session] = Inr [3]"
  by code_simp+

lemma set_change_example: "change_user_option set_args [3] (prune_user_options live compat_store_default) = Inr optioned"
  by (simp add: change_user_option_def set_args_def set_user_option_def Let_def options_of_def set_options_of_def
      prune_user_options_def compat_store_default_def optioned_def user_option_limits_def contains_key_def entry_or_default_def
      user_option_identity_count_def user_option_entry_count_def USER_OPTION_IDENTITIES_MAX_def USER_OPTION_ENTRIES_MAX_def
      USER_OPTIONS_PER_IDENTITY_MAX_def)

lemma set_route: "actual_user_option_name SetOption True set_line = Some [0x40, 0x61]"
  by code_simp

lemma set_option_example:
  "set_option (store_table_codec [optioned]) granted (None, None) (Inr [root_session, child_session]) set_line empty_disk
    = (disk_with [], Inr ())"
proof -
  have "mutate_user_option (store_table_codec [optioned]) granted (None, None) (Inr [root_session, child_session]) set_args empty_disk
      = (disk_with [], Inr ())"
    by (simp add: mutate_user_option_def set_identity_example load_store_def empty_disk_def granted_def set_change_example
        save_store_def store_table_codec_def COMPAT_STORE_MAX_BYTES_def disk_with_def)
  then show ?thesis
    by (simp add: set_option_def set_route parse_set_line valid_example [folded set_args_def])
      (simp add: set_args_def valid_example)
qed

lemma show_option_example:
  "show_user_option (store_table_codec [optioned]) granted (None, None) (Inr [root_session, child_session]) show_line (disk_with [])
    = (disk_with [], Inr (Some [0x78]))"
proof -
  have "read_user_option (store_table_codec [optioned]) granted (None, None) (Inr [root_session, child_session]) show_args (disk_with [])
      = (disk_with [], Inr (Some [0x78]))"
    using read_user_option_lookup [OF _ set_identity_example(2) load_example [of optioned "[]"]]
    by (simp add: granted_def) (simp add: lookup_option_def optioned_def options_of_def show_args_def)
  then show ?thesis
    by (simp add: show_user_option_def parse_show_line valid_example) (simp add: show_args_def valid_example)
qed

theorem shown_options_are_safe_witness: "list_all (\<lambda>c. \<not> is_unsafe_user_option_char c) [0x78]"
proof -
  have "(shim_step (store_table_codec [optioned]))\<^sup>*\<^sup>* empty_disk (disk_with [])"
    using shim_step.shim_set_option [of "store_table_codec [optioned]" empty_disk granted "(None, None)"
        "Inr [root_session, child_session]" set_line] set_option_example by (simp add: r_into_rtranclp)
  then show ?thesis by (rule shown_options_are_safe [OF store_table_codec_ok _ show_option_example])
qed

end
