(* ===== verification/Server_Output.thy ===== *)
theory Server_Output
  imports Terminal_Sanitize "HOL-Library.Sublist"
begin

text \<open>
  The output of a session in the daemon (\<open>src/src/server.rs\<close>): the ring of the last two megabytes, captures of ranges of lines, and
  the scanner that waits for a text to appear. The daemon changes the output of a session under one lock, so
  that each operation is a function of its state. Coordinates of lines are \<open>i32\<close> in the code and \<open>int\<close> here: the code computes with
  their absolute value only.
\<close>

section \<open>The ring\<close>

definition RING_LIMIT :: nat where
  "RING_LIMIT = 2 * 1024 * 1024"

definition append_ring_bytes :: "u8 list \<Rightarrow> u8 list \<Rightarrow> u8 list" where
  "append_ring_bytes ring bytes =
     (if length bytes \<ge> RING_LIMIT then drop (length bytes - RING_LIMIT) bytes
      else drop (length ring + length bytes - RING_LIMIT) ring @ bytes)"

record output_state =
  os_ring :: "u8 list"
  os_total_bytes :: u64
  os_revision :: u64
  os_closed :: bool

definition mark_output_changed :: "nat \<Rightarrow> output_state \<Rightarrow> output_state" where
  "mark_output_changed appended s =
     s\<lparr>os_total_bytes := saturating_add (os_total_bytes s) (of_nat appended), os_revision := os_revision s + 1\<rparr>"

definition mark_output_closed :: "output_state \<Rightarrow> output_state" where
  "mark_output_closed s = s\<lparr>os_closed := True, os_revision := os_revision s + 1\<rparr>"

definition append_output :: "u8 list \<Rightarrow> output_state \<Rightarrow> output_state" where
  "append_output bytes s = mark_output_changed (length bytes) (s\<lparr>os_ring := append_ring_bytes (os_ring s) bytes\<rparr>)"

section \<open>Lines of the ring\<close>

definition ring_line_count :: "u8 list \<Rightarrow> nat" where
  "ring_line_count ring =
     (if ring = [] then 0
      else let newline_count = length (filter (\<lambda>b. b = 0x0a) ring) in
        if last ring = 0x0a then newline_count else newline_count + 1)"

text \<open>The loop of \<open>copy_ring_lines\<close> from line \<open>line\<close> on.\<close>

fun copy_lines_from :: "nat \<Rightarrow> nat option \<Rightarrow> nat \<Rightarrow> u8 list \<Rightarrow> u8 list" where
  "copy_lines_from first last_line line [] = []"
| "copy_lines_from first last_line line (b # bs) =
     (let out = (if first \<le> line \<and> is_none_or last_line (\<lambda>l. line \<le> l) then [b] else []) in
      if b = 0x0a then
        (if is_some_and last_line (\<lambda>l. line + 1 > l) then out else out @ copy_lines_from first last_line (line + 1) bs)
      else out @ copy_lines_from first last_line line bs)"

definition copy_ring_lines :: "u8 list \<Rightarrow> nat \<Rightarrow> nat option \<Rightarrow> u8 list" where
  "copy_ring_lines ring first last_line =
     (if is_some_and last_line (\<lambda>l. l < first) then [] else copy_lines_from first last_line 0 ring)"

definition capture_line_index :: "int \<Rightarrow> nat \<Rightarrow> nat" where
  "capture_line_index line line_count = (if line < 0 then line_count - nat (- line) else nat line)"

definition capture_end_line_index :: "int \<Rightarrow> nat \<Rightarrow> nat" where
  "capture_end_line_index line line_count =
     (if line < 0 then line_count - nat (- line) else min (nat line) (line_count - 1))"

definition capture_bytes_from_ring :: "u8 list \<Rightarrow> int option \<Rightarrow> int option \<Rightarrow> u8 list" where
  "capture_bytes_from_ring ring start end =
     (if ring = [] then []
      else if is_some_and start (\<lambda>l. l < 0) \<or> is_some_and end (\<lambda>l. l < 0) then
        (let line_count = ring_line_count ring;
             first = capture_line_index (case start of Some l \<Rightarrow> l | None \<Rightarrow> 0) line_count in
         if first \<ge> line_count then []
         else copy_ring_lines ring first (map_option (\<lambda>l. capture_end_line_index l line_count) end))
      else copy_ring_lines ring (nat (case start of Some l \<Rightarrow> l | None \<Rightarrow> 0)) (map_option nat end))"

definition capture_bytes :: "output_state \<Rightarrow> int option \<Rightarrow> int option \<Rightarrow> u8 list" where
  "capture_bytes s start end =
     (if start = None \<and> end = None then os_ring s else capture_bytes_from_ring (os_ring s) start end)"

definition capture :: "output_state \<Rightarrow> int option \<Rightarrow> int option \<Rightarrow> ustring" where
  "capture s start end = terminal_capture (capture_bytes s start end)"

fun line_start_from :: "nat \<Rightarrow> nat \<Rightarrow> nat \<Rightarrow> u8 list \<Rightarrow> nat option" where
  "line_start_from target line index [] = None"
| "line_start_from target line index (b # bs) =
     (if b = 0x0a then
        (if line + 1 = target then Some (index + 1) else line_start_from target (line + 1) (index + 1) bs)
      else line_start_from target line (index + 1) bs)"

definition ring_byte_index_for_line :: "u8 list \<Rightarrow> nat \<Rightarrow> nat" where
  "ring_byte_index_for_line ring target_line =
     (if target_line = 0 then 0
      else (case line_start_from target_line 0 0 ring of Some i \<Rightarrow> i | None \<Rightarrow> length ring))"

definition capture_start_total_from_ring :: "u8 list \<Rightarrow> u64 \<Rightarrow> int option \<Rightarrow> u64" where
  "capture_start_total_from_ring ring total_bytes start =
     (if ring = [] then total_bytes
      else let ring_start_total = saturating_sub total_bytes (of_nat (length ring)) in
        case start of
          None \<Rightarrow> ring_start_total
        | Some start \<Rightarrow>
            let line_count = ring_line_count ring; first = capture_line_index start line_count in
            if first \<ge> line_count then total_bytes
            else saturating_add ring_start_total (of_nat (ring_byte_index_for_line ring first)))"

definition copy_ring_bytes_from_total :: "u8 list \<Rightarrow> u64 \<Rightarrow> u64 \<Rightarrow> u8 list" where
  "copy_ring_bytes_from_total ring total_bytes start_total =
     (let ring_start_total = saturating_sub total_bytes (of_nat (length ring));
          start = unat (min (saturating_sub start_total ring_start_total) (of_nat (length ring))) in
      drop start ring)"

section \<open>Waiting for a text\<close>

fun contains_str :: "ustring \<Rightarrow> ustring \<Rightarrow> bool" where
  "contains_str needle [] \<longleftrightarrow> needle = []"
| "contains_str needle (c # cs) \<longleftrightarrow> take (length needle) (c # cs) = needle \<or> contains_str needle cs"

definition MAX_WAIT_CONTAINS_NEEDLE_BYTES :: nat where
  "MAX_WAIT_CONTAINS_NEEDLE_BYTES = 4096"

datatype wait_needle_error = NeedleEmpty | NeedleTooLong

definition validate_wait_contains_needle :: "ustring \<Rightarrow> wait_needle_error + unit" where
  "validate_wait_contains_needle needle =
     (if needle = [] then Inl NeedleEmpty
      else if length (as_bytes needle) > MAX_WAIT_CONTAINS_NEEDLE_BYTES then Inl NeedleTooLong
      else Inr ())"

text \<open>The suffix of a text at the first character boundary from which at most \<open>max_bytes\<close> are left.\<close>

fun tail_fitting :: "nat \<Rightarrow> ustring \<Rightarrow> ustring" where
  "tail_fitting max_bytes [] = []"
| "tail_fitting max_bytes (c # cs) =
     (if length (as_bytes (c # cs)) \<le> max_bytes then c # cs else tail_fitting max_bytes cs)"

definition sanitized_tail_for_needle :: "ustring \<Rightarrow> ustring \<Rightarrow> ustring" where
  "sanitized_tail_for_needle text needle =
     (let max_bytes = length (as_bytes needle) - 1 in
      if max_bytes = 0 then [] else tail_fitting max_bytes text)"

record wait_contains_scanner =
  ws_initialized :: bool
  ws_last_total_bytes :: u64
  ws_last_start :: "int option"
  ws_last_start_total :: u64
  ws_sanitized_tail :: ustring
  ws_sanitizer_state :: terminal_capture_state

definition scanner_default :: wait_contains_scanner where
  "scanner_default = \<lparr>ws_initialized = False, ws_last_total_bytes = 0, ws_last_start = None, ws_last_start_total = 0,
     ws_sanitized_tail = [], ws_sanitizer_state = default_capture_state\<rparr>"

definition contains_from_start ::
    "u8 list \<Rightarrow> u64 \<Rightarrow> int option \<Rightarrow> u64 \<Rightarrow> ustring \<Rightarrow> wait_contains_scanner \<Rightarrow> bool \<times> wait_contains_scanner" where
  "contains_from_start ring total_bytes start start_total needle sc =
     (let ring_start_total = saturating_sub total_bytes (of_nat (length ring));
          needs_full_scan = (\<not> ws_initialized sc \<or> ws_last_start sc \<noteq> start \<or> ws_last_start_total sc \<noteq> start_total
            \<or> ws_last_total_bytes sc < ring_start_total \<or> ws_last_total_bytes sc < start_total
            \<or> ws_last_total_bytes sc > total_bytes);
          (searchable, next_state) =
            (if needs_full_scan
             then terminal_capture_from_state (copy_ring_bytes_from_total ring total_bytes start_total) default_capture_state
             else
               (let new_start = unat (saturating_sub (ws_last_total_bytes sc) ring_start_total);
                    (delta, state) = terminal_capture_from_state (drop new_start ring) (ws_sanitizer_state sc) in
                (ws_sanitized_tail sc @ delta, state)));
          matched = contains_str needle searchable in
      (matched,
       if matched then sc
       else sc\<lparr>ws_initialized := True, ws_last_total_bytes := total_bytes, ws_last_start := start,
         ws_last_start_total := start_total, ws_sanitizer_state := next_state,
         ws_sanitized_tail := sanitized_tail_for_needle searchable needle\<rparr>))"

definition scanner_contains ::
    "output_state \<Rightarrow> int option \<Rightarrow> ustring \<Rightarrow> wait_contains_scanner \<Rightarrow> bool \<times> wait_contains_scanner" where
  "scanner_contains s start needle sc =
     (let total_bytes = os_total_bytes s in
      contains_from_start (os_ring s) total_bytes start (capture_start_total_from_ring (os_ring s) total_bytes start) needle sc)"



section \<open>The ring is the end of the output\<close>

lemma append_ring_suffix:
  assumes "ring = drop (length out - RING_LIMIT) out"
  shows "append_ring_bytes ring bytes = drop (length (out @ bytes) - RING_LIMIT) (out @ bytes)"
proof (cases "length bytes \<ge> RING_LIMIT")
  case True
  then show ?thesis by (simp add: append_ring_bytes_def)
next
  case False
  then show ?thesis using assms by (cases "length out \<ge> RING_LIMIT") (simp_all add: append_ring_bytes_def add.commute)
qed

definition output_start :: output_state where
  "output_start = \<lparr>os_ring = [], os_total_bytes = 0, os_revision = 0, os_closed = False\<rparr>"

definition output_after :: "u8 list list \<Rightarrow> output_state" where
  "output_after chunks = fold append_output chunks output_start"

definition output_is :: "u8 list \<Rightarrow> output_state \<Rightarrow> bool" where
  "output_is out s \<longleftrightarrow> os_ring s = drop (length out - RING_LIMIT) out \<and> unat (os_total_bytes s) = length out"

lemma append_output_is:
  assumes "output_is out s" "length (out @ bytes) < 2 ^ 64"
  shows "output_is (out @ bytes) (append_output bytes s)"
proof -
  have "unat (of_nat (length bytes) :: u64) = length bytes" using assms(2) by (simp add: unat_of_nat)
  then have "unat (saturating_add (os_total_bytes s) (of_nat (length bytes))) = length out + length bytes"
    using assms by (simp add: saturating_add_def output_is_def unat_word_ariths)
  then show ?thesis
    using assms append_ring_suffix [of "os_ring s" out bytes]
    by (simp add: output_is_def append_output_def mark_output_changed_def)
qed

lemma output_after_is: "length (concat chunks) < 2 ^ 64 \<Longrightarrow> output_is (concat chunks) (output_after chunks)"
proof (induction chunks rule: rev_induct)
  case Nil
  then show ?case by (simp add: output_after_def output_is_def output_start_def)
next
  case (snoc c chunks)
  then show ?case using append_output_is [of "concat chunks" "output_after chunks" c] by (simp add: output_after_def)
qed

section \<open>Lines\<close>

text \<open>The lines of a text, each with its newline.\<close>

fun lines_of :: "u8 list \<Rightarrow> u8 list list" where
  "lines_of [] = []"
| "lines_of (b # bs) =
     (if b = 0x0a then [b] # lines_of bs else (case lines_of bs of [] \<Rightarrow> [[b]] | l # ls \<Rightarrow> (b # l) # ls))"

lemma concat_lines [simp]: "concat (lines_of bs) = bs"
  by (induction bs) (auto split: list.splits)

lemma lines_nonempty: "lines_of bs = [] \<longleftrightarrow> bs = []"
  by (cases bs) (auto split: list.splits)

lemma ring_line_count_lines: "ring_line_count bs = length (lines_of bs)"
proof (induction bs)
  case (Cons b bs)
  then show ?case
    by (cases "bs = []") (auto simp: ring_line_count_def Let_def lines_nonempty split: list.splits if_splits)
qed (simp add: ring_line_count_def)

definition line_range :: "nat \<Rightarrow> nat option \<Rightarrow> u8 list list \<Rightarrow> u8 list list" where
  "line_range first last_line ls = drop first (case last_line of None \<Rightarrow> ls | Some l \<Rightarrow> take (Suc l) ls)"

lemma copy_lines_from_range:
  assumes "is_none_or last_line (\<lambda>l. line \<le> l)"
  shows "copy_lines_from first last_line line bs
    = concat (line_range (first - line) (map_option (\<lambda>l. l - line) last_line) (lines_of bs))"
  using assms
proof (induction bs arbitrary: line)
  case Nil
  then show ?case by (cases last_line) (simp_all add: line_range_def)
next
  case (Cons b bs)
  show ?case
  proof (cases "b = 0x0a")
    case False
    have "copy_lines_from first last_line line (b # bs)
        = (if first \<le> line then [b] else []) @ copy_lines_from first last_line line bs"
      using False Cons.prems by (simp add: Let_def)
    also have "\<dots> = concat (line_range (first - line) (map_option (\<lambda>l. l - line) last_line) (lines_of (b # bs)))"
      using Cons.IH [OF Cons.prems] False Cons.prems
      by (cases "first \<le> line"; cases "lines_of bs"; cases last_line)
        (auto simp: line_range_def drop_Cons' lines_nonempty)
    finally show ?thesis .
  next
    case True
    show ?thesis
    proof (cases "is_some_and last_line (\<lambda>l. line + 1 > l)")
      case stop: True
      then obtain l where "last_line = Some l" "l = line" using Cons.prems by (cases last_line) auto
      then show ?thesis using True by (auto simp: Let_def line_range_def drop_Cons')
    next
      case go: False
      then have "is_none_or last_line (\<lambda>l. line + 1 \<le> l)" using Cons.prems by (cases last_line) auto
      moreover have "Suc (l - Suc line) = l - line" if "line < l" for l using that by simp
      ultimately show ?thesis using True go Cons.prems Cons.IH [of "line + 1"]
        by (cases "first \<le> line"; cases last_line) (auto simp: Let_def line_range_def drop_Cons' take_Cons' not_less Suc_le_eq)
    qed
  qed
qed

lemma copy_ring_lines_range: "copy_ring_lines ring first last_line = concat (line_range first last_line (lines_of ring))"
proof (cases "is_some_and last_line (\<lambda>l. l < first)")
  case True
  then show ?thesis by (cases last_line) (auto simp: copy_ring_lines_def line_range_def)
next
  case False
  then have "is_none_or last_line (\<lambda>l. 0 \<le> l)" by (cases last_line) auto
  from copy_lines_from_range [OF this] False show ?thesis by (cases last_line) (auto simp: copy_ring_lines_def)
qed

text \<open>The line that a coordinate of a capture names: from the end when it is negative.\<close>

definition line_at :: "int \<Rightarrow> nat \<Rightarrow> nat" where
  "line_at l count = (if l < 0 then count - nat (- l) else nat l)"

lemma capture_ring_range:
  "capture_bytes s start stop =
    (let ls = lines_of (os_ring s); n = length ls in
     concat (drop (case start of None \<Rightarrow> 0 | Some l \<Rightarrow> line_at l n) (case stop of None \<Rightarrow> ls | Some l \<Rightarrow> take (Suc (line_at l n)) ls)))"
proof (cases "os_ring s = []")
  case True
  then show ?thesis by (auto simp: capture_bytes_def capture_bytes_from_ring_def Let_def split: option.splits)
next
  case False
  define ring where "ring = os_ring s"
  have ring: "ring \<noteq> []" using False by (simp add: ring_def)
  then have n: "0 < length (lines_of ring)" using lines_nonempty by auto
  have neg: "\<not> length (lines_of ring) \<le> length (lines_of ring) - nat (- a)" if "a < 0" for a using that n by linarith
  have "capture_bytes_from_ring ring start stop = concat (drop (case start of None \<Rightarrow> 0 | Some l \<Rightarrow> line_at l (length (lines_of ring)))
      (case stop of None \<Rightarrow> lines_of ring | Some l \<Rightarrow> take (Suc (line_at l (length (lines_of ring)))) (lines_of ring)))"
  proof (cases "is_some_and start (\<lambda>l. l < 0) \<or> is_some_and stop (\<lambda>l. l < 0)")
    case True
    then show ?thesis using ring n neg
      by (cases start; cases stop)
        (auto simp: capture_bytes_from_ring_def Let_def ring_line_count_lines copy_ring_lines_range line_range_def
          capture_line_index_def capture_end_line_index_def line_at_def min_def)
  next
    case False
    then show ?thesis using ring
      by (cases start; cases stop)
        (auto simp: capture_bytes_from_ring_def copy_ring_lines_range line_range_def line_at_def)
  qed
  then show ?thesis unfolding capture_bytes_def ring_def Let_def by (auto split: option.splits)
qed

text \<open>A capture returns exactly the lines that were asked for, of the last two megabytes of the output: from the start line to the
  end line, both included, where a negative coordinate counts from the end.\<close>

theorem capture_range_exact:
  assumes "length (concat chunks) < 2 ^ 64"
  shows "capture_bytes (output_after chunks) start stop =
    (let ls = lines_of (drop (length (concat chunks) - RING_LIMIT) (concat chunks)); n = length ls in
     concat (drop (case start of None \<Rightarrow> 0 | Some l \<Rightarrow> line_at l n) (case stop of None \<Rightarrow> ls | Some l \<Rightarrow> take (Suc (line_at l n)) ls)))"
  using capture_ring_range [of "output_after chunks" start stop] output_after_is [OF assms] by (simp add: output_is_def)

theorem capture_range_exact_witness:
  "capture_bytes (output_after [[0x61, 0x0a], [0x62, 0x0a, 0x63]]) (Some (- 2)) (Some 1) = [0x62, 0x0a]"
  using capture_range_exact [of "[[0x61, 0x0a], [0x62, 0x0a, 0x63]]" "Some (- 2)" "Some 1"]
  by (simp add: RING_LIMIT_def line_at_def Let_def)

section \<open>The incremental scan is a full scan\<close>

lemma contains_str_iff: "contains_str needle t \<longleftrightarrow> (\<exists>a b. t = a @ needle @ b)"
proof (induction t)
  case (Cons c cs)
  have "take (length needle) (c # cs) = needle \<longleftrightarrow> (\<exists>b. c # cs = needle @ b)"
    by (metis append_eq_conv_conj append_take_drop_id)
  moreover have "(\<exists>a b. c # cs = a @ needle @ b) \<longleftrightarrow> (\<exists>b. c # cs = needle @ b) \<or> (\<exists>a b. cs = a @ needle @ b)"
    by (metis append_Cons append_Nil list.exhaust list.inject)
  ultimately show ?case using Cons.IH by simp
qed simp

lemma as_bytes_append [simp]: "as_bytes (a @ b) = as_bytes a @ as_bytes b"
  by (simp add: as_bytes_def)

lemma as_bytes_nonempty: "b \<noteq> [] \<Longrightarrow> 0 < length (as_bytes b)"
proof (cases b)
  case (Cons c cs)
  then show ?thesis using utf8_encode_Cons [of c] by (auto simp: as_bytes_def)
qed simp

lemma as_bytes_eq_Nil [simp]: "as_bytes b = [] \<longleftrightarrow> b = []"
  using as_bytes_nonempty [of b] by (auto simp: as_bytes_def)

lemma tail_fitting_suffix: "suffix (tail_fitting m t) t"
  by (induction t) (auto simp: suffix_Cons)

lemma tail_fitting_maximal: "length (as_bytes b) \<le> m \<Longrightarrow> suffix b (tail_fitting m (a @ b))"
proof (induction a)
  case Nil
  then show ?case by (cases b) auto
qed (auto simp: suffix_def)

lemma tail_of_tail: "tail_fitting m (tail_fitting m old @ delta) = tail_fitting m (old @ delta)"
proof (induction old)
  case (Cons c cs)
  show ?case
  proof (cases "length (as_bytes (c # cs)) \<le> m")
    case False
    then have "\<not> length (as_bytes (c # cs @ delta)) \<le> m" by (simp add: as_bytes_def)
    then show ?thesis using False Cons.IH by simp
  qed simp
qed simp

lemma sanitized_tail_of_tail:
  "sanitized_tail_for_needle (sanitized_tail_for_needle old needle @ delta) needle = sanitized_tail_for_needle (old @ delta) needle"
  by (simp add: sanitized_tail_for_needle_def Let_def tail_of_tail)

text \<open>The tail is enough to find a needle that the old text does not hold.\<close>

lemma tail_contains:
  assumes "needle \<noteq> []" "\<not> contains_str needle old"
  shows "contains_str needle (sanitized_tail_for_needle old needle @ delta) \<longleftrightarrow> contains_str needle (old @ delta)"
proof
  assume "contains_str needle (sanitized_tail_for_needle old needle @ delta)"
  moreover obtain p where "old = p @ sanitized_tail_for_needle old needle"
    using tail_fitting_suffix [of "length (as_bytes needle) - 1" old]
    by (cases "length (as_bytes needle) - 1 = 0") (auto simp: sanitized_tail_for_needle_def Let_def suffix_def)
  ultimately show "contains_str needle (old @ delta)" unfolding contains_str_iff by (metis append_assoc)
next
  assume "contains_str needle (old @ delta)"
  then obtain a b where ab: "old @ delta = a @ needle @ b" unfolding contains_str_iff by blast
  show "contains_str needle (sanitized_tail_for_needle old needle @ delta)"
  proof (cases "length old \<le> length a")
    case True
    then obtain a' where "delta = a' @ needle @ b" using ab by (metis append_eq_append_conv_if append_eq_conv_conj drop_append)
    then show ?thesis unfolding contains_str_iff by (metis append_assoc)
  next
    case False
    then obtain n1 where n1: "old = a @ n1" "n1 @ delta = needle @ b"
      using ab by (auto simp: append_eq_append_conv2)
    have "\<not> length needle \<le> length n1"
    proof
      assume "length needle \<le> length n1"
      then obtain r where "n1 = needle @ r" using n1(2) by (metis append_eq_append_conv_if append_eq_conv_conj)
      then show False using assms(2) n1(1) unfolding contains_str_iff by blast
    qed
    then obtain n2 where n2: "needle = n1 @ n2" "n2 \<noteq> []" "delta = n2 @ b"
      using n1(2) by (auto simp: append_eq_append_conv2)
    then have "length (as_bytes n1) \<le> length (as_bytes needle) - 1"
      using as_bytes_nonempty [OF n2(2)] unfolding n2(1) as_bytes_append length_append by linarith
    then have "suffix n1 (sanitized_tail_for_needle old needle)"
      using tail_fitting_maximal [of n1 "length (as_bytes needle) - 1" a] n1(1)
      by (auto simp: sanitized_tail_for_needle_def Let_def)
    then show ?thesis using n2 unfolding contains_str_iff suffix_def by (metis append_assoc)
  qed
qed

section \<open>Where a scan starts\<close>

lemma unat_saturating_sub: "unat (saturating_sub a b) = unat a - unat b"
  by (auto simp: saturating_sub_def unat_sub word_le_nat_alt)


lemma unat_saturating_add: "unat a + unat b < 2 ^ 64 \<Longrightarrow> unat (saturating_add a (b :: u64)) = unat a + unat b"
  by (simp add: saturating_add_def unat_word_ariths)

lemma line_start_concat:
  "line < target \<Longrightarrow> target - line < length (lines_of bs) \<Longrightarrow>
     line_start_from target line index bs = Some (index + length (concat (take (target - line) (lines_of bs))))"
proof (induction bs arbitrary: line index)
  case (Cons b bs)
  show ?case
  proof (cases "b = 0x0a")
    case True
    then show ?thesis
      using Cons.IH [of "Suc line" "Suc index"] Cons.prems by (cases "Suc line = target") (auto simp: take_Cons' Suc_diff_Suc)
  next
    case False
    then obtain l ls where ls: "lines_of bs = l # ls" using Cons.prems by (cases "lines_of bs") auto
    then show ?thesis
      using False Cons.IH [of line "Suc index"] Cons.prems by (auto simp: take_Cons')
  qed
qed simp

lemma ring_byte_index_concat:
  "n < length (lines_of ring) \<Longrightarrow> ring_byte_index_for_line ring n = length (concat (take n (lines_of ring)))"
  using line_start_concat [of 0 n ring 0] by (auto simp: ring_byte_index_for_line_def)

lemma concat_take_drop: "drop (length (concat (take n ls))) (concat ls) = concat (drop n ls)"
  by (metis append_eq_conv_conj append_take_drop_id concat_append)

text \<open>A scan starts where the capture starts.\<close>

lemma capture_start:
  assumes "output_is out s" "length out < 2 ^ 64"
    and S_def: "S = unat (capture_start_total_from_ring (os_ring s) (os_total_bytes s) start)"
  shows "length out - length (os_ring s) \<le> S \<and> S \<le> length out \<and> drop S out = capture_bytes s start None"
proof -
  let ?ring = "os_ring s"
  have ring: "?ring = drop (length out - RING_LIMIT) out" and total: "unat (os_total_bytes s) = length out"
    using assms(1) by (auto simp: output_is_def)
  have len: "length ?ring \<le> length out" using ring by simp
  have suffix: "drop (length out - length ?ring) out = ?ring" using ring by simp
  have unat_len: "unat (of_nat k :: u64) = k" if "k \<le> length out" for k using that assms(2) by (simp add: unat_of_nat)
  have rs: "unat (saturating_sub (os_total_bytes s) (of_nat (length ?ring))) = length out - length ?ring"
    using unat_len [OF len] total by (simp add: unat_saturating_sub)
  show ?thesis
  proof (cases "?ring = []")
    case True
    then show ?thesis using total by (simp add: S_def capture_start_total_from_ring_def capture_ring_range)
  next
    case False
    show ?thesis
    proof (cases start)
      case None
      then show ?thesis using False rs suffix by (simp add: S_def capture_start_total_from_ring_def Let_def capture_bytes_def)
    next
      case (Some l)
      define n where "n = line_at l (length (lines_of ?ring))"
      have idx: "capture_line_index l (ring_line_count ?ring) = n"
        by (simp add: n_def capture_line_index_def line_at_def ring_line_count_lines)
      have cap: "capture_bytes s start None = concat (drop n (lines_of ?ring))"
        using Some by (simp add: capture_ring_range n_def Let_def)
      show ?thesis
      proof (cases "length (lines_of ?ring) \<le> n")
        case True
        then show ?thesis using False Some idx total cap
          by (simp add: S_def capture_start_total_from_ring_def Let_def ring_line_count_lines)
      next
        case inside: False
        let ?i = "length (concat (take n (lines_of ?ring)))"
        have split: "concat (take n (lines_of ?ring)) @ concat (drop n (lines_of ?ring)) = ?ring"
          by (metis append_take_drop_id concat_append concat_lines)
        have i: "?i \<le> length ?ring" using arg_cong [OF split, of length] by simp
        have "ring_byte_index_for_line ?ring n = ?i" using ring_byte_index_concat inside by simp
        then have S: "S = length out - length ?ring + ?i"
          using False Some idx inside rs unat_len [of ?i] i len assms(2)
          by (simp add: S_def capture_start_total_from_ring_def Let_def ring_line_count_lines unat_saturating_add)
        have "drop S out = drop ?i (drop (length out - length ?ring) out)" unfolding S drop_drop by (simp add: add.commute)
        then have "drop S out = drop ?i ?ring" using suffix by simp
        then have "drop S out = capture_bytes s start None" using cap concat_take_drop [of n "lines_of ?ring"] by simp
        moreover have "length out - length ?ring \<le> S" "S \<le> length out" using S i len by linarith+
        ultimately show ?thesis by blast
      qed
    qed
  qed
qed

lemma copy_from_total:
  assumes "output_is out s" "length out < 2 ^ 64" "length out - length (os_ring s) \<le> unat S" "unat S \<le> length out"
  shows "copy_ring_bytes_from_total (os_ring s) (os_total_bytes s) S = drop (unat S) out"
proof -
  let ?ring = "os_ring s"
  have ring: "?ring = drop (length out - RING_LIMIT) out" and total: "unat (os_total_bytes s) = length out"
    using assms(1) by (auto simp: output_is_def)
  have len: "length ?ring \<le> length out" using ring by simp
  have unat_len: "unat (of_nat (length ?ring) :: u64) = length ?ring" using len assms(2) by (simp add: unat_of_nat)
  have rs: "unat (saturating_sub (os_total_bytes s) (of_nat (length ?ring))) = length out - length ?ring"
    using unat_len total by (simp add: unat_saturating_sub)
  have "unat (saturating_sub S (saturating_sub (os_total_bytes s) (of_nat (length ?ring)))) = unat S - (length out - length ?ring)"
    using rs by (simp add: unat_saturating_sub)
  then have "unat (min (saturating_sub S (saturating_sub (os_total_bytes s) (of_nat (length ?ring)))) (of_nat (length ?ring)))
      = unat S - (length out - length ?ring)"
    using unat_len assms(4) len by (auto simp: min_def word_le_nat_alt)
  then have "copy_ring_bytes_from_total ?ring (os_total_bytes s) S = drop (unat S - (length out - length ?ring)) ?ring"
    by (simp add: copy_ring_bytes_from_total_def Let_def)
  also have "\<dots> = drop (unat S - (length out - length ?ring)) (drop (length out - length ?ring) out)" using ring by simp
  also have "\<dots> = drop (unat S) out" unfolding drop_drop using assms(3) by simp
  finally show ?thesis .
qed

abbreviation sanitized :: "u8 list \<Rightarrow> ustring" where
  "sanitized bytes \<equiv> fst (terminal_capture_from_state bytes default_capture_state)"

text \<open>What the scanner remembers: the text from the start it used to the end it has seen does not hold the needle, and its tail and the
  state of the sanitiser are kept.\<close>

definition scan_inv :: "ustring \<Rightarrow> u8 list \<Rightarrow> wait_contains_scanner \<Rightarrow> bool" where
  "scan_inv needle out sc \<longleftrightarrow> ws_initialized sc \<longrightarrow>
     (let T = unat (ws_last_total_bytes sc); S = unat (ws_last_start_total sc); seen = drop S (take T out) in
      T \<le> length out \<and> \<not> contains_str needle (sanitized seen)
      \<and> ws_sanitized_tail sc = sanitized_tail_for_needle (sanitized seen) needle
      \<and> same_view (snd (terminal_capture_from_state seen default_capture_state)) (ws_sanitizer_state sc))"

lemma scan_inv_default: "scan_inv needle out scanner_default"
  by (simp add: scan_inv_def scanner_default_def)

lemma scan_inv_append: "scan_inv needle out sc \<Longrightarrow> scan_inv needle (out @ later) sc"
  by (auto simp: scan_inv_def Let_def)

lemma default_buffer: "length (pending_utf8_buf default_capture_state) = 4"
  by (simp add: default_capture_state_def)

lemma same_view_trans: "same_view a b \<Longrightarrow> same_view b c \<Longrightarrow> same_view a c"
  by (simp add: same_view_def)

lemma contains_from_start_exact:
  assumes "output_is out s" "length out < 2 ^ 64" "needle \<noteq> []" "scan_inv needle out sc"
    "length out - length (os_ring s) \<le> unat S" "unat S \<le> length out"
    "contains_from_start (os_ring s) (os_total_bytes s) start S needle sc = (matched, sc')"
  shows "matched \<longleftrightarrow> contains_str needle (sanitized (drop (unat S) out))" "scan_inv needle out sc'"
proof -
  let ?ring = "os_ring s" and ?T = "os_total_bytes s"
  define rs where "rs = saturating_sub ?T (of_nat (length ?ring))"
  define full where "full \<longleftrightarrow> \<not> ws_initialized sc \<or> ws_last_start sc \<noteq> start \<or> ws_last_start_total sc \<noteq> S
    \<or> ws_last_total_bytes sc < rs \<or> ws_last_total_bytes sc < S \<or> ws_last_total_bytes sc > ?T"
  have total: "unat ?T = length out" and ring: "?ring = drop (length out - RING_LIMIT) out"
    using assms(1) by (auto simp: output_is_def)
  have len: "length ?ring \<le> length out" using ring by simp
  have rs_nat: "unat rs = length out - length ?ring"
    using total len assms(2) by (simp add: rs_def unat_saturating_sub unat_of_nat)
  define seen where "seen = drop (unat S) (take (unat (ws_last_total_bytes sc)) out)"
  define new where "new = drop (unat (ws_last_total_bytes sc)) out"
  define r where "r = (if full then terminal_capture_from_state (drop (unat S) out) default_capture_state
    else (let (delta, state) = terminal_capture_from_state new (ws_sanitizer_state sc) in (ws_sanitized_tail sc @ delta, state)))"
  have delta: "drop (unat (saturating_sub (ws_last_total_bytes sc) rs)) ?ring = new" if "\<not> full"
  proof -
    have "unat rs \<le> unat (ws_last_total_bytes sc)" using that by (simp add: full_def word_less_nat_alt)
    then have "drop (unat (ws_last_total_bytes sc) - unat rs) (drop (unat rs) out) = new" by (simp add: new_def)
    moreover have "drop (unat rs) out = ?ring" using rs_nat ring by simp
    ultimately show ?thesis by (simp add: unat_saturating_sub)
  qed
  have run: "(matched, sc') = (contains_str needle (fst r), if contains_str needle (fst r) then sc
      else sc\<lparr>ws_initialized := True, ws_last_total_bytes := ?T, ws_last_start := start, ws_last_start_total := S,
        ws_sanitizer_state := snd r, ws_sanitized_tail := sanitized_tail_for_needle (fst r) needle\<rparr>)"
    using assms(7) [symmetric] delta copy_from_total [OF assms(1,2,5,6)]
    unfolding contains_from_start_def rs_def [symmetric] Let_def full_def [symmetric] r_def
    by (auto simp: split_beta)
  have key: "(contains_str needle (fst r) \<longleftrightarrow> contains_str needle (sanitized (drop (unat S) out)))
    \<and> (\<not> contains_str needle (fst r) \<longrightarrow>
        sanitized_tail_for_needle (fst r) needle = sanitized_tail_for_needle (sanitized (drop (unat S) out)) needle
        \<and> same_view (snd (terminal_capture_from_state (drop (unat S) out) default_capture_state)) (snd r))"
  proof (cases full)
    case True
    then show ?thesis using from_state_buffer [OF default_buffer] by (simp add: r_def same_view_refl)
  next
    case False
    then have known: "unat (ws_last_total_bytes sc) \<le> length out" "\<not> contains_str needle (sanitized seen)"
      "ws_sanitized_tail sc = sanitized_tail_for_needle (sanitized seen) needle"
      "same_view (snd (terminal_capture_from_state seen default_capture_state)) (ws_sanitizer_state sc)"
      and le: "unat S \<le> unat (ws_last_total_bytes sc)"
      using assms(4) by (auto simp: full_def scan_inv_def Let_def seen_def word_less_nat_alt)
    have "drop (unat S) (take (unat (ws_last_total_bytes sc)) out @ drop (unat (ws_last_total_bytes sc)) out) = seen @ new"
      unfolding seen_def new_def drop_append using le known(1) by simp
    then have whole: "drop (unat S) out = seen @ new" by simp
    let ?mid = "snd (terminal_capture_from_state seen default_capture_state)"
    have app: "sanitized (seen @ new) = sanitized seen @ fst (terminal_capture_from_state new ?mid)"
      "same_view (snd (terminal_capture_from_state (seen @ new) default_capture_state)) (snd (terminal_capture_from_state new ?mid))"
      using from_state_append [OF default_buffer, of seen new] by auto
    have view: "fst (terminal_capture_from_state new (ws_sanitizer_state sc)) = fst (terminal_capture_from_state new ?mid)"
      "same_view (snd (terminal_capture_from_state new ?mid)) (snd (terminal_capture_from_state new (ws_sanitizer_state sc)))"
      using from_state_view [OF known(4), of new] by auto
    have "fst r = sanitized_tail_for_needle (sanitized seen) needle @ fst (terminal_capture_from_state new ?mid)"
      "snd r = snd (terminal_capture_from_state new (ws_sanitizer_state sc))"
      using False known(3) view(1) by (simp_all add: r_def split_beta)
    then show ?thesis
      using tail_contains [OF assms(3) known(2)] sanitized_tail_of_tail same_view_trans [OF app(2) view(2)] app(1) whole by simp
  qed
  show "matched \<longleftrightarrow> contains_str needle (sanitized (drop (unat S) out))" using run key by simp
  show "scan_inv needle out sc'"
    using run key assms(4) total by (cases "contains_str needle (fst r)") (auto simp: scan_inv_def Let_def)
qed

lemma scanner_contains_exact:
  assumes "output_is out s" "length out < 2 ^ 64" "needle \<noteq> []" "scan_inv needle out sc" "scanner_contains s start needle sc = (matched, sc')"
  shows "matched \<longleftrightarrow> contains_str needle (sanitized (capture_bytes s start None))" "scan_inv needle out sc'"
proof -
  let ?S = "capture_start_total_from_ring (os_ring s) (os_total_bytes s) start"
  have start: "length out - length (os_ring s) \<le> unat ?S" "unat ?S \<le> length out" "drop (unat ?S) out = capture_bytes s start None"
    using capture_start [OF assms(1,2) refl, of start] by auto
  have run: "contains_from_start (os_ring s) (os_total_bytes s) start ?S needle sc = (matched, sc')"
    using assms(5) by (simp add: scanner_contains_def Let_def)
  note exact = contains_from_start_exact [OF assms(1-4) start(1,2) run]
  show "matched \<longleftrightarrow> contains_str needle (sanitized (capture_bytes s start None))" using exact(1) start(3) by simp
  show "scan_inv needle out sc'" by (rule exact(2))
qed

text \<open>Any interleaving of output and of scans, each from its own start line.\<close>

datatype scan_event = OutputArrives "u8 list" | ScanFrom "int option"

fun scan_event_step :: "ustring \<Rightarrow> scan_event \<Rightarrow> output_state \<times> wait_contains_scanner \<Rightarrow> output_state \<times> wait_contains_scanner" where
  "scan_event_step needle (OutputArrives bytes) (s, sc) = (append_output bytes s, sc)"
| "scan_event_step needle (ScanFrom start) (s, sc) = (s, snd (scanner_contains s start needle sc))"

definition scan_run :: "ustring \<Rightarrow> scan_event list \<Rightarrow> output_state \<times> wait_contains_scanner" where
  "scan_run needle events = fold (scan_event_step needle) events (output_start, scanner_default)"

fun event_output :: "scan_event \<Rightarrow> u8 list" where
  "event_output (OutputArrives bytes) = bytes"
| "event_output (ScanFrom start) = []"

definition output_of :: "scan_event list \<Rightarrow> u8 list" where
  "output_of events = concat (map event_output events)"

lemma scan_run_inv:
  assumes "needle \<noteq> []" "length (output_of events) < 2 ^ 64" "scan_run needle events = (s, sc)"
  shows "output_is (output_of events) s \<and> scan_inv needle (output_of events) sc"
  using assms(2,3)
proof (induction events arbitrary: s sc rule: rev_induct)
  case Nil
  then show ?case by (auto simp: scan_run_def output_of_def output_is_def output_start_def scan_inv_default)
next
  case (snoc e events)
  obtain s0 sc0 where prev: "scan_run needle events = (s0, sc0)" by fastforce
  have step: "scan_event_step needle e (s0, sc0) = (s, sc)" using snoc.prems(2) prev by (simp add: scan_run_def)
  have len: "length (output_of events) < 2 ^ 64" using snoc.prems(1) by (simp add: output_of_def)
  note IH = snoc.IH [OF len prev]
  show ?case
  proof (cases e)
    case (OutputArrives bytes)
    then have "output_of (events @ [e]) = output_of events @ bytes" "s = append_output bytes s0" "sc = sc0"
      using step by (simp_all add: output_of_def)
    then show ?thesis using IH append_output_is [of "output_of events" s0 bytes] scan_inv_append snoc.prems(1) by simp
  next
    case (ScanFrom start)
    then have "output_of (events @ [e]) = output_of events" "s = s0" "sc = snd (scanner_contains s0 start needle sc0)"
      using step by (auto simp: output_of_def)
    then show ?thesis
      using IH scanner_contains_exact(2) [OF _ len assms(1), of s0 sc0 start "fst (scanner_contains s0 start needle sc0)"] by simp
  qed
qed

text \<open>C10. A wait for a text never misses it and never sees it too early: after any interleaving of output and of scans, with escape
  sequences and characters cut anywhere, the incremental scan finds the text exactly when the sanitised capture from
  the start line holds it.\<close>

theorem incremental_scan_exact:
  assumes "needle \<noteq> []" "length (output_of events) < 2 ^ 64" "scan_run needle events = (s, sc)"
  shows "fst (scanner_contains s start needle sc) \<longleftrightarrow>
    contains_str needle (fst (terminal_capture_from_state (capture_bytes s start None) default_capture_state))"
  using scan_run_inv [OF assms]
    scanner_contains_exact(1) [OF _ assms(2,1), of s sc start "fst (scanner_contains s start needle sc)"
      "snd (scanner_contains s start needle sc)"] by simp

theorem incremental_scan_exact_witness:
  "\<exists>s sc. scan_run [0x62] [OutputArrives [0x61], ScanFrom None] = (s, sc)
    \<and> (fst (scanner_contains s None [0x62] sc) \<longleftrightarrow>
       contains_str [0x62] (fst (terminal_capture_from_state (capture_bytes s None None) default_capture_state)))"
proof -
  obtain s sc where run: "scan_run [0x62] [OutputArrives [0x61], ScanFrom None] = (s, sc)" by fastforce
  have "length (output_of [OutputArrives [0x61], ScanFrom None]) < 2 ^ 64" by (simp add: output_of_def)
  from incremental_scan_exact [OF _ this run, of None] run show ?thesis by simp
qed



end
