(* ===== verification/Server_Attach.thy ===== *)
theory Server_Attach
  imports Server_Output
begin

text \<open>
  Attaching clients to a session (\<open>src/src/server.rs\<close>): the tracker of unfinished escape sequences, the detector of the
  alternate screen, the picture of the screen that a client is sent first, the sizes of the clients and of the
  terminal, and the broadcast of output to bounded channels, with the removal of clients that do not keep up.

  The terminal emulator \<open>vt100\<close> is a library, and its operations are a parameter, the record \<open>vt100\<close>; nothing is assumed of it,
  since the daemon catches its panics. The locks of the code make each event of \<open>attach_step\<close> atomic. Time is in
  milliseconds.
\<close>

section \<open>Unfinished escape sequences\<close>

definition MAX_PENDING_ESCAPE_BYTES :: nat where
  "MAX_PENDING_ESCAPE_BYTES = 8192"

datatype terminal_prefix_state = PrefixGround | PrefixEscape | PrefixCsi | PrefixString | PrefixStringEscape

record terminal_prefix_tracker =
  tp_state :: terminal_prefix_state
  tp_pending :: "u8 list"
  tp_utf8_remaining :: u8

definition prefix_tracker_default :: terminal_prefix_tracker where
  "prefix_tracker_default = \<lparr>tp_state = PrefixGround, tp_pending = [], tp_utf8_remaining = 0\<rparr>"

definition prefix_to :: "terminal_prefix_state \<Rightarrow> u8 list \<Rightarrow> terminal_prefix_tracker \<Rightarrow> terminal_prefix_tracker" where
  "prefix_to st pending t = t\<lparr>tp_state := st, tp_pending := pending\<rparr>"

definition prefix_is_utf8_continuation :: "u8 \<Rightarrow> terminal_prefix_tracker \<Rightarrow> bool" where
  "prefix_is_utf8_continuation byte t \<longleftrightarrow> tp_utf8_remaining t > 0 \<and> 0x80 \<le> byte \<and> byte \<le> 0xbf"

definition prefix_update_utf8_state :: "u8 \<Rightarrow> terminal_prefix_tracker \<Rightarrow> terminal_prefix_tracker" where
  "prefix_update_utf8_state byte t =
     (if tp_utf8_remaining t > 0 \<and> 0x80 \<le> byte \<and> byte \<le> 0xbf
      then t\<lparr>tp_utf8_remaining := tp_utf8_remaining t - 1\<rparr>
      else t\<lparr>tp_utf8_remaining :=
        (if 0xc2 \<le> byte \<and> byte \<le> 0xdf then 1
         else if 0xe0 \<le> byte \<and> byte \<le> 0xef then 2
         else if 0xf0 \<le> byte \<and> byte \<le> 0xf4 then 3
         else 0)\<rparr>)"

definition prefix_process_ground :: "u8 \<Rightarrow> bool \<Rightarrow> terminal_prefix_tracker \<Rightarrow> terminal_prefix_tracker" where
  "prefix_process_ground byte raw_c1 t =
     (if byte = 0x1b then prefix_to PrefixEscape [byte] t
      else if (byte = 0x90 \<or> byte = 0x98 \<or> 0x9d \<le> byte \<and> byte \<le> 0x9f) \<and> raw_c1 then prefix_to PrefixString [byte] t
      else if byte = 0x9b \<and> raw_c1 then prefix_to PrefixCsi [byte] t
      else t\<lparr>tp_pending := []\<rparr>)"

definition prefix_process_escape :: "u8 \<Rightarrow> terminal_prefix_tracker \<Rightarrow> terminal_prefix_tracker" where
  "prefix_process_escape byte t =
     (let pending = tp_pending t @ [byte] in
      if byte = 0x5b then prefix_to PrefixCsi pending t
      else if byte = 0x5d \<or> byte = 0x50 \<or> byte = 0x58 \<or> byte = 0x5e \<or> byte = 0x5f then prefix_to PrefixString pending t
      else if byte = 0x1b then prefix_to PrefixEscape [byte] t
      else prefix_to PrefixGround [] t)"

definition prefix_process_csi :: "u8 \<Rightarrow> bool \<Rightarrow> terminal_prefix_tracker \<Rightarrow> terminal_prefix_tracker" where
  "prefix_process_csi byte raw_c1 t =
     (let pending = tp_pending t @ [byte] in
      if byte = 0x18 \<or> byte = 0x1a then prefix_to PrefixGround [] t
      else if byte = 0x9c \<and> raw_c1 then prefix_to PrefixGround [] t
      else if byte = 0x1b then prefix_to PrefixEscape [byte] t
      else if 0x40 \<le> byte \<and> byte \<le> 0x7e then prefix_to PrefixGround [] t
      else t\<lparr>tp_pending := pending\<rparr>)"

definition prefix_process_string :: "u8 \<Rightarrow> bool \<Rightarrow> terminal_prefix_tracker \<Rightarrow> terminal_prefix_tracker" where
  "prefix_process_string byte raw_c1 t =
     (let pending = tp_pending t @ [byte] in
      if byte = 0x07 \<or> byte = 0x18 \<or> byte = 0x1a then prefix_to PrefixGround [] t
      else if byte = 0x9c \<and> raw_c1 then prefix_to PrefixGround [] t
      else if byte = 0x1b then prefix_to PrefixStringEscape pending t
      else t\<lparr>tp_pending := pending\<rparr>)"

definition prefix_process_string_escape :: "u8 \<Rightarrow> bool \<Rightarrow> terminal_prefix_tracker \<Rightarrow> terminal_prefix_tracker" where
  "prefix_process_string_escape byte raw_c1 t =
     (let pending = tp_pending t @ [byte] in
      if byte = 0x5c \<or> byte = 0x18 \<or> byte = 0x1a then prefix_to PrefixGround [] t
      else if byte = 0x9c \<and> raw_c1 then prefix_to PrefixGround [] t
      else if byte = 0x1b then t\<lparr>tp_pending := pending\<rparr>
      else prefix_to PrefixString pending t)"

definition prefix_process_byte :: "u8 \<Rightarrow> terminal_prefix_tracker \<Rightarrow> terminal_prefix_tracker" where
  "prefix_process_byte byte t =
     (let raw_c1 = (\<not> prefix_is_utf8_continuation byte t);
          t1 = (case tp_state t of
              PrefixGround \<Rightarrow> prefix_process_ground byte raw_c1 t
            | PrefixEscape \<Rightarrow> prefix_process_escape byte t
            | PrefixCsi \<Rightarrow> prefix_process_csi byte raw_c1 t
            | PrefixString \<Rightarrow> prefix_process_string byte raw_c1 t
            | PrefixStringEscape \<Rightarrow> prefix_process_string_escape byte raw_c1 t);
          t2 = prefix_update_utf8_state byte t1 in
      if length (tp_pending t2) > MAX_PENDING_ESCAPE_BYTES then prefix_to PrefixGround [] t2 else t2)"

definition prefix_process :: "u8 list \<Rightarrow> terminal_prefix_tracker \<Rightarrow> terminal_prefix_tracker" where
  "prefix_process bytes t = fold prefix_process_byte bytes t"

lemma keep_state: "t\<lparr>tp_pending := pending\<rparr> = prefix_to (tp_state t) pending t"
  by (simp add: prefix_to_def)

text \<open>What a byte inside a sequence does: it ends the sequence, starts another one, or is one more byte of it.\<close>

definition sequence_step :: "u8 \<Rightarrow> terminal_prefix_tracker \<Rightarrow> terminal_prefix_tracker \<Rightarrow> bool" where
  "sequence_step b t u \<longleftrightarrow> u = prefix_to PrefixGround [] t \<or> b = 0x1b \<and> u = prefix_to PrefixEscape [b] t
     \<or> (\<exists>st. st \<noteq> PrefixGround \<and> u = prefix_to st (tp_pending t @ [b]) t)"

lemma sequence_stepI:
  "sequence_step b t (prefix_to PrefixGround [] t)"
  "b = 0x1b \<Longrightarrow> sequence_step b t (prefix_to PrefixEscape [b] t)"
  "st \<noteq> PrefixGround \<Longrightarrow> sequence_step b t (prefix_to st (tp_pending t @ [b]) t)"
  by (auto simp: sequence_step_def)

lemma escape_step: "sequence_step b t (prefix_process_escape b t)"
  unfolding prefix_process_escape_def Let_def by (simp add: sequence_stepI split: if_split)

lemma csi_step: "tp_state t \<noteq> PrefixGround \<Longrightarrow> sequence_step b t (prefix_process_csi b raw t)"
  unfolding prefix_process_csi_def Let_def keep_state by (simp add: sequence_stepI split: if_split)

lemma string_step: "tp_state t \<noteq> PrefixGround \<Longrightarrow> sequence_step b t (prefix_process_string b raw t)"
  unfolding prefix_process_string_def Let_def keep_state by (simp add: sequence_stepI split: if_split)

lemma string_escape_step: "tp_state t \<noteq> PrefixGround \<Longrightarrow> sequence_step b t (prefix_process_string_escape b raw t)"
  unfolding prefix_process_string_escape_def Let_def keep_state by (simp add: sequence_stepI split: if_split)

text \<open>The tracker is what the bytes that it holds make of a new one, or it holds none.\<close>

definition replays :: "terminal_prefix_tracker \<Rightarrow> bool" where
  "replays t \<longleftrightarrow> (tp_pending t = [] \<longleftrightarrow> tp_state t = PrefixGround) \<and>
     length (tp_pending t) \<le> MAX_PENDING_ESCAPE_BYTES \<and>
     (tp_pending t \<noteq> [] \<longrightarrow> prefix_process (tp_pending t) prefix_tracker_default = t)"

lemma prefix_update_fields [simp]:
  "tp_pending (prefix_update_utf8_state b t) = tp_pending t" "tp_state (prefix_update_utf8_state b t) = tp_state t"
  by (simp_all add: prefix_update_utf8_state_def)

lemma prefix_to_fields [simp]: "tp_pending (prefix_to st p t) = p" "tp_state (prefix_to st p t) = st"
  by (simp_all add: prefix_to_def)

lemma default_fields [simp]:
  "tp_pending prefix_tracker_default = []" "tp_state prefix_tracker_default = PrefixGround"
  "tp_utf8_remaining prefix_tracker_default = 0"
  by (simp_all add: prefix_tracker_default_def)

text \<open>A sequence that begins does not depend on what came before.\<close>

lemma begin_escape:
  "prefix_update_utf8_state 0x1b (prefix_to PrefixEscape [0x1b] t)
    = prefix_update_utf8_state 0x1b (prefix_to PrefixEscape [0x1b] prefix_tracker_default)"
  by (simp add: prefix_update_utf8_state_def prefix_to_def)

lemma begin_c1:
  assumes "0x80 \<le> b" "b \<le> 0xbf" "\<not> prefix_is_utf8_continuation b t"
  shows "prefix_update_utf8_state b (prefix_to st [b] t) = prefix_update_utf8_state b (prefix_to st [b] prefix_tracker_default)"
proof -
  have "tp_utf8_remaining t = 0" using assms by (simp add: prefix_is_utf8_continuation_def word_gt_0)
  then show ?thesis using assms by (simp add: prefix_update_utf8_state_def prefix_to_def)
qed

lemma escape_default: "prefix_process_byte 0x1b prefix_tracker_default
    = prefix_update_utf8_state 0x1b (prefix_to PrefixEscape [0x1b] prefix_tracker_default)"
  by (simp add: prefix_process_byte_def prefix_process_ground_def MAX_PENDING_ESCAPE_BYTES_def)

lemma prefix_step_ground:
  fixes b :: u8
  assumes "tp_state t = PrefixGround"
  defines "u \<equiv> prefix_process_byte b t"
  shows "tp_pending u = [] \<and> tp_state u = PrefixGround
    \<or> tp_pending u = [b] \<and> tp_state u \<noteq> PrefixGround \<and> prefix_process_byte b prefix_tracker_default = u"
proof -
  let ?raw = "\<not> prefix_is_utf8_continuation b t"
  have fresh: "\<not> prefix_is_utf8_continuation b prefix_tracker_default" by (simp add: prefix_is_utf8_continuation_def)
  consider "b = 0x1b" | (c1) st where "?raw" "0x80 \<le> b" "b \<le> 0xbf" "st \<noteq> PrefixGround"
      "\<And>s. prefix_process_ground b True s = prefix_to st [b] s"
    | "prefix_process_ground b ?raw t = t\<lparr>tp_pending := []\<rparr>"
  proof (cases "b = 0x1b")
    case no_escape: False
    show thesis
    proof (cases "?raw \<and> (b = 0x90 \<or> b = 0x98 \<or> 0x9d \<le> b \<and> b \<le> 0x9f)")
      case True
      then have "0x80 \<le> b" "b \<le> 0xbf" by (auto simp: word_le_nat_alt)
      with True no_escape that(2) [of PrefixString] show thesis by (auto simp: prefix_process_ground_def)
    next
      case no_string: False
      show thesis
      proof (cases "?raw \<and> b = 0x9b")
        case True
        with no_string that(2) [of PrefixCsi] show thesis by (auto simp: prefix_process_ground_def)
      next
        case False
        with no_string no_escape that(3) show thesis by (auto simp: prefix_process_ground_def)
      qed
    qed
  qed (use that(1) in blast)
  then show ?thesis
  proof cases
    case 1
    then have "u = prefix_process_byte b prefix_tracker_default"
      using assms(1) begin_escape [of t] escape_default
      by (simp add: u_def prefix_process_byte_def prefix_process_ground_def MAX_PENDING_ESCAPE_BYTES_def)
    with 1 escape_default show ?thesis by simp
  next
    case c1
    then have "u = prefix_update_utf8_state b (prefix_to st [b] t)"
      "prefix_process_byte b prefix_tracker_default = prefix_update_utf8_state b (prefix_to st [b] prefix_tracker_default)"
      using assms(1) fresh by (simp_all add: u_def prefix_process_byte_def MAX_PENDING_ESCAPE_BYTES_def)
    with c1 begin_c1 [of b t st] show ?thesis by simp
  next
    case 3
    then show ?thesis using assms(1) by (simp add: u_def prefix_process_byte_def Let_def)
  qed
qed

lemma prefix_step_sequence:
  fixes b :: u8
  assumes "tp_state t \<noteq> PrefixGround" "tp_pending t \<noteq> []"
  defines "u \<equiv> prefix_process_byte b t"
  shows "tp_pending u = [] \<and> tp_state u = PrefixGround
    \<or> tp_pending u = [b] \<and> tp_state u \<noteq> PrefixGround \<and> prefix_process_byte b prefix_tracker_default = u
    \<or> tp_pending u = tp_pending t @ [b] \<and> tp_state u \<noteq> PrefixGround \<and> length (tp_pending u) \<le> MAX_PENDING_ESCAPE_BYTES"
proof -
  let ?raw = "\<not> prefix_is_utf8_continuation b t"
  define t1 where "t1 = (case tp_state t of
      PrefixGround \<Rightarrow> prefix_process_ground b ?raw t
    | PrefixEscape \<Rightarrow> prefix_process_escape b t
    | PrefixCsi \<Rightarrow> prefix_process_csi b ?raw t
    | PrefixString \<Rightarrow> prefix_process_string b ?raw t
    | PrefixStringEscape \<Rightarrow> prefix_process_string_escape b ?raw t)"
  have t1: "sequence_step b t t1"
    using assms(1) by (cases "tp_state t") (simp_all add: t1_def escape_step csi_step string_step string_escape_step)
  have u: "u = (let t2 = prefix_update_utf8_state b t1 in
      if length (tp_pending t2) > MAX_PENDING_ESCAPE_BYTES then prefix_to PrefixGround [] t2 else t2)"
    by (simp add: u_def prefix_process_byte_def Let_def t1_def)
  from t1 consider "t1 = prefix_to PrefixGround [] t" | "b = 0x1b" "t1 = prefix_to PrefixEscape [b] t"
    | st where "st \<noteq> PrefixGround" "t1 = prefix_to st (tp_pending t @ [b]) t"
    unfolding sequence_step_def by blast
  then show ?thesis
  proof cases
    case 1
    then show ?thesis using u by simp
  next
    case 2
    then show ?thesis using u begin_escape [of t] escape_default by (simp add: MAX_PENDING_ESCAPE_BYTES_def)
  next
    case 3
    then show ?thesis using u by (simp add: Let_def)
  qed
qed

lemma prefix_step_pending:
  assumes "replays t"
  shows "tp_pending (prefix_process_byte b t) = [] \<and> tp_state (prefix_process_byte b t) = PrefixGround
    \<or> tp_pending (prefix_process_byte b t) = [b] \<and> tp_state (prefix_process_byte b t) \<noteq> PrefixGround
      \<and> prefix_process_byte b prefix_tracker_default = prefix_process_byte b t
    \<or> tp_pending t \<noteq> [] \<and> tp_pending (prefix_process_byte b t) = tp_pending t @ [b]
      \<and> tp_state (prefix_process_byte b t) \<noteq> PrefixGround
      \<and> length (tp_pending (prefix_process_byte b t)) \<le> MAX_PENDING_ESCAPE_BYTES"
  using assms prefix_step_ground [of t b] prefix_step_sequence [of t b] unfolding replays_def
  by (cases "tp_state t = PrefixGround") blast+

lemma replays_step:
  assumes "replays t"
  shows "replays (prefix_process_byte b t)"
proof -
  let ?u = "prefix_process_byte b t"
  consider (cleared) "tp_pending ?u = []" "tp_state ?u = PrefixGround"
    | (begun) "tp_pending ?u = [b]" "tp_state ?u \<noteq> PrefixGround" "prefix_process_byte b prefix_tracker_default = ?u"
    | (grown) "tp_pending t \<noteq> []" "tp_pending ?u = tp_pending t @ [b]" "tp_state ?u \<noteq> PrefixGround"
        "length (tp_pending ?u) \<le> MAX_PENDING_ESCAPE_BYTES"
    using prefix_step_pending [OF assms, of b] by blast
  then show ?thesis
  proof cases
    case cleared
    then show ?thesis by (simp add: replays_def)
  next
    case begun
    then show ?thesis by (simp add: replays_def prefix_process_def MAX_PENDING_ESCAPE_BYTES_def)
  next
    case grown
    then have "prefix_process (tp_pending t) prefix_tracker_default = t" using assms by (simp add: replays_def)
    with grown show ?thesis by (simp add: replays_def prefix_process_def)
  qed
qed

definition held_suffix :: "u8 list \<Rightarrow> terminal_prefix_tracker \<Rightarrow> bool" where
  "held_suffix out t \<longleftrightarrow> replays t \<and> suffix (tp_pending t) out"

lemma held_suffix_step: "held_suffix out t \<Longrightarrow> held_suffix (out @ [b]) (prefix_process_byte b t)"
  using prefix_step_pending [of t b] replays_step [of t b] by (auto simp: held_suffix_def suffix_def)

lemma held_suffix_process: "held_suffix out t \<Longrightarrow> held_suffix (out @ bytes) (prefix_process bytes t)"
proof (induction bytes arbitrary: out t)
  case Nil
  then show ?case by (simp add: prefix_process_def)
next
  case (Cons b bytes)
  from Cons.IH [OF held_suffix_step [OF Cons.prems]] show ?case by (simp add: prefix_process_def)
qed

lemma held_suffix_default: "held_suffix out prefix_tracker_default"
  by (simp add: held_suffix_def replays_def prefix_tracker_default_def)

lemma prefix_process_append: "prefix_process (a @ b) t = prefix_process b (prefix_process a t)"
  by (simp add: prefix_process_def)

text \<open>C35. The bytes that an attaching client is sent after the picture of the screen are what it has missed of an open escape
  sequence: they are the end of the output, at most 8192 bytes, and none when no sequence is open. When there are any, a
  tracker that starts with them goes through the rest of the output in the same states as one that has seen all of it.
  When there are none, a fresh tracker differs from it at most in the number of continuation bytes that a UTF-8 character
  at the end of the output still lacks, and if none is missing it is in the same state.\<close>

theorem pending_prefix_replays:
  "let t = prefix_process out prefix_tracker_default; held = tp_pending t in
     suffix held out \<and> length held \<le> 8192 \<and> (held = [] \<longleftrightarrow> tp_state t = PrefixGround)
     \<and> (if held = [] then t = prefix_tracker_default\<lparr>tp_utf8_remaining := tp_utf8_remaining t\<rparr>
        else prefix_process (held @ later) prefix_tracker_default = prefix_process (out @ later) prefix_tracker_default)"
  using held_suffix_process [OF held_suffix_default, of "[]" out]
  by (auto simp: Let_def held_suffix_def replays_def prefix_process_append prefix_tracker_default_def MAX_PENDING_ESCAPE_BYTES_def)

section \<open>The alternate screen\<close>

definition should_scan_for_alt_enter :: "u8 list \<Rightarrow> u8 list \<Rightarrow> bool" where
  "should_scan_for_alt_enter bytes pending_control_prefix \<longleftrightarrow>
     0x68 \<in> set bytes \<and> (0x1b \<in> set bytes \<or> 0x9b \<in> set bytes \<or> pending_control_prefix \<noteq> [])"

datatype alt_enter_detector = AltGround | AltEscape | AltCsi "u8 list"

definition detector_from_pending_prefix :: "u8 list \<Rightarrow> alt_enter_detector" where
  "detector_from_pending_prefix held =
     (if take 1 held = [0x9b] then AltCsi (drop 1 held)
      else if take 2 held = [0x1b, 0x5b] then AltCsi (drop 2 held)
      else if held = [0x1b] then AltEscape
      else AltGround)"

fun split_params :: "u8 list \<Rightarrow> u8 list list" where
  "split_params [] = [[]]"
| "split_params (b # bs) =
     (if b = 0x3b then [] # split_params bs
      else (case split_params bs of [] \<Rightarrow> [[b]] | p # ps \<Rightarrow> (b # p) # ps))"

fun is_alt_enter_csi :: "alt_enter_detector \<Rightarrow> bool" where
  "is_alt_enter_csi (AltCsi params) =
     (case params of
        [] \<Rightarrow> False
      | q # private_modes \<Rightarrow> q = 0x3f \<and>
          list_ex (\<lambda>p. p = [0x34, 0x37] \<or> p = [0x31, 0x30, 0x34, 0x37] \<or> p = [0x31, 0x30, 0x34, 0x39]) (split_params private_modes))"
| "is_alt_enter_csi d = False"

fun detector_process :: "u8 \<Rightarrow> alt_enter_detector \<Rightarrow> alt_enter_detector" where
  "detector_process byte AltGround = (if byte = 0x1b then AltEscape else if byte = 0x9b then AltCsi [] else AltGround)"
| "detector_process byte AltEscape =
     (if byte = 0x5b then AltCsi [] else if byte = 0x1b then AltEscape else if byte = 0x9b then AltCsi [] else AltGround)"
| "detector_process byte (AltCsi params) =
     (if byte = 0x1b then AltEscape
      else if 0x40 \<le> byte \<and> byte \<le> 0x7e then AltGround
      else AltCsi (params @ [byte]))"

text \<open>The operations of the terminal emulator \<open>vt100\<close> that the daemon calls. \<open>None\<close> is a panic, which the daemon catches.\<close>

record ('p, 's) vt100 =
  vt_process :: "u8 list \<Rightarrow> 'p \<Rightarrow> 'p option"
  vt_screen :: "'p \<Rightarrow> 's"
  vt_alternate_screen :: "'s \<Rightarrow> bool"
  vt_resize :: "u16 \<Rightarrow> u16 \<Rightarrow> 'p \<Rightarrow> 'p option"
  vt_set_scrollback :: "nat \<Rightarrow> 's \<Rightarrow> 's option"
  vt_set_size :: "u16 \<Rightarrow> u16 \<Rightarrow> 's \<Rightarrow> 's option"
  vt_state_formatted :: "'s \<Rightarrow> u8 list option"

definition in_alternate :: "('p, 's) vt100 \<Rightarrow> 'p \<Rightarrow> bool" where
  "in_alternate vt p = vt_alternate_screen vt (vt_screen vt p)"

fun process_bytewise ::
    "('p, 's) vt100 \<Rightarrow> u8 list \<Rightarrow> alt_enter_detector \<Rightarrow> 'p \<Rightarrow> 's option \<Rightarrow> ('p \<times> 's option) option" where
  "process_bytewise vt [] detector p normal_before_alt = Some (p, normal_before_alt)"
| "process_bytewise vt (byte # bytes) detector p normal_before_alt =
     (let was_alt = in_alternate vt p;
          before_alt_enter = (if \<not> was_alt \<and> byte = 0x68 \<and> is_alt_enter_csi detector then Some (vt_screen vt p) else None) in
      case vt_process vt [byte] p of
        None \<Rightarrow> None
      | Some p' \<Rightarrow>
          process_bytewise vt bytes (detector_process byte detector) p'
            (if \<not> was_alt \<and> in_alternate vt p' then before_alt_enter else normal_before_alt))"

definition process_terminal_screen :: "('p, 's) vt100 \<Rightarrow> u8 list \<Rightarrow> u8 list \<Rightarrow> 'p \<Rightarrow> ('p \<times> 's option) option" where
  "process_terminal_screen vt bytes pending_control_prefix p =
     (let started_alt = in_alternate vt p in
      if \<not> started_alt \<and> should_scan_for_alt_enter bytes pending_control_prefix then
        (case process_bytewise vt bytes (detector_from_pending_prefix pending_control_prefix) p None of
           None \<Rightarrow> None
         | Some (p', normal_before_alt) \<Rightarrow> Some (p', if in_alternate vt p' then normal_before_alt else None))
      else
        (case vt_process vt bytes p of
           None \<Rightarrow> None
         | Some p' \<Rightarrow> Some (p', if started_alt \<and> \<not> in_alternate vt p' then Some (vt_screen vt p') else None)))"

section \<open>Geometry\<close>

definition MAX_TERMINAL_ROWS :: u16 where
  "MAX_TERMINAL_ROWS = 1000"

definition MAX_TERMINAL_COLS :: u16 where
  "MAX_TERMINAL_COLS = 1000"

definition MAX_TERMINAL_CELLS :: u32 where
  "MAX_TERMINAL_CELLS = 200000"

definition MAX_SUBSCRIBERS_PER_SESSION :: nat where
  "MAX_SUBSCRIBERS_PER_SESSION = 32"

definition SUBSCRIBER_QUEUE_LIMIT :: nat where
  "SUBSCRIBER_QUEUE_LIMIT = 256"

definition BACKPRESSURE_SEND_TIMEOUT :: nat where
  "BACKPRESSURE_SEND_TIMEOUT = 100"

datatype attach_error = GeometryZero | GeometryTooLarge | GeometryTooManyCells | TooManySubscribers | SnapshotPushFailed
  | ResizeFailed | NoLongerAttached

definition validate_terminal_geometry :: "u16 \<Rightarrow> u16 \<Rightarrow> attach_error + unit" where
  "validate_terminal_geometry rows cols =
     (if rows = 0 \<or> cols = 0 then Inl GeometryZero
      else if rows > MAX_TERMINAL_ROWS \<or> cols > MAX_TERMINAL_COLS then Inl GeometryTooLarge
      else if (ucast rows :: u32) * ucast cols > MAX_TERMINAL_CELLS then Inl GeometryTooManyCells
      else Inr ())"

definition initial_pty_size :: "u16 option \<Rightarrow> u16 option \<Rightarrow> attach_error + (u16 \<times> u16)" where
  "initial_pty_size rows cols =
     (let rows = (case rows of Some r \<Rightarrow> r | None \<Rightarrow> 24); cols = (case cols of Some c \<Rightarrow> c | None \<Rightarrow> 80) in
      bind_res (validate_terminal_geometry rows cols) (\<lambda>_. Inr (rows, cols)))"

record subscriber =
  sub_id :: u64
  sub_rows :: u16
  sub_cols :: u16

definition clamp_to_smallest_with_candidate :: "subscriber list \<Rightarrow> u16 \<Rightarrow> u16 \<Rightarrow> u16 \<times> u16" where
  "clamp_to_smallest_with_candidate subscribers candidate_rows candidate_cols =
     fold (\<lambda>sub (rows, cols). (min rows (sub_rows sub), min cols (sub_cols sub))) subscribers (candidate_rows, candidate_cols)"

fun clamp_to_smallest :: "subscriber list \<Rightarrow> (u16 \<times> u16) option" where
  "clamp_to_smallest [] = None"
| "clamp_to_smallest (first # subscribers) =
     Some (fold (\<lambda>sub (rows, cols). (min rows (sub_rows sub), min cols (sub_cols sub))) subscribers (sub_rows first, sub_cols first))"

section \<open>The state of a session's output\<close>

text \<open>A bounded channel to the thread that writes to one client. \<open>ch_taken\<close> is what the thread has taken from it so far.\<close>

record channel =
  ch_taken :: "u8 list list"
  ch_queue :: "u8 list list"
  ch_connected :: bool

datatype channel_send_result = SendOk | SendFull | SendDisconnected

definition channel_try_send :: "u8 list \<Rightarrow> channel \<Rightarrow> channel_send_result \<times> channel" where
  "channel_try_send chunk ch =
     (if \<not> ch_connected ch then (SendDisconnected, ch)
      else if length (ch_queue ch) \<ge> SUBSCRIBER_QUEUE_LIMIT then (SendFull, ch)
      else (SendOk, ch\<lparr>ch_queue := ch_queue ch @ [chunk]\<rparr>))"

definition sync_channel :: channel where
  "sync_channel = \<lparr>ch_taken = [], ch_queue = [], ch_connected = True\<rparr>"

text \<open>The fields of \<open>Session\<close> that the locks \<open>output_state\<close> and \<open>geometry_apply\<close> guard. A subscriber's \<open>tx\<close> is the channel under its
  id.\<close>

record ('p, 's) session_output =
  so_output :: output_state
  so_screen :: 'p
  so_normal_screen :: 's
  so_pending :: terminal_prefix_tracker
  so_degraded :: bool
  so_styled_revision :: u64
  so_subscribers :: "subscriber list"
  so_channels :: "u64 \<Rightarrow> channel"
  so_next_subscriber_id :: u64
  so_rows :: u16
  so_cols :: u16

definition degrade :: "('p, 's) session_output \<Rightarrow> ('p, 's) session_output" where
  "degrade s = s\<lparr>so_degraded := True, so_pending := prefix_tracker_default\<rparr>"

definition advance_styled_screen_revision :: "('p, 's) session_output \<Rightarrow> ('p, 's) session_output" where
  "advance_styled_screen_revision s =
     (case checked_add (so_styled_revision s) 1 of
        Some revision \<Rightarrow> s\<lparr>so_styled_revision := revision\<rparr>
      | None \<Rightarrow> degrade s)"

definition update_terminal_snapshot_state :: "('p, 's) vt100 \<Rightarrow> u8 list \<Rightarrow> ('p, 's) session_output \<Rightarrow> ('p, 's) session_output" where
  "update_terminal_snapshot_state vt bytes s =
     (if so_degraded s then s
      else (case process_terminal_screen vt bytes (tp_pending (so_pending s)) (so_screen s) of
          None \<Rightarrow> degrade s
        | Some (p, normal_screen) \<Rightarrow>
            s\<lparr>so_screen := p,
              so_normal_screen := (case normal_screen of Some n \<Rightarrow> n | None \<Rightarrow> so_normal_screen s),
              so_pending := prefix_process bytes (so_pending s)\<rparr>))"

text \<open>The part of \<open>append_output\<close> under \<open>output_state\<close>; what it broadcasts is the list of subscribers it leaves.\<close>

definition append_output_locked :: "('p, 's) vt100 \<Rightarrow> u8 list \<Rightarrow> ('p, 's) session_output \<Rightarrow> ('p, 's) session_output" where
  "append_output_locked vt bytes s =
     (let s1 = s\<lparr>so_output := (so_output s)\<lparr>os_ring := append_ring_bytes (os_ring (so_output s)) bytes\<rparr>\<rparr>;
          s2 = update_terminal_snapshot_state vt bytes s1;
          s3 = (if bytes \<noteq> [] \<and> \<not> so_degraded s2 then advance_styled_screen_revision s2 else s2) in
      s3\<lparr>so_output := mark_output_changed (length bytes) (so_output s3)\<rparr>)"

section \<open>Attaching\<close>

definition formatted_at :: "('p, 's) vt100 \<Rightarrow> u16 \<Rightarrow> u16 \<Rightarrow> 's \<Rightarrow> u8 list option" where
  "formatted_at vt rows cols screen =
     Option.bind (vt_set_scrollback vt 0 screen) (\<lambda>s. Option.bind (vt_set_size vt rows cols s) (vt_state_formatted vt))"

definition ALT_SCREEN_ENTER :: "u8 list" where
  "ALT_SCREEN_ENTER = [0x1b, 0x5b, 0x3f, 0x31, 0x30, 0x34, 0x39, 0x68]"

text \<open>The outer option is a panic.\<close>

definition screen_state_snapshot ::
    "('p, 's) vt100 \<Rightarrow> 'p \<Rightarrow> 's \<Rightarrow> u16 \<Rightarrow> u16 \<Rightarrow> u8 list \<Rightarrow> u8 list option option" where
  "screen_state_snapshot vt parser normal_screen rows cols pending_control_prefix =
     Option.bind
       (if in_alternate vt parser then map_option (\<lambda>f. f @ ALT_SCREEN_ENTER) (formatted_at vt rows cols normal_screen)
        else Some [])
       (\<lambda>normal. Option.bind (formatted_at vt rows cols (vt_screen vt parser))
         (\<lambda>current. let snapshot = normal @ current @ pending_control_prefix in
           Some (if snapshot = [] then None else Some snapshot)))"

definition initial_screen_state_snapshot ::
    "('p, 's) vt100 \<Rightarrow> u16 \<Rightarrow> u16 \<Rightarrow> ('p, 's) session_output \<Rightarrow> u8 list option \<times> ('p, 's) session_output" where
  "initial_screen_state_snapshot vt rows cols s =
     (if so_degraded s then (None, s)
      else (case screen_state_snapshot vt (so_screen s) (so_normal_screen s) rows cols (tp_pending (so_pending s)) of
          Some chunk \<Rightarrow> (chunk, s)
        | None \<Rightarrow> (None, degrade s)))"

definition resize_terminal_screen :: "('p, 's) vt100 \<Rightarrow> u16 \<Rightarrow> u16 \<Rightarrow> ('p, 's) session_output \<Rightarrow> ('p, 's) session_output" where
  "resize_terminal_screen vt rows cols s =
     (if so_degraded s then s
      else (case vt_resize vt rows cols (so_screen s) of
          None \<Rightarrow> degrade s
        | Some p \<Rightarrow> advance_styled_screen_revision (s\<lparr>so_screen := p\<rparr>)))"

text \<open>\<open>ok\<close> is whether the kernel resizes the PTY.\<close>

definition apply_pty_size ::
    "('p, 's) vt100 \<Rightarrow> bool \<Rightarrow> u16 \<Rightarrow> u16 \<Rightarrow> ('p, 's) session_output \<Rightarrow> attach_error option \<times> ('p, 's) session_output" where
  "apply_pty_size vt ok rows cols s =
     (if \<not> ok then (Some ResizeFailed, s)
      else (None, resize_terminal_screen vt rows cols (s\<lparr>so_rows := rows, so_cols := cols\<rparr>)))"

definition apply_clamped_pty_size ::
    "('p, 's) vt100 \<Rightarrow> bool \<Rightarrow> ('p, 's) session_output \<Rightarrow> attach_error option \<times> ('p, 's) session_output" where
  "apply_clamped_pty_size vt ok s =
     (case clamp_to_smallest (so_subscribers s) of
        None \<Rightarrow> (None, s)
      | Some (rows, cols) \<Rightarrow>
          if (so_rows s, so_cols s) = (rows, cols) then (None, s) else apply_pty_size vt ok rows cols s)"

definition remove_subscriber :: "u64 \<Rightarrow> ('p, 's) session_output \<Rightarrow> ('p, 's) session_output" where
  "remove_subscriber i s = s\<lparr>so_subscribers := filter (\<lambda>sub. sub_id sub \<noteq> i) (so_subscribers s)\<rparr>"

definition subscribe_locked ::
    "u16 \<Rightarrow> u16 \<Rightarrow> u8 list option \<Rightarrow> ('p, 's) session_output \<Rightarrow> (attach_error + u64) \<times> ('p, 's) session_output" where
  "subscribe_locked rows cols initial_chunk s =
     (let i = so_next_subscriber_id s; s = s\<lparr>so_next_subscriber_id := i + 1\<rparr> in
      if length (so_subscribers s) \<ge> MAX_SUBSCRIBERS_PER_SESSION then (Inl TooManySubscribers, s)
      else let s = s\<lparr>so_subscribers := so_subscribers s @ [\<lparr>sub_id = i, sub_rows = rows, sub_cols = cols\<rparr>],
                     so_channels := (so_channels s)(i := sync_channel)\<rparr> in
        case initial_chunk of
          None \<Rightarrow> (Inr i, s)
        | Some chunk \<Rightarrow>
            (case channel_try_send chunk (so_channels s i) of
               (SendOk, ch) \<Rightarrow> (Inr i, s\<lparr>so_channels := (so_channels s)(i := ch)\<rparr>)
             | (_, ch) \<Rightarrow> (Inl SnapshotPushFailed, remove_subscriber i s)))"

definition subscribe_with_snapshot_and_apply_clamp ::
    "('p, 's) vt100 \<Rightarrow> bool \<Rightarrow> u16 \<Rightarrow> u16 \<Rightarrow> ('p, 's) session_output \<Rightarrow> (attach_error + u64) \<times> ('p, 's) session_output" where
  "subscribe_with_snapshot_and_apply_clamp vt ok rows cols s =
     (case validate_terminal_geometry rows cols of
        Inl e \<Rightarrow> (Inl e, s)
      | Inr _ \<Rightarrow>
          let (initial_chunk, s1) =
                (if os_ring (so_output s) \<noteq> [] then
                   (case clamp_to_smallest_with_candidate (so_subscribers s) rows cols of
                      (snapshot_rows, snapshot_cols) \<Rightarrow> initial_screen_state_snapshot vt snapshot_rows snapshot_cols s)
                 else (None, s)) in
          case subscribe_locked rows cols initial_chunk s1 of
            (Inl e, s2) \<Rightarrow> (Inl e, s2)
          | (Inr i, s2) \<Rightarrow>
              (case apply_clamped_pty_size vt ok s2 of
                 (Some e, s3) \<Rightarrow> (Inl e, remove_subscriber i s3)
               | (None, s3) \<Rightarrow> (Inr i, s3)))"

text \<open>\<open>unsubscribe\<close> takes \<open>output_state\<close> twice: once to remove the subscriber, once for the size.\<close>

definition unsubscribe :: "('p, 's) vt100 \<Rightarrow> bool \<Rightarrow> u64 \<Rightarrow> ('p, 's) session_output \<Rightarrow> ('p, 's) session_output" where
  "unsubscribe vt ok i s = snd (apply_clamped_pty_size vt ok (remove_subscriber i s))"

definition close_subscribers :: "('p, 's) session_output \<Rightarrow> ('p, 's) session_output" where
  "close_subscribers s = s\<lparr>so_subscribers := []\<rparr>"

definition set_subscriber_size :: "u64 \<Rightarrow> u16 \<Rightarrow> u16 \<Rightarrow> subscriber list \<Rightarrow> subscriber list option" where
  "set_subscriber_size i rows cols subs =
     (case position (\<lambda>sub. sub_id sub = i) subs of
        None \<Rightarrow> None
      | Some n \<Rightarrow> Some (subs[n := (subs ! n)\<lparr>sub_rows := rows, sub_cols := cols\<rparr>]))"

text \<open>\<open>Request::Resize\<close> in \<open>handle_request\<close>.\<close>

definition handle_resize ::
    "('p, 's) vt100 \<Rightarrow> bool \<Rightarrow> u16 \<Rightarrow> u16 \<Rightarrow> u64 option \<Rightarrow> ('p, 's) session_output \<Rightarrow> attach_error option \<times> ('p, 's) session_output" where
  "handle_resize vt ok rows cols subscriber_id s =
     (case validate_terminal_geometry rows cols of
        Inl e \<Rightarrow> (Some e, s)
      | Inr _ \<Rightarrow>
          (case subscriber_id of
             Some i \<Rightarrow>
               (case set_subscriber_size i rows cols (so_subscribers s) of
                  None \<Rightarrow> (Some NoLongerAttached, s)
                | Some subs \<Rightarrow> apply_clamped_pty_size vt ok (s\<lparr>so_subscribers := subs\<rparr>))
           | None \<Rightarrow> apply_pty_size vt ok rows cols s))"

section \<open>Broadcasting\<close>

record broadcast =
  bc_subscribers :: "subscriber list"
  bc_chunk :: "u8 list"
  bc_pending :: "nat list"
  bc_disconnected :: "u64 list"
  bc_deadline :: "nat option"

text \<open>One pass over the subscribers at \<open>idxs\<close>: those whose channel is full stay pending.\<close>

fun broadcast_pass ::
    "subscriber list \<Rightarrow> u8 list \<Rightarrow> nat list \<Rightarrow> (u64 \<Rightarrow> channel) \<Rightarrow> nat list \<times> u64 list \<times> (u64 \<Rightarrow> channel)" where
  "broadcast_pass subs chunk [] channels = ([], [], channels)"
| "broadcast_pass subs chunk (idx # idxs) channels =
     (let i = sub_id (subs ! idx) in
      case channel_try_send chunk (channels i) of
        (SendOk, ch) \<Rightarrow> broadcast_pass subs chunk idxs (channels(i := ch))
      | (SendFull, ch) \<Rightarrow>
          (case broadcast_pass subs chunk idxs channels of (pending, disconnected, channels) \<Rightarrow> (idx # pending, disconnected, channels))
      | (SendDisconnected, ch) \<Rightarrow>
          (case broadcast_pass subs chunk idxs channels of (pending, disconnected, channels) \<Rightarrow> (pending, i # disconnected, channels)))"

definition broadcast_begin :: "subscriber list \<Rightarrow> u8 list \<Rightarrow> broadcast" where
  "broadcast_begin subs chunk =
     \<lparr>bc_subscribers = subs, bc_chunk = chunk, bc_pending = [0..<length subs], bc_disconnected = [], bc_deadline = None\<rparr>"

definition broadcast_try :: "broadcast \<Rightarrow> (u64 \<Rightarrow> channel) \<Rightarrow> broadcast \<times> (u64 \<Rightarrow> channel)" where
  "broadcast_try bc channels =
     (case broadcast_pass (bc_subscribers bc) (bc_chunk bc) (bc_pending bc) channels of
        (pending, disconnected, channels) \<Rightarrow>
          (bc\<lparr>bc_pending := pending, bc_disconnected := bc_disconnected bc @ disconnected\<rparr>, channels))"

text \<open>The first pass, after which the deadline of all of them is set.\<close>

definition broadcast_first :: "nat \<Rightarrow> broadcast \<Rightarrow> (u64 \<Rightarrow> channel) \<Rightarrow> broadcast \<times> (u64 \<Rightarrow> channel)" where
  "broadcast_first now bc channels =
     (case broadcast_try bc channels of (bc, channels) \<Rightarrow> (bc\<lparr>bc_deadline := Some (now + BACKPRESSURE_SEND_TIMEOUT)\<rparr>, channels))"

definition broadcast_goes_on :: "nat \<Rightarrow> broadcast \<Rightarrow> bool" where
  "broadcast_goes_on now bc \<longleftrightarrow> bc_pending bc \<noteq> [] \<and> is_some_and (bc_deadline bc) (\<lambda>d. now < d)"

definition broadcast_result :: "broadcast \<Rightarrow> u64 list" where
  "broadcast_result bc = bc_disconnected bc @ map (\<lambda>idx. sub_id (bc_subscribers bc ! idx)) (bc_pending bc)"

text \<open>The ids of the subscribers whose \<open>on_evict\<close> is called, and those that stay.\<close>

definition evict_disconnected_subscribers :: "u64 list \<Rightarrow> subscriber list \<Rightarrow> u64 list \<times> subscriber list" where
  "evict_disconnected_subscribers disconnected subs =
     (map sub_id (filter (\<lambda>sub. sub_id sub \<in> set disconnected) subs), filter (\<lambda>sub. sub_id sub \<notin> set disconnected) subs)"

section \<open>A session and its clients\<close>

text \<open>The events of a session, one for each time that its threads hold \<open>output_state\<close>, and one for each pass of a broadcast, which runs
  outside that lock; \<open>broadcast_order\<close> keeps a second broadcast from starting. \<open>am_due\<close> is a history: for each client, the
  picture of the screen when it attached and every chunk that was appended while it was subscribed.\<close>

record ('p, 's) attach_machine =
  am_session :: "('p, 's) session_output"
  am_broadcast :: "broadcast option"
  am_due :: "u64 \<Rightarrow> u8 list list"
  am_evicted :: "u64 list"

datatype attach_event = AppendOutput "u8 list" | FirstPass nat | RetryPass nat | FinishBroadcast nat
  | Subscribe bool u16 u16 | RemoveSubscriber u64 | SetSize u64 u16 u16 | ApplyClamp bool | ForceSize bool u16 u16
  | CloseSubscribers | Take u64 | Disconnect u64

definition attach_snapshot :: "('p, 's) vt100 \<Rightarrow> u16 \<Rightarrow> u16 \<Rightarrow> ('p, 's) session_output \<Rightarrow> u8 list list" where
  "attach_snapshot vt rows cols s =
     (if os_ring (so_output s) = [] then []
      else (case clamp_to_smallest_with_candidate (so_subscribers s) rows cols of (r, c) \<Rightarrow>
        (case fst (initial_screen_state_snapshot vt r c s) of None \<Rightarrow> [] | Some chunk \<Rightarrow> [chunk])))"

definition with_channels :: "broadcast \<times> (u64 \<Rightarrow> channel) \<Rightarrow> ('p, 's) attach_machine \<Rightarrow> ('p, 's) attach_machine" where
  "with_channels r m = m\<lparr>am_broadcast := Some (fst r), am_session := (am_session m)\<lparr>so_channels := snd r\<rparr>\<rparr>"

definition take_chunk :: "channel \<Rightarrow> channel" where
  "take_chunk ch = (case ch_queue ch of [] \<Rightarrow> ch | c # cs \<Rightarrow> ch\<lparr>ch_taken := ch_taken ch @ [c], ch_queue := cs\<rparr>)"

fun attach_step :: "('p, 's) vt100 \<Rightarrow> attach_event \<Rightarrow> ('p, 's) attach_machine \<Rightarrow> ('p, 's) attach_machine option" where
  "attach_step vt (AppendOutput bytes) m =
     (if am_broadcast m \<noteq> None then None
      else let s = append_output_locked vt bytes (am_session m); subs = so_subscribers s in
        Some (if subs = [] then m\<lparr>am_session := s\<rparr>
          else m\<lparr>am_session := s, am_broadcast := Some (broadcast_begin subs bytes),
            am_due := (\<lambda>i. am_due m i @ (if i \<in> sub_id ` set subs then [bytes] else []))\<rparr>))"
| "attach_step vt (FirstPass now) m =
     (case am_broadcast m of
        Some bc \<Rightarrow> if bc_deadline bc = None then Some (with_channels (broadcast_first now bc (so_channels (am_session m))) m) else None
      | None \<Rightarrow> None)"
| "attach_step vt (RetryPass now) m =
     (case am_broadcast m of
        Some bc \<Rightarrow> if broadcast_goes_on now bc then Some (with_channels (broadcast_try bc (so_channels (am_session m))) m) else None
      | None \<Rightarrow> None)"
| "attach_step vt (FinishBroadcast now) m =
     (case am_broadcast m of
        Some bc \<Rightarrow>
          if bc_deadline bc \<noteq> None \<and> \<not> broadcast_goes_on now bc then
            (case evict_disconnected_subscribers (broadcast_result bc) (so_subscribers (am_session m)) of
               (evicted, subs) \<Rightarrow>
                 Some (m\<lparr>am_broadcast := None, am_session := (am_session m)\<lparr>so_subscribers := subs\<rparr>,
                   am_evicted := am_evicted m @ evicted\<rparr>))
          else None
      | None \<Rightarrow> None)"
| "attach_step vt (Subscribe ok rows cols) m =
     (let s = am_session m in
      Some (m\<lparr>am_session := snd (subscribe_with_snapshot_and_apply_clamp vt ok rows cols s),
        am_due := (if is_ok (validate_terminal_geometry rows cols)
          then (am_due m)(so_next_subscriber_id s := attach_snapshot vt rows cols s) else am_due m)\<rparr>))"
| "attach_step vt (RemoveSubscriber i) m = Some (m\<lparr>am_session := remove_subscriber i (am_session m)\<rparr>)"
| "attach_step vt (SetSize i rows cols) m =
     (if is_ok (validate_terminal_geometry rows cols) then
        map_option (\<lambda>subs. m\<lparr>am_session := (am_session m)\<lparr>so_subscribers := subs\<rparr>\<rparr>)
          (set_subscriber_size i rows cols (so_subscribers (am_session m)))
      else None)"
| "attach_step vt (ApplyClamp ok) m = Some (m\<lparr>am_session := snd (apply_clamped_pty_size vt ok (am_session m))\<rparr>)"
| "attach_step vt (ForceSize ok rows cols) m =
     Some (m\<lparr>am_session := snd (handle_resize vt ok rows cols None (am_session m))\<rparr>)"
| "attach_step vt CloseSubscribers m = Some (m\<lparr>am_session := close_subscribers (am_session m)\<rparr>)"
| "attach_step vt (Take i) m =
     (let s = am_session m in
      if i < so_next_subscriber_id s \<and> ch_connected (so_channels s i)
      then Some (m\<lparr>am_session := s\<lparr>so_channels := (so_channels s)(i := take_chunk (so_channels s i))\<rparr>\<rparr>) else None)"
| "attach_step vt (Disconnect i) m =
     (let s = am_session m in
      if i < so_next_subscriber_id s
      then Some (m\<lparr>am_session := s\<lparr>so_channels := (so_channels s)(i := (so_channels s i)\<lparr>ch_connected := False\<rparr>)\<rparr>\<rparr>) else None)"

fun attach_run :: "('p, 's) vt100 \<Rightarrow> attach_event list \<Rightarrow> ('p, 's) attach_machine \<Rightarrow> ('p, 's) attach_machine option" where
  "attach_run vt [] m = Some m"
| "attach_run vt (e # es) m = Option.bind (attach_step vt e m) (attach_run vt es)"

definition attach_start :: "'p \<Rightarrow> 's \<Rightarrow> u16 \<Rightarrow> u16 \<Rightarrow> ('p, 's) attach_machine" where
  "attach_start p n rows cols =
     \<lparr>am_session = \<lparr>so_output = output_start, so_screen = p, so_normal_screen = n, so_pending = prefix_tracker_default,
        so_degraded = False, so_styled_revision = 0, so_subscribers = [], so_channels = (\<lambda>_. sync_channel),
        so_next_subscriber_id = 1, so_rows = rows, so_cols = cols\<rparr>,
      am_broadcast = None, am_due = (\<lambda>_. []), am_evicted = []\<rparr>"

text \<open>The handlers are runs of these events.\<close>

lemma unsubscribe_events:
  "attach_run vt [RemoveSubscriber i, ApplyClamp ok] m = Some (m\<lparr>am_session := unsubscribe vt ok i (am_session m)\<rparr>)"
  by (simp add: unsubscribe_def)

lemma handle_resize_events:
  assumes "set_subscriber_size i rows cols (so_subscribers (am_session m)) = Some subs"
    "is_ok (validate_terminal_geometry rows cols)"
  shows "attach_run vt [SetSize i rows cols, ApplyClamp ok] m
    = Some (m\<lparr>am_session := snd (handle_resize vt ok rows cols (Some i) (am_session m))\<rparr>)"
  using assms by (auto simp: handle_resize_def is_ok_iff)

section \<open>Fields that an operation leaves alone\<close>

text \<open>What of a session the terminal emulator can change: nothing that the clients or the captures depend on.\<close>

definition same_clients :: "('p, 's) session_output \<Rightarrow> ('p, 's) session_output \<Rightarrow> bool" where
  "same_clients s t \<longleftrightarrow> so_output t = so_output s \<and> so_subscribers t = so_subscribers s \<and> so_channels t = so_channels s
     \<and> so_next_subscriber_id t = so_next_subscriber_id s \<and> so_rows t = so_rows s \<and> so_cols t = so_cols s"

lemma same_clients_refl [simp]: "same_clients s s"
  by (simp add: same_clients_def)

lemma same_clients_trans: "same_clients s t \<Longrightarrow> same_clients t u \<Longrightarrow> same_clients s u"
  by (simp add: same_clients_def)

lemma same_degrade [simp]: "same_clients s (degrade s)"
  by (simp add: same_clients_def degrade_def)

lemma same_revision [simp]: "same_clients s (advance_styled_screen_revision s)"
  by (simp add: advance_styled_screen_revision_def same_clients_def degrade_def split: option.split)

lemma same_update: "same_clients s (update_terminal_snapshot_state vt bytes s)"
  by (simp add: update_terminal_snapshot_state_def same_clients_def degrade_def split: option.split)

lemma same_snapshot: "same_clients s (snd (initial_screen_state_snapshot vt rows cols s))"
  by (simp add: initial_screen_state_snapshot_def split: option.split)

lemma same_resize: "same_clients s (resize_terminal_screen vt rows cols s)"
proof -
  have "same_clients s (advance_styled_screen_revision (s\<lparr>so_screen := p\<rparr>))" for p
    by (rule same_clients_trans [OF _ same_revision]) (simp add: same_clients_def)
  then show ?thesis by (simp add: resize_terminal_screen_def split: option.split)
qed

lemma append_locked_fields:
  shows "so_output (append_output_locked vt bytes s) = append_output bytes (so_output s)"
    and "so_subscribers (append_output_locked vt bytes s) = so_subscribers s"
    and "so_channels (append_output_locked vt bytes s) = so_channels s"
    and "so_next_subscriber_id (append_output_locked vt bytes s) = so_next_subscriber_id s"
    and "so_rows (append_output_locked vt bytes s) = so_rows s"
    and "so_cols (append_output_locked vt bytes s) = so_cols s"
proof -
  define s1 where "s1 = s\<lparr>so_output := (so_output s)\<lparr>os_ring := append_ring_bytes (os_ring (so_output s)) bytes\<rparr>\<rparr>"
  define s2 where "s2 = update_terminal_snapshot_state vt bytes s1"
  define s3 where "s3 = (if bytes \<noteq> [] \<and> \<not> so_degraded s2 then advance_styled_screen_revision s2 else s2)"
  have "same_clients s2 s3" by (simp add: s3_def)
  then have same: "same_clients s1 s3" using same_clients_trans same_update unfolding s2_def by blast
  have eq: "append_output_locked vt bytes s = s3\<lparr>so_output := mark_output_changed (length bytes) (so_output s3)\<rparr>"
    by (simp add: append_output_locked_def Let_def s1_def s2_def s3_def)
  show "so_output (append_output_locked vt bytes s) = append_output bytes (so_output s)"
    using same by (simp add: eq same_clients_def s1_def append_output_def)
  show "so_subscribers (append_output_locked vt bytes s) = so_subscribers s"
    "so_channels (append_output_locked vt bytes s) = so_channels s"
    "so_next_subscriber_id (append_output_locked vt bytes s) = so_next_subscriber_id s"
    "so_rows (append_output_locked vt bytes s) = so_rows s"
    "so_cols (append_output_locked vt bytes s) = so_cols s"
    using same by (simp_all add: eq same_clients_def s1_def)
qed

section \<open>Geometry\<close>

definition valid_size :: "u16 \<Rightarrow> u16 \<Rightarrow> bool" where
  "valid_size rows cols \<longleftrightarrow> 0 < unat rows \<and> unat rows \<le> 1000 \<and> 0 < unat cols \<and> unat cols \<le> 1000 \<and> unat rows * unat cols \<le> 200000"

lemma validate_geometry_iff: "is_ok (validate_terminal_geometry rows cols) \<longleftrightarrow> valid_size rows cols"
proof (cases "unat rows \<le> 1000 \<and> unat cols \<le> 1000")
  case True
  then have "unat rows * unat cols \<le> 1000 * 1000" using mult_le_mono by blast
  moreover have "unat (ucast w :: u32) = unat w" for w :: u16
    using unsigned_less [of w, where ?'a = nat] by (simp add: unsigned_ucast_eq take_bit_nat_eq_self)
  ultimately have "unat ((ucast rows :: u32) * ucast cols) = unat rows * unat cols" by (simp add: unat_word_ariths)
  then show ?thesis using True
    by (auto simp: validate_terminal_geometry_def valid_size_def word_less_nat_alt MAX_TERMINAL_ROWS_def MAX_TERMINAL_COLS_def
        MAX_TERMINAL_CELLS_def unat_gt_0)
next
  case False
  then show ?thesis
    by (auto simp: validate_terminal_geometry_def valid_size_def word_less_nat_alt MAX_TERMINAL_ROWS_def MAX_TERMINAL_COLS_def)
qed

lemma fold_min:
  "fold (\<lambda>sub (rows, cols). (min rows (sub_rows sub), min cols (sub_cols sub))) subs (r, c)
    = (Min (insert r (sub_rows ` set subs)), Min (insert c (sub_cols ` set subs)))"
proof (induction subs arbitrary: r c)
  case (Cons sub subs)
  have "Min (insert (min a b) S) = Min (insert a (insert b S))" if "finite S" for a b :: u16 and S
    using that by (cases "S = {}") (simp_all add: min.assoc)
  with Cons show ?case by simp
qed simp

lemma clamp_min: "subs \<noteq> [] \<Longrightarrow> clamp_to_smallest subs = Some (Min (sub_rows ` set subs), Min (sub_cols ` set subs))"
  by (cases subs) (simp_all add: fold_min)

lemma min_valid:
  assumes "subs \<noteq> []" "\<forall>sub\<in>set subs. valid_size (sub_rows sub) (sub_cols sub)"
  shows "valid_size (Min (sub_rows ` set subs)) (Min (sub_cols ` set subs))"
proof -
  have "Min (sub_rows ` set subs) \<in> sub_rows ` set subs" "Min (sub_cols ` set subs) \<in> sub_cols ` set subs"
    using assms(1) by (auto intro!: Min_in)
  then obtain a b where ab: "a \<in> set subs" "Min (sub_rows ` set subs) = sub_rows a" "b \<in> set subs" "Min (sub_cols ` set subs) = sub_cols b"
    by auto
  have "Min (sub_cols ` set subs) \<le> sub_cols a" using ab(1) by (intro Min_le) auto
  then have "unat (sub_rows a) * unat (sub_cols b) \<le> unat (sub_rows a) * unat (sub_cols a)"
    using ab by (intro mult_le_mono) (simp_all add: word_le_nat_alt)
  also have "\<dots> \<le> 200000" using assms(2) ab(1) by (simp add: valid_size_def)
  finally show ?thesis using assms(2) ab by (simp add: valid_size_def)
qed

lemma apply_clamped_size:
  assumes "apply_clamped_pty_size vt ok s = (r, t)"
  shows "so_subscribers t = so_subscribers s" "so_channels t = so_channels s" "so_output t = so_output s"
    "so_next_subscriber_id t = so_next_subscriber_id s"
    "so_rows t = so_rows s \<and> so_cols t = so_cols s \<or>
     so_subscribers s \<noteq> [] \<and> so_rows t = Min (sub_rows ` set (so_subscribers s)) \<and> so_cols t = Min (sub_cols ` set (so_subscribers s))"
    "r = None \<Longrightarrow> so_subscribers s \<noteq> [] \<Longrightarrow>
     so_rows t = Min (sub_rows ` set (so_subscribers s)) \<and> so_cols t = Min (sub_cols ` set (so_subscribers s))"
  using assms same_resize [of "s\<lparr>so_rows := a, so_cols := b\<rparr>" vt a b for a b] clamp_min [of "so_subscribers s"]
  by (cases "so_subscribers s = []"; force simp: apply_clamped_pty_size_def apply_pty_size_def same_clients_def split: if_splits)+

section \<open>What a client receives\<close>

definition ch_stream :: "channel \<Rightarrow> u8 list list" where
  "ch_stream ch = ch_taken ch @ ch_queue ch"

lemma channel_try_send_stream:
  "channel_try_send chunk ch = (r, ch') \<Longrightarrow> ch_stream ch' = ch_stream ch @ (if r = SendOk then [chunk] else []) \<and> (r \<noteq> SendOk \<longrightarrow> ch' = ch)"
  by (auto simp: channel_try_send_def ch_stream_def split: if_splits)

lemma take_chunk_stream [simp]: "ch_stream (take_chunk ch) = ch_stream ch"
  by (simp add: take_chunk_def ch_stream_def split: list.split)

definition idx_id :: "subscriber list \<Rightarrow> nat \<Rightarrow> u64" where
  "idx_id subs idx = sub_id (subs ! idx)"

text \<open>After a pass, exactly those that are neither pending nor disconnected have the chunk.\<close>

lemma broadcast_pass_spec:
  assumes "broadcast_pass subs chunk idxs channels = (pending, disconnected, channels')" "distinct (map (idx_id subs) idxs)"
  shows "set pending \<subseteq> set idxs \<and> distinct (map (idx_id subs) pending) \<and> set disconnected \<subseteq> idx_id subs ` set idxs
    \<and> set disconnected \<inter> idx_id subs ` set pending = {}
    \<and> (\<forall>i. ch_stream (channels' i) = ch_stream (channels i) @
        (if i \<in> idx_id subs ` set idxs \<and> i \<notin> idx_id subs ` set pending \<union> set disconnected then [chunk] else []))
    \<and> (\<forall>i. i \<notin> idx_id subs ` set idxs \<longrightarrow> channels' i = channels i)"
  using assms
proof (induction idxs arbitrary: channels pending disconnected channels')
  case Nil
  then show ?case by simp
next
  case (Cons idx idxs)
  let ?i = "idx_id subs idx"
  have fresh: "?i \<notin> idx_id subs ` set idxs" and dist: "distinct (map (idx_id subs) idxs)" using Cons.prems(2) by auto
  obtain r ch where send: "channel_try_send chunk (channels ?i) = (r, ch)" by fastforce
  note st = channel_try_send_stream [OF send]
  show ?case
  proof (cases r)
    case SendOk
    then have "broadcast_pass subs chunk idxs (channels(?i := ch)) = (pending, disconnected, channels')"
      using Cons.prems(1) send by (simp add: idx_id_def Let_def)
    from Cons.IH [OF this dist] fresh st SendOk show ?thesis by (auto split: if_splits)
  next
    case SendFull
    obtain p d c where rest: "broadcast_pass subs chunk idxs channels = (p, d, c)" by (rule prod_cases3)
    then have "pending = idx # p" "disconnected = d" "channels' = c"
      using Cons.prems(1) send SendFull by (simp_all add: idx_id_def Let_def)
    with Cons.IH [OF rest dist] fresh show ?thesis by (auto split: if_splits)
  next
    case SendDisconnected
    obtain p d c where rest: "broadcast_pass subs chunk idxs channels = (p, d, c)" by (rule prod_cases3)
    then have "pending = p" "disconnected = ?i # d" "channels' = c"
      using Cons.prems(1) send SendDisconnected by (simp_all add: idx_id_def Let_def)
    with Cons.IH [OF rest dist] fresh show ?thesis by (auto split: if_splits)
  qed
qed

lemma broadcast_pass_queues:
  assumes "\<And>i. length (ch_queue (channels i)) \<le> SUBSCRIBER_QUEUE_LIMIT"
  shows "length (ch_queue (snd (snd (broadcast_pass subs chunk idxs channels)) i)) \<le> SUBSCRIBER_QUEUE_LIMIT"
  using assms
proof (induction idxs arbitrary: channels)
  case (Cons idx idxs)
  let ?i = "sub_id (subs ! idx)"
  obtain r ch where send: "channel_try_send chunk (channels ?i) = (r, ch)" by fastforce
  have "length (ch_queue ch) \<le> SUBSCRIBER_QUEUE_LIMIT"
    using Cons.prems [of ?i] send by (auto simp: channel_try_send_def split: if_splits)
  then have "length (ch_queue ((channels(?i := ch)) j)) \<le> SUBSCRIBER_QUEUE_LIMIT" for j using Cons.prems by simp
  from Cons.IH [of "channels(?i := ch)", OF this] Cons.IH [of channels, OF Cons.prems] send show ?case
    by (cases r) (simp_all add: Let_def case_prod_beta fun_upd_def)
qed simp

section \<open>The invariant\<close>

definition clients_inv :: "('p, 's) session_output \<Rightarrow> bool" where
  "clients_inv s \<longleftrightarrow>
     length (so_subscribers s) \<le> MAX_SUBSCRIBERS_PER_SESSION \<and> distinct (map sub_id (so_subscribers s))
     \<and> (\<forall>sub\<in>set (so_subscribers s). sub_id sub < so_next_subscriber_id s \<and> valid_size (sub_rows sub) (sub_cols sub))
     \<and> valid_size (so_rows s) (so_cols s)
     \<and> (\<forall>i. so_next_subscriber_id s \<le> i \<longrightarrow> so_channels s i = sync_channel)
     \<and> (\<forall>i. length (ch_queue (so_channels s i)) \<le> SUBSCRIBER_QUEUE_LIMIT)"

definition broadcast_wf :: "u64 \<Rightarrow> broadcast \<Rightarrow> bool" where
  "broadcast_wf next_id bc \<longleftrightarrow>
     distinct (map (idx_id (bc_subscribers bc)) (bc_pending bc)) \<and> set (bc_pending bc) \<subseteq> {..<length (bc_subscribers bc)}
     \<and> (\<forall>sub\<in>set (bc_subscribers bc). sub_id sub < next_id)
     \<and> set (bc_disconnected bc) \<subseteq> sub_id ` set (bc_subscribers bc)
     \<and> set (bc_disconnected bc) \<inter> idx_id (bc_subscribers bc) ` set (bc_pending bc) = {}"

definition missing :: "('p, 's) attach_machine \<Rightarrow> u64 \<Rightarrow> u8 list list" where
  "missing m i =
     (case am_broadcast m of None \<Rightarrow> [] | Some bc \<Rightarrow> if i \<in> set (broadcast_result bc) then [bc_chunk bc] else [])"

definition live :: "('p, 's) attach_machine \<Rightarrow> u64 set" where
  "live m = sub_id ` set (so_subscribers (am_session m))
     \<union> (case am_broadcast m of None \<Rightarrow> {} | Some bc \<Rightarrow> sub_id ` set (bc_subscribers bc))"

definition delivery_inv :: "('p, 's) attach_machine \<Rightarrow> bool" where
  "delivery_inv m \<longleftrightarrow>
     (\<forall>i\<in>live m. am_due m i = ch_stream (so_channels (am_session m) i) @ missing m i)
     \<and> (\<forall>i. prefix (ch_stream (so_channels (am_session m) i)) (am_due m i))"

definition attach_inv :: "('p, 's) attach_machine \<Rightarrow> bool" where
  "attach_inv m \<longleftrightarrow> clients_inv (am_session m) \<and> delivery_inv m
     \<and> (case am_broadcast m of None \<Rightarrow> True | Some bc \<Rightarrow> broadcast_wf (so_next_subscriber_id (am_session m)) bc)"

lemma broadcast_result_ids: "set (broadcast_result bc) = set (bc_disconnected bc) \<union> idx_id (bc_subscribers bc) ` set (bc_pending bc)"
  by (auto simp: broadcast_result_def idx_id_def)

text \<open>An operation that changes no channel and leaves a part of the subscribers keeps the invariant.\<close>

lemma attach_inv_fewer:
  assumes "attach_inv m" "so_channels s = so_channels (am_session m)"
    "so_next_subscriber_id s = so_next_subscriber_id (am_session m)"
    "set (map sub_id (so_subscribers s)) \<subseteq> sub_id ` set (so_subscribers (am_session m))"
    "distinct (map sub_id (so_subscribers s))" "length (so_subscribers s) \<le> length (so_subscribers (am_session m))"
    "\<forall>sub\<in>set (so_subscribers s). valid_size (sub_rows sub) (sub_cols sub)" "valid_size (so_rows s) (so_cols s)"
  shows "attach_inv (m\<lparr>am_session := s\<rparr>)"
proof -
  let ?m = "m\<lparr>am_session := s\<rparr>"
  have "clients_inv s" using assms by (fastforce simp: attach_inv_def clients_inv_def)
  moreover have "live ?m \<subseteq> live m" using assms(4) by (auto simp: live_def)
  moreover have "missing ?m = missing m" by (simp add: missing_def fun_eq_iff)
  ultimately show ?thesis using assms(1-3) by (auto simp: attach_inv_def delivery_inv_def split: option.splits)
qed

lemma append_keeps:
  assumes "attach_inv m" "attach_step vt (AppendOutput bytes) m = Some m'"
  shows "attach_inv m'"
proof -
  let ?s = "append_output_locked vt bytes (am_session m)"
  note fields = append_locked_fields [of vt bytes "am_session m"]
  have none: "am_broadcast m = None" using assms(2) by (auto split: if_splits)
  have clients: "clients_inv ?s" using assms(1) by (simp add: attach_inv_def clients_inv_def fields)
  show ?thesis
  proof (cases "so_subscribers ?s = []")
    case True
    then have "m' = m\<lparr>am_session := ?s\<rparr>" using assms(2) none by (simp add: Let_def)
    then show ?thesis using assms(1) clients none True by (auto simp: attach_inv_def delivery_inv_def live_def missing_def fields)
  next
    case False
    let ?subs = "so_subscribers (am_session m)" let ?bc = "broadcast_begin ?subs bytes"
    have m': "m' = m\<lparr>am_session := ?s, am_broadcast := Some ?bc,
        am_due := (\<lambda>i. am_due m i @ (if i \<in> sub_id ` set ?subs then [bytes] else []))\<rparr>"
      using assms(2) none False by (simp add: Let_def fields)
    have all: "map (idx_id ?subs) [0..<length ?subs] = map sub_id ?subs"
      by (rule nth_equalityI) (simp_all add: idx_id_def)
    then have ids: "idx_id ?subs ` {0..<length ?subs} = sub_id ` set ?subs"
      by (metis atLeastLessThan_upt image_set)
    have result: "set (broadcast_result ?bc) = sub_id ` set ?subs"
      by (simp add: broadcast_result_ids broadcast_begin_def ids)
    have "broadcast_wf (so_next_subscriber_id (am_session m)) ?bc"
      using assms(1) all by (auto simp: broadcast_wf_def broadcast_begin_def attach_inv_def clients_inv_def)
    moreover have "delivery_inv m'"
      using assms(1) none result
      by (auto simp: attach_inv_def delivery_inv_def live_def missing_def m' fields broadcast_begin_def)
    ultimately show ?thesis using clients by (simp add: attach_inv_def m' fields)
  qed
qed

lemma pass_keeps:
  assumes "attach_inv m" "am_broadcast m = Some bc" "broadcast_try bc (so_channels (am_session m)) = (bc1, channels)"
    "bc' = bc1\<lparr>bc_deadline := d\<rparr>"
  shows "attach_inv (with_channels (bc', channels) m)"
proof -
  let ?subs = "bc_subscribers bc" let ?m = "with_channels (bc', channels) m"
  have wf: "broadcast_wf (so_next_subscriber_id (am_session m)) bc" using assms(1,2) by (simp add: attach_inv_def)
  obtain pending disconnected where pass: "broadcast_pass ?subs (bc_chunk bc) (bc_pending bc) (so_channels (am_session m))
      = (pending, disconnected, channels)" and bc1: "bc1 = bc\<lparr>bc_pending := pending, bc_disconnected := bc_disconnected bc @ disconnected\<rparr>"
    using assms(3) by (auto simp: broadcast_try_def split: prod.splits)
  have "distinct (map (idx_id ?subs) (bc_pending bc))" using wf by (simp add: broadcast_wf_def)
  note spec = broadcast_pass_spec [OF pass this]
  have sub: "idx_id ?subs ` set (bc_pending bc) \<subseteq> sub_id ` set ?subs"
    using wf by (auto simp: broadcast_wf_def idx_id_def)
  have fewer_pending: "set pending \<subseteq> set (bc_pending bc)" "distinct (map (idx_id ?subs) pending)"
    and lost: "set disconnected \<subseteq> idx_id ?subs ` set (bc_pending bc)" "set disconnected \<inter> idx_id ?subs ` set pending = {}"
    using spec by simp_all
  have "idx_id ?subs ` set pending \<subseteq> idx_id ?subs ` set (bc_pending bc)" using fewer_pending(1) by (rule image_mono)
  moreover have "set (bc_disconnected bc) \<inter> idx_id ?subs ` set (bc_pending bc) = {}" using wf by (simp add: broadcast_wf_def)
  ultimately have "(set (bc_disconnected bc) \<union> set disconnected) \<inter> idx_id ?subs ` set pending = {}" using lost(2) by blast
  then have wf': "broadcast_wf (so_next_subscriber_id (am_session m)) bc'"
    using wf fewer_pending order_trans [OF lost(1) sub] order_trans [OF fewer_pending(1)]
    by (simp add: assms(4) bc1 broadcast_wf_def)
  have old: "\<And>i. so_next_subscriber_id (am_session m) \<le> i \<Longrightarrow> i \<notin> idx_id ?subs ` set (bc_pending bc)"
    using sub wf by (fastforce simp: broadcast_wf_def)
  have "length (ch_queue (channels i)) \<le> SUBSCRIBER_QUEUE_LIMIT" for i
    using broadcast_pass_queues [of "so_channels (am_session m)" ?subs "bc_chunk bc" "bc_pending bc" i] assms(1) pass
    by (simp add: attach_inv_def clients_inv_def)
  then have clients: "clients_inv (am_session ?m)"
    using assms(1) old spec by (auto simp: attach_inv_def clients_inv_def with_channels_def)
  have stream: "ch_stream (channels i) = ch_stream (so_channels (am_session m) i) @
      (if i \<in> set (broadcast_result bc) \<and> i \<notin> set (broadcast_result bc') then [bc_chunk bc] else [])" for i
    using spec wf by (auto simp: broadcast_result_ids assms(4) bc1 broadcast_wf_def)
  have fewer: "set (broadcast_result bc') \<subseteq> set (broadcast_result bc)"
    using spec by (auto simp: broadcast_result_ids assms(4) bc1)
  have "live ?m = live m" using assms(2) by (simp add: live_def with_channels_def assms(4) bc1)
  moreover have inv: "delivery_inv m" using assms(1) by (simp add: attach_inv_def)
  have "ch_stream (channels i) @ missing ?m i = ch_stream (so_channels (am_session m) i) @ missing m i" for i
    using stream [of i] fewer assms(2) by (auto simp: missing_def with_channels_def assms(4) bc1)
  moreover have "prefix (ch_stream (channels i)) (am_due m i)" for i
  proof (cases "i \<in> set (broadcast_result bc)")
    case True
    then have "i \<in> live m" using wf sub assms(2) by (auto simp: live_def broadcast_result_ids broadcast_wf_def)
    then have "am_due m i = ch_stream (so_channels (am_session m) i) @ [bc_chunk bc]"
      using inv True assms(2) by (simp add: delivery_inv_def missing_def)
    then show ?thesis using stream [of i] by (simp split: if_splits)
  next
    case False
    then show ?thesis using inv stream [of i] by (simp add: delivery_inv_def)
  qed
  ultimately have "delivery_inv ?m" using inv by (simp add: delivery_inv_def with_channels_def)
  with clients wf' show ?thesis by (simp add: attach_inv_def with_channels_def)
qed

lemma finish_keeps:
  assumes "attach_inv m" "attach_step vt (FinishBroadcast now) m = Some m'"
  shows "attach_inv m'"
proof -
  obtain bc where bc: "am_broadcast m = Some bc" using assms(2) by (cases "am_broadcast m") auto
  let ?s = "am_session m"
  have m': "m' = m\<lparr>am_broadcast := None, am_session := ?s\<lparr>so_subscribers :=
        filter (\<lambda>sub. sub_id sub \<notin> set (broadcast_result bc)) (so_subscribers ?s)\<rparr>,
      am_evicted := am_evicted m @ map sub_id (filter (\<lambda>sub. sub_id sub \<in> set (broadcast_result bc)) (so_subscribers ?s))\<rparr>"
    using assms(2) bc by (auto simp: evict_disconnected_subscribers_def split: if_splits)
  have "clients_inv (am_session m')"
    using assms(1)
    by (auto simp: attach_inv_def clients_inv_def m' distinct_map_filter intro: order_trans [OF length_filter_le])
  moreover have "delivery_inv m'"
    using assms(1) bc by (auto simp: attach_inv_def delivery_inv_def live_def missing_def m')
  ultimately show ?thesis by (simp add: attach_inv_def m')
qed

lemma snapshot_chunk_stream:
  "channel_try_send chunk sync_channel = (SendOk, sync_channel\<lparr>ch_queue := [chunk]\<rparr>)"
  by (simp add: channel_try_send_def sync_channel_def SUBSCRIBER_QUEUE_LIMIT_def)

text \<open>What an attempt to attach with a valid size does: the id is used up, and either nothing else that concerns the other clients changed,
  or the client is subscribed with the picture of the screen in its channel.\<close>

lemma subscribe_shape:
  assumes "subscribe_with_snapshot_and_apply_clamp vt ok rows cols s = (r, t)" "valid_size rows cols"
  defines "i \<equiv> so_next_subscriber_id s" and "picture \<equiv> attach_snapshot vt rows cols s"
  shows "so_next_subscriber_id t = i + 1" "so_output t = so_output s"
    "\<exists>ch. so_channels t = (so_channels s)(i := ch) \<and>
      (ch = so_channels s i \<and> length (so_subscribers s) \<ge> MAX_SUBSCRIBERS_PER_SESSION \<or>
       ch_stream ch = picture \<and> length (ch_queue ch) \<le> 1 \<and> length (so_subscribers s) < MAX_SUBSCRIBERS_PER_SESSION)"
    "so_subscribers t = filter (\<lambda>sub. sub_id sub \<noteq> i) (so_subscribers s) \<or> so_subscribers t = so_subscribers s
     \<or> so_subscribers t = so_subscribers s @ [\<lparr>sub_id = i, sub_rows = rows, sub_cols = cols\<rparr>]
       \<and> length (so_subscribers s) < MAX_SUBSCRIBERS_PER_SESSION"
    "so_rows t = so_rows s \<and> so_cols t = so_cols s \<or>
     so_rows t = Min (insert rows (sub_rows ` set (so_subscribers s))) \<and> so_cols t = Min (insert cols (sub_cols ` set (so_subscribers s)))"
    "r = Inr j \<Longrightarrow> j = i \<and> so_subscribers t = so_subscribers s @ [\<lparr>sub_id = i, sub_rows = rows, sub_cols = cols\<rparr>]
      \<and> so_rows t = Min (insert rows (sub_rows ` set (so_subscribers s)))
      \<and> so_cols t = Min (insert cols (sub_cols ` set (so_subscribers s)))"
proof -
  have valid: "validate_terminal_geometry rows cols = Inr ()"
    using assms(2) validate_geometry_iff is_ok_unit by blast
  let ?new = "\<lparr>sub_id = i, sub_rows = rows, sub_cols = cols\<rparr>"
  obtain chunk s1 where s1: "(if os_ring (so_output s) \<noteq> [] then
        (case clamp_to_smallest_with_candidate (so_subscribers s) rows cols of (r, c) \<Rightarrow> initial_screen_state_snapshot vt r c s)
      else (None, s)) = (chunk, s1)" by fastforce
  have same: "same_clients s s1"
    using s1 same_snapshot [of s vt] by (auto split: if_splits prod.splits) (metis snd_conv)
  have picture: "picture = (case chunk of None \<Rightarrow> [] | Some c \<Rightarrow> [c])"
    using s1 by (auto simp: picture_def attach_snapshot_def split: if_splits prod.splits option.splits)
  define s2 where "s2 = s1\<lparr>so_next_subscriber_id := i + 1, so_subscribers := so_subscribers s @ [?new],
      so_channels := (so_channels s)(i := sync_channel\<lparr>ch_queue := picture\<rparr>)\<rparr>"
  have base: "so_next_subscriber_id s1 = i" "so_output s1 = so_output s" "so_subscribers s1 = so_subscribers s" "so_channels s1 = so_channels s"
    "so_rows s1 = so_rows s" "so_cols s1 = so_cols s"
    using same by (simp_all add: same_clients_def i_def)
  consider (full) "length (so_subscribers s) \<ge> MAX_SUBSCRIBERS_PER_SESSION" "r = Inl TooManySubscribers" "t = s1\<lparr>so_next_subscriber_id := i + 1\<rparr>"
    | (clamped) e s3 where "length (so_subscribers s) < MAX_SUBSCRIBERS_PER_SESSION" "apply_clamped_pty_size vt ok s2 = (e, s3)"
        "(case e of Some e \<Rightarrow> (Inl e, remove_subscriber i s3) | None \<Rightarrow> (Inr i, s3)) = (r, t)"
  proof (cases "length (so_subscribers s) \<ge> MAX_SUBSCRIBERS_PER_SESSION")
    case True
    then have "subscribe_locked rows cols chunk s1 = (Inl TooManySubscribers, s1\<lparr>so_next_subscriber_id := i + 1\<rparr>)"
      by (simp add: subscribe_locked_def base Let_def)
    then show thesis using assms(1) that(1) [OF True] by (simp add: subscribe_with_snapshot_and_apply_clamp_def valid s1)
  next
    case False
    then have locked: "subscribe_locked rows cols chunk s1 = (Inr i, s2)"
      using picture by (cases chunk) (simp_all add: subscribe_locked_def base Let_def s2_def snapshot_chunk_stream, simp_all add: sync_channel_def)
    obtain e s3 where "apply_clamped_pty_size vt ok s2 = (e, s3)" by fastforce
    with False assms(1) locked show thesis
      by (intro that(2) [of e s3]) (auto simp: subscribe_with_snapshot_and_apply_clamp_def valid s1 split: option.splits)
  qed
  note shape = this
  have s2: "so_subscribers s2 = so_subscribers s @ [?new]" "so_next_subscriber_id s2 = i + 1" "so_output s2 = so_output s"
      "so_channels s2 = (so_channels s)(i := sync_channel\<lparr>ch_queue := picture\<rparr>)" "so_rows s2 = so_rows s" "so_cols s2 = so_cols s"
    by (simp_all add: s2_def base)
  have pic: "ch_stream (sync_channel\<lparr>ch_queue := picture\<rparr>) = picture" "length picture \<le> 1"
    by (simp_all add: ch_stream_def sync_channel_def picture split: option.split)
  have "so_next_subscriber_id t = i + 1 \<and> so_output t = so_output s"
    using shape
  proof cases
    case full
    then show ?thesis by (simp add: base)
  next
    case clamped
    then show ?thesis using apply_clamped_size(3,4) [OF clamped(2)] by (auto simp: remove_subscriber_def s2 split: option.splits)
  qed
  then show "so_next_subscriber_id t = i + 1" "so_output t = so_output s" by simp_all
  show "\<exists>ch. so_channels t = (so_channels s)(i := ch) \<and>
      (ch = so_channels s i \<and> length (so_subscribers s) \<ge> MAX_SUBSCRIBERS_PER_SESSION \<or>
       ch_stream ch = picture \<and> length (ch_queue ch) \<le> 1 \<and> length (so_subscribers s) < MAX_SUBSCRIBERS_PER_SESSION)"
    using shape
  proof cases
    case full
    then show ?thesis by (intro exI [of _ "so_channels s i"]) (simp add: base)
  next
    case clamped
    then have "so_channels t = so_channels s2"
      using apply_clamped_size(2) [OF clamped(2)] by (auto simp: remove_subscriber_def split: option.splits)
    then show ?thesis using clamped(1) pic s2(4) by (intro exI [of _ "sync_channel\<lparr>ch_queue := picture\<rparr>"]) simp
  qed
  show "so_subscribers t = filter (\<lambda>sub. sub_id sub \<noteq> i) (so_subscribers s) \<or> so_subscribers t = so_subscribers s
     \<or> so_subscribers t = so_subscribers s @ [?new] \<and> length (so_subscribers s) < MAX_SUBSCRIBERS_PER_SESSION"
    using shape
  proof cases
    case full
    then show ?thesis by (simp add: base)
  next
    case clamped
    then show ?thesis using apply_clamped_size(1) [OF clamped(2)] by (auto simp: remove_subscriber_def s2 split: option.splits)
  qed
  show "so_rows t = so_rows s \<and> so_cols t = so_cols s \<or>
     so_rows t = Min (insert rows (sub_rows ` set (so_subscribers s))) \<and> so_cols t = Min (insert cols (sub_cols ` set (so_subscribers s)))"
    using shape
  proof cases
    case full
    then show ?thesis by (simp add: base)
  next
    case clamped
    then show ?thesis using apply_clamped_size(5) [OF clamped(2)] by (auto simp: remove_subscriber_def s2 split: option.splits)
  qed
  show "j = i \<and> so_subscribers t = so_subscribers s @ [?new] \<and> so_rows t = Min (insert rows (sub_rows ` set (so_subscribers s)))
      \<and> so_cols t = Min (insert cols (sub_cols ` set (so_subscribers s)))" if "r = Inr j"
    using shape
  proof cases
    case full
    with that show ?thesis by simp
  next
    case clamped
    with that show ?thesis using apply_clamped_size(1,6) [OF clamped(2)] by (auto simp: s2 split: option.splits)
  qed
qed

lemma word_next:
  fixes i :: u64
  assumes "unat i + 1 < 2 ^ 64"
  shows "i < i + 1" "j < i \<Longrightarrow> j < i + 1" "i + 1 \<le> j \<Longrightarrow> i < j" "unat (i + 1) = unat i + 1"
  using assms by (simp_all add: word_le_nat_alt word_less_nat_alt unat_word_ariths)

lemma subscribe_clients:
  assumes "clients_inv s" "subscribe_with_snapshot_and_apply_clamp vt ok rows cols s = (r, t)" "valid_size rows cols"
    "unat (so_next_subscriber_id s) + 1 < 2 ^ 64"
  shows "clients_inv t"
    "so_subscribers t = so_subscribers s \<or>
     so_subscribers t = so_subscribers s @ [\<lparr>sub_id = so_next_subscriber_id s, sub_rows = rows, sub_cols = cols\<rparr>]
     \<and> length (so_subscribers s) < MAX_SUBSCRIBERS_PER_SESSION"
proof -
  let ?i = "so_next_subscriber_id s" let ?new = "\<lparr>sub_id = ?i, sub_rows = rows, sub_cols = cols\<rparr>"
  note shape = subscribe_shape [OF assms(2,3)] and order = word_next [OF assms(4)]
  have fresh: "\<forall>sub\<in>set (so_subscribers s). sub_id sub \<noteq> ?i" using assms(1) by (auto simp: clients_inv_def)
  then have "filter (\<lambda>sub. sub_id sub \<noteq> ?i) (so_subscribers s) = so_subscribers s" by (simp add: filter_id_conv)
  then show subs: "so_subscribers t = so_subscribers s \<or>
      so_subscribers t = so_subscribers s @ [?new] \<and> length (so_subscribers s) < MAX_SUBSCRIBERS_PER_SESSION"
    using shape(4) by auto
  obtain ch where channels: "so_channels t = (so_channels s)(?i := ch)" "ch = so_channels s ?i \<or> length (ch_queue ch) \<le> 1"
    using shape(3) by blast
  have size: "valid_size (so_rows t) (so_cols t)"
    using shape(5) assms(1,3) min_valid [of "?new # so_subscribers s"] by (auto simp: clients_inv_def)
  have members: "\<forall>sub\<in>set (so_subscribers s). sub_id sub < ?i + 1 \<and> valid_size (sub_rows sub) (sub_cols sub)"
    using assms(1) order(2) by (simp add: clients_inv_def)
  have "?i \<notin> sub_id ` set (so_subscribers s)" using fresh by auto
  then have "distinct (map sub_id (so_subscribers t))" using subs assms(1) by (auto simp: clients_inv_def)
  moreover have "length (so_subscribers t) \<le> MAX_SUBSCRIBERS_PER_SESSION" using subs assms(1) by (auto simp: clients_inv_def)
  moreover have "\<forall>sub\<in>set (so_subscribers t). sub_id sub < ?i + 1 \<and> valid_size (sub_rows sub) (sub_cols sub)"
    using subs members order(1) assms(3) by auto
  moreover have "so_channels t j = sync_channel" if "?i + 1 \<le> j" for j
    using assms(1) order(3) [OF that] channels(1) by (simp add: clients_inv_def less_imp_le)
  moreover have "\<forall>j. length (ch_queue (so_channels t j)) \<le> SUBSCRIBER_QUEUE_LIMIT"
    using assms(1) channels by (auto simp: clients_inv_def SUBSCRIBER_QUEUE_LIMIT_def sync_channel_def)
  ultimately show "clients_inv t" using size shape(1) by (simp add: clients_inv_def)
qed

lemma subscribe_keeps:
  assumes "attach_inv m" "attach_step vt (Subscribe ok rows cols) m = Some m'"
    "unat (so_next_subscriber_id (am_session m)) + 1 < 2 ^ 64"
  shows "attach_inv m'"
proof (cases "valid_size rows cols")
  case False
  then obtain e where "validate_terminal_geometry rows cols = Inl e"
    using validate_geometry_iff [of rows cols] by (cases "validate_terminal_geometry rows cols") auto
  then have "m' = m" using assms(2) by (auto simp: subscribe_with_snapshot_and_apply_clamp_def Let_def)
  then show ?thesis using assms(1) by simp
next
  case True
  let ?s = "am_session m" let ?i = "so_next_subscriber_id ?s" let ?picture = "attach_snapshot vt rows cols ?s"
  obtain r t where run: "subscribe_with_snapshot_and_apply_clamp vt ok rows cols ?s = (r, t)" by fastforce
  have m': "m' = m\<lparr>am_session := t, am_due := (am_due m)(?i := ?picture)\<rparr>"
    using assms(2) True run by (auto simp: Let_def validate_geometry_iff)
  have inv: "clients_inv ?s" "delivery_inv m" using assms(1) by (simp_all add: attach_inv_def)
  note shape = subscribe_shape [OF run True] and clients = subscribe_clients [OF inv(1) run True assms(3)]
  obtain ch where channels: "so_channels t = (so_channels ?s)(?i := ch)" and
    ch: "ch = so_channels ?s ?i \<and> length (so_subscribers ?s) \<ge> MAX_SUBSCRIBERS_PER_SESSION \<or> ch_stream ch = ?picture"
    using shape(3) by blast
  have old: "ch_stream (so_channels ?s ?i) = []" using inv(1) by (simp add: clients_inv_def ch_stream_def sync_channel_def)
  have wf: "broadcast_wf (?i + 1) bc \<and> ?i \<notin> sub_id ` set (bc_subscribers bc) \<and> ?i \<notin> set (broadcast_result bc)"
    if "am_broadcast m = Some bc" for bc
  proof -
    have bc: "broadcast_wf ?i bc" using assms(1) that by (simp add: attach_inv_def)
    then have "?i \<notin> sub_id ` set (bc_subscribers bc)" by (auto simp: broadcast_wf_def)
    moreover have "set (broadcast_result bc) \<subseteq> sub_id ` set (bc_subscribers bc)"
      using bc by (auto simp: broadcast_result_ids broadcast_wf_def idx_id_def)
    moreover have "broadcast_wf (?i + 1) bc" using bc word_next(2) [OF assms(3)] by (simp add: broadcast_wf_def)
    ultimately show ?thesis by blast
  qed
  have none: "missing m' ?i = []" using wf by (auto simp: missing_def m' split: option.split)
  have miss: "missing m' = missing m" by (simp add: missing_def m' fun_eq_iff)
  have livem: "live m' \<subseteq> insert ?i (live m)" using clients(2) by (auto simp: live_def m')
  have new: "ch_stream ch = ?picture" if "?i \<in> live m'"
  proof -
    have "?i \<notin> live m" using wf inv(1) by (auto simp: live_def clients_inv_def split: option.split)
    then have "length (so_subscribers ?s) < MAX_SUBSCRIBERS_PER_SESSION"
      using that clients(2) by (auto simp: live_def m')
    then show ?thesis using ch by simp
  qed
  have "prefix (ch_stream ch) ?picture" using ch old by auto
  moreover have "am_due m' i = ch_stream (so_channels (am_session m') i) @ missing m' i" if "i \<in> live m'" for i
    using that livem inv(2) new none by (cases "i = ?i") (auto simp: m' channels delivery_inv_def miss [unfolded m'])
  ultimately have "delivery_inv m'" using inv(2) by (auto simp: delivery_inv_def m' channels)
  then show ?thesis using clients(1) shape(1) wf by (auto simp: attach_inv_def m' split: option.split)
qed

lemma fewer_members:
  assumes "attach_inv m"
  shows "attach_inv (m\<lparr>am_session := (am_session m)\<lparr>so_subscribers := filter p (so_subscribers (am_session m))\<rparr>\<rparr>)"
  by (rule attach_inv_fewer [OF assms]) (use assms in \<open>auto simp: attach_inv_def clients_inv_def distinct_map_filter\<close>)

lemma apply_clamp_keeps:
  assumes "attach_inv m"
  shows "attach_inv (m\<lparr>am_session := snd (apply_clamped_pty_size vt ok (am_session m))\<rparr>)"
proof -
  obtain r t where run: "apply_clamped_pty_size vt ok (am_session m) = (r, t)" by fastforce
  have clients: "clients_inv (am_session m)" using assms by (simp add: attach_inv_def)
  have "valid_size (so_rows t) (so_cols t)"
    using apply_clamped_size(5) [OF run] clients min_valid [of "so_subscribers (am_session m)"] by (auto simp: clients_inv_def)
  then show ?thesis
    using attach_inv_fewer [OF assms, of t] apply_clamped_size(1,2,4) [OF run] clients run by (auto simp: clients_inv_def)
qed

lemma force_size_keeps:
  assumes "attach_inv m"
  shows "attach_inv (m\<lparr>am_session := snd (handle_resize vt ok rows cols None (am_session m))\<rparr>)"
proof -
  let ?s = "am_session m" let ?t = "snd (handle_resize vt ok rows cols None ?s)"
  have same: "same_clients (?s\<lparr>so_rows := rows, so_cols := cols\<rparr>) (resize_terminal_screen vt rows cols (?s\<lparr>so_rows := rows, so_cols := cols\<rparr>))"
    by (rule same_resize)
  have "?t = ?s \<or> valid_size rows cols \<and> same_clients (?s\<lparr>so_rows := rows, so_cols := cols\<rparr>) ?t"
    using same validate_geometry_iff [of rows cols]
    by (auto simp: handle_resize_def apply_pty_size_def split: sum.split)
  then show ?thesis
  proof
    assume "?t = ?s"
    then show ?thesis using assms by simp
  next
    assume "valid_size rows cols \<and> same_clients (?s\<lparr>so_rows := rows, so_cols := cols\<rparr>) ?t"
    then show ?thesis using attach_inv_fewer [OF assms, of ?t] assms
      by (auto simp: same_clients_def attach_inv_def clients_inv_def)
  qed
qed

lemma set_size_keeps:
  assumes "attach_inv m" "set_subscriber_size i rows cols (so_subscribers (am_session m)) = Some subs" "valid_size rows cols"
  shows "attach_inv (m\<lparr>am_session := (am_session m)\<lparr>so_subscribers := subs\<rparr>\<rparr>)"
proof -
  let ?subs = "so_subscribers (am_session m)"
  obtain n where n: "position (\<lambda>sub. sub_id sub = i) ?subs = Some n" "subs = ?subs[n := (?subs ! n)\<lparr>sub_rows := rows, sub_cols := cols\<rparr>]"
    using assms(2) by (auto simp: set_subscriber_size_def split: option.splits)
  have "sub_id ((?subs ! n)\<lparr>sub_rows := rows, sub_cols := cols\<rparr>) = map sub_id ?subs ! n" using position_Some [OF n(1)] by simp
  then have ids: "map sub_id subs = map sub_id ?subs" unfolding n(2) map_update by (simp only: list_update_id)
  have "\<forall>sub\<in>set subs. valid_size (sub_rows sub) (sub_cols sub)"
    using assms(1,3) set_update_subset_insert [of ?subs n] by (fastforce simp: n(2) attach_inv_def clients_inv_def)
  moreover have "length subs = length ?subs" by (simp add: n(2))
  ultimately show ?thesis
    using assms(1) attach_inv_fewer [OF assms(1), of "(am_session m)\<lparr>so_subscribers := subs\<rparr>"] arg_cong [OF ids, of set]
    by (auto simp: ids attach_inv_def clients_inv_def)
qed

lemma channel_keeps:
  assumes "attach_inv m" "i < so_next_subscriber_id (am_session m)"
    "ch_stream ch = ch_stream (so_channels (am_session m) i)" "length (ch_queue ch) \<le> length (ch_queue (so_channels (am_session m) i))"
  shows "attach_inv (m\<lparr>am_session := (am_session m)\<lparr>so_channels := (so_channels (am_session m))(i := ch)\<rparr>\<rparr>)"
proof -
  let ?m = "m\<lparr>am_session := (am_session m)\<lparr>so_channels := (so_channels (am_session m))(i := ch)\<rparr>\<rparr>"
  have "clients_inv (am_session ?m)"
    using assms by (auto simp: attach_inv_def clients_inv_def intro: order_trans)
  moreover have "delivery_inv ?m"
    using assms(1,3) by (auto simp: attach_inv_def delivery_inv_def live_def missing_def)
  ultimately show ?thesis using assms(1) by (simp add: attach_inv_def split: option.split_asm)
qed

lemma next_id_step:
  assumes "attach_step vt e m = Some m'" "unat (so_next_subscriber_id (am_session m)) + 1 < 2 ^ 64"
  shows "unat (so_next_subscriber_id (am_session m')) \<le> unat (so_next_subscriber_id (am_session m)) + 1"
proof (cases e)
  case (Subscribe ok rows cols)
  show ?thesis
  proof (cases "valid_size rows cols")
    case True
    obtain r t where run: "subscribe_with_snapshot_and_apply_clamp vt ok rows cols (am_session m) = (r, t)" by fastforce
    from subscribe_shape(1) [OF run True] show ?thesis
      using assms run word_next(4) [OF assms(2)] by (auto simp: Subscribe Let_def)
  next
    case False
    then obtain err where "validate_terminal_geometry rows cols = Inl err"
      using validate_geometry_iff [of rows cols] by (cases "validate_terminal_geometry rows cols") auto
    then show ?thesis using assms by (auto simp: Subscribe subscribe_with_snapshot_and_apply_clamp_def Let_def)
  qed
next
  case (ApplyClamp ok)
  obtain r t where run: "apply_clamped_pty_size vt ok (am_session m) = (r, t)" by fastforce
  from apply_clamped_size(4) [OF run] show ?thesis using assms run ApplyClamp by auto
next
  case (ForceSize ok rows cols)
  have "so_next_subscriber_id (snd (handle_resize vt ok rows cols None s)) = so_next_subscriber_id s" for s :: "('a, 'b) session_output"
    using same_resize [of "s\<lparr>so_rows := rows, so_cols := cols\<rparr>" vt rows cols]
    by (auto simp: handle_resize_def apply_pty_size_def same_clients_def split: sum.split)
  then show ?thesis using assms ForceSize by auto
qed (use assms in \<open>auto simp: append_locked_fields remove_subscriber_def close_subscribers_def with_channels_def
    evict_disconnected_subscribers_def Let_def split: if_splits option.splits\<close>)

lemma attach_step_keeps:
  assumes "attach_inv m" "attach_step vt e m = Some m'" "unat (so_next_subscriber_id (am_session m)) + 1 < 2 ^ 64"
  shows "attach_inv m'"
proof (cases e)
  case (AppendOutput bytes)
  then show ?thesis using append_keeps assms(1,2) by blast
next
  case (FirstPass now)
  then show ?thesis using assms(1,2) pass_keeps [OF assms(1)]
    by (auto simp: broadcast_first_def split: option.splits if_splits prod.splits)
next
  case (RetryPass now)
  then obtain bc where bc: "am_broadcast m = Some bc" "m' = with_channels (broadcast_try bc (so_channels (am_session m))) m"
    using assms(2) by (auto split: option.splits if_splits)
  obtain bc1 channels where pass: "broadcast_try bc (so_channels (am_session m)) = (bc1, channels)" by fastforce
  then show ?thesis using pass_keeps [OF assms(1) bc(1) pass, of bc1 "bc_deadline bc1"] bc(2) by simp
next
  case (FinishBroadcast now)
  then show ?thesis using finish_keeps assms(1,2) by blast
next
  case (Subscribe ok rows cols)
  then show ?thesis using subscribe_keeps assms by blast
next
  case (RemoveSubscriber i)
  then show ?thesis using fewer_members [OF assms(1)] assms(2) by (auto simp: remove_subscriber_def)
next
  case (SetSize i rows cols)
  then show ?thesis using set_size_keeps [OF assms(1)] assms(2) by (auto simp: validate_geometry_iff split: if_splits)
next
  case (ApplyClamp ok)
  then show ?thesis using apply_clamp_keeps [OF assms(1)] assms(2) by auto
next
  case (ForceSize ok rows cols)
  then show ?thesis using force_size_keeps [OF assms(1)] assms(2) by auto
next
  case CloseSubscribers
  then show ?thesis using fewer_members [OF assms(1), of "\<lambda>_. False"] assms(2) by (auto simp: close_subscribers_def)
next
  case (Take i)
  have "length (ch_queue (take_chunk ch)) \<le> length (ch_queue ch)" for ch by (simp add: take_chunk_def split: list.split)
  then show ?thesis using channel_keeps [OF assms(1), of i] assms(2) Take by (auto simp: Let_def split: if_splits)
next
  case (Disconnect i)
  then show ?thesis using channel_keeps [OF assms(1), of i] assms(2) by (auto simp: Let_def ch_stream_def split: if_splits)
qed

lemma attach_run_keeps:
  assumes "attach_inv m" "attach_run vt events m = Some m'" "unat (so_next_subscriber_id (am_session m)) + length events < 2 ^ 64"
  shows "attach_inv m'"
  using assms
proof (induction events arbitrary: m)
  case (Cons e events)
  then obtain m1 where step: "attach_step vt e m = Some m1" "attach_run vt events m1 = Some m'" by (auto simp: bind_eq_Some_conv)
  have "unat (so_next_subscriber_id (am_session m)) + 1 < 2 ^ 64"
  proof (cases events)
    case Nil
    then show ?thesis using Cons.prems(3) by simp
  next
    case (Cons a list)
    then show ?thesis using Cons.prems(3) by simp
  qed
  then show ?case
    using Cons.IH [OF attach_step_keeps [OF Cons.prems(1) step(1)] step(2)] next_id_step [OF step(1)] Cons.prems(3) by simp
qed simp

lemma attach_start_inv: "valid_size rows cols \<Longrightarrow> attach_inv (attach_start p n rows cols)"
  by (auto simp: attach_inv_def clients_inv_def delivery_inv_def live_def attach_start_def sync_channel_def ch_stream_def)

lemma attach_reachable_inv:
  assumes "initial_pty_size r c = Inr (rows, cols)" "attach_run vt events (attach_start p n rows cols) = Some m" "length events + 1 < 2 ^ 64"
  shows "attach_inv m"
proof -
  have "valid_size rows cols" using assms(1) validate_geometry_iff by (auto simp: initial_pty_size_def Let_def is_ok_unit)
  then show ?thesis using attach_run_keeps [OF attach_start_inv assms(2)] assms(3) by (simp add: attach_start_def)
qed

text \<open>C5. A client never sees a gap in the output: however output, slow clients, attaching, detaching and resizing interleave, and whether
  or not the terminal emulator fails, what a client has been given is the beginning of what is due to it (the picture of the
  screen when it attached, then every chunk since, in order), and between two broadcasts every client that is still
  attached has all of it in its channel; one that does not keep up is removed instead.\<close>

theorem no_output_gaps:
  assumes "initial_pty_size r c = Inr (rows, cols)" "attach_run vt events (attach_start p n rows cols) = Some m" "length events + 1 < 2 ^ 64"
  shows "prefix (ch_taken (so_channels (am_session m) i)) (am_due m i)
    \<and> (am_broadcast m = None \<longrightarrow> i \<in> sub_id ` set (so_subscribers (am_session m)) \<longrightarrow>
        ch_taken (so_channels (am_session m) i) @ ch_queue (so_channels (am_session m) i) = am_due m i)"
proof -
  have inv: "delivery_inv m" using attach_reachable_inv [OF assms] by (simp add: attach_inv_def)
  then have "prefix (ch_stream (so_channels (am_session m) i)) (am_due m i)" by (simp add: delivery_inv_def)
  then have "prefix (ch_taken (so_channels (am_session m) i)) (am_due m i)" unfolding ch_stream_def by (rule append_prefixD)
  then show ?thesis using inv by (auto simp: delivery_inv_def live_def missing_def ch_stream_def)
qed

text \<open>C34. The clients of a session stay within their limits: at most 32 of them, with different ids, each with at most 256 chunks waiting, and
  the size of the terminal, like that of every client, is between 1 and 1000 rows and columns and has at most 200,000 cells.\<close>

theorem attached_clients_bounded:
  assumes "initial_pty_size r c = Inr (rows, cols)" "attach_run vt events (attach_start p n rows cols) = Some m" "length events + 1 < 2 ^ 64"
  shows "length (so_subscribers (am_session m)) \<le> 32 \<and> distinct (map sub_id (so_subscribers (am_session m)))
    \<and> length (ch_queue (so_channels (am_session m) i)) \<le> 256
    \<and> valid_size (so_rows (am_session m)) (so_cols (am_session m))
    \<and> (sub \<in> set (so_subscribers (am_session m)) \<longrightarrow> valid_size (sub_rows sub) (sub_cols sub))"
  using attach_reachable_inv [OF assms]
  by (simp add: attach_inv_def clients_inv_def MAX_SUBSCRIBERS_PER_SESSION_def SUBSCRIBER_QUEUE_LIMIT_def)

text \<open>A terminal emulator that keeps the bytes it was given, for examples.\<close>

definition vt_echo :: "(u8 list, u8 list) vt100" where
  "vt_echo = \<lparr>vt_process = (\<lambda>bytes p. Some (p @ bytes)), vt_screen = (\<lambda>p. p), vt_alternate_screen = (\<lambda>_. False),
     vt_resize = (\<lambda>_ _ p. Some p), vt_set_scrollback = (\<lambda>_ s. Some s), vt_set_size = (\<lambda>_ _ s. Some s),
     vt_state_formatted = (\<lambda>s. Some s)\<rparr>"

definition one_client :: "attach_event list" where
  "one_client = [AppendOutput [0x61], Subscribe True 24 80, AppendOutput [0x62], FirstPass 0, FinishBroadcast 0, Take 1]"

lemma initial_default: "initial_pty_size None None = Inr (24, 80)"
  by (simp add: initial_pty_size_def Let_def validate_terminal_geometry_def MAX_TERMINAL_ROWS_def MAX_TERMINAL_COLS_def MAX_TERMINAL_CELLS_def)

lemma valid_default_size: "validate_terminal_geometry 24 80 = Inr ()"
  by (simp add: validate_terminal_geometry_def MAX_TERMINAL_ROWS_def MAX_TERMINAL_COLS_def MAX_TERMINAL_CELLS_def)

lemmas attach_eval = one_client_def attach_start_def append_output_locked_def append_ring_bytes_def output_start_def RING_LIMIT_def
  update_terminal_snapshot_state_def process_terminal_screen_def in_alternate_def vt_echo_def should_scan_for_alt_enter_def
  prefix_process_def prefix_process_byte_def prefix_process_ground_def prefix_update_utf8_state_def prefix_is_utf8_continuation_def
  prefix_tracker_default_def MAX_PENDING_ESCAPE_BYTES_def advance_styled_screen_revision_def checked_add_def mark_output_changed_def
  subscribe_with_snapshot_and_apply_clamp_def valid_default_size clamp_to_smallest_with_candidate_def initial_screen_state_snapshot_def
  screen_state_snapshot_def formatted_at_def subscribe_locked_def MAX_SUBSCRIBERS_PER_SESSION_def SUBSCRIBER_QUEUE_LIMIT_def
  channel_try_send_def sync_channel_def apply_clamped_pty_size_def attach_snapshot_def broadcast_begin_def broadcast_first_def
  broadcast_try_def with_channels_def broadcast_goes_on_def broadcast_result_def evict_disconnected_subscribers_def take_chunk_def
  BACKPRESSURE_SEND_TIMEOUT_def Let_def

lemma one_client_run:
  "\<exists>m. attach_run vt_echo one_client (attach_start [] [] 24 80) = Some m \<and> am_broadcast m = None
    \<and> sub_id ` set (so_subscribers (am_session m)) = {1} \<and> am_due m 1 = [[0x61], [0x62]]
    \<and> ch_taken (so_channels (am_session m) 1) = [[0x61]] \<and> length one_client = 6"
  by (simp add: attach_eval)

theorem no_output_gaps_witness:
  "\<exists>m. attach_run vt_echo one_client (attach_start [] [] 24 80) = Some m
    \<and> ch_taken (so_channels (am_session m) 1) @ ch_queue (so_channels (am_session m) 1) = [[0x61], [0x62]]"
proof -
  obtain m where m: "attach_run vt_echo one_client (attach_start [] [] 24 80) = Some m" "am_broadcast m = None"
    "sub_id ` set (so_subscribers (am_session m)) = {1}" "am_due m 1 = [[0x61], [0x62]]" "length one_client = 6"
    using one_client_run by blast
  then show ?thesis using no_output_gaps [OF initial_default m(1), of 1] by auto
qed

theorem attached_clients_bounded_witness:
  "\<exists>m. attach_run vt_echo one_client (attach_start [] [] 24 80) = Some m
    \<and> length (so_subscribers (am_session m)) \<le> 32 \<and> valid_size (so_rows (am_session m)) (so_cols (am_session m))"
proof -
  obtain m where m: "attach_run vt_echo one_client (attach_start [] [] 24 80) = Some m" "length one_client = 6"
    using one_client_run by blast
  then show ?thesis using attached_clients_bounded [OF initial_default m(1)] by auto
qed

definition size_clamped :: "('p, 's) session_output \<Rightarrow> bool" where
  "size_clamped s \<longleftrightarrow> so_rows s = Min (sub_rows ` set (so_subscribers s)) \<and> so_cols s = Min (sub_cols ` set (so_subscribers s))"

lemma attach_size:
  assumes "subscribe_with_snapshot_and_apply_clamp vt ok rows cols s = (Inr i, t)"
  shows "size_clamped t \<and> \<lparr>sub_id = i, sub_rows = rows, sub_cols = cols\<rparr> \<in> set (so_subscribers t)"
proof -
  have valid: "valid_size rows cols"
    using assms validate_geometry_iff [of rows cols]
    by (cases "validate_terminal_geometry rows cols") (auto simp: subscribe_with_snapshot_and_apply_clamp_def)
  then show ?thesis using subscribe_shape(6) [OF assms valid refl] by (auto simp: size_clamped_def)
qed

lemma resize_size:
  assumes "handle_resize vt ok rows cols (Some i) s = (None, t)"
  shows "size_clamped t \<and> \<lparr>sub_id = i, sub_rows = rows, sub_cols = cols\<rparr> \<in> set (so_subscribers t)"
proof -
  obtain subs where run: "apply_clamped_pty_size vt ok (s\<lparr>so_subscribers := subs\<rparr>) = (None, t)"
      "set_subscriber_size i rows cols (so_subscribers s) = Some subs"
    using assms by (auto simp: handle_resize_def split: sum.splits option.splits)
  obtain k where k: "position (\<lambda>sub. sub_id sub = i) (so_subscribers s) = Some k"
      "subs = (so_subscribers s)[k := (so_subscribers s ! k)\<lparr>sub_rows := rows, sub_cols := cols\<rparr>]"
    using run(2) by (auto simp: set_subscriber_size_def split: option.splits)
  have at: "k < length (so_subscribers s)" "sub_id (so_subscribers s ! k) = i" using position_Some [OF k(1)] by auto
  have "(so_subscribers s ! k)\<lparr>sub_rows := rows, sub_cols := cols\<rparr> = \<lparr>sub_id = i, sub_rows = rows, sub_cols = cols\<rparr>"
    using at(2) by (cases "so_subscribers s ! k") simp
  then have mem: "\<lparr>sub_id = i, sub_rows = rows, sub_cols = cols\<rparr> \<in> set subs" using at(1) k(2) by (simp add: set_update_memI)
  then have "subs \<noteq> []" by auto
  with mem show ?thesis using apply_clamped_size(1,6) [OF run(1)] by (simp add: size_clamped_def)
qed

lemma detach_size: "so_subscribers (unsubscribe vt True i s) = [] \<or> size_clamped (unsubscribe vt True i s)"
proof -
  obtain e t where run: "apply_clamped_pty_size vt True (remove_subscriber i s) = (e, t)" by fastforce
  have "e = None" using run by (auto simp: apply_clamped_pty_size_def apply_pty_size_def split: option.splits if_splits prod.splits)
  with run show ?thesis using apply_clamped_size(1,6) [OF run] by (auto simp: unsubscribe_def size_clamped_def)
qed

text \<open>The terminal has the size of the smallest client: when attaching or resizing a client succeeds, and when one detaches and others
  are left, its rows are the least of the clients' rows and its columns the least of their columns, with the new
  client among them.\<close>

theorem size_is_smallest_client:
  "(fst (subscribe_with_snapshot_and_apply_clamp vt ok rows cols s) = Inr i \<longrightarrow>
      (let t = snd (subscribe_with_snapshot_and_apply_clamp vt ok rows cols s) in
       size_clamped t \<and> \<lparr>sub_id = i, sub_rows = rows, sub_cols = cols\<rparr> \<in> set (so_subscribers t)))
    \<and> (fst (handle_resize vt ok rows cols (Some i) s) = None \<longrightarrow>
      (let t = snd (handle_resize vt ok rows cols (Some i) s) in
       size_clamped t \<and> \<lparr>sub_id = i, sub_rows = rows, sub_cols = cols\<rparr> \<in> set (so_subscribers t)))
    \<and> (so_subscribers (unsubscribe vt True i s) = [] \<or> size_clamped (unsubscribe vt True i s))"
  using attach_size resize_size detach_size by (metis prod.collapse)

theorem size_is_smallest_client_witness:
  "size_clamped (snd (subscribe_with_snapshot_and_apply_clamp vt_echo True 24 80 (am_session (attach_start [] [] 30 90))))"
proof -
  have "fst (subscribe_with_snapshot_and_apply_clamp vt_echo True 24 80 (am_session (attach_start [] [] 30 90))) = Inr 1"
    by (simp add: attach_eval resize_terminal_screen_def apply_pty_size_def)
  then show ?thesis
    using size_is_smallest_client [of vt_echo True 24 80 "am_session (attach_start [] [] 30 90)" 1] by (simp add: Let_def)
qed

end
