(* ===== verification/Process_Identity.thy ===== *)
theory Process_Identity
  imports Prelude "HOL-Library.Sublist"
begin

text \<open>
  The identity of a process (\<open>src/src/process_identity.rs\<close>, Linux): its id with the time it was started, and its parent, read from one record of
  \<open>/proc/<pid>/stat\<close>. The file is an argument: \<open>read_stat pid\<close> is the text of the file, or \<open>None\<close> when it cannot be read.
\<close>

section \<open>The parser\<close>

record proc_identity =
  pi_pid :: u32
  pi_start_marker :: ustring

record process_snapshot =
  sn_identity :: proc_identity
  sn_parent_pid :: u32

text \<open>\<open>str::split_once\<close> and \<open>str::rsplit_once\<close>.\<close>

fun split_once_str :: "ustring \<Rightarrow> ustring \<Rightarrow> (ustring \<times> ustring) option" where
  "split_once_str d [] = (if d = [] then Some ([], []) else None)"
| "split_once_str d (c # cs) =
     (if starts_with_str d (c # cs) then Some ([], drop (length d) (c # cs))
      else map_option (\<lambda>(before, rest). (c # before, rest)) (split_once_str d cs))"

fun rsplit_once_str :: "ustring \<Rightarrow> ustring \<Rightarrow> (ustring \<times> ustring) option" where
  "rsplit_once_str d [] = (if d = [] then Some ([], []) else None)"
| "rsplit_once_str d (c # cs) =
     (case rsplit_once_str d cs of
        Some (before, rest) \<Rightarrow> Some (c # before, rest)
      | None \<Rightarrow> if starts_with_str d (c # cs) then Some ([], drop (length d) (c # cs)) else None)"

definition parse_linux_process_stat :: "u32 \<Rightarrow> ustring \<Rightarrow> process_snapshot option" where
  "parse_linux_process_stat pid stat =
     Option.bind (split_once_str (lit '' ('') stat) (\<lambda>(reported_pid, rest).
     Option.bind (parse_unsigned (2 ^ 32) reported_pid) (\<lambda>reported.
     if of_nat reported \<noteq> pid then None
     else Option.bind (rsplit_once_str (lit '') '') rest) (\<lambda>(_, after_comm).
       let fields = str_split_whitespace after_comm in
       Option.bind (if 1 < length fields then Some (fields ! 1) else None) (\<lambda>field.
       Option.bind (parse_unsigned (2 ^ 32) field) (\<lambda>parent_pid.
       Option.bind (if 19 < length fields then Some (fields ! 19) else None) (\<lambda>start_ticks.
       Some \<lparr>sn_identity = \<lparr>pi_pid = pid, pi_start_marker = lit ''linux:'' @ decimal (unat pid) @ lit '':'' @ start_ticks\<rparr>,
             sn_parent_pid = of_nat parent_pid\<rparr>))))))"

definition system_process_snapshot :: "(u32 \<Rightarrow> ustring option) \<Rightarrow> u32 \<Rightarrow> process_snapshot option" where
  "system_process_snapshot read_stat pid = Option.bind (read_stat pid) (parse_linux_process_stat pid)"

definition process_start_identity :: "(u32 \<Rightarrow> ustring option) \<Rightarrow> u32 \<Rightarrow> ustring option" where
  "process_start_identity read_stat pid =
     map_option (\<lambda>snapshot. pi_start_marker (sn_identity snapshot)) (system_process_snapshot read_stat pid)"

text \<open>What the callers rely on of an inspector.\<close>

locale process_inspector =
  fixes snapshot :: "u32 \<Rightarrow> process_snapshot option"
  assumes snapshot_pid: "snapshot pid = Some s \<Longrightarrow> pi_pid (sn_identity s) = pid"

interpretation system_inspector: process_inspector "system_process_snapshot read_stat" for read_stat
  by unfold_locales (auto simp: system_process_snapshot_def parse_linux_process_stat_def Let_def bind_eq_Some_conv split: prod.splits if_splits)

section \<open>Splitting\<close>

lemma split_once_first:
  assumes "hd d \<notin> set before" "d \<noteq> []"
  shows "split_once_str d (before @ d @ rest) = Some (before, rest)"
  using assms(1)
proof (induction before)
  case Nil
  show ?case using assms(2) by (cases d) (auto simp: starts_with_str_def)
next
  case (Cons c before)
  then have "\<not> starts_with_str d (c # before @ d @ rest)" using assms(2) by (cases d) (auto simp: starts_with_str_def)
  with Cons show ?case by simp
qed

lemma rsplit_none: "hd d \<notin> set rest \<Longrightarrow> d \<noteq> [] \<Longrightarrow> rsplit_once_str d rest = None"
  by (cases d; induction rest) (auto simp: starts_with_str_def)

lemma rsplit_once_last:
  assumes "hd d \<notin> set (tl d @ rest)" "d \<noteq> []"
  shows "rsplit_once_str d (before @ d @ rest) = Some (before, rest)"
proof (induction before)
  case Nil
  obtain c cs where d: "d = c # cs" using assms(2) by (cases d) auto
  then show ?case using rsplit_none [OF assms] by (simp add: starts_with_str_def)
qed simp

lemma split_words_join:
  assumes "list_all (\<lambda>f. f \<noteq> [] \<and> list_all (\<lambda>c. \<not> is_whitespace c) f) columns" "list_all (\<lambda>c. \<not> is_whitespace c) word"
  shows "split_words word (concat (map (\<lambda>f. 0x20 # f) columns) @ [0x0a]) = (if word = [] then [] else [word]) @ columns"
  using assms
proof (induction columns arbitrary: word)
  case (Cons f columns)
  have step: "split_words word (f @ cs) = split_words (word @ f) cs" if "list_all (\<lambda>c. \<not> is_whitespace c) f" for word f cs
    using that by (induction f arbitrary: word) auto
  show ?case using Cons.prems Cons.IH [of f] step by (auto simp: is_whitespace_def)
qed (simp add: is_whitespace_def)

section \<open>Numbers\<close>

lemma parse_digits_snoc:
  "parse_digits limit acc (ds @ [c]) = (case parse_digits limit acc ds of None \<Rightarrow> None
     | Some a \<Rightarrow> if 0x30 \<le> c \<and> c \<le> 0x39 \<and> a * 10 + (c - 0x30) < limit then Some (a * 10 + (c - 0x30)) else None)"
  by (induction ds arbitrary: acc) auto

lemma decimal_chars: "list_all (\<lambda>c. 0x30 \<le> c \<and> c \<le> 0x39) (decimal n)" "decimal n \<noteq> []"
proof (induction n rule: decimal.induct)
  case (1 n)
  have "n mod 10 \<le> 9" by (simp add: less_Suc_eq_le [symmetric])
  { case 1 then show ?case using "1.IH" \<open>n mod 10 \<le> 9\<close> by (subst decimal.simps) simp }
  { case 2 then show ?case by (subst decimal.simps) simp }
qed

lemma parse_digits_decimal: "n < limit \<Longrightarrow> parse_digits limit 0 (decimal n) = Some n"
proof (induction n rule: decimal.induct)
  case (1 n)
  show ?case
  proof (cases "n < 10")
    case False
    have "parse_digits limit 0 (decimal (n div 10)) = Some (n div 10)" using "1.IH" False "1.prems" by simp
    moreover have "decimal n = decimal (n div 10) @ [0x30 + n mod 10]" using False by (subst decimal.simps) simp
    moreover have "n mod 10 < 10" "n div 10 * 10 + n mod 10 = n" by simp_all
    ultimately show ?thesis using "1.prems" by (simp add: parse_digits_snoc)
  qed (use "1.prems" in \<open>simp add: decimal.simps\<close>)
qed

lemma parse_unsigned_decimal: "n < limit \<Longrightarrow> parse_unsigned limit (decimal n) = Some n"
  using decimal_chars [of n] parse_digits_decimal [of n limit]
  by (cases "decimal n") (auto simp: parse_unsigned_def)

section \<open>The record that the system writes\<close>

text \<open>The line of \<open>proc(5)\<close>: the id, the command in parentheses, which may hold anything, the state, the id of the parent and further
  fields of which the twentieth is the start time, and a newline.\<close>

definition stat_line :: "u32 \<Rightarrow> ustring \<Rightarrow> ustring list \<Rightarrow> ustring" where
  "stat_line pid comm columns = decimal (unat pid) @ lit '' ('' @ comm @ lit '')'' @ concat (map (\<lambda>f. 0x20 # f) columns) @ [0x0a]"

definition field_ok :: "ustring \<Rightarrow> bool" where
  "field_ok f \<longleftrightarrow> f \<noteq> [] \<and> list_all (\<lambda>c. \<not> is_whitespace c \<and> c \<noteq> 0x29) f"

lemma stat_line_split:
  assumes "columns \<noteq> []" "list_all field_ok columns"
  shows "\<exists>tail. split_once_str (lit '' ('') (stat_line pid comm columns) = Some (decimal (unat pid), comm @ lit '') '' @ tail)
    \<and> rsplit_once_str (lit '') '') (comm @ lit '') '' @ tail) = Some (comm, tail) \<and> str_split_whitespace tail = columns"
proof -
  obtain f fs where cons: "columns = f # fs" using assms(1) by (cases columns) auto
  let ?tail = "f @ concat (map (\<lambda>f. 0x20 # f) fs) @ [0x0a]"
  have no_space: "list_all (\<lambda>f. f \<noteq> [] \<and> list_all (\<lambda>c. \<not> is_whitespace c) f) columns"
    using assms(2) by (auto simp: list_all_iff field_ok_def)
  have "0x20 \<notin> set (decimal (unat pid))" using decimal_chars(1) [of "unat pid"] by (force simp: list_all_iff)
  moreover have line: "stat_line pid comm columns = decimal (unat pid) @ lit '' ('' @ comm @ lit '') '' @ ?tail"
    by (simp add: stat_line_def cons lit_def)
  ultimately have "split_once_str (lit '' ('') (stat_line pid comm columns) = Some (decimal (unat pid), comm @ lit '') '' @ ?tail)"
    unfolding line by (intro split_once_first) (simp_all add: lit_def)
  moreover have "rsplit_once_str (lit '') '') (comm @ lit '') '' @ ?tail) = Some (comm, ?tail)"
    by (rule rsplit_once_last) (use assms(2) in \<open>auto simp: lit_def cons field_ok_def list_all_iff\<close>)
  moreover have "str_split_whitespace ?tail = columns"
    using split_words_join [OF no_space, of "[]"] by (simp add: cons str_split_whitespace_def is_whitespace_def)
  ultimately show ?thesis by blast
qed

lemma parse_u32_decimal: "parse_unsigned (2 ^ 32) (decimal (unat (q :: u32))) = Some (unat q)"
  using unsigned_less [of q] by (intro parse_unsigned_decimal) simp

text \<open>C40. The parent and the birth of a process are read from the record of that process, whatever its command is called: a record with the
  parent's id in its fourth field and the start time in its twenty-second gives exactly those, and a record of another process gives nothing.\<close>

theorem process_stat_round_trip:
  assumes "20 \<le> length columns" "list_all field_ok columns" "columns ! 1 = decimal (unat parent)"
  shows "parse_linux_process_stat pid (stat_line pid' comm columns) = (if pid' = pid then Some \<lparr>sn_identity = \<lparr>pi_pid = pid,
    pi_start_marker = lit ''linux:'' @ decimal (unat pid) @ lit '':'' @ columns ! 19\<rparr>, sn_parent_pid = parent\<rparr> else None)"
proof -
  have "columns \<noteq> []" using assms(1) by auto
  then obtain tail where "split_once_str (lit '' ('') (stat_line pid' comm columns) = Some (decimal (unat pid'), comm @ lit '') '' @ tail)"
    "rsplit_once_str (lit '') '') (comm @ lit '') '' @ tail) = Some (comm, tail)" "str_split_whitespace tail = columns"
    using stat_line_split [of columns pid' comm] assms(2) by auto
  then show ?thesis using assms(1,3) parse_u32_decimal [of pid'] parse_u32_decimal [of parent]
    by (simp add: parse_linux_process_stat_def Let_def)
qed

theorem process_stat_round_trip_witness:
  "parse_linux_process_stat 42 (stat_line 42 (lit ''command ) with parens'') (lit ''S'' # lit ''41'' # replicate 17 (lit ''0'') @ [lit ''987654'']))
     = Some \<lparr>sn_identity = \<lparr>pi_pid = 42, pi_start_marker = lit ''linux:42:987654''\<rparr>, sn_parent_pid = 41\<rparr>"
proof -
  let ?columns = "lit ''S'' # lit ''41'' # replicate 17 (lit ''0'') @ [lit ''987654'']"
  have "20 \<le> length ?columns" "list_all field_ok ?columns" "?columns ! 1 = decimal (unat (41 :: u32))" "?columns ! 19 = lit ''987654''"
    by (simp_all add: lit_def field_ok_def is_whitespace_def nth_append list_all_iff decimal.simps)
  with process_stat_round_trip [of ?columns 41 42 42 "lit ''command ) with parens''"] show ?thesis by (simp add: lit_def decimal.simps)
qed

end
