(* ===== verification/Server_Sessions.thy ===== *)
theory Server_Sessions
  imports Process_Identity Session_Lifecycle "HOL-Library.AList"
begin

text \<open>
  The directory of sessions in the daemon (\<open>src/src/server.rs\<close>): reserving a name and a pane, committing a new session under its
  parent, resolving targets, renaming, the history of metadata with undo, redo and purge, and the removal of a session
  that has ended.

  Sessions are shared objects, kept in the heap of \<open>daemon\<close>; the three indexes of \<open>session_maps\<close> hold references to them. The lock
  \<open>State.sessions\<close> makes each operation atomic, and \<open>dir_step\<close> interleaves them with the reservations that threads hold
  and the claims of \<open>Session_Lifecycle\<close>. \<open>Uuid::parse_str\<close> is the parameter \<open>uuid_ok\<close>, the identifiers that are drawn are arguments. Spawning
  the process and its PTY happens between a reservation and its commit and leaves the directory alone.
\<close>

section \<open>Names and targets\<close>

definition str_trim :: "ustring \<Rightarrow> ustring" where
  "str_trim s = rev (dropWhile is_whitespace (rev (dropWhile is_whitespace s)))"

definition normalize_target :: "ustring \<Rightarrow> ustring" where
  "normalize_target target = (let target = str_trim target in if target = [] then lit ''main'' else target)"

definition is_digit_char :: "uchar \<Rightarrow> bool" where
  "is_digit_char c \<longleftrightarrow> 0x30 \<le> c \<and> c \<le> 0x39"

datatype session_error = NameEmpty | NameTooLong | NameLikePane | NameLikeFlag | NameLikeBarePane | NameLikeUuid | NameBadChars
  | TooManySessions | NameTaken | NoPaneFree | ReservationMissing | IdCollision | ParentUnavailable | NoSuchSession | SessionIsEnding
  | IndexInconsistent | HistoryHasRedo | HistoryFull | NothingToUndo | NothingToRedo | HistoryMismatch | NotIrreversible
  | NotCanonicalUuid | WrongSession | HistoryEmpty | CounterOverflow | SessionNotAlive

definition session_name_looks_like_bare_pane_id :: "ustring \<Rightarrow> bool" where
  "session_name_looks_like_bare_pane_id name \<longleftrightarrow> name \<noteq> [] \<and> list_all is_digit_char name"

definition validate_session_name_syntax :: "(ustring \<Rightarrow> bool) \<Rightarrow> ustring \<Rightarrow> session_error + unit" where
  "validate_session_name_syntax uuid_ok name =
     (if str_trim name = [] then Inl NameEmpty
      else if length (as_bytes name) > 128 then Inl NameTooLong
      else if starts_with_str (lit ''%'') name then Inl NameLikePane
      else if starts_with_str (lit ''-'') name then Inl NameLikeFlag
      else if session_name_looks_like_bare_pane_id name then Inl NameLikeBarePane
      else if uuid_ok name then Inl NameLikeUuid
      else if \<not> list_all (\<lambda>c. is_ascii_alphabetic c \<or> is_digit_char c \<or> c \<in> set (lit ''._-'')) name then Inl NameBadChars
      else Inr ())"

section \<open>Metadata of a session\<close>

datatype status_theme = Blue | Green | Magenta | Cyan | Amber | Red | Gray | Plain

record metadata_value =
  mv_name :: ustring
  mv_status_theme :: "status_theme option"

datatype metadata_operation = OpRename | OpStatusTheme

record metadata_journal_entry =
  je_operation :: metadata_operation
  je_before :: metadata_value
  je_after :: metadata_value

record metadata_purge_aggregate =
  pa_generation :: u64
  pa_purged_entries_total :: u64
  pa_last_purged_unix_ms :: "u64 option"

record session_metadata =
  md_current :: metadata_value
  md_entries :: "metadata_journal_entry list"
  md_cursor :: nat
  md_purge :: metadata_purge_aggregate

definition session_metadata_new :: "ustring \<Rightarrow> status_theme option \<Rightarrow> session_metadata" where
  "session_metadata_new name theme =
     \<lparr>md_current = \<lparr>mv_name = name, mv_status_theme = theme\<rparr>, md_entries = [], md_cursor = 0,
      md_purge = \<lparr>pa_generation = 0, pa_purged_entries_total = 0, pa_last_purged_unix_ms = None\<rparr>\<rparr>"

definition MAX_METADATA_JOURNAL_ENTRIES :: nat where
  "MAX_METADATA_JOURNAL_ENTRIES = 1024"

definition validate_metadata_append :: "session_metadata \<Rightarrow> session_error + unit" where
  "validate_metadata_append m =
     (if md_cursor m \<noteq> length (md_entries m) then Inl HistoryHasRedo
      else if length (md_entries m) \<ge> MAX_METADATA_JOURNAL_ENTRIES then Inl HistoryFull
      else Inr ())"

definition append_entry :: "metadata_operation \<Rightarrow> metadata_value \<Rightarrow> session_metadata \<Rightarrow> session_metadata" where
  "append_entry operation after m =
     m\<lparr>md_entries := md_entries m @ [\<lparr>je_operation = operation, je_before = md_current m, je_after = after\<rparr>],
       md_cursor := md_cursor m + 1, md_current := after\<rparr>"

section \<open>Sessions\<close>

text \<open>The fields of \<open>Session\<close> that the directory of sessions uses. A session is shared by the three indexes and by threads; a reference to
  it is its address in \<open>dm_heap\<close>. \<open>dm_reservations\<close> are the reservations that threads hold, \<open>dm_cleaning\<close> the sessions that threads are cleaning up.\<close>

record dsession =
  ds_id :: ustring
  ds_pane_id :: ustring
  ds_metadata :: session_metadata
  ds_parent_pane_id :: "ustring option"
  ds_parent_session_id :: "ustring option"
  ds_parent_token :: ustring
  ds_leader_identity :: "proc_identity option"
  ds_lifecycle :: lifecycle_publication
  ds_alive :: bool
  ds_cleanup_started :: bool

definition ds_name :: "dsession \<Rightarrow> ustring" where
  "ds_name s = mv_name (md_current (ds_metadata s))"

record session_maps =
  by_name :: "ustring \<rightharpoonup> nat"
  by_pane :: "(ustring \<times> nat) list"
  by_id :: "(ustring \<times> nat) list"
  reserved_names :: "ustring list"
  reserved_panes :: "ustring list"

text \<open>A change of a session's identity that has been admitted and not yet committed: a new name, or a value of its metadata with the cursor
  after it.\<close>

datatype identity_change = ChangeName nat ustring | ChangeStep nat metadata_value nat

text \<open>\<open>dm_changing\<close> is the change of the thread that holds \<open>State.sessions\<close> between its admission and its commit.\<close>

record daemon =
  dm_heap :: "nat \<Rightarrow> dsession"
  dm_allocated :: nat
  dm_sessions :: session_maps
  dm_reservations :: "(ustring \<times> ustring) list"
  dm_cleaning :: "nat list"
  dm_changing :: "identity_change option"

definition resolve_session_locked :: "session_maps \<Rightarrow> ustring \<Rightarrow> nat option" where
  "resolve_session_locked m target =
     (let percent = starts_with_str (lit ''%'') target in
      case (if percent then map_of (by_pane m) target else None) of
        Some r \<Rightarrow> Some r
      | None \<Rightarrow>
          (case by_name m target of
             Some r \<Rightarrow> Some r
           | None \<Rightarrow>
               (case map_of (by_id m) target of
                  Some r \<Rightarrow> Some r
                | None \<Rightarrow> if percent then None else map_of (by_pane m) (lit ''%'' @ target))))"

definition resolve_session :: "ustring \<Rightarrow> daemon \<Rightarrow> session_error + nat" where
  "resolve_session target d = ok_or (resolve_session_locked (dm_sessions d) (normalize_target target)) NoSuchSession"

definition update_session :: "nat \<Rightarrow> (dsession \<Rightarrow> dsession) \<Rightarrow> daemon \<Rightarrow> daemon" where
  "update_session r f d = d\<lparr>dm_heap := (dm_heap d)(r := f (dm_heap d r))\<rparr>"

definition update_maps :: "(session_maps \<Rightarrow> session_maps) \<Rightarrow> daemon \<Rightarrow> daemon" where
  "update_maps f d = d\<lparr>dm_sessions := f (dm_sessions d)\<rparr>"

section \<open>Reserving and committing an identity\<close>

definition MAX_SESSIONS :: nat where
  "MAX_SESSIONS = 256"

definition pane_of :: "nat \<Rightarrow> ustring" where
  "pane_of n = lit ''%'' @ decimal n"

fun select_identity :: "session_maps \<Rightarrow> ustring option \<Rightarrow> nat list \<Rightarrow> (ustring \<times> ustring) option" where
  "select_identity m requested [] = None"
| "select_identity m requested (n # ns) =
     (let pane_id = pane_of n in
      if map_of (by_pane m) pane_id \<noteq> None \<or> pane_id \<in> set (reserved_panes m) then select_identity m requested ns
      else let name = (case requested of Some name \<Rightarrow> name | None \<Rightarrow> lit ''lterm-'' @ decimal n) in
        if requested = None \<and> (by_name m name \<noteq> None \<or> name \<in> set (reserved_names m)) then select_identity m requested ns
        else Some (pane_id, name))"

definition reserve_session_identity ::
    "(ustring \<Rightarrow> bool) \<Rightarrow> ustring option \<Rightarrow> session_maps \<Rightarrow> session_error + ((ustring \<times> ustring) \<times> session_maps)" where
  "reserve_session_identity uuid_ok requested m =
     bind_res (case requested of Some name \<Rightarrow> validate_session_name_syntax uuid_ok name | None \<Rightarrow> Inr ()) (\<lambda>_.
       if length (by_pane m) + length (reserved_panes m) \<ge> MAX_SESSIONS then Inl TooManySessions
       else if is_some_and requested (\<lambda>name. by_name m name \<noteq> None \<or> name \<in> set (reserved_names m)) then Inl NameTaken
       else bind_res (ok_or (select_identity m requested [0..<MAX_SESSIONS]) NoPaneFree) (\<lambda>(pane_id, name).
         Inr ((name, pane_id), m\<lparr>reserved_panes := reserved_panes m @ [pane_id], reserved_names := reserved_names m @ [name]\<rparr>)))"

definition release_reservation :: "ustring \<times> ustring \<Rightarrow> session_maps \<Rightarrow> session_maps" where
  "release_reservation = (\<lambda>(name, pane_id) m.
     m\<lparr>reserved_names := removeAll name (reserved_names m), reserved_panes := removeAll pane_id (reserved_panes m)\<rparr>)"

text \<open>The parent that a new session is recorded under, looked up while the directory is locked.\<close>

datatype parent_request = ParentCapability (pr_pane_id: ustring) ustring | ParentTmuxTarget (pr_pane_id: ustring)

record parent_session =
  ps_id :: ustring
  ps_pane_id :: ustring

record implicit_parent_proof =
  ip_parent :: parent_session
  ip_leader_identity :: proc_identity
  ip_chain :: "process_snapshot list"

datatype parent_selection = ExplicitParent parent_request | ImplicitParent implicit_parent_proof

definition resolve_parent_session_locked :: "parent_request \<Rightarrow> daemon \<Rightarrow> parent_session option" where
  "resolve_parent_session_locked request d =
     (case map_of (by_pane (dm_sessions d)) (pr_pane_id request) of
        None \<Rightarrow> None
      | Some r \<Rightarrow>
          (let s = dm_heap d r in
           if \<not> ds_alive s then None
           else if (case request of ParentCapability _ token \<Rightarrow> ds_parent_token s \<noteq> token | ParentTmuxTarget _ \<Rightarrow> False) then None
           else Some \<lparr>ps_id = ds_id s, ps_pane_id = ds_pane_id s\<rparr>))"

definition resolve_implicit_parent_locked :: "implicit_parent_proof \<Rightarrow> daemon \<Rightarrow> parent_session option" where
  "resolve_implicit_parent_locked proof d =
     (case map_of (by_id (dm_sessions d)) (ps_id (ip_parent proof)) of
        None \<Rightarrow> None
      | Some r \<Rightarrow>
          (let s = dm_heap d r in
           if \<not> ds_alive s \<or> ds_pane_id s \<noteq> ps_pane_id (ip_parent proof) \<or> ds_leader_identity s \<noteq> Some (ip_leader_identity proof)
           then None else Some (ip_parent proof)))"

text \<open>The reservation is an object of its own: \<open>commit\<close> consumes it, and when it fails, or is never called, its destructor releases the
  names.\<close>

definition reservation_commit :: "ustring \<times> ustring \<Rightarrow> nat \<Rightarrow> parent_selection option \<Rightarrow> daemon \<Rightarrow> session_error + daemon" where
  "reservation_commit = (\<lambda>(name, pane_id) r selection d.
     (let m = dm_sessions d; s = dm_heap d r in
      if name \<notin> set (reserved_names m) \<or> pane_id \<notin> set (reserved_panes m) then Inl ReservationMissing
      else if by_name m name \<noteq> None \<or> map_of (by_pane m) (ds_pane_id s) \<noteq> None \<or> map_of (by_id m) (ds_id s) \<noteq> None
      then Inl IdCollision
      else bind_res
        (case selection of
           None \<Rightarrow> Inr None
         | Some (ExplicitParent request) \<Rightarrow> bind_res (ok_or (resolve_parent_session_locked request d) ParentUnavailable) (\<lambda>p. Inr (Some p))
         | Some (ImplicitParent proof) \<Rightarrow> bind_res (ok_or (resolve_implicit_parent_locked proof d) ParentUnavailable) (\<lambda>p. Inr (Some p)))
        (\<lambda>parent.
          Inr (update_maps (\<lambda>m. (release_reservation (name, pane_id) m)\<lparr>by_name := (by_name m)(name \<mapsto> r),
              by_pane := AList.update (ds_pane_id s) r (by_pane m), by_id := AList.update (ds_id s) r (by_id m)\<rparr>)
            (update_session r (\<lambda>s. s\<lparr>ds_parent_pane_id := map_option ps_pane_id parent, ds_parent_session_id := map_option ps_id parent\<rparr>) d)))))"

section \<open>Changing metadata\<close>

definition reject_identity_mutation_while_ending :: "dsession \<Rightarrow> session_error + unit" where
  "reject_identity_mutation_while_ending s =
     (case presentation (ds_lifecycle s) of Ending _ \<Rightarrow> Inl SessionIsEnding | _ \<Rightarrow> Inr ())"

definition session_commit_guard :: "dsession \<Rightarrow> session_error + unit" where
  "session_commit_guard s = check (identity_commit_guard (ds_lifecycle s)) SessionIsEnding"

definition set_status_theme :: "ustring \<Rightarrow> status_theme option \<Rightarrow> daemon \<Rightarrow> session_error + daemon" where
  "set_status_theme target theme d =
     bind_res (ok_or (resolve_session_locked (dm_sessions d) (normalize_target target)) NoSuchSession) (\<lambda>r.
       let m = ds_metadata (dm_heap d r) in
       if mv_status_theme (md_current m) = theme then Inr d
       else bind_res (validate_metadata_append m) (\<lambda>_.
         Inr (update_session r (\<lambda>s. s\<lparr>ds_metadata := append_entry OpStatusTheme ((md_current m)\<lparr>mv_status_theme := theme\<rparr>) m\<rparr>) d)))"

definition names_session :: "ustring \<Rightarrow> dsession \<Rightarrow> daemon \<Rightarrow> bool" where
  "names_session name s d \<longleftrightarrow> is_some_and (by_name (dm_sessions d) name) (\<lambda>r. ds_id (dm_heap d r) = ds_id s)"

definition name_taken :: "ustring \<Rightarrow> dsession \<Rightarrow> daemon \<Rightarrow> bool" where
  "name_taken name s d \<longleftrightarrow> name \<in> set (reserved_names (dm_sessions d))
     \<or> is_some_and (by_name (dm_sessions d) name) (\<lambda>r. ds_id (dm_heap d r) \<noteq> ds_id s)"

text \<open>\<open>rename_session\<close> up to its admission; \<open>None\<close> when there is nothing to change.\<close>

definition admit_rename :: "(ustring \<Rightarrow> bool) \<Rightarrow> ustring \<Rightarrow> ustring \<Rightarrow> daemon \<Rightarrow> session_error + identity_change option" where
  "admit_rename uuid_ok target new_name d =
     bind_res (validate_session_name_syntax uuid_ok new_name) (\<lambda>_.
       bind_res (ok_or (resolve_session_locked (dm_sessions d) (normalize_target target)) NoSuchSession) (\<lambda>r.
         let s = dm_heap d r; m = ds_metadata s; old_name = ds_name s in
         bind_res (reject_identity_mutation_while_ending s) (\<lambda>_.
           if old_name = new_name then (if names_session new_name s d then Inr None else Inl IndexInconsistent)
           else if name_taken new_name s d then Inl NameTaken
           else bind_res (validate_metadata_append m) (\<lambda>_.
             if \<not> names_session old_name s d then Inl IndexInconsistent
             else Inr (Some (ChangeName r new_name))))))"

datatype metadata_step_direction = Undo | Redo

text \<open>The value that the current one must be, the one that replaces it, and the cursor after it.\<close>

definition metadata_step_plan :: "metadata_step_direction \<Rightarrow> session_metadata \<Rightarrow> session_error + (metadata_value \<times> metadata_value \<times> nat)" where
  "metadata_step_plan direction m =
     (case direction of
        Undo \<Rightarrow>
          if md_cursor m = 0 then Inl NothingToUndo
          else let entry = md_entries m ! (md_cursor m - 1) in Inr (je_after entry, je_before entry, md_cursor m - 1)
      | Redo \<Rightarrow>
          if md_cursor m \<ge> length (md_entries m) then Inl NothingToRedo
          else let entry = md_entries m ! md_cursor m in Inr (je_before entry, je_after entry, md_cursor m + 1))"

definition validate_metadata_name_transition ::
    "(ustring \<Rightarrow> bool) \<Rightarrow> dsession \<Rightarrow> ustring \<Rightarrow> ustring \<Rightarrow> daemon \<Rightarrow> session_error + unit" where
  "validate_metadata_name_transition uuid_ok s current_name next_name d =
     (if \<not> names_session current_name s d then Inl IndexInconsistent
      else if current_name \<noteq> next_name then
        bind_res (validate_session_name_syntax uuid_ok next_name) (\<lambda>_. if name_taken next_name s d then Inl NameTaken else Inr ())
      else Inr ())"

definition apply_metadata_name_transition :: "nat \<Rightarrow> ustring \<Rightarrow> ustring \<Rightarrow> session_maps \<Rightarrow> session_maps" where
  "apply_metadata_name_transition r current_name next_name maps =
     (if current_name = next_name then maps
      else maps\<lparr>by_name := ((by_name maps)(current_name := None))(next_name \<mapsto> r)\<rparr>)"

definition admit_metadata_step :: "(ustring \<Rightarrow> bool) \<Rightarrow> ustring \<Rightarrow> metadata_step_direction \<Rightarrow> daemon \<Rightarrow> session_error + identity_change" where
  "admit_metadata_step uuid_ok target direction d =
     bind_res (ok_or (resolve_session_locked (dm_sessions d) (normalize_target target)) NoSuchSession) (\<lambda>r.
       let s = dm_heap d r; m = ds_metadata s in
       bind_res (reject_identity_mutation_while_ending s) (\<lambda>_.
         bind_res (metadata_step_plan direction m) (\<lambda>(expected, next_value, next_cursor).
           if md_current m \<noteq> expected then Inl HistoryMismatch
           else bind_res (validate_metadata_name_transition uuid_ok s (ds_name s) (mv_name next_value) d) (\<lambda>_.
             Inr (ChangeStep r next_value next_cursor)))))"

text \<open>The commit of either, under the guard of the lifecycle. Another thread may have claimed the session since the admission.\<close>

definition commit_identity_change :: "identity_change \<Rightarrow> daemon \<Rightarrow> session_error + daemon" where
  "commit_identity_change change d =
     (case change of
        ChangeName r new_name \<Rightarrow>
          (let s = dm_heap d r; m = ds_metadata s in
           bind_res (session_commit_guard s) (\<lambda>_.
             Inr (update_maps (\<lambda>maps. maps\<lparr>by_name := ((by_name maps)(ds_name s := None))(new_name \<mapsto> r)\<rparr>)
               (update_session r (\<lambda>s. s\<lparr>ds_metadata := append_entry OpRename ((md_current m)\<lparr>mv_name := new_name\<rparr>) m\<rparr>) d))))
      | ChangeStep r next_value next_cursor \<Rightarrow>
          (let s = dm_heap d r; m = ds_metadata s in
           bind_res (session_commit_guard s) (\<lambda>_.
             Inr (update_maps (apply_metadata_name_transition r (ds_name s) (mv_name next_value))
               (update_session r (\<lambda>s. s\<lparr>ds_metadata := m\<lparr>md_current := next_value, md_cursor := next_cursor\<rparr>\<rparr>) d)))))"

text \<open>The two operations when no other thread comes in between.\<close>

definition rename_session :: "(ustring \<Rightarrow> bool) \<Rightarrow> ustring \<Rightarrow> ustring \<Rightarrow> daemon \<Rightarrow> session_error + daemon" where
  "rename_session uuid_ok target new_name d =
     bind_res (admit_rename uuid_ok target new_name d) (\<lambda>change. case change of None \<Rightarrow> Inr d | Some c \<Rightarrow> commit_identity_change c d)"

definition metadata_step :: "(ustring \<Rightarrow> bool) \<Rightarrow> ustring \<Rightarrow> metadata_step_direction \<Rightarrow> daemon \<Rightarrow> session_error + daemon" where
  "metadata_step uuid_ok target direction d =
     bind_res (admit_metadata_step uuid_ok target direction d) (\<lambda>change. commit_identity_change change d)"

text \<open>What \<open>Uuid::parse_str\<close> followed by the comparison with \<open>hyphenated().to_string()\<close> accepts: groups of 8, 4, 4, 4 and 12 lower-case hexadecimal
  digits.\<close>

definition is_hex_char :: "uchar \<Rightarrow> bool" where
  "is_hex_char c \<longleftrightarrow> is_digit_char c \<or> 0x61 \<le> c \<and> c \<le> 0x66"

definition is_canonical_uuid :: "ustring \<Rightarrow> bool" where
  "is_canonical_uuid s \<longleftrightarrow> length s = 36
     \<and> list_all (\<lambda>(i, c). if i \<in> {8, 13, 18, 23} then c = 0x2d else is_hex_char c) (List.enumerate 0 s)"

text \<open>\<open>now\<close> is the clock.\<close>

definition metadata_purge_history ::
    "ustring \<Rightarrow> bool \<Rightarrow> ustring \<Rightarrow> u64 \<Rightarrow> daemon \<Rightarrow> session_error + daemon" where
  "metadata_purge_history target irreversible claimed_session_id now d =
     (if \<not> irreversible then Inl NotIrreversible
      else if \<not> is_canonical_uuid claimed_session_id then Inl NotCanonicalUuid
      else bind_res (ok_or (resolve_session_locked (dm_sessions d) (normalize_target target)) NoSuchSession) (\<lambda>r.
        let s = dm_heap d r; m = ds_metadata s in
        if ds_id s \<noteq> claimed_session_id then Inl WrongSession
        else if md_entries m = [] then Inl HistoryEmpty
        else bind_res (ok_or (checked_add (pa_generation (md_purge m)) 1) CounterOverflow) (\<lambda>generation.
          bind_res (ok_or (checked_add (pa_purged_entries_total (md_purge m)) (of_nat (length (md_entries m)))) CounterOverflow) (\<lambda>total.
            Inr (update_session r (\<lambda>s. s\<lparr>ds_metadata := m\<lparr>md_entries := [], md_cursor := 0,
              md_purge := \<lparr>pa_generation = generation, pa_purged_entries_total = total, pa_last_purged_unix_ms = Some now\<rparr>\<rparr>\<rparr>) d)))))"

definition remove_session :: "nat \<Rightarrow> daemon \<Rightarrow> daemon" where
  "remove_session r d =
     (let s = dm_heap d r; same = (\<lambda>q. ds_id (dm_heap d q) = ds_id s) in
      update_maps (\<lambda>m. m\<lparr>
        by_name := (if is_some_and (by_name m (ds_name s)) same then (by_name m)(ds_name s := None) else by_name m),
        by_pane := (if is_some_and (map_of (by_pane m) (ds_pane_id s)) same then AList.delete (ds_pane_id s) (by_pane m) else by_pane m),
        by_id := (if is_some_and (map_of (by_id m) (ds_id s)) same then AList.delete (ds_id s) (by_id m) else by_id m)\<rparr>) d)"

section \<open>The directory as a machine\<close>

datatype dir_event = ReserveIdentity "ustring option"
  | CommitSession nat ustring ustring "proc_identity option" "status_theme option" "parent_selection option"
  | DropReservation nat | AdmitRename ustring ustring | SetTheme ustring "status_theme option"
  | AdmitStep ustring metadata_step_direction | CommitIdentity | PurgeHistory ustring bool ustring u64
  | ClaimSession nat finalize_trigger uuid u64 u64 | StartCleanup nat | RemoveSession nat

definition new_session :: "ustring \<times> ustring \<Rightarrow> ustring \<Rightarrow> ustring \<Rightarrow> proc_identity option \<Rightarrow> status_theme option \<Rightarrow> dsession" where
  "new_session = (\<lambda>(name, pane_id) i token leader theme.
     \<lparr>ds_id = i, ds_pane_id = pane_id, ds_metadata = session_metadata_new name theme, ds_parent_pane_id = None,
      ds_parent_session_id = None, ds_parent_token = token, ds_leader_identity = leader, ds_lifecycle = default_publication,
      ds_alive = True, ds_cleanup_started = False\<rparr>)"

definition drop_nth :: "nat \<Rightarrow> 'a list \<Rightarrow> 'a list" where
  "drop_nth n xs = take n xs @ drop (Suc n) xs"

definition settle :: "daemon \<Rightarrow> session_error + daemon \<Rightarrow> daemon" where
  "settle d r = (case r of Inl _ \<Rightarrow> d | Inr d' \<Rightarrow> d')"

text \<open>The last part of \<open>create_session_with_inspector\<close>: the session is made, and committed under the reservation, which is gone afterwards.\<close>

definition commit_new_session ::
    "nat \<Rightarrow> ustring \<Rightarrow> ustring \<Rightarrow> proc_identity option \<Rightarrow> status_theme option \<Rightarrow> parent_selection option \<Rightarrow> daemon \<Rightarrow> daemon" where
  "commit_new_session n i token leader theme selection d =
     (let reservation = dm_reservations d ! n; r = dm_allocated d;
          d1 = d\<lparr>dm_heap := (dm_heap d)(r := new_session reservation i token leader theme)\<rparr>;
          rest = drop_nth n (dm_reservations d) in
      case reservation_commit reservation r selection d1 of
        Inl _ \<Rightarrow> (update_maps (release_reservation reservation) d)\<lparr>dm_reservations := rest\<rparr>
      | Inr d2 \<Rightarrow> d2\<lparr>dm_reservations := rest, dm_allocated := Suc r\<rparr>)"

text \<open>The gate of \<open>finalize_session\<close>: the first thread to start the cleanup is the one that removes the session.\<close>

definition start_cleanup :: "nat \<Rightarrow> daemon \<Rightarrow> daemon" where
  "start_cleanup r d =
     (if ds_cleanup_started (dm_heap d r) then d
      else (update_session r (\<lambda>s. s\<lparr>ds_cleanup_started := True\<rparr>) d)\<lparr>dm_cleaning := r # dm_cleaning d\<rparr>)"

fun dir_effect :: "(ustring \<Rightarrow> bool) \<Rightarrow> dir_event \<Rightarrow> daemon \<Rightarrow> daemon option" where
  "dir_effect uuid_ok (ReserveIdentity requested) d =
     Some (case reserve_session_identity uuid_ok requested (dm_sessions d) of
        Inl _ \<Rightarrow> d
      | Inr (reservation, m) \<Rightarrow> d\<lparr>dm_sessions := m, dm_reservations := dm_reservations d @ [reservation]\<rparr>)"
| "dir_effect uuid_ok (CommitSession n i token leader theme selection) d =
     (if n < length (dm_reservations d) then Some (commit_new_session n i token leader theme selection d) else None)"
| "dir_effect uuid_ok (DropReservation n) d =
     (if n < length (dm_reservations d)
      then Some ((update_maps (release_reservation (dm_reservations d ! n)) d)\<lparr>dm_reservations := drop_nth n (dm_reservations d)\<rparr>)
      else None)"
| "dir_effect uuid_ok (AdmitRename target name) d =
     Some (case admit_rename uuid_ok target name d of Inr (Some c) \<Rightarrow> d\<lparr>dm_changing := Some c\<rparr> | _ \<Rightarrow> d)"
| "dir_effect uuid_ok (SetTheme target theme) d = Some (settle d (set_status_theme target theme d))"
| "dir_effect uuid_ok (AdmitStep target direction) d =
     Some (case admit_metadata_step uuid_ok target direction d of Inr c \<Rightarrow> d\<lparr>dm_changing := Some c\<rparr> | _ \<Rightarrow> d)"
| "dir_effect uuid_ok CommitIdentity d =
     map_option (\<lambda>c. (settle d (commit_identity_change c d))\<lparr>dm_changing := None\<rparr>) (dm_changing d)"
| "dir_effect uuid_ok (PurgeHistory target irreversible i now) d =
     Some (settle d (metadata_purge_history target irreversible i now d))"
| "dir_effect uuid_ok (ClaimSession r trigger event_id now later) d =
     (if r < dm_allocated d then
        Some (update_session r (\<lambda>s. case fst (claim trigger event_id now later (ds_lifecycle s, ds_alive s)) of
          (p, alive) \<Rightarrow> s\<lparr>ds_lifecycle := p, ds_alive := alive\<rparr>) d)
      else None)"
| "dir_effect uuid_ok (StartCleanup r) d =
     (if r < dm_allocated d \<and> \<not> identity_commit_guard (ds_lifecycle (dm_heap d r)) then Some (start_cleanup r d) else None)"
| "dir_effect uuid_ok (RemoveSession r) d =
     (if r \<in> set (dm_cleaning d) then Some ((remove_session r d)\<lparr>dm_cleaning := removeAll r (dm_cleaning d)\<rparr>) else None)"

text \<open>A thread between its admission and its commit holds \<open>State.sessions\<close>. Claiming a session takes only the lock of its lifecycle, and the gate of
  the cleanup is an atomic flag, so both can happen then; every other event waits.\<close>

fun takes_sessions :: "dir_event \<Rightarrow> bool" where
  "takes_sessions (ClaimSession r trigger event_id now later) \<longleftrightarrow> False"
| "takes_sessions (StartCleanup r) \<longleftrightarrow> False"
| "takes_sessions CommitIdentity \<longleftrightarrow> False"
| "takes_sessions e \<longleftrightarrow> True"

definition dir_step :: "(ustring \<Rightarrow> bool) \<Rightarrow> dir_event \<Rightarrow> daemon \<Rightarrow> daemon option" where
  "dir_step uuid_ok e d = (if takes_sessions e \<and> dm_changing d \<noteq> None then None else dir_effect uuid_ok e d)"

fun dir_run :: "(ustring \<Rightarrow> bool) \<Rightarrow> dir_event list \<Rightarrow> daemon \<Rightarrow> daemon option" where
  "dir_run uuid_ok [] d = Some d"
| "dir_run uuid_ok (e # es) d = Option.bind (dir_step uuid_ok e d) (dir_run uuid_ok es)"

definition daemon_start :: daemon where
  "daemon_start = \<lparr>dm_heap = (\<lambda>_. new_session ([], []) [] [] None None), dm_allocated = 0,
     dm_sessions = \<lparr>by_name = Map.empty, by_pane = [], by_id = [], reserved_names = [], reserved_panes = []\<rparr>,
     dm_reservations = [], dm_cleaning = [], dm_changing = None\<rparr>"

text \<open>What is relied on of UUIDs: a fresh one prints as hexadecimal digits and hyphens and can be parsed, and a name that the daemon chooses
  cannot.\<close>

definition uuid_text :: "ustring \<Rightarrow> bool" where
  "uuid_text i \<longleftrightarrow> 0x2d \<in> set i \<and> list_all (\<lambda>c. is_hex_char c \<or> c = 0x2d) i"

fun event_ids_ok :: "(ustring \<Rightarrow> bool) \<Rightarrow> dir_event \<Rightarrow> bool" where
  "event_ids_ok uuid_ok (CommitSession n i token leader theme selection) \<longleftrightarrow> uuid_ok i \<and> uuid_text i"
| "event_ids_ok uuid_ok e \<longleftrightarrow> True"

definition uuid_parser :: "(ustring \<Rightarrow> bool) \<Rightarrow> bool" where
  "uuid_parser uuid_ok \<longleftrightarrow> (\<forall>n. \<not> uuid_ok (lit ''lterm-'' @ decimal n))"

section \<open>The invariant\<close>

definition live_refs :: "daemon \<Rightarrow> nat set" where
  "live_refs d = {r. r < dm_allocated d \<and> (\<not> ds_cleanup_started (dm_heap d r) \<or> r \<in> set (dm_cleaning d))}"

definition journal_wf :: "session_metadata \<Rightarrow> bool" where
  "journal_wf m \<longleftrightarrow> md_cursor m \<le> length (md_entries m) \<and> length (md_entries m) \<le> MAX_METADATA_JOURNAL_ENTRIES
     \<and> (\<forall>i. Suc i < length (md_entries m) \<longrightarrow> je_after (md_entries m ! i) = je_before (md_entries m ! Suc i))
     \<and> (md_cursor m > 0 \<longrightarrow> je_after (md_entries m ! (md_cursor m - 1)) = md_current m)
     \<and> (md_cursor m < length (md_entries m) \<longrightarrow> je_before (md_entries m ! md_cursor m) = md_current m)"

definition name_ok :: "(ustring \<Rightarrow> bool) \<Rightarrow> ustring \<Rightarrow> bool" where
  "name_ok uuid_ok name \<longleftrightarrow> validate_session_name_syntax uuid_ok name = Inr ()"

definition session_ok :: "(ustring \<Rightarrow> bool) \<Rightarrow> dsession \<Rightarrow> bool" where
  "session_ok uuid_ok s \<longleftrightarrow> name_ok uuid_ok (ds_name s) \<and> uuid_ok (ds_id s) \<and> uuid_text (ds_id s)
     \<and> ds_pane_id s \<in> pane_of ` {..<MAX_SESSIONS} \<and> journal_wf (ds_metadata s)"

definition index_inv :: "daemon \<Rightarrow> bool" where
  "index_inv d \<longleftrightarrow> (let m = dm_sessions d in
     distinct (map fst (by_pane m)) \<and> distinct (map fst (by_id m))
     \<and> set (by_pane m) = (\<lambda>r. (ds_pane_id (dm_heap d r), r)) ` live_refs d
     \<and> set (by_id m) = (\<lambda>r. (ds_id (dm_heap d r), r)) ` live_refs d
     \<and> (\<forall>k r. by_name m k = Some r \<longleftrightarrow> r \<in> live_refs d \<and> ds_name (dm_heap d r) = k))"

definition reserved_ok :: "(ustring \<Rightarrow> bool) \<Rightarrow> (ustring \<rightharpoonup> nat) \<Rightarrow> (ustring \<times> nat) list \<Rightarrow> ustring list \<Rightarrow> ustring list \<Rightarrow> bool" where
  "reserved_ok uuid_ok index panes_index names panes \<longleftrightarrow> distinct names \<and> distinct panes
     \<and> (\<forall>name\<in>set names. index name = None \<and> name_ok uuid_ok name)
     \<and> set panes \<inter> fst ` set panes_index = {} \<and> set panes \<subseteq> pane_of ` {..<MAX_SESSIONS}
     \<and> length panes_index + length panes \<le> MAX_SESSIONS"

definition reservation_inv :: "(ustring \<Rightarrow> bool) \<Rightarrow> daemon \<Rightarrow> bool" where
  "reservation_inv uuid_ok d \<longleftrightarrow> (let m = dm_sessions d in
     reserved_names m = map fst (dm_reservations d) \<and> reserved_panes m = map snd (dm_reservations d)
     \<and> reserved_ok uuid_ok (by_name m) (by_pane m) (reserved_names m) (reserved_panes m))"

definition dir_inv :: "(ustring \<Rightarrow> bool) \<Rightarrow> daemon \<Rightarrow> bool" where
  "dir_inv uuid_ok d \<longleftrightarrow> index_inv d \<and> reservation_inv uuid_ok d \<and> (\<forall>r\<in>live_refs d. session_ok uuid_ok (dm_heap d r))
     \<and> (\<forall>r\<in>set (dm_cleaning d). r < dm_allocated d \<and> ds_cleanup_started (dm_heap d r)
       \<and> \<not> identity_commit_guard (ds_lifecycle (dm_heap d r)))"

lemma daemon_start_inv: "dir_inv uuid_ok daemon_start"
  by (simp add: dir_inv_def index_inv_def reservation_inv_def reserved_ok_def live_refs_def daemon_start_def Let_def)

section \<open>Targets\<close>

lemma decimal_digits: "list_all is_digit_char (decimal n)" "decimal n \<noteq> []"
proof (induction n rule: decimal.induct)
  case (1 n)
  have "n mod 10 \<le> 9" by linarith
  { case 1 then show ?case using "1.IH" \<open>n mod 10 \<le> 9\<close> by (simp add: decimal.simps [of n] is_digit_char_def) }
  { case 2 then show ?case by (simp add: decimal.simps [of n]) }
qed

lemma no_space_trim: "list_all (\<lambda>c. \<not> is_whitespace c) s \<Longrightarrow> str_trim s = s"
proof -
  assume s: "list_all (\<lambda>c. \<not> is_whitespace c) s"
  have "dropWhile is_whitespace t = t" if "list_all (\<lambda>c. \<not> is_whitespace c) t" for t
    using that by (cases t) simp_all
  then show ?thesis using s by (simp add: str_trim_def list_all_rev)
qed

lemma normalize_no_space: "list_all (\<lambda>c. \<not> is_whitespace c) s \<Longrightarrow> s \<noteq> [] \<Longrightarrow> normalize_target s = s"
  by (simp add: normalize_target_def no_space_trim Let_def)

lemma graphic_no_space: "is_ascii_alphabetic c \<or> is_digit_char c \<or> c \<in> set (lit ''._-%'') \<Longrightarrow> \<not> is_whitespace c"
  by (auto simp: is_ascii_alphabetic_def is_digit_char_def is_whitespace_def lit_def)

lemma name_ok_facts:
  assumes "name_ok uuid_ok name"
  shows "normalize_target name = name" "name \<noteq> []" "\<not> starts_with_str (lit ''%'') name" "\<not> uuid_ok name"
    "\<not> list_all is_digit_char name"
proof -
  show nonempty: "name \<noteq> []" using assms by (auto simp: name_ok_def validate_session_name_syntax_def str_trim_def)
  have "list_all (\<lambda>c. is_ascii_alphabetic c \<or> is_digit_char c \<or> c \<in> set (lit ''._-'')) name"
    using assms by (auto simp: name_ok_def validate_session_name_syntax_def split: if_splits)
  then have "list_all (\<lambda>c. \<not> is_whitespace c) name"
    using graphic_no_space by (auto simp: list_all_iff lit_def)
  then show "normalize_target name = name" using nonempty by (rule normalize_no_space)
  show "\<not> starts_with_str (lit ''%'') name" "\<not> uuid_ok name" "\<not> list_all is_digit_char name"
    using assms nonempty by (auto simp: name_ok_def validate_session_name_syntax_def session_name_looks_like_bare_pane_id_def split: if_splits)
qed

lemma pane_facts:
  "normalize_target (pane_of n) = pane_of n" "starts_with_str (lit ''%'') (pane_of n)"
  "normalize_target (decimal n) = decimal n" "\<not> starts_with_str (lit ''%'') (decimal n)"
proof -
  have digits: "list_all (\<lambda>c. \<not> is_whitespace c) (decimal n)"
    using decimal_digits(1) [of n] graphic_no_space by (simp add: list_all_iff)
  then show "normalize_target (decimal n) = decimal n" using decimal_digits(2) by (rule normalize_no_space)
  have "list_all (\<lambda>c. \<not> is_whitespace c) (pane_of n)" using digits by (simp add: pane_of_def lit_def is_whitespace_def)
  then show "normalize_target (pane_of n) = pane_of n" by (rule normalize_no_space) (simp add: pane_of_def lit_def)
  show "starts_with_str (lit ''%'') (pane_of n)" by (simp add: starts_with_str_def pane_of_def lit_def)
  show "\<not> starts_with_str (lit ''%'') (decimal n)"
    using decimal_digits [of n] by (cases "decimal n") (auto simp: starts_with_str_def lit_def is_digit_char_def)
qed

lemma uuid_text_facts:
  assumes "uuid_text i"
  shows "normalize_target i = i" "\<not> starts_with_str (lit ''%'') i" "i \<noteq> decimal n" "i \<noteq> pane_of n"
proof -
  have "list_all (\<lambda>c. \<not> is_whitespace c) i"
    using assms by (auto simp: uuid_text_def list_all_iff is_whitespace_def is_hex_char_def is_digit_char_def)
  then show "normalize_target i = i" by (rule normalize_no_space) (use assms in \<open>auto simp: uuid_text_def\<close>)
  have "\<not> is_hex_char 0x25" by (simp add: is_hex_char_def is_digit_char_def)
  then have no_percent: "0x25 \<notin> set i" using assms unfolding uuid_text_def list_all_iff by fastforce
  then show "\<not> starts_with_str (lit ''%'') i" by (cases i) (auto simp: starts_with_str_def lit_def)
  show "i \<noteq> pane_of n" using no_percent by (auto simp: pane_of_def lit_def)
  have "\<not> is_digit_char 0x2d" by (simp add: is_digit_char_def)
  then have "0x2d \<notin> set (decimal n)" using decimal_digits(1) [of n] unfolding list_all_iff by blast
  then show "i \<noteq> decimal n" using assms by (auto simp: uuid_text_def)
qed

lemma name_not_found:
  assumes "dir_inv uuid_ok d" "\<not> name_ok uuid_ok k"
  shows "by_name (dm_sessions d) k = None"
proof (cases "by_name (dm_sessions d) k")
  case (Some r)
  then have "r \<in> live_refs d" "ds_name (dm_heap d r) = k" using assms(1) by (auto simp: dir_inv_def index_inv_def Let_def)
  then show ?thesis using assms by (auto simp: dir_inv_def session_ok_def)
qed

lemma live_lookups:
  assumes "dir_inv uuid_ok d" "r \<in> live_refs d"
  shows "by_name (dm_sessions d) (ds_name (dm_heap d r)) = Some r" "map_of (by_pane (dm_sessions d)) (ds_pane_id (dm_heap d r)) = Some r"
    "map_of (by_id (dm_sessions d)) (ds_id (dm_heap d r)) = Some r"
  using assms by (auto simp: dir_inv_def index_inv_def Let_def)

lemma id_lookup_text:
  assumes "dir_inv uuid_ok d" "map_of (by_id (dm_sessions d)) k = Some r"
  shows "uuid_text k"
proof -
  have "(k, r) \<in> set (by_id (dm_sessions d))" using assms(2) by (rule map_of_SomeD)
  then have "r \<in> live_refs d" "k = ds_id (dm_heap d r)" using assms(1) by (auto simp: dir_inv_def index_inv_def Let_def)
  then show ?thesis using assms(1) by (auto simp: dir_inv_def session_ok_def)
qed

lemma session_addressable:
  assumes "dir_inv uuid_ok d" "r \<in> live_refs d"
  shows "resolve_session (ds_name (dm_heap d r)) d = Inr r" "resolve_session (ds_pane_id (dm_heap d r)) d = Inr r"
    "resolve_session (ds_id (dm_heap d r)) d = Inr r"
    "ds_pane_id (dm_heap d r) = pane_of n \<Longrightarrow> resolve_session (decimal n) d = Inr r"
proof -
  let ?s = "dm_heap d r"
  have ok: "session_ok uuid_ok ?s" using assms by (auto simp: dir_inv_def)
  note found = live_lookups [OF assms]
  note name = name_ok_facts [of uuid_ok "ds_name ?s"]
  have text_id: "uuid_text (ds_id ?s)" "uuid_ok (ds_id ?s)" using ok by (simp_all add: session_ok_def)
  obtain p where p: "ds_pane_id ?s = pane_of p" using ok by (auto simp: session_ok_def)
  show "resolve_session (ds_name ?s) d = Inr r"
    using name ok found(1) by (simp add: resolve_session_def resolve_session_locked_def session_ok_def Let_def)
  show "resolve_session (ds_pane_id ?s) d = Inr r"
    using found(2) by (simp add: resolve_session_def resolve_session_locked_def p pane_facts Let_def)
  have "\<not> name_ok uuid_ok (ds_id ?s)" using text_id(2) name_ok_facts(4) by blast
  then show "resolve_session (ds_id ?s) d = Inr r"
    using name_not_found [OF assms(1)] found(3) uuid_text_facts(1,2) [OF text_id(1)]
    by (simp add: resolve_session_def resolve_session_locked_def Let_def)
  assume n: "ds_pane_id ?s = pane_of n"
  have "\<not> name_ok uuid_ok (decimal n)" using name_ok_facts(5) decimal_digits(1) by blast
  moreover have "map_of (by_id (dm_sessions d)) (decimal n) = None"
    using id_lookup_text [OF assms(1)] uuid_text_facts(3) by (cases "map_of (by_id (dm_sessions d)) (decimal n)") blast+
  ultimately show "resolve_session (decimal n) d = Inr r"
    using name_not_found [OF assms(1)] found(2) n pane_facts(3,4)
    by (simp add: resolve_session_def resolve_session_locked_def pane_of_def Let_def)
qed

section \<open>The invariant is kept\<close>

lemma update_session_sel [simp]:
  "dm_sessions (update_session r f d) = dm_sessions d" "dm_allocated (update_session r f d) = dm_allocated d"
  "dm_reservations (update_session r f d) = dm_reservations d" "dm_cleaning (update_session r f d) = dm_cleaning d"
  "dm_heap (update_session r f d) = (dm_heap d)(r := f (dm_heap d r))"
  by (simp_all add: update_session_def)

lemma update_maps_sel [simp]:
  "dm_sessions (update_maps g d) = g (dm_sessions d)" "dm_allocated (update_maps g d) = dm_allocated d"
  "dm_reservations (update_maps g d) = dm_reservations d" "dm_cleaning (update_maps g d) = dm_cleaning d"
  "dm_heap (update_maps g d) = dm_heap d"
  by (simp_all add: update_maps_def)

lemma resolved_live:
  assumes "dir_inv uuid_ok d" "resolve_session_locked (dm_sessions d) target = Some r"
  shows "r \<in> live_refs d"
proof -
  have "(\<exists>k. (k, r) \<in> set (by_pane (dm_sessions d))) \<or> (\<exists>k. by_name (dm_sessions d) k = Some r) \<or> (\<exists>k. (k, r) \<in> set (by_id (dm_sessions d)))"
    using assms(2) by (auto simp: resolve_session_locked_def Let_def split: option.splits if_splits dest: map_of_SomeD)
  then show ?thesis using assms(1) by (auto simp: dir_inv_def index_inv_def Let_def)
qed

text \<open>A change of one session that keeps its identity.\<close>

definition keeps_identity :: "dsession \<Rightarrow> dsession \<Rightarrow> bool" where
  "keeps_identity s t \<longleftrightarrow> ds_id t = ds_id s \<and> ds_pane_id t = ds_pane_id s \<and> ds_cleanup_started t = ds_cleanup_started s
     \<and> (journal_wf (ds_metadata s) \<longrightarrow> journal_wf (ds_metadata t))
     \<and> (identity_commit_guard (ds_lifecycle t) \<longrightarrow> identity_commit_guard (ds_lifecycle s))"

lemma live_refs_update: "keeps_identity (dm_heap d r) (f (dm_heap d r)) \<Longrightarrow> live_refs (update_session r f d) = live_refs d"
  by (auto simp: live_refs_def keeps_identity_def)

lemma index_inv_same:
  assumes "index_inv d" "live_refs d' = live_refs d" "by_pane (dm_sessions d') = by_pane (dm_sessions d)"
    "by_id (dm_sessions d') = by_id (dm_sessions d)"
    "\<And>q. ds_pane_id (dm_heap d' q) = ds_pane_id (dm_heap d q)" "\<And>q. ds_id (dm_heap d' q) = ds_id (dm_heap d q)"
    "\<And>k q. by_name (dm_sessions d') k = Some q \<longleftrightarrow> q \<in> live_refs d \<and> ds_name (dm_heap d' q) = k"
  shows "index_inv d'"
  using assms by (simp add: index_inv_def Let_def)

lemma reservation_inv_same:
  assumes "reservation_inv uuid_ok d" "dm_reservations d' = dm_reservations d"
    "reserved_names (dm_sessions d') = reserved_names (dm_sessions d)" "reserved_panes (dm_sessions d') = reserved_panes (dm_sessions d)"
    "by_pane (dm_sessions d') = by_pane (dm_sessions d)" "\<forall>name\<in>set (reserved_names (dm_sessions d)). by_name (dm_sessions d') name = None"
  shows "reservation_inv uuid_ok d'"
  using assms unfolding reservation_inv_def reserved_ok_def Let_def by metis

lemma reserved_name_free:
  assumes "reservation_inv uuid_ok d" "name \<in> set (reserved_names (dm_sessions d))"
  shows "by_name (dm_sessions d) name = None" "name_ok uuid_ok name"
proof -
  have "reserved_ok uuid_ok (by_name (dm_sessions d)) (by_pane (dm_sessions d)) (reserved_names (dm_sessions d)) (reserved_panes (dm_sessions d))"
    using assms(1) unfolding reservation_inv_def Let_def by blast
  then show "by_name (dm_sessions d) name = None" "name_ok uuid_ok name" using assms(2) unfolding reserved_ok_def by blast+
qed

lemma update_session_keeps:
  assumes "dir_inv uuid_ok d" "keeps_identity (dm_heap d r) (f (dm_heap d r))" "ds_name (f (dm_heap d r)) = ds_name (dm_heap d r)"
  shows "dir_inv uuid_ok (update_session r f d)"
proof -
  let ?d = "update_session r f d"
  have live: "live_refs ?d = live_refs d" using live_refs_update [of d r f] assms(2) by simp
  have same: "ds_id (f (dm_heap d r)) = ds_id (dm_heap d r)" "ds_pane_id (f (dm_heap d r)) = ds_pane_id (dm_heap d r)"
    using assms(2) by (simp_all add: keeps_identity_def)
  have names: "ds_name (dm_heap ?d q) = ds_name (dm_heap d q)" for q using assms(3) by simp
  have "index_inv d" using assms(1) by (simp add: dir_inv_def)
  then have "index_inv ?d"
    by (rule index_inv_same) (use live same names \<open>index_inv d\<close> in \<open>auto simp: index_inv_def Let_def\<close>)
  moreover have "reservation_inv uuid_ok ?d" using assms(1) by (simp add: dir_inv_def reservation_inv_def)
  moreover have "\<forall>q\<in>live_refs ?d. session_ok uuid_ok (dm_heap ?d q)"
    using assms live by (auto simp: dir_inv_def session_ok_def keeps_identity_def)
  moreover have "\<forall>q\<in>set (dm_cleaning ?d). q < dm_allocated ?d \<and> ds_cleanup_started (dm_heap ?d q)
      \<and> \<not> identity_commit_guard (ds_lifecycle (dm_heap ?d q))"
    using assms(1,2) by (auto simp: dir_inv_def keeps_identity_def)
  ultimately show ?thesis by (simp add: dir_inv_def)
qed

text \<open>A change of the name of a session, with the index of names.\<close>

lemma id_injective:
  assumes "dir_inv uuid_ok d" "q \<in> live_refs d" "r \<in> live_refs d" "ds_id (dm_heap d q) = ds_id (dm_heap d r)"
  shows "q = r"
  using live_lookups(3) [OF assms(1,2)] live_lookups(3) [OF assms(1,3)] unfolding assms(4) by (metis option.inject)

lemma not_taken:
  assumes "dir_inv uuid_ok d" "r \<in> live_refs d" "\<not> name_taken name (dm_heap d r) d" "ds_name (dm_heap d r) \<noteq> name"
  shows "by_name (dm_sessions d) name = None" "name \<notin> set (reserved_names (dm_sessions d))"
proof -
  show "name \<notin> set (reserved_names (dm_sessions d))" using assms(3) by (simp add: name_taken_def)
  show "by_name (dm_sessions d) name = None"
  proof (cases "by_name (dm_sessions d) name")
    case (Some q)
    then have q: "q \<in> live_refs d" "ds_name (dm_heap d q) = name" using assms(1) by (auto simp: dir_inv_def index_inv_def Let_def)
    have "ds_id (dm_heap d q) = ds_id (dm_heap d r)" using assms(3) Some by (simp add: name_taken_def)
    then have "q = r" using id_injective assms(1,2) q(1) by blast
    then show ?thesis using q(2) assms(4) by simp
  qed
qed

lemma rename_keeps:
  assumes "dir_inv uuid_ok d" "r \<in> live_refs d" "keeps_identity (dm_heap d r) (f (dm_heap d r))"
    "ds_name (dm_heap d r) = old" "ds_name (f (dm_heap d r)) = name" "old \<noteq> name"
    "by_name (dm_sessions d) name = None" "name \<notin> set (reserved_names (dm_sessions d))" "name_ok uuid_ok name"
  shows "dir_inv uuid_ok (update_maps (\<lambda>m. m\<lparr>by_name := ((by_name m)(old := None))(name \<mapsto> r)\<rparr>) (update_session r f d))"
proof -
  let ?d1 = "update_session r f d"
  let ?d = "update_maps (\<lambda>m. m\<lparr>by_name := ((by_name m)(old := None))(name \<mapsto> r)\<rparr>) ?d1"
  have live: "live_refs ?d = live_refs d" using live_refs_update [of d r f] assms(3) by (simp add: live_refs_def)
  have same: "ds_id (f (dm_heap d r)) = ds_id (dm_heap d r)" "ds_pane_id (f (dm_heap d r)) = ds_pane_id (dm_heap d r)"
    using assms(3) by (simp_all add: keeps_identity_def)
  have names: "by_name (dm_sessions d) k = Some q \<longleftrightarrow> q \<in> live_refs d \<and> ds_name (dm_heap d q) = k" for k q
    using assms(1) by (simp add: dir_inv_def index_inv_def Let_def)
  have old_r: "q = r" if "q \<in> live_refs d" "ds_name (dm_heap d q) = old" for q
    using names [of old q] names [of old r] that assms(2,4) by simp
  have new_names: "by_name (dm_sessions ?d) k = Some q \<longleftrightarrow> q \<in> live_refs d \<and> ds_name (dm_heap ?d q) = k" for k q
  proof (cases "q = r")
    case True
    then show ?thesis using names [of k r] assms(2,4,5,6) by auto
  next
    case False
    have heap: "dm_heap ?d q = dm_heap d q" using False by simp
    have "by_name (dm_sessions ?d) k = Some q \<longleftrightarrow> k \<noteq> name \<and> k \<noteq> old \<and> by_name (dm_sessions d) k = Some q"
      using False by auto
    also have "\<dots> \<longleftrightarrow> k \<noteq> name \<and> k \<noteq> old \<and> q \<in> live_refs d \<and> ds_name (dm_heap d q) = k" by (simp only: names)
    also have "\<dots> \<longleftrightarrow> q \<in> live_refs d \<and> ds_name (dm_heap d q) = k"
      using names [of name q] old_r [of q] assms(7) False by auto
    finally show ?thesis unfolding heap .
  qed
  have "index_inv d" using assms(1) by (simp add: dir_inv_def)
  then have index: "index_inv ?d" by (rule index_inv_same) (use live same new_names in simp_all)
  have "old \<notin> set (reserved_names (dm_sessions d))"
  proof
    assume "old \<in> set (reserved_names (dm_sessions d))"
    then have "by_name (dm_sessions d) old = None" using reserved_name_free(1) assms(1) unfolding dir_inv_def by blast
    then show False using names [of old r] assms(2,4) by simp
  qed
  moreover have res: "reservation_inv uuid_ok d" using assms(1) by (simp add: dir_inv_def)
  ultimately have "\<forall>k\<in>set (reserved_names (dm_sessions d)). by_name (dm_sessions ?d) k = None"
    using assms(8) reserved_name_free(1) [OF res] by auto
  then have "reservation_inv uuid_ok ?d" by (intro reservation_inv_same [OF res]) simp_all
  moreover have "\<forall>q\<in>live_refs ?d. session_ok uuid_ok (dm_heap ?d q)"
    using assms(1,3,5,9) live by (auto simp: dir_inv_def session_ok_def keeps_identity_def)
  moreover have "\<forall>q\<in>set (dm_cleaning ?d). q < dm_allocated ?d \<and> ds_cleanup_started (dm_heap ?d q)
      \<and> \<not> identity_commit_guard (ds_lifecycle (dm_heap ?d q))"
    using assms(1,3) by (auto simp: dir_inv_def keeps_identity_def)
  ultimately show ?thesis using index by (simp add: dir_inv_def)
qed

section \<open>The history of metadata\<close>

lemma append_entry_wf:
  assumes "journal_wf m" "validate_metadata_append m = Inr ()"
  shows "journal_wf (append_entry operation v m)"
proof -
  have m: "md_cursor m = length (md_entries m)" "length (md_entries m) < MAX_METADATA_JOURNAL_ENTRIES"
    using assms(2) by (auto simp: validate_metadata_append_def split: if_splits)
  have "je_after ((md_entries m @ [e]) ! i) = je_before ((md_entries m @ [e]) ! Suc i)"
    if "Suc i < Suc (length (md_entries m))" "je_before e = md_current m" for i e
  proof (cases "Suc i < length (md_entries m)")
    case True
    then show ?thesis using assms(1) by (simp add: journal_wf_def nth_append)
  next
    case False
    then have i: "length (md_entries m) = Suc i" using that(1) by simp
    then have "je_after (md_entries m ! i) = md_current m" using assms(1) m(1) by (simp add: journal_wf_def)
    then show ?thesis using that(2) i by (simp add: nth_append)
  qed
  then show ?thesis using m by (auto simp: journal_wf_def append_entry_def)
qed

lemma step_plan_wf:
  assumes "journal_wf m" "metadata_step_plan direction m = Inr (expected, v, c)"
  shows "expected = md_current m" "journal_wf (m\<lparr>md_current := v, md_cursor := c\<rparr>)"
proof -
  show "expected = md_current m"
    using assms by (auto simp: metadata_step_plan_def journal_wf_def Let_def split: metadata_step_direction.splits if_splits)
  show "journal_wf (m\<lparr>md_current := v, md_cursor := c\<rparr>)"
  proof (cases direction)
    case Undo
    then have c: "md_cursor m > 0" "c = md_cursor m - 1" "v = je_before (md_entries m ! c)"
      using assms(2) by (auto simp: metadata_step_plan_def Let_def split: if_splits)
    have "je_after (md_entries m ! (c - 1)) = v" if "c > 0"
    proof -
      from that obtain k where k: "c = Suc k" by (cases c) auto
      then have "Suc k < length (md_entries m)" using assms(1) c(1,2) by (auto simp: journal_wf_def)
      then show ?thesis using assms(1) c(3) k by (simp add: journal_wf_def)
    qed
    moreover have "md_cursor m - 1 \<le> length (md_entries m)" using assms(1) by (simp add: journal_wf_def le_diff_conv)
    ultimately show ?thesis using assms(1) c by (simp add: journal_wf_def)
  next
    case Redo
    then have c: "md_cursor m < length (md_entries m)" "c = Suc (md_cursor m)" "v = je_after (md_entries m ! md_cursor m)"
      using assms(2) by (auto simp: metadata_step_plan_def Let_def split: if_splits)
    then have "je_before (md_entries m ! c) = v" if "c < length (md_entries m)"
      using assms(1) that by (auto simp: journal_wf_def)
    then show ?thesis using assms(1) c by (auto simp: journal_wf_def)
  qed
qed

lemma open_guard: "session_commit_guard s = Inr () \<Longrightarrow> identity_commit_guard (ds_lifecycle s)"
  by (simp add: session_commit_guard_def)

text \<open>What the admission has found and the commit relies on.\<close>

fun change_ok :: "(ustring \<Rightarrow> bool) \<Rightarrow> daemon \<Rightarrow> identity_change \<Rightarrow> bool" where
  "change_ok uuid_ok d (ChangeName r name) \<longleftrightarrow> r \<in> live_refs d \<and> name_ok uuid_ok name \<and> ds_name (dm_heap d r) \<noteq> name
     \<and> by_name (dm_sessions d) name = None \<and> name \<notin> set (reserved_names (dm_sessions d))
     \<and> validate_metadata_append (ds_metadata (dm_heap d r)) = Inr ()"
| "change_ok uuid_ok d (ChangeStep r v c) \<longleftrightarrow> r \<in> live_refs d
     \<and> (\<exists>direction. metadata_step_plan direction (ds_metadata (dm_heap d r)) = Inr (md_current (ds_metadata (dm_heap d r)), v, c))
     \<and> (ds_name (dm_heap d r) = mv_name v \<or> name_ok uuid_ok (mv_name v) \<and> by_name (dm_sessions d) (mv_name v) = None
         \<and> mv_name v \<notin> set (reserved_names (dm_sessions d)))"

lemma admit_rename_ok:
  assumes "dir_inv uuid_ok d" "admit_rename uuid_ok target name d = Inr (Some c)"
  shows "change_ok uuid_ok d c"
proof -
  obtain r where r: "resolve_session_locked (dm_sessions d) (normalize_target target) = Some r"
    and c: "c = ChangeName r name" "name_ok uuid_ok name" "ds_name (dm_heap d r) \<noteq> name" "\<not> name_taken name (dm_heap d r) d"
      "validate_metadata_append (ds_metadata (dm_heap d r)) = Inr ()"
    using assms(2) by (auto simp: admit_rename_def name_ok_def Let_def split: if_splits)
  note live = resolved_live [OF assms(1) r]
  show ?thesis using c live not_taken [OF assms(1) live c(4,3)] by simp
qed

lemma admit_step_ok:
  assumes "dir_inv uuid_ok d" "admit_metadata_step uuid_ok target direction d = Inr change"
  obtains r v c where "change = ChangeStep r v c" "resolve_session_locked (dm_sessions d) (normalize_target target) = Some r"
    "metadata_step_plan direction (ds_metadata (dm_heap d r)) = Inr (md_current (ds_metadata (dm_heap d r)), v, c)" "change_ok uuid_ok d change"
proof -
  obtain r v c where r: "resolve_session_locked (dm_sessions d) (normalize_target target) = Some r" and c: "change = ChangeStep r v c"
    and plan: "metadata_step_plan direction (ds_metadata (dm_heap d r)) = Inr (md_current (ds_metadata (dm_heap d r)), v, c)"
    and valid: "validate_metadata_name_transition uuid_ok (dm_heap d r) (ds_name (dm_heap d r)) (mv_name v) d = Inr ()"
    using assms(2) by (auto simp: admit_metadata_step_def Let_def split: if_splits)
  note live = resolved_live [OF assms(1) r]
  have "ds_name (dm_heap d r) = mv_name v \<or> name_ok uuid_ok (mv_name v) \<and> \<not> name_taken (mv_name v) (dm_heap d r) d"
    using valid by (auto simp: validate_metadata_name_transition_def name_ok_def split: if_splits)
  then have "change_ok uuid_ok d change" using c live plan not_taken [OF assms(1) live] by auto
  with that r c plan show thesis by blast
qed

lemma commit_rename_keeps:
  assumes "dir_inv uuid_ok d" "change_ok uuid_ok d (ChangeName r name)" "commit_identity_change (ChangeName r name) d = Inr d'"
  shows "dir_inv uuid_ok d'"
proof -
  let ?s = "dm_heap d r" let ?m = "ds_metadata ?s"
  define f :: "dsession \<Rightarrow> dsession" where "f = (\<lambda>s. s\<lparr>ds_metadata := append_entry OpRename ((md_current ?m)\<lparr>mv_name := name\<rparr>) ?m\<rparr>)"
  have d': "d' = update_maps (\<lambda>m. m\<lparr>by_name := ((by_name m)(ds_name ?s := None))(name \<mapsto> r)\<rparr>) (update_session r f d)"
    using assms(3) by (auto simp: commit_identity_change_def Let_def f_def)
  have "keeps_identity ?s (f ?s)" using append_entry_wf assms(2) by (simp add: keeps_identity_def f_def)
  moreover have "ds_name (f ?s) = name" by (simp add: f_def ds_name_def append_entry_def)
  ultimately show ?thesis unfolding d' using rename_keeps [OF assms(1), of r f "ds_name ?s" name] assms(2) by simp
qed

lemma set_status_theme_keeps:
  assumes "dir_inv uuid_ok d" "set_status_theme target theme d = Inr d'"
  shows "dir_inv uuid_ok d'"
proof -
  obtain r where r: "resolve_session_locked (dm_sessions d) (normalize_target target) = Some r" using assms(2) by (auto simp: set_status_theme_def)
  let ?m = "ds_metadata (dm_heap d r)"
  define f :: "dsession \<Rightarrow> dsession" where "f = (\<lambda>s. s\<lparr>ds_metadata := append_entry OpStatusTheme ((md_current ?m)\<lparr>mv_status_theme := theme\<rparr>) ?m\<rparr>)"
  have "d' = d \<or> validate_metadata_append ?m = Inr () \<and> d' = update_session r f d"
    using assms(2) r by (auto simp: set_status_theme_def Let_def f_def split: if_splits)
  then show ?thesis
    using assms(1) update_session_keeps [OF assms(1), of r f] append_entry_wf [of ?m OpStatusTheme]
    by (auto simp: keeps_identity_def f_def ds_name_def append_entry_def)
qed

lemma commit_step_shape:
  assumes "commit_identity_change (ChangeStep r v c) d = Inr d'"
  shows "identity_commit_guard (ds_lifecycle (dm_heap d r))"
    "d' = update_maps (apply_metadata_name_transition r (ds_name (dm_heap d r)) (mv_name v))
      (update_session r (\<lambda>s. s\<lparr>ds_metadata := (ds_metadata s)\<lparr>md_current := v, md_cursor := c\<rparr>\<rparr>) d)"
  using assms open_guard by (auto simp: commit_identity_change_def update_session_def Let_def)

lemma commit_step_keeps:
  assumes "dir_inv uuid_ok d" "change_ok uuid_ok d (ChangeStep r v c)" "commit_identity_change (ChangeStep r v c) d = Inr d'"
  shows "dir_inv uuid_ok d'"
proof -
  obtain direction where r: "r \<in> live_refs d"
    "metadata_step_plan direction (ds_metadata (dm_heap d r)) = Inr (md_current (ds_metadata (dm_heap d r)), v, c)"
    and names: "ds_name (dm_heap d r) = mv_name v \<or> name_ok uuid_ok (mv_name v) \<and> by_name (dm_sessions d) (mv_name v) = None
      \<and> mv_name v \<notin> set (reserved_names (dm_sessions d))"
    using assms(2) by auto
  note d' = commit_step_shape(2) [OF assms(3)]
  let ?s = "dm_heap d r" let ?f = "\<lambda>s. s\<lparr>ds_metadata := (ds_metadata s)\<lparr>md_current := v, md_cursor := c\<rparr>\<rparr>"
  have keeps: "keeps_identity ?s (?f ?s)" using step_plan_wf(2) [OF _ r(2)] by (simp add: keeps_identity_def)
  have named: "ds_name (?f ?s) = mv_name v" by (simp add: ds_name_def)
  show ?thesis
  proof (cases "ds_name ?s = mv_name v")
    case True
    have "apply_metadata_name_transition r (ds_name ?s) (mv_name v) = (\<lambda>m. m)" by (simp add: apply_metadata_name_transition_def True fun_eq_iff)
    then have "d' = update_session r ?f d" unfolding d' by (simp add: update_maps_def)
    then show ?thesis using update_session_keeps [OF assms(1), of r ?f] keeps named True by simp
  next
    case False
    have "apply_metadata_name_transition r (ds_name ?s) (mv_name v)
        = (\<lambda>m. m\<lparr>by_name := ((by_name m)(ds_name ?s := None))(mv_name v \<mapsto> r)\<rparr>)"
      using False by (simp add: apply_metadata_name_transition_def fun_eq_iff)
    then show ?thesis unfolding d' using rename_keeps [OF assms(1) r(1), of ?f] keeps named names False by simp
  qed
qed

lemma commit_change_keeps:
  assumes "dir_inv uuid_ok d" "change_ok uuid_ok d c" "commit_identity_change c d = Inr d'"
  shows "dir_inv uuid_ok d'"
  using assms by (cases c) (blast intro: commit_rename_keeps commit_step_keeps)+

lemma metadata_step_shape:
  assumes "dir_inv uuid_ok d" "metadata_step uuid_ok target direction d = Inr d'"
  obtains r v c where "resolve_session_locked (dm_sessions d) (normalize_target target) = Some r" "r \<in> live_refs d"
    "metadata_step_plan direction (ds_metadata (dm_heap d r)) = Inr (md_current (ds_metadata (dm_heap d r)), v, c)"
    "identity_commit_guard (ds_lifecycle (dm_heap d r))"
    "ds_name (dm_heap d r) = mv_name v \<or> name_ok uuid_ok (mv_name v) \<and> by_name (dm_sessions d) (mv_name v) = None
      \<and> mv_name v \<notin> set (reserved_names (dm_sessions d))"
    "d' = update_maps (apply_metadata_name_transition r (ds_name (dm_heap d r)) (mv_name v))
      (update_session r (\<lambda>s. s\<lparr>ds_metadata := (ds_metadata s)\<lparr>md_current := v, md_cursor := c\<rparr>\<rparr>) d)"
proof -
  obtain change where change: "admit_metadata_step uuid_ok target direction d = Inr change" "commit_identity_change change d = Inr d'"
    using assms(2) by (auto simp: metadata_step_def)
  obtain r v c where r: "change = ChangeStep r v c" "resolve_session_locked (dm_sessions d) (normalize_target target) = Some r"
    "metadata_step_plan direction (ds_metadata (dm_heap d r)) = Inr (md_current (ds_metadata (dm_heap d r)), v, c)" "change_ok uuid_ok d change"
    by (rule admit_step_ok [OF assms(1) change(1)])
  have found: "r \<in> live_refs d" "ds_name (dm_heap d r) = mv_name v \<or> name_ok uuid_ok (mv_name v) \<and> by_name (dm_sessions d) (mv_name v) = None
      \<and> mv_name v \<notin> set (reserved_names (dm_sessions d))" using r(4) unfolding r(1) by simp_all
  note shape = commit_step_shape [OF change(2) [unfolded r(1)]]
  show thesis by (rule that [OF r(2) found(1) r(3) shape(1) found(2) shape(2)])
qed

lemma metadata_step_keeps:
  assumes "dir_inv uuid_ok d" "metadata_step uuid_ok target direction d = Inr d'"
  shows "dir_inv uuid_ok d'"
proof -
  obtain change where "admit_metadata_step uuid_ok target direction d = Inr change" "commit_identity_change change d = Inr d'"
    using assms(2) by (auto simp: metadata_step_def)
  then show ?thesis using admit_step_ok [OF assms(1)] commit_change_keeps [OF assms(1)] by metis
qed

section \<open>Reservations\<close>

lemma ascii_bytes: "list_all (\<lambda>c. c < 0x80) s \<Longrightarrow> length (as_bytes s) = length s"
  by (induction s) (simp_all add: as_bytes_def utf8_encode_def)

lemma decimal_short: "n < 1000 \<Longrightarrow> length (decimal n) \<le> 3"
  by (simp add: decimal.simps [of n] decimal.simps [of "n div 10"] decimal.simps [of "n div 10 div 10"])

lemma auto_name_ok:
  assumes "uuid_parser uuid_ok" "n < MAX_SESSIONS"
  shows "name_ok uuid_ok (lit ''lterm-'' @ decimal n)"
proof -
  let ?name = "lit ''lterm-'' @ decimal n"
  have lterm: "lit ''lterm-'' = [0x6c, 0x74, 0x65, 0x72, 0x6d, 0x2d]" by (simp add: lit_def)
  have chars: "list_all (\<lambda>c. is_ascii_alphabetic c \<or> is_digit_char c \<or> c \<in> set (lit ''._-'')) ?name"
    using decimal_digits(1) [of n] by (auto simp: lterm list_all_iff is_ascii_alphabetic_def lit_def)
  then have "list_all (\<lambda>c. c < 0x80) ?name"
    by (auto simp: list_all_iff is_ascii_alphabetic_def is_digit_char_def lit_def)
  then have "length (as_bytes ?name) \<le> 128"
    using ascii_bytes decimal_short [of n] assms(2) by (simp add: MAX_SESSIONS_def lterm)
  moreover have "str_trim ?name = ?name"
    by (rule no_space_trim) (use chars graphic_no_space in \<open>auto simp: list_all_iff lit_def\<close>)
  moreover have "\<not> starts_with_str (lit ''%'') ?name" "\<not> starts_with_str (lit ''-'') ?name" "\<not> session_name_looks_like_bare_pane_id ?name"
    by (simp_all add: lterm starts_with_str_def lit_def session_name_looks_like_bare_pane_id_def is_digit_char_def)
  moreover have "\<not> uuid_ok ?name" using assms(1) by (simp add: uuid_parser_def)
  ultimately show ?thesis using chars by (simp add: name_ok_def validate_session_name_syntax_def lterm)
qed

lemma select_identity_spec:
  assumes "select_identity m requested ns = Some (pane_id, name)"
  shows "pane_id \<in> pane_of ` set ns \<and> map_of (by_pane m) pane_id = None \<and> pane_id \<notin> set (reserved_panes m) \<and>
    (requested = Some name \<or> requested = None \<and> name \<in> (\<lambda>n. lit ''lterm-'' @ decimal n) ` set ns \<and> by_name m name = None
      \<and> name \<notin> set (reserved_names m))"
  using assms by (induction ns) (auto simp: Let_def split: if_splits option.splits)

text \<open>The laws of reserved names: adding one, releasing one, and turning one into a session.\<close>

lemma reserved_ok_add:
  assumes "reserved_ok uuid_ok index panes_index names panes" "index name = None" "name \<notin> set names" "name_ok uuid_ok name"
    "pane_id \<notin> fst ` set panes_index" "pane_id \<notin> set panes" "pane_id \<in> pane_of ` {..<MAX_SESSIONS}"
    "length panes_index + length panes < MAX_SESSIONS"
  shows "reserved_ok uuid_ok index panes_index (names @ [name]) (panes @ [pane_id])"
  using assms unfolding reserved_ok_def by simp

lemma reserved_ok_release:
  assumes "reserved_ok uuid_ok index panes_index names panes"
  shows "reserved_ok uuid_ok index panes_index (removeAll name names) (removeAll pane_id panes)"
proof -
  have "length (removeAll pane_id panes) \<le> length panes" unfolding removeAll_filter_not_eq by (rule length_filter_le)
  then have "length panes_index + length (removeAll pane_id panes) \<le> MAX_SESSIONS" using assms unfolding reserved_ok_def by linarith
  then show ?thesis using assms unfolding reserved_ok_def by (auto simp: distinct_removeAll)
qed

lemma reserved_ok_commit:
  assumes "reserved_ok uuid_ok index panes_index names panes" "pane_id \<in> set panes"
  shows "reserved_ok uuid_ok (index(name \<mapsto> r)) (panes_index @ [(pane_id, r)]) (removeAll name names) (removeAll pane_id panes)"
proof -
  have "length (removeAll pane_id panes) < length panes" using assms(2) by (rule length_removeAll_less)
  then show ?thesis using assms(1) unfolding reserved_ok_def by (auto simp: distinct_removeAll)
qed

lemma reservation_reserved_ok:
  "reservation_inv uuid_ok d \<Longrightarrow>
    reserved_ok uuid_ok (by_name (dm_sessions d)) (by_pane (dm_sessions d)) (reserved_names (dm_sessions d)) (reserved_panes (dm_sessions d))"
  unfolding reservation_inv_def Let_def by blast

lemma reserve_keeps:
  assumes "dir_inv uuid_ok d" "uuid_parser uuid_ok" "reserve_session_identity uuid_ok requested (dm_sessions d) = Inr (reservation, m)"
  shows "dir_inv uuid_ok (d\<lparr>dm_sessions := m, dm_reservations := dm_reservations d @ [reservation]\<rparr>)"
proof -
  let ?m = "dm_sessions d"
  obtain pane_id name where res: "reservation = (name, pane_id)" and sel: "select_identity ?m requested [0..<MAX_SESSIONS] = Some (pane_id, name)"
    and m: "m = ?m\<lparr>reserved_panes := reserved_panes ?m @ [pane_id], reserved_names := reserved_names ?m @ [name]\<rparr>"
    and room: "length (by_pane ?m) + length (reserved_panes ?m) < MAX_SESSIONS"
    and free: "\<not> is_some_and requested (\<lambda>name. by_name ?m name \<noteq> None \<or> name \<in> set (reserved_names ?m))"
    and valid: "is_none_or requested (name_ok uuid_ok)"
    using assms(3) by (auto simp: reserve_session_identity_def name_ok_def split: if_splits option.splits)
  note spec = select_identity_spec [OF sel]
  have name: "by_name ?m name = None" "name \<notin> set (reserved_names ?m)" "name_ok uuid_ok name"
    using spec free valid auto_name_ok [OF assms(2)] by auto
  have pane: "pane_id \<notin> fst ` set (by_pane ?m)" "pane_id \<notin> set (reserved_panes ?m)" "pane_id \<in> pane_of ` {..<MAX_SESSIONS}"
    using spec by (auto simp: map_of_eq_None_iff)
  have old: "reservation_inv uuid_ok d" "index_inv d" using assms(1) by (simp_all add: dir_inv_def)
  have "reservation_inv uuid_ok (d\<lparr>dm_sessions := m, dm_reservations := dm_reservations d @ [reservation]\<rparr>)"
    using old(1) reserved_ok_add [OF reservation_reserved_ok [OF old(1)] name(1,2,3) pane room] unfolding reservation_inv_def Let_def m res by simp
  moreover have "index_inv (d\<lparr>dm_sessions := m, dm_reservations := dm_reservations d @ [reservation]\<rparr>)"
    using old(2) by (simp add: index_inv_def m live_refs_def Let_def)
  ultimately show ?thesis using assms(1) by (simp add: dir_inv_def live_refs_def)
qed

lemma drop_nth_map:
  assumes "n < length xs" "distinct (map f xs)"
  shows "map f (drop_nth n xs) = removeAll (f (xs ! n)) (map f xs)"
proof -
  have split: "map f xs = map f (take n xs) @ f (xs ! n) # map f (drop (Suc n) xs)"
    using assms(1) by (metis id_take_nth_drop list.simps(9) map_append)
  then have "f (xs ! n) \<notin> set (map f (take n xs))" "f (xs ! n) \<notin> set (map f (drop (Suc n) xs))"
    using assms(2) by (metis distinct_append distinct.simps(2) disjoint_iff list.set_intros(1))+
  then show ?thesis unfolding split drop_nth_def by (simp add: removeAll_id)
qed

lemma reservation_lists:
  assumes "reservation_inv uuid_ok d" "n < length (dm_reservations d)" "dm_reservations d ! n = (name, pane_id)"
  shows "map fst (drop_nth n (dm_reservations d)) = removeAll name (reserved_names (dm_sessions d))"
    "map snd (drop_nth n (dm_reservations d)) = removeAll pane_id (reserved_panes (dm_sessions d))"
    "name \<in> set (reserved_names (dm_sessions d))" "pane_id \<in> set (reserved_panes (dm_sessions d))"
proof -
  have lists: "reserved_names (dm_sessions d) = map fst (dm_reservations d)" "reserved_panes (dm_sessions d) = map snd (dm_reservations d)"
    using assms(1) by (simp_all add: reservation_inv_def Let_def)
  have "distinct (reserved_names (dm_sessions d))" "distinct (reserved_panes (dm_sessions d))"
    using reservation_reserved_ok [OF assms(1)] unfolding reserved_ok_def by blast+
  then show "map fst (drop_nth n (dm_reservations d)) = removeAll name (reserved_names (dm_sessions d))"
    "map snd (drop_nth n (dm_reservations d)) = removeAll pane_id (reserved_panes (dm_sessions d))"
    using drop_nth_map [OF assms(2), of fst] drop_nth_map [OF assms(2), of snd] assms(3) unfolding lists by simp_all
  have "(name, pane_id) \<in> set (dm_reservations d)" using nth_mem [OF assms(2)] assms(3) by simp
  then show "name \<in> set (reserved_names (dm_sessions d))" "pane_id \<in> set (reserved_panes (dm_sessions d))" unfolding lists by force+
qed

lemma release_keeps:
  assumes "reservation_inv uuid_ok d" "n < length (dm_reservations d)"
  shows "reservation_inv uuid_ok ((update_maps (release_reservation (dm_reservations d ! n)) d)\<lparr>dm_reservations := drop_nth n (dm_reservations d)\<rparr>)"
proof -
  obtain name pane_id where r: "dm_reservations d ! n = (name, pane_id)" by fastforce
  show ?thesis
    using reservation_lists(1,2) [OF assms r] reserved_ok_release [OF reservation_reserved_ok [OF assms(1)], of name pane_id]
    unfolding reservation_inv_def Let_def by (simp add: release_reservation_def r)
qed

lemma drop_reservation_keeps:
  assumes "dir_inv uuid_ok d" "n < length (dm_reservations d)"
  shows "dir_inv uuid_ok ((update_maps (release_reservation (dm_reservations d ! n)) d)\<lparr>dm_reservations := drop_nth n (dm_reservations d)\<rparr>)"
proof -
  let ?d = "(update_maps (release_reservation (dm_reservations d ! n)) d)\<lparr>dm_reservations := drop_nth n (dm_reservations d)\<rparr>"
  have "index_inv ?d" using assms(1)
    by (auto simp: dir_inv_def index_inv_def live_refs_def Let_def release_reservation_def case_prod_beta)
  moreover have "reservation_inv uuid_ok ?d" using assms by (intro release_keeps) (simp_all add: dir_inv_def)
  ultimately show ?thesis using assms(1) by (simp add: dir_inv_def live_refs_def)
qed

section \<open>Committing a session\<close>

lemma alist_update_fresh: "map_of al k = None \<Longrightarrow> AList.update k v al = al @ [(k, v)]"
  by (induction al) (auto split: if_splits)

lemma commit_shape:
  assumes "reservation_commit (name, pane_id) r selection d = Inr d'" "ds_pane_id (dm_heap d r) = pane_id"
  obtains parent :: "parent_session option" where "by_name (dm_sessions d) name = None" "map_of (by_pane (dm_sessions d)) pane_id = None"
    "map_of (by_id (dm_sessions d)) (ds_id (dm_heap d r)) = None"
    "d' = update_maps (\<lambda>m. (release_reservation (name, pane_id) m)\<lparr>by_name := (by_name m)(name \<mapsto> r),
        by_pane := by_pane m @ [(pane_id, r)], by_id := by_id m @ [(ds_id (dm_heap d r), r)]\<rparr>)
      (update_session r (\<lambda>s. s\<lparr>ds_parent_pane_id := map_option ps_pane_id parent, ds_parent_session_id := map_option ps_id parent\<rparr>) d)"
proof -
  let ?m = "dm_sessions d"
  have free: "by_name ?m name = None" "map_of (by_pane ?m) pane_id = None" "map_of (by_id ?m) (ds_id (dm_heap d r)) = None"
    using assms by (auto simp: reservation_commit_def Let_def split: if_splits)
  have "\<exists>parent :: parent_session option. d' = update_maps (\<lambda>m. (release_reservation (name, pane_id) m)\<lparr>by_name := (by_name m)(name \<mapsto> r),
        by_pane := AList.update pane_id r (by_pane m), by_id := AList.update (ds_id (dm_heap d r)) r (by_id m)\<rparr>)
      (update_session r (\<lambda>s. s\<lparr>ds_parent_pane_id := map_option ps_pane_id parent, ds_parent_session_id := map_option ps_id parent\<rparr>) d)"
    using assms by (auto simp: reservation_commit_def Let_def split: if_splits)
  then obtain parent :: "parent_session option" where "d' = update_maps (\<lambda>m. (release_reservation (name, pane_id) m)\<lparr>by_name := (by_name m)(name \<mapsto> r),
        by_pane := AList.update pane_id r (by_pane m), by_id := AList.update (ds_id (dm_heap d r)) r (by_id m)\<rparr>)
      (update_session r (\<lambda>s. s\<lparr>ds_parent_pane_id := map_option ps_pane_id parent, ds_parent_session_id := map_option ps_id parent\<rparr>) d)" ..
  then show thesis using that [OF free, of parent] free by (simp add: update_maps_def alist_update_fresh)
qed

lemma new_session_fields [simp]:
  "ds_id (new_session res i token leader theme) = i" "ds_pane_id (new_session res i token leader theme) = snd res"
  "ds_name (new_session res i token leader theme) = fst res" "\<not> ds_cleanup_started (new_session res i token leader theme)"
  "ds_metadata (new_session res i token leader theme) = session_metadata_new (fst res) theme"
  by (simp_all add: new_session_def case_prod_beta ds_name_def session_metadata_new_def)

lemma new_journal_wf: "journal_wf (session_metadata_new name theme)"
  by (simp add: journal_wf_def session_metadata_new_def)

lemma committed_inv:
  assumes "dir_inv uuid_ok d" "n < length (dm_reservations d)" "uuid_ok i" "uuid_text i" "dm_reservations d ! n = (name, pane_id)"
    "map_of (by_pane (dm_sessions d)) pane_id = None" "map_of (by_id (dm_sessions d)) i = None" "by_name (dm_sessions d) name = None"
    "ds_id s = i" "ds_pane_id s = pane_id" "ds_name s = name" "\<not> ds_cleanup_started s" "journal_wf (ds_metadata s)"
    "d' = \<lparr>dm_heap = (dm_heap d)(dm_allocated d := s), dm_allocated = Suc (dm_allocated d),
      dm_sessions = (release_reservation (name, pane_id) (dm_sessions d))\<lparr>by_name := (by_name (dm_sessions d))(name \<mapsto> dm_allocated d),
        by_pane := by_pane (dm_sessions d) @ [(pane_id, dm_allocated d)], by_id := by_id (dm_sessions d) @ [(i, dm_allocated d)]\<rparr>,
      dm_reservations = drop_nth n (dm_reservations d), dm_cleaning = dm_cleaning d, dm_changing = dm_changing d\<rparr>"
  shows "dir_inv uuid_ok d'"
proof -
  let ?r = "dm_allocated d" let ?m = "dm_sessions d"
  have inv: "index_inv d" "reservation_inv uuid_ok d" using assms(1) by (simp_all add: dir_inv_def)
  have fresh: "r < ?r" if "r \<in> live_refs d" for r using that by (simp add: live_refs_def)
  have live: "live_refs d' = insert ?r (live_refs d)"
    using assms(1,12) by (auto simp: assms(14) live_refs_def dir_inv_def less_Suc_eq)
  have old: "dm_heap d' r = dm_heap d r" if "r \<in> live_refs d" for r using fresh [OF that] by (simp add: assms(14))
  have image: "(\<lambda>r. (h (dm_heap d' r), r)) ` live_refs d' = insert (h s, ?r) ((\<lambda>r. (h (dm_heap d r), r)) ` live_refs d)" for h :: "dsession \<Rightarrow> ustring"
  proof -
    have "(\<lambda>r. (h (dm_heap d' r), r)) ` live_refs d = (\<lambda>r. (h (dm_heap d r), r)) ` live_refs d" using old by (intro image_cong) simp_all
    then show ?thesis by (simp add: live) (simp add: assms(14))
  qed
  have keys: "pane_id \<notin> fst ` set (by_pane ?m)" "i \<notin> fst ` set (by_id ?m)" using assms(6,7) by (simp_all add: map_of_eq_None_iff)
  have names: "by_name (dm_sessions d') k = Some r \<longleftrightarrow> r \<in> live_refs d' \<and> ds_name (dm_heap d' r) = k" for k r
  proof -
    have was: "by_name ?m k = Some q \<longleftrightarrow> q \<in> live_refs d \<and> ds_name (dm_heap d q) = k" for k q
      using inv(1) by (simp add: index_inv_def Let_def)
    have upd: "by_name (dm_sessions d') = (by_name ?m)(name \<mapsto> ?r)" by (simp add: assms(14) release_reservation_def)
    show ?thesis
    proof (cases "r = ?r")
      case True
      have "?r \<notin> live_refs d" using fresh by blast
      then show ?thesis using True was [of k ?r] assms(11) by (auto simp: live upd) (simp_all add: assms(14))
    next
      case False
      have "by_name ?m name \<noteq> Some r" using assms(8) by simp
      then show ?thesis using False was [of k r] was [of name r] old [of r] by (auto simp: live upd)
    qed
  qed
  have "index_inv d'"
    using inv(1) keys names image [of ds_id] image [of ds_pane_id] assms(9,10)
    by (simp add: index_inv_def Let_def) (simp add: assms(14) release_reservation_def)
  moreover have "reservation_inv uuid_ok d'"
    using reservation_lists(1,2) [OF inv(2) assms(2,5)]
      reserved_ok_commit [OF reservation_reserved_ok [OF inv(2)] reservation_lists(4) [OF inv(2) assms(2,5)], of name "dm_allocated d"]
    unfolding reservation_inv_def Let_def by (simp add: assms(14) release_reservation_def)
  moreover have "session_ok uuid_ok (dm_heap d' r)" if "r \<in> live_refs d'" for r
  proof (cases "r = ?r")
    case True
    have "name_ok uuid_ok name" "pane_id \<in> pane_of ` {..<MAX_SESSIONS}"
      using reserved_name_free(2) [OF inv(2)] reservation_lists(3,4) [OF inv(2) assms(2,5)] reservation_reserved_ok [OF inv(2)]
      unfolding reserved_ok_def by blast+
    then show ?thesis using True assms(3,4,9,10,11,13) by (simp add: session_ok_def assms(14))
  next
    case False
    then show ?thesis using that live old [of r] assms(1) by (simp add: dir_inv_def)
  qed
  moreover have "\<forall>q\<in>set (dm_cleaning d'). q < dm_allocated d' \<and> ds_cleanup_started (dm_heap d' q)
      \<and> \<not> identity_commit_guard (ds_lifecycle (dm_heap d' q))"
    using assms(1) by (auto simp: dir_inv_def assms(14))
  ultimately show ?thesis by (simp add: dir_inv_def)
qed

lemma commit_new_session_keeps:
  assumes "dir_inv uuid_ok d" "n < length (dm_reservations d)" "uuid_ok i" "uuid_text i"
  shows "dir_inv uuid_ok (commit_new_session n i token leader theme selection d)"
proof -
  obtain name pane_id where res: "dm_reservations d ! n = (name, pane_id)" by fastforce
  let ?r = "dm_allocated d" let ?s = "new_session (name, pane_id) i token leader theme"
  let ?d1 = "d\<lparr>dm_heap := (dm_heap d)(?r := ?s)\<rparr>"
  show ?thesis
  proof (cases "reservation_commit (name, pane_id) ?r selection ?d1")
    case (Inl e)
    then show ?thesis using drop_reservation_keeps [OF assms(1,2)] by (simp add: commit_new_session_def Let_def res)
  next
    case (Inr d2)
    obtain parent :: "parent_session option" where free: "by_name (dm_sessions d) name = None" "map_of (by_pane (dm_sessions d)) pane_id = None"
      "map_of (by_id (dm_sessions d)) i = None"
      and d2: "d2 = update_maps (\<lambda>m. (release_reservation (name, pane_id) m)\<lparr>by_name := (by_name m)(name \<mapsto> ?r),
          by_pane := by_pane m @ [(pane_id, ?r)], by_id := by_id m @ [(i, ?r)]\<rparr>)
        (update_session ?r (\<lambda>s. s\<lparr>ds_parent_pane_id := map_option ps_pane_id parent, ds_parent_session_id := map_option ps_id parent\<rparr>) ?d1)"
      by (rule commit_shape [OF Inr]) simp_all
    let ?t = "?s\<lparr>ds_parent_pane_id := map_option ps_pane_id parent, ds_parent_session_id := map_option ps_id parent\<rparr>"
    have "commit_new_session n i token leader theme selection d = d2\<lparr>dm_reservations := drop_nth n (dm_reservations d), dm_allocated := Suc ?r\<rparr>"
      by (simp add: commit_new_session_def Let_def res Inr)
    also have "\<dots> = \<lparr>dm_heap = (dm_heap d)(?r := ?t), dm_allocated = Suc ?r,
      dm_sessions = (release_reservation (name, pane_id) (dm_sessions d))\<lparr>by_name := (by_name (dm_sessions d))(name \<mapsto> ?r),
        by_pane := by_pane (dm_sessions d) @ [(pane_id, ?r)], by_id := by_id (dm_sessions d) @ [(i, ?r)]\<rparr>,
      dm_reservations = drop_nth n (dm_reservations d), dm_cleaning = dm_cleaning d, dm_changing = dm_changing d\<rparr>"
      by (simp add: d2 update_maps_def update_session_def)
    finally show ?thesis
      using committed_inv [OF assms res free(2,3,1), of ?t] new_journal_wf by (simp add: ds_name_def new_session_def session_metadata_new_def)
  qed
qed

section \<open>Ending a session\<close>

lemma claim_closes: "\<not> identity_commit_guard (fst (fst (claim trigger event_id now later (p, alive))))"
  by (auto simp: claim_def identity_commit_guard_def count_conflict_def Let_def split: publication_state.split)

lemma start_cleanup_keeps:
  assumes "dir_inv uuid_ok d" "r < dm_allocated d" "\<not> identity_commit_guard (ds_lifecycle (dm_heap d r))"
  shows "dir_inv uuid_ok (start_cleanup r d)"
proof (cases "ds_cleanup_started (dm_heap d r)")
  case True
  then show ?thesis using assms(1) by (simp add: start_cleanup_def)
next
  case False
  let ?d = "(update_session r (\<lambda>s. s\<lparr>ds_cleanup_started := True\<rparr>) d)\<lparr>dm_cleaning := r # dm_cleaning d\<rparr>"
  have live: "live_refs ?d = live_refs d" using False assms(2) by (auto simp: live_refs_def)
  have fields: "ds_id (dm_heap ?d q) = ds_id (dm_heap d q)" "ds_pane_id (dm_heap ?d q) = ds_pane_id (dm_heap d q)"
    "ds_name (dm_heap ?d q) = ds_name (dm_heap d q)" "ds_metadata (dm_heap ?d q) = ds_metadata (dm_heap d q)"
    "ds_lifecycle (dm_heap ?d q) = ds_lifecycle (dm_heap d q)" for q
    by (simp_all add: ds_name_def)
  have inv: "index_inv d" "reservation_inv uuid_ok d" using assms(1) by (simp_all add: dir_inv_def)
  have "index_inv ?d" by (rule index_inv_same [OF inv(1) live]) (use inv(1) fields in \<open>simp_all add: index_inv_def Let_def\<close>)
  moreover have "reservation_inv uuid_ok ?d"
    by (rule reservation_inv_same [OF inv(2)]) (use reserved_name_free(1) [OF inv(2)] in simp_all)
  moreover have "\<forall>q\<in>live_refs ?d. session_ok uuid_ok (dm_heap ?d q)"
    using assms(1) unfolding live session_ok_def fields by (simp add: dir_inv_def session_ok_def)
  moreover have "\<forall>q\<in>set (dm_cleaning ?d). q < dm_allocated ?d \<and> ds_cleanup_started (dm_heap ?d q)
      \<and> \<not> identity_commit_guard (ds_lifecycle (dm_heap ?d q))"
    using assms by (auto simp: dir_inv_def)
  ultimately have "dir_inv uuid_ok ?d" by (simp add: dir_inv_def)
  then show ?thesis using False by (simp add: start_cleanup_def)
qed

lemma delete_graph:
  assumes "set al = (\<lambda>r. (k r, r)) ` A" "inj_on k A" "r \<in> A"
  shows "set (AList.delete (k r) al) = (\<lambda>r. (k r, r)) ` (A - {r})"
  using assms by (auto simp: AList.delete_eq inj_on_def)

lemma remove_keeps:
  assumes "dir_inv uuid_ok d" "r \<in> set (dm_cleaning d)"
  shows "dir_inv uuid_ok ((remove_session r d)\<lparr>dm_cleaning := removeAll r (dm_cleaning d)\<rparr>)"
proof -
  let ?m = "dm_sessions d" let ?s = "dm_heap d r"
  let ?m' = "?m\<lparr>by_name := (by_name ?m)(ds_name ?s := None), by_pane := AList.delete (ds_pane_id ?s) (by_pane ?m),
      by_id := AList.delete (ds_id ?s) (by_id ?m)\<rparr>"
  let ?d = "d\<lparr>dm_sessions := ?m', dm_cleaning := removeAll r (dm_cleaning d)\<rparr>"
  have r: "r \<in> live_refs d" "ds_cleanup_started ?s" using assms by (auto simp: dir_inv_def live_refs_def)
  note found = live_lookups [OF assms(1) r(1)]
  have eq: "(remove_session r d)\<lparr>dm_cleaning := removeAll r (dm_cleaning d)\<rparr> = ?d"
    by (simp add: remove_session_def found update_maps_def Let_def)
  have live: "live_refs ?d = live_refs d - {r}" using r by (auto simp: live_refs_def)
  have inv: "index_inv d" "reservation_inv uuid_ok d" using assms(1) by (simp_all add: dir_inv_def)
  have keyed: "set (by_pane ?m) = (\<lambda>r. (ds_pane_id (dm_heap d r), r)) ` live_refs d" "set (by_id ?m) = (\<lambda>r. (ds_id (dm_heap d r), r)) ` live_refs d"
    "distinct (map fst (by_pane ?m))" "distinct (map fst (by_id ?m))"
    and names: "\<And>k q. by_name ?m k = Some q \<longleftrightarrow> q \<in> live_refs d \<and> ds_name (dm_heap d q) = k"
    using inv(1) by (simp_all add: index_inv_def Let_def)
  have inj: "inj_on (\<lambda>r. ds_pane_id (dm_heap d r)) (live_refs d)" "inj_on (\<lambda>r. ds_id (dm_heap d r)) (live_refs d)"
    using live_lookups [OF assms(1)] by (auto simp: inj_on_def) (metis option.inject)+
  have only: "q = r" if "q \<in> live_refs d" "ds_name (dm_heap d q) = ds_name ?s" for q
    using names [of "ds_name ?s" q] names [of "ds_name ?s" r] that r(1) by simp
  have new_names: "by_name ?m' k = Some q \<longleftrightarrow> q \<in> live_refs ?d \<and> ds_name (dm_heap d q) = k" for k q
    using names [of k q] only [of q] by (auto simp: live)
  have "index_inv ?d"
    using delete_graph [OF keyed(1) inj(1) r(1)] delete_graph [OF keyed(2) inj(2) r(1)] keyed(3,4) new_names
    unfolding index_inv_def Let_def by (simp add: live AList.distinct_delete)
  moreover have "reservation_inv uuid_ok ?d"
  proof -
    have "set (AList.delete (ds_pane_id ?s) (by_pane ?m)) \<subseteq> set (by_pane ?m)" by (auto simp: AList.delete_eq)
    moreover have "length (AList.delete (ds_pane_id ?s) (by_pane ?m)) \<le> length (by_pane ?m)" by (rule AList.length_delete_le)
    ultimately have "reserved_ok uuid_ok (by_name ?m') (by_pane ?m') (reserved_names ?m) (reserved_panes ?m)"
      using reservation_reserved_ok [OF inv(2)] unfolding reserved_ok_def by (auto dest: image_mono [of _ _ fst])
    then show ?thesis using inv(2) unfolding reservation_inv_def Let_def by simp
  qed
  moreover have "\<forall>q\<in>live_refs ?d. session_ok uuid_ok (dm_heap ?d q)" using assms(1) by (simp add: live dir_inv_def)
  moreover have "\<forall>q\<in>set (dm_cleaning ?d). q < dm_allocated ?d \<and> ds_cleanup_started (dm_heap ?d q)
      \<and> \<not> identity_commit_guard (ds_lifecycle (dm_heap ?d q))"
    using assms(1) by (simp add: dir_inv_def)
  ultimately have "dir_inv uuid_ok ?d" by (simp add: dir_inv_def)
  then show ?thesis using eq by simp
qed

section \<open>Every step\<close>

lemma purge_keeps:
  assumes "dir_inv uuid_ok d" "metadata_purge_history target irreversible i now d = Inr d'"
  shows "dir_inv uuid_ok d'"
proof -
  obtain r p where "d' = update_session r (\<lambda>s. s\<lparr>ds_metadata := (ds_metadata (dm_heap d r))\<lparr>md_entries := [], md_cursor := 0, md_purge := p\<rparr>\<rparr>) d"
    using assms(2) by (auto simp: metadata_purge_history_def Let_def split: if_splits)
  then show ?thesis
    using update_session_keeps [OF assms(1)] by (simp add: keeps_identity_def journal_wf_def ds_name_def)
qed

lemma claim_keeps:
  assumes "dir_inv uuid_ok d"
  shows "dir_inv uuid_ok (update_session r (\<lambda>s. case fst (claim trigger event_id now later (ds_lifecycle s, ds_alive s)) of
    (p, alive) \<Rightarrow> s\<lparr>ds_lifecycle := p, ds_alive := alive\<rparr>) d)"
  using claim_closes [of trigger event_id now later]
  by (intro update_session_keeps [OF assms]) (simp_all add: keeps_identity_def ds_name_def case_prod_beta)

lemma changing_same [simp]:
  "dm_changing (update_session r f d) = dm_changing d" "dm_changing (update_maps g d) = dm_changing d"
  by (simp_all add: update_session_def update_maps_def)

lemma inv_changing [simp]: "dir_inv uuid_ok (d\<lparr>dm_changing := c\<rparr>) = dir_inv uuid_ok d"
  by (simp add: dir_inv_def index_inv_def reservation_inv_def live_refs_def)

lemma change_ok_changing [simp]: "change_ok uuid_ok (d\<lparr>dm_changing := x\<rparr>) c = change_ok uuid_ok d c"
  by (cases c) (simp_all add: live_refs_def)

text \<open>What a claim or the gate of the cleanup leaves alone.\<close>

lemma change_ok_same:
  assumes "change_ok uuid_ok d c" "dm_sessions d' = dm_sessions d" "live_refs d' = live_refs d" "\<And>q. ds_metadata (dm_heap d' q) = ds_metadata (dm_heap d q)"
  shows "change_ok uuid_ok d' c"
  using assms by (cases c) (simp_all add: ds_name_def)

definition machine_inv :: "(ustring \<Rightarrow> bool) \<Rightarrow> daemon \<Rightarrow> bool" where
  "machine_inv uuid_ok d \<longleftrightarrow> dir_inv uuid_ok d \<and> (case dm_changing d of None \<Rightarrow> True | Some c \<Rightarrow> change_ok uuid_ok d c)"

lemma claim_machine:
  assumes "machine_inv uuid_ok d" "dir_step uuid_ok (ClaimSession r trigger event_id now later) d = Some d'"
  shows "machine_inv uuid_ok d'"
proof -
  define f :: "dsession \<Rightarrow> dsession" where "f = (\<lambda>s. case fst (claim trigger event_id now later (ds_lifecycle s, ds_alive s)) of
    (p, alive) \<Rightarrow> s\<lparr>ds_lifecycle := p, ds_alive := alive\<rparr>)"
  have d': "d' = update_session r f d" using assms(2) by (auto simp: dir_step_def f_def split: if_splits)
  have "dir_inv uuid_ok d'" unfolding d' f_def using assms(1) by (intro claim_keeps) (simp add: machine_inv_def)
  moreover have "live_refs d' = live_refs d" unfolding d' by (auto simp: live_refs_def f_def case_prod_beta)
  moreover have "ds_metadata (dm_heap d' q) = ds_metadata (dm_heap d q)" for q by (simp add: d' f_def case_prod_beta)
  ultimately show ?thesis
    using assms(1) change_ok_same [of uuid_ok d _ d'] by (auto simp: machine_inv_def d' split: option.split)
qed

lemma cleanup_machine:
  assumes "machine_inv uuid_ok d" "dir_step uuid_ok (StartCleanup r) d = Some d'"
  shows "machine_inv uuid_ok d'"
proof -
  have r: "r < dm_allocated d" "\<not> identity_commit_guard (ds_lifecycle (dm_heap d r))" and d': "d' = start_cleanup r d"
    using assms(2) by (auto simp: dir_step_def split: if_splits)
  have "dir_inv uuid_ok d'" unfolding d' using assms(1) r by (intro start_cleanup_keeps) (simp_all add: machine_inv_def)
  moreover have "live_refs d' = live_refs d" unfolding d' using r by (auto simp: live_refs_def start_cleanup_def)
  moreover have "ds_metadata (dm_heap d' q) = ds_metadata (dm_heap d q)" "dm_sessions d' = dm_sessions d" "dm_changing d' = dm_changing d" for q
    by (simp_all add: d' start_cleanup_def)
  ultimately show ?thesis
    using assms(1) change_ok_same [of uuid_ok d _ d'] by (auto simp: machine_inv_def split: option.split)
qed

lemma commit_identity_machine:
  assumes "machine_inv uuid_ok d" "dir_step uuid_ok CommitIdentity d = Some d'"
  shows "machine_inv uuid_ok d'"
proof -
  obtain c where c: "dm_changing d = Some c" "d' = (settle d (commit_identity_change c d))\<lparr>dm_changing := None\<rparr>"
    using assms(2) by (auto simp: dir_step_def)
  then have "dir_inv uuid_ok d" "change_ok uuid_ok d c" using assms(1) by (simp_all add: machine_inv_def)
  then show ?thesis using c(2) commit_change_keeps [of uuid_ok d c]
    by (auto simp: machine_inv_def settle_def split: sum.split)
qed

text \<open>The events that wait for \<open>State.sessions\<close>.\<close>

lemma locked_keeps:
  assumes "dir_inv uuid_ok d" "uuid_parser uuid_ok" "event_ids_ok uuid_ok e" "dir_effect uuid_ok e d = Some d'" "takes_sessions e" "dm_changing d = None"
  shows "machine_inv uuid_ok d'"
proof (cases e)
  case (ReserveIdentity requested)
  then show ?thesis using reserve_keeps [OF assms(1,2)] assms by (auto simp: machine_inv_def split: sum.splits)
next
  case (CommitSession n i token leader theme selection)
  then have "dm_changing d' = None" using assms(4,6)
    by (auto simp: commit_new_session_def reservation_commit_def Let_def case_prod_beta split: if_splits sum.splits)
  then show ?thesis using CommitSession commit_new_session_keeps [OF assms(1)] assms(3,4) by (auto simp: machine_inv_def split: if_splits)
next
  case (DropReservation n)
  then show ?thesis using drop_reservation_keeps [OF assms(1)] assms(4,6) by (auto simp: machine_inv_def split: if_splits)
next
  case (AdmitRename target name)
  then show ?thesis using assms(1,4,6) admit_rename_ok [OF assms(1)] by (auto simp: machine_inv_def split: sum.splits option.splits)
next
  case (SetTheme target theme)
  then have "dm_changing d' = None" using assms(4,6) by (auto simp: settle_def set_status_theme_def Let_def split: sum.splits if_splits)
  then show ?thesis using SetTheme set_status_theme_keeps [OF assms(1)] assms(1,4) by (auto simp: machine_inv_def settle_def split: sum.splits)
next
  case (AdmitStep target direction)
  have "change_ok uuid_ok d c" if "admit_metadata_step uuid_ok target direction d = Inr c" for c
    by (rule admit_step_ok [OF assms(1) that])
  then show ?thesis using AdmitStep assms(1,4,6) by (auto simp: machine_inv_def split: sum.splits)
next
  case (PurgeHistory target irreversible i now)
  then have "dm_changing d' = None" using assms(4,6) by (auto simp: settle_def metadata_purge_history_def Let_def split: sum.splits if_splits)
  then show ?thesis using PurgeHistory purge_keeps [OF assms(1)] assms(1,4) by (auto simp: machine_inv_def settle_def split: sum.splits)
next
  case (RemoveSession r)
  then have "dm_changing d' = None" using assms(4,6) by (auto simp: remove_session_def Let_def split: if_splits)
  then show ?thesis using RemoveSession remove_keeps [OF assms(1)] assms(4) by (auto simp: machine_inv_def split: if_splits)
qed (use assms(5) in simp_all)

lemma dir_step_keeps:
  assumes "machine_inv uuid_ok d" "uuid_parser uuid_ok" "event_ids_ok uuid_ok e" "dir_step uuid_ok e d = Some d'"
  shows "machine_inv uuid_ok d'"
proof (cases "takes_sessions e")
  case True
  then have "dm_changing d = None" "dir_effect uuid_ok e d = Some d'" using assms(4) by (auto simp: dir_step_def split: if_splits)
  then show ?thesis using locked_keeps assms(1-3) True by (auto simp: machine_inv_def)
next
  case False
  then show ?thesis
  proof (cases e)
    case (ClaimSession r trigger event_id now later)
    then show ?thesis using claim_machine [OF assms(1)] assms(4) by blast
  next
    case (StartCleanup r)
    then show ?thesis using cleanup_machine [OF assms(1)] assms(4) by blast
  next
    case CommitIdentity
    then show ?thesis using commit_identity_machine [OF assms(1)] assms(4) by blast
  qed (use False in simp_all)
qed

interpretation directory: state_machine "\<lambda>d. d = daemon_start" "\<lambda>d d'. uuid_parser uuid_ok \<and> (\<exists>e. event_ids_ok uuid_ok e \<and> dir_step uuid_ok e d = Some d')"
  "machine_inv uuid_ok" for uuid_ok
proof
  fix d assume "d = daemon_start"
  then show "machine_inv uuid_ok d" using daemon_start_inv by (simp add: machine_inv_def daemon_start_def)
qed (blast intro: dir_step_keeps)

lemma dir_run_keeps:
  assumes "machine_inv uuid_ok d" "uuid_parser uuid_ok" "list_all (event_ids_ok uuid_ok) events" "dir_run uuid_ok events d = Some d'"
  shows "dir_inv uuid_ok d'"
  using assms
proof (induction events arbitrary: d)
  case (Cons e events)
  then obtain d1 where "dir_step uuid_ok e d = Some d1" "dir_run uuid_ok events d1 = Some d'" by (auto simp: bind_eq_Some_conv)
  with Cons dir_step_keeps show ?case by (metis list.pred_inject(2))
qed (simp add: machine_inv_def)

lemma daemon_start_machine: "machine_inv uuid_ok daemon_start"
  by (rule directory.init_inv) simp

section \<open>What the directory promises\<close>

text \<open>C6. Every live session can be addressed, and only by its own targets: whatever sequence of creations, renames, undo and redo steps,
  purges and removals led here, the name, the pane id, the number of the pane and the UUID of a live session each
  resolve to it, no two live sessions share a name, and at most 256 sessions exist.\<close>

theorem every_session_is_addressable:
  assumes "uuid_parser uuid_ok" "list_all (event_ids_ok uuid_ok) events" "dir_run uuid_ok events daemon_start = Some d" "r \<in> live_refs d"
  shows "resolve_session (ds_name (dm_heap d r)) d = Inr r \<and> resolve_session (ds_pane_id (dm_heap d r)) d = Inr r
    \<and> resolve_session (ds_id (dm_heap d r)) d = Inr r
    \<and> (ds_pane_id (dm_heap d r) = pane_of n \<longrightarrow> resolve_session (decimal n) d = Inr r)
    \<and> (q \<in> live_refs d \<longrightarrow> ds_name (dm_heap d q) = ds_name (dm_heap d r) \<longrightarrow> q = r)
    \<and> card (live_refs d) \<le> 256"
proof -
  have inv: "dir_inv uuid_ok d" by (rule dir_run_keeps [OF daemon_start_machine assms(1-3)])
  have "card (live_refs d) = card (set (by_pane (dm_sessions d)))"
    using inv by (simp add: dir_inv_def index_inv_def Let_def card_image inj_on_def)
  also have "\<dots> \<le> length (by_pane (dm_sessions d))" by (rule card_length)
  also have "\<dots> \<le> 256" using inv by (simp add: dir_inv_def reservation_inv_def reserved_ok_def Let_def MAX_SESSIONS_def)
  finally have "card (live_refs d) \<le> 256" .
  moreover have "q = r" if "q \<in> live_refs d" "ds_name (dm_heap d q) = ds_name (dm_heap d r)"
    using live_lookups(1) [OF inv that(1)] live_lookups(1) [OF inv assms(4)] that(2) by (metis option.inject)
  ultimately show ?thesis using session_addressable [OF inv assms(4)] by blast
qed

lemma inverse_plan:
  assumes "journal_wf m" "metadata_step_plan direction m = Inr (md_current m, v, c)" "opposite = (case direction of Undo \<Rightarrow> Redo | Redo \<Rightarrow> Undo)"
  shows "metadata_step_plan opposite (m\<lparr>md_current := v, md_cursor := c\<rparr>) = Inr (v, md_current m, md_cursor m)"
proof (cases direction)
  case Undo
  then have "0 < md_cursor m" "md_cursor m \<le> length (md_entries m)"
    using assms(1,2) by (auto simp: metadata_step_plan_def journal_wf_def split: if_splits)
  then have "\<not> length (md_entries m) \<le> md_cursor m - Suc 0" by linarith
  then show ?thesis using Undo assms by (auto simp: metadata_step_plan_def journal_wf_def Let_def split: if_splits)
next
  case Redo
  then show ?thesis using assms by (auto simp: metadata_step_plan_def journal_wf_def Let_def split: if_splits)
qed

lemma step_back:
  assumes inv: "dir_inv uuid_ok d" and step: "metadata_step uuid_ok target direction d = Inr d'"
    and r: "resolve_session_locked (dm_sessions d) (normalize_target target) = Some r"
    and opposite: "opposite = (case direction of Undo \<Rightarrow> Redo | Redo \<Rightarrow> Undo)"
  shows "metadata_step uuid_ok (ds_pane_id (dm_heap d r)) opposite d' = Inr d"
proof -
  let ?s = "dm_heap d r" let ?m = "ds_metadata ?s" let ?old = "ds_name ?s"
  obtain v c where live: "r \<in> live_refs d" and plan: "metadata_step_plan direction ?m = Inr (md_current ?m, v, c)"
    and guard: "identity_commit_guard (ds_lifecycle ?s)"
    and names: "?old = mv_name v \<or> name_ok uuid_ok (mv_name v) \<and> by_name (dm_sessions d) (mv_name v) = None
      \<and> mv_name v \<notin> set (reserved_names (dm_sessions d))"
    and d': "d' = update_maps (apply_metadata_name_transition r ?old (mv_name v))
      (update_session r (\<lambda>s. s\<lparr>ds_metadata := (ds_metadata s)\<lparr>md_current := v, md_cursor := c\<rparr>\<rparr>) d)"
    by (rule metadata_step_shape [OF inv step]) (use r in simp)
  have inv': "dir_inv uuid_ok d'" by (rule metadata_step_keeps [OF inv step])
  let ?t = "dm_heap d' r"
  have t: "?t = ?s\<lparr>ds_metadata := ?m\<lparr>md_current := v, md_cursor := c\<rparr>\<rparr>" by (simp add: d')
  then have fields: "ds_name ?t = mv_name v" "ds_pane_id ?t = ds_pane_id ?s" "ds_lifecycle ?t = ds_lifecycle ?s" "ds_id ?t = ds_id ?s"
    "ds_metadata ?t = ?m\<lparr>md_current := v, md_cursor := c\<rparr>"
    by (simp_all add: ds_name_def)
  have ok: "session_ok uuid_ok ?s" "by_name (dm_sessions d) ?old = Some r" using inv live live_lookups(1) by (auto simp: dir_inv_def)
  have live': "r \<in> live_refs d'" using live t by (auto simp: live_refs_def d')
  have resolved: "resolve_session_locked (dm_sessions d') (normalize_target (ds_pane_id ?s)) = Some r"
    using session_addressable(2) [OF inv' live'] by (simp add: resolve_session_def fields)
  have "metadata_step_plan opposite (ds_metadata ?t) = Inr (v, md_current ?m, md_cursor ?m)"
    using inverse_plan [OF _ plan opposite] ok(1) by (simp add: fields(5) session_ok_def)
  moreover have "session_commit_guard ?t = Inr ()" using guard by (simp add: session_commit_guard_def fields)
  moreover have "reject_identity_mutation_while_ending ?t = Inr ()"
    using step r by (auto simp: metadata_step_def admit_metadata_step_def reject_identity_mutation_while_ending_def fields Let_def split: session_presentation.splits)
  moreover have "validate_metadata_name_transition uuid_ok ?t (mv_name v) ?old d' = Inr ()"
  proof -
    have named: "names_session (mv_name v) ?t d'" using live_lookups(1) [OF inv' live'] by (simp add: names_session_def fields)
    have "?old \<notin> set (reserved_names (dm_sessions d))"
      using reserved_name_free(1) ok(2) inv unfolding dir_inv_def by fastforce
    moreover have "by_name (dm_sessions d') ?old = None \<and> reserved_names (dm_sessions d') = reserved_names (dm_sessions d)" if "?old \<noteq> mv_name v"
      using that by (simp add: d' apply_metadata_name_transition_def)
    ultimately show ?thesis
      using named ok(1) by (auto simp: validate_metadata_name_transition_def name_taken_def session_ok_def name_ok_def)
  qed
  ultimately have "metadata_step uuid_ok (ds_pane_id ?s) opposite d' =
      Inr (update_maps (apply_metadata_name_transition r (mv_name v) ?old)
        (update_session r (\<lambda>s. s\<lparr>ds_metadata := (ds_metadata ?t)\<lparr>md_current := md_current ?m, md_cursor := md_cursor ?m\<rparr>\<rparr>) d'))"
    using resolved by (simp add: metadata_step_def admit_metadata_step_def commit_identity_change_def Let_def fields ds_name_def [of ?s])
  moreover have "update_maps (apply_metadata_name_transition r (mv_name v) ?old)
        (update_session r (\<lambda>s. s\<lparr>ds_metadata := (ds_metadata ?t)\<lparr>md_current := md_current ?m, md_cursor := md_cursor ?m\<rparr>\<rparr>) d') = d"
  proof -
    have "((by_name (dm_sessions d))(?old := None, mv_name v \<mapsto> r))(mv_name v := None, ?old \<mapsto> r) = by_name (dm_sessions d)" if "?old \<noteq> mv_name v"
      using that names ok(2) by (auto simp: fun_eq_iff)
    then have maps: "apply_metadata_name_transition r (mv_name v) ?old (apply_metadata_name_transition r ?old (mv_name v) (dm_sessions d)) = dm_sessions d"
      by (simp add: apply_metadata_name_transition_def)
    have "(dm_heap d)(r := ?s\<lparr>ds_metadata := ?m\<lparr>md_current := md_current ?m, md_cursor := md_cursor ?m\<rparr>\<rparr>) = dm_heap d"
      by (simp add: fun_eq_iff)
    then show ?thesis using maps by (simp add: update_maps_def update_session_def d' fields t)
  qed
  ultimately show ?thesis by simp
qed

text \<open>C37. Undo and redo are inverse: when a step of the metadata history of a session succeeds, the opposite step, on the pane of the same
  session, succeeds too and restores the whole directory, the index of names included.\<close>

theorem undo_redo_round_trip:
  assumes "uuid_parser uuid_ok" "list_all (event_ids_ok uuid_ok) events" "dir_run uuid_ok events daemon_start = Some d"
    "resolve_session target d = Inr r" "metadata_step uuid_ok target direction d = Inr d'"
  shows "metadata_step uuid_ok (ds_pane_id (dm_heap d r)) (case direction of Undo \<Rightarrow> Redo | Redo \<Rightarrow> Undo) d' = Inr d"
  using step_back [OF dir_run_keeps [OF daemon_start_machine assms(1-3)] assms(5) _ refl, of r] assms(4) by (simp add: resolve_session_def)

section \<open>A session that is ending\<close>

lemma closed_rejects:
  assumes "\<not> identity_commit_guard (ds_lifecycle s)"
  shows "session_commit_guard s = Inl SessionIsEnding"
  using assms by (simp add: session_commit_guard_def check_def)

lemma commit_closed:
  assumes "commit_identity_change c d = Inr d'" "\<not> identity_commit_guard (ds_lifecycle (dm_heap d q))"
  shows "dm_heap d' q = dm_heap d q"
  using assms by (auto simp: commit_identity_change_def Let_def closed_rejects split: identity_change.splits)

lemma commit_allocated: "commit_identity_change c d = Inr d' \<Longrightarrow> dm_allocated d' = dm_allocated d"
  by (auto simp: commit_identity_change_def Let_def split: identity_change.splits)

lemma commit_event:
  assumes "dir_effect uuid_ok CommitIdentity d = Some d'"
  obtains c where "d' = (settle d (commit_identity_change c d))\<lparr>dm_changing := None\<rparr>"
  using assms by auto

definition frozen :: "nat \<Rightarrow> ustring \<Rightarrow> daemon \<Rightarrow> bool" where
  "frozen r name d \<longleftrightarrow> r < dm_allocated d \<and> ds_name (dm_heap d r) = name \<and> \<not> identity_commit_guard (ds_lifecycle (dm_heap d r))"

lemma allocated_grows:
  assumes "dir_step uuid_ok e d = Some d'"
  shows "dm_allocated d \<le> dm_allocated d'"
proof -
  have step: "dir_effect uuid_ok e d = Some d'" using assms by (simp add: dir_step_def split: if_splits)
  show ?thesis
  proof (cases e)
    case CommitIdentity
    with step obtain c where "d' = (settle d (commit_identity_change c d))\<lparr>dm_changing := None\<rparr>" by (blast elim: commit_event)
    then show ?thesis using commit_allocated [of c d] by (auto simp: settle_def split: sum.split)
  qed (use step in \<open>auto simp: settle_def commit_new_session_def set_status_theme_def metadata_purge_history_def
      start_cleanup_def remove_session_def reservation_commit_def Let_def case_prod_beta split: if_splits sum.splits option.splits\<close>)
qed

lemma frozen_step:
  assumes "frozen r name d" "dir_step uuid_ok e d = Some d'"
  shows "frozen r name d'"
proof -
  have closed: "\<not> identity_commit_guard (ds_lifecycle (dm_heap d r))" and r: "r < dm_allocated d" using assms(1) by (simp_all add: frozen_def)
  have step: "dir_effect uuid_ok e d = Some d'" using assms(2) by (simp add: dir_step_def split: if_splits)
  have "ds_name (dm_heap d' r) = ds_name (dm_heap d r) \<and> \<not> identity_commit_guard (ds_lifecycle (dm_heap d' r))"
  proof (cases e)
    case (CommitSession n i token leader theme selection)
    then show ?thesis using step closed r
      by (auto simp: commit_new_session_def reservation_commit_def Let_def case_prod_beta split: if_splits sum.splits)
  next
    case CommitIdentity
    with step obtain c where "d' = (settle d (commit_identity_change c d))\<lparr>dm_changing := None\<rparr>" by (blast elim: commit_event)
    then show ?thesis using closed commit_closed [of c d _ r] by (auto simp: settle_def ds_name_def split: sum.split)
  next
    case (ClaimSession q trigger event_id now later)
    then show ?thesis using step closed claim_closes by (auto simp: ds_name_def case_prod_beta split: if_splits)
  qed (use step closed in \<open>auto simp: settle_def ds_name_def set_status_theme_def metadata_purge_history_def append_entry_def
      start_cleanup_def remove_session_def Let_def split: if_splits sum.splits option.splits\<close>)
  then show ?thesis using assms(1) allocated_grows [OF assms(2)] by (simp add: frozen_def)
qed

text \<open>C38. The name of a session is settled when its end is claimed: also a rename, undo or redo that was admitted before the claim and commits after
  it leaves the name as it was at the claim, and so does every later operation, so the exit event that is being written names the
  session as it is known.\<close>

theorem ending_session_keeps_its_name:
  assumes "dir_step uuid_ok (ClaimSession r trigger event_id now later) d = Some d1" "dir_run uuid_ok events d1 = Some d'"
  shows "ds_name (dm_heap d' r) = ds_name (dm_heap d r) \<and> \<not> identity_commit_guard (ds_lifecycle (dm_heap d' r))"
proof -
  have "frozen r (ds_name (dm_heap d r)) d'" if "frozen r (ds_name (dm_heap d r)) x" "dir_run uuid_ok es x = Some d'" for es x
    using that
  proof (induction es arbitrary: x)
    case (Cons e es)
    then obtain y where "dir_step uuid_ok e x = Some y" "dir_run uuid_ok es y = Some d'" by (auto simp: bind_eq_Some_conv)
    then show ?case using Cons.IH frozen_step [OF Cons.prems(1)] by blast
  qed simp
  moreover have "frozen r (ds_name (dm_heap d r)) d1"
    using assms(1) claim_closes by (auto simp: dir_step_def frozen_def ds_name_def case_prod_beta split: if_splits)
  ultimately show ?thesis using assms(2) by (auto simp: frozen_def)
qed

section \<open>Examples\<close>

definition uuid_example :: "ustring \<Rightarrow> bool" where
  "uuid_example s \<longleftrightarrow> s = lit ''0-1''"

lemma uuid_example_parser: "uuid_parser uuid_example"
  by (simp add: uuid_parser_def uuid_example_def lit_def)

definition rename_example :: "dir_event list" where
  "rename_example = [ReserveIdentity (Some (lit ''work'')), CommitSession 0 (lit ''0-1'') [] None None None,
     AdmitRename (lit ''work'') (lit ''play''), CommitIdentity]"

lemma names_example: "validate_session_name_syntax uuid_example (lit ''work'') = Inr ()" "validate_session_name_syntax uuid_example (lit ''play'') = Inr ()"
  by (simp_all add: validate_session_name_syntax_def str_trim_def is_whitespace_def lit_def as_bytes_def utf8_encode_def starts_with_str_def
      session_name_looks_like_bare_pane_id_def is_digit_char_def uuid_example_def is_ascii_alphabetic_def)

lemma rename_example_ids: "list_all (event_ids_ok uuid_example) rename_example"
  by (simp add: rename_example_def uuid_example_def uuid_text_def lit_def is_hex_char_def is_digit_char_def)

lemma first_pane: "[0..<MAX_SESSIONS] = 0 # [1..<MAX_SESSIONS]" "\<not> MAX_SESSIONS \<le> 0" "0 < MAX_SESSIONS"
  by (simp_all add: MAX_SESSIONS_def upt_rec [of 0])

lemma name_facts_example:
  "normalize_target (lit ''work'') = lit ''work''" "\<not> starts_with_str (lit ''%'') (lit ''work'')" "lit ''work'' \<noteq> lit ''play''"
  "normalize_target (lit ''play'') = lit ''play''" "\<not> starts_with_str (lit ''%'') (lit ''play'')"
proof -
  have ok: "name_ok uuid_example (lit ''work'')" "name_ok uuid_example (lit ''play'')" using names_example by (simp_all add: name_ok_def)
  show "normalize_target (lit ''work'') = lit ''work''" "\<not> starts_with_str (lit ''%'') (lit ''work'')" using name_ok_facts [OF ok(1)] by simp_all
  show "normalize_target (lit ''play'') = lit ''play''" "\<not> starts_with_str (lit ''%'') (lit ''play'')" using name_ok_facts [OF ok(2)] by simp_all
  show "lit ''work'' \<noteq> lit ''play''" by (simp add: lit_def)
qed

definition example_reserved :: daemon where
  "example_reserved = daemon_start\<lparr>dm_sessions := \<lparr>by_name = Map.empty, by_pane = [], by_id = [], reserved_names = [lit ''work''],
     reserved_panes = [pane_of 0]\<rparr>, dm_reservations := [(lit ''work'', pane_of 0)]\<rparr>"

definition example_created :: daemon where
  "example_created = \<lparr>dm_heap = (dm_heap daemon_start)(0 := new_session (lit ''work'', pane_of 0) (lit ''0-1'') [] None None), dm_allocated = 1,
     dm_sessions = \<lparr>by_name = [lit ''work'' \<mapsto> 0], by_pane = [(pane_of 0, 0)], by_id = [(lit ''0-1'', 0)], reserved_names = [],
     reserved_panes = []\<rparr>, dm_reservations = [], dm_cleaning = [], dm_changing = None\<rparr>"

lemma example_reserve: "dir_step uuid_example (ReserveIdentity (Some (lit ''work''))) daemon_start = Some example_reserved"
  by (simp add: dir_step_def example_reserved_def daemon_start_def reserve_session_identity_def names_example first_pane Let_def)

lemma example_commit: "dir_step uuid_example (CommitSession 0 (lit ''0-1'') [] None None None) example_reserved = Some example_created"
  by (simp add: dir_step_def example_reserved_def example_created_def daemon_start_def commit_new_session_def reservation_commit_def new_session_def
      update_maps_def update_session_def release_reservation_def drop_nth_def Let_def)

lemma example_admit:
  "dir_step uuid_example (AdmitRename (lit ''work'') (lit ''play'')) example_created
     = Some (example_created\<lparr>dm_changing := Some (ChangeName 0 (lit ''play''))\<rparr>)"
  by (simp add: dir_step_def admit_rename_def example_created_def names_example name_facts_example resolve_session_locked_def new_session_def Let_def
      ds_name_def session_metadata_new_def reject_identity_mutation_while_ending_def presentation_def default_publication_def
      name_taken_def names_session_def validate_metadata_append_def MAX_METADATA_JOURNAL_ENTRIES_def)

lemma rename_example_run:
  "\<exists>d. dir_run uuid_example rename_example daemon_start = Some d \<and> dm_allocated d = 1
    \<and> ds_lifecycle (dm_heap d 0) = default_publication \<and> \<not> ds_cleanup_started (dm_heap d 0)
    \<and> by_name (dm_sessions d) (lit ''play'') = Some 0 \<and> by_name (dm_sessions d) (lit ''work'') = None \<and> reserved_names (dm_sessions d) = []
    \<and> ds_metadata (dm_heap d 0) =
      append_entry OpRename \<lparr>mv_name = lit ''play'', mv_status_theme = None\<rparr> (session_metadata_new (lit ''work'') None)"
  using name_facts_example
  by (simp add: rename_example_def example_reserve example_commit example_admit)
    (simp add: dir_step_def settle_def commit_identity_change_def example_created_def new_session_def session_commit_guard_def
      identity_commit_guard_def default_publication_def check_def ds_name_def session_metadata_new_def Let_def)

lemma rename_example_undo:
  assumes "by_name (dm_sessions d) (lit ''play'') = Some 0" "by_name (dm_sessions d) (lit ''work'') = None" "reserved_names (dm_sessions d) = []"
    "ds_lifecycle (dm_heap d 0) = default_publication"
    "ds_metadata (dm_heap d 0) =
      append_entry OpRename \<lparr>mv_name = lit ''play'', mv_status_theme = None\<rparr> (session_metadata_new (lit ''work'') None)"
  shows "resolve_session (lit ''play'') d = Inr 0" "is_ok (metadata_step uuid_example (lit ''play'') Undo d)"
  using assms
  by (simp_all add: resolve_session_def resolve_session_locked_def name_facts_example metadata_step_def admit_metadata_step_def commit_identity_change_def metadata_step_plan_def append_entry_def
      session_metadata_new_def validate_metadata_name_transition_def names_session_def name_taken_def ds_name_def names_example Let_def
      reject_identity_mutation_while_ending_def presentation_def default_publication_def session_commit_guard_def identity_commit_guard_def check_def)

theorem every_session_is_addressable_witness:
  "\<exists>d. dir_run uuid_example rename_example daemon_start = Some d \<and> resolve_session (lit ''play'') d = Inr 0 \<and> card (live_refs d) \<le> 256"
proof -
  obtain d where d: "dir_run uuid_example rename_example daemon_start = Some d" "dm_allocated d = 1" "\<not> ds_cleanup_started (dm_heap d 0)"
    "ds_name (dm_heap d 0) = lit ''play''" using rename_example_run by (auto simp: ds_name_def append_entry_def)
  then have "0 \<in> live_refs d" by (simp add: live_refs_def)
  from every_session_is_addressable [OF uuid_example_parser rename_example_ids d(1) this] d show ?thesis by auto
qed

theorem undo_redo_round_trip_witness:
  "\<exists>d d'. metadata_step uuid_example (lit ''play'') Undo d = Inr d' \<and> metadata_step uuid_example (ds_pane_id (dm_heap d 0)) Redo d' = Inr d"
proof -
  obtain d where d: "dir_run uuid_example rename_example daemon_start = Some d" "resolve_session (lit ''play'') d = Inr 0"
    "is_ok (metadata_step uuid_example (lit ''play'') Undo d)" using rename_example_run rename_example_undo by blast
  then obtain d' where step: "metadata_step uuid_example (lit ''play'') Undo d = Inr d'" by (auto simp: is_ok_iff)
  from undo_redo_round_trip [OF uuid_example_parser rename_example_ids d(1,2) step] step show ?thesis by auto
qed

theorem ending_session_keeps_its_name_witness:
  "\<exists>d d1 d'. dir_step uuid_example (AdmitRename (lit ''work'') (lit ''play'')) example_created = Some d
    \<and> dir_step uuid_example (ClaimSession 0 CloseRequested 1 0 0) d = Some d1 \<and> dir_run uuid_example [CommitIdentity] d1 = Some d'
    \<and> ds_name (dm_heap d' 0) = lit ''work'' \<and> presentation (ds_lifecycle (dm_heap d1 0)) = Ending CloseRequested"
proof -
  let ?d = "example_created\<lparr>dm_changing := Some (ChangeName 0 (lit ''play''))\<rparr>"
  obtain d1 where d1: "dir_step uuid_example (ClaimSession 0 CloseRequested 1 0 0) ?d = Some d1" "dm_changing d1 = Some (ChangeName 0 (lit ''play''))"
    "presentation (ds_lifecycle (dm_heap d1 0)) = Ending CloseRequested"
    by (simp add: dir_step_def example_created_def new_session_def claim_def default_publication_def presentation_def Let_def)
  then obtain d' where run: "dir_run uuid_example [CommitIdentity] d1 = Some d'" by (simp add: dir_step_def)
  have "ds_name (dm_heap ?d 0) = lit ''work''" by (simp add: example_created_def new_session_def ds_name_def session_metadata_new_def)
  with ending_session_keeps_its_name [OF d1(1) run] example_admit d1 run show ?thesis by auto
qed

end
