(* ===== verification/Server_Requests.thy ===== *)
theory Server_Requests
  imports Server_Sessions "HOL-Library.Sublist"
begin

text \<open>
  Requests to the daemon (\<open>src/src/server.rs\<close>): the framing of a request that arrives in chunks, the input capabilities with their byte
  budgets, and the parent of a new session, given by a capability or a tmux target or proved from the processes above the
  client.

  The bytes that a socket returns, chunk by chunk, are an argument, and so are the tokens that are drawn and the
  process inspector, which the properties instantiate with the parser of \<open>Process_Identity\<close>.
\<close>

section \<open>Reading a request\<close>

definition MAX_REQUEST_BYTES :: nat where
  "MAX_REQUEST_BYTES = 1024 * 1024"

text \<open>\<open>String::from_utf8\<close>.\<close>

function string_from_utf8 :: "u8 list \<Rightarrow> ustring option" where
  "string_from_utf8 bs =
     (if bs = [] then Some []
      else (case decode_utf8_char bs of
          None \<Rightarrow> None
        | Some (c, width) \<Rightarrow> map_option (Cons c) (string_from_utf8 (drop width bs))))"
  by pat_completeness auto
termination
proof (relation "measure length", simp)
  fix bs x c width
  assume "bs \<noteq> []" "decode_utf8_char bs = Some x" "(c, width) = x"
  then have "width > 0" using decode_utf8_char_Some(1) [of "hd bs" "tl bs" c width] by auto
  then show "(drop width bs, bs) \<in> measure length" using \<open>bs \<noteq> []\<close> by simp
qed

declare string_from_utf8.simps [simp del]

datatype frame_error = RequestTooLong | RequestNotUtf8 | RequestTimedOut | RequestReadFailed | RequestNoNewline

record request_frame =
  rf_line :: ustring
  rf_buffered :: "u8 list"

definition ensure_request_capacity :: "nat \<Rightarrow> nat \<Rightarrow> nat \<Rightarrow> frame_error + unit" where
  "ensure_request_capacity current_len additional_len max_request_bytes =
     (if current_len + additional_len > max_request_bytes then Inl RequestTooLong else Inr ())"

text \<open>The bytes read so far, and the frame when the chunk ends the line.\<close>

definition request_frame_from_chunk :: "u8 list \<Rightarrow> u8 list \<Rightarrow> nat \<Rightarrow> frame_error + (u8 list \<times> request_frame option)" where
  "request_frame_from_chunk bytes chunk max_request_bytes =
     (case position (\<lambda>b. b = 0x0a) chunk of
        Some pos \<Rightarrow>
          (let line_len = pos + 1 in
           bind_res (ensure_request_capacity (length bytes) line_len max_request_bytes) (\<lambda>_.
             bind_res (ok_or (string_from_utf8 (bytes @ take line_len chunk)) RequestNotUtf8) (\<lambda>line.
               Inr ([], Some \<lparr>rf_line = line, rf_buffered = drop line_len chunk\<rparr>))))
      | None \<Rightarrow>
          bind_res (ensure_request_capacity (length bytes) (length chunk) max_request_bytes) (\<lambda>_. Inr (bytes @ chunk, None)))"

text \<open>What a turn of the reading loop sees: the clock, the answer of \<open>read\<close>, and the clock again after an answer that means to wait. An empty
  chunk is the end of the stream.\<close>

datatype read_answer = ReadChunk "u8 list" | ReadInterrupted | ReadWouldBlock nat | ReadError

fun read_request_frame_with_limit :: "nat \<Rightarrow> nat \<Rightarrow> u8 list \<Rightarrow> (nat \<times> read_answer) list \<Rightarrow> (frame_error + request_frame) option" where
  "read_request_frame_with_limit deadline max_request_bytes bytes [] = None"
| "read_request_frame_with_limit deadline max_request_bytes bytes ((now, answer) # turns) =
     (if now \<ge> deadline then Some (Inl RequestTimedOut)
      else (case answer of
          ReadInterrupted \<Rightarrow> read_request_frame_with_limit deadline max_request_bytes bytes turns
        | ReadWouldBlock later \<Rightarrow>
            if later \<ge> deadline then Some (Inl RequestTimedOut)
            else read_request_frame_with_limit deadline max_request_bytes bytes turns
        | ReadError \<Rightarrow> Some (Inl RequestReadFailed)
        | ReadChunk chunk \<Rightarrow>
            if chunk = [] then
              Some (if bytes \<noteq> [] then Inl RequestNoNewline else Inr \<lparr>rf_line = [], rf_buffered = []\<rparr>)
            else (case request_frame_from_chunk bytes chunk max_request_bytes of
                Inl e \<Rightarrow> Some (Inl e)
              | Inr (bytes, Some frame) \<Rightarrow> Some (Inr frame)
              | Inr (bytes, None) \<Rightarrow> read_request_frame_with_limit deadline max_request_bytes bytes turns)))"

text \<open>The bytes that a turn brings, and a turn after which the loop goes on as long as the line is not complete.\<close>

fun answer_bytes :: "nat \<times> read_answer \<Rightarrow> u8 list" where
  "answer_bytes (now, ReadChunk chunk) = chunk"
| "answer_bytes _ = []"

fun goes_on :: "nat \<Rightarrow> nat \<times> read_answer \<Rightarrow> bool" where
  "goes_on deadline (now, ReadChunk chunk) \<longleftrightarrow> now < deadline \<and> chunk \<noteq> []"
| "goes_on deadline (now, ReadInterrupted) \<longleftrightarrow> now < deadline"
| "goes_on deadline (now, ReadWouldBlock later) \<longleftrightarrow> now < deadline \<and> later < deadline"
| "goes_on deadline (now, ReadError) \<longleftrightarrow> False"

lemma chunk_completes:
  assumes "bytes @ chunk = line @ 0x0a # buffered" "0x0a \<notin> set line" "length bytes \<le> length line"
  shows "request_frame_from_chunk bytes chunk limit =
    (if length line + 1 > limit then Inl RequestTooLong
     else case string_from_utf8 (line @ [0x0a]) of
         None \<Rightarrow> Inl RequestNotUtf8
       | Some text \<Rightarrow> Inr ([], Some \<lparr>rf_line = text, rf_buffered = buffered\<rparr>))"
proof -
  obtain start where line: "line = bytes @ start" and chunk: "chunk = start @ 0x0a # buffered"
    using assms(1,3) by (auto simp: append_eq_append_conv2)
  have "position (\<lambda>b. b = 0x0a) (start @ 0x0a # buffered) = Some (length start)"
    using assms(2) unfolding line by (induction start) auto
  then show ?thesis
    by (auto simp: request_frame_from_chunk_def ensure_request_capacity_def line chunk Let_def ok_or_def split: option.split)
qed

lemma frame_loop_exact:
  assumes "list_all (goes_on deadline) before" "now < deadline" "length bytes \<le> limit"
    "bytes @ concat (map answer_bytes before) @ chunk = line @ 0x0a # buffered" "0x0a \<notin> set line"
    "length bytes + length (concat (map answer_bytes before)) \<le> length line"
  shows "read_request_frame_with_limit deadline limit bytes (before @ (now, ReadChunk chunk) # after) = Some
      (if length line + 1 > limit then Inl RequestTooLong
       else case string_from_utf8 (line @ [0x0a]) of
           None \<Rightarrow> Inl RequestNotUtf8
         | Some text \<Rightarrow> Inr \<lparr>rf_line = text, rf_buffered = buffered\<rparr>)"
  using assms
proof (induction before arbitrary: bytes)
  case Nil
  have "chunk \<noteq> []" using Nil.prems(4,6) by (auto dest: arg_cong [where f = length])
  then show ?case using chunk_completes [of bytes chunk line buffered limit] Nil.prems by (auto split: option.split)
next
  case (Cons turn before)
  obtain t answer where turn: "turn = (t, answer)" by (cases turn)
  show ?case
  proof (cases answer)
    case (ReadChunk c)
    have start: "bytes @ c = take (length bytes + length c) line"
      using arg_cong [OF Cons.prems(4), of "take (length bytes + length c)"] Cons.prems(6) by (simp add: turn ReadChunk)
    then have none: "0x0a \<notin> set c" using Cons.prems(5) by (metis UnCI in_set_takeD set_append)
    then have position: "position (\<lambda>b. b = 0x0a) c = None" by (auto simp: position_None)
    show ?thesis
    proof (cases "length bytes + length c > limit")
      case True
      then show ?thesis using Cons.prems(1,6) position
        by (simp add: turn ReadChunk request_frame_from_chunk_def ensure_request_capacity_def)
    next
      case False
      then show ?thesis using Cons.IH [of "bytes @ c"] Cons.prems position
        by (simp add: turn ReadChunk request_frame_from_chunk_def ensure_request_capacity_def)
    qed
  qed (use Cons in \<open>simp_all add: turn\<close>)
qed

text \<open>C39. However a request arrives, in chunks cut anywhere, with interruptions and waits in between and the clock moving on before the
  deadline, the daemon reads the same line: the bytes up to the first newline, when they are at most the limit and valid
  UTF-8; a longer line is refused. No byte is lost: what it keeps for an attach is all that it has read after the newline.\<close>

theorem request_framing_exact:
  assumes "list_all (goes_on deadline) before" "now < deadline"
    "concat (map answer_bytes before) @ chunk = line @ 0x0a # buffered" "0x0a \<notin> set line"
    "length (concat (map answer_bytes before)) \<le> length line"
  shows "read_request_frame_with_limit deadline MAX_REQUEST_BYTES [] (before @ (now, ReadChunk chunk) # after) = Some
      (if length line + 1 > 1024 * 1024 then Inl RequestTooLong
       else case string_from_utf8 (line @ [0x0a]) of
           None \<Rightarrow> Inl RequestNotUtf8
         | Some text \<Rightarrow> Inr \<lparr>rf_line = text, rf_buffered = buffered\<rparr>)"
  using frame_loop_exact [OF assms(1,2), of "[]" MAX_REQUEST_BYTES chunk line buffered after] assms(3-5) by (simp add: MAX_REQUEST_BYTES_def)

theorem request_framing_exact_witness:
  "read_request_frame_with_limit 5 MAX_REQUEST_BYTES [] [(0, ReadChunk [0x61]), (1, ReadInterrupted), (2, ReadWouldBlock 3), (4, ReadChunk [0x0a, 0x62])] = Some
      (if length [0x61 :: u8] + 1 > 1024 * 1024 then Inl RequestTooLong
       else case string_from_utf8 ([0x61] @ [0x0a]) of
           None \<Rightarrow> Inl RequestNotUtf8
         | Some text \<Rightarrow> Inr \<lparr>rf_line = text, rf_buffered = [0x62]\<rparr>)"
  using request_framing_exact [of 5 "[(0, ReadChunk [0x61]), (1, ReadInterrupted), (2, ReadWouldBlock 3)]" 4 "[0x0a, 0x62]" "[0x61]" "[0x62]" "[]"]
  by simp

section \<open>Input capabilities\<close>

definition MAX_INPUT_CAPABILITIES :: nat where
  "MAX_INPUT_CAPABILITIES = 1024"

definition MAX_INPUT_CAPABILITIES_PER_SESSION :: nat where
  "MAX_INPUT_CAPABILITIES_PER_SESSION = 64"

definition MAX_INPUT_CAPABILITY_BUDGET :: u64 where
  "MAX_INPUT_CAPABILITY_BUDGET = 1024 * 1024"

definition MAX_CAPABILITY_WRITE_BYTES :: nat where
  "MAX_CAPABILITY_WRITE_BYTES = 64 * 1024"

text \<open>A grant holds a weak reference to its session.\<close>

record input_capability_grant =
  ig_session_id :: ustring
  ig_session :: nat
  ig_remaining :: u64

type_synonym grants = "(ustring \<times> input_capability_grant) list"

datatype capability_error = BudgetOutOfRange | CapabilityNoSession | CapabilityNotAlive | TooManyCapabilities
  | TooManySessionCapabilities | CapabilityRejected

text \<open>The loop that draws tokens until one is new: \<open>None\<close> while it has not drawn one.\<close>

definition draw_token :: "grants \<Rightarrow> ustring list \<Rightarrow> ustring option" where
  "draw_token grants candidates = find (\<lambda>t. map_of grants t = None) candidates"

definition upgrades :: "nat list \<Rightarrow> daemon \<Rightarrow> nat \<Rightarrow> bool" where
  "upgrades dropped d r \<longleftrightarrow> r \<notin> set dropped \<and> ds_alive (dm_heap d r)"

text \<open>\<open>dropped\<close> are the sessions that no thread holds any more. The registry that is returned has lost the grants of dead sessions also
  when the request is refused.\<close>

definition issue_input_capability ::
    "nat list \<Rightarrow> ustring \<Rightarrow> u64 \<Rightarrow> ustring list \<Rightarrow> daemon \<Rightarrow> grants \<Rightarrow> ((capability_error + ustring \<times> nat) \<times> grants) option" where
  "issue_input_capability dropped target byte_budget candidates d grants =
     (if \<not> (1 \<le> byte_budget \<and> byte_budget \<le> MAX_INPUT_CAPABILITY_BUDGET) then Some (Inl BudgetOutOfRange, grants)
      else (case resolve_session_locked (dm_sessions d) (normalize_target target) of
          None \<Rightarrow> Some (Inl CapabilityNoSession, grants)
        | Some r \<Rightarrow>
            (let s = dm_heap d r in
             if \<not> ds_alive s then Some (Inl CapabilityNotAlive, grants)
             else let grants = filter (\<lambda>(t, g). upgrades dropped d (ig_session g)) grants in
               if length grants \<ge> MAX_INPUT_CAPABILITIES then Some (Inl TooManyCapabilities, grants)
               else if length (filter (\<lambda>(t, g). ig_session_id g = ds_id s) grants) \<ge> MAX_INPUT_CAPABILITIES_PER_SESSION
               then Some (Inl TooManySessionCapabilities, grants)
               else map_option (\<lambda>token. (Inr (token, r),
                   AList.update token \<lparr>ig_session_id = ds_id s, ig_session = r, ig_remaining = byte_budget\<rparr> grants))
                 (draw_token grants candidates))))"

text \<open>The session that the data is written to, and the registry.\<close>

definition apply_capability_input ::
    "nat list \<Rightarrow> ustring \<Rightarrow> u8 list \<Rightarrow> daemon \<Rightarrow> grants \<Rightarrow> (capability_error + nat) \<times> grants" where
  "apply_capability_input dropped token data d grants =
     (if data = [] \<or> length data > MAX_CAPABILITY_WRITE_BYTES then (Inl CapabilityRejected, grants)
      else (case map_of grants token of
          None \<Rightarrow> (Inl CapabilityRejected, grants)
        | Some g \<Rightarrow>
            (let data_len = of_nat (length data) :: u64 in
             if \<not> upgrades dropped d (ig_session g) then (Inl CapabilityRejected, AList.delete token grants)
             else if data_len > ig_remaining g then (Inl CapabilityRejected, grants)
             else let remaining = ig_remaining g - data_len in
               (Inr (ig_session g),
                if remaining = 0 then AList.delete token grants
                else AList.update token (g\<lparr>ig_remaining := remaining\<rparr>) grants))))"

definition revoke_input_capability :: "ustring \<Rightarrow> grants \<Rightarrow> grants" where
  "revoke_input_capability token grants = AList.delete token grants"

definition remove_session_grants :: "ustring \<Rightarrow> grants \<Rightarrow> grants" where
  "remove_session_grants session_id grants = filter (\<lambda>(t, g). ig_session_id g \<noteq> session_id) grants"

text \<open>The daemon with its registry, and the history of what was issued and written.\<close>

record cap_machine =
  cm_daemon :: daemon
  cm_grants :: grants
  cm_issued :: "(ustring \<times> nat \<times> u64) list"
  cm_written :: "(ustring \<times> nat \<times> u8 list) list"

datatype cap_event = IssueCapability "nat list" ustring u64 "ustring list" | CapabilityInput "nat list" ustring "u8 list"
  | RevokeCapability ustring | DirectoryEvent dir_event

fun cap_step :: "(ustring \<Rightarrow> bool) \<Rightarrow> cap_event \<Rightarrow> cap_machine \<Rightarrow> cap_machine option" where
  "cap_step uuid_ok (IssueCapability dropped target budget candidates) m =
     (case issue_input_capability dropped target budget candidates (cm_daemon m) (cm_grants m) of
        None \<Rightarrow> None
      | Some (Inl _, grants) \<Rightarrow> Some (m\<lparr>cm_grants := grants\<rparr>)
      | Some (Inr (token, r), grants) \<Rightarrow> Some (m\<lparr>cm_grants := grants, cm_issued := (token, r, budget) # cm_issued m\<rparr>))"
| "cap_step uuid_ok (CapabilityInput dropped token data) m =
     (case apply_capability_input dropped token data (cm_daemon m) (cm_grants m) of
        (Inl _, grants) \<Rightarrow> Some (m\<lparr>cm_grants := grants\<rparr>)
      | (Inr r, grants) \<Rightarrow> Some (m\<lparr>cm_grants := grants, cm_written := (token, r, data) # cm_written m\<rparr>))"
| "cap_step uuid_ok (RevokeCapability token) m = Some (m\<lparr>cm_grants := revoke_input_capability token (cm_grants m)\<rparr>)"
| "cap_step uuid_ok (DirectoryEvent e) m =
     map_option (\<lambda>d. m\<lparr>cm_daemon := d,
         cm_grants := (case e of RemoveSession r \<Rightarrow> remove_session_grants (ds_id (dm_heap (cm_daemon m) r)) (cm_grants m) | _ \<Rightarrow> cm_grants m)\<rparr>)
       (dir_step uuid_ok e (cm_daemon m))"

fun cap_run :: "(ustring \<Rightarrow> bool) \<Rightarrow> cap_event list \<Rightarrow> cap_machine \<Rightarrow> cap_machine option" where
  "cap_run uuid_ok [] m = Some m"
| "cap_run uuid_ok (e # es) m = Option.bind (cap_step uuid_ok e m) (cap_run uuid_ok es)"

definition cap_start :: cap_machine where
  "cap_start = \<lparr>cm_daemon = daemon_start, cm_grants = [], cm_issued = [], cm_written = []\<rparr>"

definition budget_of :: "ustring \<Rightarrow> nat \<Rightarrow> (ustring \<times> nat \<times> u64) list \<Rightarrow> nat" where
  "budget_of token r issued = sum_list (map (\<lambda>(t, q, b). if t = token \<and> q = r then unat b else 0) issued)"

definition written_by :: "ustring \<Rightarrow> nat \<Rightarrow> (ustring \<times> nat \<times> u8 list) list \<Rightarrow> nat" where
  "written_by token r written = sum_list (map (\<lambda>(t, q, data). if t = token \<and> q = r then length data else 0) written)"

definition remaining_of :: "ustring \<Rightarrow> nat \<Rightarrow> grants \<Rightarrow> nat" where
  "remaining_of token r grants = (case map_of grants token of Some g \<Rightarrow> if ig_session g = r then unat (ig_remaining g) else 0 | None \<Rightarrow> 0)"

definition cap_inv :: "cap_machine \<Rightarrow> bool" where
  "cap_inv m \<longleftrightarrow> distinct (map fst (cm_grants m)) \<and> length (cm_grants m) \<le> MAX_INPUT_CAPABILITIES
     \<and> (\<forall>i. length (filter (\<lambda>(t, g). ig_session_id g = i) (cm_grants m)) \<le> MAX_INPUT_CAPABILITIES_PER_SESSION)
     \<and> (\<forall>t r. written_by t r (cm_written m) + remaining_of t r (cm_grants m) \<le> budget_of t r (cm_issued m))"

definition fewer_grants :: "grants \<Rightarrow> grants \<Rightarrow> bool" where
  "fewer_grants grants' grants \<longleftrightarrow> (\<exists>p. grants' = filter p grants)"

lemma fewer_delete: "fewer_grants (AList.delete t grants) grants"
  unfolding fewer_grants_def AList.delete_eq by blast

lemma fewer_inv:
  assumes "cap_inv m" "fewer_grants grants (cm_grants m)"
  shows "cap_inv (m\<lparr>cm_grants := grants\<rparr>)"
proof -
  obtain p where p: "grants = filter p (cm_grants m)" using assms(2) by (auto simp: fewer_grants_def)
  have "remaining_of t r grants \<le> remaining_of t r (cm_grants m)" for t r
  proof (cases "map_of grants t")
    case (Some g)
    then have "(t, g) \<in> set (cm_grants m)" using p by (auto dest!: map_of_SomeD)
    then have "map_of (cm_grants m) t = Some g" using assms(1) by (auto simp: cap_inv_def)
    then show ?thesis by (simp add: remaining_of_def Some)
  qed (simp add: remaining_of_def)
  moreover have "length (filter q grants) \<le> length (filter q (cm_grants m))" for q
  proof -
    have "filter q grants = filter p (filter q (cm_grants m))" by (simp add: p conj_commute)
    then show ?thesis by (metis length_filter_le)
  qed
  moreover have "length grants \<le> length (cm_grants m)" by (simp add: p)
  moreover have "distinct (map fst grants)" using assms(1) by (auto simp: cap_inv_def p distinct_map_filter)
  ultimately show ?thesis using assms(1) unfolding cap_inv_def by simp (meson add_le_mono1 le_trans nat_add_left_cancel_le)
qed

lemma map_of_update: "map_of (AList.update k v al) k' = (if k' = k then Some v else map_of al k')"
  by (induction al) auto

lemma alist_update_map:
  "map_of al k = Some w \<Longrightarrow> distinct (map fst al) \<Longrightarrow> AList.update k v al = map (\<lambda>(t, h). if t = k then (t, v) else (t, h)) al"
proof (induction al)
  case (Cons x al)
  show ?case
  proof (cases "fst x = k")
    case True
    then have "map (\<lambda>(t, h). if t = k then (t, v) else (t, h)) al = al"
      using Cons.prems(2) by (intro map_idI) (auto simp: case_prod_beta intro: rev_image_eqI)
    then show ?thesis using True by (cases x) simp
  next
    case False
    then show ?thesis using Cons by (cases x) simp
  qed
qed simp

lemma issue_keeps:
  assumes "cap_inv m" "issue_input_capability dropped target budget candidates (cm_daemon m) (cm_grants m) = Some (Inr (token, r), grants)"
  shows "cap_inv (m\<lparr>cm_grants := grants, cm_issued := (token, r, budget) # cm_issued m\<rparr>)"
proof -
  let ?d = "cm_daemon m" let ?kept = "filter (\<lambda>(t, g). upgrades dropped ?d (ig_session g)) (cm_grants m)"
  let ?g = "\<lparr>ig_session_id = ds_id (dm_heap ?d r), ig_session = r, ig_remaining = budget\<rparr>"
  have draw: "draw_token ?kept candidates = Some token" and room: "length ?kept < MAX_INPUT_CAPABILITIES"
      "length (filter (\<lambda>(t, g). ig_session_id g = ds_id (dm_heap ?d r)) ?kept) < MAX_INPUT_CAPABILITIES_PER_SESSION"
    and grants: "grants = AList.update token ?g ?kept"
    using assms(2) by (auto simp: issue_input_capability_def Let_def not_le split: if_splits option.splits)
  have new: "map_of ?kept token = None" using draw by (auto simp: draw_token_def find_Some_iff)
  then have grants': "grants = ?kept @ [(token, ?g)]" using grants alist_update_fresh by simp
  have kept: "cap_inv (m\<lparr>cm_grants := ?kept\<rparr>)" by (rule fewer_inv [OF assms(1)]) (auto simp: fewer_grants_def)
  have "distinct (map fst grants)" using kept new by (simp add: cap_inv_def grants' map_of_eq_None_iff)
  moreover have "length grants \<le> MAX_INPUT_CAPABILITIES" using room(1) by (simp add: grants')
  moreover have "length (filter (\<lambda>(t, g). ig_session_id g = i) grants) \<le> MAX_INPUT_CAPABILITIES_PER_SESSION" for i
    using room(2) kept by (cases "ds_id (dm_heap ?d r) = i") (auto simp: grants' cap_inv_def Suc_le_eq)
  moreover have "written_by t q (cm_written m) + remaining_of t q grants \<le> budget_of t q ((token, r, budget) # cm_issued m)" for t q
  proof -
    have "written_by t q (cm_written m) + remaining_of t q ?kept \<le> budget_of t q (cm_issued m)" using kept by (simp add: cap_inv_def)
    moreover have "remaining_of t q grants = (if t = token then (if q = r then unat budget else 0) else remaining_of t q ?kept)"
      by (simp add: remaining_of_def grants map_of_update)
    ultimately show ?thesis by (auto simp: budget_of_def)
  qed
  ultimately show ?thesis by (simp add: cap_inv_def)
qed

lemma apply_fewer:
  assumes "apply_capability_input dropped token data d grants = (Inl e, grants')"
  shows "fewer_grants grants' grants"
proof -
  have "grants' = grants \<or> grants' = AList.delete token grants"
    using assms by (auto simp: apply_capability_input_def Let_def split: if_splits option.splits)
  then show ?thesis
  proof
    assume "grants' = grants"
    then show ?thesis unfolding fewer_grants_def by (intro exI [of _ "\<lambda>_. True"]) simp
  qed (use fewer_delete in blast)
qed

lemma apply_keeps:
  assumes "cap_inv m" "apply_capability_input dropped token data (cm_daemon m) (cm_grants m) = (Inr r, grants)"
  shows "cap_inv (m\<lparr>cm_grants := grants, cm_written := (token, r, data) # cm_written m\<rparr>)"
proof -
  let ?len = "of_nat (length data) :: u64"
  obtain g where g: "map_of (cm_grants m) token = Some g" "r = ig_session g" "?len \<le> ig_remaining g" "length data \<le> MAX_CAPABILITY_WRITE_BYTES"
    and grants: "grants = (if ig_remaining g - ?len = 0 then AList.delete token (cm_grants m)
      else AList.update token (g\<lparr>ig_remaining := ig_remaining g - ?len\<rparr>) (cm_grants m))"
    using assms(2) by (auto simp: apply_capability_input_def Let_def not_less not_le split: if_splits option.splits)
  have len: "unat ?len = length data" using g(4) by (simp add: unat_of_nat MAX_CAPABILITY_WRITE_BYTES_def)
  then have spent: "unat (ig_remaining g - ?len) + length data = unat (ig_remaining g)"
    using g(3) by (simp add: unat_sub word_le_nat_alt)
  have inv: "distinct (map fst (cm_grants m))" "length (cm_grants m) \<le> MAX_INPUT_CAPABILITIES"
    "\<And>i. length (filter (\<lambda>(t, g). ig_session_id g = i) (cm_grants m)) \<le> MAX_INPUT_CAPABILITIES_PER_SESSION"
    "\<And>t q. written_by t q (cm_written m) + remaining_of t q (cm_grants m) \<le> budget_of t q (cm_issued m)"
    using assms(1) by (simp_all add: cap_inv_def)
  have remaining: "remaining_of t q grants + (if t = token \<and> q = r then length data else 0) \<le> remaining_of t q (cm_grants m)" for t q
    using spent g(1,2) by (auto simp: remaining_of_def grants map_of_update AList.delete_conv')
  show ?thesis
  proof (cases "ig_remaining g - ?len = 0")
    case True
    then have "cap_inv (m\<lparr>cm_grants := grants\<rparr>)" using fewer_inv [OF assms(1) fewer_delete] by (simp add: grants)
    moreover have "written_by t q ((token, r, data) # cm_written m) + remaining_of t q grants \<le> budget_of t q (cm_issued m)" for t q
      using remaining [of t q] inv(4) [of t q] by (auto simp: written_by_def)
    ultimately show ?thesis by (simp add: cap_inv_def)
  next
    case False
    let ?f = "\<lambda>(t, h). if t = token then (t, g\<lparr>ig_remaining := ig_remaining g - ?len\<rparr>) else (t, h)"
    have upd: "grants = map ?f (cm_grants m)"
      using alist_update_map [OF g(1) inv(1)] False by (simp add: grants)
    have "map fst grants = map fst (cm_grants m)" by (simp add: upd case_prod_beta)
    then have "distinct (map fst grants)" "length grants = length (cm_grants m)" using inv(1) by (metis, metis length_map)
    moreover have "filter (\<lambda>(t, h). ig_session_id h = i) grants = map ?f (filter (\<lambda>(t, h). ig_session_id h = i) (cm_grants m))" for i
    proof -
      have "ig_session_id (snd (?f x)) = ig_session_id (snd x)" if "x \<in> set (cm_grants m)" for x
      proof -
        obtain t h where x: "x = (t, h)" by fastforce
        then have "map_of (cm_grants m) t = Some h" using that inv(1) by simp
        then show ?thesis using g(1) by (auto simp: x)
      qed
      then show ?thesis unfolding upd filter_map by (intro arg_cong [of _ _ "map ?f"] filter_cong) (auto simp: case_prod_beta)
    qed
    moreover have "written_by t q ((token, r, data) # cm_written m) + remaining_of t q grants \<le> budget_of t q (cm_issued m)" for t q
      using remaining [of t q] inv(4) [of t q] by (auto simp: written_by_def)
    ultimately show ?thesis using inv(2,3) by (simp add: cap_inv_def)
  qed
qed

lemma issue_refused_fewer:
  assumes "issue_input_capability dropped target budget candidates d grants = Some (Inl e, grants')"
  shows "fewer_grants grants' grants"
proof -
  have "grants' = grants \<or> grants' = filter (\<lambda>(t, g). upgrades dropped d (ig_session g)) grants"
    using assms by (auto simp: issue_input_capability_def Let_def split: if_splits option.splits)
  then show ?thesis
  proof
    assume "grants' = grants"
    then show ?thesis unfolding fewer_grants_def by (intro exI [of _ "\<lambda>_. True"]) simp
  qed (auto simp: fewer_grants_def)
qed

lemma cap_step_keeps:
  assumes "cap_inv m" "cap_step uuid_ok e m = Some m'"
  shows "cap_inv m'"
proof (cases e)
  case (IssueCapability dropped target budget candidates)
  then show ?thesis using assms issue_keeps issue_refused_fewer fewer_inv by (fastforce split: option.splits sum.splits)
next
  case (CapabilityInput dropped token data)
  then show ?thesis using assms apply_keeps apply_fewer fewer_inv by (fastforce split: sum.splits prod.splits)
next
  case (RevokeCapability token)
  then show ?thesis using assms fewer_inv [OF assms(1) fewer_delete] by (auto simp: revoke_input_capability_def)
next
  case (DirectoryEvent e)
  have "fewer_grants (case e of RemoveSession r \<Rightarrow> remove_session_grants (ds_id (dm_heap (cm_daemon m) r)) (cm_grants m) | _ \<Rightarrow> cm_grants m) (cm_grants m)"
    unfolding fewer_grants_def remove_session_grants_def by (cases e) (auto intro: exI [of _ "\<lambda>_. True"])
  then show ?thesis using fewer_inv [OF assms(1)] assms(2) DirectoryEvent by (auto simp: cap_inv_def)
qed

text \<open>C11. A capability lets its holder type no more than was granted, and into no other session: whatever is issued, written, revoked or
  removed, the bytes written to a session with a token are at most the budgets that were issued for that token and
  session, and at most 1024 capabilities, 64 of them for one session, are outstanding.\<close>

theorem capability_budget_respected:
  assumes "cap_run uuid_ok events cap_start = Some m"
  shows "written_by token r (cm_written m) \<le> budget_of token r (cm_issued m) \<and> length (cm_grants m) \<le> 1024
    \<and> length (filter (\<lambda>(t, g). ig_session_id g = i) (cm_grants m)) \<le> 64"
proof -
  have "cap_inv m'" if "cap_inv x" "cap_run uuid_ok es x = Some m'" for es x m'
    using that
  proof (induction es arbitrary: x)
    case (Cons e es)
    then show ?case using cap_step_keeps by (fastforce simp: bind_eq_Some_conv)
  qed simp
  moreover have "cap_inv cap_start"
    by (simp add: cap_inv_def cap_start_def written_by_def remaining_of_def budget_of_def MAX_INPUT_CAPABILITIES_def MAX_INPUT_CAPABILITIES_PER_SESSION_def)
  ultimately have "cap_inv m" using assms by blast
  then show ?thesis unfolding cap_inv_def MAX_INPUT_CAPABILITIES_def MAX_INPUT_CAPABILITIES_PER_SESSION_def by (meson add_leD1)
qed

definition capability_example :: "cap_event list" where
  "capability_example = [DirectoryEvent (ReserveIdentity (Some (lit ''work''))),
     DirectoryEvent (CommitSession 0 (lit ''0-1'') [] None None None), IssueCapability [] (lit ''work'') 3 [lit ''t''],
     CapabilityInput [] (lit ''t'') [0x61, 0x62], CapabilityInput [] (lit ''t'') [0x63, 0x64]]"

lemma capability_example_run:
  "\<exists>m. cap_run uuid_example capability_example cap_start = Some m \<and> cm_written m = [(lit ''t'', 0, [0x61, 0x62])]
    \<and> cm_issued m = [(lit ''t'', 0, 3)]"
  by (simp add: capability_example_def cap_start_def example_reserve example_commit issue_input_capability_def apply_capability_input_def
      MAX_INPUT_CAPABILITY_BUDGET_def example_created_def new_session_def resolve_session_locked_def name_facts_example upgrades_def
      draw_token_def MAX_INPUT_CAPABILITIES_def MAX_INPUT_CAPABILITIES_PER_SESSION_def MAX_CAPABILITY_WRITE_BYTES_def Let_def)

theorem capability_budget_respected_witness:
  "\<exists>m. cap_run uuid_example capability_example cap_start = Some m \<and> written_by (lit ''t'') 0 (cm_written m) \<le> budget_of (lit ''t'') 0 (cm_issued m)"
  using capability_example_run capability_budget_respected [of uuid_example capability_example] by blast

section \<open>The parent of a new session\<close>

definition is_pane_id :: "ustring \<Rightarrow> bool" where
  "is_pane_id s \<longleftrightarrow> is_some_and (strip_prefix_str (lit ''%'') s) (\<lambda>digits. digits \<noteq> [] \<and> list_all is_digit_char digits)"

datatype parent_error = TmuxWithCapability | TmuxNotPane | CapabilityNotPane | TokenEmpty | TokenMissing | PaneMissing

definition make_parent_request ::
    "ustring option \<Rightarrow> ustring option \<Rightarrow> ustring option \<Rightarrow> parent_error + parent_request option" where
  "make_parent_request parent_pane_id parent_token tmux_parent_pane_id =
     (case tmux_parent_pane_id of
        Some tmux_pane \<Rightarrow>
          if parent_pane_id \<noteq> None \<or> parent_token \<noteq> None then Inl TmuxWithCapability
          else let pane_id = normalize_target tmux_pane in
            if \<not> is_pane_id pane_id then Inl TmuxNotPane else Inr (Some (ParentTmuxTarget pane_id))
      | None \<Rightarrow>
          (case (parent_pane_id, parent_token) of
             (None, None) \<Rightarrow> Inr None
           | (Some pane, Some token) \<Rightarrow>
               let pane_id = normalize_target pane in
               if \<not> is_pane_id pane_id then Inl CapabilityNotPane
               else if token = [] then Inl TokenEmpty
               else Inr (Some (ParentCapability pane_id token))
           | (Some _, None) \<Rightarrow> Inl TokenMissing
           | (None, Some _) \<Rightarrow> Inl PaneMissing))"

datatype provenance_reason = ExplicitCapability | VerifiedTmux | PeerAncestry | UnavailableNoCandidate | UnavailableInspection
  | RejectedCycle | RejectedDepth | RejectedStale | RejectedUnsupported

record live_session_leader =
  ll_parent :: parent_session
  ll_identity :: proc_identity

datatype implicit_parent_resolution = ParentSelected implicit_parent_proof | ParentRoot provenance_reason

definition live_session_leaders :: "daemon \<Rightarrow> live_session_leader list" where
  "live_session_leaders d = List.map_filter (\<lambda>(i, r).
     let s = dm_heap d r in
     if ds_alive s then map_option (\<lambda>identity. \<lparr>ll_parent = \<lparr>ps_id = ds_id s, ps_pane_id = ds_pane_id s\<rparr>, ll_identity = identity\<rparr>)
       (ds_leader_identity s)
     else None) (by_id (dm_sessions d))"

definition MAX_PROCESS_ANCESTRY_HOPS :: nat where
  "MAX_PROCESS_ANCESTRY_HOPS = 64"

text \<open>The loop over the ancestors: \<open>hops\<close> turns are left, \<open>chain\<close> and \<open>seen\<close> as the code keeps them.\<close>

fun walk_ancestry ::
    "nat \<Rightarrow> proc_identity \<Rightarrow> live_session_leader list \<Rightarrow> (u32 \<Rightarrow> process_snapshot option) \<Rightarrow> process_snapshot list \<Rightarrow> u32 list \<Rightarrow> u32
       \<Rightarrow> implicit_parent_resolution" where
  "walk_ancestry 0 peer leaders inspect chain seen pid = ParentRoot RejectedDepth"
| "walk_ancestry (Suc hops) peer leaders inspect chain seen pid =
     (if pid = 0 then ParentRoot UnavailableNoCandidate
      else if pid \<in> set seen then ParentRoot RejectedCycle
      else let seen = pid # seen in
        case inspect pid of
          None \<Rightarrow> ParentRoot (if pid \<le> 1 then UnavailableNoCandidate else UnavailableInspection)
        | Some snapshot \<Rightarrow>
            if chain = [] \<and> sn_identity snapshot \<noteq> peer then ParentRoot RejectedStale
            else if sn_parent_pid snapshot \<in> set seen then ParentRoot RejectedCycle
            else (case find (\<lambda>leader. ll_identity leader = sn_identity snapshot) leaders of
                Some leader \<Rightarrow>
                  ParentSelected \<lparr>ip_parent = ll_parent leader, ip_leader_identity = ll_identity leader, ip_chain = chain @ [snapshot]\<rparr>
              | None \<Rightarrow>
                  if list_ex (\<lambda>leader. pi_pid (ll_identity leader) = pi_pid (sn_identity snapshot)) leaders
                  then ParentRoot RejectedStale
                  else walk_ancestry hops peer leaders inspect (chain @ [snapshot]) seen (sn_parent_pid snapshot)))"

definition resolve_peer_ancestry ::
    "proc_identity \<Rightarrow> live_session_leader list \<Rightarrow> (u32 \<Rightarrow> process_snapshot option) \<Rightarrow> implicit_parent_resolution" where
  "resolve_peer_ancestry peer leaders inspect =
     walk_ancestry MAX_PROCESS_ANCESTRY_HOPS peer leaders inspect [] [] (pi_pid peer)"

definition resolve_implicit_parent ::
    "daemon \<Rightarrow> bool \<Rightarrow> proc_identity option \<Rightarrow> (u32 \<Rightarrow> process_snapshot option) \<Rightarrow> implicit_parent_resolution" where
  "resolve_implicit_parent d platform_supported peer inspect =
     (case peer of
        None \<Rightarrow> ParentRoot (if platform_supported then UnavailableInspection else RejectedUnsupported)
      | Some peer \<Rightarrow> resolve_peer_ancestry peer (live_session_leaders d) inspect)"

fun chain_unchanged :: "(u32 \<Rightarrow> process_snapshot option) \<Rightarrow> process_snapshot list \<Rightarrow> bool" where
  "chain_unchanged inspect [] \<longleftrightarrow> True"
| "chain_unchanged inspect (expected # chain) \<longleftrightarrow>
     inspect (pi_pid (sn_identity expected)) = Some expected
     \<and> (case chain of [] \<Rightarrow> True | n # _ \<Rightarrow> sn_parent_pid expected = pi_pid (sn_identity n))
     \<and> chain_unchanged inspect chain"

definition validate_implicit_parent_chain :: "implicit_parent_proof \<Rightarrow> (u32 \<Rightarrow> process_snapshot option) \<Rightarrow> bool" where
  "validate_implicit_parent_chain proof inspect \<longleftrightarrow>
     ip_chain proof \<noteq> [] \<and> length (ip_chain proof) \<le> MAX_PROCESS_ANCESTRY_HOPS \<and> chain_unchanged inspect (ip_chain proof)
     \<and> sn_identity (last (ip_chain proof)) = ip_leader_identity proof"

text \<open>A chain of processes, each the parent of the one before, read by the inspector.\<close>

definition ancestry :: "(u32 \<Rightarrow> process_snapshot option) \<Rightarrow> process_snapshot list \<Rightarrow> bool" where
  "ancestry inspect chain \<longleftrightarrow> (\<forall>i<length chain. inspect (pi_pid (sn_identity (chain ! i))) = Some (chain ! i)
     \<and> (Suc i < length chain \<longrightarrow> sn_parent_pid (chain ! i) = pi_pid (sn_identity (chain ! Suc i))))"

lemma ancestry_snoc:
  assumes "ancestry inspect chain" "inspect (pi_pid (sn_identity s)) = Some s" "chain \<noteq> [] \<Longrightarrow> sn_parent_pid (last chain) = pi_pid (sn_identity s)"
  shows "ancestry inspect (chain @ [s])"
  unfolding ancestry_def
proof (intro allI impI)
  fix i assume i: "i < length (chain @ [s])"
  consider "Suc i < length chain" | "Suc i = length chain" | "i = length chain" using i by fastforce
  then show "inspect (pi_pid (sn_identity ((chain @ [s]) ! i))) = Some ((chain @ [s]) ! i)
      \<and> (Suc i < length (chain @ [s]) \<longrightarrow> sn_parent_pid ((chain @ [s]) ! i) = pi_pid (sn_identity ((chain @ [s]) ! Suc i)))"
  proof cases
    case 2
    then have "chain \<noteq> []" "last chain = chain ! i" by (auto simp: last_conv_nth) (metis diff_Suc_1 last_conv_nth list.size(3) nat.simps(3))
    with 2 assms show ?thesis by (auto simp: ancestry_def nth_append)
  qed (use assms in \<open>auto simp: ancestry_def nth_append\<close>)
qed

lemma ancestry_unchanged: "ancestry inspect chain \<Longrightarrow> chain_unchanged inspect chain"
proof (induction chain)
  case (Cons s chain)
  have "ancestry inspect chain" using Cons.prems by (auto simp: ancestry_def)
  moreover have "inspect (pi_pid (sn_identity s)) = Some s" using Cons.prems by (auto simp: ancestry_def)
  moreover have "sn_parent_pid s = pi_pid (sn_identity n)" if "chain = n # rest" for n rest using Cons.prems that by (auto simp: ancestry_def)
  ultimately show ?case using Cons.IH by (auto split: list.split)
qed simp

text \<open>What the loop has found: the ancestors so far, none of them a leader, with different process ids.\<close>

definition walked :: "proc_identity \<Rightarrow> live_session_leader list \<Rightarrow> (u32 \<Rightarrow> process_snapshot option) \<Rightarrow> process_snapshot list \<Rightarrow> u32 list \<Rightarrow> u32 \<Rightarrow> bool" where
  "walked peer leaders inspect chain seen pid \<longleftrightarrow> ancestry inspect chain
     \<and> (chain \<noteq> [] \<longrightarrow> sn_identity (hd chain) = peer \<and> sn_parent_pid (last chain) = pid)
     \<and> seen = rev (map (\<lambda>s. pi_pid (sn_identity s)) chain) \<and> distinct seen
     \<and> (\<forall>s\<in>set chain. \<forall>l\<in>set leaders. pi_pid (ll_identity l) \<noteq> pi_pid (sn_identity s))"

context process_inspector
begin

lemma walk_sound:
  assumes "walk_ancestry hops peer leaders snapshot chain seen pid = ParentSelected proof" "walked peer leaders snapshot chain seen pid"
  shows "\<exists>before leader. ip_chain proof = chain @ before \<and> before \<noteq> [] \<and> length before \<le> hops \<and> leader \<in> set leaders
    \<and> ip_parent proof = ll_parent leader \<and> ip_leader_identity proof = ll_identity leader
    \<and> sn_identity (last (ip_chain proof)) = ll_identity leader \<and> ancestry snapshot (ip_chain proof)
    \<and> sn_identity (hd (ip_chain proof)) = peer \<and> distinct (map (\<lambda>s. pi_pid (sn_identity s)) (ip_chain proof))
    \<and> (\<forall>s\<in>set (butlast (ip_chain proof)). \<forall>l\<in>set leaders. pi_pid (ll_identity l) \<noteq> pi_pid (sn_identity s))"
  using assms
proof (induction hops arbitrary: chain seen pid)
  case (Suc hops)
  obtain s where s: "snapshot pid = Some s" "pid \<notin> set seen" "chain = [] \<longrightarrow> sn_identity s = peer"
    using Suc.prems(1) by (auto simp: Let_def split: if_splits option.splits)
  have pid: "pi_pid (sn_identity s) = pid" by (rule snapshot_pid [OF s(1)])
  have anc: "ancestry snapshot (chain @ [s])" using Suc.prems(2) s(1) pid by (intro ancestry_snoc) (auto simp: walked_def)
  have hd_chain: "sn_identity (hd (chain @ [s])) = peer" using Suc.prems(2) s(3) by (cases chain) (auto simp: walked_def)
  have distinct: "distinct (map (\<lambda>s. pi_pid (sn_identity s)) (chain @ [s]))"
    using Suc.prems(2) s(2) pid by (auto simp: walked_def)
  show ?case
  proof (cases "find (\<lambda>leader. ll_identity leader = sn_identity s) leaders")
    case (Some leader)
    then have leader: "leader \<in> set leaders" "ll_identity leader = sn_identity s" by (auto simp: find_Some_iff)
    have "proof = \<lparr>ip_parent = ll_parent leader, ip_leader_identity = ll_identity leader, ip_chain = chain @ [s]\<rparr>"
      using Suc.prems(1) s Some by (auto simp: Let_def split: if_splits)
    then show ?thesis using leader anc hd_chain distinct Suc.prems(2)
      by (intro exI [of _ "[s]"] exI [of _ leader]) (auto simp: walked_def)
  next
    case None
    have rec: "walk_ancestry hops peer leaders snapshot (chain @ [s]) (pid # seen) (sn_parent_pid s) = ParentSelected proof"
      and fresh: "\<forall>l\<in>set leaders. pi_pid (ll_identity l) \<noteq> pi_pid (sn_identity s)"
      using Suc.prems(1) s None by (auto simp: Let_def list_ex_iff split: if_splits)
    have "walked peer leaders snapshot (chain @ [s]) (pid # seen) (sn_parent_pid s)"
      using anc hd_chain distinct fresh Suc.prems(2) pid s(2) by (auto simp: walked_def)
    from Suc.IH [OF rec this] obtain before leader where *: "ip_chain proof = (chain @ [s]) @ before" "length before \<le> hops" "leader \<in> set leaders"
      "ip_parent proof = ll_parent leader" "ip_leader_identity proof = ll_identity leader"
      "sn_identity (last (ip_chain proof)) = ll_identity leader" "ancestry snapshot (ip_chain proof)"
      "sn_identity (hd (ip_chain proof)) = peer" "distinct (map (\<lambda>s. pi_pid (sn_identity s)) (ip_chain proof))"
      "\<forall>s\<in>set (butlast (ip_chain proof)). \<forall>l\<in>set leaders. pi_pid (ll_identity l) \<noteq> pi_pid (sn_identity s)" by blast
    then show ?thesis by (intro exI [of _ "s # before"] exI [of _ leader]) simp
  qed
qed simp

end

text \<open>C12. An implicit parent is proved: when the daemon picks a session as the parent of a new one from the processes above the client, it has a
  chain of at most 64 different processes, from the client to the leader of that session, each the parent of the one
  before it as the system reports them, no leader of a live session is nearer, and the check before the commit accepts
  the chain as long as the processes have not changed.\<close>

theorem implicit_parent_is_proved:
  assumes "resolve_implicit_parent d platform_supported (Some peer) (system_process_snapshot read_stat) = ParentSelected proof"
  shows "sn_identity (hd (ip_chain proof)) = peer \<and> sn_identity (last (ip_chain proof)) = ip_leader_identity proof
    \<and> ancestry (system_process_snapshot read_stat) (ip_chain proof) \<and> distinct (map (\<lambda>s. pi_pid (sn_identity s)) (ip_chain proof))
    \<and> length (ip_chain proof) \<le> 64 \<and> validate_implicit_parent_chain proof (system_process_snapshot read_stat)
    \<and> list_all (\<lambda>s. list_all (\<lambda>l. pi_pid (ll_identity l) \<noteq> pi_pid (sn_identity s)) (live_session_leaders d)) (butlast (ip_chain proof))
    \<and> (\<exists>r i. (i, r) \<in> set (by_id (dm_sessions d)) \<and> ds_alive (dm_heap d r) \<and> ds_id (dm_heap d r) = ps_id (ip_parent proof)
        \<and> ds_leader_identity (dm_heap d r) = Some (ip_leader_identity proof))"
proof -
  have "walked peer (live_session_leaders d) (system_process_snapshot read_stat) [] [] (pi_pid peer)" by (simp add: walked_def ancestry_def)
  from system_inspector.walk_sound [OF assms [simplified resolve_implicit_parent_def resolve_peer_ancestry_def option.case] this]
  obtain leader where *: "ip_chain proof \<noteq> []" "length (ip_chain proof) \<le> MAX_PROCESS_ANCESTRY_HOPS" "leader \<in> set (live_session_leaders d)"
    "ip_parent proof = ll_parent leader" "ip_leader_identity proof = ll_identity leader"
    "sn_identity (last (ip_chain proof)) = ll_identity leader" "ancestry (system_process_snapshot read_stat) (ip_chain proof)"
    "sn_identity (hd (ip_chain proof)) = peer" "distinct (map (\<lambda>s. pi_pid (sn_identity s)) (ip_chain proof))"
    "\<forall>s\<in>set (butlast (ip_chain proof)). \<forall>l\<in>set (live_session_leaders d). pi_pid (ll_identity l) \<noteq> pi_pid (sn_identity s)" by auto
  have "\<exists>r i. (i, r) \<in> set (by_id (dm_sessions d)) \<and> ds_alive (dm_heap d r) \<and> ds_id (dm_heap d r) = ps_id (ip_parent proof)
      \<and> ds_leader_identity (dm_heap d r) = Some (ip_leader_identity proof)"
    using *(3-5) by (auto simp: live_session_leaders_def map_filter_def Let_def split: if_splits) blast
  with * ancestry_unchanged show ?thesis
    by (auto simp: validate_implicit_parent_chain_def list_all_iff MAX_PROCESS_ANCESTRY_HOPS_def)
qed

text \<open>A client started by a shell that leads a session.\<close>

definition stat_example :: "u32 \<Rightarrow> ustring option" where
  "stat_example pid = (let line = (\<lambda>parent ticks. stat_line pid (lit ''sh'') (lit ''S'' # lit parent # replicate 17 (lit ''0'') @ [lit ticks])) in
     if pid = 43 then Some (line ''42'' ''900'') else if pid = 42 then Some (line ''1'' ''700'') else None)"

definition snapshot_example :: "u32 \<Rightarrow> string \<Rightarrow> u32 \<Rightarrow> process_snapshot" where
  "snapshot_example pid marker parent = \<lparr>sn_identity = \<lparr>pi_pid = pid, pi_start_marker = lit marker\<rparr>, sn_parent_pid = parent\<rparr>"

definition ancestry_daemon :: daemon where
  "ancestry_daemon = daemon_start\<lparr>dm_heap := (\<lambda>_. new_session (lit ''main'', lit ''%1'') (lit ''id'') (lit ''token'')
      (Some (sn_identity (snapshot_example 42 ''linux:42:700'' 1))) None),
     dm_allocated := 1, dm_sessions := (dm_sessions daemon_start)\<lparr>by_id := [(lit ''id'', 0)]\<rparr>\<rparr>"

lemma stat_example_read:
  "system_process_snapshot stat_example 43 = Some (snapshot_example 43 ''linux:43:900'' 42)"
  "system_process_snapshot stat_example 42 = Some (snapshot_example 42 ''linux:42:700'' 1)"
proof -
  let ?columns = "\<lambda>parent ticks. lit ''S'' # lit parent # replicate 17 (lit ''0'') @ [lit ticks]"
  have read: "system_process_snapshot stat_example pid = Some (snapshot_example pid marker parent)"
    if "stat_example pid = Some (stat_line pid (lit ''sh'') (?columns digits ticks))" "list_all field_ok [lit digits, lit ticks]"
      "lit digits = decimal (unat parent)" "lit marker = lit ''linux:'' @ decimal (unat pid) @ lit '':'' @ lit ticks"
    for pid parent :: u32 and marker digits ticks
  proof -
    have "list_all field_ok (?columns digits ticks)" using that(2) by (simp add: list_all_iff field_ok_def lit_def is_whitespace_def)
    from stat_line_split [OF _ this, of pid "lit ''sh''"]
    obtain tail where "split_once_str (lit '' ('') (stat_line pid (lit ''sh'') (?columns digits ticks)) = Some (decimal (unat pid), lit ''sh'' @ lit '') '' @ tail)"
      "rsplit_once_str (lit '') '') (lit ''sh'' @ lit '') '' @ tail) = Some (lit ''sh'', tail)" "str_split_whitespace tail = ?columns digits ticks" by auto
    then show ?thesis using that(1,3,4) parse_u32_decimal [of pid] parse_u32_decimal [of parent]
      by (simp add: system_process_snapshot_def parse_linux_process_stat_def snapshot_example_def Let_def nth_append)
  qed
  show "system_process_snapshot stat_example 43 = Some (snapshot_example 43 ''linux:43:900'' 42)"
    by (rule read [of _ "''42''" "''900''"]) (simp_all add: stat_example_def lit_def field_ok_def is_whitespace_def decimal.simps)
  show "system_process_snapshot stat_example 42 = Some (snapshot_example 42 ''linux:42:700'' 1)"
    by (rule read [of _ "''1''" "''700''"]) (simp_all add: stat_example_def lit_def field_ok_def is_whitespace_def decimal.simps)
qed

lemma ancestry_example_found:
  "resolve_implicit_parent ancestry_daemon True (Some (sn_identity (snapshot_example 43 ''linux:43:900'' 42))) (system_process_snapshot stat_example)
     = ParentSelected \<lparr>ip_parent = \<lparr>ps_id = lit ''id'', ps_pane_id = lit ''%1''\<rparr>,
         ip_leader_identity = sn_identity (snapshot_example 42 ''linux:42:700'' 1),
         ip_chain = [snapshot_example 43 ''linux:43:900'' 42, snapshot_example 42 ''linux:42:700'' 1]\<rparr>"
proof -
  let ?leader = "\<lparr>ll_parent = \<lparr>ps_id = lit ''id'', ps_pane_id = lit ''%1''\<rparr>, ll_identity = sn_identity (snapshot_example 42 ''linux:42:700'' 1)\<rparr>"
  have leaders: "live_session_leaders ancestry_daemon = [?leader]"
    by (simp add: live_session_leaders_def ancestry_daemon_def new_session_def map_filter_def)
  have walk: "walk_ancestry (Suc (Suc hops)) (sn_identity (snapshot_example 43 ''linux:43:900'' 42)) [?leader] (system_process_snapshot stat_example) [] [] 43
      = ParentSelected \<lparr>ip_parent = ll_parent ?leader, ip_leader_identity = ll_identity ?leader,
         ip_chain = [snapshot_example 43 ''linux:43:900'' 42, snapshot_example 42 ''linux:42:700'' 1]\<rparr>" for hops
    by (simp add: stat_example_read) (simp add: snapshot_example_def stat_example_read)
  have "MAX_PROCESS_ANCESTRY_HOPS = Suc (Suc 62)" by (simp add: MAX_PROCESS_ANCESTRY_HOPS_def)
  with walk [of 62] show ?thesis by (simp only: resolve_implicit_parent_def resolve_peer_ancestry_def leaders option.case) (simp add: snapshot_example_def)
qed

theorem implicit_parent_is_proved_witness:
  "validate_implicit_parent_chain \<lparr>ip_parent = \<lparr>ps_id = lit ''id'', ps_pane_id = lit ''%1''\<rparr>,
     ip_leader_identity = sn_identity (snapshot_example 42 ''linux:42:700'' 1),
     ip_chain = [snapshot_example 43 ''linux:43:900'' 42, snapshot_example 42 ''linux:42:700'' 1]\<rparr> (system_process_snapshot stat_example)"
  using implicit_parent_is_proved [OF ancestry_example_found] by blast

end
