(* ===== verification/Spec2Isabelle.thy ===== *)
theory Spec2Isabelle
  imports Status_Line Tournament_Store Client_Ledger Exit_Journal Launch_Safety Tmux_Commands Server_Attach Server_Requests
begin

text \<open>
  A verification library for \<open>light_terminal\<close> (\<open>lterm\<close>), a terminal multiplexer for coding agents. A daemon
  (\<open>server.rs\<close>) owns the panes; clients (\<open>client.rs\<close>, \<open>main.rs\<close>, \<open>tmux_compat.rs\<close>) talk to it in JSON lines
  (\<open>protocol.rs\<close>). Untrusted terminal output passes through \<open>sanitize.rs\<close> before anything reports it. The end of a
  session is claimed, published and journalled by \<open>session_lifecycle.rs\<close>. A \<^emph>\<open>speculative tournament\<close> runs a task
  twice and keeps the better candidate: \<open>speculation.rs\<close> has its rules, \<open>speculation_registry.rs\<close> stores its record,
  \<open>speculation_ledger.rs\<close> is the client's memory of it, and both store JSON files through \<open>speculation_fs.rs\<close>.

  \<^bold>\<open>Theories and sources.\<close>

  \<^item> \<open>Prelude\<close>: machine integers, checked and saturating arithmetic, results and their bind, list searches, waiting on condition
    variables, and the two contracts that several components meet: \<open>state_machine\<close> (an invariant of a step relation) and
    \<open>versioned_cell\<close> (a cell written by compare-and-swap).

  \<^item> \<open>Speculation_Core\<close> (\<open>speculation.rs\<close>, status types of \<open>protocol.rs\<close>): scoring, the graph of phases,
    generations. Scoring is symmetric and picks only eligible candidates; \<open>Selected\<close> has one way in; rollback stays
    possible and is final; a generation is spent once.

  \<^item> \<open>Terminal_Sanitize\<close>, \<open>Status_Line\<close> (\<open>sanitize.rs\<close>): the capture automaton with its state between chunks, and the
    status row. No control character survives; splitting the input into chunks changes nothing; a complete escape
    sequence leaves no trace; a row has only bounded, closed colour sequences and fits its width.

  \<^item> \<open>Wire_Base64\<close> (\<open>protocol.rs\<close>): the base64 codec, the bounded visitors and the speculation DTOs, with their
    round trips and limits.

  \<^item> \<open>Evidence_FS\<close> (\<open>speculation_fs.rs\<close>): records in a private directory. The system is a record of answers, one for
    each call; a property for all answers covers every failure. Writes are atomic, are read back, and are
    compare-and-swap on the identity of the file. The locale \<open>record_store\<close> is what its clients rely on.

  \<^item> \<open>Tournament_Record\<close>, \<open>Tournament_Store\<close> (\<open>speculation_registry.rs\<close>, with the fields of
    \<open>speculation_service.rs\<close> that feed the score): validation of records, lifecycles, the manifest, and the store of
    1024 slots. After any sequence of operations the records in memory are those on disk, no tournament is stored
    twice, generations are spent once, and cgroups are removed in order.

  \<^item> \<open>Client_Ledger\<close> (\<open>speculation_ledger.rs\<close>): one request for each generation, entries read back as they were written,
    and no authority for an entry of an earlier boot.

  \<^item> \<open>Session_Lifecycle\<close> (\<open>session_lifecycle.rs\<close>, \<open>LifecyclePublication\<close>): each method is an atomic step, and
    \<open>publication_step\<close> interleaves them. The first claim decides, the first outcome stays, and a waiting thread, which sleeps on a
    condition variable for the time that remains, returns once the deadline has passed even if nobody notifies it.

  \<^item> \<open>Exit_Events\<close> (\<open>session_lifecycle.rs\<close>, events and \<open>fold_events\<close>): the listing of recent exits depends only on the set
    of events, reports what events say and marks contradictions; stored events are loaded unchanged.

  \<^item> \<open>Exit_Journal\<close> (\<open>session_lifecycle.rs\<close>, storage and writer): two segments with rotation and repair, a line reader, and a
    writer that serves a bounded queue. \<open>journal_step\<close> interleaves them with every failure of a system call. Segments stay
    bounded, a journal that is not marked as degraded is what a restart reads, every waiting thread is answered, and
    reading does not depend on the sizes of the blocks. A torn write is shown to spoil the next event, which is acknowledged and
    not loaded again.

  \<^item> \<open>Launch_Record\<close>, \<open>Launch_Registry\<close>, \<open>Launch_Safety\<close> (\<open>launch_registry.rs\<close>): the slots of managed launches, from the
    intent to start a process to the removal of its private artifacts. \<open>validate_transition\<close> is modelled clause by clause;
    \<open>registry_step\<close> runs any operation with any failures. A slot follows one history, owners are unique, artifacts are
    removed in order and forgotten only by the acknowledgement of a complete cleanup, an unresolved creation is kept for an
    operator, a tombstone needs evidence, and a signal goes only through a descriptor whose process was verified after it
    was opened.

  \<^item> \<open>Tmux_Store\<close>, \<open>Tmux_Invariant\<close>, \<open>Tmux_Laws\<close> (\<open>tmux_compat.rs\<close>): the store of the tmux shim, one JSON file under a lock,
    with the operations on panes, user options, wait channels and attach leases, the loop of \<open>wait-for\<close>, and the tree of a
    session. \<open>compat_step\<close> is any invocation with any answers. The store is bounded (the wait channels by one more than their
    limit, until the next pruning), options read back, a pane has one attached surface, the tree that is killed is complete,
    and a signal wakes the waiter, whatever other commands run, unless its channel has expired or was dropped because there
    were too many.

  \<^item> \<open>Tmux_Args\<close>, \<open>Tmux_Commands\<close> (\<open>tmux_compat.rs\<close>): the command lines of the shim, from clusters of short flags to the
    arguments of the commands, the bytes of keys and the expansion of formats. \<open>shim_step\<close> is any run by commands. Shown options
    and expanded formats cannot drive a terminal, flags and their values are read consistently, literal keys are sent
    as typed, and options are routed as they are parsed.

  \<^item> \<open>Server_Output\<close> (\<open>server.rs\<close>, \<open>OutputState\<close>, captures, \<open>WaitContainsScanner\<close>, \<open>wait_for_session_contains\<close>): the ring of a
    session's output, the ranges of lines that a capture copies, and the search for a text in output that keeps arriving. The
    incremental search finds what a search of everything would, and what a waiting client is told is true.

  \<^item> \<open>Server_Attach\<close> (\<open>server.rs\<close>, \<open>TerminalPrefixTracker\<close>, subscribers, \<open>broadcast\<close>, sizes): what an attached client
    receives. Its stream has no gaps, clients and channels are bounded, and the bytes after the picture replay an open
    escape sequence.

  \<^item> \<open>Server_Sessions\<close> (\<open>server.rs\<close>, \<open>SessionMaps\<close> and the metadata journal): names, panes and numbers of the sessions.
    \<open>dir_step\<close> interleaves reservations, commits, renames, undo, redo, purges, claims of an end and removals; the admission of a
    rename and its commit are separate steps, since a claim may come between them. Every live session is found by its
    name, pane and id, undo and redo are inverse, and a session that is ending keeps its name.

  \<^item> \<open>Server_Requests\<close>, \<open>Process_Identity\<close> (\<open>server.rs\<close>, \<open>process_identity.rs\<close>): the framing of requests, capabilities to
    write input with a budget, and the parent of a new session, found by walking up from the process of the client. The inspector
    of processes is the locale \<open>process_inspector\<close>, interpreted on the parser of \<open>/proc/<pid>/stat\<close>.

  \<^bold>\<open>Conventions.\<close> Rust's integers are words of their width; a string is the list of its code points, bytes are
  \<open>8 word\<close>. Errors are the left side of a sum. Loops are total functions with a measure, or structural; the only
  bounded run is \<open>wait_loop\<close>, which takes one sleep for each turn: what the other threads do, when they notify it if at all, and
  how long it takes the thread to run again. As many sleeps as there are ticks until the deadline are enough. \<open>writer_run\<close> takes one answer for each turn, and as many turns as there are
  requests empty the queue. Code of other crates (JSON, UUIDs, widths of characters, segmentation) is a parameter, with
  what is relied on as a hypothesis, such as \<open>journal_codec_ok\<close> and \<open>launch_codec_ok\<close>; a concrete codec shows that it can hold.

  \<^bold>\<open>Not modelled.\<close> \<open>speculation_linux.rs\<close>, \<open>speculation_runner.rs\<close> and most of \<open>speculation_service.rs\<close> drive
  namespaces, cgroups and processes; \<open>client.rs\<close>, \<open>main.rs\<close> and the rest of \<open>tmux_compat.rs\<close> are sockets, terminals and
  argument parsing around the components above; \<open>paths.rs\<close> reads the environment. Of \<open>server.rs\<close> the sockets, the PTYs,
  spawning and terminating processes, the styled screens, the dispatch of speculation requests and the environment of new
  processes are left out, and the terminal emulator is a parameter. Of \<open>process_identity.rs\<close> the reader for macOS is left out.
  Of \<open>launch_registry.rs\<close> the migration of old registries, the layout on disk, the launch through the gate and its
  descriptors, and the reaper queue are left out. Of \<open>tmux_compat.rs\<close> running cmux and shell commands is left out.
\<close>

end
